(* ===== verification/Nachos_Prelude.thy ===== *)
theory Nachos_Prelude
  imports Main "HOL-Library.Word" "HOL-Library.Multiset"
begin

unbundle bit_operations_syntax

text \<open>
  Shared vocabulary of the Nachos development: the error values that stand for a failed
  \<^verbatim>\<open>ASSERT\<close> and for the undefined behaviour the C++ code can run into, sequencing of
  computations that can fail, the integer macros of \<^verbatim>\<open>threads/utility.h\<close>, the machine
  integer types, and generic lemmas on lists and words used by more than one component.
\<close>

named_theorems result_simps \<open>evaluation of computations that can fail\<close>
named_theorems nachos_defs \<open>definitions of small constants and macros\<close>

section \<open>Machine integers\<close>

type_synonym byte = "8 word"
type_synonym half = "16 word"
type_synonym word32 = "32 word"

section \<open>Failure\<close>

text \<open>
  A function of the source can end in a failed \<^verbatim>\<open>ASSERT\<close> (\<^verbatim>\<open>utility.h\<close>: the process
  aborts), read through a null or dangling pointer, or index an array outside its bounds.
  Each is an error value; \<open>Out_Of_Fuel\<close> marks a pointer walk that did not end within the
  number of cells ever allocated, \<open>Host_Trap\<close> an arithmetic trap of the host machine,
  \<open>Halted\<close> a call of \<^verbatim>\<open>Interrupt::Halt\<close> or \<^verbatim>\<open>Exit\<close>, which ends the process, \<open>Int_Overflow\<close> a signed
  addition whose sum does not fit an \<^verbatim>\<open>int\<close>, and \<open>No_Memory\<close> a request that operator \<^verbatim>\<open>new\<close> refuses. A
  result of type \<open>nerror + 'a\<close> is \<open>Inl\<close> the error or
  \<open>Inr\<close> the value.
\<close>

datatype nerror = Assert_Failed | Null_Deref | Bad_Pointer | Bad_Index | Host_Trap | Out_Of_Fuel
  | Halted | Int_Overflow | No_Memory

type_synonym 'a result = "nerror + 'a"

definition rbind :: "'a result \<Rightarrow> ('a \<Rightarrow> 'b result) \<Rightarrow> 'b result" where
  "rbind m f = (case m of Inl e \<Rightarrow> Inl e | Inr a \<Rightarrow> f a)"

definition ASSERT :: "bool \<Rightarrow> unit result" where
  "ASSERT c = (if c then Inr () else Inl Assert_Failed)"

lemma rbind_simps [simp, result_simps]:
  "rbind (Inl e) f = Inl e"
  "rbind (Inr a) f = f a"
  by (simp_all add: rbind_def)

lemma rbind_eq_Inr [result_simps]:
  "rbind m f = Inr b \<longleftrightarrow> (\<exists>a. m = Inr a \<and> f a = Inr b)"
  by (cases m) simp_all

lemma Inr_eq_rbind:
  "Inr b = rbind m f \<longleftrightarrow> (\<exists>a. m = Inr a \<and> f a = Inr b)"
  by (cases m) auto

lemma rbind_assoc: "rbind (rbind m f) g = rbind m (\<lambda>a. rbind (f a) g)"
  by (cases m) simp_all

lemma rbind_cong [fundef_cong]:
  "m = m' \<Longrightarrow> (\<And>a. m' = Inr a \<Longrightarrow> f a = f' a) \<Longrightarrow> rbind m f = rbind m' f'"
  by (cases m') simp_all

lemma rbind_map_sum: "rbind (map_sum id f r) g = rbind r (\<lambda>x. g (f x))"
  by (cases r) simp_all

lemma map_sum_rbind: "map_sum id f (rbind r g) = rbind r (\<lambda>x. map_sum id f (g x))"
  by (cases r) simp_all

lemma ASSERT_simps [simp, result_simps]:
  "ASSERT True = Inr ()"
  "ASSERT False = Inl Assert_Failed"
  by (simp_all add: ASSERT_def)

lemma ASSERT_eq_Inr [simp]: "ASSERT c = Inr u \<longleftrightarrow> c"
  by (simp add: ASSERT_def)

text \<open>Reading and writing an array cell, with the bounds the C++ code does not check.\<close>

definition array_get :: "'a list \<Rightarrow> nat \<Rightarrow> 'a result" where
  "array_get xs i = (if i < length xs then Inr (xs ! i) else Inl Bad_Index)"

definition array_set :: "'a list \<Rightarrow> nat \<Rightarrow> 'a \<Rightarrow> 'a list result" where
  "array_set xs i v = (if i < length xs then Inr (xs[i := v]) else Inl Bad_Index)"

lemma array_get_ok [simp]: "i < length xs \<Longrightarrow> array_get xs i = Inr (xs ! i)"
  by (simp add: array_get_def)

lemma array_set_ok [simp]: "i < length xs \<Longrightarrow> array_set xs i v = Inr (xs[i := v])"
  by (simp add: array_set_def)

lemma array_get_eq_Inr: "array_get xs i = Inr v \<longleftrightarrow> i < length xs \<and> v = xs ! i"
  by (auto simp: array_get_def)

lemma array_set_eq_Inr: "array_set xs i v = Inr ys \<longleftrightarrow> i < length xs \<and> ys = xs[i := v]"
  by (auto simp: array_set_def)

section \<open>Integer macros of utility.h\<close>

text \<open>
  \<^verbatim>\<open>divRoundUp\<close> and \<^verbatim>\<open>divRoundDown\<close> on the non-negative values the code passes them;
  truncating and flooring division agree there.
\<close>

definition divRoundDown :: "nat \<Rightarrow> nat \<Rightarrow> nat" where
  "divRoundDown n s = n div s"

definition divRoundUp :: "nat \<Rightarrow> nat \<Rightarrow> nat" where
  "divRoundUp n s = n div s + (if n mod s > 0 then 1 else 0)"

lemma divRoundUp_le_iff:
  assumes "0 < s"
  shows "divRoundUp n s \<le> k \<longleftrightarrow> n \<le> k * s"
proof (cases "n mod s = 0")
  case True
  then have n: "n = n div s * s"
    using div_mult_mod_eq [of n s] by simp
  have "n div s \<le> k \<longleftrightarrow> n div s * s \<le> k * s"
    using assms by simp
  with True n show ?thesis
    by (simp add: divRoundUp_def)
next
  case False
  have "n div s + 1 \<le> k \<longleftrightarrow> n div s < k" by linarith
  also have "\<dots> \<longleftrightarrow> n < k * s"
    using assms by (simp add: div_less_iff_less_mult)
  also have "\<dots> \<longleftrightarrow> n \<le> k * s"
    using False by (metis le_neq_implies_less less_imp_le_nat mod_mult_self2_is_0)
  finally show ?thesis
    using False by (simp add: divRoundUp_def)
qed

lemma divRoundUp_mult_ge: "0 < s \<Longrightarrow> n \<le> divRoundUp n s * s"
  using divRoundUp_le_iff [of s n "divRoundUp n s"] by simp

lemma divRoundUp_mult_less: "0 < s \<Longrightarrow> 0 < n \<Longrightarrow> (divRoundUp n s - 1) * s < n"
  using divRoundUp_le_iff [of s n "divRoundUp n s - 1"]
  by (cases "divRoundUp n s") (auto simp: not_le divRoundUp_def)

lemma less_divRoundUp_iff: "0 < s \<Longrightarrow> k < divRoundUp n s \<longleftrightarrow> k * s < n"
  using divRoundUp_le_iff [of s n k] by linarith

section \<open>Lists\<close>

lemma nth_take_drop_slice:
  "a \<le> i \<Longrightarrow> i < a + n \<Longrightarrow> i < length xs \<Longrightarrow> take n (drop a xs) ! (i - a) = xs ! i"
  by simp

lemma length_concat_uniform:
  "(\<And>x. x \<in> set xs \<Longrightarrow> length x = n) \<Longrightarrow> length (concat xs) = length xs * n"
  by (induction xs) auto

lemma nth_concat_uniform:
  assumes "\<And>x. x \<in> set xs \<Longrightarrow> length x = n" "i < length xs" "j < n"
  shows "concat xs ! (i * n + j) = xs ! i ! j"
  using assms
proof (induction xs arbitrary: i)
  case Nil
  then show ?case by simp
next
  case (Cons x xs)
  then show ?case
    by (cases i) (auto simp: nth_append)
qed

lemma nth_concat_uniform_div:
  assumes "\<And>x. x \<in> set xs \<Longrightarrow> length x = n" "k < length xs * n"
  shows "concat xs ! k = xs ! (k div n) ! (k mod n)"
proof -
  have "0 < n" using assms(2) by (cases n) auto
  then have "k div n < length xs" "k mod n < n"
    using assms(2) by (auto simp: div_less_iff_less_mult)
  from nth_concat_uniform [OF assms(1) this] show ?thesis by simp
qed

section \<open>Words and their bytes\<close>

text \<open>A 32-bit word from its bytes, least significant first, and byte \<open>i\<close> of a word.\<close>

definition word_le :: "byte \<Rightarrow> byte \<Rightarrow> byte \<Rightarrow> byte \<Rightarrow> word32" where
  "word_le a b c d =
     ucast a OR push_bit 8 (ucast b) OR push_bit 16 (ucast c) OR push_bit 24 (ucast d)"

definition byte_of :: "nat \<Rightarrow> word32 \<Rightarrow> byte" where
  "byte_of i w = ucast (drop_bit (8 * i) w)"

definition half_le :: "byte \<Rightarrow> byte \<Rightarrow> half" where
  "half_le a b = ucast a OR push_bit 8 (ucast b)"

definition half_byte_of :: "nat \<Rightarrow> half \<Rightarrow> byte" where
  "half_byte_of i w = ucast (drop_bit (8 * i) w)"

lemma bit_word_le:
  "bit (word_le a b c d) n \<longleftrightarrow> (if n < 8 then bit a n else if n < 16 then bit b (n - 8)
     else if n < 24 then bit c (n - 16) else bit d (n - 24))"
  by (auto simp: word_le_def bit_or_iff bit_push_bit_iff bit_ucast_iff dest: bit_imp_le_length)

lemma bit_half_le:
  "bit (half_le a b) n \<longleftrightarrow> (if n < 8 then bit a n else bit b (n - 8))"
  by (auto simp: half_le_def bit_or_iff bit_push_bit_iff bit_ucast_iff dest: bit_imp_le_length)

lemma word_le_bytes [simp]:
  "word_le (byte_of 0 w) (byte_of (Suc 0) w) (byte_of 2 w) (byte_of 3 w) = w"
  by (rule bit_eqI) (auto simp: bit_word_le byte_of_def bit_ucast_iff bit_drop_bit_eq)

lemma byte_of_word_le [simp]:
  "byte_of 0 (word_le a b c d) = a" "byte_of (Suc 0) (word_le a b c d) = b"
  "byte_of 2 (word_le a b c d) = c" "byte_of 3 (word_le a b c d) = d"
  by (rule bit_eqI; simp add: bit_word_le byte_of_def bit_ucast_iff bit_drop_bit_eq)+

lemma half_le_bytes [simp]: "half_le (half_byte_of 0 w) (half_byte_of (Suc 0) w) = w"
  by (rule bit_eqI) (auto simp: bit_half_le half_byte_of_def bit_ucast_iff bit_drop_bit_eq)

lemma half_byte_of_half_le [simp]:
  "half_byte_of 0 (half_le a b) = a" "half_byte_of (Suc 0) (half_le a b) = b"
  by (rule bit_eqI; simp add: bit_half_le half_byte_of_def bit_ucast_iff bit_drop_bit_eq)+

text \<open>The byte masks of the sources, in the form the bit lemmas know.\<close>

lemma byte_masks:
  "(0xff :: word32) = mask 8" "(0xff00 :: word32) = push_bit 8 (mask 8)"
  "(0xff0000 :: word32) = push_bit 16 (mask 8)" "(0xff000000 :: word32) = push_bit 24 (mask 8)"
  "(0xffff :: word32) = mask 16"
  by (simp_all add: mask_eq_exp_minus_1)

lemma half_masks: "(0xff :: half) = mask 8" "(0xff00 :: half) = push_bit 8 (mask 8)"
  by (simp_all add: mask_eq_exp_minus_1)

lemmas bit_word_simps = bit_and_iff bit_or_iff bit_xor_iff bit_push_bit_iff bit_drop_bit_eq
  bit_mask_iff bit_ucast_iff

end
