(* ===== verification/Machine_State.thy ===== *)
theory Machine_State
  imports Nachos_Prelude
begin

text \<open>
  The simulated machine of \<^verbatim>\<open>machine/machine.h\<close>, \<^verbatim>\<open>machine/machine.cc\<close>,
  \<^verbatim>\<open>machine/translate.h\<close> and \<^verbatim>\<open>machine/translate.cc\<close>: registers, main memory, page table or
  TLB, address translation, and reads and writes of virtual memory. A memory access that
  cannot be translated raises an exception: the model carries out what
  \<^verbatim>\<open>RaiseException\<close> does to the registers and hands the exception to the caller (\<open>Trap\<close>), since
  the code that touched memory returns at once when the kernel's handler is done.
\<close>

section \<open>Data\<close>

definition SectorSize :: nat where "SectorSize = 256"
definition PageSize :: nat where "PageSize = SectorSize"
definition NumPhysPages :: nat where "NumPhysPages = 32"
definition MemorySize :: nat where "MemorySize = NumPhysPages * PageSize"
definition TLBSize :: nat where "TLBSize = 4"

datatype ExceptionType = NoException | SyscallException | PageFaultException | ReadOnlyException
  | BusErrorException | AddressErrorException | OverflowException | IllegalInstrException
  | NumExceptionTypes

definition StackReg :: nat where "StackReg = 29"
definition RetAddrReg :: nat where "RetAddrReg = 31"
definition HiReg :: nat where "HiReg = 32"
definition LoReg :: nat where "LoReg = 33"
definition PCReg :: nat where "PCReg = 34"
definition NextPCReg :: nat where "NextPCReg = 35"
definition PrevPCReg :: nat where "PrevPCReg = 36"
definition LoadReg :: nat where "LoadReg = 37"
definition LoadValueReg :: nat where "LoadValueReg = 38"
definition BadVAddrReg :: nat where "BadVAddrReg = 39"
definition NumTotalRegs :: nat where "NumTotalRegs = 40"

lemmas reg_defs = StackReg_def RetAddrReg_def HiReg_def LoReg_def PCReg_def NextPCReg_def
  PrevPCReg_def LoadReg_def LoadValueReg_def BadVAddrReg_def NumTotalRegs_def

record TranslationEntry =
  virtualPage :: word32
  physicalPage :: word32
  valid :: bool
  readOnly :: bool
  use :: bool
  dirty :: bool

text \<open>
  \<open>pageTable\<close> and \<open>tlb\<close> are the arrays the pointers of the class point to, \<open>None\<close> for NULL.
  \<open>hostBigEndian\<close> is the compile-time switch \<^verbatim>\<open>HOST_IS_BIG_ENDIAN\<close>.
\<close>

record machine =
  registers :: "word32 list"
  mainMemory :: "nat \<Rightarrow> byte"
  tlb :: "TranslationEntry list option"
  pageTable :: "TranslationEntry list option"
  pageTableSize :: word32
  singleStep :: bool
  hostBigEndian :: bool

definition Machine_new :: "bool \<Rightarrow> bool \<Rightarrow> bool \<Rightarrow> word32 \<Rightarrow> machine" where
  "Machine_new big_endian use_tlb debug garbage_size =
     \<lparr>registers = replicate NumTotalRegs 0, mainMemory = (\<lambda>_. 0),
      tlb = (if use_tlb then Some (replicate TLBSize \<lparr>virtualPage = 0, physicalPage = 0,
               valid = False, readOnly = False, use = False, dirty = False\<rparr>) else None),
      pageTable = None, pageTableSize = garbage_size, singleStep = debug,
      hostBigEndian = big_endian\<rparr>"

section \<open>Registers and exceptions\<close>

definition ReadRegister :: "int \<Rightarrow> machine \<Rightarrow> word32 result" where
  "ReadRegister num m = rbind (ASSERT (num \<ge> 0 \<and> num < int NumTotalRegs)) (\<lambda>_.
     array_get (registers m) (nat num))"

definition WriteRegister :: "int \<Rightarrow> word32 \<Rightarrow> machine \<Rightarrow> machine result" where
  "WriteRegister num v m = rbind (ASSERT (num \<ge> 0 \<and> num < int NumTotalRegs)) (\<lambda>_.
     rbind (array_set (registers m) (nat num) v) (\<lambda>rs. Inr (m\<lparr>registers := rs\<rparr>)))"

text \<open>The direct array accesses \<^verbatim>\<open>registers[i]\<close> and \<^verbatim>\<open>registers[i] = v\<close> of the simulator.\<close>

definition reg :: "nat \<Rightarrow> machine \<Rightarrow> word32 result" where
  "reg i m = array_get (registers m) i"

definition set_reg :: "nat \<Rightarrow> word32 \<Rightarrow> machine \<Rightarrow> machine result" where
  "set_reg i v m = rbind (array_set (registers m) i v) (\<lambda>rs. Inr (m\<lparr>registers := rs\<rparr>))"

definition DelayedLoad :: "word32 \<Rightarrow> word32 \<Rightarrow> machine \<Rightarrow> machine result" where
  "DelayedLoad nextReg nextValue m =
     rbind (reg LoadReg m) (\<lambda>r. rbind (reg LoadValueReg m) (\<lambda>v.
     rbind (set_reg (unat r) v m) (\<lambda>m1.
     rbind (set_reg LoadReg nextReg m1) (\<lambda>m2.
     rbind (set_reg LoadValueReg nextValue m2) (\<lambda>m3.
     set_reg 0 0 m3)))))"

text \<open>The register part of \<^verbatim>\<open>RaiseException\<close>, up to the call of the kernel's \<^verbatim>\<open>ExceptionHandler\<close>.\<close>

definition RaiseException :: "word32 \<Rightarrow> machine \<Rightarrow> machine result" where
  "RaiseException badVAddr m = rbind (set_reg BadVAddrReg badVAddr m) (DelayedLoad 0 0)"

section \<open>Byte order\<close>

definition WordToHost :: "bool \<Rightarrow> word32 \<Rightarrow> word32" where
  "WordToHost big w = (if big then
     (drop_bit 24 w AND 0xff) OR (drop_bit 8 w AND 0xff00) OR (push_bit 8 w AND 0xff0000)
       OR (push_bit 24 w AND 0xff000000)
     else w)"

definition ShortToHost :: "bool \<Rightarrow> half \<Rightarrow> half" where
  "ShortToHost big w = (if big then (push_bit 8 w AND 0xff00) OR (drop_bit 8 w AND 0xff) else w)"

definition WordToMachine :: "bool \<Rightarrow> word32 \<Rightarrow> word32" where
  "WordToMachine big w = WordToHost big w"

definition ShortToMachine :: "bool \<Rightarrow> half \<Rightarrow> half" where
  "ShortToMachine big w = ShortToHost big w"

text \<open>
  A word or half word of host memory, read or written through a cast of a byte pointer:
  the order of its bytes is the host's.
\<close>

definition host_load32 :: "bool \<Rightarrow> (nat \<Rightarrow> byte) \<Rightarrow> nat \<Rightarrow> word32" where
  "host_load32 big mem a = (if big then word_le (mem (a + 3)) (mem (a + 2)) (mem (a + 1)) (mem a)
     else word_le (mem a) (mem (a + 1)) (mem (a + 2)) (mem (a + 3)))"

definition host_load16 :: "bool \<Rightarrow> (nat \<Rightarrow> byte) \<Rightarrow> nat \<Rightarrow> half" where
  "host_load16 big mem a = (if big then half_le (mem (a + 1)) (mem a)
     else half_le (mem a) (mem (a + 1)))"

definition host_store32 :: "bool \<Rightarrow> word32 \<Rightarrow> (nat \<Rightarrow> byte) \<Rightarrow> nat \<Rightarrow> (nat \<Rightarrow> byte)" where
  "host_store32 big w mem a = (if big
     then mem(a := byte_of 3 w, a + 1 := byte_of 2 w, a + 2 := byte_of 1 w, a + 3 := byte_of 0 w)
     else mem(a := byte_of 0 w, a + 1 := byte_of 1 w, a + 2 := byte_of 2 w, a + 3 := byte_of 3 w))"

definition host_store16 :: "bool \<Rightarrow> half \<Rightarrow> (nat \<Rightarrow> byte) \<Rightarrow> nat \<Rightarrow> (nat \<Rightarrow> byte)" where
  "host_store16 big w mem a = (if big
     then mem(a := half_byte_of 1 w, a + 1 := half_byte_of 0 w)
     else mem(a := half_byte_of 0 w, a + 1 := half_byte_of 1 w))"

section \<open>Address translation\<close>

text \<open>
  The entry for a virtual page: its place in the page table, or the place of the first valid
  TLB entry with that virtual page.
\<close>

fun tlb_search :: "nat \<Rightarrow> TranslationEntry list \<Rightarrow> word32 \<Rightarrow> nat option" where
  "tlb_search i [] vpn = None"
| "tlb_search i (e # es) vpn =
     (if valid e \<and> virtualPage e = vpn then Some i else tlb_search (Suc i) es vpn)"

datatype lookup = No_Entry ExceptionType | Page_Entry nat | Tlb_Entry nat

definition find_entry :: "machine \<Rightarrow> word32 \<Rightarrow> lookup result" where
  "find_entry m vpn = (case tlb m of
     None \<Rightarrow> if vpn \<ge> pageTableSize m then Inr (No_Entry AddressErrorException)
       else (case pageTable m of None \<Rightarrow> Inl Null_Deref | Some pt \<Rightarrow>
         rbind (array_get pt (unat vpn)) (\<lambda>e.
           if \<not> valid e then Inr (No_Entry PageFaultException) else Inr (Page_Entry (unat vpn))))
   | Some ts \<Rightarrow> (case tlb_search 0 (take TLBSize ts) vpn of
         None \<Rightarrow> Inr (No_Entry PageFaultException)
       | Some i \<Rightarrow> Inr (Tlb_Entry i)))"

definition entry_at :: "lookup \<Rightarrow> machine \<Rightarrow> TranslationEntry result" where
  "entry_at l m = (case l of No_Entry _ \<Rightarrow> Inl Null_Deref
     | Page_Entry i \<Rightarrow> (case pageTable m of None \<Rightarrow> Inl Null_Deref | Some pt \<Rightarrow> array_get pt i)
     | Tlb_Entry i \<Rightarrow> (case tlb m of None \<Rightarrow> Inl Null_Deref | Some ts \<Rightarrow> array_get ts i))"

definition set_entry :: "lookup \<Rightarrow> TranslationEntry \<Rightarrow> machine \<Rightarrow> machine result" where
  "set_entry l e m = (case l of No_Entry _ \<Rightarrow> Inl Null_Deref
     | Page_Entry i \<Rightarrow> (case pageTable m of None \<Rightarrow> Inl Null_Deref
         | Some pt \<Rightarrow> rbind (array_set pt i e) (\<lambda>pt'. Inr (m\<lparr>pageTable := Some pt'\<rparr>)))
     | Tlb_Entry i \<Rightarrow> (case tlb m of None \<Rightarrow> Inl Null_Deref
         | Some ts \<Rightarrow> rbind (array_set ts i e) (\<lambda>ts'. Inr (m\<lparr>tlb := Some ts'\<rparr>))))"

definition misaligned :: "word32 \<Rightarrow> nat \<Rightarrow> bool" where
  "misaligned virtAddr sz \<longleftrightarrow>
     sz = 4 \<and> virtAddr AND 0x3 \<noteq> 0 \<or> sz = 2 \<and> virtAddr AND 0x1 \<noteq> 0"

definition Translate ::
  "word32 \<Rightarrow> nat \<Rightarrow> bool \<Rightarrow> machine \<Rightarrow> ((ExceptionType + nat) \<times> machine) result" where
  "Translate virtAddr sz writing m =
     (if misaligned virtAddr sz then Inr (Inl AddressErrorException, m)
      else rbind (ASSERT (tlb m = None \<or> pageTable m = None)) (\<lambda>_.
      rbind (ASSERT (tlb m \<noteq> None \<or> pageTable m \<noteq> None)) (\<lambda>_.
      let vpn = virtAddr div of_nat PageSize; offset = unat (virtAddr mod of_nat PageSize) in
      rbind (find_entry m vpn) (\<lambda>l.
      case l of No_Entry exc \<Rightarrow> Inr (Inl exc, m)
      | _ \<Rightarrow> rbind (entry_at l m) (\<lambda>entry.
        if readOnly entry \<and> writing then Inr (Inl ReadOnlyException, m)
        else let pageFrame = unat (physicalPage entry) in
          if pageFrame \<ge> NumPhysPages then Inr (Inl BusErrorException, m)
          else rbind (set_entry l (entry\<lparr>use := True, dirty := dirty entry \<or> writing\<rparr>) m) (\<lambda>m'.
            let physAddr = pageFrame * PageSize + offset in
            rbind (ASSERT (physAddr + sz \<le> MemorySize)) (\<lambda>_.
            Inr (Inr physAddr, m'))))))))"

section \<open>Reading and writing virtual memory\<close>

datatype 'a access = Done 'a machine | Trap ExceptionType machine

text \<open>
  One byte is read through a \<^verbatim>\<open>char\<close>, which is signed on the host: it comes back sign
  extended.
\<close>

definition ReadMem :: "word32 \<Rightarrow> nat \<Rightarrow> machine \<Rightarrow> word32 access result" where
  "ReadMem addr sz m = rbind (Translate addr sz False m) (\<lambda>(r, m1).
     case r of Inl exc \<Rightarrow> rbind (RaiseException addr m1) (\<lambda>m2. Inr (Trap exc m2))
     | Inr pa \<Rightarrow>
         if sz = 1 then Inr (Done (scast (mainMemory m1 pa)) m1)
         else if sz = 2 then
           Inr (Done (ucast (ShortToHost (hostBigEndian m1)
                  (host_load16 (hostBigEndian m1) (mainMemory m1) pa))) m1)
         else if sz = 4 then
           Inr (Done (WordToHost (hostBigEndian m1)
                  (host_load32 (hostBigEndian m1) (mainMemory m1) pa)) m1)
         else Inl Assert_Failed)"

definition WriteMem :: "word32 \<Rightarrow> nat \<Rightarrow> word32 \<Rightarrow> machine \<Rightarrow> unit access result" where
  "WriteMem addr sz v m = rbind (Translate addr sz True m) (\<lambda>(r, m1).
     case r of Inl exc \<Rightarrow> rbind (RaiseException addr m1) (\<lambda>m2. Inr (Trap exc m2))
     | Inr pa \<Rightarrow>
         if sz = 1 then
           Inr (Done () (m1\<lparr>mainMemory := (mainMemory m1)(pa := ucast (v AND 0xff))\<rparr>))
         else if sz = 2 then
           Inr (Done () (m1\<lparr>mainMemory := host_store16 (hostBigEndian m1)
             (ShortToMachine (hostBigEndian m1) (ucast (v AND 0xffff))) (mainMemory m1) pa\<rparr>))
         else if sz = 4 then
           Inr (Done () (m1\<lparr>mainMemory := host_store32 (hostBigEndian m1)
             (WordToMachine (hostBigEndian m1) v) (mainMemory m1) pa\<rparr>))
         else Inl Assert_Failed)"


section \<open>Well-formed machines\<close>

text \<open>
  The translation tables the machine may have: a page table covering \<open>pageTableSize\<close> pages, or
  a TLB of \<open>TLBSize\<close> entries, never both. The registers are the \<open>NumTotalRegs\<close> cells of the
  array, register zero reads zero, and a pending delayed load names a general register.
\<close>

definition tables_ok :: "machine \<Rightarrow> bool" where
  "tables_ok m \<longleftrightarrow> (case tlb m of
     None \<Rightarrow> (case pageTable m of None \<Rightarrow> False | Some pt \<Rightarrow> unat (pageTableSize m) \<le> length pt)
   | Some ts \<Rightarrow> pageTable m = None \<and> length ts = TLBSize)"

definition regs_ok :: "machine \<Rightarrow> bool" where
  "regs_ok m \<longleftrightarrow> length (registers m) = NumTotalRegs \<and> registers m ! 0 = 0
     \<and> unat (registers m ! LoadReg) < 32"

text \<open>
  What a table makes of a virtual page: the entry the hardware uses, and the physical address
  an access of the page reaches.
\<close>

definition mapping_of :: "machine \<Rightarrow> word32 \<Rightarrow> TranslationEntry option" where
  "mapping_of m vpn = (case tlb m of
     None \<Rightarrow> (case pageTable m of None \<Rightarrow> None
       | Some pt \<Rightarrow> if vpn < pageTableSize m \<and> valid (pt ! unat vpn) then Some (pt ! unat vpn)
           else None)
   | Some ts \<Rightarrow> find (\<lambda>e. valid e \<and> virtualPage e = vpn) ts)"

definition vpn_of :: "word32 \<Rightarrow> word32" where
  "vpn_of va = va div of_nat PageSize"

definition phys_of :: "TranslationEntry \<Rightarrow> word32 \<Rightarrow> nat" where
  "phys_of e va = unat (physicalPage e) * PageSize + unat va mod PageSize"

definition accessible :: "machine \<Rightarrow> word32 \<Rightarrow> nat \<Rightarrow> bool \<Rightarrow> bool" where
  "accessible m va sz writing \<longleftrightarrow> \<not> misaligned va sz \<and>
     (case mapping_of m (vpn_of va) of None \<Rightarrow> False
      | Some e \<Rightarrow> \<not> (readOnly e \<and> writing) \<and> unat (physicalPage e) < NumPhysPages)"

lemmas size_defs = SectorSize_def PageSize_def NumPhysPages_def MemorySize_def TLBSize_def

lemma tlb_search_Some:
  "tlb_search i ts vpn = Some j \<Longrightarrow>
     i \<le> j \<and> j < i + length ts \<and> valid (ts ! (j - i)) \<and> virtualPage (ts ! (j - i)) = vpn
     \<and> find (\<lambda>e. valid e \<and> virtualPage e = vpn) ts = Some (ts ! (j - i))"
  by (induction i ts vpn rule: tlb_search.induct)
     (fastforce simp: Suc_diff_le nth_Cons' split: if_splits)+

lemma tlb_search_None:
  "tlb_search i ts vpn = None \<longleftrightarrow> find (\<lambda>e. valid e \<and> virtualPage e = vpn) ts = None"
  by (induction i ts vpn rule: tlb_search.induct) auto

lemma unat_vpn: "unat (va mod 0x100 :: word32) = unat va mod PageSize"
  by (simp add: unat_mod size_defs)

lemma mod_multiple_room:
  fixes n k p :: nat
  assumes "0 < p" "k dvd p" "n mod k = 0"
  shows "n mod p + k \<le> p"
proof -
  have "k dvd n mod p"
    using assms by (simp add: dvd_mod mod_eq_0_iff_dvd)
  moreover have "n mod p < p" using assms(1) by simp
  ultimately obtain a b where "n mod p = k * a" "p = k * b" "k * a < k * b"
    using assms(2) by (auto elim!: dvdE)
  then have "a + 1 \<le> b" by simp
  then have "k * (a + 1) \<le> k * b" by (rule mult_le_mono2)
  then show ?thesis using \<open>n mod p = k * a\<close> \<open>p = k * b\<close> by simp
qed

lemma aligned_mod:
  "\<not> misaligned va 2 \<Longrightarrow> unat va mod 2 = 0"
  "\<not> misaligned va 4 \<Longrightarrow> unat va mod 4 = 0"
proof -
  have a2: "va AND 1 = va mod 2" and a4: "va AND 3 = va mod 4"
    using take_bit_eq_mask [of 1 va] take_bit_eq_mask [of 2 va]
    by (simp_all add: take_bit_eq_mod mask_eq_exp_minus_1)
  show "\<not> misaligned va 2 \<Longrightarrow> unat va mod 2 = 0"
    using unat_mod [of va 2] by (simp add: misaligned_def a2)
  show "\<not> misaligned va 4 \<Longrightarrow> unat va mod 4 = 0"
    using unat_mod [of va 4] by (simp add: misaligned_def a4)
qed

lemma aligned_room:
  assumes "sz = 1 \<or> sz = 2 \<or> sz = 4" "\<not> misaligned va sz"
  shows "unat va mod PageSize + sz \<le> PageSize"
  using assms mod_multiple_room [of PageSize 1 "unat va"]
    mod_multiple_room [of PageSize 2 "unat va"] mod_multiple_room [of PageSize 4 "unat va"]
    aligned_mod [of va]
  by (elim disjE) (simp_all add: size_defs)

section \<open>Translation on every branch\<close>

definition same_but_tables :: "machine \<Rightarrow> machine \<Rightarrow> bool" where
  "same_but_tables m m' \<longleftrightarrow> m' = m\<lparr>tlb := tlb m', pageTable := pageTable m'\<rparr> \<and> tables_ok m'"

lemma same_but_tables_fields:
  assumes "same_but_tables m m'"
  shows "registers m' = registers m" "mainMemory m' = mainMemory m"
    "pageTableSize m' = pageTableSize m" "hostBigEndian m' = hostBigEndian m"
    "singleStep m' = singleStep m" "tables_ok m'"
proof -
  from assms have eq: "m' = m\<lparr>tlb := tlb m', pageTable := pageTable m'\<rparr>" and "tables_ok m'"
    by (simp_all add: same_but_tables_def)
  show "tables_ok m'" by fact
  show "registers m' = registers m" "mainMemory m' = mainMemory m"
    "pageTableSize m' = pageTableSize m" "hostBigEndian m' = hostBigEndian m"
    "singleStep m' = singleStep m"
    by (subst eq, simp)+
qed

lemma find_list_update:
  assumes "j < length ts" "P (ts ! j)" "find P ts = Some (ts ! j)" "tlb_search 0 ts v = Some j"
    and "P = (\<lambda>e. valid e \<and> virtualPage e = v)" "valid e'" "virtualPage e' = v"
  shows "find (\<lambda>e. valid e \<and> virtualPage e = v) (ts[j := e']) = Some e'"
proof -
  have "tlb_search i ts v = Some (i + k) \<Longrightarrow> valid e' \<Longrightarrow> virtualPage e' = v \<Longrightarrow>
      find (\<lambda>e. valid e \<and> virtualPage e = v) (ts[k := e']) = Some e'" for i k
  proof (induction i ts v arbitrary: k rule: tlb_search.induct)
    case (2 i e es vpn)
    show ?case
    proof (cases k)
      case 0
      then show ?thesis using 2 by simp
    next
      case (Suc k')
      then show ?thesis using 2 by (auto split: if_splits)
    qed
  qed simp
  from this [of 0 j] assms(4,6,7) show ?thesis by simp
qed

lemma find_list_update_other:
  assumes "valid (ts ! j) \<longrightarrow> virtualPage (ts ! j) \<noteq> v" "virtualPage e' \<noteq> v"
  shows "find (\<lambda>e. valid e \<and> virtualPage e = v) (ts[j := e'])
    = find (\<lambda>e. valid e \<and> virtualPage e = v) ts"
  using assms
proof (induction ts arbitrary: j)
  case (Cons t ts)
  then show ?case by (cases j) auto
qed simp

lemma find_entry_page_table:
  assumes "tlb m = None" "pageTable m = Some pt" "unat (pageTableSize m) \<le> length pt"
  shows "find_entry m vpn =
    (if vpn \<ge> pageTableSize m then Inr (No_Entry AddressErrorException)
     else if \<not> valid (pt ! unat vpn) then Inr (No_Entry PageFaultException)
     else Inr (Page_Entry (unat vpn)))"
proof (cases "vpn \<ge> pageTableSize m")
  case False
  then have "unat vpn < length pt" using assms(3) by (simp add: word_le_nat_alt)
  then show ?thesis using assms False by (simp add: find_entry_def)
qed (simp add: find_entry_def assms)

lemma find_entry_None:
  assumes "tables_ok m" "mapping_of m vpn = None"
  shows "find_entry m vpn = Inr (No_Entry (if tlb m = None \<and> vpn \<ge> pageTableSize m
    then AddressErrorException else PageFaultException))"
proof (cases "tlb m")
  case None
  then show ?thesis using assms
    by (auto simp: tables_ok_def mapping_of_def find_entry_page_table split: option.splits if_splits)
next
  case (Some ts)
  then show ?thesis using assms tlb_search_None [of 0 ts vpn]
    by (simp add: tables_ok_def mapping_of_def find_entry_def)
qed

lemma find_entry_Some:
  assumes "tables_ok m" "mapping_of m vpn = Some e"
  obtains l where "find_entry m vpn = Inr l" "\<forall>x. l \<noteq> No_Entry x" "entry_at l m = Inr e"
    "\<And>e'. valid e' \<Longrightarrow> virtualPage e' = virtualPage e \<Longrightarrow> \<exists>m'. set_entry l e' m = Inr m' \<and>
       same_but_tables m m' \<and> mapping_of m' = (mapping_of m)(vpn \<mapsto> e')"
proof (cases "tlb m")
  case None
  then obtain pt where pt: "pageTable m = Some pt" "unat (pageTableSize m) \<le> length pt"
    using assms(1) by (auto simp: tables_ok_def split: option.splits)
  from assms(2) None pt have v: "vpn < pageTableSize m" "valid (pt ! unat vpn)" "e = pt ! unat vpn"
    by (auto simp: mapping_of_def split: if_splits)
  then have i: "unat vpn < length pt" using pt by (simp add: word_less_nat_alt)
  show ?thesis
  proof (rule that [of "Page_Entry (unat vpn)"])
    show "\<exists>m'. set_entry (Page_Entry (unat vpn)) e' m = Inr m' \<and> same_but_tables m m' \<and>
        mapping_of m' = (mapping_of m)(vpn \<mapsto> e')"
      if "valid e'" "virtualPage e' = virtualPage e" for e'
      using None pt i v that
      by (auto simp: set_entry_def same_but_tables_def tables_ok_def mapping_of_def fun_eq_iff
          nth_list_update word_unat_eq_iff word_less_nat_alt)
  qed (use None pt v i in \<open>simp_all add: find_entry_page_table entry_at_def linorder_not_le\<close>)
next
  case (Some ts)
  with assms have ts: "length ts = TLBSize" "pageTable m = None"
    "find (\<lambda>e. valid e \<and> virtualPage e = vpn) ts = Some e"
    by (simp_all add: tables_ok_def mapping_of_def)
  then obtain j where j: "tlb_search 0 ts vpn = Some j"
    using tlb_search_None [of 0 ts vpn] by fastforce
  from tlb_search_Some [OF this] ts have e: "j < length ts" "valid e" "virtualPage e = vpn" "e = ts ! j"
    by auto
  show ?thesis
  proof (rule that [of "Tlb_Entry j"])
    show "\<exists>m'. set_entry (Tlb_Entry j) e' m = Inr m' \<and> same_but_tables m m' \<and>
        mapping_of m' = (mapping_of m)(vpn \<mapsto> e')"
      if "valid e'" "virtualPage e' = virtualPage e" for e'
      using Some ts j e that find_list_update [OF _ _ _ j refl, of e']
      by (auto simp: set_entry_def same_but_tables_def tables_ok_def mapping_of_def fun_eq_iff
          find_list_update_other)
  qed (use Some ts j e in \<open>simp_all add: find_entry_def entry_at_def\<close>)
qed

lemma phys_of_room:
  assumes "sz = 1 \<or> sz = 2 \<or> sz = 4" "\<not> misaligned va sz" "unat (physicalPage e) < NumPhysPages"
  shows "phys_of e va + sz \<le> MemorySize"
    "i < sz \<Longrightarrow> (phys_of e va + i) div PageSize = unat (physicalPage e)"
proof -
  note room = aligned_room [OF assms(1,2)]
  have "(unat (physicalPage e) + 1) * PageSize \<le> NumPhysPages * PageSize"
    using assms(3) by (intro mult_le_mono1) simp
  with room show "phys_of e va + sz \<le> MemorySize"
    by (simp add: phys_of_def MemorySize_def)
  assume "i < sz"
  with room have "unat va mod PageSize + i < PageSize" by simp
  then show "(phys_of e va + i) div PageSize = unat (physicalPage e)"
    by (simp add: phys_of_def size_defs add.assoc)
qed

lemma tables_ok_one:
  "tables_ok m \<Longrightarrow> (tlb m = None \<or> pageTable m = None) \<and> (tlb m \<noteq> None \<or> pageTable m \<noteq> None)"
  by (auto simp: tables_ok_def split: option.splits)

lemma PageSize_word: "(of_nat PageSize :: word32) = 256"
  by (simp add: size_defs)

lemma Translate_accessible:
  assumes "tables_ok m" "sz = 1 \<or> sz = 2 \<or> sz = 4" "accessible m va sz w"
    and e: "mapping_of m (vpn_of va) = Some e"
  obtains m' where "Translate va sz w m = Inr (Inr (phys_of e va), m')" "same_but_tables m m'"
    "mapping_of m' = (mapping_of m)(vpn_of va \<mapsto> e\<lparr>use := True, dirty := dirty e \<or> w\<rparr>)"
proof -
  obtain l where l: "find_entry m (vpn_of va) = Inr l" "\<forall>x. l \<noteq> No_Entry x" "entry_at l m = Inr e"
    "\<And>e'. valid e' \<Longrightarrow> virtualPage e' = virtualPage e \<Longrightarrow> \<exists>m'. set_entry l e' m = Inr m' \<and>
       same_but_tables m m' \<and> mapping_of m' = (mapping_of m)(vpn_of va \<mapsto> e')"
    using find_entry_Some [OF assms(1) e] by metis
  have acc: "\<not> misaligned va sz" "\<not> (readOnly e \<and> w)" "unat (physicalPage e) < NumPhysPages"
    using assms(3) e by (simp_all add: accessible_def)
  have "valid e"
    using e by (auto simp: mapping_of_def find_Some_iff split: option.splits if_splits)
  then obtain m' where m': "set_entry l (e\<lparr>use := True, dirty := dirty e \<or> w\<rparr>) m = Inr m'"
    "same_but_tables m m'"
    "mapping_of m' = (mapping_of m)(vpn_of va \<mapsto> e\<lparr>use := True, dirty := dirty e \<or> w\<rparr>)"
    using l(4) [of "e\<lparr>use := True, dirty := dirty e \<or> w\<rparr>"] by auto
  have "Translate va sz w m = Inr (Inr (phys_of e va), m')"
    using acc l(1-3) m'(1) phys_of_room(1) [OF assms(2) acc(1,3)] tables_ok_one [OF assms(1)]
    by (cases l) (simp_all add: Translate_def vpn_of_def PageSize_word unat_vpn phys_of_def Let_def)
  with m' that show ?thesis by blast
qed

text \<open>The exception of an access that is not allowed, in the order the hardware checks.\<close>

definition fault_of :: "machine \<Rightarrow> word32 \<Rightarrow> nat \<Rightarrow> bool \<Rightarrow> ExceptionType" where
  "fault_of m va sz w = (if misaligned va sz then AddressErrorException else
     case mapping_of m (vpn_of va) of
       None \<Rightarrow> if tlb m = None \<and> vpn_of va \<ge> pageTableSize m then AddressErrorException
         else PageFaultException
     | Some e \<Rightarrow> if readOnly e \<and> w then ReadOnlyException else BusErrorException)"

lemma Translate_inaccessible:
  assumes "tables_ok m" "\<not> accessible m va sz w"
  shows "Translate va sz w m = Inr (Inl (fault_of m va sz w), m)"
proof (cases "misaligned va sz")
  case True
  then show ?thesis by (simp add: Translate_def fault_of_def)
next
  case False
  show ?thesis
  proof (cases "mapping_of m (vpn_of va)")
    case None
    then show ?thesis
      using False find_entry_None [OF assms(1) None] tables_ok_one [OF assms(1)]
      by (simp add: Translate_def fault_of_def vpn_of_def Let_def)
  next
    case (Some e)
    obtain l where "find_entry m (vpn_of va) = Inr l" "\<forall>x. l \<noteq> No_Entry x" "entry_at l m = Inr e"
      using find_entry_Some [OF assms(1) Some] by metis
    then show ?thesis
      using Some False assms(2) tables_ok_one [OF assms(1)]
      by (auto simp: Translate_def fault_of_def accessible_def vpn_of_def Let_def
          split: lookup.splits)
  qed
qed

lemma accessible_mapped:
  "accessible m va sz w \<Longrightarrow> \<exists>e. mapping_of m (vpn_of va) = Some e"
  by (auto simp: accessible_def split: option.splits)

section \<open>Memory accesses\<close>

text \<open>
  What a memory access means to the user program: the machine is little endian, whatever the
  host is. Half words come back zero extended and bytes sign extended.
\<close>

definition le_load :: "(nat \<Rightarrow> byte) \<Rightarrow> nat \<Rightarrow> nat \<Rightarrow> word32" where
  "le_load mem a sz = (if sz = 1 then scast (mem a)
     else if sz = 2 then ucast (half_le (mem a) (mem (a + 1)))
     else word_le (mem a) (mem (a + 1)) (mem (a + 2)) (mem (a + 3)))"

definition le_store :: "(nat \<Rightarrow> byte) \<Rightarrow> nat \<Rightarrow> nat \<Rightarrow> word32 \<Rightarrow> (nat \<Rightarrow> byte)" where
  "le_store mem a sz v = (\<lambda>i. if a \<le> i \<and> i < a + sz then byte_of (i - a) v else mem i)"

definition widen :: "nat \<Rightarrow> word32 \<Rightarrow> word32" where
  "widen sz v = (if sz = 1 then scast (ucast v :: byte)
     else if sz = 2 then ucast (ucast v :: half) else v)"

lemma WordToHost_load: "WordToHost big (host_load32 big mem a)
  = word_le (mem a) (mem (a + 1)) (mem (a + 2)) (mem (a + 3))"
  by (rule bit_eqI)
     (auto simp: WordToHost_def host_load32_def bit_word_le bit_word_simps byte_masks
       dest: bit_imp_le_length)

lemma ShortToHost_load: "ShortToHost big (host_load16 big mem a) = half_le (mem a) (mem (a + 1))"
  by (rule bit_eqI)
     (auto simp: ShortToHost_def host_load16_def bit_half_le bit_word_simps half_masks
       dest: bit_imp_le_length)

lemma byte_of_WordToHost_big:
  "byte_of 0 (WordToHost True v) = byte_of 3 v" "byte_of (Suc 0) (WordToHost True v) = byte_of 2 v"
  "byte_of 2 (WordToHost True v) = byte_of (Suc 0) v" "byte_of 3 (WordToHost True v) = byte_of 0 v"
  by (rule bit_eqI;
      auto simp: WordToHost_def byte_of_def bit_word_simps byte_masks dest: bit_imp_le_length)+

lemma half_byte_of_ShortToHost_big:
  "half_byte_of 0 (ShortToHost True v) = half_byte_of (Suc 0) v"
  "half_byte_of (Suc 0) (ShortToHost True v) = half_byte_of 0 v"
  by (rule bit_eqI;
      auto simp: ShortToHost_def half_byte_of_def bit_word_simps half_masks
        dest: bit_imp_le_length)+

lemma half_byte_of_ucast:
  "half_byte_of 0 (ucast (v AND 0xffff)) = byte_of 0 v"
  "half_byte_of (Suc 0) (ucast (v AND 0xffff)) = byte_of (Suc 0) v"
  by (rule bit_eqI; auto simp: half_byte_of_def byte_of_def bit_word_simps byte_masks)+

lemma byte_of_ucast: "ucast (v AND 0xff) = byte_of 0 v"
  by (rule bit_eqI) (auto simp: byte_of_def bit_word_simps byte_masks)

lemma WordToMachine_store:
  "host_store32 big (WordToMachine big v) mem a = le_store mem a 4 v"
proof
  fix i
  consider "i = a" | "i = a + 1" | "i = a + 2" | "i = a + 3" | "i < a \<or> a + 4 \<le> i" by linarith
  then show "host_store32 big (WordToMachine big v) mem a i = le_store mem a 4 v i"
    by cases (auto simp: host_store32_def le_store_def WordToMachine_def byte_of_WordToHost_big
        WordToHost_def [of False])
qed

lemma ShortToMachine_store:
  "host_store16 big (ShortToMachine big (ucast (v AND 0xffff))) mem a = le_store mem a 2 v"
proof
  fix i
  consider "i = a" | "i = a + 1" | "i < a \<or> a + 2 \<le> i" by linarith
  then show "host_store16 big (ShortToMachine big (ucast (v AND 0xffff))) mem a i
      = le_store mem a 2 v i"
    by cases (auto simp: host_store16_def le_store_def ShortToMachine_def
        half_byte_of_ShortToHost_big half_byte_of_ucast
        ShortToHost_def [of False])
qed

lemma le_load_store:
  assumes "sz = 1 \<or> sz = 2 \<or> sz = 4"
  shows "le_load (le_store mem a sz v) a sz = widen sz v"
proof -
  have "half_le (byte_of 0 v) (byte_of (Suc 0) v) = ucast v"
    by (rule bit_eqI) (auto simp: bit_half_le byte_of_def bit_word_simps)
  then show ?thesis
    using assms by (elim disjE) (simp_all add: le_load_def le_store_def widen_def,
        simp add: byte_of_def)
qed

lemma reg_ok [simp]: "i < length (registers m) \<Longrightarrow> reg i m = Inr (registers m ! i)"
  by (simp add: reg_def)

lemma set_reg_ok [simp]:
  "i < length (registers m) \<Longrightarrow> set_reg i v m = Inr (m\<lparr>registers := (registers m)[i := v]\<rparr>)"
  by (simp add: set_reg_def)

lemma DelayedLoad_ok:
  assumes "length (registers m) = NumTotalRegs" "unat (registers m ! LoadReg) < 32" "unat r < 32"
  obtains rs where "DelayedLoad r v m = Inr (m\<lparr>registers := rs\<rparr>)" "regs_ok (m\<lparr>registers := rs\<rparr>)"
    "rs ! LoadReg = r" "rs ! LoadValueReg = v"
    "\<And>i. 0 < i \<Longrightarrow> i < NumTotalRegs \<Longrightarrow> i \<noteq> LoadReg \<Longrightarrow> i \<noteq> LoadValueReg \<Longrightarrow>
       rs ! i = (if i = unat (registers m ! LoadReg) then registers m ! LoadValueReg
                 else registers m ! i)"
proof -
  let ?rs = "(registers m)[unat (registers m ! LoadReg) := registers m ! LoadValueReg,
    LoadReg := r, LoadValueReg := v, 0 := 0]"
  have len: "length (registers m) = 40" "unat (registers m ! 37) < 32"
    using assms(1,2) by (simp_all add: reg_defs)
  then have "DelayedLoad r v m = Inr (m\<lparr>registers := ?rs\<rparr>)"
    by (simp add: DelayedLoad_def reg_defs)
  moreover have "regs_ok (m\<lparr>registers := ?rs\<rparr>)"
    using len assms(3) by (simp add: regs_ok_def reg_defs)
  ultimately show ?thesis
    using len by (rule_tac that [of ?rs]) (auto simp: reg_defs nth_list_update)
qed

lemma RaiseException_ok:
  assumes "regs_ok m"
  obtains rs where "RaiseException a m = Inr (m\<lparr>registers := rs\<rparr>)" "regs_ok (m\<lparr>registers := rs\<rparr>)"
    "rs ! BadVAddrReg = a" "rs ! LoadReg = 0"
    "\<And>i. 0 < i \<Longrightarrow> i < LoadReg \<Longrightarrow>
       rs ! i = (if i = unat (registers m ! LoadReg) then registers m ! LoadValueReg
                 else registers m ! i)"
proof -
  let ?m = "m\<lparr>registers := (registers m)[BadVAddrReg := a]\<rparr>"
  have len: "length (registers m) = 40" "unat (registers m ! 37) < 32"
    using assms by (simp_all add: regs_ok_def reg_defs)
  then have ok: "length (registers ?m) = NumTotalRegs" "unat (registers ?m ! LoadReg) < 32"
    by (simp_all add: reg_defs)
  obtain rs where rs: "DelayedLoad 0 0 ?m = Inr (?m\<lparr>registers := rs\<rparr>)"
    "regs_ok (?m\<lparr>registers := rs\<rparr>)" "rs ! LoadReg = 0"
    "\<And>i. 0 < i \<Longrightarrow> i < NumTotalRegs \<Longrightarrow> i \<noteq> LoadReg \<Longrightarrow> i \<noteq> LoadValueReg \<Longrightarrow>
       rs ! i = (if i = unat (registers ?m ! LoadReg) then registers ?m ! LoadValueReg
                 else registers ?m ! i)"
    by (rule DelayedLoad_ok [OF ok, of 0 0]) (simp, erule (1) that, assumption+)
  show ?thesis
  proof (rule that [of rs])
    show "RaiseException a m = Inr (m\<lparr>registers := rs\<rparr>)"
      using len rs(1) by (simp add: RaiseException_def reg_defs)
    show "rs ! BadVAddrReg = a"
      using rs(4) [of BadVAddrReg] len by (simp add: reg_defs)
    show "rs ! i = (if i = unat (registers m ! LoadReg) then registers m ! LoadValueReg
        else registers m ! i)" if "0 < i" "i < LoadReg" for i
      using rs(4) [of i] len that by (simp add: reg_defs)
  qed (use rs in \<open>simp_all add: regs_ok_def\<close>)
qed

lemma ReadMem_ok:
  assumes "tables_ok m" "sz = 1 \<or> sz = 2 \<or> sz = 4" "accessible m va sz False"
    and e: "mapping_of m (vpn_of va) = Some e"
  obtains m' where "ReadMem va sz m = Inr (Done (le_load (mainMemory m) (phys_of e va) sz) m')"
    "same_but_tables m m'" "mapping_of m' = (mapping_of m)(vpn_of va \<mapsto> e\<lparr>use := True\<rparr>)"
proof -
  obtain m' where m': "Translate va sz False m = Inr (Inr (phys_of e va), m')"
    "same_but_tables m m'"
    "mapping_of m' = (mapping_of m)(vpn_of va \<mapsto> e\<lparr>use := True, dirty := dirty e \<or> False\<rparr>)"
    by (rule Translate_accessible [OF assms])
  then have "ReadMem va sz m = Inr (Done (le_load (mainMemory m) (phys_of e va) sz) m')"
    using assms(2) same_but_tables_fields [OF m'(2)]
    by (auto simp: ReadMem_def le_load_def WordToHost_load ShortToHost_load)
  with m' that show ?thesis by simp
qed

lemma WriteMem_ok:
  assumes "tables_ok m" "sz = 1 \<or> sz = 2 \<or> sz = 4" "accessible m va sz True"
    and e: "mapping_of m (vpn_of va) = Some e"
  obtains m' where "WriteMem va sz v m =
      Inr (Done () (m'\<lparr>mainMemory := le_store (mainMemory m) (phys_of e va) sz v\<rparr>))"
    "same_but_tables m m'"
    "mapping_of m' = (mapping_of m)(vpn_of va \<mapsto> e\<lparr>use := True, dirty := True\<rparr>)"
proof -
  obtain m' where m': "Translate va sz True m = Inr (Inr (phys_of e va), m')"
    "same_but_tables m m'"
    "mapping_of m' = (mapping_of m)(vpn_of va \<mapsto> e\<lparr>use := True, dirty := dirty e \<or> True\<rparr>)"
    by (rule Translate_accessible [OF assms])
  have "(mainMemory m)(phys_of e va := byte_of 0 v) = le_store (mainMemory m) (phys_of e va) 1 v"
    by (auto simp: le_store_def fun_eq_iff)
  then have "WriteMem va sz v m =
      Inr (Done () (m'\<lparr>mainMemory := le_store (mainMemory m) (phys_of e va) sz v\<rparr>))"
    using assms(2) m'(1) same_but_tables_fields [OF m'(2)]
    by (auto simp: WriteMem_def byte_of_ucast WordToMachine_store ShortToMachine_store)
  with m' that show ?thesis by simp
qed

lemma access_fault:
  assumes "tables_ok m" "regs_ok m"
  obtains (ok) rs where "regs_ok (m\<lparr>registers := rs\<rparr>)"
    "\<not> accessible m va sz False \<Longrightarrow>
       ReadMem va sz m = Inr (Trap (fault_of m va sz False) (m\<lparr>registers := rs\<rparr>))"
    "\<not> accessible m va sz True \<Longrightarrow>
       WriteMem va sz v m = Inr (Trap (fault_of m va sz True) (m\<lparr>registers := rs\<rparr>))"
    "rs ! BadVAddrReg = va" "rs ! LoadReg = 0"
    "\<And>i. 0 < i \<Longrightarrow> i < LoadReg \<Longrightarrow>
       rs ! i = (if i = unat (registers m ! LoadReg) then registers m ! LoadValueReg
                 else registers m ! i)"
proof -
  obtain rs where rs: "RaiseException va m = Inr (m\<lparr>registers := rs\<rparr>)"
    "regs_ok (m\<lparr>registers := rs\<rparr>)" "rs ! BadVAddrReg = va" "rs ! LoadReg = 0"
    "\<And>i. 0 < i \<Longrightarrow> i < LoadReg \<Longrightarrow>
       rs ! i = (if i = unat (registers m ! LoadReg) then registers m ! LoadValueReg
                 else registers m ! i)"
    by (rule RaiseException_ok [OF assms(2), of va]) (erule (1) that, assumption+)
  show ?thesis
    by (rule ok [of rs])
       (use rs Translate_inaccessible [OF assms(1)] in \<open>auto simp: ReadMem_def WriteMem_def\<close>)
qed

lemma mapping_of_registers [simp]:
  "mapping_of (m\<lparr>registers := rs\<rparr>) = mapping_of m" "mapping_of (m\<lparr>mainMemory := mem\<rparr>) = mapping_of m"
  "tables_ok (m\<lparr>registers := rs\<rparr>) = tables_ok m" "tables_ok (m\<lparr>mainMemory := mem\<rparr>) = tables_ok m"
  "accessible (m\<lparr>registers := rs\<rparr>) = accessible m" "accessible (m\<lparr>mainMemory := mem\<rparr>) = accessible m"
  by (simp_all add: mapping_of_def tables_ok_def fun_eq_iff accessible_def cong: option.case_cong)

section \<open>What an access may change\<close>

text \<open>
  The frames a program can write: those mapped by a usable entry that is not read-only. A step
  of the machine is \<open>confined\<close> when it keeps the tables up to use and dirty bits and leaves
  every byte outside those frames alone.
\<close>

definition writable_frames :: "machine \<Rightarrow> nat set" where
  "writable_frames m = {unat (physicalPage e) | e vpn. mapping_of m vpn = Some e \<and> \<not> readOnly e}"

definition entry_core :: "TranslationEntry \<Rightarrow> word32 \<times> word32 \<times> bool \<times> bool" where
  "entry_core e = (virtualPage e, physicalPage e, valid e, readOnly e)"

definition confined :: "machine \<Rightarrow> machine \<Rightarrow> bool" where
  "confined m m' \<longleftrightarrow> tables_ok m' \<and> pageTableSize m' = pageTableSize m
     \<and> hostBigEndian m' = hostBigEndian m
     \<and> (\<forall>vpn. map_option entry_core (mapping_of m' vpn) = map_option entry_core (mapping_of m vpn))
     \<and> (\<forall>a. a div PageSize \<notin> writable_frames m \<longrightarrow> mainMemory m' a = mainMemory m a)"

lemma writable_frames_core:
  assumes "\<forall>vpn. map_option entry_core (mapping_of m' vpn) = map_option entry_core (mapping_of m vpn)"
  shows "writable_frames m' = writable_frames m"
proof -
  have sub: "writable_frames m1 \<subseteq> writable_frames m2"
    if "\<forall>vpn. map_option entry_core (mapping_of m1 vpn) = map_option entry_core (mapping_of m2 vpn)"
    for m1 m2
  proof
    fix f assume "f \<in> writable_frames m1"
    then obtain e v where e: "f = unat (physicalPage e)" "mapping_of m1 v = Some e" "\<not> readOnly e"
      by (auto simp: writable_frames_def)
    with that have "map_option entry_core (mapping_of m2 v) = Some (entry_core e)"
      by (metis option.simps(9))
    then obtain e' where "mapping_of m2 v = Some e'" "entry_core e' = entry_core e" by auto
    with e have "mapping_of m2 v = Some e'" "f = unat (physicalPage e')" "\<not> readOnly e'"
      by (simp_all add: entry_core_def)
    then show "f \<in> writable_frames m2" unfolding writable_frames_def by blast
  qed
  from sub [of m' m] sub [of m m'] assms show ?thesis by auto
qed

lemma confined_refl: "tables_ok m \<Longrightarrow> confined m m"
  by (simp add: confined_def)

lemma confined_trans:
  assumes "confined m1 m2" "confined m2 m3"
  shows "confined m1 m3"
proof -
  have "writable_frames m2 = writable_frames m1"
    using assms(1) by (intro writable_frames_core) (simp add: confined_def)
  with assms show ?thesis by (simp add: confined_def)
qed

lemma confined_registers [simp]: "confined m (m'\<lparr>registers := rs\<rparr>) = confined m m'"
  by (simp add: confined_def)

lemma confined_tables:
  assumes "same_but_tables m m'" "mapping_of m v = Some e" "entry_core e' = entry_core e"
    "mapping_of m' = (mapping_of m)(v \<mapsto> e')"
  shows "confined m m'"
  using assms same_but_tables_fields [OF assms(1)] by (simp add: confined_def)

lemma ReadMem_confined:
  assumes "tables_ok m" "regs_ok m" "sz = 1 \<or> sz = 2 \<or> sz = 4"
  obtains (fine) v m' where "ReadMem va sz m = Inr (Done v m')" "confined m m'"
      "registers m' = registers m" "mainMemory m' = mainMemory m"
  | (trap) exc m' where "ReadMem va sz m = Inr (Trap exc m')" "confined m m'" "regs_ok m'"
proof (cases "accessible m va sz False")
  case True
  then obtain e where e: "mapping_of m (vpn_of va) = Some e"
    using accessible_mapped by blast
  show ?thesis
    by (rule ReadMem_ok [OF assms(1,3) True e])
       (rule fine, assumption, rule confined_tables [OF _ e],
        auto simp: entry_core_def dest: same_but_tables_fields)
next
  case False
  show ?thesis
    by (rule access_fault [OF assms(1,2), of va sz 0])
       (rule trap, use False assms(1) confined_refl in auto)
qed

lemma ReadMem_Done:
  assumes "tables_ok m" "regs_ok m" "sz = 1 \<or> sz = 2 \<or> sz = 4" "ReadMem va sz m = Inr (Done v m')"
  obtains e where "mapping_of m (vpn_of va) = Some e" "v = le_load (mainMemory m) (phys_of e va) sz"
    "registers m' = registers m"
proof -
  have acc: "accessible m va sz False"
    by (rule ccontr, rule access_fault [OF assms(1,2), of va sz 0]) (use assms(4) in auto)
  then obtain e where e: "mapping_of m (vpn_of va) = Some e"
    using accessible_mapped by blast
  then show ?thesis
    by (rule_tac ReadMem_ok [OF assms(1,3) acc e])
       (use that assms(4) in \<open>auto dest: same_but_tables_fields\<close>)
qed

lemma WriteMem_confined:
  assumes "tables_ok m" "regs_ok m" "sz = 1 \<or> sz = 2 \<or> sz = 4"
  obtains (fine) m' where "WriteMem va sz v m = Inr (Done () m')" "confined m m'"
      "registers m' = registers m"
  | (trap) exc m' where "WriteMem va sz v m = Inr (Trap exc m')" "confined m m'" "regs_ok m'"
proof (cases "accessible m va sz True")
  case True
  then obtain e where e: "mapping_of m (vpn_of va) = Some e"
    using accessible_mapped by blast
  with True have acc: "\<not> misaligned va sz" "unat (physicalPage e) < NumPhysPages" "\<not> readOnly e"
    by (simp_all add: accessible_def)
  obtain m' where m': "WriteMem va sz v m =
      Inr (Done () (m'\<lparr>mainMemory := le_store (mainMemory m) (phys_of e va) sz v\<rparr>))"
    "same_but_tables m m'"
    "mapping_of m' = (mapping_of m)(vpn_of va \<mapsto> e\<lparr>use := True, dirty := True\<rparr>)"
    by (rule WriteMem_ok [OF assms(1,3) True e])
  have c: "confined m m'"
    using m' e by (intro confined_tables [OF m'(2) e]) (simp_all add: entry_core_def)
  have "unat (physicalPage e) \<in> writable_frames m"
    using e acc by (auto simp: writable_frames_def)
  then have "le_store (mainMemory m) (phys_of e va) sz v a = mainMemory m a"
    if "a div PageSize \<notin> writable_frames m" for a
    using that phys_of_room(2) [OF assms(3) acc(1,2), of "a - phys_of e va"]
    by (auto simp: le_store_def)
  with c have "confined m (m'\<lparr>mainMemory := le_store (mainMemory m) (phys_of e va) sz v\<rparr>)"
    by (simp add: confined_def)
  then show ?thesis
    using same_but_tables_fields(1) [OF m'(2)] by (intro fine [OF m'(1)]) simp_all
next
  case False
  show ?thesis
    by (rule access_fault [OF assms(1,2), of va sz v])
       (rule trap, use False assms(1) confined_refl in auto)
qed

section \<open>Properties of the machine\<close>

text \<open>
  C21: address translation is total and exact. On a machine with one well-formed table, an access
  of 1, 2 or 4 bytes never fails an assertion and never reads outside a table; it succeeds
  exactly when the address is aligned, the page is mapped valid, the page is not read-only for a
  write, and the frame exists; the physical bytes then lie in memory and in the mapped frame and
  only the use and dirty bits of that page change. Otherwise the exception is the one the
  order of the checks prescribes and nothing changes.
\<close>

theorem translate_exact:
  assumes "tables_ok m" "sz = 1 \<or> sz = 2 \<or> sz = 4"
  shows "\<exists>r m'. Translate va sz w m = Inr (r, m') \<and>
    (case r of
       Inl exc \<Rightarrow> \<not> accessible m va sz w \<and> exc = fault_of m va sz w \<and> m' = m
     | Inr pa \<Rightarrow> accessible m va sz w \<and> (\<exists>e. mapping_of m (vpn_of va) = Some e \<and>
         pa = unat (physicalPage e) * PageSize + unat va mod PageSize \<and> pa + sz \<le> MemorySize \<and>
         (\<forall>i < sz. (pa + i) div PageSize = unat (physicalPage e)) \<and>
         same_but_tables m m' \<and>
         mapping_of m' = (mapping_of m)(vpn_of va \<mapsto> e\<lparr>use := True, dirty := dirty e \<or> w\<rparr>)))"
proof (cases "accessible m va sz w")
  case True
  then obtain e where e: "mapping_of m (vpn_of va) = Some e"
    using accessible_mapped by blast
  with True have acc: "\<not> misaligned va sz" "unat (physicalPage e) < NumPhysPages"
    by (simp_all add: accessible_def)
  show ?thesis
    by (rule Translate_accessible [OF assms True e])
       (use True e phys_of_room [OF assms(2) acc] in \<open>simp add: phys_of_def\<close>)
qed (simp add: Translate_inaccessible [OF assms(1)])

text \<open>
  Memory round trip. A read of the cell just written, with the same width, succeeds and gives
  the written value, sign extended for a byte and zero extended for a half word, and does not
  change memory.
\<close>

theorem write_read_round_trip:
  assumes "tables_ok m" "sz = 1 \<or> sz = 2 \<or> sz = 4" "WriteMem va sz v m = Inr (Done u m')"
    and "regs_ok m"
  shows "\<exists>m''. ReadMem va sz m' = Inr (Done (widen sz v) m'') \<and> mainMemory m'' = mainMemory m'"
proof -
  have acc: "accessible m va sz True"
    by (rule ccontr, rule access_fault [OF assms(1,4), of va sz v]) (use assms(3) in auto)
  then obtain e where e: "mapping_of m (vpn_of va) = Some e"
    using accessible_mapped by blast
  obtain m1 where m1: "WriteMem va sz v m =
      Inr (Done () (m1\<lparr>mainMemory := le_store (mainMemory m) (phys_of e va) sz v\<rparr>))"
    "same_but_tables m m1"
    "mapping_of m1 = (mapping_of m)(vpn_of va \<mapsto> e\<lparr>use := True, dirty := True\<rparr>)"
    by (rule WriteMem_ok [OF assms(1,2) acc e])
  then have m': "m' = m1\<lparr>mainMemory := le_store (mainMemory m) (phys_of e va) sz v\<rparr>"
    using assms(3) by simp
  have t: "tables_ok m'" and e': "mapping_of m' (vpn_of va) = Some (e\<lparr>use := True, dirty := True\<rparr>)"
    using m1 m' same_but_tables_fields(6) by simp_all
  then have acc': "accessible m' va sz False"
    using acc e by (simp add: accessible_def)
  show ?thesis
    by (rule ReadMem_ok [OF t assms(2) acc' e'])
       (use m' le_load_store [OF assms(2)] in \<open>auto simp: phys_of_def dest: same_but_tables_fields\<close>)
qed

text \<open>A concrete machine: a one-page address space mapped to frame 3, writable.\<close>

definition one_page :: machine where
  "one_page = (Machine_new False False False 0)\<lparr>pageTable := Some [\<lparr>virtualPage = 0,
     physicalPage = 3, valid = True, readOnly = False, use = False, dirty = False\<rparr>],
     pageTableSize := 1\<rparr>"

lemma one_page_ok: "tables_ok one_page" "regs_ok one_page"
  by (simp_all add: one_page_def Machine_new_def tables_ok_def regs_ok_def reg_defs)

lemma one_page_write:
  "\<exists>m'. WriteMem 8 4 0x12345678 one_page = Inr (Done () m')"
  by (simp add: one_page_def Machine_new_def WriteMem_def Translate_def misaligned_def
      find_entry_def entry_at_def set_entry_def size_defs Let_def)

theorem translate_exact_witness:
  "tables_ok one_page \<and> (\<exists>r m'. Translate 8 4 True one_page = Inr (r, m') \<and>
    (case r of
       Inl exc \<Rightarrow> \<not> accessible one_page 8 4 True \<and> exc = fault_of one_page 8 4 True \<and> m' = one_page
     | Inr pa \<Rightarrow> accessible one_page 8 4 True \<and> (\<exists>e. mapping_of one_page (vpn_of 8) = Some e \<and>
         pa = unat (physicalPage e) * PageSize + unat (8 :: word32) mod PageSize \<and>
         pa + 4 \<le> MemorySize \<and>
         (\<forall>i < 4. (pa + i) div PageSize = unat (physicalPage e)) \<and>
         same_but_tables one_page m' \<and>
         mapping_of m' =
           (mapping_of one_page)(vpn_of 8 \<mapsto> e\<lparr>use := True, dirty := dirty e \<or> True\<rparr>))))"
  using translate_exact [OF one_page_ok(1), of 4 8 True] one_page_ok(1) by blast

theorem write_read_round_trip_witness:
  "\<exists>m' m''. WriteMem 8 4 0x12345678 one_page = Inr (Done () m') \<and>
     ReadMem 8 4 m' = Inr (Done (widen 4 0x12345678) m'') \<and> mainMemory m'' = mainMemory m'"
proof -
  obtain m' where "WriteMem 8 4 0x12345678 one_page = Inr (Done () m')"
    using one_page_write by blast
  with write_read_round_trip [OF one_page_ok(1) _ this one_page_ok(2)] show ?thesis by auto
qed

text \<open>
  C8: protection. Whatever its outcome, a write by the user program reaches only frames that its
  own table maps writable: every other byte of memory (other processes, the kernel's frames,
  read-only pages) keeps its value, and the translations themselves stay as they were.
\<close>

theorem write_protection:
  assumes "tables_ok m" "regs_ok m" "sz = 1 \<or> sz = 2 \<or> sz = 4"
  shows "\<exists>r m'. WriteMem va sz v m = Inr r \<and> (r = Done () m' \<or> (\<exists>exc. r = Trap exc m')) \<and>
    (\<forall>a. a div PageSize \<notin> writable_frames m \<longrightarrow> mainMemory m' a = mainMemory m a) \<and>
    (\<forall>vpn. map_option entry_core (mapping_of m' vpn) = map_option entry_core (mapping_of m vpn))"
  by (rule WriteMem_confined [OF assms, of va v]) (auto simp: confined_def)

theorem write_protection_witness:
  "tables_ok one_page \<and> regs_ok one_page \<and> (\<exists>r m'. WriteMem 8 4 7 one_page = Inr r \<and>
    (r = Done () m' \<or> (\<exists>exc. r = Trap exc m')) \<and>
    (\<forall>a. a div PageSize \<notin> writable_frames one_page \<longrightarrow> mainMemory m' a = mainMemory one_page a) \<and>
    (\<forall>vpn. map_option entry_core (mapping_of m' vpn)
       = map_option entry_core (mapping_of one_page vpn)))"
  using write_protection [OF one_page_ok, of 4 8 7] one_page_ok by blast

text \<open>
  C35: the byte order of the host is invisible. Switching \<^verbatim>\<open>HOST_IS_BIG_ENDIAN\<close> changes neither
  the value a read returns, nor the bytes a write leaves in memory, nor any exception.
\<close>

fun on_machine :: "(machine \<Rightarrow> machine) \<Rightarrow> 'a access \<Rightarrow> 'a access" where
  "on_machine f (Done a m) = Done a (f m)"
| "on_machine f (Trap exc m) = Trap exc (f m)"

lemma Translate_byte_order:
  "Translate va sz w (m\<lparr>hostBigEndian := b\<rparr>)
    = map_sum id (map_prod id (\<lambda>m. m\<lparr>hostBigEndian := b\<rparr>)) (Translate va sz w m)"
proof -
  have f: "find_entry (m\<lparr>hostBigEndian := b\<rparr>) vpn = find_entry m vpn" for vpn
    by (simp add: find_entry_def cong: option.case_cong)
  have e: "entry_at l (m\<lparr>hostBigEndian := b\<rparr>) = entry_at l m" for l
    by (simp add: entry_at_def cong: option.case_cong lookup.case_cong)
  have s: "set_entry l x (m\<lparr>hostBigEndian := b\<rparr>)
      = map_sum id (\<lambda>m. m\<lparr>hostBigEndian := b\<rparr>) (set_entry l x m)" for l x
    by (auto simp: set_entry_def array_set_def split: lookup.splits option.splits)
  show ?thesis
  proof (cases "find_entry m (va div of_nat PageSize)")
    case (Inr l)
    show ?thesis
    proof (cases "entry_at l m")
      case (Inr en)
      with \<open>find_entry m (va div of_nat PageSize) = Inr l\<close> show ?thesis
        by (cases l; cases "set_entry l (en\<lparr>use := True, dirty := dirty en \<or> w\<rparr>) m")
           (simp_all add: Translate_def f e s Let_def ASSERT_def)
    next
      case (Inl x)
      with \<open>find_entry m (va div of_nat PageSize) = Inr l\<close> show ?thesis
        by (cases l) (simp_all add: Translate_def f e Let_def ASSERT_def)
    qed
  qed (simp add: Translate_def f Let_def ASSERT_def)
qed

lemma RaiseException_byte_order:
  "RaiseException va (m\<lparr>hostBigEndian := b\<rparr>)
    = map_sum id (\<lambda>m. m\<lparr>hostBigEndian := b\<rparr>) (RaiseException va m)"
  by (auto simp: RaiseException_def DelayedLoad_def reg_def set_reg_def array_get_def array_set_def)

lemma ReadMem_byte_order:
  "ReadMem va sz (m\<lparr>hostBigEndian := b\<rparr>)
     = map_sum id (on_machine (\<lambda>m. m\<lparr>hostBigEndian := b\<rparr>)) (ReadMem va sz m)"
proof (cases "Translate va sz False m")
  case (Inr rm)
  obtain r m1 where "rm = (r, m1)" by (cases rm)
  then show ?thesis
    by (cases r; cases "RaiseException va m1")
       (auto simp: ReadMem_def Translate_byte_order RaiseException_byte_order Inr
        WordToHost_load ShortToHost_load )
qed (simp add: ReadMem_def Translate_byte_order)

lemma WriteMem_byte_order:
  "WriteMem va sz v (m\<lparr>hostBigEndian := b\<rparr>)
     = map_sum id (on_machine (\<lambda>m. m\<lparr>hostBigEndian := b\<rparr>)) (WriteMem va sz v m)"
proof (cases "Translate va sz True m")
  case (Inr rm)
  obtain r m1 where "rm = (r, m1)" by (cases rm)
  then show ?thesis
    by (cases r; cases "RaiseException va m1")
       (auto simp: WriteMem_def Translate_byte_order RaiseException_byte_order Inr
        WordToMachine_store ShortToMachine_store)
qed (simp add: WriteMem_def Translate_byte_order)

theorem host_byte_order_invisible:
  "ReadMem va sz (m\<lparr>hostBigEndian := b\<rparr>)
     = map_sum id (on_machine (\<lambda>m. m\<lparr>hostBigEndian := b\<rparr>)) (ReadMem va sz m) \<and>
   WriteMem va sz v (m\<lparr>hostBigEndian := b\<rparr>)
     = map_sum id (on_machine (\<lambda>m. m\<lparr>hostBigEndian := b\<rparr>)) (WriteMem va sz v m)"
  by (simp only: ReadMem_byte_order WriteMem_byte_order)

end
