(* ===== verification/Linked_List.thy ===== *)
theory Linked_List
  imports Nachos_Prelude
begin

text \<open>
  The singly linked list of \<^verbatim>\<open>threads/list.cc\<close> and \<^verbatim>\<open>threads/list.h\<close>, on an explicit heap of
  list elements: \<open>first\<close> and \<open>last_elt\<close> are pointers into the heap, every operation
  allocates, relinks or frees cells as the C++ code does, and a null or dangling
  pointer is an error value. \<open>list_rep\<close> relates a heap list to the sequence of its
  (key, item) pairs; the operations are shown to refine operations on sequences. The
  interface locale \<open>list_ops\<close> states that contract once, and is interpreted both on the
  heap model and on the value model \<open>nlist\<close> that the thread, semaphore and interrupt
  components use.
\<close>

section \<open>Data\<close>

record 'a list_element =
  next_ptr :: "nat option"
  key :: int
  item :: 'a

record 'a heap =
  cells :: "nat \<rightharpoonup> 'a list_element"
  brk :: nat

record list_obj =
  first :: "nat option"
  last_elt :: "nat option"
  list_size :: int

type_synonym 'a lstate = "'a heap \<times> list_obj"

definition deref :: "'a heap \<Rightarrow> nat option \<Rightarrow> 'a list_element result" where
  "deref h p = (case p of None \<Rightarrow> Inl Null_Deref
     | Some a \<Rightarrow> (case cells h a of None \<Rightarrow> Inl Bad_Pointer | Some e \<Rightarrow> Inr e))"

definition set_next :: "'a heap \<Rightarrow> nat option \<Rightarrow> nat option \<Rightarrow> 'a heap result" where
  "set_next h p q = (case p of None \<Rightarrow> Inl Null_Deref
     | Some a \<Rightarrow> (case cells h a of None \<Rightarrow> Inl Bad_Pointer
        | Some e \<Rightarrow> Inr (h\<lparr>cells := (cells h)(a \<mapsto> e\<lparr>next_ptr := q\<rparr>)\<rparr>)))"

section \<open>Operations\<close>

text \<open>
  \<^verbatim>\<open>new ListElement(item, key)\<close>: operator \<^verbatim>\<open>new\<close> hands out an address no live element
  has; the model counts addresses up.
\<close>

definition ListElement :: "'a \<Rightarrow> int \<Rightarrow> 'a heap \<Rightarrow> nat \<times> 'a heap" where
  "ListElement itemPtr sortKey h =
     (brk h, h\<lparr>cells := (cells h)(brk h \<mapsto> \<lparr>next_ptr = None, key = sortKey, item = itemPtr\<rparr>),
               brk := Suc (brk h)\<rparr>)"

definition delete_element :: "nat \<Rightarrow> 'a heap \<Rightarrow> 'a heap" where
  "delete_element a h = h\<lparr>cells := (cells h)(a := None)\<rparr>"

definition List_new :: list_obj where
  "List_new = \<lparr>first = None, last_elt = None, list_size = 0\<rparr>"

definition IsEmpty :: "list_obj \<Rightarrow> bool" where
  "IsEmpty l \<longleftrightarrow> first l = None"

definition Append :: "'a \<Rightarrow> 'a lstate \<Rightarrow> 'a lstate result" where
  "Append x s = (let (h, l) = s; (e, h1) = ListElement x 0 h;
       l1 = l\<lparr>list_size := list_size l + 1\<rparr>
     in if IsEmpty l1 then Inr (h1, l1\<lparr>first := Some e, last_elt := Some e\<rparr>)
        else rbind (set_next h1 (last_elt l1) (Some e)) (\<lambda>h2.
             Inr (h2, l1\<lparr>last_elt := Some e\<rparr>)))"

definition Prepend :: "'a \<Rightarrow> 'a lstate \<Rightarrow> 'a lstate result" where
  "Prepend x s = (let (h, l) = s; (e, h1) = ListElement x 0 h;
       l1 = l\<lparr>list_size := list_size l + 1\<rparr>
     in if IsEmpty l1 then Inr (h1, l1\<lparr>first := Some e, last_elt := Some e\<rparr>)
        else rbind (set_next h1 (Some e) (first l1)) (\<lambda>h2.
             Inr (h2, l1\<lparr>first := Some e\<rparr>)))"

text \<open>
  \<^verbatim>\<open>SortedRemove\<close>: the removed item with its key (what \<^verbatim>\<open>*keyPtr\<close> receives), or \<open>None\<close>
  for the NULL an empty list returns. The cell is freed.
\<close>

definition SortedRemove :: "'a lstate \<Rightarrow> ((int \<times> 'a) option \<times> 'a lstate) result" where
  "SortedRemove s = (let (h, l) = s in
     case first l of None \<Rightarrow> Inr (None, s)
     | Some a \<Rightarrow> rbind (deref h (Some a)) (\<lambda>element.
         let l1 = (if first l = last_elt l then l\<lparr>first := None, last_elt := None\<rparr>
                   else l\<lparr>first := next_ptr element\<rparr>)
         in Inr (Some (key element, item element), (delete_element a h, l1))))"

text \<open>\<^verbatim>\<open>Remove\<close> decrements the size before it looks whether the list is empty.\<close>

definition Remove :: "'a lstate \<Rightarrow> ('a option \<times> 'a lstate) result" where
  "Remove s = (let (h, l) = s in
     rbind (SortedRemove (h, l\<lparr>list_size := list_size l - 1\<rparr>)) (\<lambda>(r, s').
       Inr (map_option snd r, s')))"

text \<open>
  The search loop of \<^verbatim>\<open>SortedInsert\<close>, from a non-null \<open>ptr\<close>: the cell to insert after, or
  \<open>None\<close> when the loop reaches the last element. The fuel is the number of addresses
  ever handed out; \<open>SortedInsert_ok\<close> below shows it is enough for every list.
\<close>

fun sorted_walk :: "nat \<Rightarrow> 'a heap \<Rightarrow> int \<Rightarrow> nat \<Rightarrow> nat option result" where
  "sorted_walk 0 h k a = Inl Out_Of_Fuel"
| "sorted_walk (Suc fuel) h k a = rbind (deref h (Some a)) (\<lambda>e.
     case next_ptr e of None \<Rightarrow> Inr None
     | Some b \<Rightarrow> rbind (deref h (Some b)) (\<lambda>e'.
         if k < key e' then Inr (Some a) else sorted_walk fuel h k b))"

definition SortedInsert :: "'a \<Rightarrow> int \<Rightarrow> 'a lstate \<Rightarrow> 'a lstate result" where
  "SortedInsert x sortKey s = (let (h, l) = s; (e, h1) = ListElement x sortKey h in
     case first l of None \<Rightarrow> Inr (h1, l\<lparr>first := Some e, last_elt := Some e\<rparr>)
     | Some a \<Rightarrow> rbind (deref h1 (Some a)) (\<lambda>fst_e.
         if sortKey < key fst_e then
           rbind (set_next h1 (Some e) (first l)) (\<lambda>h2. Inr (h2, l\<lparr>first := Some e\<rparr>))
         else rbind (sorted_walk (brk h1) h1 sortKey a) (\<lambda>found.
           case found of
             Some p \<Rightarrow> rbind (deref h1 (Some p)) (\<lambda>pe.
               rbind (set_next h1 (Some e) (next_ptr pe)) (\<lambda>h2.
               rbind (set_next h2 (Some p) (Some e)) (\<lambda>h3. Inr (h3, l))))
           | None \<Rightarrow> rbind (set_next h1 (last_elt l) (Some e)) (\<lambda>h2.
               Inr (h2, l\<lparr>last_elt := Some e\<rparr>)))))"

text \<open>\<^verbatim>\<open>Mapcar\<close> calls its function on each item in turn: the items, in the order of the calls.\<close>

fun mapcar_from :: "nat \<Rightarrow> 'a heap \<Rightarrow> nat option \<Rightarrow> 'a list result" where
  "mapcar_from fuel h None = Inr []"
| "mapcar_from 0 h (Some a) = Inl Out_Of_Fuel"
| "mapcar_from (Suc fuel) h (Some a) = rbind (deref h (Some a)) (\<lambda>e.
     rbind (mapcar_from fuel h (next_ptr e)) (\<lambda>xs. Inr (item e # xs)))"

definition Mapcar :: "'a lstate \<Rightarrow> 'a list result" where
  "Mapcar s = (let (h, l) = s in mapcar_from (brk h) h (first l))"

text \<open>
  \<^verbatim>\<open>~List\<close>: \<^verbatim>\<open>while (Remove() != NULL);\<close> The loop also stops at an item that is itself a
  null pointer, which \<open>is_null\<close> tells.
\<close>

fun destroy_loop :: "nat \<Rightarrow> ('a \<Rightarrow> bool) \<Rightarrow> 'a lstate \<Rightarrow> 'a lstate result" where
  "destroy_loop 0 is_null s = Inl Out_Of_Fuel"
| "destroy_loop (Suc fuel) is_null s = rbind (Remove s) (\<lambda>(r, s').
     case r of None \<Rightarrow> Inr s'
     | Some x \<Rightarrow> if is_null x then Inr s' else destroy_loop fuel is_null s')"

definition List_delete :: "('a \<Rightarrow> bool) \<Rightarrow> 'a lstate \<Rightarrow> 'a lstate result" where
  "List_delete is_null s = destroy_loop (Suc (brk (fst s))) is_null s"

definition getSize :: "list_obj \<Rightarrow> int" where
  "getSize l = list_size l"

section \<open>Representation\<close>

primrec path :: "'a heap \<Rightarrow> nat option \<Rightarrow> nat list \<Rightarrow> nat option \<Rightarrow> bool" where
  "path h p [] q \<longleftrightarrow> p = q"
| "path h p (a # as) q \<longleftrightarrow> p = Some a \<and> (\<exists>e. cells h a = Some e \<and> path h (next_ptr e) as q)"

definition elem_of :: "'a heap \<Rightarrow> nat \<Rightarrow> int \<times> 'a" where
  "elem_of h a = (key (the (cells h a)), item (the (cells h a)))"

abbreviation content :: "'a heap \<Rightarrow> nat list \<Rightarrow> (int \<times> 'a) list" where
  "content h ps \<equiv> map (elem_of h) ps"

definition heap_ok :: "'a heap \<Rightarrow> bool" where
  "heap_ok h \<longleftrightarrow> (\<forall>a. cells h a \<noteq> None \<longrightarrow> a < brk h)"

definition list_at :: "nat list \<Rightarrow> 'a heap \<Rightarrow> list_obj \<Rightarrow> bool" where
  "list_at ps h l \<longleftrightarrow> path h (first l) ps None \<and> distinct ps \<and> heap_ok h
     \<and> last_elt l = (if ps = [] then None else Some (last ps))"

definition list_rep :: "'a lstate \<Rightarrow> (int \<times> 'a) list \<Rightarrow> bool" where
  "list_rep s xs \<longleftrightarrow> (\<exists>ps. list_at ps (fst s) (snd s) \<and> xs = content (fst s) ps)"

text \<open>What an operation on the list at \<open>ps\<close> leaves alone: every other allocated cell.\<close>

definition frame :: "nat list \<Rightarrow> 'a heap \<Rightarrow> 'a heap \<Rightarrow> bool" where
  "frame ps h h' \<longleftrightarrow> (\<forall>a. a \<notin> set ps \<longrightarrow> a < brk h \<longrightarrow> cells h' a = cells h a) \<and> brk h \<le> brk h'
     \<and> heap_ok h'"

lemma path_append:
  "path h p (as @ bs) q \<longleftrightarrow> (\<exists>r. path h p as r \<and> path h r bs q)"
  by (induction as arbitrary: p) auto

lemma path_cong:
  "(\<And>a. a \<in> set ps \<Longrightarrow> cells h' a = cells h a) \<Longrightarrow> path h' p ps q = path h p ps q"
  by (induction ps arbitrary: p) auto

lemma content_cong:
  "(\<And>a. a \<in> set ps \<Longrightarrow> cells h' a = cells h a) \<Longrightarrow> content h' ps = content h ps"
  by (simp add: elem_of_def)

lemma path_allocated: "path h p ps q \<Longrightarrow> a \<in> set ps \<Longrightarrow> \<exists>e. cells h a = Some e"
  by (induction ps arbitrary: p) auto

lemma path_None_iff: "path h None ps q \<longleftrightarrow> ps = [] \<and> q = None"
  by (cases ps) auto

lemma path_to_None: "path h p ps None \<Longrightarrow> p = (if ps = [] then None else Some (hd ps))"
  by (cases ps) auto

lemma heap_ok_less: "heap_ok h \<Longrightarrow> cells h a = Some e \<Longrightarrow> a < brk h"
  by (auto simp: heap_ok_def)

lemma list_at_less: "list_at ps h l \<Longrightarrow> a \<in> set ps \<Longrightarrow> a < brk h"
  unfolding list_at_def by (meson heap_ok_less path_allocated)

lemma list_at_fresh [simp]: "list_at ps h l \<Longrightarrow> brk h \<notin> set ps"
  using list_at_less by blast

lemma list_at_length: "list_at ps h l \<Longrightarrow> length ps \<le> brk h"
proof -
  assume at: "list_at ps h l"
  then have "set ps \<subseteq> {..<brk h}" using list_at_less by blast
  then have "card (set ps) \<le> brk h" using card_mono [of "{..<brk h}"] by simp
  moreover have "card (set ps) = length ps"
    using at distinct_card by (auto simp: list_at_def)
  ultimately show ?thesis by simp
qed

lemma list_at_empty_iff: "list_at ps h l \<Longrightarrow> IsEmpty l \<longleftrightarrow> ps = []"
  by (auto simp: list_at_def IsEmpty_def dest!: path_to_None split: if_splits)

lemma list_at_frame:
  assumes "list_at qs h l" "frame ps h h'" "set qs \<inter> set ps = {}"
  shows "list_at qs h' l" "content h' qs = content h qs"
proof -
  have same: "cells h' a = cells h a" if "a \<in> set qs" for a
    using that assms list_at_less [OF assms(1) that] by (auto simp: frame_def)
  show "content h' qs = content h qs" by (rule content_cong) (rule same)
  show "list_at qs h' l"
    using assms path_cong [OF same] by (auto simp: list_at_def frame_def)
qed

section \<open>The operations refine operations on sequences\<close>

text \<open>Linking a new cell \<open>c\<close> in after cell \<open>p\<close>.\<close>

lemma path_insert_after:
  assumes "path h q (us @ p # vs) None" "distinct (us @ p # vs)" "cells h p = Some e"
    and same: "\<And>a. a \<in> set us \<union> set vs \<Longrightarrow> cells h' a = cells h a"
    and "cells h' p = Some (e\<lparr>next_ptr := Some c\<rparr>)" "cells h' c = Some e'"
    and "next_ptr e' = next_ptr e"
  shows "path h' q (us @ p # c # vs) None"
proof -
  have "path h' r us t = path h r us t" "path h' r vs t = path h r vs t" for r t
    using same by (auto intro!: path_cong)
  with assms show ?thesis by (auto simp: path_append)
qed

lemma Append_at:
  assumes "list_at ps h l"
  shows "\<exists>h' l'. Append x (h, l) = Inr (h', l') \<and> list_at (ps @ [brk h]) h' l'
     \<and> content h' (ps @ [brk h]) = content h ps @ [(0, x)]
     \<and> list_size l' = list_size l + 1 \<and> frame ps h h'"
proof (cases ps rule: rev_cases)
  case Nil
  with assms list_at_empty_iff [OF assms] show ?thesis
    by (auto simp: Append_def ListElement_def IsEmpty_def list_at_def heap_ok_def frame_def
        elem_of_def)
next
  case (snoc qs b)
  let ?c = "brk h"
  let ?n = "\<lparr>next_ptr = None, key = 0, item = x\<rparr>"
  from assms snoc obtain e where e: "cells h b = Some e"
    by (auto simp: list_at_def dest!: path_allocated [where a = b])
  have b: "b \<noteq> ?c" "?c \<notin> set qs" "b \<notin> set qs"
    using assms snoc list_at_fresh [OF assms] by (auto simp: list_at_def)
  let ?h' = "h\<lparr>cells := (cells h)(?c \<mapsto> ?n, b \<mapsto> e\<lparr>next_ptr := Some ?c\<rparr>), brk := Suc ?c\<rparr>"
  let ?l' = "l\<lparr>list_size := list_size l + 1, last_elt := Some ?c\<rparr>"
  have "Append x (h, l) = Inr (?h', ?l')"
    using assms snoc list_at_empty_iff [OF assms] e b
    by (auto simp: Append_def ListElement_def IsEmpty_def list_at_def set_next_def Let_def)
  moreover have "path ?h' (first l) (qs @ [b, ?c]) None"
    by (rule path_insert_after [where h = h and e = e and e' = ?n])
      (use assms snoc e b in \<open>auto simp: list_at_def path_append\<close>)
  moreover have "content ?h' (ps @ [?c]) = content h ps @ [(0, x)]"
    using snoc e b by (auto simp: elem_of_def)
  moreover have "frame ps h ?h'" and "heap_ok ?h'"
    using assms snoc e by (auto simp: frame_def list_at_def heap_ok_def less_Suc_eq)
  ultimately show ?thesis
    using assms snoc b list_at_fresh [OF assms] by (auto simp: list_at_def)
qed

lemma Prepend_at:
  assumes "list_at ps h l"
  shows "\<exists>h' l'. Prepend x (h, l) = Inr (h', l') \<and> list_at (brk h # ps) h' l'
     \<and> content h' (brk h # ps) = (0, x) # content h ps
     \<and> list_size l' = list_size l + 1 \<and> frame ps h h'"
proof (cases ps)
  case Nil
  with assms list_at_empty_iff [OF assms] show ?thesis
    by (auto simp: Prepend_def ListElement_def IsEmpty_def list_at_def heap_ok_def frame_def
        elem_of_def)
next
  case (Cons a qs)
  let ?c = "brk h"
  let ?h' = "h\<lparr>cells := (cells h)(?c \<mapsto> \<lparr>next_ptr = first l, key = 0, item = x\<rparr>), brk := Suc ?c\<rparr>"
  have c: "?c \<notin> set ps" by (rule list_at_fresh [OF assms])
  have "Prepend x (h, l) = Inr (?h', l\<lparr>list_size := list_size l + 1, first := Some ?c\<rparr>)"
    using Cons list_at_empty_iff [OF assms]
    by (auto simp: Prepend_def ListElement_def IsEmpty_def set_next_def Let_def)
  moreover have "path ?h' (first l) ps None = path h (first l) ps None"
    by (rule path_cong) (use c in auto)
  moreover have "content ?h' ps = content h ps"
    by (rule content_cong) (use c in auto)
  moreover have "heap_ok ?h'" "frame ps h ?h'"
    using assms by (auto simp: list_at_def heap_ok_def frame_def less_Suc_eq)
  ultimately show ?thesis
    using assms c Cons by (auto simp: list_at_def elem_of_def)
qed

lemma SortedRemove_at_Nil:
  assumes "list_at [] h l" shows "SortedRemove (h, l) = Inr (None, (h, l))"
  using assms by (simp add: SortedRemove_def list_at_def)

lemma SortedRemove_at_Cons:
  assumes "list_at (a # ps) h l"
  shows "\<exists>h' l'. SortedRemove (h, l) = Inr (Some (elem_of h a), (h', l')) \<and> list_at ps h' l'
     \<and> content h' ps = content h ps \<and> list_size l' = list_size l \<and> frame (a # ps) h h'
     \<and> cells h' a = None"
proof -
  from assms obtain e where e: "cells h a = Some e" "first l = Some a"
    and p: "path h (next_ptr e) ps None" and a: "a \<notin> set ps" "distinct ps"
    by (auto simp: list_at_def)
  let ?h' = "delete_element a h"
  let ?l' = "if first l = last_elt l then l\<lparr>first := None, last_elt := None\<rparr>
             else l\<lparr>first := next_ptr e\<rparr>"
  have last: "first l = last_elt l \<longleftrightarrow> ps = []"
    using assms e a by (cases ps rule: rev_cases) (auto simp: list_at_def)
  have "SortedRemove (h, l) = Inr (Some (elem_of h a), (?h', ?l'))"
    using e by (simp add: SortedRemove_def deref_def elem_of_def Let_def)
  moreover have same: "cells ?h' b = cells h b" if "b \<in> set ps" for b
    using that a by (auto simp: delete_element_def)
  moreover have "heap_ok ?h'" "frame (a # ps) h ?h'" "cells ?h' a = None"
    using assms by (auto simp: list_at_def heap_ok_def delete_element_def frame_def)
  ultimately have "list_at ps ?h' ?l'"
    using assms p a last path_cong [OF same, of ps] by (auto simp: list_at_def path_to_None)
  then show ?thesis
    using \<open>SortedRemove _ = _\<close> \<open>frame _ _ _\<close> \<open>cells ?h' a = None\<close> content_cong [OF same, of ps]
    by auto
qed

text \<open>The sequence operation \<^verbatim>\<open>SortedInsert\<close> implements: in front of the first larger key.\<close>

fun sorted_ins :: "int \<Rightarrow> 'a \<Rightarrow> (int \<times> 'a) list \<Rightarrow> (int \<times> 'a) list" where
  "sorted_ins k x [] = [(k, x)]"
| "sorted_ins k x (y # ys) = (if k < fst y then (k, x) # y # ys else y # sorted_ins k x ys)"

lemma sorted_ins_last: "\<forall>y \<in> set xs. fst y \<le> k \<Longrightarrow> sorted_ins k x xs = xs @ [(k, x)]"
  by (induction xs) auto

lemma sorted_ins_before:
  "\<forall>y \<in> set xs. fst y \<le> k \<Longrightarrow> k < fst z \<Longrightarrow>
   sorted_ins k x (xs @ z # zs) = xs @ (k, x) # z # zs"
  by (induction xs) auto

lemma mset_sorted_ins [simp]: "mset (sorted_ins k x xs) = add_mset (k, x) (mset xs)"
  by (induction xs) auto

lemma set_sorted_ins [simp]: "set (sorted_ins k x xs) = insert (k, x) (set xs)"
  by (induction xs) auto

lemma sorted_sorted_ins:
  "sorted (map fst xs) \<Longrightarrow> sorted (map fst (sorted_ins k x xs))"
  by (induction xs) auto

text \<open>Items inserted under equal keys come out in the order they went in.\<close>

lemma filter_sorted_ins:
  assumes "sorted (map fst xs)"
  shows "filter (\<lambda>y. fst y = j) (sorted_ins k x xs)
       = filter (\<lambda>y. fst y = j) xs @ (if j = k then [(k, x)] else [])"
  using assms
proof (induction xs)
  case Nil
  then show ?case by simp
next
  case (Cons y ys)
  have "filter (\<lambda>z. fst z = k) (y # ys) = []" if "k < fst y"
    using that Cons.prems by (force simp: filter_empty_conv)
  with Cons show ?case by auto
qed

lemma sorted_walk_spec:
  assumes "path h (Some a) (a # ps) None" "length ps < fuel"
  shows "(sorted_walk fuel h k a = Inr None \<and> (\<forall>b \<in> set ps. fst (elem_of h b) \<le> k))
     \<or> (\<exists>us p b vs. a # ps = us @ p # b # vs \<and> sorted_walk fuel h k a = Inr (Some p)
          \<and> k < fst (elem_of h b) \<and> (\<forall>c \<in> set (tl (us @ [p])). fst (elem_of h c) \<le> k))"
  using assms
proof (induction ps arbitrary: a fuel)
  case Nil
  then show ?case by (cases fuel) (auto simp: deref_def)
next
  case (Cons b ps)
  then obtain f e e' where f: "fuel = Suc f" "length ps < f"
    and e: "cells h a = Some e" "next_ptr e = Some b" "cells h b = Some e'"
    by (cases fuel) auto
  have key: "key e' = fst (elem_of h b)" using e by (simp add: elem_of_def)
  show ?case
  proof (cases "k < key e'")
    case True
    have "sorted_walk fuel h k a = Inr (Some a)" using f e True by (simp add: deref_def)
    with True key have "a # b # ps = [] @ a # b # ps \<and> sorted_walk fuel h k a = Inr (Some a)
        \<and> k < fst (elem_of h b) \<and> (\<forall>c \<in> set (tl ([] @ [a])). fst (elem_of h c) \<le> k)" by simp
    then show ?thesis by blast
  next
    case False
    have walk: "sorted_walk fuel h k a = sorted_walk f h k b"
      using f e False by (simp add: deref_def)
    have "path h (Some b) (b # ps) None" using Cons.prems e by auto
    from Cons.IH [OF this f(2)] consider
        "sorted_walk f h k b = Inr None" "\<forall>c \<in> set ps. fst (elem_of h c) \<le> k"
      | us p c vs where "b # ps = us @ p # c # vs" "sorted_walk f h k b = Inr (Some p)"
          "k < fst (elem_of h c)" "\<forall>d \<in> set (tl (us @ [p])). fst (elem_of h d) \<le> k"
      by blast
    then show ?thesis
    proof cases
      case 1
      then show ?thesis using False key walk by simp
    next
      case 2
      then have "a # b # ps = (a # us) @ p # c # vs" by simp
      moreover have "\<forall>d \<in> set (tl ((a # us) @ [p])). fst (elem_of h d) \<le> k"
        using 2 False key by (cases us) auto
      ultimately show ?thesis using 2 walk by metis
    qed
  qed
qed

lemma SortedInsert_after:
  fixes x :: 'a and k :: int
  assumes at: "list_at (us @ p # vs) h l" and p: "cells h p = Some e"
  defines "c \<equiv> brk h"
  defines "h' \<equiv> h\<lparr>cells := (cells h)(c \<mapsto> \<lparr>next_ptr = next_ptr e, key = k, item = x\<rparr>,
                     p \<mapsto> e\<lparr>next_ptr := Some c\<rparr>), brk := Suc c\<rparr>"
  shows "path h' (first l) (us @ p # c # vs) None" "heap_ok h'" "frame (us @ p # vs) h h'"
    "content h' (us @ p # c # vs) = content h (us @ [p]) @ (k, x) # content h vs"
proof -
  have c: "c \<notin> set (us @ p # vs)" unfolding c_def by (rule list_at_fresh [OF at])
  show "path h' (first l) (us @ p # c # vs) None"
    by (rule path_insert_after [where h = h and e = e
          and e' = "\<lparr>next_ptr = next_ptr e, key = k, item = x\<rparr>"])
      (use at p c in \<open>auto simp: list_at_def h'_def\<close>)
  show "heap_ok h'" "frame (us @ p # vs) h h'"
    using at p by (auto simp: list_at_def heap_ok_def frame_def h'_def c_def less_Suc_eq)
  show "content h' (us @ p # c # vs) = content h (us @ [p]) @ (k, x) # content h vs"
    using c p at by (auto simp: elem_of_def h'_def list_at_def)
qed

definition inserted_at :: "nat list \<Rightarrow> 'a heap \<Rightarrow> list_obj \<Rightarrow> int \<Rightarrow> 'a \<Rightarrow> 'a lstate result \<Rightarrow> bool"
  where "inserted_at ps h l k x r \<longleftrightarrow> (\<exists>h' l' ps'. r = Inr (h', l') \<and> list_at ps' h' l'
     \<and> content h' ps' = sorted_ins k x (content h ps)
     \<and> set ps' = insert (brk h) (set ps) \<and> list_size l' = list_size l \<and> frame ps h h')"

lemma inserted_atI:
  "r = Inr (h', l') \<Longrightarrow> list_at ps' h' l' \<Longrightarrow> content h' ps' = sorted_ins k x (content h ps) \<Longrightarrow>
   set ps' = insert (brk h) (set ps) \<Longrightarrow> list_size l' = list_size l \<Longrightarrow> frame ps h h' \<Longrightarrow>
   inserted_at ps h l k x r"
  unfolding inserted_at_def by blast

abbreviation with_new :: "int \<Rightarrow> 'a \<Rightarrow> 'a heap \<Rightarrow> 'a heap" where
  "with_new k x h \<equiv> snd (ListElement x k h)"

lemma SortedInsert_empty:
  assumes at: "list_at [] h l"
  shows "inserted_at [] h l k x (SortedInsert x k (h, l))"
proof -
  from at have "first l = None" by (simp add: list_at_def)
  with at show ?thesis
    by (intro inserted_atI [where ps' = "[brk h]"], simp add: SortedInsert_def ListElement_def)
      (auto simp: list_at_def heap_ok_def frame_def elem_of_def less_Suc_eq split: if_splits)
qed

lemma SortedInsert_front:
  assumes at: "list_at (a # qs) h l" and e: "cells h a = Some e" and k: "k < key e"
  shows "inserted_at (a # qs) h l k x (SortedInsert x k (h, l))"
proof -
  let ?c = "brk h" and ?ps = "a # qs"
  let ?h' = "h\<lparr>cells := (cells h)(?c \<mapsto> \<lparr>next_ptr = Some a, key = k, item = x\<rparr>), brk := Suc ?c\<rparr>"
  have c: "?c \<notin> set ?ps" by (rule list_at_fresh [OF at])
  have eq: "SortedInsert x k (h, l) = Inr (?h', l\<lparr>first := Some ?c\<rparr>)"
    using at c e k by (auto simp: SortedInsert_def ListElement_def deref_def set_next_def list_at_def)
  have "path ?h' (Some a) ?ps None = path h (Some a) ?ps None"
    by (rule path_cong) (use c in auto)
  moreover have "content ?h' ?ps = content h ?ps" by (rule content_cong) (use c in auto)
  moreover have "heap_ok ?h'" "frame ?ps h ?h'"
    using at by (auto simp: list_at_def heap_ok_def frame_def less_Suc_eq)
  moreover have "sorted_ins k x (content h ?ps) = (k, x) # content h ?ps"
    using e k by (simp add: elem_of_def)
  moreover have "elem_of ?h' ?c = (k, x)" by (simp add: elem_of_def)
  ultimately show ?thesis
    using at c by (intro inserted_atI [where ps' = "?c # ?ps", OF eq]) (simp_all add: list_at_def)
qed

lemma SortedInsert_back:
  assumes at: "list_at (us @ [p]) h l" and a: "first l = Some a" "cells h a = Some e" "\<not> k < key e"
    and walk: "sorted_walk (Suc (brk h)) (with_new k x h) k a = Inr None"
    and le: "\<forall>b \<in> set (us @ [p]). fst (elem_of h b) \<le> k"
  shows "inserted_at (us @ [p]) h l k x (SortedInsert x k (h, l))"
proof -
  let ?c = "brk h"
  from at obtain pe where pe: "cells h p = Some pe" "next_ptr pe = None"
    by (auto simp: list_at_def path_append)
  let ?h' = "h\<lparr>cells := (cells h)(?c \<mapsto> \<lparr>next_ptr = next_ptr pe, key = k, item = x\<rparr>,
                 p \<mapsto> pe\<lparr>next_ptr := Some ?c\<rparr>), brk := Suc ?c\<rparr>"
  note ins = SortedInsert_after [OF at pe(1), where k = k and x = x]
  have "a \<noteq> ?c" "p \<noteq> ?c" using at a pe by (auto simp: list_at_def dest: heap_ok_less)
  then have eq: "SortedInsert x k (h, l) = Inr (?h', l\<lparr>last_elt := Some ?c\<rparr>)"
    using at pe a walk
    by (simp add: SortedInsert_def ListElement_def deref_def set_next_def list_at_def fun_upd_twist)
  have "sorted_ins k x (content h (us @ [p])) = content h (us @ [p]) @ [(k, x)]"
    by (rule sorted_ins_last) (use le in auto)
  then show ?thesis
    using ins at list_at_fresh [OF at] by (intro inserted_atI [where ps' = "us @ [p, ?c]", OF eq]) (auto simp: list_at_def)
qed

lemma SortedInsert_mid:
  assumes at: "list_at (us @ p # b # vs) h l"
    and a: "first l = Some a" "cells h a = Some e" "\<not> k < key e"
    and walk: "sorted_walk (Suc (brk h)) (with_new k x h) k a = Inr (Some p)"
    and le: "\<forall>b \<in> set (us @ [p]). fst (elem_of h b) \<le> k" and gt: "k < fst (elem_of h b)"
  shows "inserted_at (us @ p # b # vs) h l k x (SortedInsert x k (h, l))"
proof -
  let ?c = "brk h"
  from at obtain pe where pe: "cells h p = Some pe"
    by (auto simp: list_at_def path_append)
  let ?h' = "h\<lparr>cells := (cells h)(?c \<mapsto> \<lparr>next_ptr = next_ptr pe, key = k, item = x\<rparr>,
                 p \<mapsto> pe\<lparr>next_ptr := Some ?c\<rparr>), brk := Suc ?c\<rparr>"
  note ins = SortedInsert_after [OF at pe, where k = k and x = x]
  have "a \<noteq> ?c" "p \<noteq> ?c" using at a pe by (auto simp: list_at_def dest: heap_ok_less)
  then have eq: "SortedInsert x k (h, l) = Inr (?h', l)"
    using pe a walk
    by (simp add: SortedInsert_def ListElement_def deref_def set_next_def fun_upd_twist)
  have "sorted_ins k x (content h (us @ [p]) @ elem_of h b # content h vs)
      = content h (us @ [p]) @ (k, x) # elem_of h b # content h vs"
    by (rule sorted_ins_before) (use le gt in auto)
  then show ?thesis
    using ins at list_at_fresh [OF at] by (intro inserted_atI [where ps' = "us @ p # ?c # b # vs", OF eq])
      (auto simp: list_at_def)
qed

lemma SortedInsert_at:
  assumes at: "list_at ps h l"
  shows "inserted_at ps h l k x (SortedInsert x k (h, l))"
proof (cases ps)
  case Nil
  with at show ?thesis using SortedInsert_empty by simp
next
  case (Cons a qs)
  let ?h1 = "with_new k x h"
  from at Cons obtain e where e: "first l = Some a" "cells h a = Some e"
    by (auto simp: list_at_def)
  have c: "brk h \<notin> set ps" by (rule list_at_fresh [OF at])
  have same: "elem_of ?h1 b = elem_of h b" if "b \<in> set ps" for b
    using that c by (auto simp: elem_of_def ListElement_def)
  show ?thesis
  proof (cases "k < key e")
    case True
    with SortedInsert_front [OF at [unfolded Cons] e(2)] Cons show ?thesis by simp
  next
    case False
    have ka: "fst (elem_of h a) \<le> k" using False e by (simp add: elem_of_def)
    have "path ?h1 (Some a) (a # qs) None = path h (Some a) (a # qs) None"
      by (rule path_cong) (use c Cons in \<open>auto simp: ListElement_def\<close>)
    then have p1: "path ?h1 (Some a) (a # qs) None"
      using at Cons e by (simp add: list_at_def)
    have fuel: "length qs < Suc (brk h)" using list_at_length [OF at] Cons by simp
    from sorted_walk_spec [OF p1 fuel, of k] consider
        (at_end) "sorted_walk (Suc (brk h)) ?h1 k a = Inr None"
          "\<forall>b \<in> set qs. fst (elem_of ?h1 b) \<le> k"
      | (mid) us p b vs where "a # qs = us @ p # b # vs"
          "sorted_walk (Suc (brk h)) ?h1 k a = Inr (Some p)" "k < fst (elem_of ?h1 b)"
          "\<forall>d \<in> set (tl (us @ [p])). fst (elem_of ?h1 d) \<le> k"
      by blast
    then show ?thesis
    proof cases
      case at_end
      have le: "\<forall>b \<in> set ps. fst (elem_of h b) \<le> k"
        using at_end(2) ka same Cons by auto
      obtain us p where ps: "ps = us @ [p]" using Cons by (metis append_butlast_last_id list.discI)
      with SortedInsert_back [OF at [unfolded ps] e False at_end(1)] ps le show ?thesis by simp
    next
      case mid
      then have ps: "ps = us @ p # b # vs" using Cons by simp
      have "\<forall>d \<in> set (us @ [p]). fst (elem_of h d) \<le> k"
        using mid(1,4) ka same ps by (cases us) auto
      moreover have "k < fst (elem_of h b)" using mid(3) same ps by simp
      ultimately show ?thesis
        using SortedInsert_mid [OF at [unfolded ps] e False mid(2)] ps by simp
    qed
  qed
qed

lemma mapcar_from_path:
  "path h p ps None \<Longrightarrow> length ps \<le> fuel \<Longrightarrow> mapcar_from fuel h p = Inr (map snd (content h ps))"
proof (induction ps arbitrary: p fuel)
  case Nil
  then show ?case by (cases fuel) auto
next
  case (Cons a ps)
  then show ?case by (cases fuel) (auto simp: deref_def elem_of_def)
qed

section \<open>The list interface\<close>

text \<open>
  What clients of a list rely on, over any representation \<open>rep\<close> of a sequence of
  (key, item) pairs: each operation succeeds on a represented list and has the
  stated effect on the sequence and on the value \<open>getSize\<close> returns.
\<close>

locale list_ops =
  fixes rep :: "'s \<Rightarrow> (int \<times> 'a) list \<Rightarrow> bool"
    and sz :: "'s \<Rightarrow> int"
    and append_op prepend_op :: "'a \<Rightarrow> 's \<Rightarrow> 's result"
    and remove_op :: "'s \<Rightarrow> ('a option \<times> 's) result"
    and insert_op :: "'a \<Rightarrow> int \<Rightarrow> 's \<Rightarrow> 's result"
    and sorted_remove_op :: "'s \<Rightarrow> ((int \<times> 'a) option \<times> 's) result"
  assumes append_law: "rep s xs \<Longrightarrow>
      \<exists>s'. append_op x s = Inr s' \<and> rep s' (xs @ [(0, x)]) \<and> sz s' = sz s + 1"
    and prepend_law: "rep s xs \<Longrightarrow>
      \<exists>s'. prepend_op x s = Inr s' \<and> rep s' ((0, x) # xs) \<and> sz s' = sz s + 1"
    and remove_empty_law: "rep s [] \<Longrightarrow>
      \<exists>s'. remove_op s = Inr (None, s') \<and> rep s' [] \<and> sz s' = sz s - 1"
    and remove_law: "rep s ((k, x) # xs) \<Longrightarrow>
      \<exists>s'. remove_op s = Inr (Some x, s') \<and> rep s' xs \<and> sz s' = sz s - 1"
    and insert_law: "rep s xs \<Longrightarrow>
      \<exists>s'. insert_op x k s = Inr s' \<and> rep s' (sorted_ins k x xs) \<and> sz s' = sz s"
    and sorted_remove_empty_law: "rep s [] \<Longrightarrow> sorted_remove_op s = Inr (None, s)"
    and sorted_remove_law: "rep s ((k, x) # xs) \<Longrightarrow>
      \<exists>s'. sorted_remove_op s = Inr (Some (k, x), s') \<and> rep s' xs \<and> sz s' = sz s"
begin

fun append_all :: "'a list \<Rightarrow> 's \<Rightarrow> 's result" where
  "append_all [] s = Inr s"
| "append_all (x # xs) s = rbind (append_op x s) (append_all xs)"

fun insert_all :: "(int \<times> 'a) list \<Rightarrow> 's \<Rightarrow> 's result" where
  "insert_all [] s = Inr s"
| "insert_all (y # ys) s = rbind (insert_op (snd y) (fst y) s) (insert_all ys)"

fun take_out :: "nat \<Rightarrow> 's \<Rightarrow> ('a list \<times> 's) result" where
  "take_out 0 s = Inr ([], s)"
| "take_out (Suc n) s = rbind (remove_op s) (\<lambda>(r, s').
     case r of None \<Rightarrow> Inr ([], s')
     | Some x \<Rightarrow> rbind (take_out n s') (\<lambda>(xs, s''). Inr (x # xs, s'')))"

lemma append_all_rep:
  "rep s ys \<Longrightarrow> \<exists>s'. append_all xs s = Inr s' \<and> rep s' (ys @ map (Pair 0) xs)
     \<and> sz s' = sz s + int (length xs)"
proof (induction xs arbitrary: s ys)
  case Nil
  then show ?case by simp
next
  case (Cons x xs)
  obtain s1 where s1: "append_op x s = Inr s1" "rep s1 (ys @ [(0, x)])" "sz s1 = sz s + 1"
    using append_law [OF Cons.prems] by blast
  from Cons.IH [OF s1(2)] s1 show ?case by auto
qed

lemma take_out_rep:
  "rep s ys \<Longrightarrow> n \<le> length ys \<Longrightarrow>
   \<exists>s'. take_out n s = Inr (map snd (take n ys), s') \<and> rep s' (drop n ys)
      \<and> sz s' = sz s - int n"
proof (induction n arbitrary: s ys)
  case 0
  then show ?case by simp
next
  case (Suc n)
  then obtain k x zs where ys: "ys = (k, x) # zs" by (cases ys) auto
  obtain s1 where s1: "remove_op s = Inr (Some x, s1)" "rep s1 zs" "sz s1 = sz s - 1"
    using remove_law Suc.prems ys by blast
  from Suc.IH [OF s1(2)] Suc.prems ys s1 show ?case by auto
qed

lemma fifo:
  assumes "rep s []"
  shows "\<exists>s1 s2. append_all xs s = Inr s1 \<and> take_out (length xs) s1 = Inr (xs, s2)
     \<and> rep s2 [] \<and> sz s2 = sz s"
proof -
  from append_all_rep [OF assms] obtain s1 where
    s1: "append_all xs s = Inr s1" "rep s1 (map (Pair 0) xs)" "sz s1 = sz s + int (length xs)"
    by auto
  from take_out_rep [OF s1(2), of "length xs"] s1 show ?thesis by (auto simp: comp_def)
qed

lemma insert_all_rep:
  "rep s ys \<Longrightarrow> sorted (map fst ys) \<Longrightarrow>
   \<exists>s' zs. insert_all xs s = Inr s' \<and> rep s' zs \<and> sorted (map fst zs)
     \<and> mset zs = mset ys + mset xs \<and> sz s' = sz s"
proof (induction xs arbitrary: s ys)
  case Nil
  then show ?case by auto
next
  case (Cons x xs)
  obtain s1 where s1: "insert_op (snd x) (fst x) s = Inr s1"
      "rep s1 (sorted_ins (fst x) (snd x) ys)" "sz s1 = sz s"
    using insert_law [OF Cons.prems(1)] by blast
  from Cons.IH [OF s1(2) sorted_sorted_ins [OF Cons.prems(2)]] s1 show ?case
    by (auto simp: union_assoc)
qed

end

section \<open>The heap model provides the interface\<close>

lemma heap_Append:
  "list_rep s xs \<Longrightarrow> \<exists>s'. Append x s = Inr s' \<and> list_rep s' (xs @ [(0, x)])
     \<and> list_size (snd s') = list_size (snd s) + 1"
proof -
  assume "list_rep s xs"
  then obtain h l ps where s: "s = (h, l)" "list_at ps h l" "xs = content h ps"
    by (cases s) (auto simp: list_rep_def)
  from Append_at [OF s(2), of x] s show ?thesis
    by (force simp: list_rep_def)
qed

lemma heap_Prepend:
  "list_rep s xs \<Longrightarrow> \<exists>s'. Prepend x s = Inr s' \<and> list_rep s' ((0, x) # xs)
     \<and> list_size (snd s') = list_size (snd s) + 1"
proof -
  assume "list_rep s xs"
  then obtain h l ps where s: "s = (h, l)" "list_at ps h l" "xs = content h ps"
    by (cases s) (auto simp: list_rep_def)
  from Prepend_at [OF s(2), of x] s show ?thesis
    by (force simp: list_rep_def)
qed

lemma heap_SortedRemove_Nil: "list_rep s [] \<Longrightarrow> SortedRemove s = Inr (None, s)"
  by (cases s) (auto simp: list_rep_def SortedRemove_at_Nil)

lemma heap_SortedRemove_Cons:
  assumes "list_rep s ((k, x) # xs)"
  shows "\<exists>s'. SortedRemove s = Inr (Some (k, x), s') \<and> list_rep s' xs
     \<and> list_size (snd s') = list_size (snd s)"
proof -
  from assms obtain h l a ps where s: "s = (h, l)" "list_at (a # ps) h l"
      "elem_of h a = (k, x)" "xs = content h ps"
    by (cases s) (auto simp: list_rep_def)
  from SortedRemove_at_Cons [OF s(2)] s show ?thesis
    by (force simp: list_rep_def)
qed

lemma list_rep_size [simp]: "list_rep (h, l\<lparr>list_size := n\<rparr>) xs = list_rep (h, l) xs"
  by (simp add: list_rep_def list_at_def)

lemma heap_SortedInsert:
  assumes "list_rep s xs"
  shows "\<exists>s'. SortedInsert x k s = Inr s' \<and> list_rep s' (sorted_ins k x xs)
     \<and> list_size (snd s') = list_size (snd s)"
proof -
  from assms obtain h l ps where s: "s = (h, l)" "list_at ps h l" "xs = content h ps"
    by (cases s) (auto simp: list_rep_def)
  from SortedInsert_at [OF s(2), of k x] s show ?thesis
    by (force simp: list_rep_def inserted_at_def)
qed

interpretation heap_list: list_ops list_rep "\<lambda>s. list_size (snd s)" Append Prepend Remove
  SortedInsert SortedRemove
proof
  fix s :: "'a lstate" and k x xs
  show "\<exists>s'. Remove s = Inr (None, s') \<and> list_rep s' []
      \<and> list_size (snd s') = list_size (snd s) - 1" if "list_rep s []"
    using that by (cases s) (simp add: Remove_def heap_SortedRemove_Nil)
  show "\<exists>s'. Remove s = Inr (Some x, s') \<and> list_rep s' xs
      \<and> list_size (snd s') = list_size (snd s) - 1" if "list_rep s ((k, x) # xs)"
  proof -
    obtain h l where s: "s = (h, l)" by (cases s)
    with that have "list_rep (h, l\<lparr>list_size := list_size l - 1\<rparr>) ((k, x) # xs)" by simp
    from heap_SortedRemove_Cons [OF this] s show ?thesis by (auto simp: Remove_def)
  qed
qed (fact heap_Append heap_Prepend heap_SortedInsert heap_SortedRemove_Nil
      heap_SortedRemove_Cons)+

section \<open>Lists as values\<close>

text \<open>
  The components that hold a private list (the ready list, a semaphore's queue, the
  pending interrupts, the active threads) use the list as a value: its sequence and
  the size counter. It meets the same contract as the heap model.
\<close>

record 'a nlist =
  elems :: "(int \<times> 'a) list"
  nsize :: int

abbreviation items :: "'a nlist \<Rightarrow> 'a list" where
  "items l \<equiv> map snd (elems l)"

definition list_new :: "'a nlist" where
  "list_new = \<lparr>elems = [], nsize = 0\<rparr>"

definition list_append :: "'a \<Rightarrow> 'a nlist \<Rightarrow> 'a nlist" where
  "list_append x l = l\<lparr>elems := elems l @ [(0, x)], nsize := nsize l + 1\<rparr>"

definition list_prepend :: "'a \<Rightarrow> 'a nlist \<Rightarrow> 'a nlist" where
  "list_prepend x l = l\<lparr>elems := (0, x) # elems l, nsize := nsize l + 1\<rparr>"

definition list_sorted_insert :: "'a \<Rightarrow> int \<Rightarrow> 'a nlist \<Rightarrow> 'a nlist" where
  "list_sorted_insert x k l = l\<lparr>elems := sorted_ins k x (elems l)\<rparr>"

definition list_sorted_remove :: "'a nlist \<Rightarrow> (int \<times> 'a) option \<times> 'a nlist" where
  "list_sorted_remove l = (case elems l of [] \<Rightarrow> (None, l)
     | y # ys \<Rightarrow> (Some y, l\<lparr>elems := ys\<rparr>))"

definition list_remove :: "'a nlist \<Rightarrow> 'a option \<times> 'a nlist" where
  "list_remove l = (let (r, l') = list_sorted_remove (l\<lparr>nsize := nsize l - 1\<rparr>)
     in (map_option snd r, l'))"

definition list_is_empty :: "'a nlist \<Rightarrow> bool" where
  "list_is_empty l \<longleftrightarrow> elems l = []"

interpretation value_list: list_ops "\<lambda>l xs. elems l = xs" nsize
  "\<lambda>x l. Inr (list_append x l)" "\<lambda>x l. Inr (list_prepend x l)" "\<lambda>l. Inr (list_remove l)"
  "\<lambda>x k l. Inr (list_sorted_insert x k l)" "\<lambda>l. Inr (list_sorted_remove l)"
  by unfold_locales
    (auto simp: list_append_def list_prepend_def list_remove_def list_sorted_insert_def
      list_sorted_remove_def)

definition list_tl :: "'a nlist \<Rightarrow> 'a nlist" where
  "list_tl l = l\<lparr>elems := tl (elems l), nsize := nsize l - 1\<rparr>"

lemma items_simps [simp]:
  "items (list_append x l) = items l @ [x]" "items (list_prepend x l) = x # items l"
  "items list_new = []" "items (list_tl l) = tl (items l)"
  by (simp_all add: list_append_def list_prepend_def list_new_def list_tl_def map_tl)

lemma list_remove_alt:
  "list_remove l = (if items l = [] then None else Some (hd (items l)), list_tl l)"
  by (cases "elems l") (auto simp: list_remove_def list_sorted_remove_def list_tl_def)

section \<open>Walking and destroying a list\<close>

lemma list_at_size [simp]: "list_at ps h (l\<lparr>list_size := n\<rparr>) = list_at ps h l"
  by (simp add: list_at_def)

lemma frame_trans: "frame (a # ps) h h1 \<Longrightarrow> frame ps h1 h2 \<Longrightarrow> frame (a # ps) h h2"
  by (auto simp: frame_def)

lemma Remove_at_Cons:
  assumes "list_at (a # ps) h l"
  shows "\<exists>h' l'. Remove (h, l) = Inr (Some (snd (elem_of h a)), (h', l')) \<and> list_at ps h' l'
     \<and> content h' ps = content h ps \<and> frame (a # ps) h h' \<and> cells h' a = None"
proof -
  have "list_at (a # ps) h (l\<lparr>list_size := list_size l - 1\<rparr>)" using assms by simp
  from SortedRemove_at_Cons [OF this] show ?thesis by (auto simp: Remove_def)
qed

lemma destroy_loop_at:
  assumes "list_at ps h l" "length ps < fuel" "\<forall>y \<in> set (content h ps). \<not> is_null (snd y)"
  shows "\<exists>h' l'. destroy_loop fuel is_null (h, l) = Inr (h', l') \<and> list_at [] h' l'
     \<and> (\<forall>a \<in> set ps. cells h' a = None) \<and> frame ps h h'"
  using assms
proof (induction ps arbitrary: h l fuel)
  case Nil
  then have "SortedRemove (h, l\<lparr>list_size := list_size l - 1\<rparr>)
      = Inr (None, (h, l\<lparr>list_size := list_size l - 1\<rparr>))"
    by (intro SortedRemove_at_Nil) simp
  with Nil show ?case
    by (cases fuel) (auto simp: Remove_def frame_def list_at_def)
next
  case (Cons a ps)
  then obtain f where f: "fuel = Suc f" "length ps < f" by (cases fuel) auto
  obtain h1 l1 where r: "Remove (h, l) = Inr (Some (snd (elem_of h a)), (h1, l1))"
      "list_at ps h1 l1" "content h1 ps = content h ps" "frame (a # ps) h h1" "cells h1 a = None"
    using Remove_at_Cons [OF Cons.prems(1)] by blast
  have "\<forall>y \<in> set (content h1 ps). \<not> is_null (snd y)" using Cons.prems(3) r(3) by simp
  from Cons.IH [OF r(2) f(2) this] obtain h2 l2 where
    d: "destroy_loop f is_null (h1, l1) = Inr (h2, l2)" "list_at [] h2 l2"
      "\<forall>b \<in> set ps. cells h2 b = None" "frame ps h1 h2" by blast
  have "a \<notin> set ps" "a < brk h"
    using Cons.prems(1) list_at_less [OF Cons.prems(1), of a] by (auto simp: list_at_def)
  then have "cells h2 a = None" using d(4) r(4,5) by (auto simp: frame_def)
  then show ?case
    using f r(1) d Cons.prems(3) frame_trans [OF r(4) d(4)] by simp
qed

section \<open>Properties\<close>

text \<open>
  C12: every operation of \<^verbatim>\<open>list.cc\<close>, run on the heap of list elements, succeeds on a
  well-formed list (no null or dangling pointer is followed and the search loop ends) and
  implements the sequence operation: \<^verbatim>\<open>Append\<close> at the end, \<^verbatim>\<open>Prepend\<close> at the front,
  \<^verbatim>\<open>Remove\<close> and \<^verbatim>\<open>SortedRemove\<close> from the front (NULL when empty), \<^verbatim>\<open>SortedInsert\<close> in front of
  the first larger key, \<^verbatim>\<open>Mapcar\<close> over the items in order.
\<close>

theorem list_operations_refine:
  assumes "list_rep s xs"
  shows "(\<exists>s'. Append x s = Inr s' \<and> list_rep s' (xs @ [(0, x)]))
    \<and> (\<exists>s'. Prepend x s = Inr s' \<and> list_rep s' ((0, x) # xs))
    \<and> (\<exists>s'. SortedInsert x k s = Inr s' \<and> list_rep s' (sorted_ins k x xs))
    \<and> (\<exists>s'. Remove s = Inr (if xs = [] then None else Some (snd (hd xs)), s') \<and> list_rep s' (tl xs))
    \<and> (\<exists>s'. SortedRemove s = Inr (if xs = [] then None else Some (hd xs), s') \<and> list_rep s' (tl xs))
    \<and> Mapcar s = Inr (map snd xs)"
proof (intro conjI)
  show "\<exists>s'. Append x s = Inr s' \<and> list_rep s' (xs @ [(0, x)])"
    using heap_list.append_law [OF assms] by blast
  show "\<exists>s'. Prepend x s = Inr s' \<and> list_rep s' ((0, x) # xs)"
    using heap_list.prepend_law [OF assms] by blast
  show "\<exists>s'. SortedInsert x k s = Inr s' \<and> list_rep s' (sorted_ins k x xs)"
    using heap_list.insert_law [OF assms] by blast
  show "\<exists>s'. Remove s = Inr (if xs = [] then None else Some (snd (hd xs)), s') \<and> list_rep s' (tl xs)"
    using assms heap_list.remove_empty_law [of s] heap_list.remove_law [of s "fst (hd xs)" "snd (hd xs)" "tl xs"]
    by (cases xs) auto
  show "\<exists>s'. SortedRemove s = Inr (if xs = [] then None else Some (hd xs), s')
      \<and> list_rep s' (tl xs)"
    using assms heap_list.sorted_remove_empty_law [of s]
      heap_list.sorted_remove_law [of s "fst (hd xs)" "snd (hd xs)" "tl xs"]
    by (cases xs) auto
  obtain h l ps where "s = (h, l)" "list_at ps h l" "xs = content h ps"
    using assms by (cases s) (auto simp: list_rep_def)
  then show "Mapcar s = Inr (map snd xs)"
    using mapcar_from_path [of h "first l" ps "brk h"] list_at_length [of ps h l]
    by (simp add: Mapcar_def list_at_def)
qed

definition empty_heap :: "'a heap" where
  "empty_heap = \<lparr>cells = Map.empty, brk = 1\<rparr>"

lemma list_rep_new: "list_rep (empty_heap, List_new) []"
  by (simp add: list_rep_def list_at_def empty_heap_def List_new_def heap_ok_def)

theorem list_operations_refine_witness:
  "\<exists>s'. SortedInsert (7::nat) 3 (empty_heap, List_new) = Inr s' \<and> list_rep s' [(3, 7)]"
  using list_operations_refine [OF list_rep_new, of "7::nat" 3] by simp

text \<open>
  An operation on one list never disturbs another list that lives on the same heap
  (the ready list, the semaphore queues and the pending interrupts share it).
\<close>

theorem list_operations_frame:
  assumes "list_at ps h l" "list_at qs h m" "set ps \<inter> set qs = {}"
    and op: "Append x (h, l) = Inr (h', l') \<or> Prepend x (h, l) = Inr (h', l')
       \<or> SortedInsert x k (h, l) = Inr (h', l') \<or> SortedRemove (h, l) = Inr (r, (h', l'))
       \<or> Remove (h, l) = Inr (r', (h', l'))"
  shows "list_rep (h', m) (content h qs)"
proof -
  have "frame ps h h'"
  proof (cases ps)
    case Nil
    then have "SortedRemove (h, l) = Inr (None, (h, l))"
      "Remove (h, l) = Inr (None, (h, l\<lparr>list_size := list_size l - 1\<rparr>))"
      using assms(1) by (simp_all add: SortedRemove_at_Nil Remove_def)
    with op Append_at [OF assms(1), of x] Prepend_at [OF assms(1), of x]
      SortedInsert_at [OF assms(1), of k x] assms(1) show ?thesis
      by (auto simp: inserted_at_def frame_def list_at_def)
  next
    case (Cons a ps')
    with op Append_at [OF assms(1), of x] Prepend_at [OF assms(1), of x]
      SortedInsert_at [OF assms(1), of k x]
      SortedRemove_at_Cons [OF assms(1) [unfolded Cons]] Remove_at_Cons [OF assms(1) [unfolded Cons]]
    show ?thesis by (auto simp: inserted_at_def)
  qed
  moreover have "set qs \<inter> set ps = {}" using assms(3) by blast
  ultimately have "list_at qs h' m" "content h' qs = content h qs"
    using list_at_frame [OF assms(2)] by blast+
  then show ?thesis unfolding list_rep_def by (intro exI [where x = qs]) simp
qed

definition two_lists :: "nat heap" where
  "two_lists = \<lparr>cells = [1 \<mapsto> \<lparr>next_ptr = None, key = 0, item = 10\<rparr>,
                        2 \<mapsto> \<lparr>next_ptr = None, key = 0, item = 20\<rparr>], brk = 3\<rparr>"

definition single_list :: "nat \<Rightarrow> list_obj" where
  "single_list a = \<lparr>first = Some a, last_elt = Some a, list_size = 1\<rparr>"

lemma list_at_two_lists: "list_at [1] two_lists (single_list 1)" "list_at [2] two_lists (single_list 2)"
  by (simp_all add: list_at_def two_lists_def single_list_def heap_ok_def)

theorem list_operations_frame_witness:
  "\<exists>h' l'. Append 30 (two_lists, single_list 1) = Inr (h', l')
     \<and> list_rep (h', single_list 2) [(0, 20)]"
proof -
  obtain h' l' where ap: "Append 30 (two_lists, single_list 1) = Inr (h', l')"
    using Append_at [OF list_at_two_lists(1)] by blast
  have "content two_lists [2] = [(0, 20)]" by (simp add: two_lists_def elem_of_def)
  with list_operations_frame [OF list_at_two_lists, where x = 30 and h' = h' and l' = l'
      and k = 0 and r = None and r' = None] ap show ?thesis by auto
qed

text \<open>
  The destructor \<^verbatim>\<open>~List\<close> ends and frees every cell of a list that holds no null item,
  and only those cells.
\<close>

theorem list_destructor_frees:
  assumes "list_at ps h l" "\<forall>y \<in> set (content h ps). \<not> is_null (snd y)"
  shows "\<exists>h' l'. List_delete is_null (h, l) = Inr (h', l') \<and> list_rep (h', l') []
     \<and> (\<forall>a \<in> set ps. cells h' a = None) \<and> (\<forall>a. a \<notin> set ps \<longrightarrow> a < brk h \<longrightarrow> cells h' a = cells h a)"
proof -
  have "length ps < Suc (brk h)" using list_at_length [OF assms(1)] by simp
  from destroy_loop_at [OF assms(1) this assms(2)] show ?thesis
    by (auto simp: List_delete_def list_rep_def frame_def)
qed

theorem list_destructor_frees_witness:
  "\<exists>h' l'. List_delete (\<lambda>x. x = 0) (two_lists, single_list 1) = Inr (h', l')
     \<and> cells h' 1 = None \<and> cells h' 2 = cells two_lists 2"
proof -
  have "\<forall>y \<in> set (content two_lists [1]). \<not> (\<lambda>x. x = 0) (snd y)"
    by (simp add: two_lists_def elem_of_def)
  from list_destructor_frees [OF list_at_two_lists(1) this]
  obtain h' l' where "List_delete (\<lambda>x. x = 0) (two_lists, single_list 1) = Inr (h', l')"
      "cells h' 1 = None" "\<forall>a. a \<notin> set [1] \<longrightarrow> a < brk two_lists \<longrightarrow> cells h' a = cells two_lists a"
    by auto
  moreover have "2 < brk two_lists" by (simp add: two_lists_def)
  ultimately show ?thesis by auto
qed

text \<open>
  The size counter is not the length of the list: \<^verbatim>\<open>Remove\<close> on an empty list leaves
  -1, and \<^verbatim>\<open>SortedInsert\<close> leaves the counter where it was.
\<close>

theorem size_counter_drifts:
  "(\<exists>s. Remove (empty_heap, List_new) = Inr (None, s) \<and> list_rep s [] \<and> getSize (snd s) = - 1)
   \<and> (\<exists>s. SortedInsert x k (empty_heap, List_new) = Inr s \<and> list_rep s [(k, x)]
        \<and> getSize (snd s) = 0)"
  using heap_list.remove_empty_law [OF list_rep_new] heap_list.insert_law [OF list_rep_new, of x k]
  by (auto simp: getSize_def List_new_def)

end
