(* ===== verification/Interrupt_Sim.thy ===== *)
theory Interrupt_Sim
  imports Machine_State Linked_List
begin

text \<open>
  Simulated time and hardware interrupts: \<^verbatim>\<open>machine/interrupt.h\<close>, \<^verbatim>\<open>machine/interrupt.cc\<close>, the
  counters of \<^verbatim>\<open>machine/stats.h\<close> and the timer device of \<^verbatim>\<open>machine/timer.cc\<close>. The state is an
  extensible record, so that devices and threads add their own fields; the device routine an
  interrupt calls is a parameter \<open>call\<close> of the definitions, and the locale
  \<open>device_handlers\<close> says what the simulation relies on. A context switch asked for by a
  handler is returned as a flag: the thread system carries it out.
\<close>

section \<open>Statistics\<close>

text \<open>
  The counters are \<^verbatim>\<open>int\<close> variables of the host, and so are the clock and the times of interrupts; here they have no bound. The model is
  that of a run in which they stay below two to the 31st: \<open>counters_fit\<close> holds then, and a tick and an idle period keep it as long as
  the clock does not reach that limit.
\<close>

record Statistics =
  totalTicks :: int
  idleTicks :: int
  systemTicks :: int
  userTicks :: int
  numDiskReads :: int
  numDiskWrites :: int
  numConsoleCharsRead :: int
  numConsoleCharsWritten :: int
  numPageFaults :: int
  numPacketsSent :: int
  numPacketsRecvd :: int

definition Statistics_new :: Statistics where
  "Statistics_new = \<lparr>totalTicks = 0, idleTicks = 0, systemTicks = 0, userTicks = 0,
     numDiskReads = 0, numDiskWrites = 0, numConsoleCharsRead = 0, numConsoleCharsWritten = 0,
     numPageFaults = 0, numPacketsSent = 0, numPacketsRecvd = 0\<rparr>"

definition UserTick :: int where "UserTick = 1"
definition SystemTick :: int where "SystemTick = 10"
definition RotationTime :: int where "RotationTime = 500"
definition SeekTime :: int where "SeekTime = 500"
definition ConsoleTime :: int where "ConsoleTime = 100"
definition NetworkTime :: int where "NetworkTime = 100"
definition TimerTicks :: int where "TimerTicks = 100"

lemmas tick_defs = UserTick_def SystemTick_def RotationTime_def SeekTime_def ConsoleTime_def
  NetworkTime_def TimerTicks_def

section \<open>The interrupt hardware\<close>

datatype IntStatus = IntOff | IntOn
datatype MachineStatus = IdleMode | SystemMode | UserMode
datatype IntType = TimerInt | DiskInt | ConsoleWriteInt | ConsoleReadInt | NetworkSendInt
  | NetworkRecvInt

record 'h PendingInterrupt =
  int_handler :: 'h
  int_arg :: int
  int_when :: int
  int_type :: IntType

text \<open>
  The globals \<^verbatim>\<open>interrupt\<close>, \<^verbatim>\<open>stats\<close> and \<^verbatim>\<open>machine\<close>. \<open>mach\<close> is \<open>None\<close> where the source has no machine
  (\<^verbatim>\<open>USER_PROGRAM\<close> undefined or \<^verbatim>\<open>machine == NULL\<close>).
\<close>

record 'h interrupt_sys =
  level :: IntStatus
  pending :: "'h PendingInterrupt nlist"
  inHandler :: bool
  yieldOnReturn :: bool
  status :: MachineStatus
  stats :: Statistics
  mach :: "machine option"

definition Interrupt_new :: "machine option \<Rightarrow> 'h interrupt_sys" where
  "Interrupt_new mo = \<lparr>level = IntOff, pending = list_new, inHandler = False,
     yieldOnReturn = False, status = SystemMode, stats = Statistics_new, mach = mo\<rparr>"

definition ChangeLevel ::
  "IntStatus \<Rightarrow> IntStatus \<Rightarrow> ('h, 'z) interrupt_sys_scheme \<Rightarrow> ('h, 'z) interrupt_sys_scheme" where
  "ChangeLevel old now s = s\<lparr>level := now\<rparr>"

definition YieldOnReturn ::
  "('h, 'z) interrupt_sys_scheme \<Rightarrow> ('h, 'z) interrupt_sys_scheme result" where
  "YieldOnReturn s = rbind (ASSERT (inHandler s)) (\<lambda>_. Inr (s\<lparr>yieldOnReturn := True\<rparr>))"

definition Schedule :: "'h \<Rightarrow> int \<Rightarrow> int \<Rightarrow> IntType \<Rightarrow> ('h, 'z) interrupt_sys_scheme
    \<Rightarrow> ('h, 'z) interrupt_sys_scheme result" where
  "Schedule h a fromNow ty s =
     (let t = totalTicks (stats s) + fromNow;
          toOccur = \<lparr>int_handler = h, int_arg = a, int_when = t, int_type = ty\<rparr>
      in rbind (ASSERT (fromNow > 0)) (\<lambda>_.
         Inr (s\<lparr>pending := list_sorted_insert toOccur t (pending s)\<rparr>)))"

text \<open>The call of a handler inside \<^verbatim>\<open>CheckIfDue\<close>: in the kernel, with a pending load done first.\<close>

definition machine_DelayedLoad ::
  "('h, 'z) interrupt_sys_scheme \<Rightarrow> ('h, 'z) interrupt_sys_scheme result" where
  "machine_DelayedLoad s = (case mach s of None \<Rightarrow> Inr s
     | Some m \<Rightarrow> rbind (DelayedLoad 0 0 m) (\<lambda>m'. Inr (s\<lparr>mach := Some m'\<rparr>)))"

definition invoke_handler ::
  "('h \<Rightarrow> int \<Rightarrow> ('h, 'z) interrupt_sys_scheme \<Rightarrow> ('h, 'z) interrupt_sys_scheme result)
    \<Rightarrow> 'h PendingInterrupt \<Rightarrow> ('h, 'z) interrupt_sys_scheme
    \<Rightarrow> ('h, 'z) interrupt_sys_scheme result" where
  "invoke_handler call p s = (let old = status s in
     rbind (machine_DelayedLoad s) (\<lambda>s1.
     rbind (call (int_handler p) (int_arg p) (s1\<lparr>inHandler := True, status := SystemMode\<rparr>)) (\<lambda>s2.
     Inr (s2\<lparr>status := old, inHandler := False\<rparr>))))"

definition CheckIfDue ::
  "('h \<Rightarrow> int \<Rightarrow> ('h, 'z) interrupt_sys_scheme \<Rightarrow> ('h, 'z) interrupt_sys_scheme result)
    \<Rightarrow> bool \<Rightarrow> ('h, 'z) interrupt_sys_scheme \<Rightarrow> (bool \<times> ('h, 'z) interrupt_sys_scheme) result" where
  "CheckIfDue call advanceClock s =
     rbind (ASSERT (level s = IntOff)) (\<lambda>_.
     case list_sorted_remove (pending s) of
       (None, q) \<Rightarrow> Inr (False, s\<lparr>pending := q\<rparr>)
     | (Some (t, p), q) \<Rightarrow>
         let now = totalTicks (stats s); late = t > now in
         if late \<and> \<not> advanceClock then Inr (False, s\<lparr>pending := list_sorted_insert p t q\<rparr>)
         else let s1 = (if late then s\<lparr>pending := q, stats := (stats s)\<lparr>
                            idleTicks := idleTicks (stats s) + (t - now), totalTicks := t\<rparr>\<rparr>
                        else s\<lparr>pending := q\<rparr>)
           in if status s1 = IdleMode \<and> int_type p = TimerInt \<and> list_is_empty q
              then Inr (False, s1\<lparr>pending := list_sorted_insert p t q\<rparr>)
              else rbind (invoke_handler call p s1) (\<lambda>s2. Inr (True, s2)))"

text \<open>
  The loops \<^verbatim>\<open>while (CheckIfDue(FALSE));\<close>. A handler can only schedule interrupts for the
  future, so as many rounds as there are pending interrupts, plus one, are enough
  (\<open>device_handlers.fire_due_ok\<close>).
\<close>

fun fire_due ::
  "nat \<Rightarrow> ('h \<Rightarrow> int \<Rightarrow> ('h, 'z) interrupt_sys_scheme \<Rightarrow> ('h, 'z) interrupt_sys_scheme result)
    \<Rightarrow> ('h, 'z) interrupt_sys_scheme \<Rightarrow> ('h, 'z) interrupt_sys_scheme result" where
  "fire_due 0 call s = Inl Out_Of_Fuel"
| "fire_due (Suc n) call s = rbind (CheckIfDue call False s) (\<lambda>(fired, s').
     if fired then fire_due n call s' else Inr s')"

definition OneTick ::
  "('h \<Rightarrow> int \<Rightarrow> ('h, 'z) interrupt_sys_scheme \<Rightarrow> ('h, 'z) interrupt_sys_scheme result)
    \<Rightarrow> ('h, 'z) interrupt_sys_scheme \<Rightarrow> (bool \<times> ('h, 'z) interrupt_sys_scheme) result" where
  "OneTick call s =
     (let st = stats s;
          s1 = s\<lparr>stats := (if status s = SystemMode
            then st\<lparr>totalTicks := totalTicks st + SystemTick, systemTicks := systemTicks st + SystemTick\<rparr>
            else st\<lparr>totalTicks := totalTicks st + UserTick, userTicks := userTicks st + UserTick\<rparr>)\<rparr>;
          s2 = ChangeLevel IntOn IntOff s1
      in rbind (fire_due (Suc (length (elems (pending s2)))) call s2) (\<lambda>s3.
         let s4 = ChangeLevel IntOff IntOn s3 in
         Inr (yieldOnReturn s4, s4\<lparr>yieldOnReturn := False\<rparr>)))"

definition SetLevel ::
  "('h \<Rightarrow> int \<Rightarrow> ('h, 'z) interrupt_sys_scheme \<Rightarrow> ('h, 'z) interrupt_sys_scheme result)
    \<Rightarrow> IntStatus \<Rightarrow> ('h, 'z) interrupt_sys_scheme
    \<Rightarrow> (IntStatus \<times> bool \<times> ('h, 'z) interrupt_sys_scheme) result" where
  "SetLevel call now s = (let old = level s in
     rbind (ASSERT (now = IntOff \<or> \<not> inHandler s)) (\<lambda>_.
     let s1 = ChangeLevel old now s in
     if now = IntOn \<and> old = IntOff
     then rbind (OneTick call s1) (\<lambda>(wants_yield, s2). Inr (old, wants_yield, s2))
     else Inr (old, False, s1)))"

text \<open>\<^verbatim>\<open>Idle\<close> returns \<open>False\<close> where the source calls \<^verbatim>\<open>Halt\<close>, which does not return.\<close>

definition Idle ::
  "('h \<Rightarrow> int \<Rightarrow> ('h, 'z) interrupt_sys_scheme \<Rightarrow> ('h, 'z) interrupt_sys_scheme result)
    \<Rightarrow> ('h, 'z) interrupt_sys_scheme \<Rightarrow> (bool \<times> ('h, 'z) interrupt_sys_scheme) result" where
  "Idle call s =
     rbind (CheckIfDue call True (s\<lparr>status := IdleMode\<rparr>)) (\<lambda>(fired, s1).
     if fired then rbind (fire_due (Suc (length (elems (pending s1)))) call s1) (\<lambda>s2.
       Inr (True, s2\<lparr>yieldOnReturn := False, status := SystemMode\<rparr>))
     else Inr (False, s1))"

section \<open>What the simulation relies on\<close>

text \<open>
  A device routine runs with interrupts off. It may schedule further interrupts, always for
  later, and call the kernel; it neither moves the clock nor takes back an interrupt.
\<close>

definition clock :: "Statistics \<Rightarrow> int \<times> int \<times> int \<times> int" where
  "clock st = (totalTicks st, idleTicks st, systemTicks st, userTicks st)"

abbreviation now :: "('h, 'z) interrupt_sys_scheme \<Rightarrow> int" where
  "now s \<equiv> totalTicks (stats s)"

definition pending_sorted :: "('h, 'z) interrupt_sys_scheme \<Rightarrow> bool" where
  "pending_sorted s \<longleftrightarrow> sorted (map fst (elems (pending s)))"

definition handler_step ::
  "('h, 'z) interrupt_sys_scheme \<Rightarrow> ('h, 'z) interrupt_sys_scheme \<Rightarrow> bool" where
  "handler_step s s' \<longleftrightarrow> level s' = level s \<and> inHandler s' = inHandler s \<and> status s' = status s
     \<and> clock (stats s') = clock (stats s)
     \<and> (pending_sorted s \<longrightarrow> pending_sorted s')
     \<and> (\<exists>new. mset (elems (pending s')) = mset (elems (pending s)) + new
          \<and> (\<forall>x \<in># new. fst x > now s))"

lemma handler_step_refl: "handler_step s s"
  by (auto simp: handler_step_def)

lemma clock_eqD: "clock a = clock b \<Longrightarrow> totalTicks a = totalTicks b"
  by (simp add: clock_def)

lemma handler_step_trans:
  assumes "handler_step s1 s2" "handler_step s2 s3"
  shows "handler_step s1 s3"
proof -
  obtain n1 n2 where n: "mset (elems (pending s2)) = mset (elems (pending s1)) + n1"
    "\<forall>x \<in># n1. fst x > now s1" "mset (elems (pending s3)) = mset (elems (pending s2)) + n2"
    "\<forall>x \<in># n2. fst x > now s2"
    using assms by (auto simp: handler_step_def)
  have "now s2 = now s1" using assms(1) clock_eqD unfolding handler_step_def by blast
  then have "mset (elems (pending s3)) = mset (elems (pending s1)) + (n1 + n2)"
    "\<forall>x \<in># n1 + n2. fst x > now s1"
    using n by (auto simp: union_assoc)
  then show ?thesis using assms unfolding handler_step_def by auto
qed

lemma Schedule_step:
  assumes "Schedule h a d ty s = Inr s'"
  shows "handler_step s s' \<and> d > 0 \<and> pending s' = list_sorted_insert
    \<lparr>int_handler = h, int_arg = a, int_when = now s + d, int_type = ty\<rparr> (now s + d) (pending s)"
  using assms
  by (auto simp: Schedule_def Let_def handler_step_def rbind_eq_Inr list_sorted_insert_def
      pending_sorted_def mset_sorted_ins sorted_sorted_ins)

lemma Schedule_ok: "d > 0 \<Longrightarrow> Schedule h a d ty s = Inr (s\<lparr>pending := list_sorted_insert
    \<lparr>int_handler = h, int_arg = a, int_when = now s + d, int_type = ty\<rparr> (now s + d) (pending s)\<rparr>)"
  by (simp add: Schedule_def Let_def)

definition due :: "('h, 'z) interrupt_sys_scheme \<Rightarrow> nat" where
  "due s = size (filter_mset (\<lambda>x. fst x \<le> now s) (mset (elems (pending s))))"

text \<open>The interrupts still to come, kept by everything that runs before their time.\<close>

definition keeps_future :: "('h, 'z) interrupt_sys_scheme \<Rightarrow> ('h, 'z) interrupt_sys_scheme \<Rightarrow> bool" where
  "keeps_future s s' \<longleftrightarrow> level s' = level s \<and> status s' = status s \<and> clock (stats s') = clock (stats s)
     \<and> pending_sorted s'
     \<and> filter_mset (\<lambda>x. fst x > now s) (mset (elems (pending s)))
          \<subseteq># filter_mset (\<lambda>x. fst x > now s) (mset (elems (pending s')))"

lemma keeps_future_trans:
  assumes "keeps_future s1 s2" "keeps_future s2 s3"
  shows "keeps_future s1 s3"
proof -
  have "now s2 = now s1" using assms(1) clock_eqD unfolding keeps_future_def by blast
  with assms show ?thesis unfolding keeps_future_def by auto
qed

lemma machine_DelayedLoad_step:
  "machine_DelayedLoad s = Inr s' \<Longrightarrow> \<exists>m. s' = s\<lparr>mach := m\<rparr>"
  by (auto simp: machine_DelayedLoad_def rbind_eq_Inr split: option.splits intro: exI [of _ None])

text \<open>All elapsed time is accounted to the user, the system or the idle machine.\<close>

definition time_ok :: "('h, 'z) interrupt_sys_scheme \<Rightarrow> bool" where
  "time_ok s \<longleftrightarrow> now s = idleTicks (stats s) + systemTicks (stats s) + userTicks (stats s)"

locale device_handlers =
  fixes call :: "'h \<Rightarrow> int \<Rightarrow> ('h, 'z) interrupt_sys_scheme \<Rightarrow> ('h, 'z) interrupt_sys_scheme result"
  assumes call_step: "call h a s = Inr s' \<Longrightarrow> handler_step s s'"
    and call_fuel: "call h a s \<noteq> Inl Out_Of_Fuel"
begin

lemma invoke_handler_step:
  assumes "invoke_handler call p s = Inr s'"
  shows "level s' = level s \<and> status s' = status s \<and> \<not> inHandler s' \<and> clock (stats s') = clock (stats s)
    \<and> (pending_sorted s \<longrightarrow> pending_sorted s')
    \<and> (\<exists>new. mset (elems (pending s')) = mset (elems (pending s)) + new \<and> (\<forall>x \<in># new. fst x > now s))"
proof -
  obtain s1 s2 where s: "machine_DelayedLoad s = Inr s1"
    "call (int_handler p) (int_arg p) (s1\<lparr>inHandler := True, status := SystemMode\<rparr>) = Inr s2"
    "s' = s2\<lparr>status := status s, inHandler := False\<rparr>"
    using assms by (auto simp: invoke_handler_def Let_def rbind_eq_Inr)
  obtain m where "s1 = s\<lparr>mach := m\<rparr>" using machine_DelayedLoad_step [OF s(1)] by blast
  with call_step [OF s(2)] s(3) show ?thesis
    by (auto simp: handler_step_def pending_sorted_def)
qed

lemma CheckIfDue_False_quiet:
  assumes "CheckIfDue call False s = Inr (False, s')" "pending_sorted s"
  shows "keeps_future s s' \<and> inHandler s' = inHandler s
    \<and> (status s \<noteq> IdleMode \<longrightarrow> (\<forall>x \<in> set (elems (pending s')). fst x > now s'))"
  using assms
  by (auto simp: CheckIfDue_def rbind_eq_Inr list_sorted_remove_def list_sorted_insert_def Let_def
      keeps_future_def pending_sorted_def mset_sorted_ins sorted_sorted_ins list_is_empty_def
      split: list.splits if_splits) fastforce

lemma CheckIfDue_fired:
  assumes "CheckIfDue call False s = Inr (True, s')" "pending_sorted s"
  shows "keeps_future s s' \<and> \<not> inHandler s' \<and> due s' < due s"
proof -
  obtain t p q where e: "elems (pending s) = (t, p) # q" "t \<le> now s"
    "invoke_handler call p (s\<lparr>pending := (pending s)\<lparr>elems := q\<rparr>\<rparr>) = Inr s'"
    using assms(1)
    by (auto simp: CheckIfDue_def rbind_eq_Inr list_sorted_remove_def Let_def
        split: list.splits if_splits)
  from invoke_handler_step [OF e(3)] obtain new where i: "level s' = level s" "status s' = status s"
    "\<not> inHandler s'" "clock (stats s') = clock (stats s)" "sorted (map fst q) \<Longrightarrow> pending_sorted s'"
    "mset (elems (pending s')) = mset q + new" "\<forall>x \<in># new. fst x > now s"
    by (auto simp: pending_sorted_def)
  have n: "now s' = now s" using i(4) by (rule clock_eqD)
  have "filter_mset (\<lambda>x. fst x \<le> now s) new = filter_mset (\<lambda>x. False) new"
    using i(7) by (intro filter_mset_cong) auto
  then have "due s = Suc (due s')" using e i(6) n by (simp add: due_def)
  moreover have "keeps_future s s'"
    using i e assms(2) by (simp add: keeps_future_def pending_sorted_def)
  ultimately show ?thesis using i(3) by simp
qed

lemma invoke_handler_fuel: "invoke_handler call p s \<noteq> Inl Out_Of_Fuel"
  by (auto simp: invoke_handler_def Let_def rbind_def call_fuel machine_DelayedLoad_def
      DelayedLoad_def reg_def set_reg_def array_get_def array_set_def
      split: sum.splits option.splits if_splits)

lemma CheckIfDue_fuel: "CheckIfDue call b s \<noteq> Inl Out_Of_Fuel"
  using invoke_handler_fuel
  by (auto simp: CheckIfDue_def rbind_def ASSERT_def Let_def split: sum.splits list.splits prod.splits option.splits)

lemma fire_due_ok:
  assumes "pending_sorted s" "due s < n"
  shows "fire_due n call s \<noteq> Inl Out_Of_Fuel" (is ?fuel)
    and "fire_due n call s = Inr s' \<Longrightarrow> keeps_future s s' \<and> (\<not> inHandler s \<longrightarrow> \<not> inHandler s')
      \<and> (status s \<noteq> IdleMode \<longrightarrow> (\<forall>x \<in> set (elems (pending s')). fst x > now s'))"
proof -
  have "fire_due n call s \<noteq> Inl Out_Of_Fuel \<and> (\<forall>s'. fire_due n call s = Inr s' \<longrightarrow>
      keeps_future s s' \<and> (\<not> inHandler s \<longrightarrow> \<not> inHandler s')
      \<and> (status s \<noteq> IdleMode \<longrightarrow> (\<forall>x \<in> set (elems (pending s')). fst x > now s')))"
    using assms
  proof (induction n arbitrary: s)
    case (Suc n)
    show ?case
    proof (cases "CheckIfDue call False s")
      case (Inl e)
      then show ?thesis using CheckIfDue_fuel [of False s] by simp
    next
      case (Inr r)
      obtain fired s1 where r: "r = (fired, s1)" by (cases r)
      show ?thesis
      proof (cases fired)
        case False
        then show ?thesis using Inr r CheckIfDue_False_quiet [OF _ Suc.prems(1)] by auto
      next
        case True
        with Inr r have "CheckIfDue call False s = Inr (True, s1)" by simp
        note f = CheckIfDue_fired [OF this Suc.prems(1)]
        then have "pending_sorted s1" "due s1 < n" "status s1 = status s"
          using Suc.prems(2) by (auto simp: keeps_future_def)
        from Suc.IH [OF this(1,2)] f this(3) show ?thesis
          using Inr r True by (auto intro: keeps_future_trans)
      qed
    qed
  qed simp
  then show ?fuel "fire_due n call s = Inr s' \<Longrightarrow> keeps_future s s' \<and> (\<not> inHandler s \<longrightarrow> \<not> inHandler s')
      \<and> (status s \<noteq> IdleMode \<longrightarrow> (\<forall>x \<in> set (elems (pending s')). fst x > now s'))"
    by blast+
qed

lemma due_le: "due s \<le> length (elems (pending s))"
  using size_filter_mset_lesseq [of _ "mset (elems (pending s))"] by (simp add: due_def)

lemma OneTick_ok:
  assumes "pending_sorted s" "status s \<noteq> IdleMode"
  shows "OneTick call s \<noteq> Inl Out_Of_Fuel"
    and "OneTick call s = Inr (y, s') \<Longrightarrow>
      now s' = now s + (if status s = SystemMode then SystemTick else UserTick) \<and> level s' = IntOn
      \<and> status s' = status s \<and> \<not> yieldOnReturn s' \<and> pending_sorted s'
      \<and> (time_ok s \<longrightarrow> time_ok s') \<and> (\<not> inHandler s \<longrightarrow> \<not> inHandler s')
      \<and> (\<forall>x \<in> set (elems (pending s')). fst x > now s')
      \<and> filter_mset (\<lambda>x. fst x > now s') (mset (elems (pending s))) \<subseteq># mset (elems (pending s'))"
proof -
  let ?st = "stats s"
  define s2 where "s2 = ChangeLevel IntOn IntOff (s\<lparr>stats := (if status s = SystemMode
    then ?st\<lparr>totalTicks := totalTicks ?st + SystemTick, systemTicks := systemTicks ?st + SystemTick\<rparr>
    else ?st\<lparr>totalTicks := totalTicks ?st + UserTick, userTicks := userTicks ?st + UserTick\<rparr>)\<rparr>)"
  have s2: "pending_sorted s2" "pending s2 = pending s" "status s2 = status s"
    "inHandler s2 = inHandler s" "time_ok s \<longrightarrow> time_ok s2"
    "now s2 = now s + (if status s = SystemMode then SystemTick else UserTick)"
    using assms by (simp_all add: s2_def ChangeLevel_def pending_sorted_def time_ok_def)
  have eq: "OneTick call s = rbind (fire_due (Suc (length (elems (pending s2)))) call s2) (\<lambda>s3.
      let s4 = ChangeLevel IntOff IntOn s3 in Inr (yieldOnReturn s4, s4\<lparr>yieldOnReturn := False\<rparr>))"
    unfolding OneTick_def Let_def s2_def ..
  have "due s2 < Suc (length (elems (pending s2)))" using due_le [of s2] by simp
  note f = fire_due_ok [OF s2(1) this]
  show "OneTick call s \<noteq> Inl Out_Of_Fuel"
    using f(1) eq by (auto simp: rbind_def Let_def split: sum.splits)
  assume "OneTick call s = Inr (y, s')"
  then obtain s3 where s3: "fire_due (Suc (length (elems (pending s2)))) call s2 = Inr s3"
    "s' = s3\<lparr>level := IntOn, yieldOnReturn := False\<rparr>"
    by (auto simp: eq rbind_eq_Inr Let_def ChangeLevel_def)
  have k: "keeps_future s2 s3" "\<not> inHandler s \<longrightarrow> \<not> inHandler s3"
    "\<forall>x \<in> set (elems (pending s3)). fst x > now s3"
    using f(2) [OF s3(1)] s2 assms(2) by auto
  have c: "clock (stats s3) = clock (stats s2)" using k(1) by (simp add: keeps_future_def)
  have "filter_mset (\<lambda>x. fst x > now s2) (mset (elems (pending s3))) \<subseteq># mset (elems (pending s3))"
    by simp
  then have "filter_mset (\<lambda>x. fst x > now s2) (mset (elems (pending s))) \<subseteq># mset (elems (pending s3))"
    using k(1) s2(2) by (auto simp: keeps_future_def intro: subset_mset.order_trans)
  moreover have "time_ok s \<longrightarrow> time_ok s3" using c s2(5) by (auto simp: time_ok_def clock_def)
  ultimately show "now s' = now s + (if status s = SystemMode then SystemTick else UserTick) \<and> level s' = IntOn
      \<and> status s' = status s \<and> \<not> yieldOnReturn s' \<and> pending_sorted s'
      \<and> (time_ok s \<longrightarrow> time_ok s') \<and> (\<not> inHandler s \<longrightarrow> \<not> inHandler s')
      \<and> (\<forall>x \<in> set (elems (pending s')). fst x > now s')
      \<and> filter_mset (\<lambda>x. fst x > now s') (mset (elems (pending s))) \<subseteq># mset (elems (pending s'))"
    using k s3(2) s2 clock_eqD [OF c] by (auto simp: keeps_future_def pending_sorted_def time_ok_def)
qed

lemma CheckIfDue_advance:
  assumes "pending_sorted s" "status s = IdleMode" "CheckIfDue call True s = Inr (fired, s')"
  shows "pending_sorted s' \<and> status s' = IdleMode \<and> (time_ok s \<longrightarrow> time_ok s') \<and> level s' = IntOff
    \<and> (fired \<longrightarrow> elems (pending s) \<noteq> [] \<and> now s' = max (now s) (fst (hd (elems (pending s)))))
    \<and> (\<not> fired \<longleftrightarrow> elems (pending s) = [] \<or> (\<exists>t p. elems (pending s) = [(t, p)] \<and> int_type p = TimerInt))"
proof -
  have lvl: "level s = IntOff" using assms(3) by (auto simp: CheckIfDue_def rbind_eq_Inr)
  show ?thesis
  proof (cases "elems (pending s)")
    case Nil
    with assms lvl show ?thesis by (simp add: CheckIfDue_def list_sorted_remove_def)
  next
    case (Cons x q)
    obtain t p where x: "x = (t, p)" by (cases x)
    define s1 where "s1 = (if t > now s then s\<lparr>pending := (pending s)\<lparr>elems := q\<rparr>, stats := (stats s)\<lparr>
        idleTicks := idleTicks (stats s) + (t - now s), totalTicks := t\<rparr>\<rparr>
      else s\<lparr>pending := (pending s)\<lparr>elems := q\<rparr>\<rparr>)"
    have s1: "pending_sorted s1" "status s1 = IdleMode" "level s1 = IntOff" "elems (pending s1) = q"
      "now s1 = max (now s) t" "time_ok s \<longrightarrow> time_ok s1"
      using assms(1,2) Cons x lvl by (auto simp: s1_def pending_sorted_def time_ok_def)
    have eq: "CheckIfDue call True s = (if int_type p = TimerInt \<and> q = []
        then Inr (False, s1\<lparr>pending := list_sorted_insert p t ((pending s)\<lparr>elems := q\<rparr>)\<rparr>)
        else rbind (invoke_handler call p s1) (\<lambda>s2. Inr (True, s2)))"
      using assms(2) lvl Cons x
      by (simp add: CheckIfDue_def list_sorted_remove_def Let_def list_is_empty_def s1_def)
    show ?thesis
    proof (cases "int_type p = TimerInt \<and> q = []")
      case True
      then show ?thesis using eq assms(3) s1 Cons x
        by (auto simp: pending_sorted_def list_sorted_insert_def time_ok_def)
    next
      case False
      then have "invoke_handler call p s1 = Inr s'" "fired"
        using eq assms(3) by (auto simp: Inr_eq_rbind)
      with invoke_handler_step [OF this(1)] s1 Cons x False show ?thesis
        by (auto simp: time_ok_def clock_def)
    qed
  qed
qed

lemma Idle_ok:
  assumes "pending_sorted s" "Idle call s = Inr (go, s')"
  shows "pending_sorted s' \<and> (time_ok s \<longrightarrow> time_ok s')
    \<and> (go \<longrightarrow> elems (pending s) \<noteq> [] \<and> now s' = max (now s) (fst (hd (elems (pending s))))
         \<and> status s' = SystemMode \<and> level s' = IntOff)
    \<and> (\<not> go \<longleftrightarrow> elems (pending s) = [] \<or> (\<exists>t p. elems (pending s) = [(t, p)] \<and> int_type p = TimerInt))"
proof -
  let ?s = "s\<lparr>status := IdleMode\<rparr>"
  obtain fired s1 where s1: "CheckIfDue call True ?s = Inr (fired, s1)"
    "(if fired then rbind (fire_due (Suc (length (elems (pending s1)))) call s1) (\<lambda>s2.
       Inr (True, s2\<lparr>yieldOnReturn := False, status := SystemMode\<rparr>)) else Inr (False, s1)) = Inr (go, s')"
    using assms(2) by (auto simp: Idle_def rbind_eq_Inr)
  have c: "pending_sorted s1" "level s1 = IntOff" "time_ok s \<longrightarrow> time_ok s1"
    "fired \<longrightarrow> elems (pending s) \<noteq> [] \<and> now s1 = max (now s) (fst (hd (elems (pending s))))"
    "\<not> fired \<longleftrightarrow> elems (pending s) = [] \<or> (\<exists>t p. elems (pending s) = [(t, p)] \<and> int_type p = TimerInt)"
    using CheckIfDue_advance [OF _ _ s1(1)] assms(1) by (auto simp: pending_sorted_def time_ok_def)
  show ?thesis
  proof (cases fired)
    case False
    then show ?thesis using s1(2) c by simp
  next
    case True
    then obtain s2 where s2: "fire_due (Suc (length (elems (pending s1)))) call s1 = Inr s2" "go"
      "s' = s2\<lparr>yieldOnReturn := False, status := SystemMode\<rparr>"
      using s1(2) by (auto simp: rbind_eq_Inr)
    have "keeps_future s1 s2" using fire_due_ok(2) [OF c(1) _ s2(1)] due_le [of s1] by simp
    then show ?thesis
      using c True s2 by (auto simp: keeps_future_def pending_sorted_def time_ok_def clock_def)
  qed
qed

end

section \<open>Every due interrupt is served\<close>

text \<open>
  What serving a list of interrupts means, apart from the loop that finds them: each is taken off the list, a pending load is done, and its
  routine is called in the kernel with its argument.
\<close>

fun serve ::
  "('h \<Rightarrow> int \<Rightarrow> ('h, 'z) interrupt_sys_scheme \<Rightarrow> ('h, 'z) interrupt_sys_scheme result)
    \<Rightarrow> 'h PendingInterrupt list \<Rightarrow> ('h, 'z) interrupt_sys_scheme \<Rightarrow> ('h, 'z) interrupt_sys_scheme result" where
  "serve call [] s = Inr s"
| "serve call (p # ps) s =
     rbind (machine_DelayedLoad (s\<lparr>pending := (pending s)\<lparr>elems := tl (elems (pending s))\<rparr>\<rparr>)) (\<lambda>s1.
     rbind (call (int_handler p) (int_arg p) (s1\<lparr>inHandler := True, status := SystemMode\<rparr>)) (\<lambda>s2.
     serve call ps (s2\<lparr>status := status s, inHandler := False\<rparr>)))"

declare serve.simps(2) [simp del]

text \<open>The interrupts that are due; and the exception of an idle machine, which leaves a last timer interrupt pending.\<close>

definition due_now :: "('h, 'z) interrupt_sys_scheme \<Rightarrow> (int \<times> 'h PendingInterrupt) multiset" where
  "due_now s = filter_mset (\<lambda>x. fst x \<le> now s) (mset (elems (pending s)))"

definition alone_in_idle :: "('h, 'z) interrupt_sys_scheme \<Rightarrow> (int \<times> 'h PendingInterrupt) multiset \<Rightarrow> bool" where
  "alone_in_idle s xs \<longleftrightarrow> xs = {#} \<or> status s = IdleMode \<and> (\<exists>x. xs = {#x#} \<and> int_type (snd x) = TimerInt)"

text \<open>
  \<open>all_served\<close>: the due interrupts are served, each once and in the order of their times; \<open>serving_fails\<close>: a routine of one of them stops Nachos.
\<close>

definition all_served ::
  "('h \<Rightarrow> int \<Rightarrow> ('h, 'z) interrupt_sys_scheme \<Rightarrow> ('h, 'z) interrupt_sys_scheme result)
    \<Rightarrow> ('h, 'z) interrupt_sys_scheme \<Rightarrow> ('h, 'z) interrupt_sys_scheme \<Rightarrow> bool" where
  "all_served call s s' \<longleftrightarrow> (\<exists>xs rest s3. due_now s = mset xs + rest \<and> alone_in_idle s rest \<and> sorted (map fst xs)
     \<and> serve call (map snd xs) s = Inr s3 \<and> s' = s3\<lparr>pending := pending s'\<rparr> \<and> mset (elems (pending s')) = mset (elems (pending s3)))"

definition serving_fails ::
  "('h \<Rightarrow> int \<Rightarrow> ('h, 'z) interrupt_sys_scheme \<Rightarrow> ('h, 'z) interrupt_sys_scheme result)
    \<Rightarrow> ('h, 'z) interrupt_sys_scheme \<Rightarrow> nerror \<Rightarrow> bool" where
  "serving_fails call s e \<longleftrightarrow> (\<exists>xs. mset xs \<subseteq># due_now s \<and> sorted (map fst xs) \<and> serve call (map snd xs) s = Inl e)"

text \<open>The state in which a tick starts serving: its cost is charged to the mode the machine is in; and the state in which an idle machine does, when
  the clock has jumped to time \<open>t\<close>.\<close>

definition charge_tick :: "('h, 'z) interrupt_sys_scheme \<Rightarrow> ('h, 'z) interrupt_sys_scheme" where
  "charge_tick s = (let sys = (if status s = SystemMode then SystemTick else 0); usr = (if status s = SystemMode then 0 else UserTick) in
     s\<lparr>stats := (stats s)\<lparr>totalTicks := now s + sys + usr, systemTicks := systemTicks (stats s) + sys,
       userTicks := userTicks (stats s) + usr\<rparr>, level := IntOff\<rparr>)"

definition idle_until :: "int \<Rightarrow> ('h, 'z) interrupt_sys_scheme \<Rightarrow> ('h, 'z) interrupt_sys_scheme" where
  "idle_until t s = s\<lparr>status := IdleMode, stats := (stats s)\<lparr>totalTicks := max (now s) t,
     idleTicks := idleTicks (stats s) + max 0 (t - now s)\<rparr>\<rparr>"

text \<open>The counters of the clock are those of the source while they are below two to the 31st; then none of them overflows.\<close>

definition counters_fit :: "('h, 'z) interrupt_sys_scheme \<Rightarrow> bool" where
  "counters_fit s \<longleftrightarrow> time_ok s \<and> 0 \<le> idleTicks (stats s) \<and> 0 \<le> systemTicks (stats s) \<and> 0 \<le> userTicks (stats s) \<and> now s < 2 ^ 31"

lemma serve_invoke:
  "serve call (p # ps) s = rbind (invoke_handler call p (s\<lparr>pending := (pending s)\<lparr>elems := tl (elems (pending s))\<rparr>\<rparr>)) (serve call ps)"
  by (simp add: serve.simps(2) invoke_handler_def Let_def rbind_def split: sum.splits)

lemma CheckIfDue_quiet_state:
  assumes "CheckIfDue call False s = Inr (False, s')" "pending_sorted s"
  shows "s' = s\<lparr>pending := pending s'\<rparr> \<and> mset (elems (pending s')) = mset (elems (pending s)) \<and> alone_in_idle s (due_now s)"
proof (cases "elems (pending s)")
  case Nil
  with assms(1) show ?thesis by (auto simp: CheckIfDue_def rbind_eq_Inr list_sorted_remove_def due_now_def alone_in_idle_def)
next
  case (Cons x q)
  obtain t p where x: "x = (t, p)" by (cases x)
  have s': "s' = s\<lparr>pending := list_sorted_insert p t ((pending s)\<lparr>elems := q\<rparr>)\<rparr>"
    "now s < t \<or> status s = IdleMode \<and> int_type p = TimerInt \<and> q = []"
    using assms(1) Cons x
    by (auto simp: CheckIfDue_def rbind_eq_Inr list_sorted_remove_def Let_def list_is_empty_def split: if_splits)
  have "filter_mset (\<lambda>x. fst x \<le> now s) (mset q) = {#}" if "now s < t"
  proof -
    have "\<not> fst y \<le> now s" if "y \<in># mset q" for y using that \<open>now s < t\<close> assms(2) Cons x by (auto simp: pending_sorted_def)
    then show ?thesis by simp
  qed
  then have "alone_in_idle s (due_now s)" using s'(2) Cons x by (auto simp: alone_in_idle_def due_now_def)
  then show ?thesis using s'(1) Cons x by (simp add: list_sorted_insert_def)
qed

lemma CheckIfDue_fired_head:
  assumes "CheckIfDue call False s = Inr (True, s')"
  obtains x q where "elems (pending s) = x # q" "fst x \<le> now s"
    "invoke_handler call (snd x) (s\<lparr>pending := (pending s)\<lparr>elems := q\<rparr>\<rparr>) = Inr s'"
  using assms
  by (auto simp: CheckIfDue_def rbind_eq_Inr list_sorted_remove_def Let_def split: list.splits if_splits)

lemma CheckIfDue_failed:
  assumes "CheckIfDue call False s = Inl e" "level s = IntOff"
  obtains x q where "elems (pending s) = x # q" "fst x \<le> now s"
    "invoke_handler call (snd x) (s\<lparr>pending := (pending s)\<lparr>elems := q\<rparr>\<rparr>) = Inl e"
  using assms
  by (auto simp: CheckIfDue_def rbind_def list_sorted_remove_def Let_def split: list.splits if_splits sum.splits)

lemma idle_pending:
  "now s < t \<Longrightarrow> s\<lparr>status := IdleMode, pending := l, stats := (stats s)\<lparr>idleTicks := idleTicks (stats s) + (t - now s), totalTicks := t\<rparr>\<rparr>
     = (idle_until t s)\<lparr>pending := l\<rparr>"
  "\<not> now s < t \<Longrightarrow> s\<lparr>status := IdleMode, pending := l\<rparr> = (idle_until t s)\<lparr>pending := l\<rparr>"
  by (simp_all add: idle_until_def)

context device_handlers
begin

lemma invoke_due:
  assumes "elems (pending s) = x # q" "fst x \<le> now s" "pending_sorted s" "level s = IntOff"
    "invoke_handler call (snd x) (s\<lparr>pending := (pending s)\<lparr>elems := q\<rparr>\<rparr>) = Inr s1"
  shows "due_now s = add_mset x (due_now s1)" "level s1 = IntOff" "status s1 = status s" "pending_sorted s1" "now s1 = now s"
    "\<forall>y \<in># due_now s1. fst x \<le> fst y"
proof -
  from invoke_handler_step [OF assms(5)] obtain new where i: "level s1 = level s" "status s1 = status s"
    "clock (stats s1) = clock (stats s)" "sorted (map fst q) \<Longrightarrow> pending_sorted s1"
    "mset (elems (pending s1)) = mset q + new" "\<forall>x \<in># new. fst x > now s"
    by (auto simp: pending_sorted_def)
  show n: "now s1 = now s" using i(3) by (rule clock_eqD)
  have "filter_mset (\<lambda>x. fst x \<le> now s) new = {#}" using i(6) by auto
  then have d: "due_now s1 = filter_mset (\<lambda>x. fst x \<le> now s) (mset q)" using i(5) n by (simp add: due_now_def)
  then show "due_now s = add_mset x (due_now s1)" using assms(1,2) by (simp add: due_now_def)
  show "level s1 = IntOff" "status s1 = status s" using i assms(4) by simp_all
  have "sorted (map fst (x # q))" using assms(1,3) by (simp add: pending_sorted_def)
  then show "pending_sorted s1" "\<forall>y \<in># due_now s1. fst x \<le> fst y" using i(4) d by auto
qed

lemma all_served_step:
  assumes "elems (pending s) = x # q" "fst x \<le> now s" "pending_sorted s" "level s = IntOff"
    "invoke_handler call (snd x) (s\<lparr>pending := (pending s)\<lparr>elems := q\<rparr>\<rparr>) = Inr s1"
  shows "all_served call s1 s' \<Longrightarrow> all_served call s s'" "serving_fails call s1 e \<Longrightarrow> serving_fails call s e"
proof -
  note d = invoke_due [OF assms]
  have sv: "serve call (map snd (x # xs)) s = serve call (map snd xs) s1" for xs
    using assms(1,5) by (simp add: serve_invoke)
  have st: "alone_in_idle s1 rest = alone_in_idle s rest" for rest by (simp add: alone_in_idle_def d(3))
  have le: "\<forall>y \<in> set xs. fst x \<le> fst y" if "mset xs \<subseteq># due_now s1" for xs
    using d(6) mset_subset_eqD [OF that] by auto
  show "all_served call s s'" if a: "all_served call s1 s'"
  proof -
    obtain xs rest s3 where h: "due_now s1 = mset xs + rest" "alone_in_idle s1 rest" "sorted (map fst xs)"
      "serve call (map snd xs) s1 = Inr s3" "s' = s3\<lparr>pending := pending s'\<rparr>" "mset (elems (pending s')) = mset (elems (pending s3))"
      using a unfolding all_served_def by (elim exE conjE) (rule that)
    have "due_now s = mset (x # xs) + rest" "sorted (map fst (x # xs))" using d(1) h(1,3) le [of xs] by simp_all
    then show ?thesis unfolding all_served_def using h(2,4-6) sv [of xs] st [of rest]
      by (intro exI [of _ "x # xs"] exI [of _ rest] exI [of _ s3]) (simp only: simp_thms)
  qed
  show "serving_fails call s e" if a: "serving_fails call s1 e"
  proof -
    obtain xs where h: "mset xs \<subseteq># due_now s1" "sorted (map fst xs)" "serve call (map snd xs) s1 = Inl e"
      using a unfolding serving_fails_def by blast
    have "mset (x # xs) \<subseteq># due_now s" "sorted (map fst (x # xs))" using d(1) h(1,2) le [of xs] by simp_all
    then show ?thesis unfolding serving_fails_def using h(3) sv [of xs] by metis
  qed
qed

lemma fire_due_serves:
  assumes "pending_sorted s" "level s = IntOff" "size (due_now s) < n"
  shows "case fire_due n call s of Inr s' \<Rightarrow> all_served call s s' | Inl e \<Rightarrow> serving_fails call s e"
  using assms
proof (induction n arbitrary: s)
  case (Suc n)
  show ?case
  proof (cases "CheckIfDue call False s")
    case (Inl e)
    obtain x q where x: "elems (pending s) = x # q" "fst x \<le> now s"
      "invoke_handler call (snd x) (s\<lparr>pending := (pending s)\<lparr>elems := q\<rparr>\<rparr>) = Inl e"
      by (rule CheckIfDue_failed [OF Inl Suc.prems(2)])
    have "mset [x] \<subseteq># due_now s" using x by (simp add: due_now_def)
    moreover have "serve call (map snd [x]) s = Inl e" using x by (simp add: serve_invoke)
    moreover have "sorted (map fst [x])" by simp
    ultimately have "serving_fails call s e" unfolding serving_fails_def by blast
    then show ?thesis using Inl by simp
  next
    case (Inr r)
    obtain fired s1 where r: "r = (fired, s1)" by (cases r)
    show ?thesis
    proof (cases fired)
      case False
      then have q: "s1 = s\<lparr>pending := pending s1\<rparr>" "mset (elems (pending s1)) = mset (elems (pending s))" "alone_in_idle s (due_now s)"
        using CheckIfDue_quiet_state [OF _ Suc.prems(1)] Inr r by auto
      then have "all_served call s s1"
        unfolding all_served_def by (intro exI [of _ "[]"] exI [of _ "due_now s"] exI [of _ s]) (auto simp only: serve.simps(1) list.map sorted_simps(1) mset.simps add_0)
      then show ?thesis using Inr r False by simp
    next
      case True
      with Inr r have "CheckIfDue call False s = Inr (True, s1)" by simp
      then obtain x q where x: "elems (pending s) = x # q" "fst x \<le> now s"
        "invoke_handler call (snd x) (s\<lparr>pending := (pending s)\<lparr>elems := q\<rparr>\<rparr>) = Inr s1"
        by (rule CheckIfDue_fired_head)
      note d = invoke_due [OF x(1,2) Suc.prems(1,2) x(3)]
      have "size (due_now s1) < n" using Suc.prems(3) d(1) by simp
      note ih = Suc.IH [OF d(4,2) this]
      have f: "fire_due (Suc n) call s = fire_due n call s1" using Inr r True by simp
      show ?thesis using ih all_served_step [OF x(1,2) Suc.prems(1,2) x(3)] unfolding f by (auto split: sum.splits)
    qed
  qed
qed simp

lemma OneTick_serves:
  assumes "pending_sorted s"
  shows "case OneTick call s of Inl e \<Rightarrow> serving_fails call (charge_tick s) e
    | Inr (y, s') \<Rightarrow> (\<exists>s3. all_served call (charge_tick s) s3 \<and> y = yieldOnReturn s3 \<and> s' = s3\<lparr>level := IntOn, yieldOnReturn := False\<rparr>)"
proof -
  let ?s = "charge_tick s"
  have eq: "OneTick call s = rbind (fire_due (Suc (length (elems (pending s)))) call ?s) (\<lambda>s3.
      Inr (yieldOnReturn s3, s3\<lparr>level := IntOn, yieldOnReturn := False\<rparr>))"
    by (simp add: OneTick_def charge_tick_def Let_def ChangeLevel_def del: fire_due.simps)
  have p: "pending_sorted ?s" "level ?s = IntOff" "pending ?s = pending s"
    using assms by (simp_all add: charge_tick_def Let_def pending_sorted_def)
  then have "size (due_now ?s) < Suc (length (elems (pending s)))"
    using size_filter_mset_lesseq [of _ "mset (elems (pending s))"] by (simp add: due_now_def less_Suc_eq_le)
  from fire_due_serves [OF p(1,2) this] show ?thesis unfolding eq by (auto simp: rbind_def split: sum.splits simp del: fire_due.simps)
qed

lemma Idle_serves:
  assumes "pending_sorted s" "Idle call s = Inr (True, s')"
  shows "\<exists>t p s1 s2. hd (elems (pending s)) = (t, p) \<and> serve call [p] (idle_until t s) = Inr s1
    \<and> all_served call s1 s2 \<and> s' = s2\<lparr>yieldOnReturn := False, status := SystemMode\<rparr>"
proof -
  let ?s = "s\<lparr>status := IdleMode\<rparr>"
  obtain s1 s2 where c: "CheckIfDue call True ?s = Inr (True, s1)" "fire_due (Suc (length (elems (pending s1)))) call s1 = Inr s2"
    "s' = s2\<lparr>yieldOnReturn := False, status := SystemMode\<rparr>"
    using assms(2) by (auto simp: Idle_def rbind_eq_Inr simp del: fire_due.simps split: if_splits)
  obtain t p q where e: "elems (pending s) = (t, p) # q" "level s = IntOff"
    "invoke_handler call p ((idle_until t s)\<lparr>pending := (pending s)\<lparr>elems := q\<rparr>\<rparr>) = Inr s1"
    using c(1) by (auto simp: CheckIfDue_def rbind_eq_Inr list_sorted_remove_def Let_def idle_pending split: list.splits if_splits)
  let ?i = "idle_until t s"
  have i: "elems (pending ?i) = (t, p) # q" "t \<le> now ?i" "pending_sorted ?i" "level ?i = IntOff" "pending ?i = pending s"
    using e(1,2) assms(1) by (simp_all add: idle_until_def pending_sorted_def)
  have v: "serve call [p] ?i = Inr s1" using e i by (simp add: serve_invoke)
  note d = invoke_due [OF i(1) _ i(3,4), of s1]
  have d: "level s1 = IntOff" "pending_sorted s1" using d(2,4) i(2,5) e(3) by simp_all
  have "size (due_now s1) < Suc (length (elems (pending s1)))"
    using size_filter_mset_lesseq [of _ "mset (elems (pending s1))"] by (simp add: due_now_def less_Suc_eq_le)
  from fire_due_serves [OF d(2,1) this] c(2) have "all_served call s1 s2" by (simp del: fire_due.simps)
  with v c(3) e(1) show ?thesis by auto
qed

lemma serve_clock: "serve call ps s = Inr s' \<Longrightarrow> clock (stats s') = clock (stats s)"
proof (induction ps arbitrary: s)
  case (Cons p ps)
  then obtain s1 where s1: "invoke_handler call p (s\<lparr>pending := (pending s)\<lparr>elems := tl (elems (pending s))\<rparr>\<rparr>) = Inr s1"
    "serve call ps s1 = Inr s'" unfolding serve_invoke rbind_eq_Inr by blast
  from invoke_handler_step [OF s1(1)] Cons.IH [OF s1(2)] show ?case by simp
qed simp

lemma all_served_clock: "all_served call s s' \<Longrightarrow> clock (stats s') = clock (stats s)"
proof -
  assume "all_served call s s'"
  then obtain ps s3 where s3: "serve call ps s = Inr s3" "s' = s3\<lparr>pending := pending s'\<rparr>"
    unfolding all_served_def by (elim exE conjE) (rule that)
  from arg_cong [OF s3(2), of stats] have "stats s' = stats s3" by simp
  then show ?thesis using serve_clock [OF s3(1)] by simp
qed

lemma clock_charge_tick:
  "clock (stats (charge_tick s)) = (now s + (if status s = SystemMode then SystemTick else UserTick), idleTicks (stats s),
     systemTicks (stats s) + (if status s = SystemMode then SystemTick else 0), userTicks (stats s) + (if status s = SystemMode then 0 else UserTick))"
  by (simp add: charge_tick_def clock_def Let_def)

end

section \<open>Invariants of the state behind the interrupt hardware\<close>

text \<open>
  A property that no field of the interrupt hardware matters to, the machine apart, and that every device
  routine and the delayed load before an interrupt keep, is kept by the whole simulation.
\<close>

locale kept_by_handlers =
  fixes call :: "'h \<Rightarrow> int \<Rightarrow> ('h, 'z) interrupt_sys_scheme \<Rightarrow> ('h, 'z) interrupt_sys_scheme result"
    and Inv :: "('h, 'z) interrupt_sys_scheme \<Rightarrow> bool"
  assumes inv_call: "Inv s \<Longrightarrow> call h a s = Inr s' \<Longrightarrow> Inv s'"
    and inv_more: "interrupt_sys.more s' = interrupt_sys.more s \<Longrightarrow> mach s' = mach s \<Longrightarrow> Inv s' = Inv s"
    and inv_load: "Inv s \<Longrightarrow> machine_DelayedLoad s = Inr s' \<Longrightarrow> Inv s'"
begin

lemma inv_fields [simp]:
  "Inv (s\<lparr>level := l\<rparr>) = Inv s" "Inv (s\<lparr>pending := p\<rparr>) = Inv s" "Inv (s\<lparr>inHandler := b\<rparr>) = Inv s"
  "Inv (s\<lparr>yieldOnReturn := y\<rparr>) = Inv s" "Inv (s\<lparr>status := m\<rparr>) = Inv s" "Inv (s\<lparr>stats := st\<rparr>) = Inv s"
  by (rule inv_more; simp)+

lemma invoke_handler_inv:
  assumes "Inv s" "invoke_handler call p s = Inr s'"
  shows "Inv s'"
proof -
  obtain s1 s2 where "machine_DelayedLoad s = Inr s1"
    "call (int_handler p) (int_arg p) (s1\<lparr>inHandler := True, status := SystemMode\<rparr>) = Inr s2"
    "s' = s2\<lparr>status := status s, inHandler := False\<rparr>"
    using assms(2) by (auto simp: invoke_handler_def Let_def rbind_eq_Inr)
  then show ?thesis
    using inv_call [of "s1\<lparr>inHandler := True, status := SystemMode\<rparr>"] inv_load [OF assms(1)] by simp
qed

lemma CheckIfDue_inv:
  assumes "Inv s" "CheckIfDue call b s = Inr (fired, s')"
  shows "Inv s'"
  using assms(2)
  by (auto simp: CheckIfDue_def rbind_eq_Inr Let_def assms(1) split: option.splits prod.splits if_splits
      elim!: invoke_handler_inv [rotated])

lemma fire_due_inv: "Inv s \<Longrightarrow> fire_due n call s = Inr s' \<Longrightarrow> Inv s'"
  by (induction n arbitrary: s) (auto simp: rbind_eq_Inr split: if_splits dest: CheckIfDue_inv)

lemma OneTick_inv: "Inv s \<Longrightarrow> OneTick call s = Inr (y, s') \<Longrightarrow> Inv s'"
  by (auto simp: OneTick_def Let_def ChangeLevel_def rbind_eq_Inr simp del: fire_due.simps
      dest!: fire_due_inv [rotated])

lemma SetLevel_inv: "Inv s \<Longrightarrow> SetLevel call lv s = Inr (old, y, s') \<Longrightarrow> Inv s'"
  by (auto simp: SetLevel_def Let_def ChangeLevel_def rbind_eq_Inr split: if_splits dest!: OneTick_inv [rotated])

lemma Idle_inv: "Inv s \<Longrightarrow> Idle call s = Inr (go, s') \<Longrightarrow> Inv s'"
  by (auto simp: Idle_def rbind_eq_Inr simp del: fire_due.simps split: if_splits
      dest!: CheckIfDue_inv [rotated] fire_due_inv [rotated])

end

end
