(* ===== verification/Devices.thy ===== *)
theory Devices
  imports Interrupt_Sim "HOL-Library.Signed_Division"
begin

text \<open>
  The simulated devices: the timer (\<^verbatim>\<open>machine/timer.cc\<close>), the disk (\<^verbatim>\<open>machine/disk.cc\<close>), the
  console (\<^verbatim>\<open>machine/console.cc\<close>) and the network (\<^verbatim>\<open>machine/network.cc\<close>). Each starts an operation,
  schedules an interrupt, and from the interrupt calls the kernel back; the kernel's routine is
  the parameter \<open>notify\<close>. The host behind a device is data of the state: the values its random
  generator returns, the sectors of the file that holds the disk, what each poll of the
  keyboard or of the socket finds, and what was written to the display and to the socket.
\<close>

section \<open>State\<close>

datatype device_handler = TimerHandler | DiskDone | ConsoleReadPoll | ConsoleWriteDone
  | NetworkReadPoll | NetworkSendDone

datatype kernel_event = DiskRequestDone | ConsoleReadAvail | ConsoleWriteReady
  | NetReadAvail | NetWriteReady

definition SectorsPerTrack :: nat where "SectorsPerTrack = 32"
definition NumTracks :: nat where "NumTracks = 32"
definition NumSectors :: nat where "NumSectors = SectorsPerTrack * NumTracks"

record disk_state =
  dk_sectors :: "nat \<Rightarrow> byte list"
  dk_active :: bool
  lastSector :: int
  bufferInit :: int

text \<open>The console's one-character buffer is a \<^verbatim>\<open>char\<close>; \<^verbatim>\<open>EOF\<close>, that is -1, marks it empty.\<close>

definition EOF_char :: byte where "EOF_char = - 1"

record console_state =
  putBusy :: bool
  incoming :: byte
  con_polls :: "byte option list"
  con_output :: "byte list"

record PacketHeader =
  pkt_to :: int
  pkt_from :: int
  pkt_length :: nat

definition MaxWireSize :: nat where "MaxWireSize = 64"
definition PacketHeaderSize :: nat where "PacketHeaderSize = 12"
definition MaxPacketSize :: nat where "MaxPacketSize = MaxWireSize - PacketHeaderSize"

text \<open>
  \<open>chanceToWork\<close> is in hundredths, rounded up: \<^verbatim>\<open>Random() % 100 >= chanceToWork * 100\<close> compares an
  integer with it.
\<close>

record network_state =
  ident :: int
  chanceToWork :: int
  sendBusy :: bool
  inHdr :: PacketHeader
  inbox :: "byte list"
  net_polls :: "byte list option list"
  net_sent :: "(int \<times> byte list) list"

record device_sys = "device_handler interrupt_sys" +
  timer_randomize :: bool
  random_values :: "nat \<Rightarrow> nat"
  random_pos :: nat
  disk :: disk_state
  console :: console_state
  network :: network_state

type_synonym 'z dsys = "'z device_sys_scheme"

definition Random :: "'z dsys \<Rightarrow> nat \<times> 'z dsys" where
  "Random s = (random_values s (random_pos s), s\<lparr>random_pos := Suc (random_pos s)\<rparr>)"

section \<open>Timer\<close>

definition TimeOfNextInterrupt :: "'z dsys \<Rightarrow> int \<times> 'z dsys" where
  "TimeOfNextInterrupt s = (if timer_randomize s
     then let (r, s') = Random s in (1 + int (r mod nat (TimerTicks * 2)), s')
     else (TimerTicks, s))"

definition schedule_timer :: "int \<Rightarrow> 'z dsys \<Rightarrow> 'z dsys result" where
  "schedule_timer a s = (let (t, s') = TimeOfNextInterrupt s in Schedule TimerHandler a t TimerInt s')"

definition Timer_new :: "bool \<Rightarrow> int \<Rightarrow> 'z dsys \<Rightarrow> 'z dsys result" where
  "Timer_new doRandom this s = schedule_timer this (s\<lparr>timer_randomize := doRandom\<rparr>)"

text \<open>\<^verbatim>\<open>TimerInterruptHandler\<close> of \<^verbatim>\<open>threads/system.cc\<close>, the routine the kernel gives the timer.\<close>

definition TimerInterruptHandler :: "'z dsys \<Rightarrow> 'z dsys result" where
  "TimerInterruptHandler s = (if status s \<noteq> IdleMode then YieldOnReturn s else Inr s)"

definition TimerExpired :: "int \<Rightarrow> 'z dsys \<Rightarrow> 'z dsys result" where
  "TimerExpired this s = rbind (schedule_timer this s) TimerInterruptHandler"

section \<open>Disk\<close>

text \<open>\<^verbatim>\<open>/\<close> and \<^verbatim>\<open>%\<close> of the source truncate: \<open>sdiv\<close> and \<open>smod\<close>.\<close>

definition TimeToSeek :: "int \<Rightarrow> 'z dsys \<Rightarrow> int \<times> int" where
  "TimeToSeek newSector s =
     (let newTrack = newSector sdiv int SectorsPerTrack;
          oldTrack = lastSector (disk s) sdiv int SectorsPerTrack;
          seek = \<bar>newTrack - oldTrack\<bar> * SeekTime;
          over = (totalTicks (stats s) + seek) smod RotationTime
      in (seek, if over > 0 then RotationTime - over else 0))"

definition ModuloDiff :: "int \<Rightarrow> int \<Rightarrow> int" where
  "ModuloDiff dest src =
     ((dest smod int SectorsPerTrack - src smod int SectorsPerTrack) + int SectorsPerTrack)
       smod int SectorsPerTrack"

definition ComputeLatency :: "int \<Rightarrow> bool \<Rightarrow> 'z dsys \<Rightarrow> int" where
  "ComputeLatency newSector writing s =
     (let (seek, rotation) = TimeToSeek newSector s;
          timeAfter = totalTicks (stats s) + seek + rotation
      in if \<not> writing \<and> seek = 0 \<and>
            (timeAfter - bufferInit (disk s)) sdiv RotationTime
              > ModuloDiff newSector (bufferInit (disk s) sdiv RotationTime)
         then RotationTime
         else seek + (rotation + ModuloDiff newSector (timeAfter sdiv RotationTime) * RotationTime)
                + RotationTime)"

definition UpdateLast :: "int \<Rightarrow> 'z dsys \<Rightarrow> 'z dsys" where
  "UpdateLast newSector s = (let (seek, rotate) = TimeToSeek newSector s; d = disk s in
     s\<lparr>disk := d\<lparr>bufferInit := (if seek \<noteq> 0 then totalTicks (stats s) + seek + rotate else bufferInit d),
       lastSector := newSector\<rparr>\<rparr>)"

definition valid_sector :: "int \<Rightarrow> bool" where
  "valid_sector n \<longleftrightarrow> n \<ge> 0 \<and> n < int NumSectors"

definition ReadRequest :: "int \<Rightarrow> int \<Rightarrow> 'z dsys \<Rightarrow> (byte list \<times> 'z dsys) result" where
  "ReadRequest this sectorNumber s =
     (let ticks = ComputeLatency sectorNumber False s in
      rbind (ASSERT (\<not> dk_active (disk s))) (\<lambda>_. rbind (ASSERT (valid_sector sectorNumber)) (\<lambda>_.
      let data = dk_sectors (disk s) (nat sectorNumber);
          s1 = UpdateLast sectorNumber (s\<lparr>disk := (disk s)\<lparr>dk_active := True\<rparr>\<rparr>);
          s2 = s1\<lparr>stats := (stats s1)\<lparr>numDiskReads := numDiskReads (stats s1) + 1\<rparr>\<rparr>
      in rbind (Schedule DiskDone this ticks DiskInt s2) (\<lambda>s3. Inr (data, s3)))))"

definition WriteRequest :: "int \<Rightarrow> int \<Rightarrow> byte list \<Rightarrow> 'z dsys \<Rightarrow> 'z dsys result" where
  "WriteRequest this sectorNumber data s =
     (let ticks = ComputeLatency sectorNumber True s in
      rbind (ASSERT (\<not> dk_active (disk s))) (\<lambda>_. rbind (ASSERT (valid_sector sectorNumber)) (\<lambda>_.
      if length data < SectorSize then Inl Bad_Index else
      let s0 = s\<lparr>disk := (disk s)\<lparr>dk_active := True,
             dk_sectors := (dk_sectors (disk s))(nat sectorNumber := take SectorSize data)\<rparr>\<rparr>;
          s1 = UpdateLast sectorNumber s0;
          s2 = s1\<lparr>stats := (stats s1)\<lparr>numDiskWrites := numDiskWrites (stats s1) + 1\<rparr>\<rparr>
      in Schedule DiskDone this ticks DiskInt s2)))"

definition Disk_HandleInterrupt ::
  "(kernel_event \<Rightarrow> 'z dsys \<Rightarrow> 'z dsys result) \<Rightarrow> 'z dsys \<Rightarrow> 'z dsys result" where
  "Disk_HandleInterrupt notify s = notify DiskRequestDone (s\<lparr>disk := (disk s)\<lparr>dk_active := False\<rparr>\<rparr>)"

section \<open>Console\<close>

definition Console_new :: "int \<Rightarrow> 'z dsys \<Rightarrow> 'z dsys result" where
  "Console_new this s = Schedule ConsoleReadPoll this ConsoleTime ConsoleReadInt
     (s\<lparr>console := (console s)\<lparr>putBusy := False, incoming := EOF_char\<rparr>\<rparr>)"

definition CheckCharAvail ::
  "(kernel_event \<Rightarrow> 'z dsys \<Rightarrow> 'z dsys result) \<Rightarrow> int \<Rightarrow> 'z dsys \<Rightarrow> 'z dsys result" where
  "CheckCharAvail notify this s =
     rbind (Schedule ConsoleReadPoll this ConsoleTime ConsoleReadInt s) (\<lambda>s1.
     if incoming (console s1) \<noteq> EOF_char then Inr s1
     else case con_polls (console s1) of
       [] \<Rightarrow> Inr s1
     | None # ps \<Rightarrow> Inr (s1\<lparr>console := (console s1)\<lparr>con_polls := ps\<rparr>\<rparr>)
     | Some c # ps \<Rightarrow> notify ConsoleReadAvail
         (s1\<lparr>console := (console s1)\<lparr>con_polls := ps, incoming := c\<rparr>,
             stats := (stats s1)\<lparr>numConsoleCharsRead := numConsoleCharsRead (stats s1) + 1\<rparr>\<rparr>))"

definition Console_WriteDone ::
  "(kernel_event \<Rightarrow> 'z dsys \<Rightarrow> 'z dsys result) \<Rightarrow> 'z dsys \<Rightarrow> 'z dsys result" where
  "Console_WriteDone notify s = notify ConsoleWriteReady
     (s\<lparr>console := (console s)\<lparr>putBusy := False\<rparr>,
        stats := (stats s)\<lparr>numConsoleCharsWritten := numConsoleCharsWritten (stats s) + 1\<rparr>\<rparr>)"

definition GetChar :: "'z dsys \<Rightarrow> byte \<times> 'z dsys" where
  "GetChar s = (incoming (console s), s\<lparr>console := (console s)\<lparr>incoming := EOF_char\<rparr>\<rparr>)"

definition PutChar :: "int \<Rightarrow> byte \<Rightarrow> 'z dsys \<Rightarrow> 'z dsys result" where
  "PutChar this ch s = rbind (ASSERT (\<not> putBusy (console s))) (\<lambda>_.
     Schedule ConsoleWriteDone this ConsoleTime ConsoleWriteInt
       (s\<lparr>console := (console s)\<lparr>con_output := con_output (console s) @ [ch], putBusy := True\<rparr>\<rparr>))"

section \<open>Network\<close>

text \<open>
  A packet on the wire: the header as three little-endian words, then the data, in a buffer of
  \<open>MaxWireSize\<close> bytes whose tail the sender leaves as it was (\<open>pad\<close>).
\<close>

definition word_bytes :: "word32 \<Rightarrow> byte list" where
  "word_bytes w = [byte_of 0 w, byte_of 1 w, byte_of 2 w, byte_of 3 w]"

definition bytes_word :: "byte list \<Rightarrow> word32" where
  "bytes_word bs = word_le (bs ! 0) (bs ! 1) (bs ! 2) (bs ! 3)"

definition header_bytes :: "PacketHeader \<Rightarrow> byte list" where
  "header_bytes h = word_bytes (word_of_int (pkt_to h)) @ word_bytes (word_of_int (pkt_from h))
     @ word_bytes (of_nat (pkt_length h))"

definition bytes_header :: "byte list \<Rightarrow> PacketHeader" where
  "bytes_header bs = \<lparr>pkt_to = sint (bytes_word bs), pkt_from = sint (bytes_word (drop 4 bs)),
     pkt_length = unat (bytes_word (drop 8 bs))\<rparr>"

definition Network_new :: "int \<Rightarrow> int \<Rightarrow> int \<Rightarrow> 'z dsys \<Rightarrow> 'z dsys result" where
  "Network_new this addr reliability s =
     Schedule NetworkReadPoll this NetworkTime NetworkRecvInt (s\<lparr>network := (network s)\<lparr>
       ident := addr,
       chanceToWork := (if reliability < 0 then 0 else if reliability > 100 then 100 else reliability),
       sendBusy := False, inHdr := (inHdr (network s))\<lparr>pkt_length := 0\<rparr>\<rparr>\<rparr>)"

definition CheckPktAvail ::
  "(kernel_event \<Rightarrow> 'z dsys \<Rightarrow> 'z dsys result) \<Rightarrow> int \<Rightarrow> 'z dsys \<Rightarrow> 'z dsys result" where
  "CheckPktAvail notify this s =
     rbind (Schedule NetworkReadPoll this NetworkTime NetworkRecvInt s) (\<lambda>s1.
     if pkt_length (inHdr (network s1)) \<noteq> 0 then Inr s1
     else case net_polls (network s1) of
       [] \<Rightarrow> Inr s1
     | None # ps \<Rightarrow> Inr (s1\<lparr>network := (network s1)\<lparr>net_polls := ps\<rparr>\<rparr>)
     | Some buf # ps \<Rightarrow>
         let hdr = bytes_header buf in
         rbind (ASSERT (pkt_to hdr = ident (network s1) \<and> pkt_length hdr \<le> MaxPacketSize)) (\<lambda>_.
         notify NetReadAvail (s1\<lparr>network := (network s1)\<lparr>net_polls := ps, inHdr := hdr,
             inbox := take (pkt_length hdr) (drop PacketHeaderSize buf)
                        @ drop (pkt_length hdr) (inbox (network s1))\<rparr>,
           stats := (stats s1)\<lparr>numPacketsRecvd := numPacketsRecvd (stats s1) + 1\<rparr>\<rparr>)))"

definition SendDone ::
  "(kernel_event \<Rightarrow> 'z dsys \<Rightarrow> 'z dsys result) \<Rightarrow> 'z dsys \<Rightarrow> 'z dsys result" where
  "SendDone notify s = notify NetWriteReady (s\<lparr>network := (network s)\<lparr>sendBusy := False\<rparr>,
     stats := (stats s)\<lparr>numPacketsSent := numPacketsSent (stats s) + 1\<rparr>\<rparr>)"

definition Send :: "byte list \<Rightarrow> int \<Rightarrow> PacketHeader \<Rightarrow> byte list \<Rightarrow> 'z dsys \<Rightarrow> 'z dsys result" where
  "Send pad this hdr data s =
     rbind (ASSERT (\<not> sendBusy (network s) \<and> pkt_length hdr > 0 \<and> pkt_length hdr \<le> MaxPacketSize
       \<and> pkt_from hdr = ident (network s))) (\<lambda>_.
     rbind (Schedule NetworkSendDone this NetworkTime NetworkSendInt s) (\<lambda>s1.
     let (r, s2) = Random s1 in
     if int (r mod 100) \<ge> chanceToWork (network s2) then Inr s2
     else if length data < pkt_length hdr then Inl Bad_Index
     else let buf = take MaxWireSize (header_bytes hdr @ take (pkt_length hdr) data @ pad) in
       Inr (s2\<lparr>network := (network s2)\<lparr>net_sent := net_sent (network s2) @ [(pkt_to hdr, buf)]\<rparr>\<rparr>)))"

definition Receive :: "'z dsys \<Rightarrow> (PacketHeader \<times> byte list) \<times> 'z dsys" where
  "Receive s = (let hdr = inHdr (network s) in
     ((hdr, take (pkt_length hdr) (inbox (network s))),
      s\<lparr>network := (network s)\<lparr>inHdr := hdr\<lparr>pkt_length := 0\<rparr>\<rparr>\<rparr>))"

section \<open>Dispatch of an interrupt\<close>

fun device_call ::
  "(kernel_event \<Rightarrow> 'z dsys \<Rightarrow> 'z dsys result) \<Rightarrow> device_handler \<Rightarrow> int \<Rightarrow> 'z dsys \<Rightarrow> 'z dsys result" where
  "device_call notify TimerHandler a s = TimerExpired a s"
| "device_call notify DiskDone a s = Disk_HandleInterrupt notify s"
| "device_call notify ConsoleReadPoll a s = CheckCharAvail notify a s"
| "device_call notify ConsoleWriteDone a s = Console_WriteDone notify s"
| "device_call notify NetworkReadPoll a s = CheckPktAvail notify a s"
| "device_call notify NetworkSendDone a s = SendDone notify s"

section \<open>The devices keep the contract of the interrupt simulation\<close>

text \<open>
  What the devices rely on: the kernel routine called from an interrupt leaves the clock, the
  interrupt level and the pending interrupts alone, or adds later ones.
\<close>

locale kernel_callbacks =
  fixes notify :: "kernel_event \<Rightarrow> 'z dsys \<Rightarrow> 'z dsys result"
  assumes notify_step: "notify e s = Inr s' \<Longrightarrow> handler_step s s'"
    and notify_fuel: "notify e s \<noteq> Inl Out_Of_Fuel"

lemma handler_step_cong:
  "level s1 = level s \<Longrightarrow> inHandler s1 = inHandler s \<Longrightarrow> status s1 = status s \<Longrightarrow>
   clock (stats s1) = clock (stats s) \<Longrightarrow> pending s1 = pending s \<Longrightarrow> handler_step s s1"
  by (auto simp: handler_step_def pending_sorted_def)

lemma Schedule_fuel: "Schedule h a d ty s \<noteq> Inl Out_Of_Fuel"
  by (simp add: Schedule_def Let_def ASSERT_def)

lemma schedule_timer_step:
  assumes "schedule_timer a s = Inr s'"
  shows "handler_step s s'"
proof -
  obtain t s1 where t: "TimeOfNextInterrupt s = (t, s1)" by fastforce
  then have "handler_step s s1"
    by (intro handler_step_cong)
       (auto simp: TimeOfNextInterrupt_def Random_def clock_def split: if_splits)
  moreover have "Schedule TimerHandler a t TimerInt s1 = Inr s'"
    using assms t by (simp add: schedule_timer_def)
  then have "handler_step s1 s'" by (rule Schedule_step [THEN conjunct1])
  ultimately show ?thesis by (rule handler_step_trans)
qed

lemma handler_step_yieldOnReturn [simp]:
  "handler_step s (s'\<lparr>yieldOnReturn := b\<rparr>) = handler_step s s'"
  by (simp add: handler_step_def pending_sorted_def)

lemma TimerExpired_step: "TimerExpired a s = Inr s' \<Longrightarrow> handler_step s s'"
  by (auto simp: TimerExpired_def rbind_eq_Inr TimerInterruptHandler_def YieldOnReturn_def
      split: if_splits dest!: schedule_timer_step)

context kernel_callbacks
begin

lemma notify_after:
  "notify e s1 = Inr s' \<Longrightarrow> level s1 = level s \<Longrightarrow> inHandler s1 = inHandler s \<Longrightarrow>
   status s1 = status s \<Longrightarrow> clock (stats s1) = clock (stats s) \<Longrightarrow> pending s1 = pending s \<Longrightarrow>
   handler_step s s'"
  by (rule handler_step_trans [OF handler_step_cong notify_step])

lemma CheckCharAvail_step:
  assumes "CheckCharAvail notify a s = Inr s'"
  shows "handler_step s s'"
proof -
  obtain s1 where s1: "Schedule ConsoleReadPoll a ConsoleTime ConsoleReadInt s = Inr s1"
    using assms by (auto simp: CheckCharAvail_def rbind_eq_Inr)
  have "handler_step s1 s'"
    using assms s1
    by (auto simp: CheckCharAvail_def clock_def handler_step_refl
        split: if_splits list.splits option.splits intro: notify_after handler_step_cong)
  with Schedule_step [OF s1] show ?thesis by (blast intro: handler_step_trans)
qed

lemma CheckPktAvail_step:
  assumes "CheckPktAvail notify a s = Inr s'"
  shows "handler_step s s'"
proof -
  obtain s1 where s1: "Schedule NetworkReadPoll a NetworkTime NetworkRecvInt s = Inr s1"
    using assms by (auto simp: CheckPktAvail_def rbind_eq_Inr)
  have "handler_step s1 s'"
    using assms s1
    by (auto simp: CheckPktAvail_def clock_def handler_step_refl Let_def rbind_eq_Inr
        split: if_splits list.splits option.splits intro: notify_after handler_step_cong)
  with Schedule_step [OF s1] show ?thesis by (blast intro: handler_step_trans)
qed

lemma device_call_step: "device_call notify h a s = Inr s' \<Longrightarrow> handler_step s s'"
  by (cases h)
     (auto simp: Disk_HandleInterrupt_def Console_WriteDone_def SendDone_def clock_def
       intro: TimerExpired_step CheckCharAvail_step CheckPktAvail_step notify_after)

lemma device_call_fuel: "device_call notify h a s \<noteq> Inl Out_Of_Fuel"
  by (cases h)
     (auto simp: Disk_HandleInterrupt_def Console_WriteDone_def SendDone_def TimerExpired_def
       CheckCharAvail_def CheckPktAvail_def TimerInterruptHandler_def YieldOnReturn_def
       schedule_timer_def rbind_def ASSERT_def Let_def Schedule_fuel notify_fuel
       split: sum.splits list.splits option.splits prod.splits dest: notify_fuel [THEN notE])

end

sublocale kernel_callbacks \<subseteq> device_handlers "device_call notify"
  by unfold_locales (rule device_call_step, assumption, rule device_call_fuel)

text \<open>A property of the state behind the devices that the kernel's routines keep.\<close>

locale kept_by_kernel =
  fixes notify :: "kernel_event \<Rightarrow> 'z dsys \<Rightarrow> 'z dsys result"
    and Inv :: "'z dsys \<Rightarrow> bool"
  assumes inv_notify: "Inv s \<Longrightarrow> notify e s = Inr s' \<Longrightarrow> Inv s'"
    and inv_device_more: "device_sys.more s' = device_sys.more s \<Longrightarrow> mach s' = mach s \<Longrightarrow> Inv s' = Inv s"
    and inv_device_load: "Inv s \<Longrightarrow> machine_DelayedLoad s = Inr s' \<Longrightarrow> Inv s'"
begin

lemma inv_interrupt_more:
  assumes "interrupt_sys.more s' = interrupt_sys.more s" "mach s' = mach s"
  shows "Inv s' = Inv s"
  by (rule inv_device_more) (use assms in \<open>cases s; cases s'; simp\<close>)+

lemma inv_device_fields [simp]:
  "Inv (s\<lparr>pending := p\<rparr>) = Inv s" "Inv (s\<lparr>yieldOnReturn := y\<rparr>) = Inv s" "Inv (s\<lparr>stats := st\<rparr>) = Inv s"
  "Inv (s\<lparr>random_pos := n\<rparr>) = Inv s" "Inv (s\<lparr>disk := d\<rparr>) = Inv s" "Inv (s\<lparr>console := c\<rparr>) = Inv s"
  "Inv (s\<lparr>network := w\<rparr>) = Inv s"
  by (rule inv_device_more; simp)+

lemma device_call_inv: "Inv s \<Longrightarrow> device_call notify h a s = Inr s' \<Longrightarrow> Inv s'"
  by (cases h)
     (auto simp: TimerExpired_def TimerInterruptHandler_def schedule_timer_def TimeOfNextInterrupt_def
       Random_def YieldOnReturn_def Disk_HandleInterrupt_def CheckCharAvail_def Console_WriteDone_def
       CheckPktAvail_def SendDone_def Schedule_def Let_def rbind_eq_Inr
       split: if_splits list.splits option.splits elim!: inv_notify [rotated])

end

sublocale kept_by_kernel \<subseteq> kept_by_handlers "device_call notify" Inv
  by unfold_locales
    (rule device_call_inv, assumption+, rule inv_interrupt_more, assumption+, rule inv_device_load, assumption+)

section \<open>Disk timing\<close>

lemma smod_sdiv_nonneg:
  fixes a b :: int
  assumes "0 \<le> a" "0 < b"
  shows "a smod b = a mod b" "a sdiv b = a div b"
  using assms by (simp_all add: signed_modulo_int_def signed_divide_int_def sgn_if)

lemma ModuloDiff_nonneg:
  assumes "0 \<le> a" "0 \<le> b"
  shows "ModuloDiff a b = (a - b) mod 32"
proof -
  have "0 \<le> a mod 32 - b mod 32 + 32"
    using pos_mod_bound [of 32 b] pos_mod_sign [of 32 a] by simp
  then have "ModuloDiff a b = (a mod 32 - b mod 32 + 32) mod 32"
    using assms by (simp add: ModuloDiff_def SectorsPerTrack_def smod_sdiv_nonneg)
  also have "\<dots> = (a - b) mod 32" by (simp add: mod_diff_eq)
  finally show ?thesis .
qed

lemma ModuloDiff_range:
  assumes "0 \<le> a" "0 \<le> b"
  shows "0 \<le> ModuloDiff a b" "ModuloDiff a b \<le> 31"
  using ModuloDiff_nonneg [OF assms] pos_mod_bound [of 32 "a - b"] pos_mod_sign [of 32 "a - b"]
  by simp_all

definition disk_ok :: "'z dsys \<Rightarrow> bool" where
  "disk_ok s \<longleftrightarrow> valid_sector (lastSector (disk s)) \<and> 0 \<le> totalTicks (stats s)
     \<and> 0 \<le> bufferInit (disk s) \<and> bufferInit (disk s) mod RotationTime = 0"

lemma TimeToSeek_ok:
  assumes "disk_ok s" "valid_sector n" "TimeToSeek n s = (seek, rot)"
  shows "0 \<le> seek" "seek \<le> 31 * 500" "0 \<le> rot" "rot < 500"
    "(totalTicks (stats s) + seek + rot) mod 500 = 0"
proof -
  let ?d = "n div 32 - lastSector (disk s) div 32" and ?t = "totalTicks (stats s)"
  have r: "0 \<le> n" "n < 1024" "0 \<le> lastSector (disk s)" "lastSector (disk s) < 1024" "0 \<le> ?t"
    using assms(1,2)
    by (simp_all add: disk_ok_def valid_sector_def NumSectors_def SectorsPerTrack_def NumTracks_def)
  have seek: "seek = \<bar>?d\<bar> * 500"
    and rot: "rot = (if (?t + seek) mod 500 > 0 then 500 - (?t + seek) mod 500 else 0)"
    using assms(3) r
    by (auto simp: TimeToSeek_def Let_def SectorsPerTrack_def tick_defs smod_sdiv_nonneg)
  have track: "0 \<le> x div 32 \<and> x div 32 \<le> 31" if "0 \<le> x" "x < 1024" for x :: int
    using that by presburger
  from track [of n] track [of "lastSector (disk s)"] r have "\<bar>?d\<bar> \<le> 31" by linarith
  then show "0 \<le> seek" "seek \<le> 31 * 500" by (simp_all add: seek)
  show "0 \<le> rot" "rot < 500" using rot pos_mod_bound [of 500 "?t + seek"] by auto
  show "(?t + seek + rot) mod 500 = 0"
  proof (cases "(?t + seek) mod 500 > 0")
    case True
    then have "?t + seek + rot = (?t + seek) - (?t + seek) mod 500 + 500" using rot by simp
    also have "\<dots> mod 500 = 0" by (metis mod_add_self2 mod_diff_right_eq minus_mod_eq_mult_div mod_mult_self1_is_0)
    finally show ?thesis .
  next
    case False
    then show ?thesis using rot pos_mod_sign [of 500 "?t + seek"] by simp
  qed
qed

lemma ComputeLatency_buffered:
  assumes "disk_ok s" "valid_sector n"
  obtains (buffer) "ComputeLatency n w s = 500"
  | (rotate) t where "ComputeLatency n w s = t - totalTicks (stats s) + ModuloDiff n (t div 500) * 500 + 500"
      "t mod 500 = 0" "totalTicks (stats s) \<le> t" "t \<le> totalTicks (stats s) + 31 * 500 + 499" "0 \<le> t"
proof -
  obtain seek rot where t: "TimeToSeek n s = (seek, rot)" by fastforce
  note ok = TimeToSeek_ok [OF assms t]
  have now: "0 \<le> totalTicks (stats s)" using assms(1) by (simp add: disk_ok_def)
  show ?thesis
  proof (cases "\<not> w \<and> seek = 0 \<and> (totalTicks (stats s) + seek + rot - bufferInit (disk s)) sdiv RotationTime
      > ModuloDiff n (bufferInit (disk s) sdiv RotationTime)")
    case True
    then show ?thesis using t by (intro buffer) (auto simp: ComputeLatency_def Let_def tick_defs)
  next
    case False
    then have "ComputeLatency n w s = seek + (rot + ModuloDiff n ((totalTicks (stats s) + seek + rot)
        sdiv RotationTime) * RotationTime) + RotationTime"
      using t by (auto simp: ComputeLatency_def Let_def)
    then show ?thesis
      using ok now
      by (intro rotate [of "totalTicks (stats s) + seek + rot"]) (simp_all add: tick_defs smod_sdiv_nonneg)
  qed
qed

lemma ComputeLatency_bounds:
  assumes "disk_ok s" "valid_sector n"
  shows "500 \<le> ComputeLatency n w s" "ComputeLatency n w s \<le> 31999"
proof -
  have n: "0 \<le> n" using assms(2) by (simp add: valid_sector_def)
  show "500 \<le> ComputeLatency n w s"
    by (rule ComputeLatency_buffered [OF assms, of w])
       (use ModuloDiff_range [OF n] in \<open>auto simp: pos_imp_zdiv_nonneg_iff\<close>)
  have "ModuloDiff n (t div 500) \<le> 31" if "0 \<le> t" for t
    using ModuloDiff_range(2) [OF n] that by (simp add: pos_imp_zdiv_nonneg_iff)
  then show "ComputeLatency n w s \<le> 31999"
    by (rule_tac ComputeLatency_buffered [OF assms, of w]) fastforce+
qed

text \<open>
  When the track turns past the head: at time \<open>t\<close> sector \<open>n\<close> begins to pass under it. The track buffer has a sector that began to pass
  after the buffer was started.
\<close>

definition head_at :: "int \<Rightarrow> int \<Rightarrow> bool" where
  "head_at n t \<longleftrightarrow> t mod RotationTime = 0 \<and> (t div RotationTime) mod int SectorsPerTrack = n mod int SectorsPerTrack"

definition seek_time :: "int \<Rightarrow> 'z dsys \<Rightarrow> int" where
  "seek_time n s = \<bar>n div int SectorsPerTrack - lastSector (disk s) div int SectorsPerTrack\<bar> * SeekTime"

definition in_track_buffer :: "int \<Rightarrow> 'z dsys \<Rightarrow> bool" where
  "in_track_buffer n s \<longleftrightarrow> (\<exists>t. head_at n t \<and> bufferInit (disk s) \<le> t \<and> t < totalTicks (stats s))"

lemma head_at_slots: "head_at n t \<longleftrightarrow> (\<exists>q. t = 500 * q \<and> 32 dvd q - n)"
  by (auto simp: head_at_def tick_defs SectorsPerTrack_def mod_eq_dvd_iff)

text \<open>The first slot for \<open>n\<close> from slot \<open>q\<close> on is \<open>(n - q) mod 32\<close> slots away.\<close>

lemma first_slot:
  fixes q n :: int
  shows "32 dvd q + (n - q) mod 32 - n" "q \<le> p \<Longrightarrow> 32 dvd p - n \<Longrightarrow> q + (n - q) mod 32 \<le> p"
    "(\<exists>p. 32 dvd p - n \<and> q \<le> p \<and> p < r) \<longleftrightarrow> (n - q) mod 32 < r - q"
proof -
  show 1: "32 dvd q + (n - q) mod 32 - n"
    by (simp add: mod_eq_dvd_iff [symmetric] mod_simps)
  show 2: "q + (n - q) mod 32 \<le> p" if "q \<le> p" "32 dvd p - n" for p
  proof -
    have "32 dvd (p - q) - (n - q)" using that(2) by simp
    then have "(p - q) mod 32 = (n - q) mod 32" by (simp only: mod_eq_dvd_iff)
    moreover have "(p - q) mod 32 \<le> p - q" using that(1) by (intro zmod_le_nonneg_dividend) simp
    ultimately show ?thesis by simp
  qed
  show "(\<exists>p. 32 dvd p - n \<and> q \<le> p \<and> p < r) \<longleftrightarrow> (n - q) mod 32 < r - q"
  proof
    assume "\<exists>p. 32 dvd p - n \<and> q \<le> p \<and> p < r"
    then obtain p where "32 dvd p - n" "q \<le> p" "p < r" by blast
    with 2 [of p] show "(n - q) mod 32 < r - q" by simp
  next
    assume "(n - q) mod 32 < r - q"
    then show "\<exists>p. 32 dvd p - n \<and> q \<le> p \<and> p < r" using 1 by (intro exI [of _ "q + (n - q) mod 32"]) simp
  qed
qed

lemma sdiv_negative: "a < 0 \<Longrightarrow> 0 < b \<Longrightarrow> a sdiv b \<le> (0 :: int)"
  by (simp add: signed_divide_int_def sgn_if pos_imp_zdiv_nonneg_iff)

lemma track_buffer_test:
  assumes "disk_ok s" "valid_sector n" "totalTicks (stats s) \<le> t" "t < totalTicks (stats s) + 500" "t mod 500 = 0"
  shows "(t - bufferInit (disk s)) sdiv RotationTime > ModuloDiff n (bufferInit (disk s) sdiv RotationTime) \<longleftrightarrow> in_track_buffer n s"
proof -
  obtain q r where q: "bufferInit (disk s) = 500 * q" and r: "t = 500 * r"
    using assms(1,5) by (auto simp: disk_ok_def tick_defs elim!: dvdE dest!: mod_0_imp_dvd)
  have q0: "0 \<le> q" using assms(1) q by (simp add: disk_ok_def)
  have m: "ModuloDiff n (bufferInit (disk s) sdiv RotationTime) = (n - q) mod 32"
    using assms(2) q q0 by (simp add: tick_defs smod_sdiv_nonneg ModuloDiff_nonneg valid_sector_def)
  have "500 * p < totalTicks (stats s) \<longleftrightarrow> p < r" for p using assms(3,4) r by linarith
  then have "in_track_buffer n s \<longleftrightarrow> (\<exists>p. 32 dvd p - n \<and> q \<le> p \<and> p < r)"
    unfolding in_track_buffer_def head_at_slots q by fastforce
  also have "\<dots> \<longleftrightarrow> (n - q) mod 32 < r - q" by (rule first_slot(3))
  also have "\<dots> \<longleftrightarrow> (n - q) mod 32 < (t - bufferInit (disk s)) sdiv 500"
  proof (cases "q \<le> r")
    case True
    have "t - bufferInit (disk s) = 500 * (r - q)" using q r by simp
    then show ?thesis using True by (simp only: smod_sdiv_nonneg) (simp add: smod_sdiv_nonneg)
  next
    case False
    then have "(t - bufferInit (disk s)) sdiv 500 \<le> 0" using q r by (intro sdiv_negative) simp_all
    moreover have "0 \<le> (n - q) mod 32" by (rule pos_mod_sign) simp
    ultimately show ?thesis using False by linarith
  qed
  finally show ?thesis using m by (simp add: tick_defs)
qed

lemma seek_time_TimeToSeek:
  assumes "disk_ok s" "valid_sector n"
  shows "fst (TimeToSeek n s) = seek_time n s"
  using assms by (simp add: TimeToSeek_def Let_def seek_time_def SectorsPerTrack_def smod_sdiv_nonneg disk_ok_def valid_sector_def)

text \<open>
  C38: the latency of a disk request. A read of a sector of the current track that is in the track buffer takes the time of one sector. Any
  other request waits until the head has reached the track and the sector comes round for the first time after that, and ends when it has
  passed; this is at most a full seek, one rotation and the transfer.
\<close>

theorem disk_latency:
  assumes "disk_ok s" "valid_sector n"
  shows "let lat = ComputeLatency n w s; now = totalTicks (stats s); start = now + lat - RotationTime in
    RotationTime \<le> lat \<and> lat \<le> 31999
    \<and> (if \<not> w \<and> n div int SectorsPerTrack = lastSector (disk s) div int SectorsPerTrack \<and> in_track_buffer n s
       then lat = RotationTime
       else head_at n start \<and> now + seek_time n s \<le> start \<and> (\<forall>t. head_at n t \<and> now + seek_time n s \<le> t \<longrightarrow> start \<le> t))"
proof -
  obtain seek rot where t: "TimeToSeek n s = (seek, rot)" by fastforce
  note ok = TimeToSeek_ok [OF assms t]
  have seek: "seek_time n s = seek" using seek_time_TimeToSeek [OF assms] t by simp
  have same: "seek = 0 \<longleftrightarrow> n div int SectorsPerTrack = lastSector (disk s) div int SectorsPerTrack"
    unfolding seek [symmetric] by (simp add: seek_time_def SeekTime_def)
  let ?now = "totalTicks (stats s)"
  have n: "0 \<le> n" "0 \<le> ?now" using assms by (simp_all add: valid_sector_def disk_ok_def)
  obtain q where q: "?now + seek + rot = 500 * q" using ok(5) by (auto elim!: dvdE dest!: mod_0_imp_dvd)
  have q0: "0 \<le> q" using q ok(1,3) n by linarith
  note bounds = ComputeLatency_bounds [OF assms, of w]
  show ?thesis
  proof (cases "\<not> w \<and> seek = 0 \<and> in_track_buffer n s")
    case True
    then have "ComputeLatency n w s = RotationTime"
      using t track_buffer_test [OF assms, of "?now + rot"] ok(3-5) by (simp add: ComputeLatency_def)
    then show ?thesis using True same bounds by (simp add: Let_def tick_defs)
  next
    case False
    have lat: "?now + ComputeLatency n w s - 500 = 500 * (q + (n - q) mod 32)"
      using t False track_buffer_test [OF assms, of "?now + rot"] ok(3-5) q q0 n
      by (auto simp: ComputeLatency_def Let_def tick_defs smod_sdiv_nonneg ModuloDiff_nonneg)
    have "q \<le> p" if "?now + seek \<le> 500 * p" for p using that q ok(4) by linarith
    then have "\<forall>t. head_at n t \<and> ?now + seek \<le> t \<longrightarrow> 500 * (q + (n - q) mod 32) \<le> t"
      using first_slot(2) unfolding head_at_slots by (metis mult_le_cancel_left_pos zero_less_numeral)
    moreover have "head_at n (500 * (q + (n - q) mod 32))" using first_slot(1) unfolding head_at_slots by blast
    moreover have "?now + seek \<le> 500 * (q + (n - q) mod 32)" using q ok(3) pos_mod_sign [of 32 "n - q"] by simp
    ultimately show ?thesis using False same bounds lat seek by (auto simp: Let_def tick_defs)
  qed
qed

text \<open>The devices as the machine is switched on.\<close>

definition devices_off :: "(nat \<Rightarrow> nat) \<Rightarrow> (nat \<Rightarrow> byte list) \<Rightarrow> device_sys" where
  "devices_off rnd secs = interrupt_sys.extend (Interrupt_new None)
     \<lparr>timer_randomize = False, random_values = rnd, random_pos = 0,
      disk = \<lparr>dk_sectors = secs, dk_active = False, lastSector = 0, bufferInit = 0\<rparr>,
      console = \<lparr>putBusy = False, incoming = EOF_char, con_polls = [], con_output = []\<rparr>,
      network = \<lparr>ident = 0, chanceToWork = 100, sendBusy = False,
        inHdr = \<lparr>pkt_to = 0, pkt_from = 0, pkt_length = 0\<rparr>, inbox = replicate MaxPacketSize 0,
        net_polls = [], net_sent = []\<rparr>\<rparr>"

lemmas devices_off_defs = devices_off_def interrupt_sys.defs Interrupt_new_def Statistics_new_def

text \<open>At time 1200 a read of sector 1, which passed after time 500, takes one sector time; a write waits for the next turn.\<close>

theorem disk_latency_witness:
  "let s = devices_off (\<lambda>_. 0) (\<lambda>_. []); s' = s\<lparr>stats := (stats s)\<lparr>totalTicks := 1200\<rparr>\<rparr> in
     ComputeLatency 1 False s' = 500 \<and> ComputeLatency 1 True s' = 15800"
proof -
  let ?s = "(devices_off (\<lambda>_. 0) (\<lambda>_. []))\<lparr>stats := (stats (devices_off (\<lambda>_. 0) (\<lambda>_. [])))\<lparr>totalTicks := 1200\<rparr>\<rparr>"
  have ok: "disk_ok ?s" "valid_sector 1"
    by (simp_all add: devices_off_defs disk_ok_def valid_sector_def NumSectors_def SectorsPerTrack_def NumTracks_def)
  define s where "s = ?s"
  have z: "seek_time 1 s = 0" "totalTicks (stats s) = 1200" "lastSector (disk s) = 0" "bufferInit (disk s) = 0"
    by (simp_all add: s_def seek_time_def devices_off_defs SectorsPerTrack_def)
  note ok' = ok [folded s_def]
  have "in_track_buffer 1 s" unfolding in_track_buffer_def z by (rule exI [of _ 500]) (simp add: head_at_slots)
  then have "ComputeLatency 1 False s = 500"
    using disk_latency [OF ok', of False] by (simp add: Let_def z SectorsPerTrack_def tick_defs)
  moreover have "ComputeLatency 1 True s = 15800"
  proof -
    let ?t = "1200 + ComputeLatency 1 True s - 500"
    have l: "head_at 1 ?t" "1200 \<le> ?t" "\<forall>t. head_at 1 t \<and> 1200 \<le> t \<longrightarrow> ?t \<le> t"
      using disk_latency [OF ok', of True] by (simp_all add: Let_def z tick_defs)
    obtain q where q: "?t = 500 * q" "32 dvd q - 1" using l(1) unfolding head_at_slots by blast
    have "head_at 1 16500" unfolding head_at_slots by (rule exI [of _ 33]) simp
    with l(2,3) q(1) have "3 \<le> q" "q \<le> 33" by auto
    with q(2) have "q = 33" by presburger
    then show ?thesis using q(1) by simp
  qed
  ultimately show ?thesis by (simp add: Let_def s_def)
qed

section \<open>Data through the disk and the network\<close>

lemma disk_ok_UpdateLast:
  "valid_sector n \<Longrightarrow> disk_ok s \<Longrightarrow> disk_ok (UpdateLast n s)"
proof -
  assume a: "valid_sector n" "disk_ok s"
  obtain seek rot where t: "TimeToSeek n s = (seek, rot)" by fastforce
  from TimeToSeek_ok [OF a(2,1) t] a t show ?thesis
    by (simp add: UpdateLast_def disk_ok_def Let_def tick_defs)
qed

lemma UpdateLast_fields [simp]:
  "dk_sectors (disk (UpdateLast n s)) = dk_sectors (disk s)"
  "dk_active (disk (UpdateLast n s)) = dk_active (disk s)" "stats (UpdateLast n s) = stats s"
  "pending (UpdateLast n s) = pending s"
  by (simp_all add: UpdateLast_def Let_def split: prod.splits)

lemma disk_ok_cong:
  "lastSector (disk s') = lastSector (disk s) \<Longrightarrow> bufferInit (disk s') = bufferInit (disk s) \<Longrightarrow>
   totalTicks (stats s') = totalTicks (stats s) \<Longrightarrow> disk_ok s' = disk_ok s"
  by (simp add: disk_ok_def)

lemma WriteRequest_ok:
  assumes "disk_ok s" "\<not> dk_active (disk s)" "valid_sector n" "length data = SectorSize"
  shows "\<exists>s'. WriteRequest this n data s = Inr s' \<and> disk_ok s' \<and> dk_active (disk s') \<and>
    dk_sectors (disk s') = (dk_sectors (disk s))(nat n := data) \<and>
    totalTicks (stats s') = totalTicks (stats s)"
proof -
  have "0 < ComputeLatency n True s" using ComputeLatency_bounds(1) [OF assms(1,3), of True] by simp
  moreover have "disk_ok (s\<lparr>disk := (disk s)\<lparr>dk_active := True,
      dk_sectors := (dk_sectors (disk s))(nat n := data)\<rparr>\<rparr>)" (is "disk_ok ?s0")
    using assms(1) by (simp add: disk_ok_def)
  note disk_ok_UpdateLast [OF assms(3) this]
  ultimately show ?thesis
    using assms by (simp add: WriteRequest_def Schedule_ok Let_def disk_ok_def)
qed

lemma ReadRequest_ok:
  assumes "disk_ok s" "\<not> dk_active (disk s)" "valid_sector n"
  shows "\<exists>s'. ReadRequest this n s = Inr (dk_sectors (disk s) (nat n), s') \<and> disk_ok s' \<and>
    dk_active (disk s') \<and> dk_sectors (disk s') = dk_sectors (disk s)"
proof -
  have "0 < ComputeLatency n False s" using ComputeLatency_bounds(1) [OF assms(1,3), of False] by simp
  moreover have "disk_ok (s\<lparr>disk := (disk s)\<lparr>dk_active := True\<rparr>\<rparr>)"
    using assms(1) by (simp add: disk_ok_def)
  note disk_ok_UpdateLast [OF assms(3) this]
  ultimately show ?thesis
    using assms by (simp add: ReadRequest_def Schedule_ok Let_def disk_ok_def)
qed

text \<open>
  The disk keeps what is written. A write of one sector of data to an idle disk succeeds and
  occupies the disk, so that another request before its interrupt stops Nachos; once the
  request is done, a read of that sector gives the data and a read of any other sector what it
  held before.
\<close>

theorem disk_keeps_data:
  fixes s :: "'z dsys"
  assumes "disk_ok s" "\<not> dk_active (disk s)" "valid_sector n" "length data = SectorSize"
  shows "\<exists>s1. WriteRequest this n data s = Inr s1 \<and> ReadRequest this n s1 = Inl Assert_Failed \<and>
    (\<forall>(s2 :: 'z dsys) k. disk s2 = (disk s1)\<lparr>dk_active := False\<rparr>
        \<and> totalTicks (stats s) \<le> totalTicks (stats s2) \<and> valid_sector k \<longrightarrow>
      (\<exists>s3. ReadRequest this k s2 = Inr (if k = n then data else dk_sectors (disk s) (nat k), s3)))"
proof -
  obtain s1 where s1: "WriteRequest this n data s = Inr s1" "disk_ok s1" "dk_active (disk s1)"
    "dk_sectors (disk s1) = (dk_sectors (disk s))(nat n := data)"
    "totalTicks (stats s1) = totalTicks (stats s)"
    using WriteRequest_ok [OF assms, of this] by blast
  have "ReadRequest this n s1 = Inl Assert_Failed" using s1(3) by (simp add: ReadRequest_def Let_def)
  moreover have "\<exists>s3. ReadRequest this k s2 = Inr (if k = n then data else dk_sectors (disk s) (nat k), s3)"
    if k: "disk s2 = (disk s1)\<lparr>dk_active := False\<rparr>" "totalTicks (stats s) \<le> totalTicks (stats s2)"
      "valid_sector k" for s2 :: "'z dsys" and k
  proof -
    have "disk_ok s2" "\<not> dk_active (disk s2)"
      using k(1,2) s1(2,5) by (auto simp: disk_ok_def)
    from ReadRequest_ok [OF this k(3), of this] k s1(4) assms(3) show ?thesis
      by (auto simp: valid_sector_def eq_nat_nat_iff)
  qed
  ultimately show ?thesis using s1(1) by blast
qed

theorem disk_keeps_data_witness:
  "\<exists>s1 s3. WriteRequest 0 5 (replicate 256 7) (devices_off (\<lambda>_. 0) (\<lambda>_. replicate 256 0)) = Inr s1 \<and>
     ReadRequest 0 5 (s1\<lparr>disk := (disk s1)\<lparr>dk_active := False\<rparr>\<rparr>) = Inr (replicate 256 7, s3)"
proof -
  let ?s = "devices_off (\<lambda>_. 0) (\<lambda>_. replicate 256 0)"
  have ok: "disk_ok ?s" "\<not> dk_active (disk ?s)" "valid_sector 5" "length (replicate 256 7 :: byte list) = SectorSize"
    by (simp_all add: devices_off_defs disk_ok_def valid_sector_def NumSectors_def
        SectorsPerTrack_def NumTracks_def SectorSize_def)
  obtain s1 where s1: "WriteRequest 0 5 (replicate 256 7) ?s = Inr s1"
    "\<forall>(s2 :: device_sys) k. disk s2 = (disk s1)\<lparr>dk_active := False\<rparr> \<and> totalTicks (stats ?s) \<le> totalTicks (stats s2)
        \<and> valid_sector k \<longrightarrow>
      (\<exists>s3. ReadRequest 0 k s2 = Inr (if k = 5 then replicate 256 7 else dk_sectors (disk ?s) (nat k), s3))"
    using disk_keeps_data [OF ok, of 0] by blast
  have "totalTicks (stats s1) = totalTicks (stats ?s)"
    using WriteRequest_ok [OF ok, of 0] s1(1) by auto
  then show ?thesis
    using s1(1) s1(2) [rule_format, of "s1\<lparr>disk := (disk s1)\<lparr>dk_active := False\<rparr>\<rparr>" 5] ok(3) by auto
qed

lemma length_word_bytes [simp]: "length (word_bytes w) = 4"
  by (simp add: word_bytes_def)

lemma bytes_word_bytes [simp]: "bytes_word (word_bytes w @ bs) = w"
  by (simp add: bytes_word_def word_bytes_def)

lemma sint_word_of_int32:
  "- (2 ^ 31) \<le> k \<Longrightarrow> k < 2 ^ 31 \<Longrightarrow> sint (word_of_int k :: word32) = k"
  by (simp add: signed_of_int signed_take_bit_int_eq_self)

definition header_ok :: "PacketHeader \<Rightarrow> bool" where
  "header_ok h \<longleftrightarrow> - (2 ^ 31) \<le> pkt_to h \<and> pkt_to h < 2 ^ 31 \<and> - (2 ^ 31) \<le> pkt_from h
     \<and> pkt_from h < 2 ^ 31 \<and> pkt_length h \<le> MaxPacketSize"

lemma bytes_header_bytes:
  assumes "header_ok h"
  shows "bytes_header (header_bytes h @ bs) = h"
proof -
  have "unat (of_nat (pkt_length h) :: word32) = pkt_length h"
    using assms by (simp add: header_ok_def MaxPacketSize_def MaxWireSize_def PacketHeaderSize_def
        unsigned_of_nat take_bit_nat_eq_self)
  moreover have "drop 4 (word_bytes x @ ys) = ys" "drop 8 (word_bytes x @ word_bytes y @ zs) = zs" for x y ys zs
    by (simp_all add: word_bytes_def)
  ultimately show ?thesis
    using assms by (simp add: bytes_header_def header_bytes_def sint_word_of_int32 header_ok_def)
qed

lemma take_wire:
  assumes "length hb = PacketHeaderSize" "length d \<le> MaxPacketSize"
  shows "take MaxWireSize (hb @ d @ pad) = hb @ d @ take (MaxPacketSize - length d) pad"
proof -
  have "MaxWireSize - (length hb + length d) = MaxPacketSize - length d"
    "length hb + length d \<le> MaxWireSize"
    using assms by (simp_all add: MaxPacketSize_def MaxWireSize_def PacketHeaderSize_def)
  then show ?thesis by simp
qed

lemma packet_arrives:
  fixes s :: "'y dsys" and r :: "'z dsys"
  assumes "Send pad this hdr data s = Inr s'" "header_ok hdr" "length pad = MaxWireSize"
    and "net_sent (network s') = net_sent (network s) @ [(dest, buf)]"
    and "ident (network r) = dest" "pkt_length (inHdr (network r)) = 0"
    and "net_polls (network r) = Some buf # polls"
  shows "length buf = MaxWireSize" "\<exists>r0. CheckPktAvail notify this' r = notify NetReadAvail r0 \<and> inHdr (network r0) = hdr
    \<and> take (pkt_length hdr) (inbox (network r0)) = take (pkt_length hdr) data
    \<and> numPacketsRecvd (stats r0) = numPacketsRecvd (stats r) + 1 \<and> device_sys.more r0 = device_sys.more r"
proof -
  have a: "pkt_length hdr > 0" "pkt_length hdr \<le> MaxPacketSize" "pkt_length hdr \<le> length data"
    "dest = pkt_to hdr" "buf = take MaxWireSize (header_bytes hdr @ take (pkt_length hdr) data @ pad)"
    using assms(1,4)
    by (auto simp: Send_def rbind_eq_Inr Let_def Random_def Schedule_def split: if_splits)
  have hl: "length (header_bytes hdr) = PacketHeaderSize"
    by (simp add: header_bytes_def PacketHeaderSize_def)
  have b: "buf = header_bytes hdr @ take (pkt_length hdr) data @ take (MaxPacketSize - pkt_length hdr) pad"
    using take_wire [OF hl, of "take (pkt_length hdr) data" pad] a by (simp add: min_absorb2)
  then have h: "bytes_header buf = hdr" using bytes_header_bytes [OF assms(2)] by simp
  show "length buf = MaxWireSize"
    using b hl a assms(3) by (simp add: MaxPacketSize_def MaxWireSize_def PacketHeaderSize_def)
  have "take (pkt_length hdr) (drop PacketHeaderSize buf) = take (pkt_length hdr) data"
    using b hl a by (simp add: min_absorb2)
  then show "\<exists>r0. CheckPktAvail notify this' r = notify NetReadAvail r0 \<and> inHdr (network r0) = hdr
    \<and> take (pkt_length hdr) (inbox (network r0)) = take (pkt_length hdr) data
    \<and> numPacketsRecvd (stats r0) = numPacketsRecvd (stats r) + 1 \<and> device_sys.more r0 = device_sys.more r"
    using assms(5-7) a(1-4) h
    by (simp add: CheckPktAvail_def Schedule_ok tick_defs Let_def min_absorb2)
       (rule exI, rule conjI, rule refl, simp add: min_absorb2)
qed

text \<open>
  A packet arrives as it was sent. When a packet that is not dropped is put on the wire and the
  machine it is addressed to polls its socket with an empty buffer, the kernel is told, and
  \<^verbatim>\<open>Receive\<close> returns the header and the data of the sender, whatever filled the rest of the wire
  buffer.
\<close>

theorem packet_round_trip:
  fixes s r :: "'z dsys"
  assumes "Send pad this hdr data s = Inr s'" "header_ok hdr" "length pad = MaxWireSize"
    and "net_sent (network s') = net_sent (network s) @ [(dest, buf)]"
    and "ident (network r) = dest" "pkt_length (inHdr (network r)) = 0"
    and "net_polls (network r) = Some buf # polls"
  shows "length buf = MaxWireSize \<and> (\<exists>r'. CheckPktAvail (\<lambda>e x. Inr x) this' r = Inr r' \<and>
    fst (Receive r') = (hdr, take (pkt_length hdr) data) \<and>
    numPacketsRecvd (stats r') = numPacketsRecvd (stats r) + 1)"
  using packet_arrives(1) [OF assms] packet_arrives(2) [OF assms, of "\<lambda>e x. Inr x" this'] by (auto simp: Receive_def Let_def)

theorem packet_round_trip_witness:
  "\<exists>s' r'. Send (replicate 64 9) 0 \<lparr>pkt_to = 0, pkt_from = 0, pkt_length = 2\<rparr> [5, 6]
      (devices_off (\<lambda>_. 0) (\<lambda>_. [])) = Inr s' \<and>
    CheckPktAvail (\<lambda>e x. Inr x) 0 ((devices_off (\<lambda>_. 0) (\<lambda>_. []))\<lparr>network := (network (devices_off (\<lambda>_. 0) (\<lambda>_. [])))
       \<lparr>net_polls := [Some (snd (last (net_sent (network s'))))]\<rparr>\<rparr>) = Inr r' \<and>
    fst (Receive r') = (\<lparr>pkt_to = 0, pkt_from = 0, pkt_length = 2\<rparr>, [5, 6])"
proof -
  let ?s = "devices_off (\<lambda>_. 0) (\<lambda>_. [])" and ?h = "\<lparr>pkt_to = 0, pkt_from = 0, pkt_length = 2\<rparr>"
  have h: "header_ok ?h" by (simp add: header_ok_def MaxPacketSize_def MaxWireSize_def PacketHeaderSize_def)
  have "\<exists>s' buf. Send (replicate 64 9) 0 ?h [5, 6] ?s = Inr s' \<and>
      net_sent (network s') = net_sent (network ?s) @ [(0, buf)] \<and> net_sent (network ?s) = []"
    by (simp add: Send_def devices_off_defs MaxPacketSize_def MaxWireSize_def PacketHeaderSize_def
        Schedule_ok tick_defs Random_def)
  then obtain s' buf where s': "Send (replicate 64 9) 0 ?h [5, 6] ?s = Inr s'"
    "net_sent (network s') = net_sent (network ?s) @ [(0, buf)]" "net_sent (network ?s) = []" by blast
  have "ident (network ?s) = 0" "pkt_length (inHdr (network ?s)) = 0" by (simp_all add: devices_off_defs)
  with packet_round_trip [OF s'(1) h _ s'(2), of "?s\<lparr>network := (network ?s)\<lparr>net_polls := [Some buf]\<rparr>\<rparr>" "[]" 0]
    s' show ?thesis by (auto simp: MaxWireSize_def)
qed

end
