(* ===== verification/Thread_System.thy ===== *)
theory Thread_System
  imports Devices
begin

text \<open>
  Threads and the scheduler: \<^verbatim>\<open>threads/thread.cc\<close>, \<^verbatim>\<open>threads/scheduler.cc\<close> and the semaphores of
  \<^verbatim>\<open>threads/synch.cc\<close>. A thread is named by the address of its object. Because a call of
  \<^verbatim>\<open>SWITCH\<close> returns in another thread, a routine that can switch is split there: what remains
  to be done when the thread runs again is pushed as a frame on the thread's kernel stack, and
  \<open>resume\<close> runs the top frame.
\<close>

section \<open>Data\<close>

datatype ThreadStatus = JUST_CREATED | RUNNING | READY | BLOCKED

text \<open>
  The frames: \<open>Start\<close> is the first frame of a forked thread (\<^verbatim>\<open>ThreadRoot\<close>), \<open>Run_ret\<close> the part
  of \<^verbatim>\<open>Scheduler::Run\<close> after \<^verbatim>\<open>SWITCH\<close>, \<open>Yield_ret\<close> the end of \<^verbatim>\<open>Yield\<close>, \<open>Tick_ret\<close> the end of
  \<^verbatim>\<open>OneTick\<close> after a time slice, \<open>Sleep_loop\<close> the loop of \<^verbatim>\<open>Sleep\<close>, \<open>P_retry\<close> the loop of
  \<^verbatim>\<open>Semaphore::P\<close>, \<open>Finish_ret\<close> the end of \<^verbatim>\<open>Finish\<close>, which the source notes is not reached,
  \<open>Restore_space\<close> the end of the system call \<^verbatim>\<open>Yield\<close>, \<open>User_ret\<close> the return from \<^verbatim>\<open>RaiseException\<close> to the
  loop of \<^verbatim>\<open>Machine::Run\<close> and \<open>Process_start\<close> the call of \<^verbatim>\<open>processCreator\<close>, with which a process begins.
\<close>

datatype frame = Start int | Run_ret | Yield_ret IntStatus | Tick_ret MachineStatus | Sleep_loop
  | P_retry nat IntStatus | Finish_ret | Restore_space | User_ret | Process_start

record Thread =
  tname :: string
  tstatus :: ThreadStatus
  tstack :: "word32 option"
  userRegisters :: "word32 list"
  parent :: "nat option"
  tID :: int
  isJoined :: bool
  killNewChild :: bool
  space :: "nat option"
  kstack :: "frame list"

record AddrSpace =
  as_pageTable :: "TranslationEntry list option"
  numPages :: nat
  swapFileName :: "byte list option"

record Semaphore =
  sem_value :: int
  sem_queue :: "nat nlist"

record thread_sys = device_sys +
  threads :: "nat \<Rightarrow> Thread option"
  spaces :: "nat \<Rightarrow> AddrSpace option"
  loaded :: "nat option"
  semaphores :: "nat \<Rightarrow> Semaphore option"
  event_sem :: "kernel_event \<Rightarrow> nat option"
  readyList :: "nat nlist"
  currentThread :: nat
  threadToBeDestroyed :: "nat option"
  activeThreads :: "nat option nlist"

type_synonym 'z ksys = "'z thread_sys_scheme"

definition STACK_FENCEPOST :: word32 where "STACK_FENCEPOST = 0xdeadbeef"

definition Thread_new :: "string \<Rightarrow> word32 list \<Rightarrow> Thread" where
  "Thread_new nm garbage = \<lparr>tname = nm, tstatus = JUST_CREATED, tstack = None,
     userRegisters = garbage, parent = None, tID = 0, isJoined = False, killNewChild = False,
     space = None, kstack = []\<rparr>"

section \<open>Field access through pointers\<close>

definition get_thread :: "nat \<Rightarrow> 'z ksys \<Rightarrow> Thread result" where
  "get_thread t s = (case threads s t of None \<Rightarrow> Inl Bad_Pointer | Some th \<Rightarrow> Inr th)"

definition upd_thread :: "nat \<Rightarrow> (Thread \<Rightarrow> Thread) \<Rightarrow> 'z ksys \<Rightarrow> 'z ksys result" where
  "upd_thread t f s = rbind (get_thread t s) (\<lambda>th. Inr (s\<lparr>threads := (threads s)(t \<mapsto> f th)\<rparr>))"

definition setStatus :: "nat \<Rightarrow> ThreadStatus \<Rightarrow> 'z ksys \<Rightarrow> 'z ksys result" where
  "setStatus t st s = upd_thread t (\<lambda>th. th\<lparr>tstatus := st\<rparr>) s"

definition push_frame :: "nat \<Rightarrow> frame \<Rightarrow> 'z ksys \<Rightarrow> 'z ksys result" where
  "push_frame t fr s = upd_thread t (\<lambda>th. th\<lparr>kstack := fr # kstack th\<rparr>) s"

section \<open>Scheduler\<close>

definition ReadyToRun :: "nat \<Rightarrow> 'z ksys \<Rightarrow> 'z ksys result" where
  "ReadyToRun t s = rbind (setStatus t READY s) (\<lambda>s1.
     Inr (s1\<lparr>readyList := list_append t (readyList s1)\<rparr>))"

definition FindNextToRun :: "'z ksys \<Rightarrow> nat option \<times> 'z ksys" where
  "FindNextToRun s = (let (t, l) = list_remove (readyList s) in (t, s\<lparr>readyList := l\<rparr>))"

definition WakeUpFromJoin :: "nat \<Rightarrow> 'z ksys \<Rightarrow> 'z ksys result" where
  "WakeUpFromJoin t s = rbind (upd_thread t (\<lambda>th. th\<lparr>isJoined := False, tstatus := READY\<rparr>) s) (\<lambda>s1.
     Inr (s1\<lparr>readyList := list_prepend t (readyList s1)\<rparr>))"

definition the_machine :: "'z ksys \<Rightarrow> machine result" where
  "the_machine s = (case mach s of None \<Rightarrow> Inl Null_Deref | Some m \<Rightarrow> Inr m)"

definition SaveUserState :: "nat \<Rightarrow> 'z ksys \<Rightarrow> 'z ksys result" where
  "SaveUserState t s = rbind (the_machine s) (\<lambda>m.
     if length (registers m) < NumTotalRegs then Inl Bad_Index
     else upd_thread t (\<lambda>th. th\<lparr>userRegisters := take NumTotalRegs (registers m)\<rparr>) s)"

definition RestoreUserState :: "nat \<Rightarrow> 'z ksys \<Rightarrow> 'z ksys result" where
  "RestoreUserState t s = rbind (the_machine s) (\<lambda>m. rbind (get_thread t s) (\<lambda>th.
     if length (userRegisters th) < NumTotalRegs \<or> length (registers m) < NumTotalRegs
     then Inl Bad_Index
     else Inr (s\<lparr>mach := Some (m\<lparr>registers :=
       take NumTotalRegs (userRegisters th) @ drop NumTotalRegs (registers m)\<rparr>)\<rparr>)))"

text \<open>
  The page table of the machine is a pointer to the table of an address space, so the use and dirty
  bits the hardware sets are set in that table. In the model the machine holds a copy, \<open>loaded\<close> names the
  address space it belongs to, whose own copy is out of date meanwhile, and \<open>home\<close> copies it back;
  \<open>space_table\<close> is the table of an address space wherever it is. \<^verbatim>\<open>SaveState\<close> is empty in the source.
\<close>

definition get_space :: "nat \<Rightarrow> 'z ksys \<Rightarrow> AddrSpace result" where
  "get_space a s = (case spaces s a of None \<Rightarrow> Inl Bad_Pointer | Some sp \<Rightarrow> Inr sp)"

definition space_table :: "nat \<Rightarrow> 'z ksys \<Rightarrow> TranslationEntry list option" where
  "space_table a s = (case (loaded s, mach s) of (Some b, Some m) \<Rightarrow>
       if b = a then pageTable m else Option.bind (spaces s a) as_pageTable
     | _ \<Rightarrow> Option.bind (spaces s a) as_pageTable)"

definition home :: "'z ksys \<Rightarrow> 'z ksys" where
  "home s = (case (loaded s, mach s) of (Some b, Some m) \<Rightarrow>
       (case spaces s b of None \<Rightarrow> s | Some sp \<Rightarrow> s\<lparr>spaces := (spaces s)(b \<mapsto> sp\<lparr>as_pageTable := pageTable m\<rparr>)\<rparr>)
     | _ \<Rightarrow> s)"

definition SaveState :: "nat \<Rightarrow> 'z ksys \<Rightarrow> 'z ksys result" where
  "SaveState a s = Inr s"

definition RestoreState :: "nat \<Rightarrow> 'z ksys \<Rightarrow> 'z ksys result" where
  "RestoreState a s = (let s0 = home s in rbind (get_space a s0) (\<lambda>sp. rbind (the_machine s0) (\<lambda>m.
     Inr (s0\<lparr>mach := Some (m\<lparr>pageTable := as_pageTable sp, pageTableSize := of_nat (numPages sp)\<rparr>),
             loaded := Some a\<rparr>))))"

definition CheckOverflow :: "nat \<Rightarrow> 'z ksys \<Rightarrow> unit result" where
  "CheckOverflow t s = rbind (get_thread t s) (\<lambda>th.
     case tstack th of None \<Rightarrow> Inr () | Some w \<Rightarrow> ASSERT (w = STACK_FENCEPOST))"

text \<open>\<^verbatim>\<open>Run\<close> up to \<^verbatim>\<open>SWITCH\<close>, in the old thread, and from there on, in the thread that runs again.\<close>

definition Run_out :: "nat \<Rightarrow> 'z ksys \<Rightarrow> 'z ksys result" where
  "Run_out nextThread s = (let old = currentThread s in
     rbind (get_thread old s) (\<lambda>th.
     rbind (case space th of None \<Rightarrow> Inr s
              | Some a \<Rightarrow> rbind (SaveUserState old s) (SaveState a)) (\<lambda>s1.
     rbind (CheckOverflow old s1) (\<lambda>_.
     setStatus nextThread RUNNING (s1\<lparr>currentThread := nextThread\<rparr>)))))"

definition delete_thread :: "nat \<Rightarrow> 'z ksys \<Rightarrow> 'z ksys result" where
  "delete_thread t s = rbind (ASSERT (t \<noteq> currentThread s)) (\<lambda>_. rbind (get_thread t s) (\<lambda>_.
     Inr (s\<lparr>threads := (threads s)(t := None)\<rparr>)))"

definition destroy_finished :: "'z ksys \<Rightarrow> 'z ksys result" where
  "destroy_finished s = (case threadToBeDestroyed s of None \<Rightarrow> Inr s
     | Some d \<Rightarrow> rbind (delete_thread d s) (\<lambda>s1. Inr (s1\<lparr>threadToBeDestroyed := None\<rparr>)))"

definition Run_in :: "'z ksys \<Rightarrow> 'z ksys result" where
  "Run_in s = rbind (destroy_finished s) (\<lambda>s1. rbind (get_thread (currentThread s1) s1) (\<lambda>th.
     case space th of None \<Rightarrow> Inr s1
     | Some a \<Rightarrow> rbind (RestoreUserState (currentThread s1) s1) (RestoreState a)))"

definition Run :: "nat \<Rightarrow> 'z ksys \<Rightarrow> 'z ksys result" where
  "Run nextThread s = rbind (push_frame (currentThread s) Run_ret s) (Run_out nextThread)"

section \<open>The part of V that an interrupt handler runs\<close>

text \<open>
  A device interrupt reaches \<^verbatim>\<open>Semaphore::V\<close> with interrupts off, where both of its calls of
  \<^verbatim>\<open>SetLevel\<close> leave them off: \<open>V_core\<close> is what lies between them. The value of a semaphore has no bound; the
  \<^verbatim>\<open>int\<close> of the source overflows after two to the 31st calls of \<^verbatim>\<open>V\<close> that no \<^verbatim>\<open>P\<close> answers.
\<close>

definition get_sem :: "nat \<Rightarrow> 'z ksys \<Rightarrow> Semaphore result" where
  "get_sem x s = (case semaphores s x of None \<Rightarrow> Inl Bad_Pointer | Some sm \<Rightarrow> Inr sm)"

definition put_sem :: "nat \<Rightarrow> Semaphore \<Rightarrow> 'z ksys \<Rightarrow> 'z ksys" where
  "put_sem x sm s = s\<lparr>semaphores := (semaphores s)(x \<mapsto> sm)\<rparr>"

definition Semaphore_new :: "int \<Rightarrow> Semaphore" where
  "Semaphore_new v = \<lparr>sem_value = v, sem_queue = list_new\<rparr>"

definition V_core :: "nat \<Rightarrow> 'z ksys \<Rightarrow> 'z ksys result" where
  "V_core x s = rbind (get_sem x s) (\<lambda>sm. let (t, q) = list_remove (sem_queue sm) in
     rbind (case t of None \<Rightarrow> Inr s | Some th \<Rightarrow> ReadyToRun th s) (\<lambda>s1.
     Inr (put_sem x (sm\<lparr>sem_queue := q, sem_value := sem_value sm + 1\<rparr>) s1)))"

definition kernel_notify :: "kernel_event \<Rightarrow> 'z ksys \<Rightarrow> 'z ksys result" where
  "kernel_notify e s = (case event_sem s e of None \<Rightarrow> Inr s | Some x \<Rightarrow> V_core x s)"

abbreviation kernel_call :: "device_handler \<Rightarrow> int \<Rightarrow> 'z ksys \<Rightarrow> 'z ksys result" where
  "kernel_call \<equiv> device_call kernel_notify"

section \<open>Thread operations\<close>

definition Yield :: "nat \<Rightarrow> 'z ksys \<Rightarrow> 'z ksys result" where
  "Yield this s = rbind (SetLevel kernel_call IntOff s) (\<lambda>(oldLevel, _, s1).
     rbind (ASSERT (this = currentThread s1)) (\<lambda>_.
     rbind (push_frame this (Yield_ret oldLevel) s1) (\<lambda>s2.
     case FindNextToRun s2 of
       (None, s3) \<Rightarrow> Inr s3
     | (Some nextThread, s3) \<Rightarrow> rbind (ReadyToRun this s3) (Run nextThread))))"

text \<open>
  The end of \<^verbatim>\<open>OneTick\<close>: when the timer has asked for a time slice, the current thread yields
  in kernel mode. \<open>tick\<close> is \<^verbatim>\<open>OneTick\<close> as the user-mode loop calls it and \<open>set_level\<close> is \<^verbatim>\<open>SetLevel\<close> as a
  thread calls it.
\<close>

definition time_slice :: "bool \<Rightarrow> 'z ksys \<Rightarrow> 'z ksys result" where
  "time_slice wants_yield s = (if wants_yield
     then let c = currentThread s in
       rbind (push_frame c (Tick_ret (status s)) s) (\<lambda>s1. Yield c (s1\<lparr>status := SystemMode\<rparr>))
     else Inr s)"

definition tick :: "'z ksys \<Rightarrow> 'z ksys result" where
  "tick s = rbind (OneTick kernel_call s) (\<lambda>(wants_yield, s1). time_slice wants_yield s1)"

definition set_level :: "IntStatus \<Rightarrow> 'z ksys \<Rightarrow> 'z ksys result" where
  "set_level lv s = rbind (SetLevel kernel_call lv s) (\<lambda>(_, wants_yield, s1). time_slice wants_yield s1)"

text \<open>
  The procedure a thread is forked with is given by the frames it starts with: \<open>[Process_start]\<close> for
  \<^verbatim>\<open>processCreator\<close>, none for a kernel procedure, whose calls are steps of the system.
\<close>

definition StackAllocate :: "nat \<Rightarrow> frame list \<Rightarrow> int \<Rightarrow> 'z ksys \<Rightarrow> 'z ksys result" where
  "StackAllocate t func a s =
     upd_thread t (\<lambda>th. th\<lparr>tstack := Some STACK_FENCEPOST, kstack := Start a # func\<rparr>) s"

definition Fork :: "nat \<Rightarrow> frame list \<Rightarrow> int \<Rightarrow> 'z ksys \<Rightarrow> 'z ksys result" where
  "Fork t func a s = rbind (StackAllocate t func a s) (\<lambda>s1.
     rbind (SetLevel kernel_call IntOff s1) (\<lambda>(oldLevel, _, s2).
     rbind (ReadyToRun t s2) (\<lambda>s3. set_level oldLevel s3)))"

definition Sleep :: "nat \<Rightarrow> 'z ksys \<Rightarrow> 'z ksys result" where
  "Sleep this s = rbind (ASSERT (this = currentThread s)) (\<lambda>_. rbind (ASSERT (level s = IntOff)) (\<lambda>_.
     rbind (setStatus this BLOCKED s) (push_frame this Sleep_loop)))"

text \<open>One round of the loop of \<^verbatim>\<open>Sleep\<close>.\<close>

definition sleep_round :: "'z ksys \<Rightarrow> 'z ksys result" where
  "sleep_round s = (case FindNextToRun s of
     (None, s1) \<Rightarrow> rbind (Idle kernel_call s1) (\<lambda>(go, s2).
       if go then push_frame (currentThread s2) Sleep_loop s2 else Inl Halted)
   | (Some nextThread, s1) \<Rightarrow> Run nextThread s1)"

text \<open>
  The loop of \<^verbatim>\<open>Finish\<close> over the active threads: every round takes one off the front and puts it
  back at the end unless it is the current thread; the bound is the size counter of the list.
\<close>

function purge_active :: "int \<Rightarrow> nat \<Rightarrow> nat option nlist \<Rightarrow> nat option nlist" where
  "purge_active i c l = (if i < nsize l then
     let (r, l1) = list_remove l; tempThread = (case r of None \<Rightarrow> None | Some x \<Rightarrow> x) in
     purge_active (i + 1) c (if tempThread \<noteq> Some c then list_append tempThread l1 else l1)
     else l)"
  by pat_completeness auto
termination
  by (relation "measure (\<lambda>(i, c, l). nat (nsize l - i))")
     (auto simp: list_remove_def list_sorted_remove_def list_append_def split: list.splits)

definition Finish :: "nat \<Rightarrow> 'z ksys \<Rightarrow> 'z ksys result" where
  "Finish this s = rbind (SetLevel kernel_call IntOff s) (\<lambda>(_, _, s1).
     rbind (ASSERT (this = currentThread s1)) (\<lambda>_.
     rbind (get_thread this s1) (\<lambda>th.
     let s2 = s1\<lparr>threadToBeDestroyed := Some this\<rparr> in
     rbind (case parent th of None \<Rightarrow> Inr s2 | Some p \<Rightarrow> WakeUpFromJoin p s2) (\<lambda>s3.
     rbind (push_frame this Finish_ret (s3\<lparr>activeThreads := purge_active 0 this (activeThreads s3)\<rparr>))
       (Sleep this)))))"

section \<open>Semaphores\<close>

definition P_loop :: "nat \<Rightarrow> IntStatus \<Rightarrow> 'z ksys \<Rightarrow> 'z ksys result" where
  "P_loop x oldLevel s = rbind (get_sem x s) (\<lambda>sm.
     if sem_value sm = 0 then
       let c = currentThread s;
           s1 = put_sem x (sm\<lparr>sem_queue := list_append c (sem_queue sm)\<rparr>) s in
       rbind (push_frame c (P_retry x oldLevel) s1) (Sleep c)
     else set_level oldLevel (put_sem x (sm\<lparr>sem_value := sem_value sm - 1\<rparr>) s))"

definition P :: "nat \<Rightarrow> 'z ksys \<Rightarrow> 'z ksys result" where
  "P x s = rbind (SetLevel kernel_call IntOff s) (\<lambda>(oldLevel, _, s1). P_loop x oldLevel s1)"

definition V :: "nat \<Rightarrow> 'z ksys \<Rightarrow> 'z ksys result" where
  "V x s = rbind (SetLevel kernel_call IntOff s) (\<lambda>(oldLevel, _, s1).
     rbind (V_core x s1) (set_level oldLevel))"

section \<open>Processes\<close>

text \<open>
  \<^verbatim>\<open>getID\<close> of \<^verbatim>\<open>userprog/exception.cc\<close> takes every active thread off the list and puts it back; the
  last one with the wanted number is the result.
\<close>

fun find_id :: "nat \<Rightarrow> int \<Rightarrow> nat option \<Rightarrow> 'z ksys \<Rightarrow> (nat option \<times> 'z ksys) result" where
  "find_id 0 toGet found s = Inr (found, s)"
| "find_id (Suc n) toGet found s = (let (r, l) = list_remove (activeThreads s) in
     case r of Some (Some t) \<Rightarrow> rbind (get_thread t s) (\<lambda>th.
       find_id n toGet (if tID th = toGet then Some t else found)
         (s\<lparr>activeThreads := list_append (Some t) l\<rparr>))
     | _ \<Rightarrow> Inl Null_Deref)"

definition getID :: "int \<Rightarrow> 'z ksys \<Rightarrow> (nat option \<times> 'z ksys) result" where
  "getID toGet s = find_id (nat (nsize (activeThreads s))) toGet None s"

definition the_id :: "int \<Rightarrow> 'z ksys \<Rightarrow> (nat \<times> 'z ksys) result" where
  "the_id toGet s = rbind (getID toGet s) (\<lambda>(r, s1).
     case r of None \<Rightarrow> Inl Null_Deref | Some t \<Rightarrow> Inr (t, s1))"

text \<open>The system call \<^verbatim>\<open>Join\<close>: the caller sleeps until the thread it joins has finished.\<close>

definition SC_Join :: "int \<Rightarrow> 'z ksys \<Rightarrow> 'z ksys result" where
  "SC_Join arg1 s = (let c = currentThread s in
     if arg1 < 0 then Inr s
     else rbind (getID arg1 s) (\<lambda>(r, s1).
       case r of None \<Rightarrow> Inr s1
       | Some _ \<Rightarrow> rbind (get_thread c s1) (\<lambda>th.
           if isJoined th then Inr s1
           else rbind (the_id arg1 s1) (\<lambda>(_, s2). rbind (the_id arg1 s2) (\<lambda>(child, s3).
             rbind (upd_thread child (\<lambda>t. t\<lparr>parent := Some c\<rparr>) s3) (\<lambda>s4.
             rbind (upd_thread c (\<lambda>t. t\<lparr>isJoined := True\<rparr>) s4) (\<lambda>s5.
             rbind (SetLevel kernel_call IntOff s5) (\<lambda>(_, _, s6). Sleep c s6))))))))"

text \<open>The first steps of a process: its registers, its page table, and user mode, as \<^verbatim>\<open>Machine::Run\<close> enters it.\<close>

fun clear_registers :: "nat list \<Rightarrow> machine \<Rightarrow> machine result" where
  "clear_registers [] m = Inr m"
| "clear_registers (i # is) m = rbind (WriteRegister (int i) 0 m) (clear_registers is)"

definition InitRegisters :: "nat \<Rightarrow> 'z ksys \<Rightarrow> 'z ksys result" where
  "InitRegisters a s = rbind (the_machine s) (\<lambda>m. rbind (clear_registers [0..<NumTotalRegs] m) (\<lambda>m1.
     rbind (WriteRegister (int PCReg) 0 m1) (\<lambda>m2. rbind (WriteRegister (int NextPCReg) 4 m2) (\<lambda>m3.
     rbind (get_space a s) (\<lambda>sp.
     rbind (WriteRegister (int StackReg) (of_nat (numPages sp) * of_nat PageSize - 16) m3) (\<lambda>m4.
     Inr (s\<lparr>mach := Some m4\<rparr>)))))))"

definition processCreator :: "'z ksys \<Rightarrow> 'z ksys result" where
  "processCreator s = rbind (get_thread (currentThread s) s) (\<lambda>th.
     case space th of None \<Rightarrow> Inl Null_Deref
     | Some a \<Rightarrow> rbind (InitRegisters a s) (\<lambda>s1. rbind (RestoreState a s1) (\<lambda>s2.
         rbind (destroy_finished s2) (\<lambda>s3. Inr (s3\<lparr>status := UserMode\<rparr>)))))"

section \<open>Running the top frame\<close>

definition resume :: "'z ksys \<Rightarrow> 'z ksys result" where
  "resume s = (let c = currentThread s in rbind (get_thread c s) (\<lambda>th.
     case kstack th of [] \<Rightarrow> Inr s
     | fr # frs \<Rightarrow> rbind (upd_thread c (\<lambda>th. th\<lparr>kstack := frs\<rparr>) s) (\<lambda>s1.
         case fr of
           Start a \<Rightarrow> set_level IntOn s1
         | Run_ret \<Rightarrow> Run_in s1
         | Yield_ret old \<Rightarrow> set_level old s1
         | Tick_ret st \<Rightarrow> Inr (s1\<lparr>status := st\<rparr>)
         | Sleep_loop \<Rightarrow> sleep_round s1
         | P_retry x old \<Rightarrow> P_loop x old s1
         | Finish_ret \<Rightarrow> Inr s1
         | Restore_space \<Rightarrow> (case space th of None \<Rightarrow> Inl Null_Deref | Some a \<Rightarrow> RestoreState a s1)
         | User_ret \<Rightarrow> tick (s1\<lparr>status := UserMode\<rparr>)
         | Process_start \<Rightarrow> processCreator s1)))"

section \<open>The kernel keeps the contract of the devices\<close>

lemma upd_thread_Inr:
  "upd_thread t f s = Inr s' \<longleftrightarrow> (\<exists>th. threads s t = Some th \<and> s' = s\<lparr>threads := (threads s)(t \<mapsto> f th)\<rparr>)"
  by (auto simp: upd_thread_def get_thread_def rbind_def split: option.splits)

lemma get_thread_Inr [simp]: "get_thread t s = Inr th \<longleftrightarrow> threads s t = Some th"
  by (auto simp: get_thread_def split: option.splits)

lemma get_sem_Inr [simp]: "get_sem x s = Inr sm \<longleftrightarrow> semaphores s x = Some sm"
  by (auto simp: get_sem_def split: option.splits)

lemma ReadyToRun_Inr:
  "ReadyToRun t s = Inr s' \<longleftrightarrow> (\<exists>th. threads s t = Some th \<and>
     s' = s\<lparr>threads := (threads s)(t \<mapsto> th\<lparr>tstatus := READY\<rparr>), readyList := list_append t (readyList s)\<rparr>)"
  by (auto simp: ReadyToRun_def rbind_eq_Inr setStatus_def upd_thread_Inr)

lemma V_core_cases:
  assumes "V_core x s = Inr s'"
  obtains (none) sm where "semaphores s x = Some sm" "items (sem_queue sm) = []"
      "s' = put_sem x (sm\<lparr>sem_queue := list_tl (sem_queue sm), sem_value := sem_value sm + 1\<rparr>) s"
  | (wake) sm t q th where "semaphores s x = Some sm" "items (sem_queue sm) = t # q" "threads s t = Some th"
      "s' = put_sem x (sm\<lparr>sem_queue := list_tl (sem_queue sm), sem_value := sem_value sm + 1\<rparr>)
        (s\<lparr>threads := (threads s)(t \<mapsto> th\<lparr>tstatus := READY\<rparr>), readyList := list_append t (readyList s)\<rparr>)"
proof -
  obtain sm where sm: "semaphores s x = Some sm" using assms by (auto simp: V_core_def rbind_eq_Inr)
  show ?thesis
  proof (cases "items (sem_queue sm)")
    case Nil
    with assms sm show ?thesis by (intro none) (auto simp: V_core_def list_remove_alt get_sem_def)
  next
    case (Cons t q)
    with assms sm show ?thesis
      using wake by (auto simp: V_core_def list_remove_alt get_sem_def rbind_eq_Inr ReadyToRun_Inr)
  qed
qed

lemma kernel_notify_step: "kernel_notify e s = Inr s' \<Longrightarrow> handler_step s s'"
  by (auto simp: kernel_notify_def handler_step_refl put_sem_def handler_step_def pending_sorted_def
      split: option.splits elim!: V_core_cases)

lemma kernel_notify_fuel: "kernel_notify e s \<noteq> Inl Out_Of_Fuel"
  by (auto simp: kernel_notify_def V_core_def rbind_def ReadyToRun_def setStatus_def upd_thread_def
      get_thread_def get_sem_def Let_def split: option.splits sum.splits prod.splits)

interpretation kern: kernel_callbacks kernel_notify
  by unfold_locales (simp_all add: kernel_notify_step kernel_notify_fuel)

text \<open>
  C10: a clock tick. A tick outside the idle loop charges its cost to the counter of its mode and always comes to an end. It then serves every
  interrupt that is due, each once, in the order of the times, by calling the routine of its device with its argument in the kernel; none that
  lies in the future is lost, none that is due is left, and interrupts are on again. It fails only when a routine does. The clock stays the sum
  of idle, system and user time, and no counter overflows as long as the clock stays below two to the 31st.
\<close>

theorem one_tick_fires_due:
  fixes s :: "'z ksys"
  assumes "pending_sorted s" "status s \<noteq> IdleMode"
  shows "case OneTick kernel_call s of
      Inl e \<Rightarrow> e \<noteq> Out_Of_Fuel \<and> serving_fails kernel_call (charge_tick s) e
    | Inr (y, s') \<Rightarrow>
        (\<exists>xs s3. mset xs = filter_mset (\<lambda>x. fst x \<le> totalTicks (stats s')) (mset (elems (pending s))) \<and> sorted (map fst xs)
           \<and> serve kernel_call (map snd xs) (charge_tick s) = Inr s3 \<and> y = yieldOnReturn s3
           \<and> s' = s3\<lparr>pending := pending s', level := IntOn, yieldOnReturn := False\<rparr> \<and> mset (elems (pending s')) = mset (elems (pending s3)))
        \<and> totalTicks (stats s') = totalTicks (stats s) + (if status s = SystemMode then SystemTick else UserTick)
        \<and> systemTicks (stats s') = systemTicks (stats s) + (if status s = SystemMode then SystemTick else 0)
        \<and> userTicks (stats s') = userTicks (stats s) + (if status s = SystemMode then 0 else UserTick)
        \<and> idleTicks (stats s') = idleTicks (stats s)
        \<and> (counters_fit s \<and> totalTicks (stats s) + SystemTick < 2 ^ 31 \<longrightarrow> counters_fit s')
        \<and> level s' = IntOn \<and> status s' = status s \<and> \<not> yieldOnReturn s' \<and> pending_sorted s' \<and> (\<not> inHandler s \<longrightarrow> \<not> inHandler s')
        \<and> (\<forall>x \<in> set (elems (pending s')). fst x > totalTicks (stats s'))
        \<and> filter_mset (\<lambda>x. fst x > totalTicks (stats s')) (mset (elems (pending s))) \<subseteq># mset (elems (pending s'))"
proof (cases "OneTick kernel_call s")
  case (Inl e)
  then show ?thesis using kern.OneTick_serves [OF assms(1)] kern.OneTick_ok(1) [OF assms] by auto
next
  case (Inr r)
  obtain y s' where r: "r = (y, s')" by (cases r)
  note ok = kern.OneTick_ok(2) [OF assms Inr [unfolded r]]
  obtain s3 where s3: "all_served kernel_call (charge_tick s) s3" "y = yieldOnReturn s3" "s' = s3\<lparr>level := IntOn, yieldOnReturn := False\<rparr>"
    using kern.OneTick_serves [OF assms(1)] Inr r by auto
  have "clock (stats s') = clock (stats (charge_tick s))" using kern.all_served_clock [OF s3(1)] s3(3) by simp
  then have c: "totalTicks (stats s') = totalTicks (stats (charge_tick s))"
    "idleTicks (stats s') = idleTicks (stats s)"
    "systemTicks (stats s') = systemTicks (stats s) + (if status s = SystemMode then SystemTick else 0)"
    "userTicks (stats s') = userTicks (stats s) + (if status s = SystemMode then 0 else UserTick)"
    unfolding kern.clock_charge_tick by (simp_all add: clock_def charge_tick_def Let_def)
  have fit: "counters_fit s \<and> totalTicks (stats s) + SystemTick < 2 ^ 31 \<longrightarrow> counters_fit s'"
    using ok c by (auto simp: counters_fit_def tick_defs)
  obtain xs s4 where x: "due_now (charge_tick s) = mset xs" "sorted (map fst xs)" "serve kernel_call (map snd xs) (charge_tick s) = Inr s4"
    "s3 = s4\<lparr>pending := pending s3\<rparr>" "mset (elems (pending s3)) = mset (elems (pending s4))"
  proof -
    have "alone_in_idle (charge_tick s) rest \<Longrightarrow> rest = {#}" for rest using assms(2) by (auto simp: alone_in_idle_def charge_tick_def Let_def)
    then show ?thesis using s3(1) that unfolding all_served_def by (elim exE conjE) (metis add.right_neutral)
  qed
  have "mset xs = filter_mset (\<lambda>x. fst x \<le> totalTicks (stats s')) (mset (elems (pending s)))"
    using x(1) c(1) by (simp add: due_now_def charge_tick_def Let_def)
  moreover have "y = yieldOnReturn s4" "s' = s4\<lparr>pending := pending s', level := IntOn, yieldOnReturn := False\<rparr>" "pending s' = pending s3"
    using s3(2,3) arg_cong [OF x(4), of yieldOnReturn] arg_cong [OF x(4), of "\<lambda>s. s\<lparr>level := IntOn, yieldOnReturn := False\<rparr>"] by simp_all
  ultimately show ?thesis unfolding Inr r sum.case prod.case using x(2,3,5) ok c(2-4) fit by metis
qed

text \<open>
  C27: idling. When no thread is ready, the clock jumps to the first pending interrupt and the skipped time is charged as idle. The routine of that
  interrupt is called, and then those of all others that are due by then, but for a timer interrupt that is the last one pending; the kernel goes
  on in system mode with interrupts off. The machine halts exactly when nothing but the timer is pending. No counter overflows when the
  interrupt lies below two to the 31st.
\<close>

theorem idle_advances_clock:
  fixes s :: "'z ksys"
  assumes "pending_sorted s" "Idle kernel_call s = Inr (go, s')"
  shows "pending_sorted s' \<and> (time_ok s \<longrightarrow> time_ok s')
    \<and> (go \<longleftrightarrow> \<not> (elems (pending s) = [] \<or> (\<exists>t p. elems (pending s) = [(t, p)] \<and> int_type p = TimerInt)))
    \<and> (go \<longrightarrow> (\<exists>t p q s1 s2. elems (pending s) = (t, p) # q \<and> serve kernel_call [p] (idle_until t s) = Inr s1
           \<and> all_served kernel_call s1 s2 \<and> s' = s2\<lparr>yieldOnReturn := False, status := SystemMode\<rparr>
           \<and> totalTicks (stats s') = max (totalTicks (stats s)) t
           \<and> idleTicks (stats s') = idleTicks (stats s) + max 0 (t - totalTicks (stats s))
           \<and> systemTicks (stats s') = systemTicks (stats s) \<and> userTicks (stats s') = userTicks (stats s)
           \<and> (counters_fit s \<and> t < 2 ^ 31 \<longrightarrow> counters_fit s'))
         \<and> status s' = SystemMode \<and> level s' = IntOff)"
proof -
  note ok = kern.Idle_ok [OF assms]
  have "\<exists>t p q s1 s2. elems (pending s) = (t, p) # q \<and> serve kernel_call [p] (idle_until t s) = Inr s1
      \<and> all_served kernel_call s1 s2 \<and> s' = s2\<lparr>yieldOnReturn := False, status := SystemMode\<rparr>
      \<and> totalTicks (stats s') = max (totalTicks (stats s)) t \<and> idleTicks (stats s') = idleTicks (stats s) + max 0 (t - totalTicks (stats s))
      \<and> systemTicks (stats s') = systemTicks (stats s) \<and> userTicks (stats s') = userTicks (stats s)
      \<and> (counters_fit s \<and> t < 2 ^ 31 \<longrightarrow> counters_fit s')" if g: go
  proof -
    have r: "Idle kernel_call s = Inr (True, s')" using assms(2) g by simp
    obtain t p s1 s2 where i: "hd (elems (pending s)) = (t, p)" "serve kernel_call [p] (idle_until t s) = Inr s1"
      "all_served kernel_call s1 s2" "s' = s2\<lparr>yieldOnReturn := False, status := SystemMode\<rparr>"
      using kern.Idle_serves [OF assms(1) r] by (elim exE conjE) (rule that)
    have e: "elems (pending s) = (t, p) # tl (elems (pending s))" using ok g i(1) by (metis hd_Cons_tl)
    have "clock (stats s') = clock (stats (idle_until t s))"
      using kern.serve_clock [OF i(2)] kern.all_served_clock [OF i(3)] i(4) by simp
    then have c: "totalTicks (stats s') = max (totalTicks (stats s)) t" "idleTicks (stats s') = idleTicks (stats s) + max 0 (t - totalTicks (stats s))"
      "systemTicks (stats s') = systemTicks (stats s)" "userTicks (stats s') = userTicks (stats s)"
      by (simp_all add: clock_def idle_until_def)
    moreover have "counters_fit s \<and> t < 2 ^ 31 \<longrightarrow> counters_fit s'" using ok c by (auto simp: counters_fit_def)
    ultimately show ?thesis using e i(2-4) by blast
  qed
  then show ?thesis using ok by blast
qed

text \<open>The system as \<^verbatim>\<open>Initialize\<close> builds it, before it enables interrupts: the main thread runs.\<close>

definition kernel_boot :: "(nat \<Rightarrow> nat) \<Rightarrow> (nat \<Rightarrow> byte list) \<Rightarrow> thread_sys" where
  "kernel_boot rnd secs = device_sys.extend (devices_off rnd secs)
     \<lparr>threads = [0 \<mapsto> (Thread_new ''main'' [])\<lparr>tstatus := RUNNING\<rparr>], spaces = Map.empty,
      loaded = None, semaphores = Map.empty, event_sem = (\<lambda>_. None), readyList = list_new, currentThread = 0,
      threadToBeDestroyed = None, activeThreads = list_new\<rparr>"

lemmas kernel_boot_defs = kernel_boot_def device_sys.defs devices_off_defs Thread_new_def

text \<open>The console polled at time 100: a tick at 95 fires it and charges the system, and the next poll is for 205.\<close>

theorem one_tick_fires_due_witness:
  "\<exists>s1 s2. Console_new 0 (kernel_boot (\<lambda>_. 0) (\<lambda>_. [])) = Inr s1
     \<and> OneTick kernel_call (s1\<lparr>stats := (stats s1)\<lparr>totalTicks := 95, userTicks := 95\<rparr>\<rparr>) = Inr (False, s2)
     \<and> totalTicks (stats s2) = 105 \<and> systemTicks (stats s2) = 10 \<and> userTicks (stats s2) = 95 \<and> counters_fit s2 \<and> map fst (elems (pending s2)) = [205]"
proof -
  have "case Console_new 0 (kernel_boot (\<lambda>_. 0) (\<lambda>_. [])) of Inl e \<Rightarrow> False
    | Inr s1 \<Rightarrow> stats s1 = Statistics_new \<and> status s1 = SystemMode \<and> map fst (elems (pending s1)) = [100]
        \<and> (case OneTick kernel_call (s1\<lparr>stats := (stats s1)\<lparr>totalTicks := 95, userTicks := 95\<rparr>\<rparr>) of Inl e \<Rightarrow> False
           | Inr (y, s2) \<Rightarrow> \<not> y \<and> map fst (elems (pending s2)) = [205])" by code_simp
  then obtain s1 s2 where s1: "Console_new 0 (kernel_boot (\<lambda>_. 0) (\<lambda>_. [])) = Inr s1" "stats s1 = Statistics_new" "status s1 = SystemMode"
      "map fst (elems (pending s1)) = [100]"
    and s2: "OneTick kernel_call (s1\<lparr>stats := (stats s1)\<lparr>totalTicks := 95, userTicks := 95\<rparr>\<rparr>) = Inr (False, s2)" "map fst (elems (pending s2)) = [205]"
    by (auto split: sum.splits)
  let ?s1 = "s1\<lparr>stats := (stats s1)\<lparr>totalTicks := 95, userTicks := 95\<rparr>\<rparr>"
  have "pending_sorted ?s1" "status ?s1 \<noteq> IdleMode" using s1(3,4) by (simp_all add: pending_sorted_def)
  note t = one_tick_fires_due [OF this, unfolded s2(1) sum.case prod.case]
  have z: "totalTicks (stats ?s1) = 95" "systemTicks (stats ?s1) = 0" "userTicks (stats ?s1) = 95" "idleTicks (stats ?s1) = 0" "status ?s1 = SystemMode"
    using s1(2,3) by (simp_all add: Statistics_new_def)
  then have "counters_fit ?s1" by (simp add: counters_fit_def time_ok_def)
  then have "totalTicks (stats s2) = 105 \<and> systemTicks (stats s2) = 10 \<and> userTicks (stats s2) = 95 \<and> counters_fit s2"
    using t unfolding z by (simp add: tick_defs)
  with s1(1) s2 show ?thesis by (intro exI [of _ s1] exI [of _ s2]) simp
qed

theorem idle_advances_clock_witness:
  "\<exists>s1 s2. Console_new 0 (kernel_boot (\<lambda>_. 0) (\<lambda>_. [])) = Inr s1 \<and> Idle kernel_call s1 = Inr (True, s2)
     \<and> totalTicks (stats s2) = 100 \<and> status s2 = SystemMode"
proof -
  let ?s = "kernel_boot (\<lambda>_. 0) (\<lambda>_. [])"
  obtain s1 where s1: "Console_new 0 ?s = Inr s1" "level s1 = IntOff" "totalTicks (stats s1) = 0" "mach s1 = None"
    "elems (pending s1) = [(100, \<lparr>int_handler = ConsoleReadPoll, int_arg = 0, int_when = 100, int_type = ConsoleReadInt\<rparr>)]"
    "incoming (console s1) = EOF_char" "con_polls (console s1) = []"
    by (simp add: Console_new_def Schedule_ok tick_defs kernel_boot_defs list_sorted_insert_def list_new_def)
  have "\<exists>s2. Idle kernel_call s1 = Inr (True, s2)"
    using s1(2-) by (simp add: Idle_def CheckIfDue_def list_sorted_remove_def invoke_handler_def
      machine_DelayedLoad_def CheckCharAvail_def Schedule_ok tick_defs Let_def list_sorted_insert_def)
  then obtain s2 where s2: "Idle kernel_call s1 = Inr (True, s2)" by blast
  have "pending_sorted s1" using s1(5) by (simp add: pending_sorted_def)
  from idle_advances_clock [OF this s2] s1 s2 show ?thesis by auto
qed

end
