(* ===== verification/Sched_Inv.thy ===== *)
theory Sched_Inv
  imports Thread_System
begin

text \<open>
  The invariant of the scheduler. Its parts are stated on views of the state (status, kernel stack,
  parent, semaphore queue and value), each operation of \<open>Thread_System\<close> is shown to keep it, and
  the whole kernel is a step relation \<open>kstep\<close> whose reachable states satisfy it. Interrupts are dealt
  with once, through the locale \<open>kept_by_kernel\<close>.
\<close>


section \<open>Views of the thread state\<close>

definition st :: "'z ksys \<Rightarrow> nat \<Rightarrow> ThreadStatus option" where
  "st s t = map_option tstatus (threads s t)"

definition stk :: "'z ksys \<Rightarrow> nat \<Rightarrow> frame list" where
  "stk s t = (case threads s t of None \<Rightarrow> [] | Some th \<Rightarrow> kstack th)"

definition par :: "'z ksys \<Rightarrow> nat \<Rightarrow> nat option" where
  "par s t = (case threads s t of None \<Rightarrow> None | Some th \<Rightarrow> parent th)"

definition que :: "'z ksys \<Rightarrow> nat \<Rightarrow> nat list" where
  "que s x = (case semaphores s x of None \<Rightarrow> [] | Some sm \<Rightarrow> items (sem_queue sm))"

definition val :: "'z ksys \<Rightarrow> nat \<Rightarrow> int" where
  "val s x = (case semaphores s x of None \<Rightarrow> 0 | Some sm \<Rightarrow> sem_value sm)"

abbreviation ready :: "'z ksys \<Rightarrow> nat list" where "ready s \<equiv> items (readyList s)"

text \<open>A thread that has finished still has the end of \<^verbatim>\<open>Finish\<close> on its stack.\<close>

definition dead :: "(nat \<Rightarrow> frame list) \<Rightarrow> nat \<Rightarrow> bool" where
  "dead k t \<longleftrightarrow> Finish_ret \<in> set (k t)"

definition retrying :: "(nat \<Rightarrow> frame list) \<Rightarrow> nat \<Rightarrow> nat \<Rightarrow> bool" where
  "retrying k x t \<longleftrightarrow> (\<exists>lv. P_retry x lv \<in> set (k t))"

fun is_retry :: "frame \<Rightarrow> bool" where
  "is_retry (P_retry x lv) = True"
| "is_retry _ = False"

section \<open>The invariant\<close>

text \<open>The ready list holds each ready thread once.\<close>

definition ready_ok :: "(nat \<Rightarrow> ThreadStatus option) \<Rightarrow> nat list \<Rightarrow> bool" where
  "ready_ok S rdy \<longleftrightarrow> distinct rdy \<and> (\<forall>t. t \<in> set rdy \<longleftrightarrow> S t = Some READY)"

text \<open>
  The current thread is the only one that can be running; it is not while it waits in the loop of
  \<^verbatim>\<open>Sleep\<close> (\<open>asleep\<close>), where an interrupt may have made it ready.
\<close>

definition current_ok :: "bool \<Rightarrow> (nat \<Rightarrow> ThreadStatus option) \<Rightarrow> nat \<Rightarrow> bool" where
  "current_ok asleep S c \<longleftrightarrow> (if asleep then S c = Some BLOCKED \<or> S c = Some READY else S c = Some RUNNING)
     \<and> (\<forall>t. t \<noteq> c \<longrightarrow> S t \<noteq> Some RUNNING)"

definition frames_ok :: "ThreadStatus option \<Rightarrow> frame list \<Rightarrow> bool" where
  "frames_ok so ks \<longleftrightarrow> Sleep_loop \<notin> set ks \<and> length (filter is_retry ks) \<le> 1
     \<and> (Finish_ret \<in> set ks \<longrightarrow> so = Some BLOCKED) \<and> (so = None \<or> so = Some JUST_CREATED \<longrightarrow> ks = [])"

definition stacks_ok :: "(nat \<Rightarrow> ThreadStatus option) \<Rightarrow> (nat \<Rightarrow> frame list) \<Rightarrow> bool" where
  "stacks_ok S k \<longleftrightarrow> finite {t. S t \<noteq> None} \<and> (\<forall>t. frames_ok (S t) (k t))"

text \<open>
  A thread waits in at most one queue, once, and is blocked; it has the loop of \<^verbatim>\<open>P\<close> to finish and is
  not a finished thread. One that has left the queue with that loop still to do can run.
\<close>

definition queues_ok :: "(nat \<Rightarrow> ThreadStatus option) \<Rightarrow> (nat \<Rightarrow> frame list) \<Rightarrow> (nat \<Rightarrow> nat list) \<Rightarrow> bool" where
  "queues_ok S k q \<longleftrightarrow> (\<forall>x. distinct (q x))
     \<and> (\<forall>x. \<forall>t \<in> set (q x). S t = Some BLOCKED \<and> retrying k x t \<and> \<not> dead k t)
     \<and> (\<forall>x y t. t \<in> set (q x) \<and> t \<in> set (q y) \<longrightarrow> x = y)
     \<and> (\<forall>x t. retrying k x t \<and> t \<notin> set (q x) \<longrightarrow> S t = Some READY \<or> S t = Some RUNNING)"

text \<open>A parent that has joined a thread sleeps, in no queue, until that thread finishes.\<close>

definition joins_ok :: "(nat \<Rightarrow> ThreadStatus option) \<Rightarrow> (nat \<Rightarrow> frame list) \<Rightarrow> (nat \<Rightarrow> nat list)
    \<Rightarrow> (nat \<Rightarrow> nat option) \<Rightarrow> bool" where
  "joins_ok S k q pa \<longleftrightarrow>
     (\<forall>c p. pa c = Some p \<and> \<not> dead k c \<longrightarrow> S p = Some BLOCKED \<and> (\<forall>x. p \<notin> set (q x)) \<and> \<not> dead k p)
     \<and> (\<forall>c d p. pa c = Some p \<and> pa d = Some p \<and> \<not> dead k c \<and> \<not> dead k d \<longrightarrow> c = d)"

text \<open>
  No wake-up is lost: while threads wait on a semaphore, every unit of its value belongs to a
  thread that was woken and has yet to take it.
\<close>

definition sem_ok :: "(nat \<Rightarrow> frame list) \<Rightarrow> nat \<Rightarrow> nat list \<Rightarrow> int \<Rightarrow> bool" where
  "sem_ok k x ts v \<longleftrightarrow> 0 \<le> v \<and> (ts \<noteq> [] \<longrightarrow> v \<le> int (card {t. retrying k x t \<and> t \<notin> set ts}))"

definition wakeups_ok :: "(nat \<Rightarrow> frame list) \<Rightarrow> (nat \<Rightarrow> nat list) \<Rightarrow> (nat \<Rightarrow> int) \<Rightarrow> bool" where
  "wakeups_ok k q v \<longleftrightarrow> (\<forall>x. sem_ok k x (q x) (v x))"

definition active_ok :: "(nat \<Rightarrow> ThreadStatus option) \<Rightarrow> (nat \<Rightarrow> frame list) \<Rightarrow> nat option nlist \<Rightarrow> bool" where
  "active_ok S k act \<longleftrightarrow> nsize act = int (length (items act)) \<and> distinct (items act)
     \<and> (\<forall>r \<in> set (items act). \<exists>t. r = Some t \<and> S t \<noteq> None \<and> \<not> dead k t)"

definition doomed_ok :: "(nat \<Rightarrow> ThreadStatus option) \<Rightarrow> (nat \<Rightarrow> frame list) \<Rightarrow> nat option \<Rightarrow> bool" where
  "doomed_ok S k d \<longleftrightarrow> (\<forall>t. d = Some t \<longrightarrow> S t = Some BLOCKED \<and> dead k t)"

definition sched :: "bool \<Rightarrow> 'z ksys \<Rightarrow> bool" where
  "sched asleep s \<longleftrightarrow> ready_ok (st s) (ready s) \<and> current_ok asleep (st s) (currentThread s)
     \<and> stacks_ok (st s) (stk s) \<and> queues_ok (st s) (stk s) (que s)
     \<and> joins_ok (st s) (stk s) (que s) (par s) \<and> wakeups_ok (stk s) (que s) (val s)
     \<and> active_ok (st s) (stk s) (activeThreads s) \<and> doomed_ok (st s) (stk s) (threadToBeDestroyed s)"

lemmas sched_defs = ready_ok_def current_ok_def stacks_ok_def queues_ok_def joins_ok_def
  wakeups_ok_def active_ok_def doomed_ok_def

lemma schedD:
  assumes "sched a s"
  shows "ready_ok (st s) (ready s)" "current_ok a (st s) (currentThread s)"
    "stacks_ok (st s) (stk s)" "queues_ok (st s) (stk s) (que s)"
    "joins_ok (st s) (stk s) (que s) (par s)" "wakeups_ok (stk s) (que s) (val s)"
    "active_ok (st s) (stk s) (activeThreads s)" "doomed_ok (st s) (stk s) (threadToBeDestroyed s)"
  using assms by (simp_all add: sched_def)

named_theorems view_simps \<open>how the views change with the state\<close>

lemma view_upd [view_simps]:
  "st (r\<lparr>threads := (threads s)(t \<mapsto> th)\<rparr>) = (st s)(t \<mapsto> tstatus th)"
  "stk (r\<lparr>threads := (threads s)(t \<mapsto> th)\<rparr>) = (stk s)(t := kstack th)"
  "par (r\<lparr>threads := (threads s)(t \<mapsto> th)\<rparr>) = (par s)(t := parent th)"
  "que (s\<lparr>threads := T\<rparr>) = que s" "val (s\<lparr>threads := T\<rparr>) = val s"
  by (auto simp: st_def stk_def par_def que_def val_def)

lemma view_sem [view_simps]:
  "que (put_sem x sm s) = (que s)(x := items (sem_queue sm))"
  "val (put_sem x sm s) = (val s)(x := sem_value sm)"
  "st (put_sem x sm s) = st s" "stk (put_sem x sm s) = stk s" "par (put_sem x sm s) = par s"
  "readyList (put_sem x sm s) = readyList s" "currentThread (put_sem x sm s) = currentThread s"
  "activeThreads (put_sem x sm s) = activeThreads s"
  "threadToBeDestroyed (put_sem x sm s) = threadToBeDestroyed s" "threads (put_sem x sm s) = threads s"
  by (auto simp: st_def stk_def par_def que_def val_def put_sem_def)

lemma view_cong:
  assumes "threads s' = threads s" "semaphores s' = semaphores s"
  shows "st s' = st s" "stk s' = stk s" "par s' = par s" "que s' = que s" "val s' = val s"
  using assms by (auto simp: st_def stk_def par_def que_def val_def)

lemma view_other [view_simps]:
  "st (s\<lparr>level := lv\<rparr>) = st s" "stk (s\<lparr>level := lv\<rparr>) = stk s" "par (s\<lparr>level := lv\<rparr>) = par s"
  "que (s\<lparr>level := lv\<rparr>) = que s" "val (s\<lparr>level := lv\<rparr>) = val s"
  "st (s\<lparr>readyList := r\<rparr>) = st s" "stk (s\<lparr>readyList := r\<rparr>) = stk s" "par (s\<lparr>readyList := r\<rparr>) = par s"
  "que (s\<lparr>readyList := r\<rparr>) = que s" "val (s\<lparr>readyList := r\<rparr>) = val s"
  "st (s\<lparr>currentThread := c\<rparr>) = st s" "stk (s\<lparr>currentThread := c\<rparr>) = stk s" "par (s\<lparr>currentThread := c\<rparr>) = par s"
  "que (s\<lparr>currentThread := c\<rparr>) = que s" "val (s\<lparr>currentThread := c\<rparr>) = val s"
  "st (s\<lparr>spaces := A\<rparr>) = st s" "stk (s\<lparr>spaces := A\<rparr>) = stk s" "par (s\<lparr>spaces := A\<rparr>) = par s"
  "que (s\<lparr>spaces := A\<rparr>) = que s" "val (s\<lparr>spaces := A\<rparr>) = val s"
  "st (s\<lparr>threadToBeDestroyed := d\<rparr>) = st s" "stk (s\<lparr>threadToBeDestroyed := d\<rparr>) = stk s"
  "par (s\<lparr>threadToBeDestroyed := d\<rparr>) = par s" "que (s\<lparr>threadToBeDestroyed := d\<rparr>) = que s"
  "val (s\<lparr>threadToBeDestroyed := d\<rparr>) = val s"
  "st (s\<lparr>activeThreads := v\<rparr>) = st s" "stk (s\<lparr>activeThreads := v\<rparr>) = stk s"
  "par (s\<lparr>activeThreads := v\<rparr>) = par s" "que (s\<lparr>activeThreads := v\<rparr>) = que s" "val (s\<lparr>activeThreads := v\<rparr>) = val s"
  by (rule view_cong, simp, simp)+

lemma view_thread:
  assumes "threads s t = Some th"
  shows "st s t = Some (tstatus th)" "stk s t = kstack th" "par s t = parent th"
  using assms by (simp_all add: st_def stk_def par_def)

lemma view_sem_at:
  assumes "semaphores s x = Some sm"
  shows "que s x = items (sem_queue sm)" "val s x = sem_value sm"
  using assms by (simp_all add: que_def val_def)

section \<open>Interrupts keep the invariant\<close>

lemma retrying_finite:
  assumes "stacks_ok S k"
  shows "finite {t. retrying k x t \<and> Q t}"
proof (rule finite_subset)
  show "{t. retrying k x t \<and> Q t} \<subseteq> {t. S t \<noteq> None}"
  proof
    fix t assume "t \<in> {t. retrying k x t \<and> Q t}"
    then have "k t \<noteq> []" by (auto simp: retrying_def)
    moreover have "frames_ok (S t) (k t)" using assms by (simp add: stacks_ok_def)
    ultimately have "S t \<noteq> None" by (intro notI) (simp add: frames_ok_def)
    then show "t \<in> {t. S t \<noteq> None}" by simp
  qed
  show "finite {t. S t \<noteq> None}" using assms by (simp add: stacks_ok_def)
qed

lemma finite_upd: "finite {t. S t \<noteq> None} \<Longrightarrow> finite {t. (S(u := r)) t \<noteq> None}"
  by (rule finite_subset [of _ "insert u {t. S t \<noteq> None}"]) auto

lemma stacks_okD: "stacks_ok S k \<Longrightarrow> frames_ok (S t) (k t)"
  by (simp add: stacks_ok_def)

lemma frames_okD:
  assumes "frames_ok so ks"
  shows "Sleep_loop \<notin> set ks" "Finish_ret \<in> set ks \<Longrightarrow> so = Some BLOCKED" "length (filter is_retry ks) \<le> 1"
    "so = None \<Longrightarrow> ks = []" "so = Some JUST_CREATED \<Longrightarrow> ks = []"
  using assms unfolding frames_ok_def by metis+

lemma stacks_ok_upd:
  assumes "stacks_ok S k" "frames_ok so ks"
  shows "stacks_ok (S(t := so)) (k(t := ks))"
  using assms finite_upd [of S t so] by (simp add: stacks_ok_def)

lemma stacks_ok_status: "stacks_ok S k \<Longrightarrow> frames_ok so (k t) \<Longrightarrow> stacks_ok (S(t := so)) k"
  using stacks_ok_upd [of S k so "k t" t] by simp

lemma queue_headD:
  assumes "queues_ok S k q" "q x = t # qs"
  shows "S t = Some BLOCKED" "retrying k x t" "\<not> dead k t" "t \<notin> set qs" "distinct qs"
proof -
  have "t \<in> set (q x)" "distinct (q x)" using assms(1) by (simp add: assms(2), unfold queues_ok_def, blast)
  then show "S t = Some BLOCKED" "retrying k x t" "\<not> dead k t" "t \<notin> set qs" "distinct qs"
    using assms(1) unfolding queues_ok_def by (blast, blast, blast, simp_all add: assms(2))
qed

lemma queues_okD:
  assumes "queues_ok S k q"
  shows "distinct (q x)" "t \<in> set (q x) \<Longrightarrow> S t = Some BLOCKED" "t \<in> set (q x) \<Longrightarrow> retrying k x t"
    "t \<in> set (q x) \<Longrightarrow> \<not> dead k t" "t \<in> set (q x) \<Longrightarrow> t \<in> set (q y) \<Longrightarrow> x = y"
    "retrying k x t \<Longrightarrow> t \<notin> set (q x) \<Longrightarrow> S t = Some READY \<or> S t = Some RUNNING"
  using assms unfolding queues_ok_def by blast+

lemma queues_ok_sub:
  assumes "queues_ok S k q" "\<And>y. distinct (q' y)"
    "\<And>y u. u \<in> set (q' y) \<Longrightarrow> u \<in> set (q y) \<and> S' u = S u \<and> (retrying k y u \<longrightarrow> retrying k' y u) \<and> (dead k' u \<longrightarrow> dead k u)"
    "\<And>y u. retrying k' y u \<Longrightarrow> u \<notin> set (q' y) \<Longrightarrow> S' u = Some READY \<or> S' u = Some RUNNING"
  shows "queues_ok S' k' q'"
  unfolding queues_ok_def
proof (intro conjI allI ballI impI)
  note o = queues_okD [OF assms(1)]
  fix x t assume "t \<in> set (q' x)"
  with assms(3) [OF this] o(2-4) [of t x]
  show "S' t = Some BLOCKED" "retrying k' x t" "\<not> dead k' t" by auto
next
  fix x y t assume "t \<in> set (q' x) \<and> t \<in> set (q' y)"
  with assms(3) [of t x] assms(3) [of t y] queues_okD(5) [OF assms(1), of t x y] show "x = y" by blast
qed (use assms(2,4) in auto)

lemma joins_okD:
  assumes "joins_ok S k q pa" "pa c = Some p" "\<not> dead k c"
  shows "S p = Some BLOCKED" "p \<notin> set (q x)" "\<not> dead k p" "pa d = Some p \<Longrightarrow> \<not> dead k d \<Longrightarrow> c = d"
  using assms unfolding joins_ok_def by blast+

lemma joins_ok_sub:
  assumes "joins_ok S k q pa" "\<And>c p. pa' c = Some p \<Longrightarrow> \<not> dead k' c \<Longrightarrow> pa c = Some p \<and> \<not> dead k c"
    "\<And>c p x. pa' c = Some p \<Longrightarrow> \<not> dead k' c \<Longrightarrow> S' p = S p \<and> (p \<in> set (q' x) \<longrightarrow> p \<in> set (q x)) \<and> (dead k' p \<longrightarrow> dead k p)"
  shows "joins_ok S' k' q' pa'"
  unfolding joins_ok_def using assms(2,3) joins_okD [OF assms(1)] by (metis (no_types, lifting))

lemma wakeups_okD: "wakeups_ok k q v \<Longrightarrow> q x = ts \<Longrightarrow> sem_ok k x ts (v x)"
  by (auto simp: wakeups_ok_def)

lemma wakeups_ok_upd:
  "wakeups_ok k q v \<Longrightarrow> sem_ok k x ts w \<Longrightarrow> wakeups_ok k (q(x := ts)) (v(x := w))"
  by (simp add: wakeups_ok_def)

lemma sem_ok_wake:
  assumes "sem_ok k x (t # qs) v" "retrying k x t" "t \<notin> set qs" "stacks_ok S k"
  shows "sem_ok k x qs (v + 1)"
proof -
  have "{u. retrying k x u \<and> u \<notin> set qs} = insert t {u. retrying k x u \<and> u \<notin> set (t # qs)}"
    using assms(2,3) by auto
  then have "card {u. retrying k x u \<and> u \<notin> set qs} = Suc (card {u. retrying k x u \<and> u \<notin> set (t # qs)})"
    using retrying_finite [OF assms(4)] by simp
  with assms(1) show ?thesis by (simp add: sem_ok_def)
qed

lemma sched_put_sem:
  assumes "sched a s" "semaphores s x = Some sm" "items (sem_queue sm') = items (sem_queue sm)"
    "0 \<le> sem_value sm'" "items (sem_queue sm) = [] \<or> sem_value sm' \<le> sem_value sm"
  shows "sched a (put_sem x sm' s)"
proof -
  note v = view_sem_at [OF assms(2)]
  have q: "(que s)(x := items (sem_queue sm')) = que s"
    using assms(3) v by auto
  have "sem_ok (stk s) x (que s x) (val s x)" using schedD(6) [OF assms(1)] by (simp add: wakeups_ok_def)
  then have "sem_ok (stk s) x (items (sem_queue sm')) (sem_value sm')"
    using assms(3-5) v by (auto simp: sem_ok_def)
  from wakeups_ok_upd [OF schedD(6) [OF assms(1)] this] show ?thesis
    using assms(1) by (simp add: sched_def view_simps q)
qed

lemma sched_wake:
  assumes "sched a s" "semaphores s x = Some sm" "items (sem_queue sm) = t # qs" "threads s t = Some th"
    "items q' = qs"
  shows "sched a (put_sem x (sm\<lparr>sem_queue := q', sem_value := sem_value sm + 1\<rparr>)
    (s\<lparr>threads := (threads s)(t \<mapsto> th\<lparr>tstatus := READY\<rparr>), readyList := list_append t (readyList s)\<rparr>))"
proof -
  note d = schedD [OF assms(1)]
  have q: "que s x = t # qs" and v: "val s x = sem_value sm"
    using view_sem_at [OF assms(2)] assms(3) by simp_all
  note b = queue_headD [OF d(4) q]
  have k: "(stk s)(t := kstack th) = stk s" "(par s)(t := parent th) = par s" using view_thread [OF assms(4)] by auto
  let ?S = "(st s)(t \<mapsto> READY)" and ?q = "(que s)(x := qs)"
  have np: "p \<noteq> t" if "par s c = Some p" "\<not> dead (stk s) c" for c p
    using joins_okD(2) [OF d(5) that, of x] q by auto
  have "ready_ok ?S (ready s @ [t])" using d(1) b by (auto simp: ready_ok_def)
  moreover have "current_ok a ?S (currentThread s)" using d(2) b by (auto simp: current_ok_def split: if_splits)
  moreover have "stacks_ok ?S (stk s)" 
    using stacks_okD [OF d(3), of t] b(1,3) by (intro stacks_ok_status [OF d(3)]) (simp add: frames_ok_def dead_def)
  moreover have "queues_ok ?S (stk s) ?q" 
    using queues_okD(1,5,6) [OF d(4)] q b by (intro queues_ok_sub [OF d(4)]) (auto split: if_splits)
  moreover have "joins_ok ?S (stk s) ?q (par s)" 
    by (rule joins_ok_sub [OF d(5)]) (auto simp: q dest: np split: if_splits)
  moreover have "wakeups_ok (stk s) ?q ((val s)(x := val s x + 1))"
    by (rule wakeups_ok_upd [OF d(6) sem_ok_wake [OF wakeups_okD [OF d(6) q] b(2,4) d(3)]])
  moreover have "active_ok ?S (stk s) (activeThreads s)" using d(7) by (fastforce simp: active_ok_def)
  moreover have "doomed_ok ?S (stk s) (threadToBeDestroyed s)" using d(8) b by (auto simp: doomed_ok_def)
  ultimately show ?thesis using v assms(5) by (simp add: sched_def view_simps k)
qed

lemma sched_V_core: "sched a s \<Longrightarrow> V_core x s = Inr s' \<Longrightarrow> sched a s'"
proof (erule V_core_cases)
  fix sm assume a: "sched a s" "semaphores s x = Some sm" "items (sem_queue sm) = []"
    "s' = put_sem x (sm\<lparr>sem_queue := list_tl (sem_queue sm), sem_value := sem_value sm + 1\<rparr>) s"
  have "sem_ok (stk s) x (que s x) (val s x)" using schedD(6) [OF a(1)] by (simp add: wakeups_ok_def)
  then have "0 \<le> sem_value sm" using view_sem_at [OF a(2)] by (simp add: sem_ok_def)
  with a show "sched a s'" by (simp add: sched_put_sem)
next
  fix sm t q th assume "sched a s" "semaphores s x = Some sm" "items (sem_queue sm) = t # q" "threads s t = Some th"
    "s' = put_sem x (sm\<lparr>sem_queue := list_tl (sem_queue sm), sem_value := sem_value sm + 1\<rparr>)
        (s\<lparr>threads := (threads s)(t \<mapsto> th\<lparr>tstatus := READY\<rparr>), readyList := list_append t (readyList s)\<rparr>)"
  then show "sched a s'" by (simp add: sched_wake)
qed

lemma sched_more:
  assumes "device_sys.more s' = device_sys.more s"
  shows "sched a s' = sched a s"
proof -
  have "s' = s\<lparr>level := level s', pending := pending s', inHandler := inHandler s', yieldOnReturn := yieldOnReturn s',
      status := status s', stats := stats s', mach := mach s', timer_randomize := timer_randomize s',
      random_values := random_values s', random_pos := random_pos s', disk := disk s', console := console s',
      network := network s'\<rparr>"
    by (rule device_sys.equality) (use assms in simp_all)
  note e = arg_cong [OF this]
  have f: "threads s' = threads s" "semaphores s' = semaphores s" "readyList s' = readyList s"
    "currentThread s' = currentThread s" "activeThreads s' = activeThreads s"
    "threadToBeDestroyed s' = threadToBeDestroyed s"
    using e [of threads] e [of semaphores] e [of readyList] e [of currentThread] e [of activeThreads]
      e [of threadToBeDestroyed] by simp_all
  show ?thesis by (simp only: sched_def view_cong [OF f(1,2)] f(3-))
qed

lemma DelayedLoad_more: "machine_DelayedLoad s = Inr s' \<Longrightarrow> device_sys.more s' = device_sys.more s"
  by (auto dest!: machine_DelayedLoad_step)

interpretation sched_kept: kept_by_kernel kernel_notify "sched a"
proof unfold_locales
  fix e and s s' :: "'b ksys"
  assume "sched a s" "kernel_notify e s = Inr s'"
  then show "sched a s'" by (auto simp: kernel_notify_def split: option.splits intro: sched_V_core)
next
  fix s s' :: "'b ksys"
  assume "sched a s" "machine_DelayedLoad s = Inr s'"
  then show "sched a s'" using sched_more [OF DelayedLoad_more] by blast
qed (rule sched_more)

section \<open>Steps of the scheduler\<close>

definition same_sched :: "'z ksys \<Rightarrow> 'z ksys \<Rightarrow> bool" where
  "same_sched s s' \<longleftrightarrow> st s' = st s \<and> stk s' = stk s \<and> par s' = par s \<and> que s' = que s \<and> val s' = val s
     \<and> readyList s' = readyList s \<and> currentThread s' = currentThread s
     \<and> activeThreads s' = activeThreads s \<and> threadToBeDestroyed s' = threadToBeDestroyed s"

lemma sched_same: "same_sched s s' \<Longrightarrow> sched a s' = sched a s"
  by (simp add: same_sched_def sched_def)

lemma same_sched_trans: "same_sched s s1 \<Longrightarrow> same_sched s1 s2 \<Longrightarrow> same_sched s s2"
  by (simp add: same_sched_def)

lemma same_sched_refl [simp]: "same_sched s s"
  by (simp add: same_sched_def)

lemma same_thread:
  assumes "threads s t = Some th" "tstatus th' = tstatus th" "kstack th' = kstack th" "parent th' = parent th"
  shows "same_sched s (s\<lparr>threads := (threads s)(t \<mapsto> th')\<rparr>)"
  using view_thread [OF assms(1)] assms(2-) by (auto simp: same_sched_def view_simps)

lemma same_views:
  assumes "threads s' = threads s" "semaphores s' = semaphores s" "readyList s' = readyList s"
    "currentThread s' = currentThread s" "activeThreads s' = activeThreads s"
    "threadToBeDestroyed s' = threadToBeDestroyed s"
  shows "same_sched s s'"
  unfolding same_sched_def using view_cong [OF assms(1,2)] assms(3-) by blast

lemma SaveUserState_same: "SaveUserState t s = Inr s' \<Longrightarrow> same_sched s s'"
  by (auto simp: SaveUserState_def rbind_eq_Inr upd_thread_Inr intro: same_thread split: if_splits)

lemma SaveState_same: "SaveState x s = Inr s' \<Longrightarrow> same_sched s s'"
  by (simp add: SaveState_def same_sched_refl)

lemma home_fields [simp]:
  "threads (home s) = threads s" "semaphores (home s) = semaphores s" "readyList (home s) = readyList s"
  "currentThread (home s) = currentThread s" "activeThreads (home s) = activeThreads s"
  "threadToBeDestroyed (home s) = threadToBeDestroyed s" "mach (home s) = mach s" "loaded (home s) = loaded s"
  by (simp_all add: home_def split: option.splits)

lemma RestoreUserState_same: "RestoreUserState t s = Inr s' \<Longrightarrow> same_sched s s'"
  by (auto simp: RestoreUserState_def rbind_eq_Inr intro!: same_views split: if_splits)

lemma RestoreState_same: "RestoreState x s = Inr s' \<Longrightarrow> same_sched s s'"
  by (auto simp: RestoreState_def rbind_eq_Inr Let_def intro!: same_views)

lemma SetLevel_IntOff:
  "SetLevel call IntOff s = Inr (old, y, s') \<longleftrightarrow> old = level s \<and> \<not> y \<and> s' = s\<lparr>level := IntOff\<rparr>"
  by (auto simp: SetLevel_def Let_def ChangeLevel_def)

lemma sched_level [simp]: "sched a (s\<lparr>level := l\<rparr>) = sched a s" "sched a (s\<lparr>status := m\<rparr>) = sched a s"
  by (rule sched_same, rule same_views, simp_all)+

text \<open>Frames that only mark where a thread goes on.\<close>

fun plain_frame :: "frame \<Rightarrow> bool" where
  "plain_frame Sleep_loop = False"
| "plain_frame (P_retry x lv) = False"
| "plain_frame Finish_ret = False"
| "plain_frame _ = True"

lemma plain_frames:
  assumes "filter (\<lambda>f. \<not> plain_frame f) ks = filter (\<lambda>f. \<not> plain_frame f) (k t)"
  shows "retrying (k(t := ks)) x u = retrying k x u" "dead (k(t := ks)) u = dead k u"
    "filter is_retry ks = filter is_retry (k t)" "Sleep_loop \<in> set ks \<longleftrightarrow> Sleep_loop \<in> set (k t)"
proof -
  have m: "f \<in> set ks \<longleftrightarrow> f \<in> set (k t)" if "\<not> plain_frame f" for f
    using arg_cong [OF assms, of "\<lambda>l. f \<in> set l"] that by auto
  show "retrying (k(t := ks)) x u = retrying k x u" "dead (k(t := ks)) u = dead k u"
    "Sleep_loop \<in> set ks \<longleftrightarrow> Sleep_loop \<in> set (k t)"
    using m by (auto simp: retrying_def dead_def)
  have "is_retry f \<longrightarrow> \<not> plain_frame f" for f by (cases f) auto
  then have "filter is_retry l = filter is_retry (filter (\<lambda>f. \<not> plain_frame f) l)" for l
    by (induction l) auto
  then show "filter is_retry ks = filter is_retry (k t)" using assms by metis
qed

lemma plain_only: "list_all plain_frame ks \<Longrightarrow> filter (\<lambda>f. \<not> plain_frame f) ks = []"
  by (simp add: list_all_iff filter_empty_conv)

lemma plain_stack:
  assumes "list_all plain_frame (k t)"
  shows "\<not> retrying k x t" "\<not> dead k t" "filter is_retry (k t) = []" "Sleep_loop \<notin> set (k t)"
proof -
  have "filter (\<lambda>f. \<not> plain_frame f) [] = filter (\<lambda>f. \<not> plain_frame f) (k t)" using plain_only [OF assms] by simp
  note p = plain_frames [where k = k and t = t, OF this]
  show "\<not> retrying k x t" "\<not> dead k t" "filter is_retry (k t) = []" "Sleep_loop \<notin> set (k t)"
    using p(1) [of x t] p(2) [of t] p(3,4) by (simp_all add: retrying_def dead_def)
qed

lemma ok_frames_cong:
  assumes "\<And>x u. retrying k' x u = retrying k x u" "\<And>u. dead k' u = dead k u"
  shows "queues_ok S k' q = queues_ok S k q" "joins_ok S k' q pa = joins_ok S k q pa"
    "wakeups_ok k' q v = wakeups_ok k q v" "active_ok S k' l = active_ok S k l" "doomed_ok S k' d = doomed_ok S k d"
  unfolding queues_ok_def joins_ok_def wakeups_ok_def sem_ok_def active_ok_def doomed_ok_def assms
  by (rule refl)+

lemma sched_stack:
  assumes "sched a s" "threads s t = Some th" "tstatus th \<noteq> JUST_CREATED"
    "filter (\<lambda>f. \<not> plain_frame f) ks = filter (\<lambda>f. \<not> plain_frame f) (kstack th)"
  shows "sched a (s\<lparr>threads := (threads s)(t \<mapsto> th\<lparr>kstack := ks\<rparr>)\<rparr>)"
proof -
  note d = schedD [OF assms(1)] and v = view_thread [OF assms(2)]
  have "filter (\<lambda>f. \<not> plain_frame f) ks = filter (\<lambda>f. \<not> plain_frame f) (stk s t)" using assms(4) v by simp
  note p = plain_frames [where k = "stk s" and t = t, OF this]
  have e: "(st s)(t \<mapsto> tstatus th) = st s" "(par s)(t := parent th) = par s" using v by auto
  let ?k = "(stk s)(t := ks)"
  have "frames_ok (st s t) ks"
    using stacks_okD [OF d(3), of t] p(2) [of t] p(3,4) v assms(3) by (auto simp: frames_ok_def dead_def)
  from stacks_ok_upd [OF d(3) this, of t] have "stacks_ok (st s) ?k" by simp
  moreover have "queues_ok (st s) ?k (que s)" "joins_ok (st s) ?k (que s) (par s)"
    "wakeups_ok ?k (que s) (val s)" "active_ok (st s) ?k (activeThreads s)"
    "doomed_ok (st s) ?k (threadToBeDestroyed s)"
    using d(4-8) unfolding ok_frames_cong [of ?k "stk s", OF p(1,2)] by simp_all
  ultimately show ?thesis using d(1,2) by (simp add: sched_def view_simps e)
qed

lemma sched_push:
  assumes "sched a s" "push_frame t fr s = Inr s'" "plain_frame fr" "st s t \<noteq> Some JUST_CREATED"
  shows "sched a s'"
  using assms by (auto simp: push_frame_def upd_thread_Inr view_thread intro!: sched_stack)

text \<open>The current thread goes from running to ready, or to blocked outside every queue.\<close>

lemma sched_status:
  assumes "sched False s" "threads s (currentThread s) = Some th" "so = READY \<and> r = ready s @ [currentThread s] \<or>
      so = BLOCKED \<and> r = ready s \<and> filter is_retry (kstack th) = []"
    "items R = r"
  shows "sched True (s\<lparr>threads := (threads s)(currentThread s \<mapsto> th\<lparr>tstatus := so\<rparr>), readyList := R\<rparr>)"
proof -
  let ?c = "currentThread s" and ?S = "(st s)(currentThread s \<mapsto> so)"
  note d = schedD [OF assms(1)] and v = view_thread [OF assms(2)]
  have e: "(stk s)(?c := kstack th) = stk s" "(par s)(?c := parent th) = par s" using v by auto
  have c: "st s ?c = Some RUNNING" using d(2) by (simp add: current_ok_def)
  have nd: "\<not> dead (stk s) ?c"
    using stacks_okD [OF d(3), of ?c] c by (auto simp: frames_ok_def dead_def)
  have nr: "\<not> retrying (stk s) x ?c" if "so = BLOCKED" for x
    using assms(3) that v by (auto simp: retrying_def filter_empty_conv)
  have "ready_ok ?S r" using d(1) c assms(3) by (auto simp: ready_ok_def)
  moreover have "current_ok True ?S ?c" using d(2) assms(3) by (auto simp: current_ok_def)
  moreover have "stacks_ok ?S (stk s)"
    using stacks_okD [OF d(3), of ?c] c assms(3) by (intro stacks_ok_status [OF d(3)]) (auto simp: frames_ok_def)
  moreover have "queues_ok ?S (stk s) (que s)"
    using queues_okD [OF d(4)] c nr assms(3) by (intro queues_ok_sub [OF d(4)]) fastforce+
  moreover have "joins_ok ?S (stk s) (que s) (par s)"
    using joins_okD(1) [OF d(5)] c by (intro joins_ok_sub [OF d(5)]) fastforce+
  moreover have "active_ok ?S (stk s) (activeThreads s)" using d(7) by (fastforce simp: active_ok_def)
  moreover have "doomed_ok ?S (stk s) (threadToBeDestroyed s)" using d(8) nd by (auto simp: doomed_ok_def)
  ultimately show ?thesis using d(6) assms(4) by (simp add: sched_def view_simps e)
qed

lemma sched_dispatch:
  assumes "sched True (s\<lparr>readyList := L\<rparr>)" "items L = us @ n # vs" "ready s = us @ vs" "threads s n = Some th"
  shows "sched False (s\<lparr>currentThread := n, threads := (threads s)(n \<mapsto> th\<lparr>tstatus := RUNNING\<rparr>)\<rparr>)"
proof -
  let ?S = "(st s)(n \<mapsto> RUNNING)"
  note d = schedD [OF assms(1), unfolded view_simps, simplified] and v = view_thread [OF assms(4)]
  have e: "(stk s)(n := kstack th) = stk s" "(par s)(n := parent th) = par s" using v by auto
  have r: "distinct (us @ n # vs)" "\<And>t. t \<in> set (us @ n # vs) \<longleftrightarrow> st s t = Some READY"
    using d(1) unfolding assms(2) by (simp_all add: ready_ok_def)
  have n: "st s n = Some READY" using r(2) [of n] by simp
  have nd: "\<not> dead (stk s) n" using stacks_okD [OF d(3), of n] n by (auto simp: frames_ok_def dead_def)
  have "ready_ok ?S (us @ vs)" using r by (auto simp: ready_ok_def)
  moreover have "st s t \<noteq> Some RUNNING" for t
    using d(2) by (cases "t = currentThread s") (auto simp: current_ok_def)
  then have "current_ok False ?S n" by (auto simp: current_ok_def)
  moreover have "stacks_ok ?S (stk s)"
    using stacks_okD [OF d(3), of n] n by (intro stacks_ok_status [OF d(3)]) (auto simp: frames_ok_def)
  moreover have "queues_ok ?S (stk s) (que s)"
    using queues_okD [OF d(4)] n by (intro queues_ok_sub [OF d(4)]) fastforce+
  moreover have "joins_ok ?S (stk s) (que s) (par s)"
    using joins_okD(1) [OF d(5)] n by (intro joins_ok_sub [OF d(5)]) fastforce+
  moreover have "active_ok ?S (stk s) (activeThreads s)" using d(7) by (fastforce simp: active_ok_def)
  moreover have "doomed_ok ?S (stk s) (threadToBeDestroyed s)" using d(8) nd by (auto simp: doomed_ok_def)
  ultimately show ?thesis using d(6) assms(3) by (simp add: sched_def view_simps e)
qed

lemma Run_outE:
  assumes "Run_out n s = Inr s'"
  obtains th s2 where "threads s (currentThread s) = Some th"
    "(case space th of None \<Rightarrow> Inr s | Some a \<Rightarrow> rbind (SaveUserState (currentThread s) s) (SaveState a)) = Inr s2"
    "setStatus n RUNNING (s2\<lparr>currentThread := n\<rparr>) = Inr s'"
proof -
  have "\<exists>th. threads s (currentThread s) = Some th \<and> (\<exists>s2.
    (case space th of None \<Rightarrow> Inr s | Some a \<Rightarrow> rbind (SaveUserState (currentThread s) s) (SaveState a)) = Inr s2
    \<and> setStatus n RUNNING (s2\<lparr>currentThread := n\<rparr>) = Inr s')"
    using assms unfolding Run_out_def Let_def rbind_eq_Inr by (simp only: get_thread_Inr) auto
  then show thesis by (elim exE conjE) (rule that)
qed

lemma sched_Run:
  assumes "sched True (s\<lparr>readyList := L\<rparr>)" "items L = us @ n # vs" "ready s = us @ vs" "Run n s = Inr s'"
  shows "sched False s' \<and> currentThread s' = n \<and> ready s' = us @ vs"
proof -
  let ?c = "currentThread s"
  obtain s1 where s1: "push_frame ?c Run_ret s = Inr s1" "Run_out n s1 = Inr s'"
    using assms(4) by (auto simp: Run_def rbind_eq_Inr)
  have c1: "currentThread s1 = ?c" using s1 by (auto simp: push_frame_def upd_thread_Inr)
  obtain th s2 where "threads s1 ?c = Some th"
    and s2: "(case space th of None \<Rightarrow> Inr s1 | Some a \<Rightarrow> rbind (SaveUserState ?c s1) (SaveState a)) = Inr s2"
    and s': "setStatus n RUNNING (s2\<lparr>currentThread := n\<rparr>) = Inr s'"
    by (rule Run_outE [OF s1(2), unfolded c1])
  have "same_sched s1 s2"
    using s2 by (auto simp: rbind_eq_Inr split: option.splits dest: SaveUserState_same SaveState_same
        intro: same_sched_trans)
  moreover have "readyList s1 = readyList s" using s1(1) by (auto simp: push_frame_def upd_thread_Inr)
  moreover have "sched True (s1\<lparr>readyList := L\<rparr>)"
  proof (rule sched_push [OF assms(1)])
    show "push_frame ?c Run_ret (s\<lparr>readyList := L\<rparr>) = Inr (s1\<lparr>readyList := L\<rparr>)"
      using s1(1) by (auto simp: push_frame_def upd_thread_Inr)
    show "st (s\<lparr>readyList := L\<rparr>) ?c \<noteq> Some JUST_CREATED"
      using schedD(2) [OF assms(1)] by (auto simp: current_ok_def)
  qed simp
  ultimately have "sched True (s2\<lparr>readyList := L\<rparr>)" "ready s2 = us @ vs"
    using sched_same [of "s1\<lparr>readyList := L\<rparr>" "s2\<lparr>readyList := L\<rparr>" True] assms(3)
    by (simp_all add: same_sched_def view_simps)
  with s' show ?thesis
    using sched_dispatch [OF _ assms(2), of s2] by (auto simp: setStatus_def upd_thread_Inr)
qed

lemma sched_ReadyToRun_current:
  assumes "sched False s" "ReadyToRun (currentThread s) s = Inr s'"
  shows "sched True s'"
  using assms sched_status [OF assms(1)] by (auto simp: ReadyToRun_Inr)

lemma FindNextToRun_alt:
  "FindNextToRun s = (if ready s = [] then None else Some (hd (ready s)), s\<lparr>readyList := list_tl (readyList s)\<rparr>)"
  by (simp add: FindNextToRun_def list_remove_alt)

lemma current_status: "sched False s \<Longrightarrow> st s (currentThread s) = Some RUNNING"
  by (drule schedD(2)) (simp add: current_ok_def)

text \<open>A yield: the front of the ready list runs, the caller goes to its end.\<close>

lemma sched_Yield:
  assumes "sched False s" "Yield c s = Inr s'"
  shows "sched False s' \<and> c = currentThread s \<and> currentThread s' # ready s' = ready s @ [c]"
proof -
  obtain s1 where c: "c = currentThread s" and s1: "push_frame c (Yield_ret (level s)) (s\<lparr>level := IntOff\<rparr>) = Inr s1"
    and rest: "(case FindNextToRun s1 of (None, s3) \<Rightarrow> Inr s3
       | (Some n, s3) \<Rightarrow> rbind (ReadyToRun c s3) (Run n)) = Inr s'"
    using assms(2) by (auto simp: Yield_def rbind_eq_Inr SetLevel_IntOff)
  have k1: "sched False s1" using sched_push [OF _ s1] assms(1) current_status [OF assms(1)] c
    by (simp add: view_cong [of "s\<lparr>level := IntOff\<rparr>" s])
  have f: "readyList s1 = readyList s" "currentThread s1 = c" using s1 c by (auto simp: push_frame_def upd_thread_Inr)
  show ?thesis
  proof (cases "ready s")
    case Nil
    then have "s' = s1\<lparr>readyList := list_tl (readyList s1)\<rparr>" using rest f by (simp add: FindNextToRun_alt)
    with k1 f Nil c show ?thesis by (simp add: sched_def view_simps)
  next
    case (Cons n rs)
    let ?s3 = "s1\<lparr>readyList := list_tl (readyList s1)\<rparr>"
    obtain s4 where s4: "ReadyToRun c ?s3 = Inr s4" "Run n s4 = Inr s'"
      using rest f Cons by (auto simp: FindNextToRun_alt rbind_eq_Inr)
    have "ready s4 = rs @ [c]" using s4(1) f Cons by (auto simp: ReadyToRun_Inr)
    moreover have "sched True (s4\<lparr>readyList := list_append c (readyList s1)\<rparr>)"
      using sched_ReadyToRun_current [OF k1] s4(1) f by (auto simp: ReadyToRun_Inr)
    moreover have "items (list_append c (readyList s1)) = [] @ n # rs @ [c]" using f Cons by simp
    ultimately have "sched False s' \<and> currentThread s' = n \<and> ready s' = rs @ [c]"
      using s4(2) sched_Run [where s = s4 and us = "[]" and L = "list_append c (readyList s1)"] by fastforce
    with c Cons show ?thesis by simp
  qed
qed

lemma sched_time_slice:
  assumes "sched False s" "time_slice y s = Inr s'"
  shows "sched False s'"
proof (cases y)
  case True
  then obtain s1 where "push_frame (currentThread s) (Tick_ret (status s)) s = Inr s1"
    "Yield (currentThread s) (s1\<lparr>status := SystemMode\<rparr>) = Inr s'"
    using assms(2) by (auto simp: time_slice_def Let_def rbind_eq_Inr)
  then show ?thesis using sched_Yield sched_push [OF assms(1)] current_status [OF assms(1)] by fastforce
qed (use assms in \<open>simp add: time_slice_def\<close>)

lemma sched_set_level: "sched False s \<Longrightarrow> set_level lv s = Inr s' \<Longrightarrow> sched False s'"
  unfolding set_level_def rbind_eq_Inr by (auto intro: sched_kept.SetLevel_inv sched_time_slice)

lemma sched_tick: "sched False s \<Longrightarrow> tick s = Inr s' \<Longrightarrow> sched False s'"
  unfolding tick_def rbind_eq_Inr by (auto intro: sched_kept.OneTick_inv sched_time_slice)

section \<open>Blocking, waking, creating and destroying threads\<close>

text \<open>
  Between two steps the current thread is either running, or asleep with the loop of \<^verbatim>\<open>Sleep\<close> on top of
  its stack.
\<close>

definition sched_ok :: "'z ksys \<Rightarrow> bool" where
  "sched_ok s \<longleftrightarrow> sched False s \<or> (\<exists>th frs. threads s (currentThread s) = Some th \<and> kstack th = Sleep_loop # frs
     \<and> sched True (s\<lparr>threads := (threads s)(currentThread s \<mapsto> th\<lparr>kstack := frs\<rparr>)\<rparr>))"

lemma sched_ok_push_Sleep:
  assumes "sched True s" "push_frame (currentThread s) Sleep_loop s = Inr s'"
  shows "sched_ok s'"
proof -
  obtain th where th: "threads s (currentThread s) = Some th"
    "s' = s\<lparr>threads := (threads s)(currentThread s \<mapsto> th\<lparr>kstack := Sleep_loop # kstack th\<rparr>)\<rparr>"
    using assms(2) by (auto simp: push_frame_def upd_thread_Inr)
  have "(threads s)(currentThread s \<mapsto> th) = threads s" using th(1) by auto
  then have "s'\<lparr>threads := (threads s')(currentThread s \<mapsto> th)\<rparr> = s" using th by simp
  then show ?thesis using th assms(1) by (simp add: sched_ok_def)
qed

text \<open>The current thread joins the queue of a semaphore whose value is zero.\<close>

lemma sched_block:
  assumes "sched False s" "threads s (currentThread s) = Some th" "filter is_retry (kstack th) = []"
    "semaphores s x = Some sm" "sem_value sm = 0" "items q' = items (sem_queue sm) @ [currentThread s]"
  shows "sched True (put_sem x (sm\<lparr>sem_queue := q'\<rparr>)
    (s\<lparr>threads := (threads s)(currentThread s \<mapsto> th\<lparr>kstack := P_retry x lv # kstack th, tstatus := BLOCKED\<rparr>)\<rparr>))"
proof -
  let ?c = "currentThread s" and ?S = "(st s)(currentThread s \<mapsto> BLOCKED)"
  let ?k = "(stk s)(?c := P_retry x lv # kstack th)" and ?q = "(que s)(x := que s x @ [?c])"
  note d = schedD [OF assms(1)] and v = view_thread [OF assms(2)] and w = view_sem_at [OF assms(4)]
  have e: "(par s)(?c := parent th) = par s" "(val s)(x := 0) = val s" using v w assms(5) by auto
  have c: "st s ?c = Some RUNNING" by (rule current_status [OF assms(1)])
  have nq: "?c \<notin> set (que s y)" for y using queues_okD(2) [OF d(4), of ?c y] c by auto
  have nr: "\<not> retrying (stk s) y ?c" for y using assms(3) v by (auto simp: retrying_def filter_empty_conv)
  have r: "retrying ?k y u \<longleftrightarrow> retrying (stk s) y u \<or> y = x \<and> u = ?c" for y u
    using nr [of y] v by (auto simp: retrying_def)
  have dd: "dead ?k u = dead (stk s) u" for u using v by (auto simp: dead_def)
  have nd: "\<not> dead (stk s) ?c" using stacks_okD [OF d(3), of ?c] c by (auto simp: frames_ok_def dead_def)
  have "ready_ok ?S (ready s)" using d(1) c by (auto simp: ready_ok_def)
  moreover have "current_ok True ?S ?c" using d(2) by (auto simp: current_ok_def)
  moreover have "stacks_ok ?S ?k"
    using stacks_okD [OF d(3), of ?c] c assms(3) v by (intro stacks_ok_upd [OF d(3)]) (auto simp: frames_ok_def)
  moreover have "queues_ok ?S ?k ?q"
    using queues_okD(1-5) [OF d(4)] nq nd unfolding queues_ok_def r dd
    by (auto simp: nr dest: queues_okD(6) [OF d(4)] split: if_splits)
  moreover have "joins_ok ?S ?k ?q (par s)"
    using joins_okD(1) [OF d(5)] c by (intro joins_ok_sub [OF d(5)]) (fastforce simp: dd split: if_splits)+
  moreover have "sem_ok ?k y (?q y) (val s y)" for y
    using wakeups_okD [OF d(6) refl, of y] w(2) assms(5) unfolding sem_ok_def r by (cases "y = x") auto
  then have "wakeups_ok ?k ?q (val s)" by (simp add: wakeups_ok_def)
  moreover have "active_ok ?S ?k (activeThreads s)" using d(7) by (fastforce simp: active_ok_def dd)
  moreover have "doomed_ok ?S ?k (threadToBeDestroyed s)" using d(8) nd by (auto simp: doomed_ok_def dd)
  ultimately show ?thesis using assms(6) w e assms(5) by (simp add: sched_def view_simps)
qed

text \<open>A woken thread leaves the loop of \<^verbatim>\<open>P\<close>: either it takes a unit, or there is none.\<close>

lemma sem_ok_take:
  assumes "sem_ok k x ts v" "0 < v" "\<And>u. u \<noteq> c \<Longrightarrow> retrying k' x u = retrying k x u" "stacks_ok S k"
  shows "sem_ok k' x ts (v - 1)"
proof -
  let ?A = "{u. retrying k x u \<and> u \<notin> set ts}" and ?B = "{u. retrying k' x u \<and> u \<notin> set ts}"
  have fA: "finite ?A" by (rule retrying_finite [OF assms(4)])
  have "?B \<subseteq> insert c ?A" "?A \<subseteq> insert c ?B" using assms(3) by auto
  then have "finite ?B" "card ?A \<le> card (insert c ?B)"
    using fA finite_subset [of ?B "insert c ?A"] by (auto intro: card_mono)
  then have "card ?A \<le> Suc (card ?B)" by (simp add: card_insert_if split: if_splits)
  with assms(1,2) show ?thesis by (auto simp: sem_ok_def)
qed

lemma sched_retry:
  assumes "sched False s" "threads s (currentThread s) = Some th" "kstack th = P_retry x lv # frs"
    "semaphores s x = Some sm" "sem_value sm = 0 \<and> w = 0 \<or> 0 < sem_value sm \<and> w = sem_value sm - 1"
  shows "sched False (put_sem x (sm\<lparr>sem_value := w\<rparr>)
    (s\<lparr>threads := (threads s)(currentThread s \<mapsto> th\<lparr>kstack := frs\<rparr>)\<rparr>))"
proof -
  let ?c = "currentThread s" and ?k = "(stk s)(currentThread s := frs)"
  note d = schedD [OF assms(1)] and v = view_thread [OF assms(2)] and wv = view_sem_at [OF assms(4)]
  have e: "(st s)(?c \<mapsto> tstatus th) = st s" "(par s)(?c := parent th) = par s"
    "(que s)(x := items (sem_queue sm)) = que s" using v wv by auto
  have c: "st s ?c = Some RUNNING" by (rule current_status [OF assms(1)])
  have f: "frames_ok (Some RUNNING) (P_retry x lv # frs)" using stacks_okD [OF d(3), of ?c] c v assms(3) by simp
  have nr: "\<not> retrying ?k y ?c" for y using f by (auto simp: frames_ok_def retrying_def filter_empty_conv)
  have r: "retrying ?k y u = retrying (stk s) y u" if "u \<noteq> ?c" for y u using that by (simp add: retrying_def)
  have ry: "retrying ?k y u = retrying (stk s) y u" if "y \<noteq> x" for y u
    using that nr [of y] v assms(3) by (cases "u = ?c") (auto simp: retrying_def)
  have dd: "dead ?k u = dead (stk s) u" for u using v assms(3) by (auto simp: dead_def)
  have nq: "?c \<notin> set (que s y)" for y using queues_okD(2) [OF d(4), of ?c y] c by auto
  have "stacks_ok ((st s)(?c := Some RUNNING)) ?k"
    using f by (intro stacks_ok_upd [OF d(3)]) (auto simp: frames_ok_def split: if_splits)
  then have "stacks_ok (st s) ?k" using c by (simp add: fun_upd_idem)
  moreover have "queues_ok (st s) ?k (que s)"
  proof (rule queues_ok_sub [OF d(4)])
    fix y u assume "u \<in> set (que s y)"
    moreover from this nq have "u \<noteq> ?c" by blast
    ultimately show "u \<in> set (que s y) \<and> st s u = st s u \<and> (retrying (stk s) y u \<longrightarrow> retrying ?k y u)
      \<and> (dead ?k u \<longrightarrow> dead (stk s) u)" using r dd by simp
  next
    fix y u assume "retrying ?k y u" "u \<notin> set (que s y)"
    then show "st s u = Some READY \<or> st s u = Some RUNNING"
      using queues_okD(6) [OF d(4), of y u] r [of u y] c by (cases "u = ?c") auto
  qed (rule queues_okD(1) [OF d(4)])
  moreover have "joins_ok (st s) ?k (que s) (par s)" by (rule joins_ok_sub [OF d(5)]) (auto simp: dd)
  moreover have "sem_ok ?k x (que s x) w"
    using assms(5) sem_ok_take [OF wakeups_okD [OF d(6) refl, of x], of ?c ?k] r d(3) wv(2)
    by (auto simp: sem_ok_def)
  then have "sem_ok ?k y (que s y) (((val s)(x := w)) y)" for y
    using wakeups_okD [OF d(6) refl, of y] ry [of y] by (cases "y = x") (simp_all add: sem_ok_def)
  then have "wakeups_ok ?k (que s) ((val s)(x := w))" by (simp add: wakeups_ok_def)
  moreover have "active_ok (st s) ?k (activeThreads s)" "doomed_ok (st s) ?k (threadToBeDestroyed s)"
    using d(7,8) unfolding active_ok_def doomed_ok_def dd .
  ultimately show ?thesis using d(1,2) e by (simp add: sched_def view_simps)
qed

lemma upd_sem_thread: "s\<lparr>semaphores := S, threads := T\<rparr> = s\<lparr>threads := T, semaphores := S\<rparr>"
  by (rule thread_sys.equality) simp_all

lemma put_sem_same: "semaphores s x = Some sm \<Longrightarrow> put_sem x sm s = s"
  by (simp add: put_sem_def fun_upd_idem)

lemma sem_value_nonneg: "sched a s \<Longrightarrow> semaphores s x = Some sm \<Longrightarrow> 0 \<le> sem_value sm"
  using wakeups_okD [OF schedD(6) refl, of a s x] view_sem_at [of s x sm] by (simp add: sem_ok_def)

lemma Sleep_Inr:
  "Sleep c s = Inr s' \<longleftrightarrow> c = currentThread s \<and> level s = IntOff \<and> (\<exists>th. threads s c = Some th \<and>
     push_frame c Sleep_loop (s\<lparr>threads := (threads s)(c \<mapsto> th\<lparr>tstatus := BLOCKED\<rparr>)\<rparr>) = Inr s')"
  by (auto simp: Sleep_def rbind_eq_Inr setStatus_def upd_thread_Inr)

lemma sched_P_loop:
  assumes "sched False s" "filter is_retry (stk s (currentThread s)) = []" "P_loop x old s = Inr s'"
  shows "sched_ok s'"
proof -
  let ?c = "currentThread s"
  obtain sm where sm: "semaphores s x = Some sm" using assms(3) by (auto simp: P_loop_def rbind_eq_Inr)
  show ?thesis
  proof (cases "sem_value sm = 0")
    case True
    let ?sm = "sm\<lparr>sem_queue := list_append ?c (sem_queue sm)\<rparr>"
    obtain s1 where s1: "push_frame ?c (P_retry x old) (put_sem x ?sm s) = Inr s1" "Sleep ?c s1 = Inr s'"
      using assms(3) sm True by (auto simp: P_loop_def get_sem_def Let_def rbind_eq_Inr)
    then obtain th where th: "threads s ?c = Some th"
      "s1 = put_sem x ?sm (s\<lparr>threads := (threads s)(?c \<mapsto> th\<lparr>kstack := P_retry x old # kstack th\<rparr>)\<rparr>)"
      by (auto simp: push_frame_def upd_thread_Inr put_sem_def)
    then have sl: "push_frame ?c Sleep_loop (put_sem x ?sm (s\<lparr>threads := (threads s)(?c \<mapsto>
         th\<lparr>kstack := P_retry x old # kstack th, tstatus := BLOCKED\<rparr>)\<rparr>)) = Inr s'"
      using s1(2) by (simp add: Sleep_Inr put_sem_def upd_sem_thread)
    have "filter is_retry (kstack th) = []" using assms(2) view_thread [OF th(1)] by simp
    from sched_block [OF assms(1) th(1) this sm True, of "list_append ?c (sem_queue sm)" old]
    have "sched True (put_sem x ?sm (s\<lparr>threads := (threads s)(?c \<mapsto>
         th\<lparr>kstack := P_retry x old # kstack th, tstatus := BLOCKED\<rparr>)\<rparr>))" by simp
    from sched_ok_push_Sleep [OF this] sl show ?thesis by (simp add: put_sem_def)
  next
    case False
    then have "set_level old (put_sem x (sm\<lparr>sem_value := sem_value sm - 1\<rparr>) s) = Inr s'"
      using assms(3) sm by (simp add: P_loop_def get_sem_def)
    moreover have "sched False (put_sem x (sm\<lparr>sem_value := sem_value sm - 1\<rparr>) s)"
      using sem_value_nonneg [OF assms(1) sm] False by (intro sched_put_sem [OF assms(1) sm]) auto
    ultimately show ?thesis using sched_set_level by (auto simp: sched_ok_def)
  qed
qed

lemma sched_P:
  assumes "sched False s" "list_all plain_frame (stk s (currentThread s))" "P x s = Inr s'"
  shows "sched_ok s'"
proof -
  have "P_loop x (level s) (s\<lparr>level := IntOff\<rparr>) = Inr s'"
    using assms(3) by (auto simp: P_def rbind_eq_Inr SetLevel_IntOff)
  with assms(1,2) show ?thesis
    by (intro sched_P_loop [of "s\<lparr>level := IntOff\<rparr>"]) (simp_all add: view_cong [of "s\<lparr>level := IntOff\<rparr>" s] plain_stack(3))
qed

lemma sched_V:
  assumes "sched False s" "V x s = Inr s'"
  shows "sched False s'"
proof -
  obtain s1 where "V_core x (s\<lparr>level := IntOff\<rparr>) = Inr s1" "set_level (level s) s1 = Inr s'"
    using assms(2) by (auto simp: V_def rbind_eq_Inr SetLevel_IntOff)
  moreover from this(1) have "sched False s1" using sched_V_core [of False "s\<lparr>level := IntOff\<rparr>"] assms(1) by simp
  ultimately show ?thesis by (blast intro: sched_set_level)
qed

lemma sched_P_retry:
  assumes "sched False s" "threads s (currentThread s) = Some th" "kstack th = P_retry x old # frs"
    "P_loop x old (s\<lparr>threads := (threads s)(currentThread s \<mapsto> th\<lparr>kstack := frs\<rparr>)\<rparr>) = Inr s'"
  shows "sched_ok s'"
proof -
  let ?s = "s\<lparr>threads := (threads s)(currentThread s \<mapsto> th\<lparr>kstack := frs\<rparr>)\<rparr>"
  obtain sm where sm: "semaphores s x = Some sm" using assms(4) by (auto simp: P_loop_def rbind_eq_Inr)
  note r = sched_retry [OF assms(1-3) sm]
  show ?thesis
  proof (cases "sem_value sm = 0")
    case True
    with r [of 0] have "sched False ?s" using sm by (simp add: put_sem_same)
    moreover have "frames_ok (st s (currentThread s)) (P_retry x old # frs)"
      using stacks_okD [OF schedD(3) [OF assms(1)], of "currentThread s"] view_thread [OF assms(2)] assms(3) by simp
    then have "filter is_retry frs = []" by (simp add: frames_ok_def)
    ultimately show ?thesis using assms(4) by (intro sched_P_loop [of ?s]) (simp_all add: view_simps)
  next
    case False
    then have "set_level old (put_sem x (sm\<lparr>sem_value := sem_value sm - 1\<rparr>) ?s) = Inr s'"
      using assms(4) sm by (simp add: P_loop_def get_sem_def)
    moreover have "sched False (put_sem x (sm\<lparr>sem_value := sem_value sm - 1\<rparr>) ?s)"
      by (rule r) (use sem_value_nonneg [OF assms(1) sm] False in auto)
    ultimately show ?thesis using sched_set_level by (auto simp: sched_ok_def)
  qed
qed

lemma sched_sleep_round:
  assumes "sched True s" "sleep_round s = Inr s'"
  shows "sched_ok s'"
proof (cases "ready s")
  case Nil
  then obtain s2 where "Idle kernel_call (s\<lparr>readyList := list_tl (readyList s)\<rparr>) = Inr (True, s2)"
    "push_frame (currentThread s2) Sleep_loop s2 = Inr s'"
    using assms(2) by (auto simp: sleep_round_def FindNextToRun_alt rbind_eq_Inr split: if_splits)
  moreover have "sched True (s\<lparr>readyList := list_tl (readyList s)\<rparr>)"
    using assms(1) Nil by (simp add: sched_def view_simps)
  ultimately show ?thesis using sched_kept.Idle_inv sched_ok_push_Sleep by blast
next
  case (Cons n rs)
  then have "Run n (s\<lparr>readyList := list_tl (readyList s)\<rparr>) = Inr s'"
    using assms(2) by (simp add: sleep_round_def FindNextToRun_alt)
  moreover have "sched True (s\<lparr>readyList := list_tl (readyList s), readyList := readyList s\<rparr>)" using assms(1) by simp
  ultimately have "sched False s'"
    using sched_Run [where s = "s\<lparr>readyList := list_tl (readyList s)\<rparr>" and us = "[]" and n = n and vs = rs
      and L = "readyList s"] Cons by simp
  then show ?thesis by (simp add: sched_ok_def)
qed

lemma view_delete [view_simps]:
  "st (r\<lparr>threads := (threads s)(t := None)\<rparr>) = (st s)(t := None)"
  "stk (r\<lparr>threads := (threads s)(t := None)\<rparr>) = (stk s)(t := [])"
  "par (r\<lparr>threads := (threads s)(t := None)\<rparr>) = (par s)(t := None)"
  by (auto simp: st_def stk_def par_def)

lemma dead_facts:
  assumes "sched a s" "dead (stk s) d"
  shows "st s d = Some BLOCKED" "\<not> retrying (stk s) x d" "d \<notin> set (que s x)"
proof -
  note o = schedD [OF assms(1)]
  show b: "st s d = Some BLOCKED" by (rule frames_okD(2) [OF stacks_okD [OF o(3)]]) (use assms(2) in \<open>simp add: dead_def\<close>)
  show nq: "d \<notin> set (que s x)" using queues_okD(4) [OF o(4), of d x] assms(2) by blast
  show "\<not> retrying (stk s) x d" using queues_okD(6) [OF o(4) _ nq] b by auto
qed

text \<open>Destroying a finished thread.\<close>

lemma sched_remove:
  assumes "sched False s" "dead (stk s) d"
  shows "sched False (s\<lparr>threads := (threads s)(d := None), threadToBeDestroyed := None\<rparr>)"
proof -
  let ?S = "(st s)(d := None)" and ?k = "(stk s)(d := [])" and ?pa = "(par s)(d := None)"
  note o = schedD [OF assms(1)] and f = dead_facts [OF assms]
  have r: "retrying ?k x u = retrying (stk s) x u" for x u using f(2) [of x] by (cases "u = d") (auto simp: retrying_def)
  have dd: "dead ?k u \<longleftrightarrow> dead (stk s) u \<and> u \<noteq> d" for u by (simp add: dead_def)
  have "ready_ok ?S (ready s)" using o(1) f(1) by (auto simp: ready_ok_def)
  moreover have "current_ok False ?S (currentThread s)" using o(2) f(1) by (auto simp: current_ok_def)
  moreover have "stacks_ok ?S ?k" by (rule stacks_ok_upd [OF o(3)]) (simp add: frames_ok_def)
  moreover have "queues_ok ?S ?k (que s)"
    using queues_okD [OF o(4)] f by (intro queues_ok_sub [OF o(4)]) (auto simp: r dd split: if_splits)
  moreover have "joins_ok ?S ?k (que s) ?pa"
    using joins_okD(3) [OF o(5)] assms(2) by (intro joins_ok_sub [OF o(5)]) (auto simp: dd split: if_splits)
  moreover have "wakeups_ok ?k (que s) (val s)" using o(6) unfolding wakeups_ok_def sem_ok_def r .
  moreover have "active_ok ?S ?k (activeThreads s)" using o(7) assms(2) by (fastforce simp: active_ok_def dd)
  moreover have "doomed_ok ?S ?k None" by (simp add: doomed_ok_def)
  ultimately show ?thesis by (simp add: sched_def view_simps)
qed

lemma sched_destroy_finished:
  assumes "sched False s"
  shows "\<exists>s'. destroy_finished s = Inr s' \<and> sched False s' \<and> currentThread s' = currentThread s"
proof (cases "threadToBeDestroyed s")
  case None
  with assms show ?thesis by (simp add: destroy_finished_def)
next
  case (Some d)
  then have d: "dead (stk s) d" "st s d = Some BLOCKED" using schedD(8) [OF assms] by (simp_all add: doomed_ok_def)
  then have "d \<noteq> currentThread s" "threads s d \<noteq> None" using current_status [OF assms] by (auto simp: st_def)
  then show ?thesis using Some sched_remove [OF assms d(1)]
    by (auto simp: destroy_finished_def delete_thread_def get_thread_def)
qed

lemma sched_Run_in:
  assumes "sched False s" "Run_in s = Inr s'"
  shows "sched False s'"
proof -
  obtain s1 where s1: "destroy_finished s = Inr s1" "sched False s1" using sched_destroy_finished [OF assms(1)] by blast
  have "same_sched s1 s'"
    using assms(2) s1(1) by (auto simp: Run_in_def rbind_eq_Inr split: option.splits
      dest!: RestoreUserState_same RestoreState_same intro: same_sched_trans)
  then show ?thesis using s1(2) sched_same by blast
qed

text \<open>A new thread, and a new thread made ready.\<close>

lemma sched_new_thread:
  assumes "sched False s" "threads s t = None"
  shows "sched False (s\<lparr>threads := (threads s)(t \<mapsto> Thread_new nm g)\<rparr>)"
proof -
  note o = schedD [OF assms(1)]
  have n: "st s t = None" "stk s t = []" "par s t = None" using assms(2) by (simp_all add: st_def stk_def par_def)
  have e: "(stk s)(t := []) = stk s" "(par s)(t := None) = par s" using n by auto
  let ?S = "(st s)(t \<mapsto> JUST_CREATED)"
  have nr: "\<not> retrying (stk s) x t" "\<not> dead (stk s) t" for x using n(2) by (simp_all add: retrying_def dead_def)
  have "ready_ok ?S (ready s)" using o(1) n by (auto simp: ready_ok_def)
  moreover have "current_ok False ?S (currentThread s)" using o(2) n by (auto simp: current_ok_def)
  moreover have "stacks_ok ?S (stk s)" by (rule stacks_ok_status [OF o(3)]) (simp add: frames_ok_def n)
  moreover have "queues_ok ?S (stk s) (que s)"
    using queues_okD [OF o(4)] n nr by (intro queues_ok_sub [OF o(4)]) fastforce+
  moreover have "joins_ok ?S (stk s) (que s) (par s)"
    using joins_okD(1) [OF o(5)] n by (intro joins_ok_sub [OF o(5)]) fastforce+
  moreover have "active_ok ?S (stk s) (activeThreads s)" using o(7) by (fastforce simp: active_ok_def)
  moreover have "doomed_ok ?S (stk s) (threadToBeDestroyed s)" using o(8) n by (auto simp: doomed_ok_def)
  ultimately show ?thesis using o(6) e by (simp add: sched_def view_simps Thread_new_def)
qed

lemma sched_fork:
  assumes "sched False s" "threads s t = Some th" "tstatus th = JUST_CREATED" "items R = ready s @ [t]"
    "tstatus th' = READY" "kstack th' = Start a # func" "list_all plain_frame func" "parent th' = parent th"
  shows "sched False (s\<lparr>threads := (threads s)(t \<mapsto> th'), readyList := R\<rparr>)"
proof -
  note o = schedD [OF assms(1)] and v = view_thread [OF assms(2)]
  have k: "stk s t = []" using stacks_okD [OF o(3), of t] v assms(3) by (simp add: frames_ok_def)
  have e: "(par s)(t := parent th') = par s" using v assms(8) by auto
  let ?S = "(st s)(t \<mapsto> READY)" and ?k = "(stk s)(t := Start a # func)"
  have pf: "filter (\<lambda>f. \<not> plain_frame f) (Start a # func) = filter (\<lambda>f. \<not> plain_frame f) (stk s t)"
    using k plain_only [OF assms(7)] by simp
  note p = plain_frames [where k = "stk s" and t = t, OF pf]
  have r: "retrying ?k x u = retrying (stk s) x u" and dd: "dead ?k u = dead (stk s) u" for x u
    by (rule p)+
  have "ready_ok ?S (ready s @ [t])" using o(1) v assms(3) by (auto simp: ready_ok_def)
  moreover have "current_ok False ?S (currentThread s)" using o(2) v assms(3) by (auto simp: current_ok_def)
  moreover have "stacks_ok ?S ?k"
    using p(3,4) k dd [of t] by (intro stacks_ok_upd [OF o(3)]) (simp add: frames_ok_def dead_def)
  moreover have "queues_ok ?S (stk s) (que s)"
    using queues_okD [OF o(4)] v assms(3) by (intro queues_ok_sub [OF o(4)]) fastforce+
  moreover have "joins_ok ?S (stk s) (que s) (par s)"
    using joins_okD(1) [OF o(5)] v assms(3) by (intro joins_ok_sub [OF o(5)]) fastforce+
  moreover have "active_ok ?S (stk s) (activeThreads s)" using o(7) by (fastforce simp: active_ok_def)
  moreover have "doomed_ok ?S (stk s) (threadToBeDestroyed s)" using o(8) v assms(3) by (auto simp: doomed_ok_def)
  ultimately show ?thesis using o(6) e assms(4-6) by (simp add: sched_def view_simps ok_frames_cong [of ?k "stk s", OF r dd])
qed

lemma sched_Fork:
  assumes "sched False s" "st s t = Some JUST_CREATED" "list_all plain_frame func" "Fork t func a s = Inr s'"
  shows "sched False s'"
proof -
  obtain th where th: "threads s t = Some th" "tstatus th = JUST_CREATED" using assms(2) by (auto simp: st_def)
  let ?th = "th\<lparr>tstack := Some STACK_FENCEPOST, kstack := Start a # func, tstatus := READY\<rparr>"
  have "set_level (level s) (s\<lparr>level := IntOff, threads := (threads s)(t \<mapsto> ?th), readyList := list_append t (readyList s)\<rparr>) = Inr s'"
    using assms(4) th(1)
    by (auto simp: Fork_def StackAllocate_def rbind_eq_Inr upd_thread_Inr SetLevel_IntOff ReadyToRun_Inr)
  moreover have "sched False (s\<lparr>level := IntOff, threads := (threads s)(t \<mapsto> ?th), readyList := list_append t (readyList s)\<rparr>)"
    using sched_fork [of "s\<lparr>level := IntOff\<rparr>" t th "list_append t (readyList s)" ?th a func] assms(1,3) th by simp
  ultimately show ?thesis by (blast intro: sched_set_level)
qed

section \<open>Finishing and joining\<close>

lemma list_remove_Cons:
  "items l = x # xs \<Longrightarrow> list_remove l = (Some x, list_tl l) \<and> items (list_tl l) = xs \<and> nsize (list_tl l) = nsize l - 1"
  by (simp add: list_remove_alt) (simp add: list_tl_def)

lemma nsize_list_append [simp]: "nsize (list_append x l) = nsize l + 1"
  by (simp add: list_append_def)

definition counted :: "'a nlist \<Rightarrow> 'a list \<Rightarrow> bool" where
  "counted l xs \<longleftrightarrow> items l = xs \<and> nsize l = int (length xs)"

lemma counted_round:
  assumes "counted l (x # xs)"
  shows "list_remove l = (Some x, list_tl l)" "counted (list_tl l) xs" "counted (list_append y (list_tl l)) (xs @ [y])"
  using assms list_remove_Cons [of l x xs] by (simp_all add: counted_def)

declare purge_active.simps [simp del]

lemma purge_active_absent:
  assumes "counted l xs" "Some c \<notin> set xs" "distinct xs" "0 \<le> i"
  shows "\<exists>ys. counted (purge_active i c l) ys \<and> set ys = set xs \<and> distinct ys"
  using assms
proof (induction i c l arbitrary: xs rule: purge_active.induct)
  case (1 i c l)
  show ?case
  proof (cases "i < nsize l")
    case False
    then show ?thesis using 1(2-) by (subst purge_active.simps) auto
  next
    case True
    with 1(2,5) obtain x ys where xs: "xs = x # ys" by (cases xs) (auto simp: counted_def)
    note r = counted_round [OF 1(2) [unfolded xs]]
    have "x \<noteq> Some c" using 1(3) xs by auto
    then have eq: "purge_active i c l = purge_active (i + 1) c (list_append x (list_tl l))"
      using True r(1) by (subst purge_active.simps) simp
    have "\<exists>zs. counted (purge_active (i + 1) c (list_append x (list_tl l))) zs \<and> set zs = set (ys @ [x]) \<and> distinct zs"
      using "1.IH" [OF True r(1) [symmetric] refl refl, of "ys @ [x]"] r(3) [of x] \<open>x \<noteq> Some c\<close> 1(3-5) xs by auto
    then show ?thesis using eq xs by auto
  qed
qed

lemma purge_active_from:
  assumes "counted l (us @ vs)" "i = int (length vs)" "Some c \<notin> set vs" "distinct (us @ vs)"
  shows "\<exists>ys. counted (purge_active i c l) ys \<and> set ys = set (us @ vs) - {Some c} \<and> distinct ys"
  using assms
proof (induction us arbitrary: vs i l)
  case Nil
  then have "purge_active i c l = l" by (subst purge_active.simps) (simp add: counted_def)
  with Nil show ?case by auto
next
  case (Cons u us)
  have lt: "i < nsize l" using Cons.prems(1,2) by (simp add: counted_def)
  have c: "counted l (u # us @ vs)" using Cons.prems(1) by simp
  note r = counted_round [OF c]
  show ?case
  proof (cases "u = Some c")
    case True
    then have "purge_active i c l = purge_active (i + 1) c (list_tl l)"
      using lt r(1) by (subst purge_active.simps) simp
    with purge_active_absent [OF r(2), of c "i + 1"] True Cons.prems show ?thesis by auto
  next
    case False
    then have "purge_active i c l = purge_active (i + 1) c (list_append u (list_tl l))"
      using lt r(1) by (subst purge_active.simps) simp
    with Cons.IH [of "list_append u (list_tl l)" "vs @ [u]" "i + 1"] r(3) [of u] False Cons.prems show ?thesis
      by (auto simp: insert_Diff_if)
  qed
qed

lemma active_purged:
  assumes "active_ok S k act"
    "\<And>t. t \<noteq> c \<Longrightarrow> dead k' t = dead k t \<and> (S t \<noteq> None \<longrightarrow> S' t \<noteq> None)"
  shows "active_ok S' k' (purge_active 0 c act)"
proof -
  have "counted act (items act @ [])" "distinct (items act @ [])" using assms(1) by (simp_all add: active_ok_def counted_def)
  then obtain ys where ys: "counted (purge_active 0 c act) ys" "set ys = set (items act) - {Some c}" "distinct ys"
    using purge_active_from [of act "items act" "[]" 0 c] by auto
  have "\<exists>t. r = Some t \<and> S' t \<noteq> None \<and> \<not> dead k' t" if "r \<in> set ys" for r
  proof -
    have "r \<in> set (items act)" "r \<noteq> Some c" using that ys(2) by auto
    then obtain t where "r = Some t" "S t \<noteq> None" "\<not> dead k t" "t \<noteq> c" using assms(1) by (auto simp: active_ok_def)
    with assms(2) show ?thesis by blast
  qed
  with ys(1,3) show ?thesis by (simp add: active_ok_def counted_def)
qed

text \<open>The current thread, about to leave for good.\<close>

lemma sched_finish:
  assumes "sched False s" "threads s (currentThread s) = Some th" "list_all plain_frame (kstack th)"
  shows "sched True (s\<lparr>threadToBeDestroyed := Some (currentThread s),
    threads := (threads s)(currentThread s \<mapsto> th\<lparr>kstack := Finish_ret # kstack th, tstatus := BLOCKED\<rparr>), activeThreads := purge_active 0 (currentThread s) (activeThreads s)\<rparr>)"
proof -
  let ?c = "currentThread s"
  let ?S = "(st s)(?c \<mapsto> BLOCKED)" and ?k = "(stk s)(?c := Finish_ret # kstack th)"
  note o = schedD [OF assms(1)] and v = view_thread [OF assms(2)]
  have c: "st s ?c = Some RUNNING" by (rule current_status [OF assms(1)])
  have e: "(par s)(?c := parent th) = par s" using v by auto
  have pl: "list_all plain_frame (stk s ?c)" using v assms(3) by simp
  note p = plain_stack [where k = "stk s" and t = ?c, OF pl]
  have r: "retrying ?k x u = retrying (stk s) x u" for x u using v by (auto simp: retrying_def)
  note nr = p(1)
  have dd: "dead ?k u \<longleftrightarrow> dead (stk s) u \<or> u = ?c" for u by (simp add: dead_def)
  have nq: "?c \<notin> set (que s x)" for x using queues_okD(2) [OF o(4), of ?c x] c by auto
  have np: "p \<noteq> ?c" if "par s d = Some p" "\<not> dead (stk s) d" for d p
    using joins_okD(1) [OF o(5) that] c by auto
  have "ready_ok ?S (ready s)" using o(1) c by (auto simp: ready_ok_def)
  moreover have "current_ok True ?S ?c" using o(2) by (auto simp: current_ok_def)
  moreover have "stacks_ok ?S ?k" using p(3,4) v by (intro stacks_ok_upd [OF o(3)]) (simp add: frames_ok_def)
  moreover have "queues_ok ?S ?k (que s)"
  proof (rule queues_ok_sub [OF o(4)])
    fix y u assume "u \<in> set (que s y)"
    then show "u \<in> set (que s y) \<and> ?S u = st s u \<and> (retrying (stk s) y u \<longrightarrow> retrying ?k y u) \<and> (dead ?k u \<longrightarrow> dead (stk s) u)"
      using nq by (auto simp: r dd)
  next
    fix y u assume "retrying ?k y u" "u \<notin> set (que s y)"
    then show "?S u = Some READY \<or> ?S u = Some RUNNING" using queues_okD(6) [OF o(4), of y u] nr by (auto simp: r)
  qed (rule queues_okD(1) [OF o(4)])
  moreover have "joins_ok ?S ?k (que s) (par s)"
    by (rule joins_ok_sub [OF o(5)]) (auto simp: dd dest: np)
  moreover have "wakeups_ok ?k (que s) (val s)" using o(6) unfolding wakeups_ok_def sem_ok_def r .
  moreover have "active_ok ?S ?k (purge_active 0 ?c (activeThreads s))"
    by (rule active_purged [OF o(7)]) (auto simp: dd)
  moreover have "doomed_ok ?S ?k (Some ?c)" by (simp add: doomed_ok_def dd)
  ultimately show ?thesis using e by (simp add: sched_def view_simps)
qed

lemma sched_wake_joined:
  assumes "sched a s" "threads s p = Some th" "tstatus th = BLOCKED" "\<And>x. p \<notin> set (que s x)" "\<not> dead (stk s) p"
    "\<And>c. par s c = Some p \<Longrightarrow> dead (stk s) c" "items R = p # ready s"
    "tstatus th' = READY" "kstack th' = kstack th" "parent th' = parent th"
  shows "sched a (s\<lparr>threads := (threads s)(p \<mapsto> th'), readyList := R\<rparr>)"
proof -
  let ?S = "(st s)(p \<mapsto> READY)"
  note o = schedD [OF assms(1)] and v = view_thread [OF assms(2)]
  have e: "(par s)(p := parent th') = par s" "(stk s)(p := kstack th') = stk s" using v assms(9,10) by auto
  have "ready_ok ?S (p # ready s)" using o(1) v assms(3) by (auto simp: ready_ok_def)
  moreover have "current_ok a ?S (currentThread s)" using o(2) v assms(3) by (auto simp: current_ok_def split: if_splits)
  moreover have "stacks_ok ?S (stk s)"
  proof (rule stacks_ok_status [OF o(3)])
    show "frames_ok (Some READY) (stk s p)"
      using frames_okD(1,3) [OF stacks_okD [OF o(3), of p]] assms(5) by (simp add: frames_ok_def dead_def)
  qed
  moreover have "queues_ok ?S (stk s) (que s)"
    using queues_okD [OF o(4)] assms(4) by (intro queues_ok_sub [OF o(4)]) (auto dest: queues_okD(6) [OF o(4)])
  moreover have "joins_ok ?S (stk s) (que s) (par s)"
    using assms(6) by (intro joins_ok_sub [OF o(5)]) auto
  moreover have "active_ok ?S (stk s) (activeThreads s)" using o(7) by (fastforce simp: active_ok_def)
  moreover have "doomed_ok ?S (stk s) (threadToBeDestroyed s)" using o(8) assms(5) by (auto simp: doomed_ok_def)
  ultimately show ?thesis using o(6) e assms(7,8) by (simp add: sched_def view_simps)
qed

lemma sched_Finish_state:
  assumes "sched False s" "threads s c = Some th" "list_all plain_frame (kstack th)" "c = currentThread s"
    "(case parent th of None \<Rightarrow> Inr s2 | Some p \<Rightarrow> WakeUpFromJoin p s2) = Inr s3" "s2 = s\<lparr>threadToBeDestroyed := Some c\<rparr>"
  shows "threads s3 c = Some th \<and> currentThread s3 = c \<and>
    sched True (s3\<lparr>threads := (threads s3)(c \<mapsto> th\<lparr>kstack := Finish_ret # kstack th, tstatus := BLOCKED\<rparr>),
      activeThreads := purge_active 0 c (activeThreads s3)\<rparr>)"
proof (cases "parent th")
  case None
  with assms(5,6) have "s3 = s\<lparr>threadToBeDestroyed := Some c\<rparr>" by simp
  with sched_finish [OF assms(1)] assms(2-4) show ?thesis by simp
next
  case (Some p)
  note o = schedD [OF assms(1)] and v = view_thread [OF assms(2)]
  let ?f = "s\<lparr>threadToBeDestroyed := Some c,
    threads := (threads s)(c \<mapsto> th\<lparr>kstack := Finish_ret # kstack th, tstatus := BLOCKED\<rparr>), activeThreads := purge_active 0 c (activeThreads s)\<rparr>"
  have f: "sched True ?f" using sched_finish [OF assms(1)] assms(2-4) by simp
  have c: "st s c = Some RUNNING" using current_status [OF assms(1)] assms(4) by simp
  have "\<not> dead (stk s) c" using v assms(3) by (intro plain_stack(2)) simp
  note j = joins_okD [OF o(5) _ this, of p, unfolded v(3), OF Some]
  have pc: "p \<noteq> c" using j(1) c by auto
  obtain tp where tp: "threads s p = Some tp" "tstatus tp = BLOCKED" using j(1) by (auto simp: st_def)
  let ?tp = "tp\<lparr>isJoined := False, tstatus := READY\<rparr>"
  have s3: "s3 = s2\<lparr>threads := (threads s)(p \<mapsto> ?tp), readyList := list_prepend p (readyList s)\<rparr>"
    using assms(5,6) Some tp by (auto simp: WakeUpFromJoin_def rbind_eq_Inr upd_thread_Inr)
  have "sched True (?f\<lparr>threads := (threads ?f)(p \<mapsto> ?tp), readyList := list_prepend p (readyList ?f)\<rparr>)"
  proof (rule sched_wake_joined [OF f])
    show "par ?f d = Some p \<Longrightarrow> dead (stk ?f) d" for d
      using j(4) [of d] v Some by (auto simp: view_simps dead_def split: if_splits)
  qed (use tp pc j in \<open>simp_all add: view_simps dead_def\<close>)
  moreover have "?f\<lparr>threads := (threads ?f)(p \<mapsto> ?tp), readyList := list_prepend p (readyList ?f)\<rparr>
    = s3\<lparr>threads := (threads s3)(c \<mapsto> th\<lparr>kstack := Finish_ret # kstack th, tstatus := BLOCKED\<rparr>),
      activeThreads := purge_active 0 c (activeThreads s3)\<rparr>"
    by (rule thread_sys.equality) (use pc s3 assms(6) in \<open>simp_all add: fun_upd_twist\<close>)
  ultimately show ?thesis using s3 pc assms(2,4,6) by simp
qed

lemma sched_Finish:
  assumes "sched False s" "list_all plain_frame (stk s (currentThread s))" "Finish c s = Inr s'"
  shows "sched_ok s'"
proof -
  let ?s = "s\<lparr>level := IntOff\<rparr>"
  obtain th s3 s4 where f: "c = currentThread s" "threads s c = Some th"
    "(case parent th of None \<Rightarrow> Inr (?s\<lparr>threadToBeDestroyed := Some c\<rparr>) | Some p \<Rightarrow> WakeUpFromJoin p (?s\<lparr>threadToBeDestroyed := Some c\<rparr>)) = Inr s3"
    "push_frame c Finish_ret (s3\<lparr>activeThreads := purge_active 0 c (activeThreads s3)\<rparr>) = Inr s4" "Sleep c s4 = Inr s'"
    using assms(3) by (auto simp: Finish_def Let_def rbind_eq_Inr SetLevel_IntOff)
  have k: "list_all plain_frame (kstack th)" using assms(2) f(1) view_thread [OF f(2)] by simp
  have st3: "threads s3 c = Some th" "currentThread s3 = c"
    "sched True (s3\<lparr>threads := (threads s3)(c \<mapsto> th\<lparr>kstack := Finish_ret # kstack th, tstatus := BLOCKED\<rparr>),
      activeThreads := purge_active 0 c (activeThreads s3)\<rparr>)"
    using sched_Finish_state [OF _ _ k _ f(3) refl] assms(1) f(1,2) by simp_all
  have "push_frame c Sleep_loop (s3\<lparr>threads := (threads s3)(c \<mapsto> th\<lparr>kstack := Finish_ret # kstack th, tstatus := BLOCKED\<rparr>),
      activeThreads := purge_active 0 c (activeThreads s3)\<rparr>) = Inr s'"
    using f(4,5) st3(1) k by (auto simp: push_frame_def upd_thread_Inr Sleep_Inr)
  with sched_ok_push_Sleep [OF st3(3)] st3(2) show ?thesis by simp
qed

lemma find_id_ok:
  assumes "counted (activeThreads s) (us @ vs)" "length us = n" "\<forall>u \<in> set us. \<exists>t th. u = Some t \<and> threads s t = Some th"
  shows "\<exists>r l. find_id n g f s = Inr (r, s\<lparr>activeThreads := l\<rparr>) \<and> counted l (vs @ us)
    \<and> (r = f \<or> (\<exists>t th. r = Some t \<and> Some t \<in> set us \<and> threads s t = Some th \<and> tID th = g))
    \<and> (r = None \<longrightarrow> (\<forall>t th. Some t \<in> set us \<and> threads s t = Some th \<longrightarrow> tID th \<noteq> g))"
  using assms
proof (induction n arbitrary: us vs f s)
  case 0
  then show ?case by (intro exI [of _ f] exI [of _ "activeThreads s"]) simp
next
  case (Suc n)
  then obtain t us' th where us: "us = Some t # us'" "threads s t = Some th" by (cases us) auto
  note c = counted_round [of "activeThreads s" "Some t" "us' @ vs"]
  let ?s = "s\<lparr>activeThreads := list_append (Some t) (list_tl (activeThreads s))\<rparr>"
  and ?f = "if tID th = g then Some t else f"
  have eq: "find_id (Suc n) g f s = find_id n g ?f ?s"
    using c(1) Suc.prems(1) us by (simp add: get_thread_def)
  have pre: "counted (activeThreads ?s) (us' @ vs @ [Some t])" "length us' = n"
    "\<forall>u \<in> set us'. \<exists>t th. u = Some t \<and> threads ?s t = Some th"
    using c(3) [of "Some t"] Suc.prems us by simp_all
  obtain r l where r: "find_id n g ?f ?s = Inr (r, ?s\<lparr>activeThreads := l\<rparr>)" "counted l ((vs @ [Some t]) @ us')"
    "r = ?f \<or> (\<exists>t th. r = Some t \<and> Some t \<in> set us' \<and> threads ?s t = Some th \<and> tID th = g)"
    "r = None \<longrightarrow> (\<forall>t th. Some t \<in> set us' \<and> threads ?s t = Some th \<longrightarrow> tID th \<noteq> g)"
    using Suc.IH [OF pre, of ?f] by (elim exE conjE) (rule that)
  have "r = None \<longrightarrow> tID th \<noteq> g \<and> f = None" using r(3) by (auto split: if_splits)
  with r us show ?case unfolding eq
    by (intro exI [of _ r] exI [of _ l]) (auto split: if_splits)
qed

lemma getID_ok:
  assumes "sched a s"
  shows "\<exists>r l. getID g s = Inr (r, s\<lparr>activeThreads := l\<rparr>) \<and> sched a (s\<lparr>activeThreads := l\<rparr>)
    \<and> (\<forall>t. r = Some t \<longrightarrow> (\<exists>th. Some t \<in> set (items (activeThreads s)) \<and> threads s t = Some th \<and> tID th = g))
    \<and> (r = None \<longrightarrow> (\<forall>t th. Some t \<in> set (items (activeThreads s)) \<and> threads s t = Some th \<longrightarrow> tID th \<noteq> g))"
proof -
  note o = schedD(7) [OF assms]
  have c: "counted (activeThreads s) (items (activeThreads s) @ [])" using o by (simp add: active_ok_def counted_def)
  have "\<forall>u \<in> set (items (activeThreads s)). \<exists>t th. u = Some t \<and> threads s t = Some th"
    using o by (fastforce simp: active_ok_def st_def)
  from find_id_ok [OF c refl this, of g None] obtain r l where
    r: "find_id (length (items (activeThreads s))) g None s = Inr (r, s\<lparr>activeThreads := l\<rparr>)"
      "counted l (items (activeThreads s))"
      "r = None \<or> (\<exists>t th. r = Some t \<and> Some t \<in> set (items (activeThreads s)) \<and> threads s t = Some th \<and> tID th = g)"
      "r = None \<longrightarrow> (\<forall>t th. Some t \<in> set (items (activeThreads s)) \<and> threads s t = Some th \<longrightarrow> tID th \<noteq> g)"
    by auto
  have "sched a (s\<lparr>activeThreads := l\<rparr>)" using assms r(2) o by (simp add: sched_def view_simps active_ok_def counted_def)
  moreover have "nat (nsize (activeThreads s)) = length (items (activeThreads s))" using o by (simp add: active_ok_def)
  ultimately show ?thesis using r by (auto simp: getID_def)
qed

lemma sched_join:
  assumes "sched False s" "list_all plain_frame (stk s (currentThread s))" "st s ch \<noteq> None" "\<not> dead (stk s) ch"
    "st s' = (st s)(currentThread s \<mapsto> BLOCKED)" "stk s' = stk s" "par s' = (par s)(ch \<mapsto> currentThread s)"
    "que s' = que s" "val s' = val s" "readyList s' = readyList s" "currentThread s' = currentThread s"
    "activeThreads s' = activeThreads s" "threadToBeDestroyed s' = threadToBeDestroyed s"
  shows "sched True s'"
proof -
  let ?c = "currentThread s" and ?S = "(st s)(currentThread s \<mapsto> BLOCKED)"
  note o = schedD [OF assms(1)]
  have c: "st s ?c = Some RUNNING" by (rule current_status [OF assms(1)])
  note p = plain_stack [where k = "stk s" and t = ?c, OF assms(2)]
  note nr = p(1,2)
  have nq: "?c \<notin> set (que s x)" for x using queues_okD(2) [OF o(4), of ?c x] c by auto
  have np: "p \<noteq> ?c" if "par s d = Some p" "\<not> dead (stk s) d" for d p
    using joins_okD(1) [OF o(5) that] c by auto
  have "ready_ok ?S (ready s)" using o(1) c by (auto simp: ready_ok_def)
  moreover have "current_ok True ?S ?c" using o(2) by (auto simp: current_ok_def)
  moreover have "stacks_ok ?S (stk s)" by (rule stacks_ok_status [OF o(3)]) (simp add: frames_ok_def p)
  moreover have "queues_ok ?S (stk s) (que s)"
    using queues_okD [OF o(4)] nq nr(1) by (intro queues_ok_sub [OF o(4)]) auto
  moreover have "joins_ok ?S (stk s) (que s) ((par s)(ch \<mapsto> ?c))"
    using nq nr(2) np joins_okD [OF o(5)] unfolding joins_ok_def fun_upd_apply
    by (metis (no_types, lifting) option.inject)
  moreover have "active_ok ?S (stk s) (activeThreads s)" using o(7) by (fastforce simp: active_ok_def)
  moreover have "doomed_ok ?S (stk s) (threadToBeDestroyed s)" using o(8) nr(2) by (auto simp: doomed_ok_def)
  ultimately show ?thesis using o(6) assms(5-) by (simp add: sched_def)
qed

lemma Inr_rbind_pairE:
  assumes "rbind m (\<lambda>(a, b). f a b) = Inr r"
  obtains a b where "m = Inr (a, b)" "f a b = Inr r"
  using assms by (auto simp: rbind_eq_Inr)

lemma the_id_ok:
  assumes "sched a s" "the_id g s = Inr (t, s')"
  shows "\<exists>l. s' = s\<lparr>activeThreads := l\<rparr>" "sched a s'" "st s t \<noteq> None \<and> \<not> dead (stk s) t"
proof -
  from getID_ok [OF assms(1), of g] obtain r l where
    g: "getID g s = Inr (r, s\<lparr>activeThreads := l\<rparr>)" "sched a (s\<lparr>activeThreads := l\<rparr>)"
    "\<forall>t. r = Some t \<longrightarrow> (\<exists>th. Some t \<in> set (items (activeThreads s)) \<and> threads s t = Some th \<and> tID th = g)" by blast
  then have e: "s' = s\<lparr>activeThreads := l\<rparr>" "r = Some t"
    using assms(2) by (auto simp: the_id_def rbind_eq_Inr split: option.splits)
  then show "\<exists>l. s' = s\<lparr>activeThreads := l\<rparr>" "sched a s'" using g(2) by auto
  show "st s t \<noteq> None \<and> \<not> dead (stk s) t"
    using g(3) e(2) schedD(7) [OF assms(1)] by (fastforce simp: active_ok_def)
qed

lemma sched_SC_Join:
  assumes "sched False s" "list_all plain_frame (stk s (currentThread s))" "SC_Join k s = Inr s'"
  shows "sched_ok s'"
proof -
  let ?c = "currentThread s"
  from getID_ok [OF assms(1), of k] obtain r l where
    g: "getID k s = Inr (r, s\<lparr>activeThreads := l\<rparr>)" "sched False (s\<lparr>activeThreads := l\<rparr>)" by blast
  let ?s1 = "s\<lparr>activeThreads := l\<rparr>"
  show ?thesis
  proof (cases "s' = s \<or> s' = ?s1")
    case True
    then show ?thesis using assms(1) g(2) by (auto simp: sched_ok_def)
  next
    case False
    then have "rbind (the_id k ?s1) (\<lambda>(_, s2). rbind (the_id k s2) (\<lambda>(child, s3).
      rbind (upd_thread child (\<lambda>t. t\<lparr>parent := Some ?c\<rparr>) s3) (\<lambda>s4.
      rbind (upd_thread ?c (\<lambda>t. t\<lparr>isJoined := True\<rparr>) s4) (\<lambda>s5.
      rbind (SetLevel kernel_call IntOff s5) (\<lambda>(_, _, s6). Sleep ?c s6))))) = Inr s'"
      using assms(3) g(1) by (auto simp: SC_Join_def Let_def get_thread_def split: if_splits option.splits)
    then obtain t s2 where 2: "the_id k ?s1 = Inr (t, s2)" "rbind (the_id k s2) (\<lambda>(child, s3).
      rbind (upd_thread child (\<lambda>t. t\<lparr>parent := Some ?c\<rparr>) s3) (\<lambda>s4.
      rbind (upd_thread ?c (\<lambda>t. t\<lparr>isJoined := True\<rparr>) s4) (\<lambda>s5.
      rbind (SetLevel kernel_call IntOff s5) (\<lambda>(_, _, s6). Sleep ?c s6)))) = Inr s'"
      by (rule Inr_rbind_pairE)
    obtain ch s3 where 3: "the_id k s2 = Inr (ch, s3)"
      "rbind (upd_thread ch (\<lambda>t. t\<lparr>parent := Some ?c\<rparr>) s3) (\<lambda>s4.
         rbind (upd_thread ?c (\<lambda>t. t\<lparr>isJoined := True\<rparr>) s4) (\<lambda>s5.
         rbind (SetLevel kernel_call IntOff s5) (\<lambda>(_, _, s6). Sleep ?c s6))) = Inr s'"
      using 2(2) by (rule Inr_rbind_pairE)
    note t2 = the_id_ok [OF g(2) 2(1)]
    note t3 = the_id_ok [OF t2(2) 3(1)]
    obtain l3 where s3: "s3 = s\<lparr>activeThreads := l3\<rparr>" using t2(1) t3(1) by auto
    obtain th where th: "threads s ch = Some th" using t3(3) t2(1) by (auto simp: view_simps st_def)
    define s4 where "s4 = s3\<lparr>threads := (threads s3)(ch \<mapsto> th\<lparr>parent := Some ?c\<rparr>)\<rparr>"
    have v: "stk s4 = stk s3" "par s4 = (par s3)(ch \<mapsto> ?c)" "st s4 = st s3" "que s4 = que s3" "val s4 = val s3"
      using view_thread [of s3 ch th] th s3 by (auto simp: view_simps s4_def)
    obtain tc where tc: "threads s4 ?c = Some tc"
      "Sleep ?c (s4\<lparr>threads := (threads s4)(?c \<mapsto> tc\<lparr>isJoined := True\<rparr>), level := IntOff\<rparr>) = Inr s'"
      using 3(2) th s3 by (auto simp: rbind_eq_Inr upd_thread_Inr SetLevel_IntOff s4_def)
    let ?s6 = "s4\<lparr>level := IntOff, threads := (threads s4)(?c \<mapsto> tc\<lparr>isJoined := True, tstatus := BLOCKED\<rparr>)\<rparr>"
    have p: "push_frame ?c Sleep_loop ?s6 = Inr s'" using tc(2) by (auto simp: Sleep_Inr)
    have "st s3 ch \<noteq> None" "\<not> dead (stk s3) ch" using t3(1,3) by (auto simp: view_simps)
    moreover have "stk ?s6 = stk s3" "par ?s6 = (par s3)(ch \<mapsto> ?c)" "st ?s6 = (st s3)(?c \<mapsto> BLOCKED)"
      "que ?s6 = que s3" "val ?s6 = val s3"
      using view_thread [OF tc(1)] v by (auto simp: view_simps fun_eq_iff split: if_splits)
    ultimately have "sched True ?s6"
      using s3 assms(2) by (intro sched_join [OF t3(2)]) (simp_all add: view_simps s4_def)
    from sched_ok_push_Sleep [OF this] p s3 show ?thesis by (simp add: s4_def)
  qed
qed

section \<open>The system as a step relation\<close>

lemma sched_user_ret:
  assumes "sched False s" "tick (s\<lparr>status := m\<rparr>) = Inr s'"
  shows "sched False s'"
proof -
  have "device_sys.more (s\<lparr>status := m\<rparr>) = device_sys.more s" by simp
  from sched_more [OF this] assms(1) have "sched False (s\<lparr>status := m\<rparr>)" by simp
  then show ?thesis using assms(2) by (rule sched_tick)
qed

lemma InitRegisters_more: "InitRegisters a s = Inr s' \<Longrightarrow> device_sys.more s' = device_sys.more s"
  by (auto simp: InitRegisters_def rbind_eq_Inr)

lemma sched_processCreator:
  assumes "sched False s" "processCreator s = Inr s'"
  shows "sched False s'"
proof -
  obtain a s1 s2 s3 where p: "InitRegisters a s = Inr s1" "RestoreState a s1 = Inr s2" "destroy_finished s2 = Inr s3"
    "s' = s3\<lparr>status := UserMode\<rparr>"
    using assms(2) by (auto simp: processCreator_def rbind_eq_Inr split: option.splits)
  have "sched False s1" using sched_more [OF InitRegisters_more [OF p(1)]] assms(1) by simp
  then have "sched False s2" using sched_same [OF RestoreState_same [OF p(2)]] by simp
  from sched_destroy_finished [OF this] p(3) have "sched False s3" by auto
  moreover have "device_sys.more s' = device_sys.more s3" using p(4) by simp
  ultimately show ?thesis using sched_more by blast
qed

lemma sched_ok_resume:
  assumes "sched_ok s" "resume s = Inr s'"
  shows "sched_ok s'"
proof -
  let ?c = "currentThread s"
  obtain th where th: "threads s ?c = Some th" using assms(2) by (auto simp: resume_def Let_def rbind_eq_Inr)
  show ?thesis
  proof (cases "kstack th")
    case Nil
    with assms th show ?thesis by (simp add: resume_def get_thread_def)
  next
    case (Cons fr frs)
    define s1 where "s1 = s\<lparr>threads := (threads s)(?c \<mapsto> th\<lparr>kstack := frs\<rparr>)\<rparr>"
    have r: "(case fr of Start a \<Rightarrow> set_level IntOn s1 | Run_ret \<Rightarrow> Run_in s1 | Yield_ret old \<Rightarrow> set_level old s1
         | Tick_ret m \<Rightarrow> Inr (s1\<lparr>status := m\<rparr>) | Sleep_loop \<Rightarrow> sleep_round s1
         | P_retry x old \<Rightarrow> P_loop x old s1 | Finish_ret \<Rightarrow> Inr s1
         | Restore_space \<Rightarrow> (case space th of None \<Rightarrow> Inl Null_Deref | Some a \<Rightarrow> RestoreState a s1)
         | User_ret \<Rightarrow> tick (s1\<lparr>status := UserMode\<rparr>) | Process_start \<Rightarrow> processCreator s1) = Inr s'"
      unfolding s1_def using assms(2) th Cons by (simp add: resume_def Let_def get_thread_def upd_thread_def)
    show ?thesis
    proof (cases "fr = Sleep_loop")
      case True
      have "\<not> sched False s"
        using frames_okD(1) [OF stacks_okD, of "st s" "stk s" ?c] schedD(3) [of False s] view_thread [OF th] Cons True by auto
      then have "sched True s1" using assms(1) th Cons True by (auto simp: sched_ok_def s1_def)
      then show ?thesis using r True by (auto intro: sched_sleep_round)
    next
      case False
      then have k: "sched False s" using assms(1) th Cons by (auto simp: sched_ok_def)
      have run: "st s ?c = Some RUNNING" by (rule current_status [OF k])
      have "fr \<noteq> Finish_ret"
        using frames_okD(2) [OF stacks_okD [OF schedD(3) [OF k]], of ?c] run view_thread [OF th] Cons by auto
      have pop: "sched False s1" if "plain_frame fr"
        unfolding s1_def by (rule sched_stack [OF k th]) (use that Cons run view_thread [OF th] in auto)
      show ?thesis
      proof (cases "is_retry fr")
        case True
        then obtain x old where "fr = P_retry x old" by (cases fr) auto
        with r Cons show ?thesis by (intro sched_P_retry [OF k th]) (auto simp: s1_def)
      next
        case nr: False
        then have "plain_frame fr" using False \<open>fr \<noteq> Finish_ret\<close> by (cases fr) auto
        from pop [OF this] this r show ?thesis
          by (cases fr) (auto simp: sched_ok_def split: option.splits dest: RestoreState_same [THEN sched_same]
            intro: sched_set_level sched_Run_in sched_user_ret sched_processCreator)
      qed
    qed
  qed
qed

text \<open>
  What can happen next. While the current thread has frames to return through it does so; otherwise
  its code calls the kernel, or (in user mode) the clock ticks. Threads and semaphores can be
  created at any time, and \<^verbatim>\<open>processCreator\<close> destroys a finished thread when a new process starts.
\<close>

inductive kstep :: "'z ksys \<Rightarrow> 'z ksys \<Rightarrow> bool" where
  resume: "stk s (currentThread s) \<noteq> [] \<Longrightarrow> resume s = Inr s' \<Longrightarrow> kstep s s'"
| yield: "stk s (currentThread s) = [] \<Longrightarrow> Yield (currentThread s) s = Inr s' \<Longrightarrow> kstep s s'"
| tick: "stk s (currentThread s) = [] \<Longrightarrow> tick s = Inr s' \<Longrightarrow> kstep s s'"
| p: "stk s (currentThread s) = [] \<Longrightarrow> P x s = Inr s' \<Longrightarrow> kstep s s'"
| v: "stk s (currentThread s) = [] \<Longrightarrow> V x s = Inr s' \<Longrightarrow> kstep s s'"
| set_level: "stk s (currentThread s) = [] \<Longrightarrow> set_level lv s = Inr s' \<Longrightarrow> kstep s s'"
| fork: "stk s (currentThread s) = [] \<Longrightarrow> st s t = Some JUST_CREATED \<Longrightarrow>
    func = [] \<or> func = [Process_start] \<Longrightarrow> Fork t func a s = Inr s' \<Longrightarrow> kstep s s'"
| join: "stk s (currentThread s) = [] \<Longrightarrow> SC_Join k s = Inr s' \<Longrightarrow> kstep s s'"
| finish: "stk s (currentThread s) = [] \<Longrightarrow> Finish (currentThread s) s = Inr s' \<Longrightarrow> kstep s s'"
| destroy: "stk s (currentThread s) = [] \<Longrightarrow> destroy_finished s = Inr s' \<Longrightarrow> kstep s s'"
| new_thread: "stk s (currentThread s) = [] \<Longrightarrow> threads s t = None \<Longrightarrow>
    kstep s (s\<lparr>threads := (threads s)(t \<mapsto> Thread_new nm g)\<rparr>)"
| activate: "stk s (currentThread s) = [] \<Longrightarrow> threads s t = Some th \<Longrightarrow> tstatus th = JUST_CREATED \<Longrightarrow>
    Some t \<notin> set (items (activeThreads s)) \<Longrightarrow>
    kstep s (s\<lparr>threads := (threads s)(t \<mapsto> th\<lparr>tID := n, space := sp\<rparr>), activeThreads := list_append (Some t) (activeThreads s)\<rparr>)"
| new_semaphore: "stk s (currentThread s) = [] \<Longrightarrow> semaphores s x = None \<Longrightarrow> 0 \<le> n \<Longrightarrow>
    kstep s (put_sem x (Semaphore_new n) s)"
| device: "stk s (currentThread s) = [] \<Longrightarrow> device_sys.more s' = device_sys.more s \<Longrightarrow> kstep s s'"

lemma not_asleep: "sched_ok s \<Longrightarrow> stk s (currentThread s) = [] \<Longrightarrow> sched False s"
  by (auto simp: sched_ok_def view_thread)

lemma sched_ok_running: "sched False s \<Longrightarrow> sched_ok s"
  by (simp add: sched_ok_def)

lemma sched_activate:
  assumes "sched False s" "threads s t = Some th" "tstatus th = JUST_CREATED" "Some t \<notin> set (items (activeThreads s))"
    "tstatus th' = tstatus th" "kstack th' = kstack th" "parent th' = parent th"
  shows "sched False (s\<lparr>threads := (threads s)(t \<mapsto> th'), activeThreads := list_append (Some t) (activeThreads s)\<rparr>)"
proof -
  let ?s = "s\<lparr>threads := (threads s)(t \<mapsto> th')\<rparr>"
  have s: "sched False ?s" using sched_same [OF same_thread [OF assms(2,5-7)]] assms(1) by blast
  note v = view_thread [OF assms(2)]
  have "stk s t = []" using frames_okD(5) [OF stacks_okD [OF schedD(3) [OF assms(1)]], of t] v assms(3) by simp
  then have "active_ok (st ?s) (stk ?s) (list_append (Some t) (activeThreads s))"
    using schedD(7) [OF s] assms v by (auto simp: active_ok_def view_simps dead_def)
  then show ?thesis using s by (simp add: sched_def view_simps)
qed

lemma sched_new_semaphore:
  assumes "sched a s" "semaphores s x = None" "0 \<le> n"
  shows "sched a (put_sem x (Semaphore_new n) s)"
proof -
  have "que s x = []" using assms(2) by (simp add: que_def)
  then have q: "(que s)(x := []) = que s" by auto
  have "wakeups_ok (stk s) ((que s)(x := [])) ((val s)(x := n))"
    by (rule wakeups_ok_upd [OF schedD(6) [OF assms(1)]]) (simp add: sem_ok_def assms(3))
  then show ?thesis using assms(1) q by (simp add: sched_def view_simps Semaphore_new_def)
qed

lemma sched_ok_kstep: "kstep s s' \<Longrightarrow> sched_ok s \<Longrightarrow> sched_ok s'"
proof (induction rule: kstep.induct)
  case (resume s s')
  then show ?case by (blast intro: sched_ok_resume)
next
  case (p s x s')
  from sched_P [OF not_asleep [OF p(3,1)] _ p(2)] p(1) show ?case by simp
next
  case (join s k s')
  from sched_SC_Join [OF not_asleep [OF join(3,1)] _ join(2)] join(1) show ?case by simp
next
  case (finish s s')
  from sched_Finish [OF not_asleep [OF finish(3,1)] _ finish(2)] finish(1) show ?case by simp
next
  case (fork s t func a s')
  then have "list_all plain_frame func" by auto
  from sched_Fork [OF not_asleep [OF fork(5,1)] fork(2) this fork(4)] show ?case by (rule sched_ok_running)
next
  case (activate s t th sp n)
  from sched_activate [OF not_asleep [OF activate(5,1)] activate(2-4), of "th\<lparr>tID := n, space := sp\<rparr>"]
  show ?case by (simp add: sched_ok_def)
next
  case (destroy s s')
  from sched_destroy_finished [OF not_asleep [OF destroy(3,1)]] destroy(2) show ?case by (auto simp: sched_ok_def)
next
  case (device s s')
  from sched_more [OF device(2), of False] not_asleep [OF device(3,1)] show ?case by (simp add: sched_ok_def)
next
  case (yield s s')
  then show ?case using sched_Yield not_asleep sched_ok_def by blast
qed (blast intro: sched_ok_running sched_tick sched_V sched_set_level sched_new_thread
      sched_new_semaphore not_asleep)+

section \<open>Reachable states\<close>

inductive kreach :: "thread_sys \<Rightarrow> bool" where
  boot: "kreach (kernel_boot rnd secs)"
| step: "kreach s \<Longrightarrow> kstep s s' \<Longrightarrow> kreach s'"

lemma sched_boot: "sched False (kernel_boot rnd secs)"
proof -
  let ?s = "kernel_boot rnd secs"
  have "threads ?s = [0 \<mapsto> (Thread_new ''main'' [])\<lparr>tstatus := RUNNING\<rparr>]" "semaphores ?s = Map.empty"
    by (simp_all add: kernel_boot_defs)
  then have v: "st ?s = [0 \<mapsto> RUNNING]" "stk ?s = (\<lambda>_. [])" "par ?s = (\<lambda>_. None)" "que ?s = (\<lambda>_. [])" "val ?s = (\<lambda>_. 0)"
    by (auto simp: st_def stk_def par_def que_def val_def Thread_new_def)
  have f: "ready ?s = []" "currentThread ?s = 0" "activeThreads ?s = list_new" "threadToBeDestroyed ?s = None"
    by (simp_all add: kernel_boot_defs list_new_def)
  have "finite {t. [0 \<mapsto> RUNNING] t \<noteq> None}" by (rule finite_subset [of _ "{0}"]) (auto split: if_splits)
  then show ?thesis unfolding sched_def v f
    by (auto simp: ready_ok_def current_ok_def stacks_ok_def queues_ok_def joins_ok_def wakeups_ok_def sem_ok_def
      active_ok_def doomed_ok_def frames_ok_def retrying_def dead_def list_new_def)
qed

lemma kreach_ok: "kreach s \<Longrightarrow> sched_ok s"
  by (induction rule: kreach.induct) (auto intro: sched_ok_kstep sched_ok_running sched_boot)

text \<open>A system with further state keeps the invariant.\<close>

lemma sched_extend: "sched a (thread_sys.extend (s\<lparr>mach := m\<rparr>) r) = sched a s"
proof -
  let ?e = "thread_sys.extend (s\<lparr>mach := m\<rparr>) r"
  have v: "st ?e = st s" "stk ?e = stk s" "par ?e = par s" "que ?e = que s" "val ?e = val s"
    by (simp_all add: thread_sys.defs st_def stk_def par_def que_def val_def fun_eq_iff)
  have "readyList ?e = readyList s" "currentThread ?e = currentThread s" "activeThreads ?e = activeThreads s"
    "threadToBeDestroyed ?e = threadToBeDestroyed s" by (simp_all add: thread_sys.defs)
  then show ?thesis by (simp only: sched_def v)
qed

text \<open>Both forms of the invariant give the same facts on the observable state.\<close>

lemma sched_ok_views:
  assumes "sched_ok s"
  obtains a ks where "\<forall>t. stk s t = (if a \<and> t = currentThread s then Sleep_loop # ks t else ks t)"
    "ready_ok (st s) (ready s)" "current_ok a (st s) (currentThread s)"
    "stacks_ok (st s) ks" "queues_ok (st s) ks (que s)"
    "joins_ok (st s) ks (que s) (par s)" "wakeups_ok ks (que s) (val s)"
    "doomed_ok (st s) ks (threadToBeDestroyed s)"
proof -
  consider "sched False s" | th frs where "threads s (currentThread s) = Some th" "kstack th = Sleep_loop # frs"
    "sched True (s\<lparr>threads := (threads s)(currentThread s \<mapsto> th\<lparr>kstack := frs\<rparr>)\<rparr>)"
    using assms by (auto simp: sched_ok_def)
  then show thesis
  proof cases
    case 1
    from that [of False "stk s"] schedD [OF 1] show ?thesis by simp
  next
    case 2
    note v = view_thread [OF 2(1)]
    have e: "(st s)(currentThread s \<mapsto> tstatus th) = st s" "(par s)(currentThread s := parent th) = par s"
      using v by auto
    from that [of True "(stk s)(currentThread s := frs)"] schedD [OF 2(3)] v 2(2) show ?thesis
      by (simp add: view_simps e)
  qed
qed

lemma views_dead_retrying:
  assumes "\<forall>t. stk s t = (if a \<and> t = currentThread s then Sleep_loop # ks t else ks t)"
  shows "dead (stk s) t = dead ks t" "retrying (stk s) x t = retrying ks x t"
  using assms by (simp_all add: dead_def retrying_def)

end
