(* ===== verification/Bit_Map.thy ===== *)
theory Bit_Map
  imports Nachos_Prelude
begin

text \<open>
  The bitmap of \<^verbatim>\<open>userprog/bitmap.cc\<close>: \<open>numBits\<close> bits kept in an array of 32-bit words.
  Nachos uses it to hand out physical page frames (\<^verbatim>\<open>threads/system.cc\<close>) and disk sectors
  (\<^verbatim>\<open>filesys/filesys.cc\<close>). The operations work on the words with the masks of the code;
  \<open>marked\<close> is the set of bit numbers they represent. The interface locale \<open>allocator\<close>
  states what the clients of \<^verbatim>\<open>Find\<close> and \<^verbatim>\<open>NumClear\<close> rely on.
\<close>

section \<open>Operations\<close>

definition BitsInByte :: nat where
  "BitsInByte = 8"

definition BitsInWord :: nat where
  "BitsInWord = 32"

record bitmap =
  numBits :: nat
  numWords :: nat
  bit_words :: "word32 list"

definition bit_mask :: "nat \<Rightarrow> word32" where
  "bit_mask i = push_bit (i mod BitsInWord) 1"

definition Mark :: "int \<Rightarrow> bitmap \<Rightarrow> bitmap result" where
  "Mark which b = rbind (ASSERT (which \<ge> 0 \<and> which < int (numBits b))) (\<lambda>_.
     let i = nat which in
     rbind (array_get (bit_words b) (i div BitsInWord)) (\<lambda>w.
     rbind (array_set (bit_words b) (i div BitsInWord) (w OR bit_mask i)) (\<lambda>ws.
     Inr (b\<lparr>bit_words := ws\<rparr>))))"

definition Clear :: "int \<Rightarrow> bitmap \<Rightarrow> bitmap result" where
  "Clear which b = rbind (ASSERT (which \<ge> 0 \<and> which < int (numBits b))) (\<lambda>_.
     let i = nat which in
     rbind (array_get (bit_words b) (i div BitsInWord)) (\<lambda>w.
     rbind (array_set (bit_words b) (i div BitsInWord) (w AND NOT (bit_mask i))) (\<lambda>ws.
     Inr (b\<lparr>bit_words := ws\<rparr>))))"

definition Test :: "int \<Rightarrow> bitmap \<Rightarrow> bool result" where
  "Test which b = rbind (ASSERT (which \<ge> 0 \<and> which < int (numBits b))) (\<lambda>_.
     let i = nat which in
     rbind (array_get (bit_words b) (i div BitsInWord)) (\<lambda>w.
     Inr (w AND bit_mask i \<noteq> 0)))"

text \<open>
  The constructor clears bit by bit an array whose words operator \<^verbatim>\<open>new\<close> left as they were
  (\<open>garbage\<close>).
\<close>

primrec clear_bits :: "nat list \<Rightarrow> bitmap \<Rightarrow> bitmap result" where
  "clear_bits [] b = Inr b"
| "clear_bits (i # is) b = rbind (Clear (int i) b) (clear_bits is)"

definition BitMap_new :: "nat \<Rightarrow> word32 list \<Rightarrow> bitmap result" where
  "BitMap_new nitems garbage = clear_bits [0..<nitems]
     \<lparr>numBits = nitems, numWords = divRoundUp nitems BitsInWord,
      bit_words = take (divRoundUp nitems BitsInWord) garbage\<rparr>"

function find_from :: "nat \<Rightarrow> bitmap \<Rightarrow> (int \<times> bitmap) result" where
  "find_from i b = (if i < numBits b then
     rbind (Test (int i) b) (\<lambda>t. if \<not> t then rbind (Mark (int i) b) (\<lambda>b'. Inr (int i, b'))
                                  else find_from (Suc i) b)
     else Inr (- 1, b))"
  by pat_completeness auto
termination
  by (relation "measure (\<lambda>(i, b). numBits b - i)") auto

definition Find :: "bitmap \<Rightarrow> (int \<times> bitmap) result" where
  "Find b = find_from 0 b"

function count_clear_from :: "nat \<Rightarrow> nat \<Rightarrow> bitmap \<Rightarrow> nat result" where
  "count_clear_from i n b = (if i < numBits b then
     rbind (Test (int i) b) (\<lambda>t. count_clear_from (Suc i) (if \<not> t then n + 1 else n) b)
     else Inr n)"
  by pat_completeness auto
termination
  by (relation "measure (\<lambda>(i, n, b). numBits b - i)") auto

definition NumClear :: "bitmap \<Rightarrow> nat result" where
  "NumClear b = count_clear_from 0 0 b"

text \<open>\<^verbatim>\<open>Print\<close>: the characters it writes, a heading and one per bit.\<close>

function print_from :: "nat \<Rightarrow> bitmap \<Rightarrow> string result" where
  "print_from i b = (if i < numBits b then
     rbind (Test (int i) b) (\<lambda>t. rbind (print_from (Suc i) b) (\<lambda>s.
       Inr ((if t then CHR ''1'' else CHR ''0'') # s)))
     else Inr [CHR 0x0A])"
  by pat_completeness auto
termination
  by (relation "measure (\<lambda>(i, b). numBits b - i)") auto

definition BitMap_Print :: "bitmap \<Rightarrow> string result" where
  "BitMap_Print b = rbind (print_from 0 b) (\<lambda>s. Inr (''Bitmap set:'' @ CHR 0x0A # s))"

declare find_from.simps [simp del] count_clear_from.simps [simp del]
  print_from.simps [simp del]

section \<open>Well-formedness and the set of marked bits\<close>

definition bm_wf :: "bitmap \<Rightarrow> bool" where
  "bm_wf b \<longleftrightarrow> numWords b = divRoundUp (numBits b) BitsInWord \<and> length (bit_words b) = numWords b"

definition bit_at :: "bitmap \<Rightarrow> nat \<Rightarrow> bool" where
  "bit_at b i \<longleftrightarrow> bit (bit_words b ! (i div BitsInWord)) (i mod BitsInWord)"

definition marked :: "bitmap \<Rightarrow> nat set" where
  "marked b = {i. i < numBits b \<and> bit_at b i}"

lemma BitsInWord_pos [simp]: "0 < BitsInWord"
  by (simp add: BitsInWord_def)

lemma bit_mask_iff: "j < 32 \<Longrightarrow> bit (bit_mask i) j \<longleftrightarrow> j = i mod BitsInWord"
  by (auto simp: bit_mask_def bit_exp_iff BitsInWord_def)

lemma and_bit_mask: "w AND bit_mask i \<noteq> 0 \<longleftrightarrow> bit w (i mod BitsInWord)"
proof -
  have "i mod BitsInWord < 32" by (simp add: BitsInWord_def)
  then have "bit (w AND bit_mask i) j \<longleftrightarrow> j = i mod BitsInWord \<and> bit w j" for j
    using bit_mask_iff [of j i] bit_imp_le_length [of w j]
    by (auto simp: bit_and_iff)
  then show ?thesis by (metis bit_0_eq bot_apply bot_bool_def bit_eqI)
qed

lemma index_in_words: "bm_wf b \<Longrightarrow> i < numBits b \<Longrightarrow> i div BitsInWord < length (bit_words b)"
  using less_divRoundUp_iff [of BitsInWord "i div BitsInWord" "numBits b"]
  by (simp add: bm_wf_def) (meson div_times_less_eq_dividend le_less_trans)

lemma same_bit_iff: "i div BitsInWord = j div BitsInWord \<and> i mod BitsInWord = j mod BitsInWord \<longleftrightarrow> i = j"
  by (metis div_mult_mod_eq)

lemma Test_ok: "bm_wf b \<Longrightarrow> i < numBits b \<Longrightarrow> Test (int i) b = Inr (bit_at b i)"
  by (simp add: Test_def index_in_words and_bit_mask bit_at_def)

lemma update_word:
  assumes "bm_wf b" "i < numBits b"
    and v: "\<And>j. j < 32 \<Longrightarrow> bit v j = (if j = i mod BitsInWord then x
                                     else bit (bit_words b ! (i div BitsInWord)) j)"
  defines "b' \<equiv> b\<lparr>bit_words := (bit_words b)[i div BitsInWord := v]\<rparr>"
  shows "bm_wf b' \<and> numBits b' = numBits b \<and> (\<forall>j < numBits b. bit_at b' j = (if j = i then x else bit_at b j))"
proof -
  have "bit_at b' j = (if j = i then x else bit_at b j)" if "j < numBits b" for j
  proof (cases "j div BitsInWord = i div BitsInWord")
    case True
    then have "j = i \<longleftrightarrow> j mod BitsInWord = i mod BitsInWord"
      using same_bit_iff [of j i] by blast
    moreover have "j mod BitsInWord < 32" by (simp add: BitsInWord_def)
    ultimately show ?thesis
      using True index_in_words [OF assms(1,2)] v
      by (auto simp: bit_at_def b'_def)
  next
    case False
    then have "j \<noteq> i" by auto
    with False show ?thesis by (simp add: bit_at_def b'_def)
  qed
  then show ?thesis using assms(1) by (simp add: bm_wf_def b'_def)
qed

lemma Mark_ok:
  assumes "bm_wf b" "i < numBits b"
  shows "\<exists>b'. Mark (int i) b = Inr b' \<and> bm_wf b' \<and> numBits b' = numBits b
     \<and> (\<forall>j < numBits b. bit_at b' j = (j = i \<or> bit_at b j))"
proof -
  let ?w = "bit_words b ! (i div BitsInWord)"
  have "bit (?w OR bit_mask i) j = (if j = i mod BitsInWord then True else bit ?w j)"
    if "j < 32" for j
    using that bit_mask_iff [OF that, of i] by (auto simp: bit_or_iff)
  from update_word [OF assms this] show ?thesis
    using assms index_in_words [OF assms] by (auto simp: Mark_def)
qed

lemma Clear_ok:
  assumes "bm_wf b" "i < numBits b"
  shows "\<exists>b'. Clear (int i) b = Inr b' \<and> bm_wf b' \<and> numBits b' = numBits b
     \<and> (\<forall>j < numBits b. bit_at b' j = (j \<noteq> i \<and> bit_at b j))"
proof -
  let ?w = "bit_words b ! (i div BitsInWord)"
  have "bit (?w AND NOT (bit_mask i)) j = (if j = i mod BitsInWord then False else bit ?w j)"
    if "j < 32" for j
    using that bit_mask_iff [OF that, of i] by (auto simp: bit_and_iff bit_not_iff)
  from update_word [OF assms this] show ?thesis
    using assms index_in_words [OF assms] by (auto simp: Clear_def)
qed

lemma out_of_range_asserts:
  assumes "which < 0 \<or> int (numBits b) \<le> which"
  shows "Mark which b = Inl Assert_Failed" "Clear which b = Inl Assert_Failed"
    "Test which b = Inl Assert_Failed"
  using assms by (auto simp: Mark_def Clear_def Test_def ASSERT_def)

lemma Mark_marked:
  "bm_wf b \<Longrightarrow> i < numBits b \<Longrightarrow>
   \<exists>b'. Mark (int i) b = Inr b' \<and> bm_wf b' \<and> numBits b' = numBits b \<and> marked b' = insert i (marked b)"
  using Mark_ok [of b i] by (auto simp: marked_def)

lemma Clear_marked:
  "bm_wf b \<Longrightarrow> i < numBits b \<Longrightarrow>
   \<exists>b'. Clear (int i) b = Inr b' \<and> bm_wf b' \<and> numBits b' = numBits b \<and> marked b' = marked b - {i}"
  using Clear_ok [of b i] by (auto simp: marked_def)

lemma find_from_step:
  "bm_wf b \<Longrightarrow> i < numBits b \<Longrightarrow> bit_at b i \<Longrightarrow> find_from i b = find_from (Suc i) b"
  by (simp add: find_from.simps [of i b] Test_ok)

lemma find_from_hit:
  assumes "bm_wf b" "i \<le> k" "k < numBits b" "\<not> bit_at b k" "\<forall>j. i \<le> j \<and> j < k \<longrightarrow> bit_at b j"
  shows "find_from i b = rbind (Mark (int k) b) (\<lambda>b'. Inr (int k, b'))"
  using assms(2,5)
proof (induction i rule: inc_induct)
  case base
  then show ?case using assms by (simp add: find_from.simps [of k b] Test_ok)
next
  case (step i)
  then show ?case using assms find_from_step [of b i] by simp
qed

lemma find_from_full:
  assumes "bm_wf b" "\<forall>j. i \<le> j \<and> j < numBits b \<longrightarrow> bit_at b j"
  shows "find_from i b = Inr (- 1, b)"
proof (cases "i \<le> numBits b")
  case True
  then show ?thesis using assms(2)
  proof (induction i rule: inc_induct)
    case base
    then show ?case by (simp add: find_from.simps [of "numBits b" b])
  next
    case (step i)
    then show ?case using assms(1) find_from_step [of b i] by simp
  qed
next
  case False
  then show ?thesis by (simp add: find_from.simps [of i b])
qed

lemma count_clear_from_spec:
  assumes "bm_wf b"
  shows "count_clear_from i n b = Inr (n + card {j. i \<le> j \<and> j < numBits b \<and> j \<notin> marked b})"
  using assms
proof (induction i n b rule: count_clear_from.induct)
  case (1 i n b)
  show ?case
  proof (cases "i < numBits b")
    case False
    then show ?thesis by (simp add: count_clear_from.simps [of i n b])
  next
    case True
    let ?S = "\<lambda>i. {j. i \<le> j \<and> j < numBits b \<and> j \<notin> marked b}"
    have mark: "i \<in> marked b \<longleftrightarrow> bit_at b i" using True by (simp add: marked_def)
    have "?S i = (if bit_at b i then ?S (Suc i) else insert i (?S (Suc i)))"
      using True mark by (auto simp: Suc_le_eq le_less)
    moreover have "finite (?S (Suc i))" "i \<notin> ?S (Suc i)" by auto
    ultimately have "card (?S i) = (if bit_at b i then 0 else 1) + card (?S (Suc i))" by simp
    moreover have "count_clear_from i n b
        = count_clear_from (Suc i) (if \<not> bit_at b i then n + 1 else n) b"
      using True "1.prems" by (simp add: count_clear_from.simps [of i n b] Test_ok)
    ultimately show ?thesis
      using "1.IH" [OF True Test_ok [OF "1.prems" True] "1.prems"] by (simp split: if_splits)
  qed
qed

lemma marked_subset: "marked b \<subseteq> {..<numBits b}"
  by (auto simp: marked_def)

lemma NumClear_spec: "bm_wf b \<Longrightarrow> NumClear b = Inr (numBits b - card (marked b))"
proof -
  assume wf: "bm_wf b"
  have "{j. 0 \<le> j \<and> j < numBits b \<and> j \<notin> marked b} = {..<numBits b} - marked b" by auto
  moreover have "finite (marked b)" using marked_subset finite_subset by blast
  ultimately show ?thesis
    using count_clear_from_spec [OF wf, of 0 0] marked_subset
    by (simp add: NumClear_def card_Diff_subset)
qed

lemma clear_bits_spec:
  assumes "bm_wf b" "\<forall>i \<in> set is. i < numBits b"
  shows "\<exists>b'. clear_bits is b = Inr b' \<and> bm_wf b' \<and> numBits b' = numBits b
     \<and> marked b' = marked b - set is"
  using assms
proof (induction "is" arbitrary: b)
  case Nil
  then show ?case by simp
next
  case (Cons i "is")
  from Clear_marked [of b i] Cons.prems obtain b1 where
    b1: "Clear (int i) b = Inr b1" "bm_wf b1" "numBits b1 = numBits b" "marked b1 = marked b - {i}"
    by auto
  from Cons.IH [OF b1(2)] Cons.prems b1 show ?case by auto
qed

lemma BitMap_new_spec:
  assumes "divRoundUp n BitsInWord \<le> length garbage"
  shows "\<exists>b. BitMap_new n garbage = Inr b \<and> bm_wf b \<and> numBits b = n \<and> marked b = {}"
proof -
  let ?b = "\<lparr>numBits = n, numWords = divRoundUp n BitsInWord,
      bit_words = take (divRoundUp n BitsInWord) garbage\<rparr>"
  have "bm_wf ?b" using assms by (simp add: bm_wf_def)
  from clear_bits_spec [OF this, of "[0..<n]"] show ?thesis
    using marked_subset [of ?b] by (auto simp: BitMap_new_def lessThan_atLeast0)
qed

section \<open>The allocator interface\<close>

text \<open>
  What a client that takes units from a free map relies on: \<open>find_op\<close> takes the least
  free unit or reports -1 and changes nothing, \<open>free_op\<close> gives a unit back, \<open>clear_op\<close>
  counts the free ones.
\<close>

locale allocator =
  fixes ok :: "'b \<Rightarrow> bool" and cap :: "'b \<Rightarrow> nat" and used :: "'b \<Rightarrow> nat set"
    and find_op :: "'b \<Rightarrow> (int \<times> 'b) result"
    and free_op :: "int \<Rightarrow> 'b \<Rightarrow> 'b result"
    and clear_op :: "'b \<Rightarrow> nat result"
  assumes used_subset: "used b \<subseteq> {..<cap b}"
    and find_free: "ok b \<Longrightarrow> used b \<noteq> {..<cap b} \<Longrightarrow>
      \<exists>i b'. find_op b = Inr (int i, b') \<and> ok b' \<and> cap b' = cap b \<and> i < cap b \<and> i \<notin> used b
           \<and> (\<forall>j < i. j \<in> used b) \<and> used b' = insert i (used b)"
    and find_full: "ok b \<Longrightarrow> used b = {..<cap b} \<Longrightarrow> find_op b = Inr (- 1, b)"
    and free_law: "ok b \<Longrightarrow> i < cap b \<Longrightarrow>
      \<exists>b'. free_op (int i) b = Inr b' \<and> ok b' \<and> cap b' = cap b \<and> used b' = used b - {i}"
    and clear_law: "ok b \<Longrightarrow> clear_op b = Inr (cap b - card (used b))"
begin

fun take_units :: "nat \<Rightarrow> 'b \<Rightarrow> (int list \<times> 'b) result" where
  "take_units 0 b = Inr ([], b)"
| "take_units (Suc n) b = rbind (find_op b) (\<lambda>(i, b').
     rbind (take_units n b') (\<lambda>(is, b''). Inr (i # is, b'')))"

lemma finite_used: "finite (used b)"
  using used_subset finite_subset by blast

lemma take_units_ok:
  assumes "ok b" "n \<le> cap b - card (used b)"
  shows "\<exists>is b'. take_units n b = Inr (map int is, b') \<and> ok b' \<and> cap b' = cap b
     \<and> length is = n \<and> distinct is \<and> set is \<subseteq> {..<cap b} - used b \<and> used b' = used b \<union> set is"
  using assms
proof (induction n arbitrary: b)
  case 0
  then show ?case by (intro exI [where x = "[]"] exI [where x = b]) simp
next
  case (Suc n)
  then have "card (used b) < cap b" by simp
  then have "used b \<noteq> {..<cap b}" by (metis card_lessThan less_irrefl)
  from find_free [OF Suc.prems(1) this] obtain i b1 where
    f: "find_op b = Inr (int i, b1)" "ok b1" "cap b1 = cap b" "i < cap b" "i \<notin> used b"
      "used b1 = insert i (used b)" by blast
  have "n \<le> cap b1 - card (used b1)"
    using Suc.prems(2) f finite_used by simp
  from Suc.IH [OF f(2) this] obtain "is" b2 where
    r: "take_units n b1 = Inr (map int is, b2)" "ok b2" "cap b2 = cap b" "length is = n"
      "distinct is" "set is \<subseteq> {..<cap b} - insert i (used b)" "used b2 = insert i (used b) \<union> set is"
    using f by auto
  then show ?case
    using f by (intro exI [where x = "i # is"] exI [where x = b2]) auto
qed

end

lemma Find_free_bit:
  assumes "bm_wf b" "marked b \<noteq> {..<numBits b}"
  shows "\<exists>i b'. Find b = Inr (int i, b') \<and> bm_wf b' \<and> numBits b' = numBits b \<and> i < numBits b
     \<and> i \<notin> marked b \<and> (\<forall>j < i. j \<in> marked b) \<and> marked b' = insert i (marked b)"
proof -
  let ?P = "\<lambda>i. i < numBits b \<and> \<not> bit_at b i"
  define i where "i = (LEAST i. ?P i)"
  have "\<exists>i. ?P i" using assms(2) by (auto simp: marked_def)
  then have i: "?P i" unfolding i_def by (rule LeastI_ex)
  have least: "bit_at b j" if "j < i" for j
    using that i not_less_Least [of j ?P] by (auto simp: i_def)
  obtain b' where b': "Mark (int i) b = Inr b'" "bm_wf b'" "numBits b' = numBits b"
      "marked b' = insert i (marked b)"
    using Mark_marked [OF assms(1), of i] i by blast
  have "Find b = Inr (int i, b')"
    using find_from_hit [OF assms(1), of 0 i] i least b' by (simp add: Find_def)
  then show ?thesis
    using b' i least by (intro exI [where x = i] exI [where x = b']) (simp add: marked_def)
qed

lemma Find_full:
  "bm_wf b \<Longrightarrow> marked b = {..<numBits b} \<Longrightarrow> Find b = Inr (- 1, b)"
  by (auto simp: Find_def marked_def intro!: find_from_full)

interpretation bm: allocator bm_wf numBits marked Find Clear NumClear
  by unfold_locales
    (fact marked_subset Find_free_bit Find_full Clear_marked NumClear_spec)+

section \<open>Properties\<close>

text \<open>
  \<^verbatim>\<open>Find\<close> returns the least clear bit and sets exactly that bit; when every bit is set it
  returns -1 and changes nothing.
\<close>

theorem find_takes_least_clear_bit:
  assumes "bm_wf b"
  shows "if marked b = {..<numBits b} then Find b = Inr (- 1, b)
     else \<exists>i b'. Find b = Inr (int i, b') \<and> i \<notin> marked b \<and> i < numBits b \<and> (\<forall>j < i. j \<in> marked b)
            \<and> marked b' = insert i (marked b) \<and> bm_wf b' \<and> numBits b' = numBits b"
  using bm.find_free [OF assms] bm.find_full [OF assms] by (cases "marked b = {..<numBits b}") meson+

definition demo_map :: bitmap where
  "demo_map = \<lparr>numBits = 40, numWords = 2, bit_words = [0xFFFFFFFF, 1]\<rparr>"

lemma demo_map_wf: "bm_wf demo_map"
  by (simp add: bm_wf_def demo_map_def divRoundUp_def BitsInWord_def)

theorem find_takes_least_clear_bit_witness:
  "33 \<notin> marked demo_map \<and> (\<exists>i b'. Find demo_map = Inr (int i, b') \<and> i \<notin> marked demo_map)"
proof -
  have "33 \<notin> marked demo_map"
    by (simp add: marked_def bit_at_def demo_map_def BitsInWord_def)
  moreover have "33 \<in> {..<numBits demo_map}" by (simp add: demo_map_def)
  ultimately have "marked demo_map \<noteq> {..<numBits demo_map}" by metis
  then have "\<exists>i b'. Find demo_map = Inr (int i, b') \<and> i \<notin> marked demo_map"
    using find_takes_least_clear_bit [OF demo_map_wf] by meson
  with \<open>33 \<notin> _\<close> show ?thesis ..
qed

text \<open>
  C34: \<^verbatim>\<open>Mark\<close>, \<^verbatim>\<open>Clear\<close>, \<^verbatim>\<open>Test\<close> and \<^verbatim>\<open>NumClear\<close> are the set operations on the marked bits, and a
  bit number outside the map stops in the \<^verbatim>\<open>ASSERT\<close>.
\<close>

theorem bitmap_is_a_set:
  assumes "bm_wf b"
  shows "(if 0 \<le> i \<and> i < int (numBits b)
     then Test i b = Inr (nat i \<in> marked b)
       \<and> (\<exists>b'. Mark i b = Inr b' \<and> bm_wf b' \<and> marked b' = insert (nat i) (marked b))
       \<and> (\<exists>b'. Clear i b = Inr b' \<and> bm_wf b' \<and> marked b' = marked b - {nat i})
     else Test i b = Inl Assert_Failed \<and> Mark i b = Inl Assert_Failed
       \<and> Clear i b = Inl Assert_Failed)
   \<and> NumClear b = Inr (numBits b - card (marked b))"
proof (cases "0 \<le> i \<and> i < int (numBits b)")
  case True
  define k where "k = nat i"
  then have k: "i = int k" "k < numBits b" using True by (simp_all add: nat_less_iff)
  then have "bit_at b k \<longleftrightarrow> k \<in> marked b" by (simp add: marked_def)
  with k show ?thesis
    using Test_ok [OF assms, of k] Mark_marked [OF assms, of k] Clear_marked [OF assms, of k]
      NumClear_spec [OF assms] by simp blast
next
  case False
  then have "i < 0 \<or> int (numBits b) \<le> i" by linarith
  with False show ?thesis using out_of_range_asserts [of i b] NumClear_spec [OF assms] by simp
qed

theorem bitmap_is_a_set_witness:
  "Test 32 demo_map = Inr (nat 32 \<in> marked demo_map) \<and> Mark 40 demo_map = Inl Assert_Failed"
  using bitmap_is_a_set [OF demo_map_wf, of 32] bitmap_is_a_set [OF demo_map_wf, of 40]
  by (simp add: demo_map_def)

text \<open>
  The constructor returns an empty map of \<open>n\<close> bits whatever the allocated words held.
\<close>

theorem new_bitmap_is_empty:
  assumes "divRoundUp n BitsInWord \<le> length garbage"
  shows "\<exists>b. BitMap_new n garbage = Inr b \<and> bm_wf b \<and> numBits b = n \<and> marked b = {}
     \<and> NumClear b = Inr n"
  using BitMap_new_spec [OF assms] NumClear_spec by fastforce

theorem new_bitmap_is_empty_witness:
  "\<exists>b. BitMap_new 40 [0xFFFFFFFF, 0xFFFFFFFF] = Inr b \<and> marked b = {} \<and> NumClear b = Inr 40"
proof -
  have "divRoundUp 40 BitsInWord \<le> length [0xFFFFFFFF :: word32, 0xFFFFFFFF]"
    by (simp add: divRoundUp_def BitsInWord_def)
  from new_bitmap_is_empty [OF this] show ?thesis by blast
qed

end
