(* ===== verification/File_Header.thy ===== *)
theory File_Header
  imports Bit_Map Devices
begin

text \<open>
  The lowest layer of the file system: whole sectors as \<^verbatim>\<open>SynchDisk\<close> moves them
  (\<^verbatim>\<open>filesys/synchdisk.cc\<close>), \<^verbatim>\<open>int\<close>s as the host lays them out in memory and so on disk, and the
  file header (\<^verbatim>\<open>filesys/filehdr.cc\<close>), which names the sectors of a file and takes them from the free map.
  Memory that operator \<^verbatim>\<open>new\<close> leaves uninitialised is a parameter (\<open>junk\<close>).
\<close>

section \<open>Buffers\<close>

definition array_get_int :: "'a list \<Rightarrow> int \<Rightarrow> 'a result" where
  "array_get_int xs i = (if i < 0 then Inl Bad_Index else array_get xs (nat i))"

text \<open>\<^verbatim>\<open>bcopy(&src[i], &dst[j], n)\<close>, with the bounds of both arrays.\<close>

definition bcopy :: "byte list \<Rightarrow> int \<Rightarrow> byte list \<Rightarrow> int \<Rightarrow> int \<Rightarrow> byte list result" where
  "bcopy src i dst j n =
     (if 0 \<le> i \<and> 0 \<le> j \<and> 0 \<le> n \<and> i + n \<le> int (length src) \<and> j + n \<le> int (length dst)
      then Inr (take (nat j) dst @ take (nat n) (drop (nat i) src) @ drop (nat (j + n)) dst)
      else Inl Bad_Index)"

definition new_chars :: "(nat \<Rightarrow> byte) \<Rightarrow> int \<Rightarrow> byte list" where
  "new_chars junk n = map junk [0..<nat n]"

definition int_ok :: "int \<Rightarrow> bool" where
  "int_ok k \<longleftrightarrow> - (2 ^ 31) \<le> k \<and> k < 2 ^ 31"

definition int_add :: "int \<Rightarrow> int \<Rightarrow> int result" where
  "int_add a b = (if int_ok (a + b) then Inr (a + b) else Inl Int_Overflow)"

text \<open>The macros of \<^verbatim>\<open>utility.h\<close> on signed operands: \<^verbatim>\<open>/\<close> and \<^verbatim>\<open>%\<close> truncate.\<close>

definition sdivRoundDown :: "int \<Rightarrow> int \<Rightarrow> int" where
  "sdivRoundDown n s = n sdiv s"

definition sdivRoundUp :: "int \<Rightarrow> int \<Rightarrow> int" where
  "sdivRoundUp n s = n sdiv s + (if n smod s > 0 then 1 else 0)"

lemma sdivRound_nat [simp]:
  "0 < s \<Longrightarrow> sdivRoundDown (int n) (int s) = int (divRoundDown n s)"
  "0 < s \<Longrightarrow> sdivRoundUp (int n) (int s) = int (divRoundUp n s)"
  by (simp_all add: sdivRoundDown_def sdivRoundUp_def divRoundDown_def divRoundUp_def
      smod_sdiv_nonneg zdiv_int flip: of_nat_mod)

lemma bcopy_ok:
  "i + n \<le> length src \<Longrightarrow> j + n \<le> length dst \<Longrightarrow>
   bcopy src (int i) dst (int j) (int n) = Inr (take j dst @ take n (drop i src) @ drop (j + n) dst)"
  by (simp add: bcopy_def nat_add_distrib)

lemma bcopy_Inr:
  assumes "bcopy src i dst j n = Inr dst'"
  shows "length dst' = length dst" "0 \<le> i" "0 \<le> j" "0 \<le> n" "i + n \<le> int (length src)"
    "j + n \<le> int (length dst)"
  using assms by (auto simp: bcopy_def split: if_splits)

lemma nth_splice:
  assumes "j + length ys \<le> length xs" "k < length xs"
  shows "(take j xs @ ys @ drop (j + length ys) xs) ! k
    = (if j \<le> k \<and> k < j + length ys then ys ! (k - j) else xs ! k)"
  using assms by (auto simp: nth_append)

lemma length_new_chars [simp]: "length (new_chars junk n) = nat n"
  by (simp add: new_chars_def)

section \<open>Integers in memory\<close>

definition ints_bytes :: "int list \<Rightarrow> byte list" where
  "ints_bytes xs = concat (map (\<lambda>x. word_bytes (word_of_int x)) xs)"

fun bytes_ints :: "byte list \<Rightarrow> int list" where
  "bytes_ints (a # b # c # d # bs) = sint (bytes_word [a, b, c, d]) # bytes_ints bs"
| "bytes_ints bs = []"

lemma length_ints_bytes [simp]: "length (ints_bytes xs) = 4 * length xs"
  by (induction xs) (simp_all add: ints_bytes_def)

lemma length_bytes_ints [simp]: "length (bytes_ints bs) = length bs div 4"
  by (induction bs rule: bytes_ints.induct) simp_all

lemma bytes_ints_word: "bytes_ints (word_bytes w @ bs) = sint w # bytes_ints bs"
  by (simp add: word_bytes_def bytes_word_def)

lemma bytes_ints_bytes:
  "\<forall>x \<in> set xs. int_ok x \<Longrightarrow> bytes_ints (ints_bytes xs) = xs"
  by (induction xs)
     (simp_all add: ints_bytes_def bytes_ints_word sint_word_of_int32 int_ok_def)

lemma bytes_ints_ok: "x \<in> set (bytes_ints bs) \<Longrightarrow> int_ok x"
proof (induction bs rule: bytes_ints.induct)
  case (1 a b c d bs)
  have "int_ok (sint w)" for w :: word32
    using sint_greater_eq [of w] sint_less [of w] by (simp add: int_ok_def)
  with 1 show ?case by auto
qed simp_all

section \<open>Sectors\<close>

type_synonym sectors = "nat \<Rightarrow> byte list"

definition ReadSector :: "int \<Rightarrow> sectors \<Rightarrow> byte list result" where
  "ReadSector sectorNumber d = rbind (ASSERT (valid_sector sectorNumber)) (\<lambda>_. Inr (d (nat sectorNumber)))"

definition WriteSector :: "int \<Rightarrow> byte list \<Rightarrow> sectors \<Rightarrow> sectors result" where
  "WriteSector sectorNumber data d = rbind (ASSERT (valid_sector sectorNumber)) (\<lambda>_.
     if length data < SectorSize then Inl Bad_Index
     else Inr (d(nat sectorNumber := take SectorSize data)))"

definition disk_wf :: "sectors \<Rightarrow> bool" where
  "disk_wf d \<longleftrightarrow> (\<forall>n < NumSectors. length (d n) = SectorSize)"

lemma valid_sector_int [simp]: "valid_sector (int n) \<longleftrightarrow> n < NumSectors"
  by (simp add: valid_sector_def)

lemma disk_wfD: "disk_wf d \<Longrightarrow> n < NumSectors \<Longrightarrow> length (d n) = SectorSize"
  by (simp add: disk_wf_def)

lemma disk_wf_upd: "disk_wf d \<Longrightarrow> length bs = SectorSize \<Longrightarrow> disk_wf (d(n := bs))"
  by (simp add: disk_wf_def)

section \<open>File headers\<close>

definition NumDirect :: nat where
  "NumDirect = (SectorSize - 2 * 4) div 4"

definition MaxFileSize :: nat where
  "MaxFileSize = NumDirect * SectorSize"

record FileHeader =
  hdr_numBytes :: int
  hdr_numSectors :: int
  dataSectors :: "int list"

fun alloc_sectors :: "nat list \<Rightarrow> FileHeader \<Rightarrow> bitmap \<Rightarrow> (FileHeader \<times> bitmap) result" where
  "alloc_sectors [] h freeMap = Inr (h, freeMap)"
| "alloc_sectors (i # is) h freeMap = rbind (Find freeMap) (\<lambda>(sector, freeMap').
     rbind (array_set (dataSectors h) i sector) (\<lambda>ds.
     alloc_sectors is (h\<lparr>dataSectors := ds\<rparr>) freeMap'))"

definition Allocate :: "FileHeader \<Rightarrow> bitmap \<Rightarrow> int \<Rightarrow> (bool \<times> FileHeader \<times> bitmap) result" where
  "Allocate this freeMap fileSize =
     (let n = sdivRoundUp fileSize (int SectorSize);
          h = this\<lparr>hdr_numBytes := fileSize, hdr_numSectors := n\<rparr> in
      rbind (NumClear freeMap) (\<lambda>clear.
      if int clear < n then Inr (False, h, freeMap)
      else rbind (alloc_sectors [0..<nat n] h freeMap) (\<lambda>(h', freeMap'). Inr (True, h', freeMap'))))"

fun dealloc_sectors :: "nat list \<Rightarrow> FileHeader \<Rightarrow> bitmap \<Rightarrow> bitmap result" where
  "dealloc_sectors [] h freeMap = Inr freeMap"
| "dealloc_sectors (i # is) h freeMap = rbind (array_get (dataSectors h) i) (\<lambda>sector.
     rbind (Test sector freeMap) (\<lambda>t. rbind (ASSERT t) (\<lambda>_.
     rbind (Clear sector freeMap) (dealloc_sectors is h))))"

definition Deallocate :: "FileHeader \<Rightarrow> bitmap \<Rightarrow> bitmap result" where
  "Deallocate this freeMap = dealloc_sectors [0..<nat (hdr_numSectors this)] this freeMap"

text \<open>The object itself is what is moved: 64 \<^verbatim>\<open>int\<close>s, one sector.\<close>

definition FileHeader_bytes :: "FileHeader \<Rightarrow> byte list" where
  "FileHeader_bytes h = ints_bytes (hdr_numBytes h # hdr_numSectors h # dataSectors h)"

definition bytes_FileHeader :: "byte list \<Rightarrow> FileHeader" where
  "bytes_FileHeader bs = (let xs = bytes_ints bs in
     \<lparr>hdr_numBytes = xs ! 0, hdr_numSectors = xs ! 1, dataSectors = drop 2 xs\<rparr>)"

definition FileHeader_FetchFrom :: "int \<Rightarrow> sectors \<Rightarrow> FileHeader result" where
  "FileHeader_FetchFrom sector d = rbind (ReadSector sector d) (\<lambda>bs. Inr (bytes_FileHeader bs))"

definition FileHeader_WriteBack :: "int \<Rightarrow> FileHeader \<Rightarrow> sectors \<Rightarrow> sectors result" where
  "FileHeader_WriteBack sector this d = WriteSector sector (FileHeader_bytes this) d"

definition ByteToSector :: "int \<Rightarrow> FileHeader \<Rightarrow> int result" where
  "ByteToSector offset this = array_get_int (dataSectors this) (offset sdiv int SectorSize)"

definition FileLength :: "FileHeader \<Rightarrow> int" where
  "FileLength this = hdr_numBytes this"

section \<open>Well-formed headers\<close>

text \<open>An object of class \<^verbatim>\<open>FileHeader\<close>, whatever it holds.\<close>

definition header_typed :: "FileHeader \<Rightarrow> bool" where
  "header_typed h \<longleftrightarrow> int_ok (hdr_numBytes h) \<and> int_ok (hdr_numSectors h)
     \<and> length (dataSectors h) = NumDirect \<and> (\<forall>x \<in> set (dataSectors h). int_ok x)"

definition file_sectors :: "FileHeader \<Rightarrow> nat list" where
  "file_sectors h = map nat (take (nat (hdr_numSectors h)) (dataSectors h))"

definition file_ok :: "FileHeader \<Rightarrow> bool" where
  "file_ok h \<longleftrightarrow> header_typed h \<and> 0 \<le> hdr_numBytes h
     \<and> hdr_numSectors h = sdivRoundUp (hdr_numBytes h) (int SectorSize)
     \<and> nat (hdr_numSectors h) \<le> NumDirect
     \<and> (\<forall>x \<in> set (take (nat (hdr_numSectors h)) (dataSectors h)). valid_sector x)
     \<and> distinct (file_sectors h)"

lemma FileHeader_round_trip:
  assumes "header_typed h"
  shows "bytes_FileHeader (FileHeader_bytes h) = h" "length (FileHeader_bytes h) = SectorSize"
  using assms
  by (simp_all add: bytes_FileHeader_def FileHeader_bytes_def header_typed_def bytes_ints_bytes
      NumDirect_def SectorSize_def)

lemma bytes_FileHeader_typed:
  assumes "length bs = SectorSize"
  shows "header_typed (bytes_FileHeader bs)"
proof -
  have "length (bytes_ints bs) = 64" using assms by (simp add: SectorSize_def)
  then have "bytes_ints bs ! 0 \<in> set (bytes_ints bs)" "bytes_ints bs ! 1 \<in> set (bytes_ints bs)"
    by simp_all
  note this [THEN bytes_ints_ok]
  with assms show ?thesis
    by (auto simp: header_typed_def bytes_FileHeader_def Let_def NumDirect_def SectorSize_def
        dest!: in_set_dropD intro: bytes_ints_ok)
qed

section \<open>Allocation\<close>

lemma alloc_sectors_take_units:
  assumes "k + n \<le> length (dataSectors h)"
  shows "alloc_sectors [k..<k + n] h b = rbind (bm.take_units n b) (\<lambda>(is, b').
     Inr (h\<lparr>dataSectors := take k (dataSectors h) @ is @ drop (k + n) (dataSectors h)\<rparr>, b'))"
  using assms
proof (induction n arbitrary: k h b)
  case 0
  then show ?case by simp
next
  case (Suc n)
  then have "alloc_sectors [Suc k..<Suc k + n] (h\<lparr>dataSectors := (dataSectors h)[k := i]\<rparr>) b'
      = rbind (bm.take_units n b') (\<lambda>(is, b'').
          Inr (h\<lparr>dataSectors := take k (dataSectors h) @ (i # is) @ drop (k + Suc n) (dataSectors h)\<rparr>, b''))"
    for i b'
    using Suc.IH [of "Suc k" "h\<lparr>dataSectors := (dataSectors h)[k := i]\<rparr>" b']
    by (simp add: take_Suc_conv_app_nth)
  then show ?case
    using Suc.prems upt_rec [of k "k + Suc n"]
    by (auto simp: rbind_def split: sum.splits prod.splits)
qed

lemma alloc_sectors_overrun:
  assumes "bm_wf b" "k \<le> length (dataSectors h)" "length (dataSectors h) < k + n"
    "n \<le> numBits b - card (marked b)"
  shows "alloc_sectors [k..<k + n] h b = Inl Bad_Index"
  using assms
proof (induction n arbitrary: k h b)
  case 0
  then show ?case by simp
next
  case (Suc n)
  have "card (marked b) < numBits b" using Suc.prems(4) by simp
  then have "marked b \<noteq> {..<numBits b}" by (metis card_lessThan less_irrefl)
  from Find_free_bit [OF Suc.prems(1) this] obtain i b' where f:
    "Find b = Inr (int i, b')" "bm_wf b'" "numBits b' = numBits b" "i \<notin> marked b"
    "marked b' = insert i (marked b)" by blast
  have "n \<le> numBits b' - card (marked b')"
    using Suc.prems(4) f bm.finite_used [of b] by simp
  with Suc.prems f Suc.IH [of b' "Suc k" "h\<lparr>dataSectors := (dataSectors h)[k := int i]\<rparr>"]
  show ?case
    using upt_rec [of k "k + Suc n"] by (auto simp: array_set_def)
qed

lemma Allocate_ok:
  assumes "bm_wf b" "numBits b = NumSectors" "header_typed this" "0 \<le> sz" "sz \<le> int MaxFileSize"
    "divRoundUp (nat sz) SectorSize \<le> NumSectors - card (marked b)"
  shows "\<exists>h b'. Allocate this b sz = Inr (True, h, b') \<and> file_ok h \<and> hdr_numBytes h = sz
     \<and> bm_wf b' \<and> numBits b' = NumSectors \<and> set (file_sectors h) \<inter> marked b = {}
     \<and> marked b' = marked b \<union> set (file_sectors h)"
proof -
  define n where "n = divRoundUp (nat sz) SectorSize"
  have n: "sdivRoundUp sz (int SectorSize) = int n"
    using assms(4) sdivRound_nat(2) [of SectorSize "nat sz"] by (simp add: n_def SectorSize_def)
  have le: "n \<le> NumDirect"
    using assms(4,5) divRoundUp_le_iff [of SectorSize "nat sz" NumDirect]
    by (simp add: n_def SectorSize_def MaxFileSize_def)
  let ?h = "this\<lparr>hdr_numBytes := sz, hdr_numSectors := int n\<rparr>"
  obtain "is" b' where t: "bm.take_units n b = Inr (map int is, b')" "bm_wf b'" "numBits b' = numBits b"
      "length is = n" "distinct is" "set is \<subseteq> {..<numBits b} - marked b" "marked b' = marked b \<union> set is"
    using bm.take_units_ok [OF assms(1), of n] assms(2,6) n_def by auto
  define h where "h = ?h\<lparr>dataSectors := map int is @ drop n (dataSectors this)\<rparr>"
  have fs: "file_sectors h = is"
    using t(4) by (simp add: file_sectors_def h_def comp_def)
  have "int_ok sz" "int_ok (int n)"
    using assms(4,5) le by (simp_all add: int_ok_def MaxFileSize_def NumDirect_def SectorSize_def)
  moreover have "\<forall>x \<in> set is. int_ok (int x)"
    using t(6) assms(2) by (fastforce simp: int_ok_def NumSectors_def SectorsPerTrack_def NumTracks_def)
  ultimately have "header_typed h"
    using assms(3) t(4) le by (auto simp: header_typed_def h_def dest: in_set_dropD)
  then have "file_ok h"
    using fs t n assms(2,4) le by (auto simp: file_ok_def h_def)
  moreover have "Allocate this b sz = Inr (True, h, b')"
    using alloc_sectors_take_units [of 0 n ?h b] t NumClear_spec [OF assms(1)] assms(2,3,6) le
    by (simp add: Allocate_def n header_typed_def h_def Let_def n_def)
  ultimately show ?thesis
    using t fs assms(2) by (intro exI [where x = h] exI [where x = b']) (auto simp: h_def)
qed

lemma Allocate_no_space:
  assumes "bm_wf b" "0 \<le> sz" "numBits b - card (marked b) < divRoundUp (nat sz) SectorSize"
  shows "\<exists>h. Allocate this b sz = Inr (False, h, b)"
  using assms NumClear_spec [OF assms(1)] sdivRound_nat(2) [of SectorSize "nat sz"]
  by (simp add: Allocate_def Let_def SectorSize_def)

lemma Allocate_too_long:
  assumes "bm_wf b" "header_typed this" "int MaxFileSize < sz"
    "divRoundUp (nat sz) SectorSize \<le> numBits b - card (marked b)"
  shows "Allocate this b sz = Inl Bad_Index"
proof -
  define n where "n = divRoundUp (nat sz) SectorSize"
  have n: "sdivRoundUp sz (int SectorSize) = int n"
    using assms(3) sdivRound_nat(2) [of SectorSize "nat sz"] by (simp add: n_def SectorSize_def)
  have "NumDirect < n"
    using assms(3) less_divRoundUp_iff [of SectorSize NumDirect "nat sz"]
    by (simp add: n_def SectorSize_def MaxFileSize_def nat_less_iff)
  then show ?thesis
    using alloc_sectors_overrun [OF assms(1), of 0 "this\<lparr>hdr_numBytes := sz, hdr_numSectors := int n\<rparr>" n]
      assms(2,4) NumClear_spec [OF assms(1)]
    by (simp add: Allocate_def n header_typed_def Let_def n_def)
qed

lemma dealloc_sectors_ok:
  assumes "bm_wf b" "\<forall>i \<in> set is. i < length (dataSectors h) \<and> 0 \<le> dataSectors h ! i"
    "distinct (map (\<lambda>i. nat (dataSectors h ! i)) is)"
    "set (map (\<lambda>i. nat (dataSectors h ! i)) is) \<subseteq> marked b"
  shows "\<exists>b'. dealloc_sectors is h b = Inr b' \<and> bm_wf b' \<and> numBits b' = numBits b
     \<and> marked b' = marked b - set (map (\<lambda>i. nat (dataSectors h ! i)) is)"
  using assms
proof (induction "is" arbitrary: b)
  case Nil
  then show ?case by simp
next
  case (Cons i "is")
  let ?s = "nat (dataSectors h ! i)"
  have s: "dataSectors h ! i = int ?s" "?s < numBits b" "bit_at b ?s"
    using Cons.prems by (auto simp: marked_def)
  obtain b1 where b1: "Clear (int ?s) b = Inr b1" "bm_wf b1" "numBits b1 = numBits b"
    "marked b1 = marked b - {?s}"
    using Clear_marked [OF Cons.prems(1) s(2)] by blast
  obtain b' where "dealloc_sectors is h b1 = Inr b'" "bm_wf b'" "numBits b' = numBits b1"
     "marked b' = marked b1 - set (map (\<lambda>i. nat (dataSectors h ! i)) is)"
  proof (rule exE [OF Cons.IH [OF b1(2)]])
    have "?s \<notin> set (map (\<lambda>i. nat (dataSectors h ! i)) is)" using Cons.prems(3) by simp
    then show "set (map (\<lambda>i. nat (dataSectors h ! i)) is) \<subseteq> marked b1"
      using Cons.prems(4) b1(4) by (simp add: subset_Diff_insert)
  qed (use Cons.prems in auto)
  then show ?case
    using b1 s Cons.prems(2) Test_ok [OF Cons.prems(1) s(2)] by auto
qed

lemma Deallocate_ok:
  assumes "bm_wf b" "file_ok h" "set (file_sectors h) \<subseteq> marked b"
  shows "\<exists>b'. Deallocate h b = Inr b' \<and> bm_wf b' \<and> numBits b' = numBits b
     \<and> marked b' = marked b - set (file_sectors h)"
proof -
  let ?n = "nat (hdr_numSectors h)"
  have n: "?n \<le> length (dataSectors h)" using assms(2) by (auto simp: file_ok_def header_typed_def)
  have eq: "file_sectors h = map (\<lambda>i. nat (dataSectors h ! i)) [0..<?n]"
    using n by (intro nth_equalityI) (simp_all add: file_sectors_def min_absorb2)
  have "\<forall>x \<in> set (take ?n (dataSectors h)). 0 \<le> x"
    using assms(2) by (auto simp: file_ok_def valid_sector_def)
  then have "\<forall>i \<in> set [0..<?n]. i < length (dataSectors h) \<and> 0 \<le> dataSectors h ! i"
    using n by (simp add: all_set_conv_all_nth)
  from dealloc_sectors_ok [OF assms(1) this, folded eq, OF _ assms(3)] assms(2) show ?thesis
    by (simp add: Deallocate_def file_ok_def)
qed

section \<open>Sectors and the disk device\<close>

text \<open>What a request to the device does to the sectors is what the sector operations do.\<close>

lemma UpdateLast_sectors [simp]: "dk_sectors (disk (UpdateLast n s)) = dk_sectors (disk s)"
  by (simp add: UpdateLast_def Let_def split: prod.splits)

lemma ReadRequest_ReadSector:
  "ReadRequest this n s = Inr (data, s') \<Longrightarrow>
   ReadSector n (dk_sectors (disk s)) = Inr data \<and> dk_sectors (disk s') = dk_sectors (disk s)"
  by (auto simp: ReadRequest_def ReadSector_def Let_def rbind_eq_Inr Schedule_def)

lemma WriteRequest_WriteSector:
  "WriteRequest this n data s = Inr s' \<Longrightarrow>
   WriteSector n data (dk_sectors (disk s)) = Inr (dk_sectors (disk s'))"
  by (auto simp: WriteRequest_def WriteSector_def Let_def rbind_eq_Inr Schedule_def split: if_splits)

end
