(* ===== verification/Mips_Decode.thy ===== *)
theory Mips_Decode
  imports Machine_State
begin

text \<open>
  Instruction decoding and the double-length multiplication of the MIPS simulator:
  \<^verbatim>\<open>machine/mipssim.h\<close> (operation codes and tables), and \<^verbatim>\<open>Instruction::Decode\<close>,
  \<^verbatim>\<open>TypeToReg\<close> and \<^verbatim>\<open>Mult\<close> of \<^verbatim>\<open>machine/mipssim.cc\<close>.
\<close>

section \<open>Operation codes and tables\<close>

datatype (plugins only: code size) opcode =
    OP_ADD | OP_ADDI | OP_ADDIU | OP_ADDU | OP_AND | OP_ANDI | OP_BEQ | OP_BGEZ | OP_BGEZAL
  | OP_BGTZ | OP_BLEZ | OP_BLTZ | OP_BLTZAL | OP_BNE | OP_DIV | OP_DIVU | OP_J | OP_JAL | OP_JALR
  | OP_JR | OP_LB | OP_LBU | OP_LH | OP_LHU | OP_LUI | OP_LW | OP_LWL | OP_LWR | OP_MFHI | OP_MFLO
  | OP_MTHI | OP_MTLO | OP_MULT | OP_MULTU | OP_NOR | OP_OR | OP_ORI | OP_RFE | OP_SB | OP_SH
  | OP_SLL | OP_SLLV | OP_SLT | OP_SLTI | OP_SLTIU | OP_SLTU | OP_SRA | OP_SRAV | OP_SRL | OP_SRLV
  | OP_SUB | OP_SUBU | OP_SW | OP_SWL | OP_SWR | OP_XOR | OP_XORI | OP_SYSCALL | OP_UNIMP | OP_RES
  | SPECIAL | BCOND

datatype opformat = IFMT | JFMT | RFMT

definition opTable :: "(opcode \<times> opformat) list" where
  "opTable =
    [(SPECIAL, RFMT), (BCOND, IFMT), (OP_J, JFMT), (OP_JAL, JFMT),
     (OP_BEQ, IFMT), (OP_BNE, IFMT), (OP_BLEZ, IFMT), (OP_BGTZ, IFMT),
     (OP_ADDI, IFMT), (OP_ADDIU, IFMT), (OP_SLTI, IFMT), (OP_SLTIU, IFMT),
     (OP_ANDI, IFMT), (OP_ORI, IFMT), (OP_XORI, IFMT), (OP_LUI, IFMT),
     (OP_UNIMP, IFMT), (OP_UNIMP, IFMT), (OP_UNIMP, IFMT), (OP_UNIMP, IFMT),
     (OP_RES, IFMT), (OP_RES, IFMT), (OP_RES, IFMT), (OP_RES, IFMT),
     (OP_RES, IFMT), (OP_RES, IFMT), (OP_RES, IFMT), (OP_RES, IFMT),
     (OP_RES, IFMT), (OP_RES, IFMT), (OP_RES, IFMT), (OP_RES, IFMT),
     (OP_LB, IFMT), (OP_LH, IFMT), (OP_LWL, IFMT), (OP_LW, IFMT),
     (OP_LBU, IFMT), (OP_LHU, IFMT), (OP_LWR, IFMT), (OP_RES, IFMT),
     (OP_SB, IFMT), (OP_SH, IFMT), (OP_SWL, IFMT), (OP_SW, IFMT),
     (OP_RES, IFMT), (OP_RES, IFMT), (OP_SWR, IFMT), (OP_RES, IFMT),
     (OP_UNIMP, IFMT), (OP_UNIMP, IFMT), (OP_UNIMP, IFMT), (OP_UNIMP, IFMT),
     (OP_RES, IFMT), (OP_RES, IFMT), (OP_RES, IFMT), (OP_RES, IFMT),
     (OP_UNIMP, IFMT), (OP_UNIMP, IFMT), (OP_UNIMP, IFMT), (OP_UNIMP, IFMT),
     (OP_RES, IFMT), (OP_RES, IFMT), (OP_RES, IFMT), (OP_RES, IFMT)]"

definition specialTable :: "opcode list" where
  "specialTable =
    [OP_SLL, OP_RES, OP_SRL, OP_SRA, OP_SLLV, OP_RES, OP_SRLV, OP_SRAV,
     OP_JR, OP_JALR, OP_RES, OP_RES, OP_SYSCALL, OP_UNIMP, OP_RES, OP_RES,
     OP_MFHI, OP_MTHI, OP_MFLO, OP_MTLO, OP_RES, OP_RES, OP_RES, OP_RES,
     OP_MULT, OP_MULTU, OP_DIV, OP_DIVU, OP_RES, OP_RES, OP_RES, OP_RES,
     OP_ADD, OP_ADDU, OP_SUB, OP_SUBU, OP_AND, OP_OR, OP_XOR, OP_NOR,
     OP_RES, OP_RES, OP_SLT, OP_SLTU, OP_RES, OP_RES, OP_RES, OP_RES,
     OP_RES, OP_RES, OP_RES, OP_RES, OP_RES, OP_RES, OP_RES, OP_RES,
     OP_RES, OP_RES, OP_RES, OP_RES, OP_RES, OP_RES, OP_RES, OP_RES]"

section \<open>Decoding\<close>

record Instruction =
  opCode :: opcode
  rs :: nat
  rt :: nat
  rd :: nat
  extra :: word32

definition decode_extra :: "opformat \<Rightarrow> word32 \<Rightarrow> word32" where
  "decode_extra f v = (case f of
     IFMT \<Rightarrow> let e = v AND 0xffff in if e AND 0x8000 \<noteq> 0 then e OR 0xffff0000 else e
   | RFMT \<Rightarrow> drop_bit 6 v AND 0x1f
   | JFMT \<Rightarrow> v AND 0x3ffffff)"

definition decode_bcond :: "word32 \<Rightarrow> opcode" where
  "decode_bcond v = (let i = v AND 0x1f0000 in
     if i = 0 then OP_BLTZ else if i = 0x10000 then OP_BGEZ else if i = 0x100000 then OP_BLTZAL
     else if i = 0x110000 then OP_BGEZAL else OP_UNIMP)"

definition Decode :: "word32 \<Rightarrow> Instruction" where
  "Decode v = (let (op, fmt) = opTable ! unat (drop_bit 26 v AND 0x3f) in
     \<lparr>opCode = (if op = SPECIAL then specialTable ! unat (v AND 0x3f)
        else if op = BCOND then decode_bcond v else op),
      rs = unat (drop_bit 21 v AND 0x1f), rt = unat (drop_bit 16 v AND 0x1f),
      rd = unat (drop_bit 11 v AND 0x1f), extra = decode_extra fmt v\<rparr>)"

datatype RegType = NONE | RS | RT | RD | EXTRA

definition TypeToReg :: "RegType \<Rightarrow> Instruction \<Rightarrow> int" where
  "TypeToReg r i = (case r of RS \<Rightarrow> int (rs i) | RT \<Rightarrow> int (rt i) | RD \<Rightarrow> int (rd i)
     | EXTRA \<Rightarrow> sint (extra i) | NONE \<Rightarrow> -1)"

section \<open>Double-length multiplication\<close>

text \<open>
  The loop of \<^verbatim>\<open>Mult\<close> with the number of iterations left. \<^verbatim>\<open>a\<close> is a signed integer in the
  source, so its shift to the right keeps the sign.
\<close>

fun mult_loop :: "nat \<Rightarrow> word32 \<Rightarrow> word32 \<Rightarrow> word32 \<Rightarrow> word32 \<Rightarrow> word32 \<Rightarrow> word32 \<times> word32" where
  "mult_loop 0 a bHi bLo hi lo = (hi, lo)"
| "mult_loop (Suc n) a bHi bLo hi lo =
     (let lo1 = (if a AND 1 \<noteq> 0 then lo + bLo else lo);
          hi1 = (if a AND 1 \<noteq> 0 then (if lo1 < bLo then hi + 1 else hi) + bHi else hi)
      in if a AND 1 \<noteq> 0 \<and> a AND 0xfffffffe = 0 then (hi1, lo1)
         else mult_loop n (signed_drop_bit 1 a)
                (if bLo AND 0x80000000 \<noteq> 0 then push_bit 1 bHi OR 1 else push_bit 1 bHi)
                (push_bit 1 bLo) hi1 lo1)"

definition Mult :: "word32 \<Rightarrow> word32 \<Rightarrow> bool \<Rightarrow> word32 \<times> word32" where
  "Mult a b signedArith =
     (if a = 0 \<or> b = 0 then (0, 0) else
      let negative = (signedArith \<and> (sint a < 0) \<noteq> (sint b < 0));
          a' = (if signedArith \<and> sint a < 0 then - a else a);
          b' = (if signedArith \<and> sint b < 0 then - b else b);
          (hi, lo) = mult_loop 32 a' 0 b' 0 0
      in if negative then
           let hi1 = NOT hi; lo1 = NOT lo + 1 in (if lo1 = 0 then hi1 + 1 else hi1, lo1)
         else (hi, lo))"

section \<open>Facts about decoding\<close>

lemma length_tables: "length opTable = 64" "length specialTable = 64"
  by (simp_all add: opTable_def specialTable_def)

lemma opTable_no_rfe: "list_all (\<lambda>(op, f). op \<noteq> OP_RFE) opTable"
  by (simp add: opTable_def)

lemma specialTable_plain:
  "list_all (\<lambda>op. op \<noteq> OP_RFE \<and> op \<noteq> SPECIAL \<and> op \<noteq> BCOND) specialTable"
  by (simp add: specialTable_def)

lemma unat_and_mask_less: "unat (v AND mask n :: word32) < 2 ^ n"
  by (simp flip: take_bit_eq_mask add: unsigned_take_bit_eq)

lemma field_masks: "(0x1f :: word32) = mask 5" "(0x3f :: word32) = mask 6"
  "(0x3ffffff :: word32) = mask 26"
  by (simp_all add: mask_eq_exp_minus_1)

lemma unat_field_less:
  "unat (v AND 0x1f :: word32) < 32" "unat (v AND 0x3f :: word32) < 64"
  using unat_and_mask_less [of v 5] unat_and_mask_less [of v 6] by (simp_all add: field_masks)

lemma Decode_fields:
  "rs (Decode v) < 32" "rt (Decode v) < 32" "rd (Decode v) < 32"
  using unat_field_less(1) by (simp_all add: Decode_def split_beta Let_def)

lemma Decode_opCode: "opCode (Decode v) \<notin> {OP_RFE, SPECIAL, BCOND}"
proof -
  let ?e = "opTable ! unat (drop_bit 26 v AND 0x3f)"
  have "fst ?e \<noteq> OP_RFE"
    using opTable_no_rfe unat_field_less(2) [of "drop_bit 26 v"]
    by (auto simp: list_all_length length_tables)
  moreover have "specialTable ! unat (v AND 0x3f) \<notin> {OP_RFE, SPECIAL, BCOND}"
    using specialTable_plain unat_field_less(2) [of v] by (simp add: list_all_length length_tables)
  moreover have "decode_bcond v \<notin> {OP_RFE, SPECIAL, BCOND}"
    by (simp add: decode_bcond_def Let_def)
  ultimately show ?thesis by (simp add: Decode_def split_beta Let_def)
qed

section \<open>Correctness of the multiplication\<close>

definition dbl :: "word32 \<Rightarrow> word32 \<Rightarrow> 64 word" where
  "dbl hi lo = word_of_int (uint hi * 2 ^ 32 + uint lo)"

lemma uint_dbl: "uint (dbl hi lo) = uint hi * 2 ^ 32 + uint lo"
proof -
  have "uint hi < 2 ^ 32" "uint lo < 2 ^ 32" using uint_lt2p [of hi] uint_lt2p [of lo] by simp_all
  then have "uint hi * 2 ^ 32 + uint lo < 2 ^ 64" by simp
  then show ?thesis
    unfolding dbl_def by (subst unsigned_of_int) (simp add: take_bit_int_eq_self)
qed

lemma word32_add_carry:
  fixes x y :: word32
  shows "uint (x + y) = uint x + uint y - (if x + y < y then 2 ^ 32 else 0)"
proof -
  have b: "uint x < 2 ^ 32" "uint y < 2 ^ 32" "0 \<le> uint x"
    using uint_lt2p [of x] uint_lt2p [of y] by simp_all
  have "uint (x + y) = (if uint x + uint y < 2 ^ 32 then uint x + uint y
      else uint x + uint y - 2 ^ 32)"
    using uint_plus_if' [of x y] by simp
  with b show ?thesis by (auto simp: word_less_def)
qed

lemma word32_add_mod: "\<exists>k. uint (x + y :: word32) = uint x + uint y - k * 2 ^ 32"
  using word32_add_carry [of x y]
  by (cases "x + y < y") (auto intro: exI [of _ 1] exI [of _ 0])

lemma word64_wrap: "(word_of_int (k + l * 2 ^ 64) :: 64 word) = word_of_int k"
  by (simp only: word_of_int_eq_iff take_bit_eq_mod) simp

lemma dbl_add:
  "dbl (hi + (if lo + l < l then 1 else 0) + h) (lo + l) = dbl hi lo + dbl h l"
proof -
  let ?c = "if lo + l < l then 1 else 0 :: word32"
  have c: "uint ?c = (if lo + l < l then 1 else 0)" by simp
  obtain k1 where k1: "uint (hi + ?c) = uint hi + uint ?c - k1 * 2 ^ 32"
    using word32_add_mod [of hi ?c] by blast
  obtain k2 where k2: "uint (hi + ?c + h) = uint (hi + ?c) + uint h - k2 * 2 ^ 32"
    using word32_add_mod [of "hi + ?c" h] by blast
  have "uint (hi + ?c + h) * 2 ^ 32 + uint (lo + l) =
     (uint hi * 2 ^ 32 + uint lo) + (uint h * 2 ^ 32 + uint l) + (- k1 - k2) * 2 ^ 64"
    by (simp only: k2 k1 c word32_add_carry [of lo l]) (simp add: algebra_simps)
  then show ?thesis
    by (simp only: dbl_def word64_wrap wi_hom_add)
qed

lemma top_bit_carry: "b AND 0x80000000 \<noteq> 0 \<longleftrightarrow> b + b < (b :: word32)"
proof -
  have "b AND 0x80000000 \<noteq> 0 \<longleftrightarrow> bit b 31"
    using and_exp_eq_0_iff_not_bit [of b 31] by simp
  also have "\<dots> \<longleftrightarrow> 2 ^ 31 \<le> uint b"
  proof -
    have "bit b 31 \<longleftrightarrow> odd (uint b div 2 ^ 31)"
      using bit_uint_iff [of b 31] by (simp add: bit_iff_odd [of "uint b"])
    moreover have "odd (x div 2147483648) \<longleftrightarrow> 2147483648 \<le> x" if "0 \<le> x" "x < 4294967296" for x :: int
      using that int_div_pos_eq [of x 2147483648 1 "x - 2147483648"]
      by (cases "x < 2147483648") (simp_all add: div_pos_pos_trivial)
    ultimately show ?thesis using uint_lt2p [of b] by simp
  qed
  also have "\<dots> \<longleftrightarrow> b + b < b"
    using uint_plus_if' [of b b] uint_lt2p [of b] by (auto simp: word_less_def)
  finally show ?thesis .
qed

lemma dbl_shift:
  "dbl (if b AND 0x80000000 \<noteq> 0 then push_bit 1 h OR 1 else push_bit 1 h) (push_bit 1 b)
     = 2 * dbl h b"
proof -
  have "push_bit 1 h OR 1 = h + 1 + h"
    using or_one_eq [of "push_bit 1 h"] by (simp add: push_bit_eq_mult)
  moreover have "push_bit 1 h = h + h" "push_bit 1 b = b + b"
    by (simp_all add: push_bit_eq_mult)
  ultimately show ?thesis
    using dbl_add [of h b b h] top_bit_carry [of b]
    by (auto simp: mult.commute split: if_splits)
qed

lemma take_bit_signed_shift:
  "n < 32 \<Longrightarrow> take_bit (Suc n) (uint (a :: word32)) =
     of_bool (a AND 1 \<noteq> 0) + 2 * take_bit n (uint (signed_drop_bit 1 a))"
proof -
  assume n: "n < 32"
  have "take_bit n (uint (signed_drop_bit 1 a)) = take_bit n (uint a div 2)"
    by (rule bit_eqI) (use n in \<open>auto simp: bit_simps bit_uint_iff simp flip: bit_Suc\<close>)
  moreover have "a AND 1 \<noteq> 0 \<longleftrightarrow> odd (uint a)"
    using and_exp_eq_0_iff_not_bit [of a 0] bit_uint_iff [of a 0] by (simp add: bit_0)
  ultimately show ?thesis
    by (simp add: take_bit_Suc odd_iff_mod_2_eq_one)
qed

lemma only_low_bit:
  fixes a :: word32
  assumes "a AND 1 \<noteq> 0" "a AND 0xfffffffe = 0"
  shows "a = 1"
proof (rule bit_eqI)
  fix n
  have "(0xfffffffe :: word32) = NOT 1" by code_simp
  with assms(2) have "a AND NOT 1 = 0" by simp
  then have "bit (a AND NOT 1) n = bit (0 :: word32) n" by simp
  then have "bit a n \<Longrightarrow> n = 0" by (auto simp: bit_simps dest: bit_imp_le_length)
  moreover have "bit a 0"
    using assms(1) and_exp_eq_0_iff_not_bit [of a 0] by simp
  ultimately show "bit a n = bit 1 n" by (auto simp: bit_1_iff)
qed

lemma mult_loop_dbl:
  "n \<le> 32 \<Longrightarrow> mult_loop n a bHi bLo hi lo = (hi', lo') \<Longrightarrow>
     dbl hi' lo' = dbl hi lo + word_of_int (take_bit n (uint a)) * dbl bHi bLo"
proof (induction n a bHi bLo hi lo rule: mult_loop.induct)
  case (1 a bHi bLo hi lo)
  then show ?case by simp
next
  case (2 n a bHi bLo hi lo)
  let ?o = "a AND 1 \<noteq> 0"
  define lo1 where "lo1 = (if ?o then lo + bLo else lo)"
  define hi1 where "hi1 = (if ?o then (if lo1 < bLo then hi + 1 else hi) + bHi else hi)"
  define bHi' where "bHi' = (if bLo AND 0x80000000 \<noteq> 0 then push_bit 1 bHi OR 1 else push_bit 1 bHi)"
  have eq: "(if ?o \<and> a AND 0xfffffffe = 0 then (hi1, lo1)
      else mult_loop n (signed_drop_bit 1 a) bHi' (push_bit 1 bLo) hi1 lo1) = (hi', lo')"
    using 2(3) unfolding lo1_def hi1_def bHi'_def mult_loop.simps Let_def .
  note split = take_bit_signed_shift [of n a]
  have add: "dbl hi1 lo1 = dbl hi lo + of_bool ?o * dbl bHi bLo"
    using dbl_add [of hi lo bLo bHi] by (auto simp: hi1_def lo1_def)
  show ?case
  proof (cases "?o \<and> a AND 0xfffffffe = 0")
    case True
    then have "a = 1" by (intro only_low_bit) simp_all
    moreover have "hi' = hi1" "lo' = lo1"
      using eq True by simp_all
    moreover have "take_bit (Suc n) (1 :: int) = 1" by (simp add: take_bit_Suc)
    ultimately show ?thesis using add by simp
  next
    case False
    then have "mult_loop n (signed_drop_bit 1 a) bHi' (push_bit 1 bLo) hi1 lo1 = (hi', lo')"
      using eq by (simp only: if_False)
    with 2(1) [OF lo1_def hi1_def] False 2(2) have
      "dbl hi' lo' = dbl hi1 lo1 + word_of_int (take_bit n (uint (signed_drop_bit 1 a)))
         * dbl bHi' (push_bit 1 bLo)"
      by (simp add: bHi'_def)
    also have "dbl bHi' (push_bit 1 bLo) = 2 * dbl bHi bLo"
      unfolding bHi'_def by (rule dbl_shift)
    finally show ?thesis
      using 2(2) by (simp add: add split algebra_simps)
  qed
qed

lemma dbl_negate:
  "dbl (if NOT lo + 1 = 0 then NOT hi + 1 else NOT hi) (NOT lo + 1) = - dbl hi lo"
proof -
  have "dbl (if NOT lo + 1 = 0 then NOT hi + 1 else NOT hi) (NOT lo + 1)
      = dbl (NOT hi) (NOT lo) + dbl 0 1"
    using dbl_add [of "NOT hi" "NOT lo" 1 0] by (cases "NOT lo + 1 = 0") (simp_all add: word_less_1)
  also have "\<dots> = - dbl hi lo"
  proof -
    have n: "uint (NOT x) = 2 ^ 32 - 1 - uint x" for x :: word32
      using uint_lt2p [of x]
      by (simp add: unsigned_not_eq take_bit_not_eq_mask_diff mask_eq_exp_minus_1 take_bit_int_eq_self)
    have "(uint (NOT hi) * 2 ^ 32 + uint (NOT lo)) + (0 * 2 ^ 32 + 1)
        = - (uint hi * 2 ^ 32 + uint lo) + 1 * 2 ^ 64"
      by (simp only: n) (simp add: algebra_simps)
    then have "dbl (NOT hi) (NOT lo) + dbl 0 1 = word_of_int (- (uint hi * 2 ^ 32 + uint lo) + 1 * 2 ^ 64)"
      unfolding dbl_def by (simp only: wi_hom_add unsigned_0 unsigned_1)
    then show ?thesis unfolding dbl_def by (simp only: word64_wrap wi_hom_neg)
  qed
  finally show ?thesis .
qed

lemma dbl_small: "dbl 0 b = ucast b"
  by (simp add: dbl_def)

lemma mult_loop_32:
  assumes "mult_loop 32 a 0 b 0 0 = (hi, lo)"
  shows "dbl hi lo = ucast a * ucast b"
proof -
  have "take_bit 32 (uint a) = uint a"
    using uint_lt2p [of a] by (simp add: take_bit_int_eq_self)
  with mult_loop_dbl [OF _ assms] show ?thesis
    by (simp add: dbl_small)
qed

text \<open>Making an operand positive, as 64-bit numbers; the negative number of largest size stays.\<close>

lemma scast_magnitude:
  "(scast (a :: word32) :: 64 word) = (if sint a < 0 then - ucast (- a) else ucast a)"
proof -
  have c: "(ucast w :: 64 word) = word_of_int (uint w)" for w :: word32 by simp
  have "(scast a :: 64 word) = word_of_int (sint a)" by simp
  moreover have "uint (- a) = - sint a" if "sint a < 0"
  proof -
    have "- a = word_of_int (- sint a)" by simp
    then have "uint (- a) = take_bit 32 (- sint a)"
      by (simp only: unsigned_of_int) simp
    then show ?thesis
      using that sint_greater_eq [of a] by (simp add: take_bit_int_eq_self)
  qed
  moreover have "uint a = sint a" if "\<not> sint a < 0"
    using that sint_less [of a] by (simp add: uint_sint take_bit_int_eq_self)
  ultimately show ?thesis by (cases "sint a < 0") (simp_all only: c if_True if_False wi_hom_neg minus_minus
      not_False_eq_True)
qed

lemma Mult_dbl:
  assumes "Mult a b s = (hi, lo)"
  shows "dbl hi lo = (if s then scast a * scast b else ucast a * ucast b)"
proof (cases "a = 0 \<or> b = 0")
  case True
  with assms show ?thesis by (auto simp: Mult_def dbl_def)
next
  case False
  define a' where "a' = (if s \<and> sint a < 0 then - a else a)"
  define b' where "b' = (if s \<and> sint b < 0 then - b else b)"
  obtain h l where hl: "mult_loop 32 a' 0 b' 0 0 = (h, l)" by fastforce
  note p = mult_loop_32 [OF hl]
  show ?thesis
  proof (cases "s \<and> (sint a < 0) \<noteq> (sint b < 0)")
    case True
    then have "dbl hi lo = - dbl h l"
      using assms False hl dbl_negate [of l h] by (auto simp: Mult_def Let_def a'_def b'_def)
    with True p show ?thesis
      by (auto simp: scast_magnitude [of a] scast_magnitude [of b] a'_def b'_def)
  next
    case False
    then have "hi = h" "lo = l"
      using assms \<open>\<not> (a = 0 \<or> b = 0)\<close> hl by (auto simp: Mult_def Let_def a'_def b'_def)
    with False p show ?thesis
      by (auto simp: scast_magnitude [of a] scast_magnitude [of b] a'_def b'_def)
  qed
qed

section \<open>Instruction formats\<close>

text \<open>The three instruction layouts of the MIPS manual, as an assembler builds them.\<close>

definition encode_R :: "5 word \<Rightarrow> 5 word \<Rightarrow> 5 word \<Rightarrow> 5 word \<Rightarrow> 6 word \<Rightarrow> word32" where
  "encode_R s t d sh fn = push_bit 21 (ucast s) OR push_bit 16 (ucast t) OR push_bit 11 (ucast d)
     OR push_bit 6 (ucast sh) OR ucast fn"

definition encode_I :: "6 word \<Rightarrow> 5 word \<Rightarrow> 5 word \<Rightarrow> 16 word \<Rightarrow> word32" where
  "encode_I k s t imm = push_bit 26 (ucast k) OR push_bit 21 (ucast s) OR push_bit 16 (ucast t)
     OR ucast imm"

definition encode_J :: "6 word \<Rightarrow> 26 word \<Rightarrow> word32" where
  "encode_J k target = push_bit 26 (ucast k) OR ucast target"

lemmas instr_field_simps = field_masks bit_simps

lemma encode_R_fields:
  "drop_bit 26 (encode_R s t d sh fn) AND 0x3f = 0" "drop_bit 21 (encode_R s t d sh fn) AND 0x1f = ucast s"
  "drop_bit 16 (encode_R s t d sh fn) AND 0x1f = ucast t"
  "drop_bit 11 (encode_R s t d sh fn) AND 0x1f = ucast d"
  "drop_bit 6 (encode_R s t d sh fn) AND 0x1f = ucast sh"
  "encode_R s t d sh fn AND 0x3f = ucast fn"
  by (rule bit_eqI; auto simp: encode_R_def instr_field_simps dest: bit_imp_le_length)+

lemma encode_I_fields:
  "drop_bit 26 (encode_I k s t imm) AND 0x3f = ucast k"
  "drop_bit 21 (encode_I k s t imm) AND 0x1f = ucast s"
  "drop_bit 16 (encode_I k s t imm) AND 0x1f = ucast t"
  "encode_I k s t imm AND 0xffff = ucast imm"
  by (rule bit_eqI; auto simp: encode_I_def instr_field_simps byte_masks dest: bit_imp_le_length)+

lemma encode_J_fields:
  "drop_bit 26 (encode_J k target) AND 0x3f = ucast k" "encode_J k target AND 0x3ffffff = ucast target"
  by (rule bit_eqI; auto simp: encode_J_def instr_field_simps dest: bit_imp_le_length)+

lemma sign_extension:
  fixes imm :: "16 word"
  shows "(if (ucast imm :: word32) AND 0x8000 \<noteq> 0 then ucast imm OR 0xffff0000 else ucast imm)
    = (scast imm :: word32)"
proof -
  have b: "(ucast imm :: word32) AND 0x8000 \<noteq> 0 \<longleftrightarrow> bit imm 15"
    using and_exp_eq_0_iff_not_bit [of "ucast imm :: word32" 15] by (simp add: bit_simps)
  have m: "(0xffff0000 :: word32) = NOT (mask 16)" by code_simp
  have "(if bit imm 15 then ucast imm OR NOT (mask 16) else ucast imm) = (scast imm :: word32)"
  proof (rule bit_word_eqI)
    fix n assume "n < LENGTH(32)"
    consider "n < 15" | "n = 15" | "15 < n" by linarith
    then show "bit (if bit imm 15 then ucast imm OR NOT (mask 16) else ucast imm :: word32) n
        = bit (scast imm :: word32) n"
      using \<open>n < LENGTH(32)\<close> bit_imp_le_length [of imm n]
      by cases (auto simp: bit_simps min_def)
  qed
  then show ?thesis by (simp only: b m)
qed

lemma opTable_0: "opTable ! 0 = (SPECIAL, RFMT)"
  by (simp add: opTable_def)

lemma opTable_escapes:
  assumes "i < 64" "fst (opTable ! i) = SPECIAL \<or> fst (opTable ! i) = BCOND"
  shows "i = 0 \<or> i = 1"
proof -
  have "list_all (\<lambda>e. fst e \<noteq> SPECIAL \<and> fst e \<noteq> BCOND) (drop 2 opTable)"
    by (simp add: opTable_def)
  then have "fst (opTable ! (2 + j)) \<noteq> SPECIAL \<and> fst (opTable ! (2 + j)) \<noteq> BCOND" if "i = 2 + j" for j
    using assms(1) that by (simp add: list_all_length length_tables)
  from this [of "i - 2"] assms(2) show ?thesis by (cases "2 \<le> i") auto
qed

text \<open>
  C36: decoding inverts the three instruction formats: the operation is the one the tables give for
  the operation field (or the function field), the register fields come back unchanged, the
  16-bit immediate sign extended, the shift amount and the 26-bit target zero extended.
\<close>

theorem decode_inverts_encoding:
  "Decode (encode_R s t d sh fn) = \<lparr>opCode = specialTable ! unat fn,
     rs = unat s, rt = unat t, rd = unat d, extra = ucast sh\<rparr> \<and>
   (snd (opTable ! unat k) = IFMT \<and> k \<noteq> 1 \<longrightarrow>
     opCode (Decode (encode_I k s t imm)) = fst (opTable ! unat k) \<and>
     rs (Decode (encode_I k s t imm)) = unat s \<and> rt (Decode (encode_I k s t imm)) = unat t \<and>
     extra (Decode (encode_I k s t imm)) = scast imm) \<and>
   (k = 2 \<or> k = 3 \<longrightarrow>
     opCode (Decode (encode_J k target)) = (if k = 2 then OP_J else OP_JAL) \<and>
     extra (Decode (encode_J k target)) = ucast target)"
proof -
  have i: "unat (ucast (x :: 6 word) :: word32) = unat x" for x
    using unsigned_less [of x, where 'a = nat] by (simp add: unsigned_ucast_eq take_bit_nat_eq_self)
  have r: "unat (ucast (x :: 5 word) :: word32) = unat x" for x
    using unsigned_less [of x, where 'a = nat] by (simp add: unsigned_ucast_eq take_bit_nat_eq_self)
  have R: "Decode (encode_R s t d sh fn) = \<lparr>opCode = specialTable ! unat fn,
     rs = unat s, rt = unat t, rd = unat d, extra = ucast sh\<rparr>"
    by (simp add: Decode_def encode_R_fields i r decode_extra_def opTable_0)
  have I: "opCode (Decode (encode_I k s t imm)) = fst (opTable ! unat k) \<and>
     rs (Decode (encode_I k s t imm)) = unat s \<and> rt (Decode (encode_I k s t imm)) = unat t \<and>
     extra (Decode (encode_I k s t imm)) = scast imm"
    if "snd (opTable ! unat k) = IFMT" "k \<noteq> 1"
  proof -
    have "unat k < 64" "unat k \<noteq> 1" "unat k \<noteq> 0"
      using that unsigned_less [of k, where 'a = nat] opTable_0
      by (simp, metis unat_1 word_unat_eq_iff, metis opformat.distinct(3) snd_conv)
    then have "fst (opTable ! unat k) \<noteq> SPECIAL \<and> fst (opTable ! unat k) \<noteq> BCOND"
      using opTable_escapes [of "unat k"] by auto
    with that show ?thesis
      by (simp add: Decode_def encode_I_fields i r decode_extra_def sign_extension split_beta Let_def)
  qed
  have J: "opCode (Decode (encode_J k target)) = (if k = 2 then OP_J else OP_JAL) \<and>
     extra (Decode (encode_J k target)) = ucast target" if "k = 2 \<or> k = 3"
  proof -
    have "opTable ! unat k = (if k = 2 then OP_J else OP_JAL, JFMT)"
      using that by (auto simp: opTable_def)
    then show ?thesis
      by (simp add: Decode_def encode_J_fields i decode_extra_def)
  qed
  from R I J show ?thesis by blast
qed

theorem decode_inverts_encoding_witness:
  "opCode (Decode (encode_I 8 29 29 0xfff8)) = OP_ADDI \<and>
   extra (Decode (encode_I 8 29 29 0xfff8)) = scast (0xfff8 :: 16 word) \<and>
   opCode (Decode (encode_J 3 0x40)) = OP_JAL"
  using decode_inverts_encoding [where k = 8 and s = 29 and t = 29 and imm = "0xfff8"]
    decode_inverts_encoding [where k = 3 and target = "0x40"]
  by (simp add: opTable_def)

lemma Mult_unsigned:
  assumes m: "Mult a b False = (hi, lo)"
  shows "uint hi * 2 ^ 32 + uint lo = uint a * uint b"
proof -
  have "uint a < 2 ^ 32" "uint b < 2 ^ 32" using uint_lt2p [of a] uint_lt2p [of b] by simp_all
  then have l: "uint a * uint b < 2 ^ 32 * 2 ^ 32" by (intro mult_strict_mono) simp_all
  have "dbl hi lo = word_of_int (uint a * uint b)"
    using Mult_dbl [OF m] by simp
  then have "uint (dbl hi lo) = take_bit 64 (uint a * uint b)"
    by (simp only: unsigned_of_int) simp
  also have "\<dots> = uint a * uint b" using l by (simp add: take_bit_int_eq_self)
  finally show ?thesis by (simp add: uint_dbl)
qed

text \<open>
  C33: the multiplication of the simulator is exact: the double-length result of \<^verbatim>\<open>MULT\<close> is the
  product of the signed operands and that of \<^verbatim>\<open>MULTU\<close> the product of the unsigned ones.
\<close>

theorem mult_is_exact:
  "(case Mult a b True of (hi, lo) \<Rightarrow> sint (dbl hi lo) = sint a * sint b) \<and>
   (case Mult a b False of (hi, lo) \<Rightarrow> uint hi * 2 ^ 32 + uint lo = uint a * uint b)"
proof
  have "- (2 ^ 31) \<le> sint w \<and> sint w < 2 ^ 31" for w :: word32
    using sint_greater_eq [of w] sint_less [of w] by simp
  then have bd: "\<bar>sint w\<bar> \<le> 2 ^ 31" for w :: word32
    by (meson abs_le_iff less_imp_le minus_le_iff)
  have "\<bar>sint a * sint b\<bar> \<le> 2 ^ 31 * 2 ^ 31"
    unfolding abs_mult using bd by (intro mult_mono) simp_all
  then have b: "- (2 ^ 63) \<le> sint a * sint b" "sint a * sint b < 2 ^ 63" by simp_all
  obtain hi lo where m: "Mult a b True = (hi, lo)" by fastforce
  then have "dbl hi lo = word_of_int (sint a * sint b)"
    using Mult_dbl [OF m] by simp
  then have "sint (dbl hi lo) = signed_take_bit 63 (sint a * sint b)"
    by (simp only: signed_of_int) simp
  also have "\<dots> = sint a * sint b"
    using b by (simp add: signed_take_bit_int_eq_self_iff)
  finally show "case Mult a b True of (hi, lo) \<Rightarrow> sint (dbl hi lo) = sint a * sint b"
    using m by simp
next
  show "case Mult a b False of (hi, lo) \<Rightarrow> uint hi * 2 ^ 32 + uint lo = uint a * uint b"
    by (auto split: prod.split dest: Mult_unsigned)
qed

end
