(* ===== verification/Mips_Exec.thy ===== *)
theory Mips_Exec
  imports Mips_Decode "HOL-Library.Signed_Division"
begin

text \<open>
  Execution of one user instruction: \<^verbatim>\<open>Machine::OneInstruction\<close> of
  \<^verbatim>\<open>machine/mipssim.cc\<close>. The big switch is split into one definition per group of cases; a
  group returns the program counter to install, the delayed load to start and the machine
  (\<open>Done\<close>), or the exception that was raised (\<open>Trap\<close>), or the failure of the simulator itself
  (\<open>Inl\<close>). The arithmetic of the host wraps; a quotient that does not fit traps the host.
\<close>

section \<open>Helpers of the switch\<close>

type_synonym outcome = "(word32 \<times> word32 \<times> word32) access"

definition abind :: "'a access result \<Rightarrow> ('a \<Rightarrow> machine \<Rightarrow> 'b access result) \<Rightarrow> 'b access result" where
  "abind r f = rbind r (\<lambda>acc. case acc of Done a m \<Rightarrow> f a m | Trap exc m \<Rightarrow> Inr (Trap exc m))"

definition SIGN_BIT :: word32 where "SIGN_BIT = 0x80000000"
definition R31 :: nat where "R31 = 31"

definition IndexToAddr :: "word32 \<Rightarrow> word32" where
  "IndexToAddr x = push_bit 2 x"

text \<open>Leaving the switch by \<^verbatim>\<open>break\<close>, after an assignment to a register, or by an exception.\<close>

definition retire :: "word32 \<Rightarrow> machine \<Rightarrow> outcome result" where
  "retire npc m = Inr (Done (npc + 4, 0, 0) m)"

definition put :: "nat \<Rightarrow> word32 \<Rightarrow> word32 \<Rightarrow> machine \<Rightarrow> outcome result" where
  "put k v npc m = rbind (set_reg k v m) (retire npc)"

definition put_hi_lo :: "word32 \<Rightarrow> word32 \<Rightarrow> word32 \<Rightarrow> machine \<Rightarrow> outcome result" where
  "put_hi_lo hi lo npc m = rbind (set_reg LoReg lo m) (put HiReg hi npc)"

definition raise :: "ExceptionType \<Rightarrow> word32 \<Rightarrow> machine \<Rightarrow> 'a access result" where
  "raise exc addr m = rbind (RaiseException addr m) (\<lambda>m'. Inr (Trap exc m'))"

definition branch :: "bool \<Rightarrow> Instruction \<Rightarrow> word32 \<Rightarrow> machine \<Rightarrow> outcome result" where
  "branch c i npc m =
     Inr (Done (if c then npc + IndexToAddr (extra i) else npc + 4, 0, 0) m)"

section \<open>The cases of the switch\<close>

text \<open>Cases \<^verbatim>\<open>OP_ADD\<close> to \<^verbatim>\<open>OP_ANDI\<close>; \<open>a\<close> and \<open>b\<close> are the contents of registers \<open>rs\<close> and \<open>rt\<close>.\<close>

definition exec_add :: "Instruction \<Rightarrow> word32 \<Rightarrow> word32 \<Rightarrow> word32 \<Rightarrow> machine \<Rightarrow> outcome result" where
  "exec_add i a b npc m =
    (if opCode i = OP_ADD then
       let sum = a + b in
       if (a XOR b) AND SIGN_BIT = 0 \<and> (a XOR sum) AND SIGN_BIT \<noteq> 0 then raise OverflowException 0 m
       else put (rd i) sum npc m
     else if opCode i = OP_ADDI then
       let sum = a + extra i in
       if (a XOR extra i) AND SIGN_BIT = 0 \<and> (extra i XOR sum) AND SIGN_BIT \<noteq> 0
       then raise OverflowException 0 m
       else put (rt i) sum npc m
     else if opCode i = OP_ADDIU then put (rt i) (a + extra i) npc m
     else if opCode i = OP_ADDU then put (rd i) (a + b) npc m
     else if opCode i = OP_AND then put (rd i) (a AND b) npc m
     else if opCode i = OP_ANDI then put (rt i) (a AND (extra i AND 0xffff)) npc m
     else Inl Assert_Failed)"

text \<open>
  Cases \<^verbatim>\<open>OP_BEQ\<close> to \<^verbatim>\<open>OP_BNE\<close>. The linking branches write register 31 first and fall through, so
  the test reads the register file after that write.
\<close>

definition exec_branch :: "Instruction \<Rightarrow> word32 \<Rightarrow> word32 \<Rightarrow> word32 \<Rightarrow> machine \<Rightarrow> outcome result" where
  "exec_branch i a b npc m =
    (if opCode i = OP_BEQ then branch (a = b) i npc m
     else if opCode i = OP_BGEZAL then
       rbind (set_reg R31 (npc + 4) m) (\<lambda>m1. rbind (reg (rs i) m1) (\<lambda>a1.
         branch (a1 AND SIGN_BIT = 0) i npc m1))
     else if opCode i = OP_BGEZ then branch (a AND SIGN_BIT = 0) i npc m
     else if opCode i = OP_BGTZ then branch (sint a > 0) i npc m
     else if opCode i = OP_BLEZ then branch (sint a \<le> 0) i npc m
     else if opCode i = OP_BLTZAL then
       rbind (set_reg R31 (npc + 4) m) (\<lambda>m1. rbind (reg (rs i) m1) (\<lambda>a1.
         branch (a1 AND SIGN_BIT \<noteq> 0) i npc m1))
     else if opCode i = OP_BLTZ then branch (a AND SIGN_BIT \<noteq> 0) i npc m
     else if opCode i = OP_BNE then branch (a \<noteq> b) i npc m
     else Inl Assert_Failed)"

text \<open>Cases \<^verbatim>\<open>OP_DIV\<close> and \<^verbatim>\<open>OP_DIVU\<close>: the host divides, truncating towards zero.\<close>

definition exec_div :: "Instruction \<Rightarrow> word32 \<Rightarrow> word32 \<Rightarrow> word32 \<Rightarrow> machine \<Rightarrow> outcome result" where
  "exec_div i a b npc m =
    (if opCode i = OP_DIV then
       if b = 0 then put_hi_lo 0 0 npc m
       else if a = SIGN_BIT \<and> b = - 1 then Inl Host_Trap
       else put_hi_lo (word_of_int (sint a smod sint b)) (word_of_int (sint a sdiv sint b)) npc m
     else if opCode i = OP_DIVU then
       if b = 0 then put_hi_lo 0 0 npc m else put_hi_lo (a mod b) (a div b) npc m
     else Inl Assert_Failed)"

text \<open>Cases \<^verbatim>\<open>OP_JAL\<close> to \<^verbatim>\<open>OP_JR\<close>; \<^verbatim>\<open>OP_JALR\<close> reads its target after the link is written.\<close>

definition exec_jump :: "Instruction \<Rightarrow> word32 \<Rightarrow> machine \<Rightarrow> outcome result" where
  "exec_jump i npc m =
    (let target = ((npc + 4) AND 0xf0000000) OR IndexToAddr (extra i) in
     if opCode i = OP_JAL then
       rbind (set_reg R31 (npc + 4) m) (\<lambda>m1. Inr (Done (target, 0, 0) m1))
     else if opCode i = OP_J then Inr (Done (target, 0, 0) m)
     else if opCode i = OP_JALR then
       rbind (set_reg (rd i) (npc + 4) m) (\<lambda>m1. rbind (reg (rs i) m1) (\<lambda>a1.
         Inr (Done (a1, 0, 0) m1)))
     else if opCode i = OP_JR then rbind (reg (rs i) m) (\<lambda>a1. Inr (Done (a1, 0, 0) m))
     else Inl Assert_Failed)"

text \<open>
  Cases \<^verbatim>\<open>OP_LB\<close> to \<^verbatim>\<open>OP_LWR\<close>. The value goes to the delayed-load registers, not to its target.
  The unaligned loads assert that the address is aligned after all, so that of the four merges
  only the one for offset zero can run.
\<close>

definition delay_load :: "Instruction \<Rightarrow> word32 \<Rightarrow> word32 \<Rightarrow> machine \<Rightarrow> outcome result" where
  "delay_load i v npc m = Inr (Done (npc + 4, of_nat (rt i), v) m)"

definition lwl_merge :: "word32 \<Rightarrow> word32 \<Rightarrow> word32 \<Rightarrow> word32" where
  "lwl_merge k old v = (if k = 0 then v else if k = 1 then (old AND 0xff) OR push_bit 8 v
     else if k = 2 then (old AND 0xffff) OR push_bit 16 v else (old AND 0xffffff) OR push_bit 24 v)"

definition lwr_merge :: "word32 \<Rightarrow> word32 \<Rightarrow> word32 \<Rightarrow> word32" where
  "lwr_merge k old v =
     (if k = 0 then (old AND 0xffffff00) OR (signed_drop_bit 24 v AND 0xff)
      else if k = 1 then (old AND 0xffff0000) OR (signed_drop_bit 16 v AND 0xffff)
      else if k = 2 then (old AND 0xff000000) OR (signed_drop_bit 8 v AND 0xffffff) else v)"

definition load_merged ::
  "(word32 \<Rightarrow> word32 \<Rightarrow> word32 \<Rightarrow> word32) \<Rightarrow> Instruction \<Rightarrow> word32 \<Rightarrow> word32 \<Rightarrow> machine \<Rightarrow> outcome result" where
  "load_merged merge i tmp npc m =
     rbind (ASSERT (tmp AND 0x3 = 0)) (\<lambda>_. abind (ReadMem tmp 4 m) (\<lambda>v m1.
     rbind (reg LoadReg m1) (\<lambda>lr. rbind (reg LoadValueReg m1) (\<lambda>lv. rbind (reg (rt i) m1) (\<lambda>b.
     let old = (if lr = of_nat (rt i) then lv else b) in
     delay_load i (merge (tmp AND 0x3) old v) npc m1)))))"

definition exec_load :: "Instruction \<Rightarrow> word32 \<Rightarrow> word32 \<Rightarrow> machine \<Rightarrow> outcome result" where
  "exec_load i a npc m =
    (let tmp = a + extra i in
     if opCode i = OP_LB \<or> opCode i = OP_LBU then
       abind (ReadMem tmp 1 m) (\<lambda>v m1. delay_load i
         (if v AND 0x80 \<noteq> 0 \<and> opCode i = OP_LB then v OR 0xffffff00 else v AND 0xff) npc m1)
     else if opCode i = OP_LH \<or> opCode i = OP_LHU then
       if tmp AND 0x1 \<noteq> 0 then raise AddressErrorException tmp m
       else abind (ReadMem tmp 2 m) (\<lambda>v m1. delay_load i
         (if v AND 0x8000 \<noteq> 0 \<and> opCode i = OP_LH then v OR 0xffff0000 else v AND 0xffff) npc m1)
     else if opCode i = OP_LUI then put (rt i) (push_bit 16 (extra i)) npc m
     else if opCode i = OP_LW then
       if tmp AND 0x3 \<noteq> 0 then raise AddressErrorException tmp m
       else abind (ReadMem tmp 4 m) (\<lambda>v m1. delay_load i v npc m1)
     else if opCode i = OP_LWL then load_merged lwl_merge i tmp npc m
     else if opCode i = OP_LWR then load_merged lwr_merge i tmp npc m
     else Inl Assert_Failed)"

text \<open>Cases \<^verbatim>\<open>OP_MFHI\<close> to \<^verbatim>\<open>OP_ORI\<close>; the \<^verbatim>\<open>OP_OR\<close> case of the source combines \<open>rs\<close> with itself.\<close>

definition exec_move :: "Instruction \<Rightarrow> word32 \<Rightarrow> word32 \<Rightarrow> word32 \<Rightarrow> machine \<Rightarrow> outcome result" where
  "exec_move i a b npc m =
    (if opCode i = OP_MFHI then rbind (reg HiReg m) (\<lambda>h. put (rd i) h npc m)
     else if opCode i = OP_MFLO then rbind (reg LoReg m) (\<lambda>l. put (rd i) l npc m)
     else if opCode i = OP_MTHI then put HiReg a npc m
     else if opCode i = OP_MTLO then put LoReg a npc m
     else if opCode i = OP_MULT then (case Mult a b True of (hi, lo) \<Rightarrow> put_hi_lo hi lo npc m)
     else if opCode i = OP_MULTU then (case Mult a b False of (hi, lo) \<Rightarrow> put_hi_lo hi lo npc m)
     else if opCode i = OP_NOR then put (rd i) (NOT (a OR b)) npc m
     else if opCode i = OP_OR then put (rd i) (a OR a) npc m
     else if opCode i = OP_ORI then put (rt i) (a OR (extra i AND 0xffff)) npc m
     else Inl Assert_Failed)"

text \<open>
  Cases \<^verbatim>\<open>OP_SLL\<close> to \<^verbatim>\<open>OP_SUBU\<close>. The right shifts of the source all act on signed integers, also
  those of \<^verbatim>\<open>OP_SRL\<close> and \<^verbatim>\<open>OP_SRLV\<close>.
\<close>

definition exec_shift :: "Instruction \<Rightarrow> word32 \<Rightarrow> word32 \<Rightarrow> word32 \<Rightarrow> machine \<Rightarrow> outcome result" where
  "exec_shift i a b npc m =
    (let sh = unat (extra i); shv = unat (a AND 0x1f) in
     if opCode i = OP_SLL then put (rd i) (push_bit sh b) npc m
     else if opCode i = OP_SLLV then put (rd i) (push_bit shv b) npc m
     else if opCode i = OP_SLT then put (rd i) (if sint a < sint b then 1 else 0) npc m
     else if opCode i = OP_SLTI then put (rt i) (if sint a < sint (extra i) then 1 else 0) npc m
     else if opCode i = OP_SLTIU then put (rt i) (if a < extra i then 1 else 0) npc m
     else if opCode i = OP_SLTU then put (rd i) (if a < b then 1 else 0) npc m
     else if opCode i = OP_SRA then put (rd i) (signed_drop_bit sh b) npc m
     else if opCode i = OP_SRAV then put (rd i) (signed_drop_bit shv b) npc m
     else if opCode i = OP_SRL then put (rd i) (signed_drop_bit sh b) npc m
     else if opCode i = OP_SRLV then put (rd i) (signed_drop_bit shv b) npc m
     else if opCode i = OP_SUB then
       let diff = a - b in
       if (a XOR b) AND SIGN_BIT \<noteq> 0 \<and> (a XOR diff) AND SIGN_BIT \<noteq> 0 then raise OverflowException 0 m
       else put (rd i) diff npc m
     else if opCode i = OP_SUBU then put (rd i) (a - b) npc m
     else Inl Assert_Failed)"

text \<open>Cases \<^verbatim>\<open>OP_SB\<close>, \<^verbatim>\<open>OP_SH\<close> and \<^verbatim>\<open>OP_SW\<close> to \<^verbatim>\<open>OP_SWR\<close>.\<close>

definition swl_merge :: "word32 \<Rightarrow> word32 \<Rightarrow> word32 \<Rightarrow> word32" where
  "swl_merge k b v =
     (if k = 0 then b
      else if k = 1 then (v AND 0xff000000) OR (signed_drop_bit 8 b AND 0xffffff)
      else if k = 2 then (v AND 0xffff0000) OR (signed_drop_bit 16 b AND 0xffff)
      else (v AND 0xffffff00) OR (signed_drop_bit 24 b AND 0xff))"

definition swr_merge :: "word32 \<Rightarrow> word32 \<Rightarrow> word32 \<Rightarrow> word32" where
  "swr_merge k b v =
     (if k = 0 then (v AND 0xffffff) OR push_bit 24 b
      else if k = 1 then (v AND 0xffff) OR push_bit 16 b
      else if k = 2 then (v AND 0xff) OR push_bit 8 b else b)"

definition store_merged ::
  "(word32 \<Rightarrow> word32 \<Rightarrow> word32 \<Rightarrow> word32) \<Rightarrow> word32 \<Rightarrow> word32 \<Rightarrow> word32 \<Rightarrow> machine \<Rightarrow> outcome result" where
  "store_merged merge tmp b npc m =
     rbind (ASSERT (tmp AND 0x3 = 0)) (\<lambda>_. abind (ReadMem (tmp AND NOT 0x3) 4 m) (\<lambda>v m1.
     abind (WriteMem (tmp AND NOT 0x3) 4 (merge (tmp AND 0x3) b v) m1) (\<lambda>_ m2. retire npc m2)))"

definition exec_store :: "Instruction \<Rightarrow> word32 \<Rightarrow> word32 \<Rightarrow> word32 \<Rightarrow> machine \<Rightarrow> outcome result" where
  "exec_store i a b npc m =
    (let tmp = a + extra i in
     if opCode i = OP_SB then abind (WriteMem tmp 1 b m) (\<lambda>_ m1. retire npc m1)
     else if opCode i = OP_SH then abind (WriteMem tmp 2 b m) (\<lambda>_ m1. retire npc m1)
     else if opCode i = OP_SW then abind (WriteMem tmp 4 b m) (\<lambda>_ m1. retire npc m1)
     else if opCode i = OP_SWL then store_merged swl_merge tmp b npc m
     else if opCode i = OP_SWR then store_merged swr_merge tmp b npc m
     else Inl Assert_Failed)"

text \<open>Cases \<^verbatim>\<open>OP_SYSCALL\<close> to the default.\<close>

definition exec_system :: "Instruction \<Rightarrow> word32 \<Rightarrow> word32 \<Rightarrow> word32 \<Rightarrow> machine \<Rightarrow> outcome result" where
  "exec_system i a b npc m =
    (if opCode i = OP_SYSCALL then raise SyscallException 0 m
     else if opCode i = OP_XOR then put (rd i) (a XOR b) npc m
     else if opCode i = OP_XORI then put (rt i) (a XOR (extra i AND 0xffff)) npc m
     else if opCode i = OP_RES \<or> opCode i = OP_UNIMP then raise IllegalInstrException 0 m
     else Inl Assert_Failed)"

section \<open>One instruction\<close>

abbreviation "add_ops \<equiv> {OP_ADD, OP_ADDI, OP_ADDIU, OP_ADDU, OP_AND, OP_ANDI}"
abbreviation "branch_ops \<equiv>
  {OP_BEQ, OP_BGEZ, OP_BGEZAL, OP_BGTZ, OP_BLEZ, OP_BLTZ, OP_BLTZAL, OP_BNE}"
abbreviation "jump_ops \<equiv> {OP_J, OP_JAL, OP_JALR, OP_JR}"
abbreviation "load_ops \<equiv> {OP_LB, OP_LBU, OP_LH, OP_LHU, OP_LUI, OP_LW, OP_LWL, OP_LWR}"
abbreviation "move_ops \<equiv>
  {OP_MFHI, OP_MFLO, OP_MTHI, OP_MTLO, OP_MULT, OP_MULTU, OP_NOR, OP_OR, OP_ORI}"
abbreviation "shift_ops \<equiv> {OP_SLL, OP_SLLV, OP_SLT, OP_SLTI, OP_SLTIU, OP_SLTU, OP_SRA, OP_SRAV,
  OP_SRL, OP_SRLV, OP_SUB, OP_SUBU}"
abbreviation "store_ops \<equiv> {OP_SB, OP_SH, OP_SW, OP_SWL, OP_SWR}"

definition execute :: "Instruction \<Rightarrow> word32 \<Rightarrow> machine \<Rightarrow> outcome result" where
  "execute i npc m = rbind (reg (rs i) m) (\<lambda>a. rbind (reg (rt i) m) (\<lambda>b.
     if opCode i \<in> add_ops then exec_add i a b npc m
     else if opCode i \<in> branch_ops then exec_branch i a b npc m
     else if opCode i \<in> {OP_DIV, OP_DIVU} then exec_div i a b npc m
     else if opCode i \<in> jump_ops then exec_jump i npc m
     else if opCode i \<in> load_ops then exec_load i a npc m
     else if opCode i \<in> move_ops then exec_move i a b npc m
     else if opCode i \<in> shift_ops then exec_shift i a b npc m
     else if opCode i \<in> store_ops then exec_store i a b npc m
     else exec_system i a b npc m))"

text \<open>The end of \<^verbatim>\<open>OneInstruction\<close>: the delayed load of the previous instruction, then the counters.\<close>

definition finish_instruction :: "word32 \<times> word32 \<times> word32 \<Rightarrow> machine \<Rightarrow> unit access result" where
  "finish_instruction = (\<lambda>(pcAfter, nextLoadReg, nextLoadValue) m.
     rbind (DelayedLoad nextLoadReg nextLoadValue m) (\<lambda>m1.
     rbind (reg PCReg m1) (\<lambda>pc. rbind (set_reg PrevPCReg pc m1) (\<lambda>m2.
     rbind (reg NextPCReg m2) (\<lambda>npc. rbind (set_reg PCReg npc m2) (\<lambda>m3.
     rbind (set_reg NextPCReg pcAfter m3) (\<lambda>m4. Inr (Done () m4))))))))"

definition OneInstruction :: "machine \<Rightarrow> unit access result" where
  "OneInstruction m = rbind (reg PCReg m) (\<lambda>pc. abind (ReadMem pc 4 m) (\<lambda>raw m1.
     rbind (reg NextPCReg m1) (\<lambda>npc.
     abind (execute (Decode raw) npc m1) finish_instruction)))"

section \<open>Preservation through the switch\<close>

text \<open>
  A state the simulator may start an instruction in, and what every case of the switch
  guarantees: control registers untouched, a delayed load to a general register, memory and
  tables confined; or an exception with the registers in order.
\<close>

definition mach_ok :: "machine \<Rightarrow> bool" where
  "mach_ok m \<longleftrightarrow> tables_ok m \<and> regs_ok m"

definition control_same :: "machine \<Rightarrow> machine \<Rightarrow> bool" where
  "control_same m m' \<longleftrightarrow> length (registers m') = NumTotalRegs
     \<and> (\<forall>k. PCReg \<le> k \<and> k < NumTotalRegs \<longrightarrow> registers m' ! k = registers m ! k)"

definition exec_ok :: "machine \<Rightarrow> outcome result \<Rightarrow> bool" where
  "exec_ok m r \<longleftrightarrow> (case r of Inl _ \<Rightarrow> False
     | Inr (Done (pc, lr, lv) m') \<Rightarrow> unat lr < 32 \<and> control_same m m' \<and> confined m m'
     | Inr (Trap exc m') \<Rightarrow> regs_ok m' \<and> confined m m')"

named_theorems exec_intros \<open>ways through the switch\<close>

lemma mach_okD:
  "mach_ok m \<Longrightarrow> tables_ok m" "mach_ok m \<Longrightarrow> regs_ok m"
  "mach_ok m \<Longrightarrow> length (registers m) = NumTotalRegs" "mach_ok m \<Longrightarrow> confined m m"
  "mach_ok m \<Longrightarrow> control_same m m"
  by (simp_all add: mach_ok_def regs_ok_def confined_refl control_same_def)

lemma control_same_upd:
  "control_same m m' \<Longrightarrow> k < PCReg \<Longrightarrow>
     control_same m (m'\<lparr>registers := (registers m')[k := v]\<rparr>)"
  by (simp add: control_same_def)

lemma set_reg_general:
  "control_same m m' \<Longrightarrow> k < PCReg \<Longrightarrow>
     set_reg k v m' = Inr (m'\<lparr>registers := (registers m')[k := v]\<rparr>)"
  by (simp add: control_same_def reg_defs)

lemma reg_general: "control_same m m' \<Longrightarrow> k < NumTotalRegs \<Longrightarrow> reg k m' = Inr (registers m' ! k)"
  by (simp add: control_same_def)

lemma retire_ok [exec_intros]:
  "control_same m m' \<Longrightarrow> confined m m' \<Longrightarrow> exec_ok m (retire npc m')"
  by (simp add: retire_def exec_ok_def)

lemma put_ok:
  "control_same m m' \<Longrightarrow> confined m m' \<Longrightarrow> k < PCReg \<Longrightarrow> exec_ok m (put k v npc m')"
  by (simp add: put_def set_reg_general retire_ok control_same_upd)

lemma put_here [exec_intros]: "mach_ok m \<Longrightarrow> k < PCReg \<Longrightarrow> exec_ok m (put k v npc m)"
  by (simp add: put_ok mach_okD)

lemma put_hi_lo_ok [exec_intros]: "mach_ok m \<Longrightarrow> exec_ok m (put_hi_lo hi lo npc m)"
proof -
  assume m: "mach_ok m"
  have "HiReg < PCReg" "LoReg < PCReg" by (simp_all add: reg_defs)
  with m show ?thesis
    by (simp add: put_hi_lo_def set_reg_general [OF mach_okD(5)] put_ok control_same_upd mach_okD)
qed

lemma raise_ok [exec_intros]: "mach_ok m \<Longrightarrow> exec_ok m (raise exc addr m)"
  by (rule RaiseException_ok [of m addr])
     (simp_all add: raise_def exec_ok_def mach_okD)

lemma branch_ok:
  "control_same m m' \<Longrightarrow> confined m m' \<Longrightarrow> exec_ok m (branch c i npc m')"
  by (simp add: branch_def exec_ok_def)

lemma branch_here [exec_intros]: "mach_ok m \<Longrightarrow> exec_ok m (branch c i npc m)"
  by (simp add: branch_ok mach_okD)

lemma link_ok [exec_intros]:
  assumes "mach_ok m" "k < PCReg" "j < NumTotalRegs"
    and "\<And>m1 a. control_same m m1 \<Longrightarrow> confined m m1 \<Longrightarrow> exec_ok m (f m1 a)"
  shows "exec_ok m (rbind (set_reg k v m) (\<lambda>m1. rbind (reg j m1) (f m1)))"
proof -
  have c: "control_same m (m\<lparr>registers := (registers m)[k := v]\<rparr>)"
    using assms by (simp add: control_same_upd mach_okD)
  show ?thesis
    using assms(1,2) assms(4) [OF c]
    by (simp add: set_reg_general [OF mach_okD(5)] reg_general [OF c assms(3)] mach_okD)
qed

lemma delay_load_ok [exec_intros]:
  "control_same m m' \<Longrightarrow> confined m m' \<Longrightarrow> rt i < 32 \<Longrightarrow> exec_ok m (delay_load i v npc m')"
  by (simp add: delay_load_def exec_ok_def unsigned_of_nat take_bit_nat_eq_self)

lemma exec_ok_trans:
  assumes "exec_ok m1 r" "confined m m1" "registers m1 = registers m"
  shows "exec_ok m r"
  using assms by (auto simp: exec_ok_def control_same_def split: sum.splits access.splits
      intro: confined_trans)

lemma read_then_ok [exec_intros]:
  assumes "mach_ok m" "sz = 1 \<or> sz = 2 \<or> sz = 4"
    and "\<And>v m1. mach_ok m1 \<Longrightarrow> exec_ok m1 (f v m1)"
  shows "exec_ok m (abind (ReadMem va sz m) f)"
proof (rule ReadMem_confined [OF mach_okD(1,2) [OF assms(1)] assms(2), of va])
  fix v m' assume r: "ReadMem va sz m = Inr (Done v m')" "confined m m'" "registers m' = registers m"
  then have "mach_ok m'"
    using assms(1) by (simp add: mach_ok_def confined_def regs_ok_def)
  from exec_ok_trans [OF assms(3) [OF this] r(2,3)] r(1) show ?thesis by (simp add: abind_def)
qed (simp add: abind_def exec_ok_def)

lemma write_then_ok [exec_intros]:
  assumes "mach_ok m" "sz = 1 \<or> sz = 2 \<or> sz = 4"
    and "\<And>m1. mach_ok m1 \<Longrightarrow> exec_ok m1 (f () m1)"
  shows "exec_ok m (abind (WriteMem va sz v m) f)"
proof (rule WriteMem_confined [OF mach_okD(1,2) [OF assms(1)] assms(2), of va v])
  fix m' assume r: "WriteMem va sz v m = Inr (Done () m')" "confined m m'" "registers m' = registers m"
  then have "mach_ok m'"
    using assms(1) by (simp add: mach_ok_def confined_def regs_ok_def)
  from exec_ok_trans [OF assms(3) [OF this] r(2,3)] r(1) show ?thesis by (simp add: abind_def)
qed (simp add: abind_def exec_ok_def)

section \<open>The groups of the switch\<close>

abbreviation "fields_ok i \<equiv> rs i < 32 \<and> rt i < 32 \<and> rd i < 32"

lemma exec_add_ok:
  "mach_ok m \<Longrightarrow> fields_ok i \<Longrightarrow> opCode i \<in> add_ops \<Longrightarrow> exec_ok m (exec_add i a b npc m)"
  by (auto simp: exec_add_def Let_def reg_defs intro!: exec_intros)

lemma exec_branch_ok:
  "mach_ok m \<Longrightarrow> fields_ok i \<Longrightarrow> opCode i \<in> branch_ops \<Longrightarrow> exec_ok m (exec_branch i a b npc m)"
  by (auto simp: exec_branch_def reg_defs R31_def intro!: exec_intros branch_ok)

text \<open>The operands on which the simulator itself fails.\<close>

definition crashes :: "Instruction \<Rightarrow> word32 \<Rightarrow> word32 \<Rightarrow> bool" where
  "crashes i a b \<longleftrightarrow>
     opCode i \<in> {OP_LWL, OP_LWR, OP_SWL, OP_SWR} \<and> (a + extra i) AND 0x3 \<noteq> 0
   \<or> opCode i = OP_DIV \<and> a = SIGN_BIT \<and> b = - 1"

lemma exec_div_ok:
  "mach_ok m \<Longrightarrow> \<not> crashes i a b \<Longrightarrow> opCode i \<in> {OP_DIV, OP_DIVU} \<Longrightarrow>
     exec_ok m (exec_div i a b npc m)"
  by (auto simp: exec_div_def crashes_def intro!: exec_intros)

lemma exec_jump_ok:
  assumes "mach_ok m" "fields_ok i" "opCode i \<in> jump_ops"
  shows "exec_ok m (exec_jump i npc m)"
proof -
  have "control_same m m1 \<Longrightarrow> confined m m1 \<Longrightarrow> exec_ok m (Inr (Done (pc, 0, 0) m1))" for pc m1
    by (simp add: exec_ok_def)
  then have "exec_ok m (rbind (set_reg k v m) (\<lambda>m1. rbind (reg (rs i) m1) (\<lambda>a. Inr (Done (a, 0, 0) m1))))"
    "exec_ok m (rbind (set_reg k v m) (\<lambda>m1. Inr (Done (pc, 0, 0) m1)))"
    "exec_ok m (Inr (Done (pc, 0, 0) m))"
    if "k < PCReg" for k v pc
    using assms that
    by (auto simp: reg_defs set_reg_general [OF mach_okD(5)] mach_okD control_same_upd
        intro!: link_ok)
  from this [of "rd i"] this [of R31] show ?thesis
    using assms mach_okD(3) [OF assms(1)] by (auto simp: exec_jump_def Let_def reg_defs R31_def)
qed

lemma load_merged_ok:
  assumes "mach_ok m" "fields_ok i" "tmp AND 0x3 = 0"
  shows "exec_ok m (load_merged merge i tmp npc m)"
proof -
  have "exec_ok m (abind (ReadMem tmp 4 m) (\<lambda>v m1.
     rbind (reg LoadReg m1) (\<lambda>lr. rbind (reg LoadValueReg m1) (\<lambda>lv. rbind (reg (rt i) m1) (\<lambda>b.
     let old = (if lr = of_nat (rt i) then lv else b) in
     delay_load i (merge (tmp AND 0x3) old v) npc m1)))))"
    using assms(1,2)
    by (intro exec_intros) (auto simp: mach_okD Let_def reg_defs intro!: exec_intros)
  then show ?thesis using assms(3) by (simp add: load_merged_def)
qed

lemma exec_load_ok:
  "mach_ok m \<Longrightarrow> fields_ok i \<Longrightarrow> \<not> crashes i a b \<Longrightarrow> opCode i \<in> load_ops \<Longrightarrow>
     exec_ok m (exec_load i a npc m)"
  by (elim insertE emptyE)
     (simp_all add: exec_load_def Let_def reg_defs crashes_def mach_okD load_merged_ok exec_intros)

lemma exec_move_ok:
  "mach_ok m \<Longrightarrow> fields_ok i \<Longrightarrow> opCode i \<in> move_ops \<Longrightarrow> exec_ok m (exec_move i a b npc m)"
  by (auto simp: exec_move_def reg_defs mach_okD split: prod.splits intro!: exec_intros)

lemma exec_shift_ok:
  "mach_ok m \<Longrightarrow> fields_ok i \<Longrightarrow> opCode i \<in> shift_ops \<Longrightarrow> exec_ok m (exec_shift i a b npc m)"
  by (elim insertE emptyE) (simp_all add: exec_shift_def Let_def reg_defs exec_intros)

lemma store_merged_ok:
  assumes "mach_ok m" "tmp AND 0x3 = 0"
  shows "exec_ok m (store_merged merge tmp b npc m)"
proof -
  have "exec_ok m (abind (ReadMem (tmp AND NOT 0x3) 4 m) (\<lambda>v m1.
     abind (WriteMem (tmp AND NOT 0x3) 4 (merge (tmp AND 0x3) b v) m1) (\<lambda>_ m2. retire npc m2)))"
    using assms(1) by (intro exec_intros) (simp_all add: mach_okD)
  then show ?thesis using assms(2) by (simp add: store_merged_def)
qed

lemma exec_store_ok:
  "mach_ok m \<Longrightarrow> \<not> crashes i a b \<Longrightarrow> opCode i \<in> store_ops \<Longrightarrow> exec_ok m (exec_store i a b npc m)"
  by (auto simp: exec_store_def Let_def crashes_def mach_okD store_merged_ok intro!: exec_intros)

lemma exec_system_ok:
  assumes "mach_ok m" "fields_ok i" "opCode i \<in> {OP_SYSCALL, OP_XOR, OP_XORI, OP_RES, OP_UNIMP}"
  shows "exec_ok m (exec_system i a b npc m)"
  using assms by (auto simp: exec_system_def reg_defs intro!: exec_intros)

lemma opcode_groups:
  "op \<in> add_ops \<union> branch_ops \<union> {OP_DIV, OP_DIVU} \<union> jump_ops \<union> load_ops \<union> move_ops \<union> shift_ops
     \<union> store_ops \<union> {OP_SYSCALL, OP_XOR, OP_XORI, OP_RES, OP_UNIMP} \<union> {OP_RFE, SPECIAL, BCOND}"
  by (cases op) simp_all

lemma exec_ok_if:
  "(c \<Longrightarrow> exec_ok m x) \<Longrightarrow> (\<not> c \<Longrightarrow> exec_ok m y) \<Longrightarrow> exec_ok m (if c then x else y)"
  by simp

lemma execute_ok:
  assumes "mach_ok m" "fields_ok i" "opCode i \<notin> {OP_RFE, SPECIAL, BCOND}"
    and "\<not> crashes i (registers m ! rs i) (registers m ! rt i)"
  shows "exec_ok m (execute i npc m)"
proof -
  let ?a = "registers m ! rs i" and ?b = "registers m ! rt i"
  have regs: "reg (rs i) m = Inr ?a" "reg (rt i) m = Inr ?b"
    using assms(1,2) by (simp_all add: mach_okD reg_defs)
  note groups = exec_add_ok [OF assms(1,2), of ?a ?b npc]
    exec_branch_ok [OF assms(1,2), of ?a ?b npc] exec_div_ok [OF assms(1,4), of npc]
    exec_jump_ok [OF assms(1,2), of npc] exec_load_ok [OF assms(1,2,4), of npc]
    exec_move_ok [OF assms(1,2), of ?a ?b npc] exec_shift_ok [OF assms(1,2), of ?a ?b npc]
    exec_store_ok [OF assms(1,4), of npc] exec_system_ok [OF assms(1,2), of ?a ?b npc]
  have "exec_ok m (if opCode i \<in> add_ops then exec_add i ?a ?b npc m
     else if opCode i \<in> branch_ops then exec_branch i ?a ?b npc m
     else if opCode i \<in> {OP_DIV, OP_DIVU} then exec_div i ?a ?b npc m
     else if opCode i \<in> jump_ops then exec_jump i npc m
     else if opCode i \<in> load_ops then exec_load i ?a npc m
     else if opCode i \<in> move_ops then exec_move i ?a ?b npc m
     else if opCode i \<in> shift_ops then exec_shift i ?a ?b npc m
     else if opCode i \<in> store_ops then exec_store i ?a ?b npc m
     else exec_system i ?a ?b npc m)"
    using opcode_groups [of "opCode i"] assms(3)
    by (intro exec_ok_if groups) (assumption | blast)+
  then show ?thesis using regs by (simp only: execute_def rbind_simps)
qed

section \<open>Properties of instruction execution\<close>

lemma finish_ok:
  assumes "mach_ok m" "control_same m m1" "confined m m1" "unat lr < 32"
  obtains m' where "finish_instruction (pcAfter, lr, lv) m1 = Inr (Done () m')" "regs_ok m'"
    "confined m m'" "registers m' ! PCReg = registers m ! NextPCReg"
    "registers m' ! PrevPCReg = registers m ! PCReg" "registers m' ! NextPCReg = pcAfter"
    "registers m' ! LoadReg = lr" "registers m' ! LoadValueReg = lv"
    "\<And>k. 0 < k \<Longrightarrow> k < PCReg \<Longrightarrow>
       registers m' ! k = (if k = unat (registers m ! LoadReg) then registers m ! LoadValueReg
                           else registers m1 ! k)"
    "mainMemory m' = mainMemory m1"
proof -
  have c: "registers m1 ! k = registers m ! k" if "PCReg \<le> k" "k < NumTotalRegs" for k
    using assms(2) that by (simp add: control_same_def)
  have l: "length (registers m1) = NumTotalRegs" "unat (registers m1 ! LoadReg) < 32"
    using assms c [of LoadReg] by (simp_all add: control_same_def mach_ok_def regs_ok_def reg_defs)
  obtain r where r: "DelayedLoad lr lv m1 = Inr (m1\<lparr>registers := r\<rparr>)" "regs_ok (m1\<lparr>registers := r\<rparr>)"
    "r ! LoadReg = lr" "r ! LoadValueReg = lv"
    "\<And>i. 0 < i \<Longrightarrow> i < NumTotalRegs \<Longrightarrow> i \<noteq> LoadReg \<Longrightarrow> i \<noteq> LoadValueReg \<Longrightarrow>
       r ! i = (if i = unat (registers m1 ! LoadReg) then registers m1 ! LoadValueReg
                else registers m1 ! i)"
    by (rule DelayedLoad_ok [OF l assms(4), of lv]) (erule (1) that, assumption+)
  have len: "length r = NumTotalRegs" using r(2) by (simp add: regs_ok_def)
  have pcs: "r ! PCReg = registers m ! PCReg" "r ! NextPCReg = registers m ! NextPCReg"
    using r(5) [of PCReg] r(5) [of NextPCReg] l(2) c [of PCReg] c [of NextPCReg]
    by (simp_all add: reg_defs)
  let ?r = "r[PrevPCReg := r ! PCReg, PCReg := r ! NextPCReg, NextPCReg := pcAfter]"
  have "finish_instruction (pcAfter, lr, lv) m1 = Inr (Done () (m1\<lparr>registers := ?r\<rparr>))"
    using r(1) len by (simp add: finish_instruction_def reg_defs)
  then show ?thesis
  proof (rule that)
    show "regs_ok (m1\<lparr>registers := ?r\<rparr>)" using r(2) by (simp add: regs_ok_def reg_defs)
    show "registers (m1\<lparr>registers := ?r\<rparr>) ! k =
        (if k = unat (registers m ! LoadReg) then registers m ! LoadValueReg else registers m1 ! k)"
      if "0 < k" "k < PCReg" for k
      using that r(5) [of k] c [of LoadReg] c [of LoadValueReg] by (simp add: reg_defs)
  qed (use assms(3) len pcs r(3,4) in \<open>simp_all add: reg_defs\<close>)
qed

text \<open>What the machine is about to execute, when the fetch succeeds.\<close>

definition fetched :: "machine \<Rightarrow> word32 option" where
  "fetched m = (case ReadMem (registers m ! PCReg) 4 m of Inr (Done raw _) \<Rightarrow> Some raw | _ \<Rightarrow> None)"

definition next_instr :: "machine \<Rightarrow> Instruction option" where
  "next_instr m = map_option Decode (fetched m)"

definition will_crash :: "machine \<Rightarrow> bool" where
  "will_crash m \<longleftrightarrow> (case next_instr m of None \<Rightarrow> False
     | Some i \<Rightarrow> crashes i (registers m ! rs i) (registers m ! rt i))"

lemma OneInstruction_cases:
  assumes "mach_ok m"
  obtains (fault) exc m' where "OneInstruction m = Inr (Trap exc m')" "regs_ok m'" "confined m m'"
      "next_instr m = None"
  | (execute) raw m1 where "fetched m = Some raw" "next_instr m = Some (Decode raw)"
      "mach_ok m1" "confined m m1" "registers m1 = registers m" "mainMemory m1 = mainMemory m"
      "OneInstruction m = abind (execute (Decode raw) (registers m ! NextPCReg) m1) finish_instruction"
proof (rule ReadMem_confined [OF mach_okD(1,2) [OF assms], of 4 "registers m ! PCReg"])
  fix raw m1
  assume r: "ReadMem (registers m ! PCReg) 4 m = Inr (Done raw m1)" "confined m m1"
    "registers m1 = registers m" "mainMemory m1 = mainMemory m"
  show ?thesis
  proof (rule execute)
    show "OneInstruction m = abind (execute (Decode raw) (registers m ! NextPCReg) m1) finish_instruction"
      using r assms by (simp add: OneInstruction_def mach_okD reg_defs abind_def)
    show "mach_ok m1" using r(2,3) assms by (simp add: mach_ok_def regs_ok_def confined_def)
  qed (use r in \<open>simp_all add: fetched_def next_instr_def\<close>)
next
  fix exc m'
  assume "ReadMem (registers m ! PCReg) 4 m = Inr (Trap exc m')" "confined m m'" "regs_ok m'"
  then show ?thesis
    using assms by (intro fault) (simp_all add: OneInstruction_def mach_okD reg_defs abind_def
        fetched_def next_instr_def)
qed simp

lemma OneInstruction_ok:
  assumes "mach_ok m" "\<not> will_crash m"
  shows "\<exists>m'. (OneInstruction m = Inr (Done () m') \<or> (\<exists>exc. OneInstruction m = Inr (Trap exc m')))
    \<and> regs_ok m' \<and> confined m m'"
proof (rule OneInstruction_cases [OF assms(1)])
  fix raw m1
  assume f: "fetched m = Some raw" "next_instr m = Some (Decode raw)" "mach_ok m1" "confined m m1"
    "registers m1 = registers m"
    "OneInstruction m = abind (execute (Decode raw) (registers m ! NextPCReg) m1) finish_instruction"
  have "exec_ok m1 (execute (Decode raw) (registers m ! NextPCReg) m1)"
    by (rule execute_ok) (use f assms(2) Decode_fields Decode_opCode in \<open>auto simp: will_crash_def\<close>)
  then consider (adv) pc lr lv m2 where
      "execute (Decode raw) (registers m ! NextPCReg) m1 = Inr (Done (pc, lr, lv) m2)"
      "unat lr < 32" "control_same m1 m2" "confined m1 m2"
    | (trap) exc m2 where "execute (Decode raw) (registers m ! NextPCReg) m1 = Inr (Trap exc m2)"
      "regs_ok m2" "confined m1 m2"
    by (auto simp: exec_ok_def split: sum.splits access.splits)
  then show ?thesis
  proof cases
    case adv
    show ?thesis
      by (rule finish_ok [OF f(3) adv(3,4,2), of pc lv])
         (use f adv in \<open>auto simp: abind_def intro: confined_trans\<close>)
  next
    case trap
    then show ?thesis using f(6) confined_trans [OF f(4) trap(3)] by (simp add: abind_def)
  qed
qed blast

lemma crashing_execute:
  assumes "mach_ok m" "fields_ok i" "crashes i (registers m ! rs i) (registers m ! rt i)"
  shows "execute i npc m = Inl (if opCode i = OP_DIV then Host_Trap else Assert_Failed)"
proof -
  let ?a = "registers m ! rs i" and ?b = "registers m ! rt i"
  have regs: "reg (rs i) m = Inr ?a" "reg (rt i) m = Inr ?b"
    using assms(1,2) by (simp_all add: mach_okD reg_defs)
  from assms(3) consider "opCode i = OP_DIV" "?a = SIGN_BIT" "?b = - 1"
    | "opCode i \<in> {OP_LWL, OP_LWR}" "(?a + extra i) AND 0x3 \<noteq> 0"
    | "opCode i \<in> {OP_SWL, OP_SWR}" "(?a + extra i) AND 0x3 \<noteq> 0"
    by (auto simp: crashes_def)
  then show ?thesis
  proof cases
    case 1
    then show ?thesis using regs by (simp add: execute_def exec_div_def)
  next
    case 2
    then show ?thesis
      by (elim insertE emptyE)
         (simp_all add: execute_def regs exec_load_def load_merged_def Let_def)
  next
    case 3
    then show ?thesis
      by (elim insertE emptyE)
         (simp_all add: execute_def regs exec_store_def store_merged_def Let_def)
  qed
qed

text \<open>
  C5: executing one user instruction keeps the machine in order and confined. Unless the simulator
  itself fails, the next state has its registers in order (register zero reads zero, the
  pending load names a general register), the translations are unchanged up to use and dirty
  bits, and no byte outside the frames mapped writable for this program has changed, whether
  the instruction completed or raised an exception.
\<close>

theorem instruction_is_confined:
  assumes "tables_ok m" "regs_ok m" "OneInstruction m = Inr r"
  shows "\<exists>m'. (r = Done () m' \<or> (\<exists>exc. r = Trap exc m')) \<and> tables_ok m' \<and> regs_ok m' \<and>
    (\<forall>a. a div PageSize \<notin> writable_frames m \<longrightarrow> mainMemory m' a = mainMemory m a) \<and>
    writable_frames m' = writable_frames m"
proof -
  have ok: "mach_ok m" using assms(1,2) by (simp add: mach_ok_def)
  have "\<not> will_crash m"
  proof
    assume "will_crash m"
    with ok show False
      by (rule_tac OneInstruction_cases [OF ok])
         (use assms(3) Decode_fields in \<open>auto simp: will_crash_def abind_def crashing_execute\<close>)
  qed
  from OneInstruction_ok [OF ok this] assms(3) obtain m' where
    m': "r = Done () m' \<or> (\<exists>exc. r = Trap exc m')" "regs_ok m'" "confined m m'" by auto
  then show ?thesis
    using writable_frames_core [of m' m] by (auto simp: confined_def)
qed

text \<open>
  C37: when the simulator fails. In a state in order, \<^verbatim>\<open>OneInstruction\<close> fails exactly for an unaligned
  \<^verbatim>\<open>LWL\<close>, \<^verbatim>\<open>LWR\<close>, \<^verbatim>\<open>SWL\<close> or \<^verbatim>\<open>SWR\<close>, whose assertion stops Nachos, and for a signed division of the
  least integer by minus one, which traps the host; every other instruction completes or
  raises an exception of the machine.
\<close>

theorem simulator_failures:
  assumes "tables_ok m" "regs_ok m"
  shows "(\<exists>e. OneInstruction m = Inl e) \<longleftrightarrow>
    (\<exists>i. next_instr m = Some i \<and>
      (opCode i \<in> {OP_LWL, OP_LWR, OP_SWL, OP_SWR} \<and> (registers m ! rs i + extra i) AND 0x3 \<noteq> 0
       \<or> opCode i = OP_DIV \<and> registers m ! rs i = 0x80000000 \<and> registers m ! rt i = - 1))"
proof -
  have ok: "mach_ok m" using assms by (simp add: mach_ok_def)
  have w: "will_crash m \<longleftrightarrow> (\<exists>i. next_instr m = Some i \<and>
      (opCode i \<in> {OP_LWL, OP_LWR, OP_SWL, OP_SWR} \<and> (registers m ! rs i + extra i) AND 0x3 \<noteq> 0
       \<or> opCode i = OP_DIV \<and> registers m ! rs i = 0x80000000 \<and> registers m ! rt i = - 1))"
    by (auto simp: will_crash_def crashes_def SIGN_BIT_def split: option.splits)
  have "(\<exists>e. OneInstruction m = Inl e) \<longleftrightarrow> will_crash m"
  proof
    assume "will_crash m"
    with ok show "\<exists>e. OneInstruction m = Inl e"
      by (rule_tac OneInstruction_cases [OF ok])
         (use Decode_fields in \<open>auto simp: will_crash_def abind_def crashing_execute\<close>)
  next
    assume "\<exists>e. OneInstruction m = Inl e"
    with OneInstruction_ok [OF ok] show "will_crash m" by (cases "will_crash m") auto
  qed
  then show ?thesis by (simp only: w)
qed

text \<open>A concrete machine: one page at frame 3, with a given word at address zero.\<close>

definition demo_machine :: "word32 \<Rightarrow> machine" where
  "demo_machine w = one_page\<lparr>mainMemory := le_store (\<lambda>_. 0) 768 4 w\<rparr>"

lemma demo_machine_ok: "tables_ok (demo_machine w)" "regs_ok (demo_machine w)"
  using one_page_ok by (simp_all add: demo_machine_def regs_ok_def)

lemma demo_machine_fetch: "next_instr (demo_machine w) = Some (Decode w)"
proof -
  have e: "mapping_of (demo_machine w) (vpn_of 0) = Some \<lparr>virtualPage = 0, physicalPage = 3,
      valid = True, readOnly = False, use = False, dirty = False\<rparr>" (is "_ = Some ?e")
    by (simp add: demo_machine_def one_page_def mapping_of_def vpn_of_def Machine_new_def)
  then have acc: "accessible (demo_machine w) 0 4 False"
    by (simp add: accessible_def misaligned_def size_defs)
  have pa: "phys_of ?e 0 = 768" by (simp add: phys_of_def size_defs)
  have pc: "registers (demo_machine w) ! PCReg = 0"
    by (simp add: demo_machine_def one_page_def Machine_new_def reg_defs)
  have "le_load (mainMemory (demo_machine w)) 768 4 = w"
    using le_load_store [of 4] by (simp add: demo_machine_def widen_def)
  then show ?thesis
    using pa pc
    by (rule_tac ReadMem_ok [OF demo_machine_ok(1) _ acc e])
       (auto simp: next_instr_def fetched_def)
qed

lemma demo_machine_runs: "\<not> will_crash (demo_machine 0)"
proof -
  have "opCode (Decode 0) = OP_SLL" by (simp add: Decode_def opTable_def specialTable_def)
  then show ?thesis by (simp add: will_crash_def demo_machine_fetch crashes_def)
qed

theorem instruction_is_confined_witness:
  "\<exists>r m'. OneInstruction (demo_machine 0) = Inr r \<and>
    (r = Done () m' \<or> (\<exists>exc. r = Trap exc m')) \<and> tables_ok m' \<and> regs_ok m' \<and>
    (\<forall>a. a div PageSize \<notin> writable_frames (demo_machine 0) \<longrightarrow>
       mainMemory m' a = mainMemory (demo_machine 0) a) \<and>
    writable_frames m' = writable_frames (demo_machine 0)"
proof -
  have "mach_ok (demo_machine 0)" by (simp add: mach_ok_def demo_machine_ok)
  then obtain r where "OneInstruction (demo_machine 0) = Inr r"
    using OneInstruction_ok [OF _ demo_machine_runs] by blast
  from this instruction_is_confined [OF demo_machine_ok this] show ?thesis by blast
qed

theorem simulator_failures_witness:
  "(\<exists>e. OneInstruction (demo_machine 0x88000001) = Inl e) \<and>
   \<not> (\<exists>e. OneInstruction (demo_machine 0) = Inl e)"
proof -
  have i: "opCode (Decode 0x88000001) = OP_LWL" "rs (Decode 0x88000001) = 0"
    "extra (Decode 0x88000001) = 1"
    by (simp_all add: Decode_def opTable_def decode_extra_def)
  have j: "opCode (Decode 0) = OP_SLL" by (simp add: Decode_def opTable_def specialTable_def)
  have "registers (demo_machine w) ! 0 = 0" for w
    by (simp add: demo_machine_def one_page_def Machine_new_def reg_defs)
  then show ?thesis
    using simulator_failures [OF demo_machine_ok, of "0x88000001"]
      simulator_failures [OF demo_machine_ok, of 0]
    by (simp add: demo_machine_fetch i j)
qed

section \<open>The instruction pipeline\<close>

text \<open>Groups that leave the next program counter alone.\<close>

definition pc_next :: "word32 \<Rightarrow> outcome result \<Rightarrow> bool" where
  "pc_next npc r \<longleftrightarrow> (\<forall>pc lr lv m. r = Inr (Done (pc, lr, lv) m) \<longrightarrow> pc = npc + 4)"

named_theorems pc_intros

lemma pc_next_leaf [pc_intros]:
  "pc_next npc (Inl e)" "pc_next npc (retire npc m)" "pc_next npc (put k v npc m)"
  "pc_next npc (put_hi_lo hi lo npc m)" "pc_next npc (raise exc addr m)"
  "pc_next npc (delay_load i v npc m)"
  by (auto simp: pc_next_def retire_def put_def put_hi_lo_def raise_def delay_load_def rbind_eq_Inr)

lemma pc_next_bind [pc_intros]:
  "(\<And>a. pc_next npc (f a)) \<Longrightarrow> pc_next npc (rbind r f)"
  by (fastforce simp: pc_next_def rbind_eq_Inr)

lemma pc_next_abind [pc_intros]:
  "(\<And>a m. pc_next npc (g a m)) \<Longrightarrow> pc_next npc (abind q g)"
  by (cases q; simp add: pc_next_def abind_def split: access.splits)

lemma pc_next_if [pc_intros]: "pc_next npc x \<Longrightarrow> pc_next npc y \<Longrightarrow> pc_next npc (if c then x else y)"
  by simp

lemma pc_next_groups:
  "pc_next npc (exec_add i a b npc m)" "pc_next npc (exec_div i a b npc m)"
  "pc_next npc (exec_load i a npc m)" "pc_next npc (exec_move i a b npc m)"
  "pc_next npc (exec_shift i a b npc m)" "pc_next npc (exec_store i a b npc m)"
  "pc_next npc (exec_system i a b npc m)"
  unfolding exec_add_def exec_div_def exec_load_def exec_move_def exec_shift_def exec_store_def
    exec_system_def load_merged_def store_merged_def Let_def case_prod_beta
  by (intro pc_intros)+

lemma pc_next_execute:
  assumes "opCode i \<notin> branch_ops \<union> jump_ops"
  shows "pc_next npc (execute i npc m)"
proof -
  from assms have "opCode i \<notin> branch_ops" "opCode i \<notin> jump_ops" by blast+
  then show ?thesis
    unfolding execute_def by (simp only: if_False) (intro pc_intros pc_next_groups)
qed

lemma abind_eq_Done:
  "abind r f = Inr (Done b m') \<longleftrightarrow> (\<exists>a m. r = Inr (Done a m) \<and> f a m = Inr (Done b m'))"
  by (cases r; simp add: abind_def split: access.splits)

lemma completed_instruction:
  assumes "mach_ok m" "OneInstruction m = Inr (Done () m')"
  obtains i pc lr lv m1 m2 where "next_instr m = Some i" "mach_ok m1" "confined m m1"
    "registers m1 = registers m" "mainMemory m1 = mainMemory m"
    "execute i (registers m ! NextPCReg) m1 = Inr (Done (pc, lr, lv) m2)"
    "finish_instruction (pc, lr, lv) m2 = Inr (Done () m')" "control_same m1 m2" "confined m1 m2"
    "unat lr < 32"
proof (rule OneInstruction_cases [OF assms(1)])
  fix raw m1
  assume f: "next_instr m = Some (Decode raw)" "mach_ok m1" "confined m m1"
    "registers m1 = registers m" "mainMemory m1 = mainMemory m"
    "OneInstruction m = abind (execute (Decode raw) (registers m ! NextPCReg) m1) finish_instruction"
  from f(6) assms(2) have "abind (execute (Decode raw) (registers m ! NextPCReg) m1) finish_instruction
      = Inr (Done () m')" by simp
  then obtain pc lr lv m2 where
    e: "execute (Decode raw) (registers m ! NextPCReg) m1 = Inr (Done (pc, lr, lv) m2)"
    "finish_instruction (pc, lr, lv) m2 = Inr (Done () m')"
    by (auto simp: abind_eq_Done)
  have "\<not> crashes (Decode raw) (registers m1 ! rs (Decode raw)) (registers m1 ! rt (Decode raw))"
    using crashing_execute [OF f(2), of "Decode raw"] Decode_fields e(1) by auto
  then have "exec_ok m1 (execute (Decode raw) (registers m ! NextPCReg) m1)"
    by (intro execute_ok) (use f Decode_fields Decode_opCode in auto)
  with e f that show ?thesis by (simp add: exec_ok_def)
qed (use assms(2) in simp)

lemma delayed_load_lands:
  assumes "mach_ok m" "OneInstruction m = Inr (Done () m')" "registers m ! LoadReg \<noteq> 0"
  shows "registers m' ! unat (registers m ! LoadReg) = registers m ! LoadValueReg"
proof -
  obtain i pc lr lv m1 m2 where c: "next_instr m = Some i" "mach_ok m1" "confined m m1"
    "registers m1 = registers m" "mainMemory m1 = mainMemory m"
    "execute i (registers m ! NextPCReg) m1 = Inr (Done (pc, lr, lv) m2)"
    "finish_instruction (pc, lr, lv) m2 = Inr (Done () m')" "control_same m1 m2" "confined m1 m2"
    "unat lr < 32"
    by (rule completed_instruction [OF assms(1,2)])
  have "unat (registers m ! LoadReg) < PCReg"
    using assms(1) by (simp add: mach_ok_def regs_ok_def reg_defs)
  then show ?thesis
    by (rule_tac finish_ok [OF c(2,8,9,10), of pc lv]) (use c assms(3) in \<open>auto simp: unat_gt_0\<close>)
qed

text \<open>
  C22: the program counters and the load delay slot. A completed instruction moves the counters
  one step (the previous counter is the old one, the new one is the old next one, and the next
  one is four further unless the instruction branches or jumps), and only now does the load
  started by the preceding instruction reach its register.
\<close>

theorem pipeline_step:
  assumes "tables_ok m" "regs_ok m" "OneInstruction m = Inr (Done () m')"
  shows "registers m' ! PrevPCReg = registers m ! PCReg \<and>
    registers m' ! PCReg = registers m ! NextPCReg \<and>
    (\<forall>i. next_instr m = Some i \<and> opCode i \<notin> branch_ops \<union> jump_ops \<longrightarrow>
       registers m' ! NextPCReg = registers m ! NextPCReg + 4) \<and>
    (registers m ! LoadReg \<noteq> 0 \<longrightarrow>
       registers m' ! unat (registers m ! LoadReg) = registers m ! LoadValueReg)"
proof -
  have ok: "mach_ok m" using assms by (simp add: mach_ok_def)
  obtain i pc lr lv m1 m2 where c: "next_instr m = Some i" "mach_ok m1" "confined m m1"
    "registers m1 = registers m" "mainMemory m1 = mainMemory m"
    "execute i (registers m ! NextPCReg) m1 = Inr (Done (pc, lr, lv) m2)"
    "finish_instruction (pc, lr, lv) m2 = Inr (Done () m')" "control_same m1 m2" "confined m1 m2"
    "unat lr < 32"
    by (rule completed_instruction [OF ok assms(3)])
  have pc: "pc = registers m ! NextPCReg + 4" if "opCode i \<notin> branch_ops \<union> jump_ops"
    using pc_next_execute [OF that, of "registers m ! NextPCReg" m1] c(6) by (simp add: pc_next_def)
  show ?thesis
    by (rule finish_ok [OF c(2,8,9,10), of pc lv])
       (use c pc delayed_load_lands [OF ok assms(3)] in auto)
qed

theorem pipeline_step_witness:
  "\<exists>m'. OneInstruction (demo_machine 0) = Inr (Done () m') \<and>
     registers m' ! NextPCReg = registers (demo_machine 0) ! NextPCReg + 4"
proof -
  have i: "opCode (Decode 0) = OP_SLL" "rd (Decode 0) = 0"
    by (simp_all add: Decode_def opTable_def specialTable_def)
  have ok: "mach_ok (demo_machine 0)" by (simp add: mach_ok_def demo_machine_ok)
  obtain m' where "OneInstruction (demo_machine 0) = Inr (Done () m')"
  proof (rule OneInstruction_cases [OF ok])
    fix raw m1
    assume f: "next_instr (demo_machine 0) = Some (Decode raw)" "mach_ok m1"
      "OneInstruction (demo_machine 0) =
        abind (execute (Decode raw) (registers (demo_machine 0) ! NextPCReg) m1) finish_instruction"
    have d: "Decode raw = Decode 0" using f(1) by (simp add: demo_machine_fetch)
    let ?npc = "registers (demo_machine 0) ! NextPCReg"
    have len: "length (registers m1) = 40" using f(2) by (simp add: mach_okD reg_defs)
    have "\<exists>m2. execute (Decode 0) ?npc m1 = Inr (Done (?npc + 4, 0, 0) m2) \<and> control_same m1 m2 \<and> confined m1 m2"
      using exec_shift_ok [OF f(2), of "Decode 0" "registers m1 ! rs (Decode 0)" "registers m1 ! rt (Decode 0)" ?npc]
        len Decode_fields [of 0] i
      by (simp add: execute_def exec_shift_def put_def retire_def exec_ok_def Let_def)
    then show ?thesis
      using f(3) d that by (elim exE conjE, rule_tac finish_ok [OF f(2), of _ 0 "?npc + 4" 0])
        (auto simp: abind_def)
  qed (simp add: demo_machine_fetch)
  with pipeline_step [OF demo_machine_ok this] show ?thesis
    by (simp add: demo_machine_fetch i)
qed

lemma execute_LW:
  assumes "mach_ok m" "rs i < 32" "rt i < 32" "opCode i = OP_LW"
    and "execute i npc m = Inr (Done (pc, lr, lv) m')"
  obtains e where "mapping_of m (vpn_of (registers m ! rs i + extra i)) = Some e"
    "lr = of_nat (rt i)"
    "lv = le_load (mainMemory m) (phys_of e (registers m ! rs i + extra i)) 4"
    "registers m' = registers m"
proof -
  let ?va = "registers m ! rs i + extra i"
  have "reg (rs i) m = Inr (registers m ! rs i)" "reg (rt i) m = Inr (registers m ! rt i)"
    using assms(1-3) by (simp_all add: mach_okD reg_defs)
  with assms(4,5) have "abind (ReadMem ?va 4 m) (\<lambda>v m1. delay_load i v npc m1) = Inr (Done (pc, lr, lv) m')"
    by (simp add: execute_def exec_load_def Let_def raise_def rbind_eq_Inr split: if_splits)
  then have r: "ReadMem ?va 4 m = Inr (Done lv m')" "lr = of_nat (rt i)"
    by (auto simp: abind_eq_Done delay_load_def)
  show ?thesis
    by (rule ReadMem_Done [OF mach_okD(1,2) [OF assms(1)] _ r(1)]) (use r(2) that in simp_all)
qed

text \<open>
  A load word reaches its register one instruction late. When an aligned, accessible \<^verbatim>\<open>LW\<close>
  completes, its target still has the value it had (or that of the load before), and after the
  next completed instruction it holds the little-endian word of memory that was read.
\<close>

theorem load_delay_slot:
  assumes "tables_ok m" "regs_ok m" "next_instr m = Some i" "opCode i = OP_LW" "rt i \<noteq> 0"
    and "mapping_of m (vpn_of (registers m ! rs i + extra i)) = Some e"
    and "OneInstruction m = Inr (Done () m')" "OneInstruction m' = Inr (Done () m'')"
  shows "registers m' ! rt i = (if registers m ! LoadReg = of_nat (rt i)
      then registers m ! LoadValueReg else registers m ! rt i) \<and>
    registers m'' ! rt i = le_load (mainMemory m) (phys_of e (registers m ! rs i + extra i)) 4"
proof -
  let ?va = "registers m ! rs i + extra i"
  have ok: "mach_ok m" using assms by (simp add: mach_ok_def)
  obtain j pc lr lv m1 m2 where c: "next_instr m = Some j" "mach_ok m1" "confined m m1"
    "registers m1 = registers m" "mainMemory m1 = mainMemory m"
    "execute j (registers m ! NextPCReg) m1 = Inr (Done (pc, lr, lv) m2)"
    "finish_instruction (pc, lr, lv) m2 = Inr (Done () m')" "control_same m1 m2" "confined m1 m2"
    "unat lr < 32"
    by (rule completed_instruction [OF ok assms(7)])
  have i: "rs i < 32" "rt i < 32"
    using assms(3) Decode_fields by (auto simp: next_instr_def)
  obtain e1 where e1: "mapping_of m1 (vpn_of ?va) = Some e1" "lr = of_nat (rt i)"
    "lv = le_load (mainMemory m1) (phys_of e1 ?va) 4" "registers m2 = registers m1"
    by (rule execute_LW [OF c(2) i assms(4)]) (use c(1,4,6) assms(3) in simp_all)
  have "map_option entry_core (mapping_of m1 (vpn_of ?va)) = map_option entry_core (mapping_of m (vpn_of ?va))"
    using c(3) unfolding confined_def by blast
  then have "entry_core e1 = entry_core e" using e1 assms(6) by simp
  then have v: "lv = le_load (mainMemory m) (phys_of e ?va) 4"
    using e1(3) c(5) by (simp add: entry_core_def phys_of_def)
  have rt: "unat (of_nat (rt i) :: word32) = rt i"
    using i by (simp add: unsigned_of_nat take_bit_nat_eq_self)
  obtain m3 where f: "finish_instruction (pc, lr, lv) m2 = Inr (Done () m3)" "regs_ok m3" "confined m1 m3"
    "registers m3 ! LoadReg = lr" "registers m3 ! LoadValueReg = lv"
    "registers m3 ! rt i = (if rt i = unat (registers m1 ! LoadReg) then registers m1 ! LoadValueReg
       else registers m2 ! rt i)"
    by (rule finish_ok [OF c(2,8,9,10), of pc lv]) (use i assms(5) that in \<open>simp add: reg_defs\<close>)
  then have m3: "m3 = m'" "mach_ok m'" using c(7) by (simp_all add: mach_ok_def confined_def)
  have "lr \<noteq> 0" using e1(2) rt assms(5) by (metis unat_0)
  with delayed_load_lands [OF m3(2) assms(8)] f(4,5) m3(1) e1(2) rt v have
    "registers m'' ! rt i = le_load (mainMemory m) (phys_of e ?va) 4" by simp
  moreover have "rt i = unat (registers m ! LoadReg) \<longleftrightarrow> registers m ! LoadReg = of_nat (rt i)"
    using rt by (auto simp: word_unat_eq_iff)
  ultimately show ?thesis using f(6) m3(1) e1(4) c(4) by simp
qed

lemma confined_accessible: "confined m m1 \<Longrightarrow> accessible m1 va sz w \<longleftrightarrow> accessible m va sz w"
proof -
  assume "confined m m1"
  then have "map_option entry_core (mapping_of m1 (vpn_of va)) = map_option entry_core (mapping_of m (vpn_of va))"
    unfolding confined_def by blast
  then show ?thesis
    by (auto simp: accessible_def entry_core_def split: option.splits)
qed

lemma LW_completes:
  assumes "mach_ok m" "next_instr m = Some i" "opCode i = OP_LW"
    and "accessible m (registers m ! rs i + extra i) 4 False"
  obtains m' where "OneInstruction m = Inr (Done () m')" "mach_ok m'" "confined m m'"
    "registers m' ! PCReg = registers m ! NextPCReg" "mainMemory m' = mainMemory m"
proof (rule OneInstruction_cases [OF assms(1)])
  fix raw m1
  let ?va = "registers m ! rs i + extra i"
  assume f: "next_instr m = Some (Decode raw)" "mach_ok m1" "confined m m1"
    "registers m1 = registers m" "mainMemory m1 = mainMemory m"
    "OneInstruction m = abind (execute (Decode raw) (registers m ! NextPCReg) m1) finish_instruction"
  have i: "i = Decode raw" "rs i < 32" "rt i < 32" using assms(2) f(1) Decode_fields by auto
  have acc: "accessible m1 ?va 4 False"
    using assms(4) f(3) by (rule confined_accessible [THEN iffD2, rotated])
  then obtain e1 where e1: "mapping_of m1 (vpn_of ?va) = Some e1" using accessible_mapped by blast
  obtain m2 where r: "ReadMem ?va 4 m1 = Inr (Done (le_load (mainMemory m1) (phys_of e1 ?va) 4) m2)"
    "same_but_tables m1 m2" "mapping_of m2 = (mapping_of m1)(vpn_of ?va \<mapsto> e1\<lparr>use := True\<rparr>)"
    by (rule ReadMem_ok [OF mach_okD(1) [OF f(2)] _ acc e1]) simp
  have "?va AND 0x3 = 0" using acc by (simp add: accessible_def misaligned_def)
  moreover have "reg (rs i) m1 = Inr (registers m ! rs i)" "reg (rt i) m1 = Inr (registers m ! rt i)"
    using i f(4) mach_okD(3) [OF f(2)] by (simp_all add: reg_defs)
  ultimately have x: "execute i (registers m ! NextPCReg) m1 = Inr (Done (registers m ! NextPCReg + 4,
      of_nat (rt i), le_load (mainMemory m1) (phys_of e1 ?va) 4) m2)"
    using assms(3) r(1) by (simp add: execute_def exec_load_def Let_def abind_def delay_load_def)
  have c2: "confined m1 m2"
    using r e1 by (intro confined_tables [OF r(2) e1]) (simp_all add: entry_core_def)
  have cs: "control_same m1 m2"
    using f(2) same_but_tables_fields(1) [OF r(2)] by (simp add: control_same_def mach_okD)
  have lr: "unat (of_nat (rt i) :: word32) < 32"
    using i by (simp add: unsigned_of_nat take_bit_nat_eq_self)
  show ?thesis
  proof (rule finish_ok [OF f(2) cs c2 lr], rule that)
    fix m' assume d: "finish_instruction (registers m ! NextPCReg + 4, of_nat (rt i),
        le_load (mainMemory m1) (phys_of e1 ?va) 4) m2 = Inr (Done () m')"
    then show "OneInstruction m = Inr (Done () m')" using f(6) x i(1) by (simp add: abind_def)
  qed (use f c2 same_but_tables_fields(2) [OF r(2)] in
      \<open>auto simp: mach_ok_def confined_def intro: confined_trans\<close>)
qed (use assms(2) in simp)

lemma fetched_eq:
  assumes "mach_ok m"
  shows "fetched m = (let pc = registers m ! PCReg in if accessible m pc 4 False
    then Some (le_load (mainMemory m) (phys_of (the (mapping_of m (vpn_of pc))) pc) 4) else None)"
proof (cases "accessible m (registers m ! PCReg) 4 False")
  case True
  then obtain e where e: "mapping_of m (vpn_of (registers m ! PCReg)) = Some e"
    using accessible_mapped by blast
  show ?thesis
    by (rule ReadMem_ok [OF mach_okD(1) [OF assms] _ True e])
       (use True e in \<open>simp_all add: fetched_def Let_def\<close>)
next
  case False
  show ?thesis
    by (rule access_fault [OF mach_okD(1,2) [OF assms], of "registers m ! PCReg" 4 0])
       (use False in \<open>simp add: fetched_def Let_def\<close>)
qed

lemma next_instr_confined:
  assumes "mach_ok m" "mach_ok m'" "confined m m'" "registers m' ! PCReg = registers m ! PCReg"
    "mainMemory m' = mainMemory m"
  shows "next_instr m' = next_instr m"
proof -
  let ?v = "vpn_of (registers m ! PCReg)"
  have "map_option entry_core (mapping_of m' ?v) = map_option entry_core (mapping_of m ?v)"
    using assms(3) unfolding confined_def by blast
  then have "phys_of (the (mapping_of m' ?v)) pc = phys_of (the (mapping_of m ?v)) pc"
    if "accessible m (registers m ! PCReg) 4 False" for pc
    using accessible_mapped [OF that] by (auto simp: entry_core_def phys_of_def)
  then show ?thesis
    using assms(4,5) confined_accessible [OF assms(3)]
    by (simp add: next_instr_def fetched_eq [OF assms(1)] fetched_eq [OF assms(2)] Let_def)
qed

lemma demo_decode: "Decode 0x8c020000 = \<lparr>opCode = OP_LW, rs = 0, rt = 2, rd = 0, extra = 0\<rparr>"
  by (simp add: Decode_def opTable_def decode_extra_def)

theorem load_delay_slot_witness:
  "\<exists>m' m''. OneInstruction (demo_machine 0x8c020000) = Inr (Done () m') \<and>
     OneInstruction m' = Inr (Done () m'') \<and> registers m'' ! 2 = 0x8c020000"
proof -
  let ?m = "demo_machine 0x8c020000"
  have ok: "mach_ok ?m" by (simp add: mach_ok_def demo_machine_ok)
  have r0: "registers ?m ! 0 = 0" "registers ?m ! PCReg = 0" "registers ?m ! NextPCReg = 0"
    by (simp_all add: demo_machine_def one_page_def Machine_new_def reg_defs)
  have acc: "accessible ?m 0 4 False" and e: "mapping_of ?m (vpn_of 0) = Some \<lparr>virtualPage = 0,
      physicalPage = 3, valid = True, readOnly = False, use = False, dirty = False\<rparr>"
    by (simp_all add: demo_machine_def one_page_def mapping_of_def vpn_of_def Machine_new_def
        accessible_def misaligned_def size_defs)
  obtain m' where m': "OneInstruction ?m = Inr (Done () m')" "mach_ok m'" "confined ?m m'"
    "registers m' ! PCReg = registers ?m ! NextPCReg" "mainMemory m' = mainMemory ?m"
    by (rule LW_completes [OF ok demo_machine_fetch]) (use r0 acc in \<open>simp_all add: demo_decode\<close>)
  have n: "next_instr m' = Some (Decode 0x8c020000)"
    using next_instr_confined [OF ok m'(2,3) _ m'(5)] m'(4) r0 by (simp add: demo_machine_fetch)
  obtain m'' where m'': "OneInstruction m' = Inr (Done () m'')"
    by (rule LW_completes [OF m'(2) n])
       (use acc m'(2) confined_accessible [OF m'(3)] in \<open>simp_all add: demo_decode mach_ok_def regs_ok_def\<close>)
  have "le_load (mainMemory ?m) 768 4 = 0x8c020000"
    using le_load_store [of 4] by (simp add: demo_machine_def widen_def)
  with load_delay_slot [OF demo_machine_ok demo_machine_fetch _ _ _ m'(1) m''] e r0 m'(1) m''
  show ?thesis by (simp add: demo_decode phys_of_def size_defs)
qed

section \<open>Two instructions that deviate from the architecture\<close>

text \<open>
  \<^verbatim>\<open>OR\<close> and \<^verbatim>\<open>SRL\<close> do not compute what the MIPS manual says. With 1 and 2 in its operands,
  \<^verbatim>\<open>OR r3,r1,r2\<close> writes 1 where the bitwise or is 3, and \<^verbatim>\<open>SRL r3,r2,1\<close> of the word with only its
  top bit set writes the sign-extended word 0xc0000000 where the logical shift is 0x40000000.
\<close>

theorem or_and_srl_deviate:
  "exec_move (Decode (encode_R 1 2 3 0 0x25)) 1 2 npc m = put 3 1 npc m \<and>
   (1 OR 2 :: word32) = 3 \<and>
   exec_shift (Decode (encode_R 0 2 3 1 0x02)) 0 0x80000000 npc m = put 3 0xc0000000 npc m \<and>
   drop_bit 1 (0x80000000 :: word32) = 0x40000000"
proof -
  have d: "Decode 0x221825 = \<lparr>opCode = OP_OR, rs = 1, rt = 2, rd = 3, extra = 0\<rparr>"
    "Decode 0x21842 = \<lparr>opCode = OP_SRL, rs = 0, rt = 2, rd = 3, extra = 1\<rparr>"
    by (simp_all add: Decode_def opTable_def specialTable_def decode_extra_def)
  have e: "encode_R 1 2 3 0 0x25 = 0x221825" "encode_R 0 2 3 1 0x02 = 0x21842"
    by (simp_all add: encode_R_def)
  have s: "(- 0x40000000 :: word32) = 0xc0000000" by code_simp
  show ?thesis
    by (simp add: s d e exec_move_def exec_shift_def Let_def drop_bit_eq_div)
qed

end
