(* ===== verification/Addr_Space.thy ===== *)
theory Addr_Space
  imports Sched_Inv File_Header Mips_Exec
begin

text \<open>
  Address spaces of user programs (\<^verbatim>\<open>userprog/addrspace.cc\<close>), the page-fault branch of
  \<^verbatim>\<open>userprog/exception.cc\<close>, and the stub file system they are built with: files of the host, reached
  through \<^verbatim>\<open>machine/sysdep.cc\<close>. The state extends that of the threads by the frame map, the inverted
  page table and the host's files. \<open>unspecified\<close> collects what the source leaves open: the addresses operator
  \<^verbatim>\<open>new\<close> returns, uninitialised memory, and what the host delivers.
\<close>

section \<open>State\<close>

record user_sys = thread_sys +
  bitMap :: bitmap
  IPT :: "nat option list"
  IPT_VP :: "int list"
  threadID :: int
  virtualOption :: int
  FIFO :: "int nlist"
  host_files :: "byte list \<Rightarrow> byte list option"
  host_denies :: "byte list \<Rightarrow> bool"
  terminal :: "byte list"
  fd_files :: "int \<Rightarrow> byte list"

type_synonym 'z usys = "'z user_sys_scheme"

record unspecified =
  new_thread :: nat
  new_space :: nat
  junk :: "nat \<Rightarrow> byte"
  stray_frame :: "nat \<Rightarrow> word32"
  stray_space :: AddrSpace
  stray_regs :: "word32 list"
  stray_page :: int
  merged_literals :: bool
  typed :: "byte list"
  fd_input :: "int \<Rightarrow> byte list"
  fd_writable :: "int \<Rightarrow> bool"

section \<open>Files of the host\<close>

text \<open>
  \<open>host_denies\<close> says which names the host does not let Nachos open. A write to an open file succeeds; one
  past the end of the file fills the gap with zeros. An open file is represented by its name.
\<close>

definition OpenForWrite :: "byte list \<Rightarrow> 'z usys \<Rightarrow> 'z usys result" where
  "OpenForWrite nm s = rbind (ASSERT (\<not> host_denies s nm)) (\<lambda>_.
     Inr (s\<lparr>host_files := (host_files s)(nm \<mapsto> [])\<rparr>))"

definition OpenForReadWrite :: "byte list \<Rightarrow> bool \<Rightarrow> 'z usys \<Rightarrow> bool result" where
  "OpenForReadWrite nm crashOnError s =
     (let fd_ok = (\<not> host_denies s nm \<and> host_files s nm \<noteq> None) in
      rbind (ASSERT (\<not> crashOnError \<or> fd_ok)) (\<lambda>_. Inr fd_ok))"

definition Unlink :: "byte list \<Rightarrow> 'z usys \<Rightarrow> bool \<times> 'z usys" where
  "Unlink nm s = (host_files s nm = None, s\<lparr>host_files := (host_files s)(nm := None)\<rparr>)"

definition stub_Create :: "byte list \<Rightarrow> int \<Rightarrow> 'z usys \<Rightarrow> (bool \<times> 'z usys) result" where
  "stub_Create nm initialSize s = rbind (OpenForWrite nm s) (\<lambda>s1. Inr (True, s1))"

definition stub_Open :: "byte list \<Rightarrow> 'z usys \<Rightarrow> byte list option result" where
  "stub_Open nm s = rbind (OpenForReadWrite nm False s) (\<lambda>ok. Inr (if ok then Some nm else None))"

definition stub_Remove :: "byte list \<Rightarrow> 'z usys \<Rightarrow> bool \<times> 'z usys" where
  "stub_Remove nm s = (let (failed, s1) = Unlink nm s in (\<not> failed, s1))"

definition file_content :: "byte list \<Rightarrow> 'z usys \<Rightarrow> byte list" where
  "file_content nm s = (case host_files s nm of None \<Rightarrow> [] | Some bs \<Rightarrow> bs)"

definition Lseek :: "int \<Rightarrow> unit result" where
  "Lseek offset = ASSERT (0 \<le> offset)"

definition stub_ReadAt :: "byte list \<Rightarrow> byte list \<Rightarrow> int \<Rightarrow> int \<Rightarrow> 'z usys \<Rightarrow> byte list result" where
  "stub_ReadAt nm into numBytes position s = rbind (Lseek position) (\<lambda>_.
     let bs = take (nat numBytes) (drop (nat position) (file_content nm s)) in
     if length bs \<le> length into then Inr (bs @ drop (length bs) into) else Inl Bad_Index)"

definition overlay :: "byte list \<Rightarrow> nat \<Rightarrow> byte list \<Rightarrow> byte list" where
  "overlay file p data = take p (file @ replicate (p - length file) 0) @ data @ drop (p + length data) file"

definition stub_WriteAt :: "byte list \<Rightarrow> byte list \<Rightarrow> int \<Rightarrow> int \<Rightarrow> 'z usys \<Rightarrow> 'z usys result" where
  "stub_WriteAt nm data numBytes position s = rbind (Lseek position) (\<lambda>_.
     if numBytes < 0 \<or> int (length data) < numBytes then Inl Bad_Index
     else Inr (s\<lparr>host_files := (host_files s)(nm \<mapsto>
            overlay (file_content nm s) (nat position) (take (nat numBytes) data))\<rparr>))"

section \<open>Programs in Nachos object format\<close>

definition NOFFMAGIC :: word32 where "NOFFMAGIC = 0xbadfad"
definition UserStackSize :: int where "UserStackSize = 1024"
definition NoffHeader_size :: nat where "NoffHeader_size = 40"

record Segment =
  virtualAddr :: word32
  inFileAddr :: word32
  seg_size :: word32

record NoffHeader =
  noffMagic :: word32
  code_seg :: Segment
  initData :: Segment
  uninitData :: Segment

definition word_at :: "bool \<Rightarrow> byte list \<Rightarrow> nat \<Rightarrow> word32" where
  "word_at big bs a = host_load32 big (\<lambda>i. bs ! i) a"

definition segment_at :: "bool \<Rightarrow> byte list \<Rightarrow> nat \<Rightarrow> Segment" where
  "segment_at big bs a = \<lparr>virtualAddr = word_at big bs a, inFileAddr = word_at big bs (a + 4),
     seg_size = word_at big bs (a + 8)\<rparr>"

definition bytes_NoffHeader :: "bool \<Rightarrow> byte list \<Rightarrow> NoffHeader" where
  "bytes_NoffHeader big bs = \<lparr>noffMagic = word_at big bs 0, code_seg = segment_at big bs 4,
     initData = segment_at big bs 16, uninitData = segment_at big bs 28\<rparr>"

definition swap_segment :: "bool \<Rightarrow> Segment \<Rightarrow> Segment" where
  "swap_segment big g = \<lparr>virtualAddr = WordToHost big (virtualAddr g),
     inFileAddr = WordToHost big (inFileAddr g), seg_size = WordToHost big (seg_size g)\<rparr>"

definition SwapHeader :: "bool \<Rightarrow> NoffHeader \<Rightarrow> NoffHeader" where
  "SwapHeader big h = \<lparr>noffMagic = WordToHost big (noffMagic h), code_seg = swap_segment big (code_seg h),
     initData = swap_segment big (initData h), uninitData = swap_segment big (uninitData h)\<rparr>"

text \<open>\<^verbatim>\<open>sprintf(swapFileName, "%d.swap", threadID)\<close>.\<close>

fun digits :: "nat \<Rightarrow> byte list" where
  "digits n = (if n < 10 then [of_nat (48 + n)] else digits (n div 10) @ [of_nat (48 + n mod 10)])"

declare digits.simps [simp del]

definition decimal :: "int \<Rightarrow> byte list" where
  "decimal i = (if i < 0 then 45 # digits (nat (- i)) else digits (nat i))"

definition swap_name :: "int \<Rightarrow> byte list" where
  "swap_name tid = decimal tid @ [46, 115, 119, 97, 112]"

section \<open>Creating and deleting an address space\<close>

definition new_table :: "(nat \<Rightarrow> word32) \<Rightarrow> nat \<Rightarrow> TranslationEntry list" where
  "new_table stray n = map (\<lambda>i. \<lparr>virtualPage = of_nat i, physicalPage = stray i, valid = False,
     readOnly = False, use = False, dirty = False\<rparr>) [0..<n]"

definition read_header :: "unspecified \<Rightarrow> byte list \<Rightarrow> 'z usys \<Rightarrow> NoffHeader result" where
  "read_header env executable s = rbind (the_machine s) (\<lambda>m. let big = hostBigEndian m in
     rbind (stub_ReadAt executable (new_chars (junk env) (int NoffHeader_size)) (int NoffHeader_size) 0 s) (\<lambda>bs.
     let h = bytes_NoffHeader big bs in
     Inr (if noffMagic h \<noteq> NOFFMAGIC \<and> WordToHost big (noffMagic h) = NOFFMAGIC then SwapHeader big h else h)))"

definition space_size :: "NoffHeader \<Rightarrow> word32 result" where
  "space_size h = rbind (int_add (sint (seg_size (code_seg h))) (sint (seg_size (initData h)))) (\<lambda>a.
     rbind (int_add a (sint (seg_size (uninitData h)))) (\<lambda>b.
     rbind (int_add b UserStackSize) (\<lambda>c. Inr (word_of_int c))))"

text \<open>
  The whole address space goes to a swap file of its own: the bytes of the executable after the header,
  then whatever the buffer held. A buffer of 2 GB or more cannot be allocated on the 32-bit hosts Nachos
  is built for.
\<close>

definition AddrSpace_new :: "unspecified \<Rightarrow> byte list \<Rightarrow> int \<Rightarrow> 'z usys \<Rightarrow> (AddrSpace \<times> 'z usys) result" where
  "AddrSpace_new env executable tid s = rbind (read_header env executable s) (\<lambda>h.
     if noffMagic h \<noteq> NOFFMAGIC then Inr (stray_space env, s)
     else rbind (space_size h) (\<lambda>sz.
       let pages = divRoundUp (unat sz) PageSize; total = (of_nat (pages * PageSize) :: word32);
           swap = swap_name tid in
       rbind (stub_Create swap (sint total) s) (\<lambda>(_, s1). rbind (stub_Open swap s1) (\<lambda>swapFile.
       if unat total \<ge> 2 ^ 31 then Inl No_Memory
       else rbind (stub_ReadAt executable (new_chars (junk env) (sint total)) (sint total)
                    (int NoffHeader_size) s1) (\<lambda>buffer.
         case swapFile of None \<Rightarrow> Inl Null_Deref
         | Some f \<Rightarrow> rbind (stub_WriteAt f buffer (sint total) 0 s1) (\<lambda>s2.
             rbind (NumClear (bitMap s2)) (\<lambda>_.
             Inr (\<lparr>as_pageTable = Some (new_table (stray_frame env) pages), numPages = pages,
                   swapFileName = Some swap\<rparr>, s2))))))))"

fun clear_frames :: "nat list \<Rightarrow> bitmap \<Rightarrow> bitmap result" where
  "clear_frames [] b = Inr b"
| "clear_frames (j # js) b = rbind (Clear (int j) b) (clear_frames js)"

text \<open>
  The destructor, with \<^verbatim>\<open>delete\<close>. If the machine still points to the page table, it is left with the memory
  of the deleted table, which belongs to no address space.
\<close>

definition delete_space :: "nat \<Rightarrow> 'z usys \<Rightarrow> 'z usys result" where
  "delete_space a s = rbind (get_space a s) (\<lambda>sp. rbind (clear_frames [0..<NumPhysPages] (bitMap s)) (\<lambda>bm.
     let s1 = s\<lparr>bitMap := bm\<rparr>;
         s2 = (case swapFileName sp of None \<Rightarrow> s1 | Some nm \<Rightarrow> snd (stub_Remove nm s1)) in
     Inr (s2\<lparr>spaces := (spaces s2)(a := None), loaded := (if loaded s2 = Some a then None else loaded s2)\<rparr>)))"

section \<open>Page faults\<close>

definition array_set_int :: "'a list \<Rightarrow> int \<Rightarrow> 'a \<Rightarrow> 'a list result" where
  "array_set_int xs i v = (if i < 0 then Inl Bad_Index else array_set xs (nat i) v)"

definition put_table :: "nat \<Rightarrow> TranslationEntry list \<Rightarrow> 'z usys \<Rightarrow> 'z usys" where
  "put_table a pt s = (case (loaded s, mach s) of
     (Some b, Some m) \<Rightarrow> if b = a then s\<lparr>mach := Some (m\<lparr>pageTable := Some pt\<rparr>)\<rparr>
       else s\<lparr>spaces := (spaces s)(a := map_option (\<lambda>sp. sp\<lparr>as_pageTable := Some pt\<rparr>) (spaces s a))\<rparr>
   | _ \<Rightarrow> s\<lparr>spaces := (spaces s)(a := map_option (\<lambda>sp. sp\<lparr>as_pageTable := Some pt\<rparr>) (spaces s a))\<rparr>)"

definition map_page :: "nat \<Rightarrow> int \<Rightarrow> int \<Rightarrow> 'z usys \<Rightarrow> 'z usys result" where
  "map_page a vpn frame_no s = (case space_table a s of None \<Rightarrow> Inl Null_Deref
     | Some pt \<Rightarrow> rbind (array_get_int pt vpn) (\<lambda>e.
         rbind (array_set_int pt vpn (e\<lparr>physicalPage := word_of_int frame_no, valid := True\<rparr>)) (\<lambda>pt'.
         Inr (put_table a pt' s))))"

definition frame_bytes :: "machine \<Rightarrow> nat \<Rightarrow> byte list" where
  "frame_bytes m f = map (mainMemory m) [f * PageSize..<(f + 1) * PageSize]"

definition load_frame :: "nat \<Rightarrow> byte list \<Rightarrow> machine \<Rightarrow> machine" where
  "load_frame f bs m = m\<lparr>mainMemory := (\<lambda>i. if f * PageSize \<le> i \<and> i < f * PageSize + length bs
     then bs ! (i - f * PageSize) else mainMemory m i)\<rparr>"

definition load_page :: "int \<Rightarrow> int \<Rightarrow> 'z usys \<Rightarrow> 'z usys result" where
  "load_page freePage badVpage s = (let c = currentThread s in rbind (get_thread c s) (\<lambda>th.
     case space th of None \<Rightarrow> Inl Null_Deref
     | Some a \<Rightarrow> rbind (get_space a s) (\<lambda>sp.
       case swapFileName sp of None \<Rightarrow> Inl Halted
       | Some nm \<Rightarrow> rbind (stub_Open nm s) (\<lambda>executable.
         case executable of None \<Rightarrow> Inl Halted
         | Some f \<Rightarrow> rbind (array_set_int (IPT s) freePage (Some c)) (\<lambda>ipt.
           rbind (array_set_int (IPT_VP s) freePage badVpage) (\<lambda>vps.
           rbind (the_machine s) (\<lambda>m.
           rbind (stub_ReadAt f (frame_bytes m (nat freePage)) (int PageSize) (badVpage * int PageSize) s) (\<lambda>bs.
           map_page a badVpage freePage (s\<lparr>IPT := ipt, IPT_VP := vps,
             mach := Some (load_frame (nat freePage) bs m)\<rparr>)))))))))"

text \<open>
  No frame is free. The handler chooses a page to evict and looks whether it is dirty, but neither writes it out
  nor loads the missing page.
\<close>

definition evict_page :: "unspecified \<Rightarrow> 'z usys \<Rightarrow> 'z usys result" where
  "evict_page env s = rbind
     (if virtualOption s = 0 then Inl Halted
      else if virtualOption s = 1 then
        let (r, l) = list_remove (FIFO s) in Inr (case r of None \<Rightarrow> 0 | Some p \<Rightarrow> p, s\<lparr>FIFO := l\<rparr>)
      else if virtualOption s = 2 then let (r, s1) = Random s in Inr (int (r mod NumPhysPages), s1)
      else Inr (stray_page env, s)) (\<lambda>(pageToEvict, s1).
     rbind (array_get_int (IPT s1) pageToEvict) (\<lambda>r. case r of None \<Rightarrow> Inl Null_Deref
     | Some t \<Rightarrow> rbind (get_thread t s1) (\<lambda>th. case space th of None \<Rightarrow> Inl Null_Deref
     | Some a \<Rightarrow> rbind (get_space a s1) (\<lambda>_. rbind (array_get_int (IPT_VP s1) pageToEvict) (\<lambda>vp.
         case space_table a s1 of None \<Rightarrow> Inl Null_Deref
         | Some pt \<Rightarrow> rbind (array_get_int pt vp) (\<lambda>_. Inr s1))))))"

definition PageFault :: "unspecified \<Rightarrow> 'z usys \<Rightarrow> 'z usys result" where
  "PageFault env s = (let s0 = s\<lparr>stats := (stats s)\<lparr>numPageFaults := numPageFaults (stats s) + 1\<rparr>\<rparr> in
     rbind (the_machine s0) (\<lambda>m. rbind (ReadRegister (int BadVAddrReg) m) (\<lambda>badVAddr.
     let badVpage = sdivRoundDown (sint badVAddr) (int PageSize) in
     rbind (Find (bitMap s0)) (\<lambda>(freePage, bm). let s1 = s0\<lparr>bitMap := bm\<rparr> in
     if freePage = - 1 then evict_page env s1 else load_page freePage badVpage s1))))"

text \<open>
  \<^verbatim>\<open>loadFromFile\<close>, which nothing calls, with the members of the class it uses, which nothing sets.
\<close>

definition loadFromFile :: "NoffHeader \<Rightarrow> byte list \<Rightarrow> int \<Rightarrow> int \<Rightarrow> 'z usys \<Rightarrow> 'z usys result" where
  "loadFromFile h executable virtPageNum physPageNum s =
     rbind (int_add (sint (seg_size (code_seg h))) (sint (seg_size (initData h)))) (\<lambda>n.
     if sdivRoundUp n (int PageSize) < virtPageNum
     then if physPageNum < 0 \<or> int NumPhysPages \<le> physPageNum then Inl Bad_Index
       else rbind (the_machine s) (\<lambda>m. rbind (int_add (sint (inFileAddr (code_seg h))) (virtPageNum * int PageSize)) (\<lambda>p.
         rbind (stub_ReadAt executable (frame_bytes m (nat physPageNum)) (int PageSize) p s) (\<lambda>bs.
         Inr (s\<lparr>mach := Some (load_frame (nat physPageNum) bs m)\<rparr>))))
     else Inr s)"

end
