(* ===== verification/Coff_Noff.thy ===== *)
theory Coff_Noff
  imports Addr_Space
begin

text \<open>
  The tool that makes Nachos executables, \<^verbatim>\<open>bin/coff2noff.c\<close>: it reads a MIPS COFF file (\<^verbatim>\<open>bin/coff.h\<close>) and writes
  a file in Nachos object format. The tool runs on a 32-bit host of either byte order (\<open>big\<close>); \<open>stack\<close> is what the
  local variable \<^verbatim>\<open>noffH\<close> holds at first. \<open>Halted\<close> stands for \<^verbatim>\<open>exit(1)\<close>, after which there is no output file.
\<close>

section \<open>COFF files\<close>

definition MIPSELMAGIC :: half where "MIPSELMAGIC = 0x0162"
definition OMAGIC :: half where "OMAGIC = 0x0107"

definition filehdr_size :: nat where "filehdr_size = 20"
definition aouthdr_size :: nat where "aouthdr_size = 56"
definition scnhdr_size :: nat where "scnhdr_size = 40"

record scnhdr =
  s_name :: "byte list"
  s_paddr :: word32
  s_size :: word32
  s_scnptr :: word32

definition half_at :: "bool \<Rightarrow> byte list \<Rightarrow> nat \<Rightarrow> half" where
  "half_at big bs a = host_load16 big (\<lambda>i. bs ! i) a"

text \<open>The fields of a section header the tool uses, brought to the byte order of the host.\<close>

definition section_at :: "bool \<Rightarrow> byte list \<Rightarrow> nat \<Rightarrow> scnhdr" where
  "section_at big bs a = \<lparr>s_name = take 8 (drop a bs), s_paddr = WordToHost big (word_at big bs (a + 8)),
     s_size = WordToHost big (word_at big bs (a + 16)), s_scnptr = WordToHost big (word_at big bs (a + 20))\<rparr>"

text \<open>\<^verbatim>\<open>strcmp\<close> of a name of at most seven characters with the eight bytes of a header.\<close>

definition has_name :: "byte list \<Rightarrow> scnhdr \<Rightarrow> bool" where
  "has_name nm sec \<longleftrightarrow> take (length nm + 1) (s_name sec) = nm @ [0]"

definition name_text :: "byte list" where "name_text = [46, 116, 101, 120, 116]"
definition name_data :: "byte list" where "name_data = [46, 100, 97, 116, 97]"
definition name_rdata :: "byte list" where "name_rdata = [46, 114, 100, 97, 116, 97]"
definition name_bss :: "byte list" where "name_bss = [46, 98, 115, 115]"
definition name_sbss :: "byte list" where "name_sbss = [46, 115, 98, 115, 115]"

section \<open>Reading and writing\<close>

definition coff_Read :: "byte list \<Rightarrow> nat \<Rightarrow> nat \<Rightarrow> byte list result" where
  "coff_Read bs pos n = (if pos + n \<le> length bs then Inr (take n (drop pos bs)) else Inl Halted)"

definition put_word :: "bool \<Rightarrow> word32 \<Rightarrow> byte list" where
  "put_word big w = (let bs = [byte_of 0 w, byte_of 1 w, byte_of 2 w, byte_of 3 w] in if big then rev bs else bs)"

definition put_segment :: "bool \<Rightarrow> Segment \<Rightarrow> byte list" where
  "put_segment big g = put_word big (virtualAddr g) @ put_word big (inFileAddr g) @ put_word big (seg_size g)"

definition put_NoffHeader :: "bool \<Rightarrow> NoffHeader \<Rightarrow> byte list" where
  "put_NoffHeader big h = put_word big (noffMagic h) @ put_segment big (code_seg h) @ put_segment big (initData h)
     @ put_segment big (uninitData h)"

section \<open>The conversion\<close>

text \<open>
  The state of the loop over the sections: the header built so far, the end of the output file, what has been
  written after the header, and the position in the input file.
\<close>

record conversion =
  noffH :: NoffHeader
  inNoffFile :: int
  written :: "byte list"
  in_pos :: nat

text \<open>
  Copying the bytes of one section. A seek to a negative position fails and leaves the position as it was. A
  buffer of 2 GB or more cannot be allocated.
\<close>

definition copy_section :: "byte list \<Rightarrow> scnhdr \<Rightarrow> conversion \<Rightarrow> conversion result" where
  "copy_section bs sec c = (let pos = (if 0 \<le> sint (s_scnptr sec) then unat (s_scnptr sec) else in_pos c); n = unat (s_size sec) in
     if sint (s_size sec) < 0 then Inl No_Memory
     else rbind (coff_Read bs pos n) (\<lambda>buffer. rbind (int_add (inNoffFile c) (int n)) (\<lambda>e.
       Inr (c\<lparr>inNoffFile := e, written := written c @ buffer, in_pos := pos + n\<rparr>))))"

definition new_segment :: "scnhdr \<Rightarrow> conversion \<Rightarrow> Segment" where
  "new_segment sec c = \<lparr>virtualAddr = s_paddr sec, inFileAddr = word_of_int (inNoffFile c), seg_size = s_size sec\<rparr>"

definition convert_section :: "byte list \<Rightarrow> scnhdr \<Rightarrow> conversion \<Rightarrow> conversion result" where
  "convert_section bs sec c = (let h = noffH c in
     if s_size sec = 0 then Inr c
     else if has_name name_text sec then
       copy_section bs sec (c\<lparr>noffH := h\<lparr>code_seg := new_segment sec c\<rparr>\<rparr>)
     else if has_name name_data sec \<or> has_name name_rdata sec then
       if seg_size (initData h) \<noteq> 0 then Inl Halted
       else copy_section bs sec (c\<lparr>noffH := h\<lparr>initData := new_segment sec c\<rparr>\<rparr>)
     else if has_name name_bss sec \<or> has_name name_sbss sec then
       let u = uninitData h in
       if seg_size u \<noteq> 0 then
         if s_paddr sec = virtualAddr u + seg_size u then Inl Halted
         else Inr (c\<lparr>noffH := h\<lparr>uninitData := u\<lparr>seg_size := seg_size u + s_size sec\<rparr>\<rparr>\<rparr>)
       else Inr (c\<lparr>noffH := h\<lparr>uninitData := u\<lparr>virtualAddr := s_paddr sec, seg_size := s_size sec\<rparr>\<rparr>\<rparr>)
     else Inl Halted)"

fun convert_sections :: "byte list \<Rightarrow> scnhdr list \<Rightarrow> conversion \<Rightarrow> conversion result" where
  "convert_sections bs [] c = Inr c"
| "convert_sections bs (sec # secs) c = rbind (convert_section bs sec c) (convert_sections bs secs)"

definition coff_sections :: "bool \<Rightarrow> byte list \<Rightarrow> scnhdr list" where
  "coff_sections big bs = map (\<lambda>i. section_at big bs (filehdr_size + aouthdr_size + i * scnhdr_size))
     [0..<unat (ShortToHost big (half_at big bs 2))]"

definition start_conversion :: "NoffHeader \<Rightarrow> nat \<Rightarrow> conversion" where
  "start_conversion stack n = \<lparr>noffH = stack\<lparr>noffMagic := NOFFMAGIC, code_seg := (code_seg stack)\<lparr>seg_size := 0\<rparr>,
       initData := (initData stack)\<lparr>seg_size := 0\<rparr>, uninitData := (uninitData stack)\<lparr>seg_size := 0\<rparr>\<rparr>,
     inNoffFile = int NoffHeader_size, written = [], in_pos = filehdr_size + aouthdr_size + n * scnhdr_size\<rparr>"

definition coff2noff :: "bool \<Rightarrow> NoffHeader \<Rightarrow> byte list \<Rightarrow> byte list result" where
  "coff2noff big stack bs = rbind (coff_Read bs 0 filehdr_size) (\<lambda>_.
     if ShortToHost big (half_at big bs 0) \<noteq> MIPSELMAGIC then Inl Halted
     else rbind (coff_Read bs filehdr_size aouthdr_size) (\<lambda>_.
     if ShortToHost big (half_at big bs filehdr_size) \<noteq> OMAGIC then Inl Halted
     else let n = unat (ShortToHost big (half_at big bs 2)) in
     rbind (coff_Read bs (filehdr_size + aouthdr_size) (n * scnhdr_size)) (\<lambda>_.
     rbind (convert_sections bs (coff_sections big bs) (start_conversion stack n)) (\<lambda>c.
     Inr (put_NoffHeader big (noffH c) @ written c)))))"

section \<open>The header can be read back\<close>

lemma length_put [simp]: "length (put_word big w) = 4" "length (put_NoffHeader big h) = NoffHeader_size"
  by (simp_all add: put_word_def Let_def put_NoffHeader_def put_segment_def NoffHeader_size_def)

lemma word_at_put:
  assumes "a = length xs"
  shows "word_at big (xs @ put_word big w @ ys) a = w"
  using assms by (cases big) (simp_all add: word_at_def host_load32_def put_word_def nth_append)

lemma segment_at_put:
  assumes "a = length xs"
  shows "segment_at big (xs @ put_segment big g @ ys) a = g"
proof -
  let ?v = "put_word big (virtualAddr g)" and ?f = "put_word big (inFileAddr g)" and ?z = "put_word big (seg_size g)"
  have "word_at big (xs @ ?v @ (?f @ ?z @ ys)) a = virtualAddr g" "word_at big ((xs @ ?v) @ ?f @ (?z @ ys)) (a + 4) = inFileAddr g"
    "word_at big ((xs @ ?v @ ?f) @ ?z @ ys) (a + 8) = seg_size g"
    by (rule word_at_put, simp add: assms)+
  then show ?thesis by (simp add: segment_at_def put_segment_def)
qed

lemma read_put_NoffHeader: "bytes_NoffHeader big (put_NoffHeader big h @ bs) = h"
proof -
  let ?m = "put_word big (noffMagic h)" and ?c = "put_segment big (code_seg h)" and ?i = "put_segment big (initData h)"
    and ?u = "put_segment big (uninitData h)"
  have "word_at big ([] @ ?m @ (?c @ ?i @ ?u @ bs)) 0 = noffMagic h" by (rule word_at_put) simp
  moreover have "segment_at big (?m @ ?c @ (?i @ ?u @ bs)) 4 = code_seg h" "segment_at big ((?m @ ?c) @ ?i @ (?u @ bs)) 16 = initData h"
    "segment_at big ((?m @ ?c @ ?i) @ ?u @ bs) 28 = uninitData h"
    by (rule segment_at_put, simp add: put_segment_def)+
  ultimately show ?thesis by (simp add: bytes_NoffHeader_def put_NoffHeader_def)
qed

section \<open>The segments are in the output\<close>

text \<open>
  A section of the input is a segment of the output: the segment has its address and size and lies, with the bytes of the section, where its
  header says. A section whose file offset is negative is read from wherever the input file stands.
\<close>

definition section_in :: "byte list \<Rightarrow> scnhdr \<Rightarrow> Segment \<Rightarrow> byte list \<Rightarrow> bool" where
  "section_in bs sec g w \<longleftrightarrow> (\<exists>pos. (0 \<le> sint (s_scnptr sec) \<longrightarrow> pos = unat (s_scnptr sec))
     \<and> virtualAddr g = s_paddr sec \<and> seg_size g = s_size sec \<and> NoffHeader_size \<le> unat (inFileAddr g)
     \<and> unat (inFileAddr g) + unat (seg_size g) \<le> NoffHeader_size + length w \<and> pos + unat (seg_size g) \<le> length bs
     \<and> take (unat (seg_size g)) (drop (unat (inFileAddr g) - NoffHeader_size) w) = take (unat (seg_size g)) (drop pos bs))"

text \<open>The sections that are not empty, by their kind.\<close>

definition text_sections :: "scnhdr list \<Rightarrow> scnhdr list" where
  "text_sections secs = filter (\<lambda>sec. s_size sec \<noteq> 0 \<and> has_name name_text sec) secs"

definition data_sections :: "scnhdr list \<Rightarrow> scnhdr list" where
  "data_sections secs = filter (\<lambda>sec. s_size sec \<noteq> 0 \<and> (has_name name_data sec \<or> has_name name_rdata sec)) secs"

definition bss_sections :: "scnhdr list \<Rightarrow> scnhdr list" where
  "bss_sections secs = filter (\<lambda>sec. s_size sec \<noteq> 0 \<and> (has_name name_bss sec \<or> has_name name_sbss sec)) secs"

text \<open>
  What the tool promises of its output: the last section of code and the only one of initialized data are its segments, the segment of uninitialized
  data has the size of all such sections together and, if there is one only, its address, and there are no other sections.
\<close>

definition segments_of :: "byte list \<Rightarrow> scnhdr list \<Rightarrow> NoffHeader \<Rightarrow> byte list \<Rightarrow> bool" where
  "segments_of bs secs h w \<longleftrightarrow>
     (if text_sections secs = [] then seg_size (code_seg h) = 0 else section_in bs (last (text_sections secs)) (code_seg h) w)
     \<and> (case data_sections secs of [] \<Rightarrow> seg_size (initData h) = 0 | [sec] \<Rightarrow> section_in bs sec (initData h) w | _ \<Rightarrow> False)
     \<and> seg_size (uninitData h) = sum_list (map s_size (bss_sections secs))
     \<and> (\<forall>sec. bss_sections secs = [sec] \<longrightarrow> virtualAddr (uninitData h) = s_paddr sec)
     \<and> (\<forall>sec \<in> set secs. s_size sec = 0 \<or> sec \<in> set (text_sections secs @ data_sections secs @ bss_sections secs))"

definition conversion_ok :: "byte list \<Rightarrow> scnhdr list \<Rightarrow> conversion \<Rightarrow> bool" where
  "conversion_ok bs secs c \<longleftrightarrow> inNoffFile c = int (NoffHeader_size + length (written c)) \<and> inNoffFile c < 2 ^ 31
     \<and> noffMagic (noffH c) = NOFFMAGIC \<and> segments_of bs secs (noffH c) (written c)"

lemma section_in_more: "section_in bs sec g w \<Longrightarrow> section_in bs sec g (w @ v)"
  unfolding section_in_def by (elim exE conjE, intro exI conjI) auto

text \<open>The second letter tells the names apart.\<close>

lemma has_name_letter:
  assumes "has_name nm sec" "1 < length nm"
  shows "s_name sec ! 1 = nm ! 1"
proof -
  have "take (length nm + 1) (s_name sec) ! 1 = (nm @ [0]) ! 1" using assms(1) by (simp only: has_name_def)
  moreover have "nm \<noteq> []" using assms(2) by auto
  ultimately show ?thesis using assms(2) nth_take [of 1 "length nm + 1" "s_name sec"] by (simp add: nth_append)
qed

lemma names_differ:
  "has_name name_text sec \<Longrightarrow> \<not> has_name name_data sec \<and> \<not> has_name name_rdata sec \<and> \<not> has_name name_bss sec \<and> \<not> has_name name_sbss sec"
  "has_name name_data sec \<or> has_name name_rdata sec \<Longrightarrow> \<not> has_name name_bss sec \<and> \<not> has_name name_sbss sec"
  using has_name_letter [of name_text sec] has_name_letter [of name_data sec] has_name_letter [of name_rdata sec] has_name_letter [of name_bss sec]
    has_name_letter [of name_sbss sec]
  by (auto simp: name_text_def name_data_def name_rdata_def name_bss_def name_sbss_def)

lemma copy_section_segment:
  assumes "conversion_ok bs secs c" "copy_section bs sec c' = Inr c1"
    "inNoffFile c' = inNoffFile c" "written c' = written c" "in_pos c' = in_pos c"
  shows "inNoffFile c1 = int (NoffHeader_size + length (written c1))" "inNoffFile c1 < 2 ^ 31" "noffH c1 = noffH c'"
    "\<exists>v. written c1 = written c @ v" "section_in bs sec (new_segment sec c) (written c1)"
proof -
  let ?n = "unat (s_size sec)" and ?pos = "if 0 \<le> sint (s_scnptr sec) then unat (s_scnptr sec) else in_pos c"
  have a: "inNoffFile c = int (NoffHeader_size + length (written c))" "inNoffFile c < 2 ^ 31"
    using assms(1) by (simp_all add: conversion_ok_def)
  have p: "?pos + ?n \<le> length bs" "int_ok (inNoffFile c + int ?n)"
    "c1 = c'\<lparr>inNoffFile := inNoffFile c + int ?n, written := written c @ take ?n (drop ?pos bs), in_pos := ?pos + ?n\<rparr>"
    using assms(2-5) by (auto simp: copy_section_def coff_Read_def int_add_def Let_def rbind_eq_Inr split: if_splits)
  show "inNoffFile c1 = int (NoffHeader_size + length (written c1))" "inNoffFile c1 < 2 ^ 31" "noffH c1 = noffH c'"
    "\<exists>v. written c1 = written c @ v" using p a by (simp_all add: int_ok_def)
  have u: "unat (word_of_int (inNoffFile c) :: word32) = NoffHeader_size + length (written c)"
    using a by (simp add: unat_of_nat take_bit_nat_eq_self flip: of_nat_add)
  show "section_in bs sec (new_segment sec c) (written c1)"
    using p u unfolding section_in_def new_segment_def by (intro exI [of _ ?pos]) auto
qed

lemma kinds_append:
  "text_sections (secs @ [sec]) = text_sections secs @ text_sections [sec]" "data_sections (secs @ [sec]) = data_sections secs @ data_sections [sec]"
  "bss_sections (secs @ [sec]) = bss_sections secs @ bss_sections [sec]"
  by (simp_all add: text_sections_def data_sections_def bss_sections_def)

lemma kind_text:
  assumes "s_size sec \<noteq> 0" "has_name name_text sec"
  shows "text_sections [sec] = [sec]" "data_sections [sec] = []" "bss_sections [sec] = []"
  using assms names_differ by (auto simp: text_sections_def data_sections_def bss_sections_def)

lemma kind_data:
  assumes "s_size sec \<noteq> 0" "has_name name_data sec \<or> has_name name_rdata sec"
  shows "text_sections [sec] = []" "data_sections [sec] = [sec]" "bss_sections [sec] = []"
  using assms names_differ by (auto simp: text_sections_def data_sections_def bss_sections_def)

lemma kind_bss:
  assumes "s_size sec \<noteq> 0" "has_name name_bss sec \<or> has_name name_sbss sec"
  shows "text_sections [sec] = []" "data_sections [sec] = []" "bss_sections [sec] = [sec]"
  using assms names_differ by (auto simp: text_sections_def data_sections_def bss_sections_def)

lemma kind_empty: "s_size sec = 0 \<Longrightarrow> text_sections [sec] = [] \<and> data_sections [sec] = [] \<and> bss_sections [sec] = []"
  by (simp add: text_sections_def data_sections_def bss_sections_def)

lemma data_none:
  assumes "segments_of bs secs h w" "seg_size (initData h) = 0"
  shows "data_sections secs = []"
proof (cases "data_sections secs")
  case (Cons sec rest)
  then have "section_in bs sec (initData h) w" using assms(1) by (cases rest) (simp_all add: segments_of_def)
  then have "s_size sec = 0" using assms(2) by (auto simp: section_in_def)
  moreover have "sec \<in> set (data_sections secs)" using Cons by simp
  then have "s_size sec \<noteq> 0" by (simp add: data_sections_def)
  ultimately show ?thesis by simp
qed

lemma convert_section_ok:
  assumes ok: "conversion_ok bs secs c" and r: "convert_section bs sec c = Inr c1"
  shows "conversion_ok bs (secs @ [sec]) c1"
proof (cases "s_size sec = 0")
  case True
  then show ?thesis using r ok by (simp add: convert_section_def conversion_ok_def segments_of_def kinds_append kind_empty)
next
  case False
  let ?h = "noffH c"
  let ?text = "c\<lparr>noffH := ?h\<lparr>code_seg := new_segment sec c\<rparr>\<rparr>" and ?data = "c\<lparr>noffH := ?h\<lparr>initData := new_segment sec c\<rparr>\<rparr>"
  have seg: "segments_of bs secs ?h (written c)" using ok by (simp add: conversion_ok_def)
  consider "has_name name_text sec" "copy_section bs sec ?text = Inr c1"
    | "has_name name_data sec \<or> has_name name_rdata sec" "seg_size (initData ?h) = 0" "copy_section bs sec ?data = Inr c1"
    | "has_name name_bss sec \<or> has_name name_sbss sec" "seg_size (uninitData ?h) = 0"
        "c1 = c\<lparr>noffH := ?h\<lparr>uninitData := (uninitData ?h)\<lparr>virtualAddr := s_paddr sec, seg_size := s_size sec\<rparr>\<rparr>\<rparr>"
    | "has_name name_bss sec \<or> has_name name_sbss sec" "seg_size (uninitData ?h) \<noteq> 0"
        "c1 = c\<lparr>noffH := ?h\<lparr>uninitData := (uninitData ?h)\<lparr>seg_size := seg_size (uninitData ?h) + s_size sec\<rparr>\<rparr>\<rparr>"
    using r False by (auto simp: convert_section_def Let_def split: if_splits)
  then show ?thesis
  proof cases
    case 1
    note t = copy_section_segment [OF ok 1(2), simplified]
    have m: "section_in bs x g (written c) \<Longrightarrow> section_in bs x g (written c1)" for x g using t(4) section_in_more by metis
    note k = kind_text [OF False 1(1)]
    show ?thesis using t(1-3,5) seg ok
      by (auto simp: conversion_ok_def segments_of_def kinds_append k intro: m split: list.splits)
  next
    case 2
    note t = copy_section_segment [OF ok 2(3), simplified]
    have m: "section_in bs x g (written c) \<Longrightarrow> section_in bs x g (written c1)" for x g using t(4) section_in_more by metis
    note k = kind_data [OF False 2(1)]
    show ?thesis using t(1-3,5) seg ok data_none [OF seg 2(2)]
      by (auto simp: conversion_ok_def segments_of_def kinds_append k intro: m split: if_splits)
  next
    case 3
    note k = kind_bss [OF False 3(1)]
    show ?thesis using 3(2,3) seg ok by (auto simp: conversion_ok_def segments_of_def kinds_append k split: list.splits)
  next
    case 4
    note k = kind_bss [OF False 4(1)]
    show ?thesis using 4(2,3) seg ok by (auto simp: conversion_ok_def segments_of_def kinds_append k split: list.splits)
  qed
qed

lemma convert_sections_ok:
  "convert_sections bs todo c = Inr c1 \<Longrightarrow> conversion_ok bs secs c \<Longrightarrow> conversion_ok bs (secs @ todo) c1"
proof (induction bs todo c arbitrary: secs rule: convert_sections.induct)
  case (2 bs sec todo c)
  then obtain c2 where c2: "convert_section bs sec c = Inr c2" "convert_sections bs todo c2 = Inr c1" by (auto simp: rbind_eq_Inr)
  from "2.IH" [OF c2 convert_section_ok [OF "2.prems"(2) c2(1)]] show ?case by simp
qed simp

lemma start_conversion_ok: "conversion_ok bs [] (start_conversion stack n)"
  by (simp add: conversion_ok_def start_conversion_def segments_of_def text_sections_def data_sections_def bss_sections_def NoffHeader_size_def)

lemma coff2noff_output:
  assumes "coff2noff big stack bs = Inr out"
  obtains h w where "out = put_NoffHeader big h @ w" "bytes_NoffHeader big (take NoffHeader_size out) = h" "noffMagic h = NOFFMAGIC"
    "segments_of bs (coff_sections big bs) h w"
proof -
  obtain n c where c: "convert_sections bs (coff_sections big bs) (start_conversion stack n) = Inr c"
    "out = put_NoffHeader big (noffH c) @ written c"
    using assms by (auto simp: coff2noff_def Let_def rbind_eq_Inr split: if_splits)
  have ok: "conversion_ok bs (coff_sections big bs) c" using convert_sections_ok [OF c(1) start_conversion_ok] by simp
  have "bytes_NoffHeader big (take NoffHeader_size out) = noffH c"
    using read_put_NoffHeader [of big "noffH c" "[]"] c(2) by simp
  with that [OF c(2)] ok show ?thesis by (simp add: conversion_ok_def)
qed

text \<open>
  The test for two sections of uninitialized data is the wrong way round: when the second begins where the first
  ends the tool gives up, and when there is a gap between them it adds up their sizes.
\<close>

lemma bss_test_inverted:
  assumes "has_name name_bss sec \<or> has_name name_sbss sec" "s_size sec \<noteq> 0" "seg_size (uninitData (noffH c)) \<noteq> 0"
    "\<not> has_name name_text sec" "\<not> has_name name_data sec" "\<not> has_name name_rdata sec"
  shows "(convert_section bs sec c = Inl Halted) = (s_paddr sec = virtualAddr (uninitData (noffH c)) + seg_size (uninitData (noffH c)))"
  using assms by (auto simp: convert_section_def Let_def)

section \<open>An example\<close>

text \<open>A COFF file with a section of code and one of data, of four bytes each.\<close>

definition demo_coff :: "byte list" where
  "demo_coff = [0x62, 0x01, 2, 0] @ replicate 16 0 @ [0x07, 0x01] @ replicate 54 0
     @ [46, 116, 101, 120, 116, 0, 0, 0] @ replicate 8 0 @ [4, 0, 0, 0, 156, 0, 0, 0] @ replicate 16 0
     @ [46, 100, 97, 116, 97, 0, 0, 0] @ [4, 0, 0, 0, 4, 0, 0, 0] @ [4, 0, 0, 0, 160, 0, 0, 0] @ replicate 16 0 @ [1, 2, 3, 4, 5, 6, 7, 8]"

definition demo_stack :: NoffHeader where
  "demo_stack = (let g = \<lparr>virtualAddr = 0, inFileAddr = 0, seg_size = 0\<rparr> in
     \<lparr>noffMagic = 0, code_seg = g, initData = g, uninitData = g\<rparr>)"

lemma demo_conversion:
  "case coff2noff False demo_stack demo_coff of Inl e \<Rightarrow> False | Inr out \<Rightarrow> drop NoffHeader_size out = [1, 2, 3, 4, 5, 6, 7, 8]
     \<and> space_size (bytes_NoffHeader False (take NoffHeader_size out)) = Inr 1032"
  "map s_size (data_sections (coff_sections False demo_coff)) = [4]"
  by code_simp+

end
