(* ===== verification/Coff_Flat.thy ===== *)
theory Coff_Flat
  imports Coff_Noff
begin

text \<open>
  The tool for the second version of Nachos, \<^verbatim>\<open>bin/coff2flat.c\<close>, which makes a memory image of an object file. It runs on little-endian hosts only; the layout
  of the headers is that of \<^verbatim>\<open>bin/coff.h\<close>. \<open>Halted\<close> stands for \<^verbatim>\<open>exit(1)\<close>.
\<close>

section \<open>The tool\<close>

definition flat_StackSize :: int where "flat_StackSize = 1024"

text \<open>The loop over the sections: the end of the image, the bytes written and the position in the input file.\<close>

definition has_bytes :: "scnhdr \<Rightarrow> bool" where
  "has_bytes sec \<longleftrightarrow> \<not> has_name name_bss sec \<and> \<not> has_name name_sbss sec"

definition flat_section :: "byte list \<Rightarrow> scnhdr \<Rightarrow> int \<times> byte list \<times> nat \<Rightarrow> (int \<times> byte list \<times> nat) result" where
  "flat_section bs sec c = (case c of (tp, out, in_at) \<Rightarrow>
     rbind (int_add (sint (s_paddr sec)) (sint (s_size sec))) (\<lambda>e. let tp1 = (if e > tp then e else tp) in
     if \<not> has_bytes sec then Inr (tp1, out, in_at)
     else let p = (if 0 \<le> sint (s_scnptr sec) then unat (s_scnptr sec) else in_at); n = unat (s_size sec) in
       if sint (s_size sec) < 0 then Inl No_Memory
       else rbind (coff_Read bs p n) (\<lambda>buffer. Inr (tp1, out @ buffer, p + n))))"

fun flat_sections :: "byte list \<Rightarrow> scnhdr list \<Rightarrow> int \<times> byte list \<times> nat \<Rightarrow> (int \<times> byte list \<times> nat) result" where
  "flat_sections bs [] c = Inr c"
| "flat_sections bs (sec # secs) c = rbind (flat_section bs sec c) (flat_sections bs secs)"

text \<open>Writing \<open>w\<close> at position \<open>p\<close> of a file; a hole before it reads as zeros.\<close>

definition write_at :: "nat \<Rightarrow> byte list \<Rightarrow> byte list \<Rightarrow> byte list" where
  "write_at p w out = take p (out @ replicate (p - length out) 0) @ w @ drop (p + length w) out"

definition coff2flat :: "byte list \<Rightarrow> byte list result" where
  "coff2flat bs = rbind (coff_Read bs 0 filehdr_size) (\<lambda>_.
     if half_at False bs 0 \<noteq> MIPSELMAGIC then Inl Halted
     else rbind (coff_Read bs filehdr_size aouthdr_size) (\<lambda>_.
     if half_at False bs filehdr_size \<noteq> OMAGIC then Inl Halted
     else let n = unat (half_at False bs 2) in
     rbind (coff_Read bs (filehdr_size + aouthdr_size) (n * scnhdr_size)) (\<lambda>_.
     rbind (flat_sections bs (coff_sections False bs) (0, [], filehdr_size + aouthdr_size + n * scnhdr_size)) (\<lambda>(tp, out, _).
     rbind (int_add tp (flat_StackSize - 4)) (\<lambda>p. Inr (write_at (nat p) (put_word False 0) out))))))"

section \<open>Where the sections go\<close>

text \<open>
  The bytes are written one section after the other, without regard to the address of the section. The image is right when the sections with
  bytes follow each other in memory in the same way, from address zero, and the others come after them.
\<close>

fun contiguous :: "int \<Rightarrow> scnhdr list \<Rightarrow> bool" where
  "contiguous a [] \<longleftrightarrow> True"
| "contiguous a (sec # secs) \<longleftrightarrow> 0 \<le> sint (s_scnptr sec) \<and> 0 \<le> sint (s_size sec)
     \<and> (if has_bytes sec then sint (s_paddr sec) = a \<and> contiguous (a + sint (s_size sec)) secs else contiguous a secs)"

definition placed :: "byte list \<Rightarrow> scnhdr \<Rightarrow> byte list \<Rightarrow> bool" where
  "placed bs sec out \<longleftrightarrow> take (unat (s_size sec)) (drop (unat (s_paddr sec)) out) = take (unat (s_size sec)) (drop (unat (s_scnptr sec)) bs)"

lemma sint_unat: "0 \<le> sint w \<Longrightarrow> sint w = int (unat (w :: word32))"
proof -
  assume "0 \<le> sint w"
  moreover have "sint w = uint w - 2 ^ 32 * of_bool (bit (uint w) 31)"
    using take_bit_int_eq_self [of "uint w" 32] uint_lt2p [of w] by (simp add: sint_uint signed_take_bit_eq_take_bit_minus)
  ultimately show ?thesis using uint_lt2p [of w] by (auto simp: of_bool_def split: if_splits)
qed

lemma placed_append: "unat (s_paddr sec) + unat (s_size sec) \<le> length out \<Longrightarrow> placed bs sec out \<Longrightarrow> placed bs sec (out @ w)"
  by (simp add: placed_def)

lemma flat_section_ok:
  assumes "flat_section bs sec (tp, out, p) = Inr (tp1, out1, p1)" "contiguous (int (length out)) (sec # secs)" "int (length out) \<le> tp"
  shows "contiguous (int (length out1)) secs" "int (length out1) \<le> tp1" "sint (s_paddr sec) + sint (s_size sec) \<le> tp1" "tp \<le> tp1" "\<exists>w. out1 = out @ w"
    "has_bytes sec \<Longrightarrow> unat (s_paddr sec) + unat (s_size sec) \<le> length out1 \<and> placed bs sec out1"
proof -
  have e: "tp1 = max tp (sint (s_paddr sec) + sint (s_size sec))"
    using assms(1) by (auto simp: flat_section_def int_add_def rbind_eq_Inr Let_def split: if_splits)
  then show "sint (s_paddr sec) + sint (s_size sec) \<le> tp1" "tp \<le> tp1" by simp_all
  have n: "0 \<le> sint (s_scnptr sec)" "sint (s_size sec) = int (unat (s_size sec))" using assms(2) sint_unat by auto
  have "contiguous (int (length out1)) secs \<and> int (length out1) \<le> tp1 \<and> (\<exists>w. out1 = out @ w)
    \<and> (has_bytes sec \<longrightarrow> unat (s_paddr sec) + unat (s_size sec) \<le> length out1 \<and> placed bs sec out1)"
  proof (cases "has_bytes sec")
    case True
    then have o: "out1 = out @ take (unat (s_size sec)) (drop (unat (s_scnptr sec)) bs)" "unat (s_scnptr sec) + unat (s_size sec) \<le> length bs"
      using assms(1) n by (auto simp: flat_section_def rbind_eq_Inr Let_def coff_Read_def split: if_splits)
    have a: "sint (s_paddr sec) = int (length out)" "contiguous (int (length out) + sint (s_size sec)) secs" using True assms(2) by auto
    have "unat (s_paddr sec) = length out" using a(1) sint_unat [of "s_paddr sec"] by linarith
    moreover obtain b where b: "out1 = out @ b" "take (unat (s_size sec)) (drop (unat (s_scnptr sec)) bs) = b" "length b = unat (s_size sec)" using o by simp
    ultimately show ?thesis using a n(2) e by (simp add: placed_def)
  next
    case False
    then show ?thesis using assms by (auto simp: flat_section_def rbind_eq_Inr Let_def split: if_splits)
  qed
  then show "contiguous (int (length out1)) secs" "int (length out1) \<le> tp1" "\<exists>w. out1 = out @ w"
    "has_bytes sec \<Longrightarrow> unat (s_paddr sec) + unat (s_size sec) \<le> length out1 \<and> placed bs sec out1" by blast+
qed

lemma flat_sections_ok:
  assumes "flat_sections bs secs (tp, out, p) = Inr (tp', out', p')" "contiguous (int (length out)) secs" "int (length out) \<le> tp"
  shows "int (length out') \<le> tp' \<and> tp \<le> tp' \<and> (\<exists>w. out' = out @ w) \<and> (\<forall>sec \<in> set secs. sint (s_paddr sec) + sint (s_size sec) \<le> tp'
     \<and> (has_bytes sec \<longrightarrow> unat (s_paddr sec) + unat (s_size sec) \<le> length out' \<and> placed bs sec out'))"
  using assms
proof (induction secs arbitrary: tp out p)
  case (Cons sec secs)
  obtain tp1 out1 p1 where f: "flat_section bs sec (tp, out, p) = Inr (tp1, out1, p1)" "flat_sections bs secs (tp1, out1, p1) = Inr (tp', out', p')"
    using Cons.prems(1) by (auto simp: rbind_eq_Inr)
  note s = flat_section_ok [OF f(1) Cons.prems(2,3)]
  from Cons.IH [OF f(2) s(1,2)] s(3-6) show ?case by (auto intro: placed_append)
qed auto

text \<open>For such files the image holds every section at its address, and after the last one there is room for the stack.\<close>

theorem flat_image:
  assumes "coff2flat bs = Inr out" "contiguous 0 (coff_sections False bs)"
  shows "(\<forall>sec \<in> set (coff_sections False bs). (has_bytes sec \<longrightarrow> placed bs sec out)
    \<and> sint (s_paddr sec) + sint (s_size sec) + flat_StackSize \<le> int (length out))"
proof -
  obtain tp w p p0 where f: "flat_sections bs (coff_sections False bs) (0, [], p0) = Inr (tp, w, p)" "out = write_at (nat (tp + 1020)) (put_word False 0) w"
    using assms(1) by (auto simp: coff2flat_def rbind_eq_Inr Let_def int_add_def flat_StackSize_def split: if_splits)
  note s = flat_sections_ok [OF f(1)]
  have l: "int (length w) \<le> tp" "0 \<le> tp" using s assms(2) by simp_all
  then have "out = w @ replicate (nat (tp + 1020) - length w) 0 @ put_word False 0" using f(2) by (simp add: write_at_def)
  then show ?thesis using s assms(2) l by (auto simp: flat_StackSize_def intro: placed_append)
qed

text \<open>A gap between two sections is not kept: the second one is found at the end of the first instead of at its address.\<close>

lemma gap_is_lost:
  assumes "has_bytes sec" "s_paddr sec = 8" "s_size sec = 1" "s_scnptr sec = 0"
  shows "flat_section [b] sec (4, [0, 0, 0, 0], 0) = Inr (9, [0, 0, 0, 0, b], 1)"
  using assms by (simp add: flat_section_def coff_Read_def int_add_def int_ok_def)

end
