(* ===== verification/User_Process.thy ===== *)
theory User_Process
  imports Addr_Space
begin

text \<open>
  The kernel's entry point for user programs, \<^verbatim>\<open>userprog/exception.cc\<close>, the start of the first process
  (\<^verbatim>\<open>userprog/progtest.cc\<close>) and one round of the loop of \<^verbatim>\<open>Machine::Run\<close>. A system call may touch user memory,
  which can raise a further exception inside the handler: its handler never makes a system call, so the two
  levels are two definitions. An exception that ends the thread never returns; the rest of the call is then
  dropped (\<open>Gone\<close>).
\<close>

section \<open>Exceptions other than system calls\<close>

text \<open>
  The test \<^verbatim>\<open>getName() == "main"\<close> compares the address of the name of the main thread with that of another
  string literal: \<open>merged_literals\<close> says whether the linker has made them one.
\<close>

definition kill_process :: "unspecified \<Rightarrow> 'z usys \<Rightarrow> 'z usys result" where
  "kill_process env s = (let c = currentThread s in rbind (get_thread c s) (\<lambda>th.
     if merged_literals env \<and> tname th = ''main'' then Inl Assert_Failed
     else rbind (case space th of None \<Rightarrow> Inr s | Some a \<Rightarrow> delete_space a s) (Finish c)))"

definition fault_handler :: "unspecified \<Rightarrow> ExceptionType \<Rightarrow> 'z usys \<Rightarrow> (bool \<times> 'z usys) result" where
  "fault_handler env which s = (case which of
     NoException \<Rightarrow> Inr (True, s)
   | PageFaultException \<Rightarrow> rbind (PageFault env s) (\<lambda>s1. Inr (True, s1))
   | _ \<Rightarrow> rbind (kill_process env s) (\<lambda>s1. Inr (False, s1)))"

section \<open>User memory seen from the kernel\<close>

datatype 'a nested = Got 'a | Failed | Gone

text \<open>
  A call of \<^verbatim>\<open>ReadMem\<close> or \<^verbatim>\<open>WriteMem\<close> by the kernel: a fault is handled, and then the call reports failure. The
  return from the nested \<^verbatim>\<open>RaiseException\<close> leaves the simulated CPU in user mode.
\<close>

definition kernel_access :: "unspecified \<Rightarrow> (machine \<Rightarrow> 'a access result) \<Rightarrow> 'z usys \<Rightarrow> ('a nested \<times> 'z usys) result" where
  "kernel_access env f s = rbind (the_machine s) (\<lambda>m. rbind (f m) (\<lambda>r.
     case r of Done v m1 \<Rightarrow> Inr (Got v, s\<lparr>mach := Some m1\<rparr>)
     | Trap exc m1 \<Rightarrow> rbind (fault_handler env exc (s\<lparr>mach := Some m1, status := SystemMode\<rparr>)) (\<lambda>(returns, s1).
         Inr (if returns then (Failed, s1\<lparr>status := UserMode\<rparr>) else (Gone, s1)))))"

definition write_register :: "nat \<Rightarrow> word32 \<Rightarrow> 'z usys \<Rightarrow> 'z usys result" where
  "write_register r v s = rbind (the_machine s) (\<lambda>m. rbind (WriteRegister (int r) v m) (\<lambda>m1.
     Inr (s\<lparr>mach := Some m1\<rparr>)))"

section \<open>Exec\<close>

text \<open>
  The file name is read byte by byte into an array of 100 characters; \<open>n\<close> is the room left in it. A name that
  fills the array is not terminated.
\<close>

fun exec_name :: "nat \<Rightarrow> unspecified \<Rightarrow> word32 \<Rightarrow> 'z usys \<Rightarrow> (byte list nested \<times> 'z usys) result" where
  "exec_name n env fileAddress s = rbind (kernel_access env (ReadMem fileAddress 1) s) (\<lambda>(r, s1).
     case r of Got j \<Rightarrow>
       if j = 0 then (if n = 0 then Inl Bad_Index else Inr (Got [], s1))
       else (case n of 0 \<Rightarrow> Inl Bad_Index
         | Suc n' \<Rightarrow> rbind (exec_name n' env (fileAddress + 1) s1) (\<lambda>(r', s2).
             Inr (case r' of Got nm \<Rightarrow> (Got (ucast j # nm), s2) | _ \<Rightarrow> (r', s2))))
     | Failed \<Rightarrow> Inr (Failed, s1) | Gone \<Rightarrow> Inr (Gone, s1))"

declare exec_name.simps [simp del]

text \<open>\<^verbatim>\<open>"thrad!"\<close> is the name the source gives the new thread.\<close>

definition start_child :: "unspecified \<Rightarrow> 'z usys \<Rightarrow> 'z usys result" where
  "start_child env s = (let t = new_thread env; tid = threadID s;
       th = (Thread_new ''thrad!'' (stray_regs env))\<lparr>space := Some (new_space env), tID := tid\<rparr>;
       s1 = s\<lparr>threads := (threads s)(t \<mapsto> th), activeThreads := list_append (Some t) (activeThreads s)\<rparr> in
     rbind (write_register 2 (word_of_int tid) s1) (\<lambda>s2. rbind (int_add tid 1) (\<lambda>tid'.
     Fork t [Process_start] 0 (s2\<lparr>threadID := tid'\<rparr>))))"

definition exec_process :: "unspecified \<Rightarrow> AddrSpace \<Rightarrow> 'z usys \<Rightarrow> 'z usys result" where
  "exec_process env sp s = (let c = currentThread s; s1 = s\<lparr>spaces := (spaces s)(new_space env \<mapsto> sp)\<rparr> in
     rbind (get_thread c s1) (\<lambda>th.
     if \<not> killNewChild th then start_child env s1
     else rbind (int_add (threadID s1) 1) (\<lambda>k. rbind (write_register 2 (word_of_int (- k)) s1)
            (upd_thread c (\<lambda>th. th\<lparr>killNewChild := False\<rparr>)))))"

definition SC_Exec :: "unspecified \<Rightarrow> word32 \<Rightarrow> 'z usys \<Rightarrow> 'z usys result" where
  "SC_Exec env arg1 s = rbind (exec_name 100 env arg1 s) (\<lambda>(r, s1).
     case r of Got filename \<Rightarrow> rbind (stub_Open filename s1) (\<lambda>executable.
       case executable of None \<Rightarrow> Inr s1
       | Some f \<Rightarrow> rbind (AddrSpace_new env f (threadID s1) s1) (\<lambda>(sp, s2). exec_process env sp s2))
     | _ \<Rightarrow> Inr s1)"

section \<open>Read and Write\<close>

text \<open>
  \<^verbatim>\<open>Write\<close> copies the string at its first argument into an array of 500 characters and reads again whatever it
  failed to read. The bound of two reads per character is enough whenever a handled page fault leaves the
  page in memory.
\<close>

fun write_loop :: "nat \<Rightarrow> unspecified \<Rightarrow> word32 \<Rightarrow> byte list \<Rightarrow> 'z usys \<Rightarrow> (byte list nested \<times> 'z usys) result" where
  "write_loop 0 env arg1 ch s = Inl Out_Of_Fuel"
| "write_loop (Suc n) env arg1 ch s =
     rbind (kernel_access env (ReadMem (arg1 + of_nat (length ch)) 1) s) (\<lambda>(r, s1).
     case r of Got i \<Rightarrow>
       if length ch \<ge> 500 then Inl Bad_Index
       else if (ucast i :: byte) = 0 then Inr (Got ch, s1)
       else write_loop n env arg1 (ch @ [ucast i]) s1
     | Failed \<Rightarrow> write_loop n env arg1 ch s1
     | Gone \<Rightarrow> Inr (Gone, s1))"

definition SWrite :: "unspecified \<Rightarrow> byte list \<Rightarrow> int \<Rightarrow> 'z usys \<Rightarrow> 'z usys result" where
  "SWrite env buffer id_no s = (let s1 = (if id_no = 1 then s\<lparr>terminal := terminal s @ buffer\<rparr> else s) in
     if id_no \<ge> 2 then rbind (ASSERT (fd_writable env id_no)) (\<lambda>_.
       Inr (s1\<lparr>fd_files := (fd_files s1)(id_no := fd_files s1 id_no @ buffer)\<rparr>))
     else Inr s1)"

definition SC_Write :: "unspecified \<Rightarrow> word32 \<Rightarrow> int \<Rightarrow> 'z usys \<Rightarrow> 'z usys result" where
  "SC_Write env arg1 arg3 s = rbind (write_loop 1002 env arg1 [] s) (\<lambda>(r, s1).
     case r of Got ch \<Rightarrow> if ch = [] then Inr s1 else SWrite env ch arg3 s1
     | _ \<Rightarrow> Inr s1)"

text \<open>
  \<^verbatim>\<open>Read\<close> stores bytes until a zero has been stored or there are no more; a store that faults is not repeated. The
  result is the number of bytes before the last one stored, or all of them.
\<close>

fun store_bytes :: "unspecified \<Rightarrow> word32 \<Rightarrow> nat \<Rightarrow> byte list \<Rightarrow> 'z usys \<Rightarrow> (nat nested \<times> 'z usys) result" where
  "store_bytes env addr num [] s = Inr (Got num, s)"
| "store_bytes env addr num (b # bs) s =
     rbind (kernel_access env (WriteMem (addr + of_nat num) 1 (scast b)) s) (\<lambda>(r, s1).
     if r = Gone then Inr (Gone, s1)
     else if b = 0 then Inr (Got num, s1) else store_bytes env addr (Suc num) bs s1)"

definition keyboard_bytes :: "byte list \<Rightarrow> int \<Rightarrow> byte list result" where
  "keyboard_bytes token sz = (if int (length token) + 1 > sz + 10 \<or> sz + 1 < 0 then Inl Bad_Index
     else if int (length token) > sz + 1 then Inr (take (nat (sz + 1)) token)
     else Inr (token @ [0]))"

fun read_bytes :: "unspecified \<Rightarrow> word32 \<Rightarrow> nat \<Rightarrow> nat \<Rightarrow> byte list \<Rightarrow> 'z usys \<Rightarrow> (nat nested \<times> 'z usys) result" where
  "read_bytes env addr num 0 inp s = Inr (Got num, s)"
| "read_bytes env addr num (Suc n) inp s = (case inp of [] \<Rightarrow> Inl Assert_Failed
     | b # bs \<Rightarrow> rbind (kernel_access env (WriteMem (addr + of_nat num) 1 (scast b)) s) (\<lambda>(r, s1).
         if r = Gone then Inr (Gone, s1)
         else if b = 0 then Inr (Got num, s1) else read_bytes env addr (Suc num) n bs s1))"

definition SRead :: "unspecified \<Rightarrow> word32 \<Rightarrow> int \<Rightarrow> int \<Rightarrow> 'z usys \<Rightarrow> (nat nested \<times> 'z usys) result" where
  "SRead env addr sz id_no s = rbind (int_add sz 10) (\<lambda>n.
     if n \<le> 0 then Inl Bad_Index
     else if id_no = 0 then rbind (keyboard_bytes (typed env) sz) (\<lambda>bs. store_bytes env addr 0 bs s)
     else read_bytes env addr 0 (nat sz) (fd_input env id_no) s)"

definition SC_Read :: "unspecified \<Rightarrow> word32 \<Rightarrow> int \<Rightarrow> int \<Rightarrow> 'z usys \<Rightarrow> 'z usys result" where
  "SC_Read env arg1 arg2 arg3 s = rbind (SRead env arg1 arg2 arg3 s) (\<lambda>(r, s1).
     case r of Got n \<Rightarrow> write_register 2 (of_nat n) s1 | _ \<Rightarrow> Inr s1)"

section \<open>Exit, Yield and the handler\<close>

definition SC_Exit :: "'z usys \<Rightarrow> 'z usys result" where
  "SC_Exit s = (let c = currentThread s in rbind (get_thread c s) (\<lambda>th.
     rbind (case space th of None \<Rightarrow> Inr s
       | Some a \<Rightarrow> rbind (get_space a s) (\<lambda>sp. rbind (Clear (int (numPages sp)) (bitMap s)) (\<lambda>bm.
           delete_space a (s\<lparr>bitMap := bm\<rparr>)))) (Finish c)))"

definition SC_Yield :: "'z usys \<Rightarrow> 'z usys result" where
  "SC_Yield s = (let c = currentThread s in rbind (get_thread c s) (\<lambda>th.
     case space th of None \<Rightarrow> Inl Null_Deref
     | Some a \<Rightarrow> rbind (SaveState a s) (\<lambda>s1. rbind (push_frame c Restore_space s1) (Yield c))))"

definition advance_pc :: "machine \<Rightarrow> machine result" where
  "advance_pc m = rbind (reg PCReg m) (\<lambda>pc. rbind (set_reg PrevPCReg pc m) (\<lambda>m1.
     rbind (reg NextPCReg m1) (\<lambda>npc. rbind (set_reg PCReg npc m1) (\<lambda>m2. set_reg NextPCReg (npc + 4) m2))))"

definition system_call :: "unspecified \<Rightarrow> word32 \<Rightarrow> word32 \<Rightarrow> word32 \<Rightarrow> word32 \<Rightarrow> 'z usys \<Rightarrow> 'z usys result" where
  "system_call env type_no arg1 arg2 arg3 s =
     (if type_no = 0 then Inl Halted
      else if type_no = 6 then SC_Read env arg1 (sint arg2) (sint arg3) s
      else if type_no = 7 then SC_Write env arg1 (sint arg3) s
      else if type_no = 2 then SC_Exec env arg1 s
      else if type_no = 3 then SC_Join (sint arg1) s
      else if type_no = 1 then SC_Exit s
      else if type_no = 10 then SC_Yield s
      else Inr s)"

definition ExceptionHandler :: "unspecified \<Rightarrow> ExceptionType \<Rightarrow> 'z usys \<Rightarrow> 'z usys result" where
  "ExceptionHandler env which s = rbind (the_machine s) (\<lambda>m.
     rbind (ReadRegister 2 m) (\<lambda>type_no. rbind (ReadRegister 4 m) (\<lambda>arg1.
     rbind (ReadRegister 5 m) (\<lambda>arg2. rbind (ReadRegister 6 m) (\<lambda>arg3.
     if which = SyscallException
     then rbind (advance_pc m) (\<lambda>m1. system_call env type_no arg1 arg2 arg3 (s\<lparr>mach := Some m1\<rparr>))
     else rbind (fault_handler env which s) (\<lambda>(_, s1). Inr s1))))))"

section \<open>Running user programs\<close>

text \<open>
  One round of \<^verbatim>\<open>Machine::Run\<close>: an instruction, then a tick; an exception comes in between, and its return
  with the tick is the frame \<open>User_ret\<close>.
\<close>

definition user_round :: "unspecified \<Rightarrow> 'z usys \<Rightarrow> 'z usys result" where
  "user_round env s = rbind (the_machine s) (\<lambda>m. rbind (OneInstruction m) (\<lambda>r.
     case r of Done _ m1 \<Rightarrow> tick (s\<lparr>mach := Some m1\<rparr>)
     | Trap exc m1 \<Rightarrow> rbind (push_frame (currentThread s) User_ret (s\<lparr>mach := Some m1, status := SystemMode\<rparr>))
         (ExceptionHandler env exc)))"

definition StartProcess :: "unspecified \<Rightarrow> byte list \<Rightarrow> 'z usys \<Rightarrow> 'z usys result" where
  "StartProcess env filename s = rbind (stub_Open filename s) (\<lambda>executable.
     case executable of None \<Rightarrow> Inr s
     | Some f \<Rightarrow> rbind (AddrSpace_new env f 0 s) (\<lambda>(sp, s1). let a = new_space env in
         rbind (upd_thread (currentThread s1) (\<lambda>th. th\<lparr>space := Some a\<rparr>)
                 (s1\<lparr>spaces := (spaces s1)(a \<mapsto> sp)\<rparr>)) (\<lambda>s2.
         rbind (InitRegisters a s2) (\<lambda>s3. rbind (RestoreState a s3) (\<lambda>s4.
         Inr (s4\<lparr>status := UserMode\<rparr>))))))"

end
