(* ===== verification/User_Sched.thy ===== *)
theory User_Sched
  imports User_Process
begin

text \<open>
  User programs under the scheduler: the exception handler, the system calls and the rounds of the simulated
  machine keep the invariant of \<open>Sched_Inv\<close>, and the kernel with its user programs is a step relation \<open>ustep\<close>.
\<close>

section \<open>What leaves the scheduler alone\<close>

lemma same_sched_fields:
  fixes s :: "'z usys"
  shows "same_sched s (s\<lparr>mach := m\<rparr>)" "same_sched s (s\<lparr>status := u\<rparr>)" "same_sched s (s\<lparr>stats := w\<rparr>)"
    "same_sched s (s\<lparr>bitMap := bm\<rparr>)" "same_sched s (s\<lparr>host_files := h\<rparr>)" "same_sched s (s\<lparr>spaces := A\<rparr>)"
    "same_sched s (s\<lparr>IPT := i, IPT_VP := v, mach := m\<rparr>)" "same_sched s (s\<lparr>FIFO := l\<rparr>)"
    "same_sched s (s\<lparr>terminal := bs\<rparr>)" "same_sched s (s\<lparr>fd_files := fs\<rparr>)" "same_sched s (s\<lparr>threadID := n\<rparr>)"
    "same_sched s (s\<lparr>random_pos := k\<rparr>)" "same_sched s (s\<lparr>spaces := A, loaded := ld\<rparr>)"
    "same_sched s (s\<lparr>mach := m, status := u\<rparr>)"
  by (rule same_views; simp)+

lemma put_table_same: "same_sched s (put_table a pt s)"
  by (simp add: put_table_def same_sched_fields split: option.splits)

lemma map_page_same: "map_page a v f s = Inr s' \<Longrightarrow> same_sched s s'"
  by (auto simp: map_page_def rbind_eq_Inr put_table_same split: option.splits)

lemma load_page_same: "load_page f v s = Inr s' \<Longrightarrow> same_sched s s'"
  by (auto simp: load_page_def Let_def rbind_eq_Inr split: option.splits
      intro: same_sched_trans [OF same_sched_fields(7) map_page_same])

lemma evict_page_same: "evict_page env s = Inr s' \<Longrightarrow> same_sched s s'"
  by (auto simp: evict_page_def Let_def rbind_eq_Inr Random_def same_sched_fields split: option.splits if_splits prod.splits)

lemma PageFault_same:
  assumes "PageFault env s = Inr s'"
  shows "same_sched s s'"
proof -
  let ?s0 = "s\<lparr>stats := (stats s)\<lparr>numPageFaults := numPageFaults (stats s) + 1\<rparr>\<rparr>"
  obtain f v bm where "(if f = - 1 then evict_page env (?s0\<lparr>bitMap := bm\<rparr>) else load_page f v (?s0\<lparr>bitMap := bm\<rparr>)) = Inr s'"
    using assms by (auto simp: PageFault_def Let_def rbind_eq_Inr)
  then have "same_sched (?s0\<lparr>bitMap := bm\<rparr>) s'"
    by (auto split: if_splits intro: evict_page_same load_page_same)
  with same_sched_trans [OF same_sched_fields(3) same_sched_fields(4)] show ?thesis by (rule same_sched_trans)
qed

lemma stub_Create_same: "stub_Create nm n s = Inr (r, s') \<Longrightarrow> same_sched s s'"
  by (auto simp: stub_Create_def OpenForWrite_def rbind_eq_Inr same_sched_fields)

lemma stub_WriteAt_same: "stub_WriteAt nm d n p s = Inr s' \<Longrightarrow> same_sched s s'"
  by (auto simp: stub_WriteAt_def rbind_eq_Inr same_sched_fields split: if_splits)

lemma AddrSpace_new_same: "AddrSpace_new env f t s = Inr (sp, s') \<Longrightarrow> same_sched s s'"
  by (auto simp: AddrSpace_new_def Let_def rbind_eq_Inr split: if_splits option.splits
      intro: same_sched_trans [OF stub_Create_same stub_WriteAt_same])

lemma delete_space_same: "delete_space a s = Inr s' \<Longrightarrow> same_sched s s'"
  by (auto simp: delete_space_def Let_def rbind_eq_Inr stub_Remove_def Unlink_def intro!: same_views split: option.splits)

lemma write_register_same: "write_register r v s = Inr s' \<Longrightarrow> same_sched s s'"
  by (auto simp: write_register_def rbind_eq_Inr same_sched_fields)

lemma SWrite_same: "SWrite env b i s = Inr s' \<Longrightarrow> same_sched s s'"
  by (auto simp: SWrite_def Let_def rbind_eq_Inr same_sched_fields split: if_splits
      intro: same_sched_trans [OF same_sched_fields(9)] )

section \<open>Killing a process\<close>

text \<open>
  \<open>ends_ok\<close>: a routine of the kernel that returned has not touched the scheduler; one that has ended its thread
  leaves the invariant in force.
\<close>

definition ends_ok :: "'a nested \<Rightarrow> 'z usys \<Rightarrow> 'z usys \<Rightarrow> bool" where
  "ends_ok r s s' \<longleftrightarrow> (r \<noteq> Gone \<longrightarrow> same_sched s s')
     \<and> (r = Gone \<longrightarrow> sched False s \<longrightarrow> list_all plain_frame (stk s (currentThread s)) \<longrightarrow> sched_ok s')"

lemma ends_ok_trans: "same_sched s s1 \<Longrightarrow> ends_ok r s1 s2 \<Longrightarrow> ends_ok r s s2"
  by (auto simp: ends_ok_def same_sched_def sched_def)

lemma sched_after_same:
  assumes "same_sched s s1" "sched False s" "list_all plain_frame (stk s (currentThread s))"
  shows "sched False s1" "list_all plain_frame (stk s1 (currentThread s1))"
  using assms sched_same [OF assms(1)] by (simp_all add: same_sched_def)

lemma sched_kill_process:
  assumes "sched False s" "list_all plain_frame (stk s (currentThread s))" "kill_process env s = Inr s'"
  shows "sched_ok s'"
proof -
  have "\<exists>(th :: Thread) s1. (case space th of None \<Rightarrow> Inr s | Some a \<Rightarrow> delete_space a s) = Inr s1 \<and> Finish (currentThread s) s1 = Inr s'"
    using assms(3) by (auto simp: kill_process_def Let_def rbind_eq_Inr split: if_splits)
  then obtain th :: Thread and s1 where k: "(case space th of None \<Rightarrow> Inr s | Some a \<Rightarrow> delete_space a s) = Inr s1"
    and s1: "Finish (currentThread s) s1 = Inr s'" by (elim exE conjE) (rule that)
  have "same_sched s s1" using k by (auto split: option.splits intro: delete_space_same)
  from sched_Finish [OF sched_after_same [OF this assms(1,2)] s1] show ?thesis .
qed

lemma fault_handler_ok:
  assumes "fault_handler env exc s = Inr (ret, s')"
  shows "ends_ok (if ret then Failed else Gone) s s'"
  using assms unfolding ends_ok_def fault_handler_def
  by (auto simp: rbind_eq_Inr split: ExceptionType.splits intro: PageFault_same sched_kill_process)

lemma kernel_access_ok:
  assumes "kernel_access env f s = Inr (r, s')"
  shows "ends_ok r s s'"
proof -
  obtain m a where a: "mach s = Some m" "f m = Inr a"
    "(case a of Done v m1 \<Rightarrow> Inr (Got v, s\<lparr>mach := Some m1\<rparr>)
     | Trap exc m1 \<Rightarrow> rbind (fault_handler env exc (s\<lparr>mach := Some m1, status := SystemMode\<rparr>)) (\<lambda>(ret, s1).
         Inr (if ret then (Failed, s1\<lparr>status := UserMode\<rparr>) else (Gone, s1)))) = Inr (r, s')"
    using assms by (auto simp: kernel_access_def rbind_eq_Inr the_machine_def split: option.splits)
  show ?thesis
  proof (cases a)
    case (Done v m1)
    then show ?thesis using a(3) by (auto simp: ends_ok_def same_sched_fields)
  next
    case (Trap exc m1)
    let ?s = "s\<lparr>mach := Some m1, status := SystemMode\<rparr>"
    obtain ret s1 where h: "fault_handler env exc ?s = Inr (ret, s1)"
      "(r, s') = (if ret then (Failed, s1\<lparr>status := UserMode\<rparr>) else (Gone, s1))"
      using a(3) Trap by (auto simp: rbind_eq_Inr)
    have "ends_ok (if ret then Failed else Gone :: 'a nested) s s1"
      using ends_ok_trans [OF same_sched_fields(14) fault_handler_ok [OF h(1)]] by (simp add: ends_ok_def split: if_splits)
    then show ?thesis using h(2)
      by (auto simp: ends_ok_def split: if_splits intro: same_sched_trans [OF _ same_sched_fields(2)])
  qed
qed

lemma ends_ok_cong: "ends_ok (r :: 'a nested) s s' \<Longrightarrow> (r' = Gone \<longleftrightarrow> r = Gone) \<Longrightarrow> ends_ok (r' :: 'b nested) s s'"
  by (simp add: ends_ok_def)

text \<open>A loop over user memory: one access, then the end of the loop or the rest of it.\<close>

lemma ends_ok_step:
  assumes "ends_ok r1 s s1" "r1 = Gone \<Longrightarrow> r = Gone \<and> s' = s1" "r1 \<noteq> Gone \<Longrightarrow> r \<noteq> Gone \<and> s' = s1 \<or> ends_ok r s1 s'"
  shows "ends_ok r s s'"
proof (cases "r1 = Gone")
  case True
  with assms(1,2) show ?thesis by (simp add: ends_ok_def)
next
  case False
  then have "same_sched s s1" using assms(1) by (simp add: ends_ok_def)
  moreover from this have "r \<noteq> Gone \<and> s' = s1 \<Longrightarrow> ends_ok r s s'" by (simp add: ends_ok_def)
  ultimately show ?thesis using assms(3) [OF False] ends_ok_trans by blast
qed

lemma exec_name_ok: "exec_name n env a s = Inr (r, s') \<Longrightarrow> ends_ok r s s'"
proof (induction n arbitrary: a s r s')
  case 0
  from "0.prems" [unfolded exec_name.simps [of 0]] show ?case
    by (rule Inr_rbind_pairE) (erule ends_ok_step [OF kernel_access_ok], auto split: nested.splits if_splits)
next
  case (Suc n)
  have *: "ends_ok r s1 s'" if "rbind (exec_name n env (a + 1) s1) (\<lambda>(r', s2).
      Inr (case r' of Got nm \<Rightarrow> (Got (ucast j # nm), s2) | _ \<Rightarrow> (r', s2))) = Inr (r, s')" for j :: word32 and s1
    using that
  proof (rule Inr_rbind_pairE)
    fix r' s2 assume x: "exec_name n env (a + 1) s1 = Inr (r', s2)"
      "Inr (case r' of Got nm \<Rightarrow> (Got (ucast j # nm), s2) | _ \<Rightarrow> (r', s2)) = (Inr (r, s') :: (byte list nested \<times> _) result)"
    then have "s2 = s'" "r = Gone \<longleftrightarrow> r' = Gone" by (auto split: nested.splits)
    with Suc.IH [OF x(1)] show ?thesis by (auto intro: ends_ok_cong)
  qed
  from Suc.prems [unfolded exec_name.simps [of "Suc n"]] show ?case
  proof (rule Inr_rbind_pairE)
    fix r1 s1 assume k: "kernel_access env (ReadMem a 1) s = Inr (r1, s1)"
      and c: "(case r1 of Got j \<Rightarrow> if j = 0 then if Suc n = 0 then Inl Bad_Index else Inr (Got [], s1)
          else case Suc n of 0 \<Rightarrow> Inl Bad_Index | Suc n' \<Rightarrow> rbind (exec_name n' env (a + 1) s1) (\<lambda>(r', s2).
            Inr (case r' of Got nm \<Rightarrow> (Got (ucast j # nm), s2) | _ \<Rightarrow> (r', s2)))
        | Failed \<Rightarrow> Inr (Failed, s1) | Gone \<Rightarrow> Inr (Gone, s1)) = Inr (r, s')"
    from c * show ?thesis
      by (intro ends_ok_step [OF kernel_access_ok [OF k]]) (cases r1; auto split: if_splits)+
  qed
qed

lemma write_loop_ok: "write_loop n env a ch s = Inr (r, s') \<Longrightarrow> ends_ok r s s'"
proof (induction n arbitrary: ch s r s')
  case (Suc n)
  from Suc.prems [unfolded write_loop.simps] show ?case
    by (rule Inr_rbind_pairE) (erule ends_ok_step [OF kernel_access_ok], auto split: nested.splits if_splits intro: Suc.IH)
qed simp

lemma store_bytes_ok: "store_bytes env a n bs s = Inr (r, s') \<Longrightarrow> ends_ok r s s'"
proof (induction bs arbitrary: n s r s')
  case (Cons b bs)
  from Cons.prems [unfolded store_bytes.simps] show ?case
    by (rule Inr_rbind_pairE) (erule ends_ok_step [OF kernel_access_ok], auto split: if_splits intro: Cons.IH)
qed (simp add: ends_ok_def)

lemma read_bytes_ok: "read_bytes env a n k inp s = Inr (r, s') \<Longrightarrow> ends_ok r s s'"
proof (induction k arbitrary: n inp s r s')
  case (Suc k)
  then obtain b bs where "inp = b # bs" by (cases inp) auto
  from Suc.prems [unfolded this read_bytes.simps list.case] show ?case
    by (rule Inr_rbind_pairE) (erule ends_ok_step [OF kernel_access_ok], auto split: if_splits intro: Suc.IH)
qed (simp add: ends_ok_def)

lemma SRead_ok: "SRead env a n i s = Inr (r, s') \<Longrightarrow> ends_ok r s s'"
  by (auto simp: SRead_def rbind_eq_Inr split: if_splits intro: store_bytes_ok read_bytes_ok)

section \<open>System calls keep the scheduler's invariant\<close>

text \<open>Operator \<^verbatim>\<open>new\<close> returns addresses that no object occupies.\<close>

definition fresh :: "unspecified \<Rightarrow> 'z usys \<Rightarrow> bool" where
  "fresh env s \<longleftrightarrow> threads s (new_thread env) = None \<and> spaces s (new_space env) = None"

definition calm :: "'z usys \<Rightarrow> bool" where
  "calm s \<longleftrightarrow> sched False s \<and> list_all plain_frame (stk s (currentThread s))"

lemma calm_same: "same_sched s s1 \<Longrightarrow> calm s \<Longrightarrow> calm s1"
  by (simp add: calm_def sched_after_same)

lemma calm_ok: "calm s \<Longrightarrow> sched_ok s"
  by (simp add: calm_def sched_ok_running)

lemma calm_push:
  assumes "calm s" "plain_frame fr" "push_frame (currentThread s) fr s = Inr s'"
  shows "calm s'" "currentThread s' = currentThread s"
proof -
  have "st s (currentThread s) \<noteq> Some JUST_CREATED" using current_status [of s] assms(1) by (simp add: calm_def)
  then have "sched False s'" using sched_push [OF _ assms(3,2)] assms(1) by (simp add: calm_def)
  moreover obtain th where "threads s (currentThread s) = Some th"
    "s' = s\<lparr>threads := (threads s)(currentThread s \<mapsto> th\<lparr>kstack := fr # kstack th\<rparr>)\<rparr>"
    using assms(3) by (auto simp: push_frame_def upd_thread_Inr)
  ultimately show "calm s'" "currentThread s' = currentThread s"
    using assms(1,2) view_thread [of s "currentThread s" th] by (simp_all add: calm_def view_simps)
qed

lemma same_threads: "same_sched s s1 \<Longrightarrow> threads s t = None \<Longrightarrow> threads s1 t = None"
  by (simp add: same_sched_def st_def fun_eq_iff) (metis option.map_disc_iff)

lemma sched_start_child:
  assumes "calm s" "threads s (new_thread env) = None" "start_child env s = Inr s'"
  shows "sched_ok s'"
proof -
  let ?t = "new_thread env" and ?new = "Thread_new ''thrad!'' (stray_regs env)"
  let ?th = "?new\<lparr>space := Some (new_space env), tID := threadID s\<rparr>"
  let ?s0 = "s\<lparr>threads := (threads s)(?t \<mapsto> ?new)\<rparr>"
  let ?s1 = "s\<lparr>threads := (threads s)(?t \<mapsto> ?th), activeThreads := list_append (Some ?t) (activeThreads s)\<rparr>"
  have s: "sched False s" using assms(1) by (simp add: calm_def)
  have new: "tstatus ?new = JUST_CREATED" by (simp add: Thread_new_def)
  have n: "Some ?t \<notin> set (items (activeThreads s))"
    using schedD(7) [OF s] assms(2) by (auto simp: active_ok_def st_def)
  have "sched False (?s0\<lparr>threads := (threads ?s0)(?t \<mapsto> ?th), activeThreads := list_append (Some ?t) (activeThreads ?s0)\<rparr>)"
  proof (rule sched_activate [OF sched_new_thread [OF s assms(2)]])
    show "threads ?s0 ?t = Some ?new" by simp
    show "Some ?t \<notin> set (items (activeThreads ?s0))" using n by simp
  qed (simp_all add: new)
  then have s1: "sched False ?s1" by simp
  obtain s2 k where s2: "write_register 2 (word_of_int (threadID s)) ?s1 = Inr s2"
    "Fork ?t [Process_start] 0 (s2\<lparr>threadID := k\<rparr>) = Inr s'"
    using assms(3) by (auto simp: start_child_def Let_def rbind_eq_Inr)
  have "same_sched ?s1 (s2\<lparr>threadID := k\<rparr>)" by (rule same_sched_trans [OF write_register_same [OF s2(1)] same_sched_fields(11)])
  then have "sched False (s2\<lparr>threadID := k\<rparr>)" "st (s2\<lparr>threadID := k\<rparr>) ?t = Some JUST_CREATED"
    using s1 sched_same by (blast, simp add: same_sched_def view_simps Thread_new_def)
  from sched_Fork [OF this _ s2(2)] show ?thesis by (simp add: sched_ok_running)
qed

lemma sched_exec_process:
  assumes "calm s" "threads s (new_thread env) = None" "exec_process env sp s = Inr s'"
  shows "sched_ok s'"
proof -
  let ?s = "s\<lparr>spaces := (spaces s)(new_space env \<mapsto> sp)\<rparr>"
  have c: "calm ?s" "threads ?s (new_thread env) = None"
    using calm_same [OF same_sched_fields(6) assms(1)] assms(2) by simp_all
  from assms(3) consider "start_child env ?s = Inr s'" | k s1 where "write_register 2 k ?s = Inr s1"
    "upd_thread (currentThread s) (\<lambda>th. th\<lparr>killNewChild := False\<rparr>) s1 = Inr s'"
    by (auto simp: exec_process_def Let_def rbind_eq_Inr split: if_splits)
  then show ?thesis
  proof cases
    case 1
    then show ?thesis by (rule sched_start_child [OF c])
  next
    case 2
    then have "same_sched s1 s'" by (auto simp: upd_thread_Inr same_thread)
    from calm_same [OF same_sched_trans [OF write_register_same [OF 2(1)] this] c(1)] show ?thesis by (rule calm_ok)
  qed
qed

lemma sched_SC_Exec:
  assumes "calm s" "fresh env s" "SC_Exec env a s = Inr s'"
  shows "sched_ok s'"
  using assms(3) [unfolded SC_Exec_def]
proof (rule Inr_rbind_pairE)
  fix r s1 assume n: "exec_name 100 env a s = Inr (r, s1)"
    and c: "(case r of Got filename \<Rightarrow> rbind (stub_Open filename s1) (\<lambda>executable.
       case executable of None \<Rightarrow> Inr s1
       | Some f \<Rightarrow> rbind (AddrSpace_new env f (threadID s1) s1) (\<lambda>(sp, s2). exec_process env sp s2))
     | _ \<Rightarrow> Inr s1) = Inr s'"
  note e = exec_name_ok [OF n]
  show ?thesis
  proof (cases "r = Gone")
    case True
    then show ?thesis using e c assms(1) by (simp add: ends_ok_def calm_def)
  next
    case False
    then have s1: "same_sched s s1" using e by (simp add: ends_ok_def)
    then have "sched_ok s1" using calm_same [OF _ assms(1)] by (blast intro: calm_ok)
    moreover have "sched_ok s'" if "AddrSpace_new env f (threadID s1) s1 = Inr (sp, s2)" "exec_process env sp s2 = Inr s'" for f sp s2
    proof -
      have "same_sched s s2" by (rule same_sched_trans [OF s1 AddrSpace_new_same [OF that(1)]])
      with assms(1,2) that(2) show ?thesis unfolding fresh_def by (blast intro: sched_exec_process calm_same same_threads)
    qed
    ultimately show ?thesis using c False by (auto simp: rbind_eq_Inr split: nested.splits option.splits)
  qed
qed

lemma sched_SC_Write:
  assumes "calm s" "SC_Write env a i s = Inr s'"
  shows "sched_ok s'"
  using assms(2) [unfolded SC_Write_def]
proof (rule Inr_rbind_pairE)
  fix r s1 assume w: "write_loop 1002 env a [] s = Inr (r, s1)"
    and c: "(case r of Got ch \<Rightarrow> if ch = [] then Inr s1 else SWrite env ch i s1 | _ \<Rightarrow> Inr s1) = Inr s'"
  note e = write_loop_ok [OF w]
  show ?thesis
  proof (cases "r = Gone")
    case True
    then show ?thesis using e c assms(1) by (simp add: ends_ok_def calm_def)
  next
    case False
    then have "same_sched s s1" "same_sched s1 s'"
      using e c by (auto simp: ends_ok_def split: nested.splits if_splits intro: SWrite_same)
    then show ?thesis using assms(1) by (blast intro: calm_ok calm_same)
  qed
qed

lemma sched_SC_Read:
  assumes "calm s" "SC_Read env a n i s = Inr s'"
  shows "sched_ok s'"
  using assms(2) [unfolded SC_Read_def]
proof (rule Inr_rbind_pairE)
  fix r s1 assume w: "SRead env a n i s = Inr (r, s1)"
    and c: "(case r of Got n \<Rightarrow> write_register 2 (of_nat n) s1 | _ \<Rightarrow> Inr s1) = Inr s'"
  note e = SRead_ok [OF w]
  show ?thesis
  proof (cases "r = Gone")
    case True
    then show ?thesis using e c assms(1) by (simp add: ends_ok_def calm_def)
  next
    case False
    then have "same_sched s s1" "same_sched s1 s'"
      using e c by (auto simp: ends_ok_def split: nested.splits intro: write_register_same)
    then show ?thesis using assms(1) by (blast intro: calm_ok calm_same)
  qed
qed

lemma sched_SC_Exit:
  assumes "calm s" "SC_Exit s = Inr s'"
  shows "sched_ok s'"
proof -
  obtain th :: Thread and s1 where k: "(case space th of None \<Rightarrow> Inr s
       | Some a \<Rightarrow> rbind (get_space a s) (\<lambda>sp. rbind (Clear (int (numPages sp)) (bitMap s)) (\<lambda>bm.
           delete_space a (s\<lparr>bitMap := bm\<rparr>)))) = Inr s1" and f: "Finish (currentThread s) s1 = Inr s'"
    using assms(2) unfolding SC_Exit_def Let_def rbind_eq_Inr by (elim exE conjE) (rule that)
  have "same_sched s s1"
    using k by (auto simp: rbind_eq_Inr split: option.splits intro: same_sched_trans [OF same_sched_fields(4) delete_space_same])
  from calm_same [OF this assms(1)] show ?thesis using f sched_Finish by (auto simp: calm_def)
qed

lemma sched_SC_Yield:
  assumes "calm s" "SC_Yield s = Inr s'"
  shows "sched_ok s'"
proof -
  obtain s1 where p: "push_frame (currentThread s) Restore_space s = Inr s1" "Yield (currentThread s) s1 = Inr s'"
    using assms(2) by (auto simp: SC_Yield_def Let_def rbind_eq_Inr SaveState_def split: option.splits)
  from calm_push [OF assms(1) _ p(1)] p(2) sched_Yield show ?thesis by (auto simp: calm_def sched_ok_def)
qed

lemma sched_system_call:
  assumes "calm s" "fresh env s" "system_call env k a b c s = Inr s'"
  shows "sched_ok s'"
  using assms sched_SC_Join [of s "sint a" s']
  by (auto simp: system_call_def split: if_splits intro: sched_SC_Read sched_SC_Write sched_SC_Exec sched_SC_Exit
      sched_SC_Yield calm_ok) (simp_all add: calm_def)

lemma sched_ExceptionHandler:
  assumes "calm s" "fresh env s" "ExceptionHandler env exc s = Inr s'"
  shows "sched_ok s'"
proof (cases "exc = SyscallException")
  case True
  then obtain m1 k a b c where "system_call env k a b c (s\<lparr>mach := Some m1\<rparr>) = Inr s'"
    using assms(3) by (auto simp: ExceptionHandler_def rbind_eq_Inr)
  moreover have "calm (s\<lparr>mach := Some m1\<rparr>)" "fresh env (s\<lparr>mach := Some m1\<rparr>)"
    using calm_same [OF same_sched_fields(1) assms(1)] assms(2) by (simp_all add: fresh_def)
  ultimately show ?thesis by (blast intro: sched_system_call)
next
  case False
  then obtain ret where "fault_handler env exc s = Inr (ret, s')"
    using assms(3) by (auto simp: ExceptionHandler_def rbind_eq_Inr)
  from fault_handler_ok [OF this] show ?thesis
    using assms(1) calm_same calm_ok by (auto simp: ends_ok_def calm_def split: if_splits)
qed

lemma sched_user_round:
  assumes "sched_ok s" "stk s (currentThread s) = []" "fresh env s" "user_round env s = Inr s'"
  shows "sched_ok s'"
proof -
  have c: "calm s" using not_asleep [OF assms(1,2)] assms(2) by (simp add: calm_def)
  obtain r :: "unit access" where r: "(case r of Done _ m1 \<Rightarrow> tick (s\<lparr>mach := Some m1\<rparr>)
     | Trap exc m1 \<Rightarrow> rbind (push_frame (currentThread s) User_ret (s\<lparr>mach := Some m1, status := SystemMode\<rparr>))
         (ExceptionHandler env exc)) = Inr s'"
    using assms(4) unfolding user_round_def rbind_eq_Inr by (elim exE conjE) (rule that)
  show ?thesis
  proof (cases r)
    case (Done u m1)
    have "sched False (s\<lparr>mach := Some m1\<rparr>)" using calm_same [OF same_sched_fields(1) c] by (simp add: calm_def)
    from sched_tick [OF this] r Done show ?thesis by (simp add: sched_ok_running)
  next
    case (Trap exc m1)
    let ?s = "s\<lparr>mach := Some m1, status := SystemMode\<rparr>"
    have c1: "calm ?s" using calm_same [OF same_sched_fields(14) c] .
    obtain s1 where p: "push_frame (currentThread ?s) User_ret ?s = Inr s1" "ExceptionHandler env exc s1 = Inr s'"
      using r Trap by (auto simp: rbind_eq_Inr)
    have "fresh env s1" using p(1) assms(3) by (auto simp: push_frame_def upd_thread_Inr fresh_def)
    from sched_ExceptionHandler [OF calm_push(1) [OF c1 _ p(1)] this p(2)] show ?thesis by simp
  qed
qed

section \<open>The system of user programs\<close>

text \<open>
  The state \<^verbatim>\<open>Initialize\<close> leaves in a kernel built for user programs, before it enables interrupts: \<open>words\<close> is
  the uninitialised storage of the frame map, \<open>m\<close> the machine.
\<close>

definition user_boot :: "(nat \<Rightarrow> nat) \<Rightarrow> (nat \<Rightarrow> byte list) \<Rightarrow> word32 list \<Rightarrow> machine \<Rightarrow> int
    \<Rightarrow> (byte list \<Rightarrow> byte list option) \<Rightarrow> (byte list \<Rightarrow> bool) \<Rightarrow> user_sys result" where
  "user_boot rnd secs words m opt files deny = rbind (BitMap_new NumPhysPages words) (\<lambda>bm.
     Inr (thread_sys.extend ((kernel_boot rnd secs)\<lparr>mach := Some m\<rparr>)
       \<lparr>bitMap = bm, IPT = replicate NumPhysPages None, IPT_VP = replicate NumPhysPages 0, threadID = 1,
        virtualOption = opt, FIFO = list_new, host_files = files, host_denies = deny, terminal = [],
        fd_files = (\<lambda>_. [])\<rparr>))"

text \<open>
  What can happen next: a pending return, a round of the user program that runs, or, in the main thread, the
  calls of \<^verbatim>\<open>Initialize\<close> and \<^verbatim>\<open>main\<close>. \<open>ok\<close> restricts what the source leaves open.
\<close>

inductive ustep :: "(unspecified \<Rightarrow> bool) \<Rightarrow> 'z usys \<Rightarrow> 'z usys \<Rightarrow> bool" for ok where
  resume: "stk s (currentThread s) \<noteq> [] \<Longrightarrow> resume s = Inr s' \<Longrightarrow> ustep ok s s'"
| round: "stk s (currentThread s) = [] \<Longrightarrow> status s = UserMode \<Longrightarrow> ok env \<Longrightarrow> fresh env s \<Longrightarrow>
    user_round env s = Inr s' \<Longrightarrow> ustep ok s s'"
| start: "stk s (currentThread s) = [] \<Longrightarrow> status s = SystemMode \<Longrightarrow> ok env \<Longrightarrow> fresh env s \<Longrightarrow>
    StartProcess env filename s = Inr s' \<Longrightarrow> ustep ok s s'"
| timer: "stk s (currentThread s) = [] \<Longrightarrow> status s = SystemMode \<Longrightarrow> Timer_new True k s = Inr s' \<Longrightarrow> ustep ok s s'"
| enable: "stk s (currentThread s) = [] \<Longrightarrow> status s = SystemMode \<Longrightarrow> set_level IntOn s = Inr s' \<Longrightarrow> ustep ok s s'"
| finish: "stk s (currentThread s) = [] \<Longrightarrow> status s = SystemMode \<Longrightarrow> Finish (currentThread s) s = Inr s' \<Longrightarrow>
    ustep ok s s'"

inductive ureach :: "(unspecified \<Rightarrow> bool) \<Rightarrow> user_sys \<Rightarrow> bool" for ok where
  boot: "user_boot rnd secs words m opt files deny = Inr s \<Longrightarrow> ureach ok s"
| step: "ureach ok s \<Longrightarrow> ustep ok s s' \<Longrightarrow> ureach ok s'"

inductive_cases ustepE: "ustep ok s s'"

lemma sched_user_boot: "user_boot rnd secs words m opt files deny = Inr s \<Longrightarrow> sched_ok s"
  by (auto simp: user_boot_def rbind_eq_Inr sched_extend intro!: sched_ok_running sched_boot)

lemma Timer_new_more: "Timer_new b k s = Inr s' \<Longrightarrow> device_sys.more s' = device_sys.more s"
  by (auto simp: Timer_new_def schedule_timer_def TimeOfNextInterrupt_def Random_def Schedule_def Let_def rbind_eq_Inr
      split: prod.splits if_splits)

lemma sched_StartProcess:
  assumes "sched False s" "StartProcess env f s = Inr s'"
  shows "sched False s'"
proof -
  have "same_sched s s'" if p: "AddrSpace_new env f' 0 s = Inr (sp, s1)" "threads s1 (currentThread s1) = Some th"
    "InitRegisters a (s1\<lparr>spaces := B, threads := (threads s1)(currentThread s1 \<mapsto> th\<lparr>space := Some a\<rparr>)\<rparr>) = Inr s3"
    "RestoreState a s3 = Inr s4" "s' = s4\<lparr>status := UserMode\<rparr>" for f' sp s1 a B th s3 s4
  proof -
    let ?s1 = "s1\<lparr>spaces := B\<rparr>"
    have "same_sched s ?s1" by (rule same_sched_trans [OF AddrSpace_new_same [OF p(1)] same_sched_fields(6)])
    moreover have "same_sched ?s1 (?s1\<lparr>threads := (threads ?s1)(currentThread s1 \<mapsto> th\<lparr>space := Some a\<rparr>)\<rparr>)"
      by (rule same_thread) (simp_all add: p(2))
    moreover have "same_sched (?s1\<lparr>threads := (threads ?s1)(currentThread s1 \<mapsto> th\<lparr>space := Some a\<rparr>)\<rparr>) s3"
      using p(3) by (auto simp: InitRegisters_def rbind_eq_Inr same_sched_fields)
    moreover have "same_sched s4 s'" using p(5) by (simp add: same_sched_fields)
    ultimately show ?thesis using RestoreState_same [OF p(4)] by (blast intro: same_sched_trans)
  qed
  then have "same_sched s s'"
    using assms(2) by (auto simp: StartProcess_def Let_def rbind_eq_Inr upd_thread_Inr split: option.splits)
  then show ?thesis using assms(1) sched_same by blast
qed

lemma sched_ustep: "ustep ok s s' \<Longrightarrow> sched_ok s \<Longrightarrow> sched_ok s'"
proof (induction rule: ustep.induct)
  case (timer s k s')
  from sched_more [OF Timer_new_more [OF timer(3)]] not_asleep [OF timer(4,1)] show ?case by (simp add: sched_ok_def)
next
  case (finish s s')
  from sched_Finish [OF not_asleep [OF finish(4,1)] _ finish(3)] finish(1) show ?case by simp
qed (blast intro: sched_ok_resume sched_user_round sched_ok_running sched_set_level sched_StartProcess not_asleep)+

lemma ureach_sched: "ureach ok s \<Longrightarrow> sched_ok s"
  by (induction rule: ureach.induct) (blast intro: sched_user_boot sched_ustep)+

end
