(* ===== verification/User_Memory.thy ===== *)
theory User_Memory
  imports User_Sched
begin

text \<open>
  User memory: an instruction touches only frames its page table maps, the kernel leaves the memory and the
  tables of user programs alone, and the frames of different pages are different as long as no address space
  has been deleted.
\<close>

section \<open>The machine stays within its page table\<close>

definition own_frames :: "machine \<Rightarrow> nat set" where
  "own_frames m = {f. \<exists>pt e. pageTable m = Some pt \<and> e \<in> set pt \<and> valid e \<and> unat (physicalPage e) = f}"

definition cores :: "machine \<Rightarrow> (word32 \<times> word32 \<times> bool \<times> bool) list option" where
  "cores m = map_option (map entry_core) (pageTable m)"

definition within :: "machine \<Rightarrow> machine \<Rightarrow> bool" where
  "within m m' \<longleftrightarrow> tlb m' = None \<and> cores m' = cores m \<and> pageTableSize m' = pageTableSize m
     \<and> hostBigEndian m' = hostBigEndian m
     \<and> (\<forall>a. a div PageSize \<notin> own_frames m \<longrightarrow> mainMemory m' a = mainMemory m a)"

lemma cores_Some: "cores m' = cores m \<Longrightarrow> pageTable m = Some pt \<Longrightarrow>
    \<exists>pt'. pageTable m' = Some pt' \<and> map entry_core pt' = map entry_core pt"
  by (auto simp: cores_def)

lemma own_frames_cores:
  assumes "cores m' = cores m"
  shows "own_frames m' = own_frames m"
proof -
  have "own_frames m1 \<subseteq> own_frames m2" if c: "cores m2 = cores m1" for m1 m2
  proof
    fix f assume "f \<in> own_frames m1"
    then obtain pt e where e: "pageTable m1 = Some pt" "e \<in> set pt" "valid e" "unat (physicalPage e) = f"
      by (auto simp: own_frames_def)
    then obtain pt' where pt': "pageTable m2 = Some pt'" "map entry_core pt' = map entry_core pt" using cores_Some [OF c] by blast
    then have "entry_core e \<in> set (map entry_core pt')" using e(2) by simp
    then obtain e' where "e' \<in> set pt'" "entry_core e' = entry_core e" by auto
    with pt'(1) e(3,4) show "f \<in> own_frames m2" by (auto simp: own_frames_def entry_core_def)
  qed
  from this [of m' m] this [of m m'] assms show ?thesis by auto
qed

lemma within_refl: "tlb m = None \<Longrightarrow> within m m"
  by (simp add: within_def)

lemma within_trans: "within m m1 \<Longrightarrow> within m1 m2 \<Longrightarrow> within m m2"
  using own_frames_cores [of m1 m] by (simp add: within_def)

lemma within_registers [simp]: "within m (m'\<lparr>registers := xs\<rparr>) = within m m'"
  by (simp add: within_def cores_def)

lemma set_reg_within: "set_reg k v m1 = Inr m2 \<Longrightarrow> within m m2 = within m m1"
  by (auto simp: set_reg_def rbind_eq_Inr)

lemma DelayedLoad_within: "DelayedLoad r v m1 = Inr m2 \<Longrightarrow> within m m2 = within m m1"
  by (auto simp: DelayedLoad_def rbind_eq_Inr set_reg_within)

lemma RaiseException_within:
  assumes "RaiseException a m1 = Inr m2"
  shows "within m m2 = within m m1"
proof -
  obtain m3 where "set_reg BadVAddrReg a m1 = Inr m3" "DelayedLoad 0 0 m3 = Inr m2"
    using assms by (auto simp: RaiseException_def rbind_eq_Inr)
  then show ?thesis using DelayedLoad_within set_reg_within by blast
qed

text \<open>Without a TLB, a translation that succeeds has found a valid entry and marks it.\<close>

lemma Translate_page:
  assumes "tlb m = None" "Translate va sz w m = Inr (Inr pa, m')"
  obtains pt i where "pageTable m = Some pt" "i < length pt" "valid (pt ! i)" "\<not> misaligned va sz"
    "m' = m\<lparr>pageTable := Some (pt[i := (pt ! i)\<lparr>use := True, dirty := dirty (pt ! i) \<or> w\<rparr>])\<rparr>"
    "pa = unat (physicalPage (pt ! i)) * PageSize + unat va mod PageSize"
  using assms
  by (auto simp: Translate_def Let_def rbind_eq_Inr find_entry_def entry_at_def set_entry_def array_get_eq_Inr
      array_set_eq_Inr size_defs unat_mod split: if_splits option.splits lookup.splits)

lemma Translate_fault: "Translate va sz w m = Inr (Inl exc, m') \<Longrightarrow> m' = m"
  apply (auto simp: Translate_def Let_def rbind_eq_Inr split: if_splits)
  subgoal for l by (cases l) (auto simp: rbind_eq_Inr Let_def split: if_splits)
  subgoal for l by (cases l) (auto simp: rbind_eq_Inr Let_def split: if_splits)
  done

lemma within_marked:
  assumes "tlb m = None" "pageTable m = Some pt" "i < length pt"
  shows "within m (m\<lparr>pageTable := Some (pt[i := (pt ! i)\<lparr>use := u, dirty := d\<rparr>])\<rparr>)"
proof -
  have "map entry_core (pt[i := (pt ! i)\<lparr>use := u, dirty := d\<rparr>]) = map entry_core pt"
    using assms(3) by (simp add: map_update entry_core_def list_update_same_conv)
  then show ?thesis using assms by (simp add: within_def cores_def)
qed

lemma ReadMem_within:
  assumes "tlb m = None" "ReadMem va sz m = Inr (Done v m') \<or> ReadMem va sz m = Inr (Trap exc m')"
  shows "within m m'"
proof -
  obtain r m1 where t: "Translate va sz False m = Inr (r, m1)"
    using assms(2) by (auto simp: ReadMem_def rbind_eq_Inr)
  show ?thesis
  proof (cases r)
    case (Inl e)
    with assms(2) t have "RaiseException va m1 = Inr m'" by (auto simp: ReadMem_def rbind_eq_Inr)
    then show ?thesis using RaiseException_within Translate_fault t Inl within_refl [OF assms(1)] by blast
  next
    case (Inr pa)
    then have "m' = m1" using assms(2) t by (auto simp: ReadMem_def rbind_eq_Inr split: if_splits)
    then show ?thesis using Translate_page [OF assms(1) t [unfolded Inr]] within_marked [OF assms(1)] by metis
  qed
qed

lemma in_frame:
  fixes f p q n k :: nat
  assumes "q + n \<le> p" "k < n"
  shows "(f * p + q + k) div p = f"
  using assms by (simp add: add.assoc)

lemma own_frame: "pageTable m = Some pt \<Longrightarrow> i < length pt \<Longrightarrow> valid (pt ! i) \<Longrightarrow> unat (physicalPage (pt ! i)) \<in> own_frames m"
  by (force simp: own_frames_def)

lemma host_store_outside:
  "\<forall>k < 4. a \<noteq> pa + k \<Longrightarrow> host_store32 big w mem pa a = mem a"
  "\<forall>k < 2. a \<noteq> pa + k \<Longrightarrow> host_store16 big h mem pa a = mem a"
proof -
  assume n: "\<forall>k < 4. a \<noteq> pa + k"
  have "a \<noteq> pa + 0" "a \<noteq> pa + 1" "a \<noteq> pa + 2" "a \<noteq> pa + 3" by (rule n [rule_format], simp)+
  then show "host_store32 big w mem pa a = mem a" by (simp add: host_store32_def)
next
  assume n: "\<forall>k < 2. a \<noteq> pa + k"
  have "a \<noteq> pa + 0" "a \<noteq> pa + 1" by (rule n [rule_format], simp)+
  then show "host_store16 big h mem pa a = mem a" by (simp add: host_store16_def)
qed

lemma WriteMem_within:
  assumes "tlb m = None" "sz = 1 \<or> sz = 2 \<or> sz = 4"
    "WriteMem va sz v m = Inr (Done u m') \<or> WriteMem va sz v m = Inr (Trap exc m')"
  shows "within m m'"
proof -
  obtain r m1 where t: "Translate va sz True m = Inr (r, m1)"
    using assms(3) by (auto simp: WriteMem_def rbind_eq_Inr)
  show ?thesis
  proof (cases r)
    case (Inl e)
    with assms(3) t have "RaiseException va m1 = Inr m'" by (auto simp: WriteMem_def rbind_eq_Inr)
    then show ?thesis using RaiseException_within Translate_fault t Inl within_refl [OF assms(1)] by blast
  next
    case (Inr pa)
    from Translate_page [OF assms(1) t [unfolded Inr]] obtain pt i where
      p: "pageTable m = Some pt" "i < length pt" "valid (pt ! i)" "\<not> misaligned va sz"
        "m1 = m\<lparr>pageTable := Some (pt[i := (pt ! i)\<lparr>use := True, dirty := dirty (pt ! i) \<or> True\<rparr>])\<rparr>"
      and pa: "pa = unat (physicalPage (pt ! i)) * PageSize + unat va mod PageSize" .
    have w: "within m m1" unfolding p(5) by (rule within_marked [OF assms(1) p(1,2)])
    have own: "(pa + k) div PageSize \<in> own_frames m" if "k < sz" for k
      using in_frame [OF aligned_room [OF assms(2) p(4)] that] own_frame [OF p(1-3)] pa by simp
    have "\<exists>mem. m' = m1\<lparr>mainMemory := mem\<rparr> \<and> (\<forall>a. (\<forall>k < sz. a \<noteq> pa + k) \<longrightarrow> mem a = mainMemory m1 a)"
      using assms(2)
    proof (elim disjE)
      assume "sz = 1"
      then show ?thesis using assms(3) t Inr
        by (intro exI [of _ "(mainMemory m1)(pa := ucast (v AND 0xff))"]) (auto simp: WriteMem_def)
    next
      assume "sz = 2"
      then show ?thesis using assms(3) t Inr
        by (intro exI [of _ "host_store16 (hostBigEndian m1) (ShortToMachine (hostBigEndian m1) (ucast (v AND 0xffff))) (mainMemory m1) pa"])
           (auto simp: WriteMem_def host_store_outside)
    next
      assume "sz = 4"
      then show ?thesis using assms(3) t Inr
        by (intro exI [of _ "host_store32 (hostBigEndian m1) (WordToMachine (hostBigEndian m1) v) (mainMemory m1) pa"])
           (auto simp: WriteMem_def host_store_outside)
    qed
    then obtain mem where m': "m' = m1\<lparr>mainMemory := mem\<rparr>" "\<forall>a. (\<forall>k < sz. a \<noteq> pa + k) \<longrightarrow> mem a = mainMemory m1 a" by blast
    have "mem a = mainMemory m1 a" if "a div PageSize \<notin> own_frames m" for a
    proof (rule m'(2) [rule_format])
      show "a \<noteq> pa + k" if "k < sz" for k using own [OF that] \<open>a div PageSize \<notin> own_frames m\<close> by blast
    qed
    then show ?thesis using w m'(1) by (simp add: within_def cores_def)
  qed
qed

text \<open>Every way an instruction can end stays within the table.\<close>

definition ends_within :: "machine \<Rightarrow> 'a access result \<Rightarrow> bool" where
  "ends_within m r \<longleftrightarrow> (case r of Inl _ \<Rightarrow> True | Inr (Done _ m') \<Rightarrow> within m m' | Inr (Trap _ m') \<Rightarrow> within m m')"

lemma ends_within_Inl [intro!, simp]: "ends_within m (Inl e)"
  by (simp add: ends_within_def)

lemma ends_within_Done [simp]: "ends_within m (Inr (Done v m')) = within m m'"
  by (simp add: ends_within_def)

lemma ends_within_Trap [simp]: "ends_within m (Inr (Trap exc m')) = within m m'"
  by (simp add: ends_within_def)

lemma ends_within_if: "(c \<Longrightarrow> ends_within m x) \<Longrightarrow> (\<not> c \<Longrightarrow> ends_within m y) \<Longrightarrow> ends_within m (if c then x else y)"
  by simp

lemma ends_within_rbind: "(\<And>a. r = Inr a \<Longrightarrow> ends_within m (f a)) \<Longrightarrow> ends_within m (rbind r f)"
  by (cases r) auto

lemma ends_within_abind:
  assumes "ends_within m r" "\<And>a m1. within m m1 \<Longrightarrow> ends_within m (f a m1)"
  shows "ends_within m (abind r f)"
proof (cases r)
  case (Inr acc)
  with assms show ?thesis by (cases acc) (simp_all add: abind_def)
qed (simp add: abind_def)

lemma within_tlb: "within m m1 \<Longrightarrow> tlb m1 = None"
  by (simp add: within_def)

lemma ends_withinI:
  assumes "\<And>v m'. r = Inr (Done v m') \<Longrightarrow> within m m'" "\<And>exc m'. r = Inr (Trap exc m') \<Longrightarrow> within m m'"
  shows "ends_within m r"
proof (cases r)
  case (Inr acc)
  with assms show ?thesis by (cases acc) simp_all
qed simp

lemma ends_within_ReadMem: "within m m1 \<Longrightarrow> ends_within m (ReadMem va sz m1)"
  by (rule ends_withinI; rule within_trans, assumption, rule ReadMem_within [OF within_tlb]) auto

lemma ends_within_WriteMem: "within m m1 \<Longrightarrow> sz = 1 \<or> sz = 2 \<or> sz = 4 \<Longrightarrow> ends_within m (WriteMem va sz v m1)"
  by (rule ends_withinI; rule within_trans, assumption, rule WriteMem_within [OF within_tlb]) auto

lemma ends_within_set_reg:
  "within m m1 \<Longrightarrow> (\<And>m2. within m m2 \<Longrightarrow> ends_within m (f m2)) \<Longrightarrow> ends_within m (rbind (set_reg k v m1) f)"
  by (rule ends_within_rbind) (simp add: set_reg_within)

lemma ends_within_raise: "within m m1 \<Longrightarrow> ends_within m (raise exc a m1)"
  unfolding raise_def by (rule ends_within_rbind) (simp add: RaiseException_within)

lemma ends_within_put: "within m m1 \<Longrightarrow> ends_within m (put k v npc m1)"
  unfolding put_def by (rule ends_within_set_reg) (simp_all add: retire_def)

lemma ends_within_hi_lo: "within m m1 \<Longrightarrow> ends_within m (put_hi_lo h l npc m1)"
  unfolding put_hi_lo_def by (rule ends_within_set_reg) (simp_all add: ends_within_put)

lemmas ends_within_rules = ends_within_if ends_within_set_reg ends_within_abind ends_within_ReadMem ends_within_WriteMem
  ends_within_raise ends_within_put ends_within_hi_lo ends_within_rbind

lemma exec_cases_within:
  assumes "within m m1"
  shows "ends_within m (exec_add i a b npc m1)" "ends_within m (exec_branch i a b npc m1)"
    "ends_within m (exec_div i a b npc m1)" "ends_within m (exec_jump i npc m1)"
    "ends_within m (exec_move i a b npc m1)" "ends_within m (exec_shift i a b npc m1)"
    "ends_within m (exec_system i a b npc m1)"
  unfolding exec_add_def exec_branch_def exec_div_def exec_jump_def exec_move_def exec_shift_def exec_system_def
    Let_def branch_def case_prod_beta
  by (intro ends_within_rules assms ends_within_Inl; simp add: assms)+

lemma exec_memory_within:
  assumes "within m m1"
  shows "ends_within m (exec_load i a npc m1)" "ends_within m (exec_store i a b npc m1)"
  unfolding exec_load_def exec_store_def load_merged_def store_merged_def delay_load_def retire_def Let_def
  by (intro ends_within_rules assms ends_within_Inl; simp add: assms)+

lemma execute_within: "within m m1 \<Longrightarrow> ends_within m (execute i npc m1)"
  unfolding execute_def by (intro ends_within_rbind) (simp add: exec_cases_within exec_memory_within)

lemma OneInstruction_within:
  assumes "tlb m = None"
  shows "ends_within m (OneInstruction m)"
proof -
  have "ends_within m (finish_instruction x m1)" if "within m m1" for x m1
    unfolding finish_instruction_def case_prod_beta
    by (intro ends_within_rbind ends_within_set_reg) (use that in \<open>simp_all add: DelayedLoad_within\<close>)
  then show ?thesis
    unfolding OneInstruction_def using within_refl [OF assms]
    by (intro ends_within_rbind ends_within_abind ends_within_ReadMem execute_within)
qed

section \<open>The kernel leaves user memory alone\<close>

text \<open>What user programs see of the state, their registers apart.\<close>

definition mview :: "'z ksys \<Rightarrow> machine option \<times> (nat \<Rightarrow> AddrSpace option) \<times> nat option \<times> 'z" where
  "mview s = (map_option (\<lambda>m. m\<lparr>registers := []\<rparr>) (mach s), spaces s, loaded s, thread_sys.more s)"

lemma mview_more:
  assumes "device_sys.more s' = device_sys.more s" "mach s' = mach s"
  shows "mview s' = mview s"
proof -
  have "s' = s\<lparr>level := level s', pending := pending s', inHandler := inHandler s', yieldOnReturn := yieldOnReturn s',
      status := status s', stats := stats s', mach := mach s', timer_randomize := timer_randomize s',
      random_values := random_values s', random_pos := random_pos s', disk := disk s', console := console s',
      network := network s'\<rparr>"
    by (rule device_sys.equality) (use assms in simp_all)
  note e = arg_cong [OF this]
  show ?thesis using e [of spaces] e [of loaded] e [of thread_sys.more] assms(2) by (simp add: mview_def)
qed

lemma mview_DelayedLoad: "DelayedLoad r v m = Inr m' \<Longrightarrow> m'\<lparr>registers := []\<rparr> = m\<lparr>registers := []\<rparr>"
  by (auto simp: DelayedLoad_def set_reg_def rbind_eq_Inr)

lemma mview_notify: "kernel_notify e s = Inr s' \<Longrightarrow> mview s' = mview s"
  by (auto simp: kernel_notify_def mview_def put_sem_def split: option.splits elim!: V_core_cases)

interpretation view_kept: kept_by_kernel kernel_notify "\<lambda>s. mview s = w"
proof unfold_locales
  fix s s' :: "'a ksys"
  assume "mview s = w" "machine_DelayedLoad s = Inr s'"
  then show "mview s' = w"
    by (auto simp: machine_DelayedLoad_def rbind_eq_Inr mview_def dest!: mview_DelayedLoad split: option.splits)
next
  fix s s' :: "'a ksys"
  assume "device_sys.more s' = device_sys.more s" "mach s' = mach s"
  then have "mview s' = mview s" by (rule mview_more)
  then show "(mview s' = w) = (mview s = w)" by simp
next
  fix e and s s' :: "'a ksys"
  assume "mview s = w" "kernel_notify e s = Inr s'"
  then show "mview s' = w" using mview_notify by metis
qed

lemma upd_thread_view: "upd_thread t f s = Inr s' \<Longrightarrow> mview s' = mview s"
  by (auto simp: upd_thread_Inr mview_def)

lemma mview_fields [simp]:
  "mview (s\<lparr>threads := T\<rparr>) = mview s" "mview (s\<lparr>readyList := R\<rparr>) = mview s" "mview (s\<lparr>status := m\<rparr>) = mview s"
  "mview (s\<lparr>level := l\<rparr>) = mview s" "mview (s\<lparr>currentThread := c\<rparr>) = mview s"
  "mview (s\<lparr>threadToBeDestroyed := d\<rparr>) = mview s" "mview (s\<lparr>activeThreads := A\<rparr>) = mview s"
  "mview (put_sem x sm s) = mview s" "mview (s\<lparr>stats := w\<rparr>) = mview s"
  by (simp_all add: mview_def put_sem_def)

lemma SaveUserState_view: "SaveUserState t s = Inr s' \<Longrightarrow> mview s' = mview s"
  by (auto simp: SaveUserState_def rbind_eq_Inr dest: upd_thread_view split: if_splits)

lemma Run_view: "Run n s = Inr s' \<Longrightarrow> mview s' = mview s"
  by (auto simp: Run_def Run_out_def Let_def rbind_eq_Inr push_frame_def setStatus_def SaveState_def
      split: option.splits dest!: upd_thread_view SaveUserState_view)

lemma FindNextToRun_view: "FindNextToRun s = (r, s') \<Longrightarrow> mview s' = mview s"
  by (auto simp: FindNextToRun_def Let_def split: prod.splits)

lemma ReadyToRun_view: "ReadyToRun t s = Inr s' \<Longrightarrow> mview s' = mview s"
  by (auto simp: ReadyToRun_Inr)

lemma Yield_view:
  assumes "Yield t s = Inr s'"
  shows "mview s' = mview s"
proof -
  obtain lv s2 where p: "push_frame t (Yield_ret lv) (s\<lparr>level := IntOff\<rparr>) = Inr s2"
    and c: "(case FindNextToRun s2 of (None, s3) \<Rightarrow> Inr s3 | (Some n, s3) \<Rightarrow> rbind (ReadyToRun t s3) (Run n)) = Inr s'"
    using assms unfolding Yield_def rbind_eq_Inr SetLevel_IntOff split_paired_Ex case_prod_conv by (elim exE conjE) (simp add: that)
  obtain r s3 where f: "FindNextToRun s2 = (r, s3)" by fastforce
  have "mview s3 = mview s" using FindNextToRun_view [OF f] upd_thread_view [OF p [unfolded push_frame_def]] by simp
  moreover have "mview s' = mview s3"
    using c f by (auto simp: rbind_eq_Inr split: option.splits dest!: ReadyToRun_view Run_view)
  ultimately show ?thesis by simp
qed

lemma time_slice_view: "time_slice b s = Inr s' \<Longrightarrow> mview s' = mview s"
  by (auto simp: time_slice_def Let_def rbind_eq_Inr push_frame_def split: if_splits dest!: Yield_view upd_thread_view)

lemma tick_view: "tick s = Inr s' \<Longrightarrow> mview s' = mview s"
  by (auto simp: tick_def rbind_eq_Inr dest!: time_slice_view view_kept.OneTick_inv [OF refl])

lemma set_level_view: "set_level l s = Inr s' \<Longrightarrow> mview s' = mview s"
  by (auto simp: set_level_def rbind_eq_Inr dest!: time_slice_view view_kept.SetLevel_inv [OF refl])

lemma Sleep_view: "Sleep t s = Inr s' \<Longrightarrow> mview s' = mview s"
  by (auto simp: Sleep_Inr push_frame_def dest!: upd_thread_view)

lemma Fork_view: "Fork t f a s = Inr s' \<Longrightarrow> mview s' = mview s"
  by (auto simp: Fork_def StackAllocate_def rbind_eq_Inr SetLevel_IntOff
      dest!: upd_thread_view ReadyToRun_view set_level_view)

lemma sleep_round_view:
  assumes "sleep_round s = Inr s'"
  shows "mview s' = mview s"
proof -
  obtain r s1 where f: "FindNextToRun s = (r, s1)" by fastforce
  have "mview s' = mview s1"
    using assms f by (auto simp: sleep_round_def rbind_eq_Inr push_frame_def split: option.splits if_splits
      dest!: Run_view upd_thread_view view_kept.Idle_inv [OF refl])
  then show ?thesis using FindNextToRun_view [OF f] by simp
qed

lemma destroy_finished_view: "destroy_finished s = Inr s' \<Longrightarrow> mview s' = mview s"
  by (auto simp: destroy_finished_def delete_thread_def rbind_eq_Inr split: option.splits)

lemma Finish_view: "Finish t s = Inr s' \<Longrightarrow> mview s' = mview s"
  by (auto simp: Finish_def Let_def rbind_eq_Inr SetLevel_IntOff push_frame_def WakeUpFromJoin_def split: option.splits
      dest!: upd_thread_view Sleep_view)

lemma P_loop_view: "P_loop x l s = Inr s' \<Longrightarrow> mview s' = mview s"
  by (auto simp: P_loop_def Let_def rbind_eq_Inr push_frame_def split: if_splits
      dest!: upd_thread_view Sleep_view set_level_view)

lemma find_id_view: "find_id n g f s = Inr (r, s') \<Longrightarrow> mview s' = mview s"
  by (induction n arbitrary: f s) (auto simp: Let_def rbind_eq_Inr split: prod.splits option.splits)

lemma getID_view: "getID g s = Inr (r, s') \<Longrightarrow> mview s' = mview s"
  unfolding getID_def by (rule find_id_view)

lemma the_id_view: "the_id g s = Inr (r, s') \<Longrightarrow> mview s' = mview s"
  by (auto simp: the_id_def rbind_eq_Inr split: option.splits dest!: getID_view)

lemma SC_Join_view:
  assumes "SC_Join k s = Inr s'"
  shows "mview s' = mview s"
proof (cases "k < 0")
  case False
  let ?c = "currentThread s"
  have "rbind (getID k s) (\<lambda>(r, s1). case r of None \<Rightarrow> Inr s1
       | Some _ \<Rightarrow> rbind (get_thread ?c s1) (\<lambda>th. if isJoined th then Inr s1
           else rbind (the_id k s1) (\<lambda>(_, s2). rbind (the_id k s2) (\<lambda>(child, s3).
             rbind (upd_thread child (\<lambda>t. t\<lparr>parent := Some ?c\<rparr>) s3) (\<lambda>s4.
             rbind (upd_thread ?c (\<lambda>t. t\<lparr>isJoined := True\<rparr>) s4) (\<lambda>s5.
             rbind (SetLevel kernel_call IntOff s5) (\<lambda>(_, _, s6). Sleep ?c s6))))))) = Inr s'"
    using assms False by (simp add: SC_Join_def Let_def)
  then show ?thesis
  proof (rule Inr_rbind_pairE)
    fix r s1 assume g: "getID k s = Inr (r, s1)" and c: "(case r of None \<Rightarrow> Inr s1
       | Some _ \<Rightarrow> rbind (get_thread ?c s1) (\<lambda>th. if isJoined th then Inr s1
           else rbind (the_id k s1) (\<lambda>(_, s2). rbind (the_id k s2) (\<lambda>(child, s3).
             rbind (upd_thread child (\<lambda>t. t\<lparr>parent := Some ?c\<rparr>) s3) (\<lambda>s4.
             rbind (upd_thread ?c (\<lambda>t. t\<lparr>isJoined := True\<rparr>) s4) (\<lambda>s5.
             rbind (SetLevel kernel_call IntOff s5) (\<lambda>(_, _, s6). Sleep ?c s6))))))) = Inr s'"
    have "mview s' = mview s1" using c
      by (auto simp: rbind_eq_Inr SetLevel_IntOff split: option.splits if_splits dest!: the_id_view upd_thread_view Sleep_view)
    then show ?thesis using getID_view [OF g] by simp
  qed
qed (use assms in \<open>simp add: SC_Join_def\<close>)

end
