(* ===== verification/User_Isolation.thy ===== *)
theory User_Isolation
  imports User_Memory
begin

text \<open>
  Which memory a user program can reach. \<open>mem_ok\<close> says that every frame a page table maps is marked in the
  frame map and belongs to one page of one address space. Every step of the system keeps it, and keeps the frame
  and the bytes of every page of the address spaces the step does not run in (\<open>isolated\<close>), until an address
  space is deleted: \<^verbatim>\<open>~AddrSpace\<close> clears the frame map of all of them.
\<close>

section \<open>Frames and their owners\<close>

text \<open>The frame of a virtual page of an address space, and the frame with its contents.\<close>

definition frame_of :: "nat \<Rightarrow> nat \<Rightarrow> 'z ksys \<Rightarrow> nat option" where
  "frame_of a v s = (case space_table a s of None \<Rightarrow> None
     | Some pt \<Rightarrow> if v < length pt \<and> valid (pt ! v) then Some (unat (physicalPage (pt ! v))) else None)"

definition page_of :: "nat \<Rightarrow> nat \<Rightarrow> 'z ksys \<Rightarrow> (nat \<times> byte list) option" where
  "page_of a v s = (case mach s of None \<Rightarrow> None | Some m \<Rightarrow> map_option (\<lambda>f. (f, frame_bytes m f)) (frame_of a v s))"

definition private_frames :: "'z usys \<Rightarrow> bool" where
  "private_frames s \<longleftrightarrow> (\<forall>a v f. frame_of a v s = Some f \<longrightarrow> f \<in> marked (bitMap s))
     \<and> (\<forall>a b v w f. frame_of a v s = Some f \<and> frame_of b w s = Some f \<longrightarrow> a = b \<and> v = w)"

definition mem_ok :: "'z usys \<Rightarrow> bool" where
  "mem_ok s \<longleftrightarrow> bm_wf (bitMap s) \<and> numBits (bitMap s) = NumPhysPages \<and> private_frames s
     \<and> (\<exists>m. mach s = Some m \<and> tlb m = None \<and> (loaded s = None \<longrightarrow> pageTable m = None))
     \<and> (\<forall>a. loaded s = Some a \<longrightarrow> spaces s a \<noteq> None)"

text \<open>What a step may touch: the address space the machine has and that of the current thread.\<close>

definition touch :: "'z usys \<Rightarrow> nat set" where
  "touch s = {a. loaded s = Some a \<or> (\<exists>th. threads s (currentThread s) = Some th \<and> space th = Some a)}"

definition isolated :: "nat set \<Rightarrow> 'z usys \<Rightarrow> 'z usys \<Rightarrow> bool" where
  "isolated B s s' \<longleftrightarrow> (\<forall>b v x. b \<notin> B \<longrightarrow> page_of b v s = Some x \<longrightarrow> page_of b v s' = Some x)"

definition mok :: "'z usys \<Rightarrow> 'z usys \<Rightarrow> bool" where
  "mok s s' \<longleftrightarrow> mem_ok s' \<and> isolated (touch s) s s' \<and> touch s' = touch s \<and> dom (spaces s') = dom (spaces s)"

lemma isolated_trans: "isolated B s s1 \<Longrightarrow> isolated B s1 s2 \<Longrightarrow> isolated B s s2"
  by (auto simp: isolated_def)

lemma mok_refl: "mem_ok s \<Longrightarrow> mok s s"
  by (simp add: mok_def isolated_def)

lemma mokD: "mok s s' \<Longrightarrow> mem_ok s'"
  by (simp add: mok_def)

lemma mok_trans: "mok s s1 \<Longrightarrow> mok s1 s2 \<Longrightarrow> mok s s2"
  by (auto simp: mok_def intro: isolated_trans)

text \<open>The part of the state these notions depend on.\<close>

definition same_mem :: "'z usys \<Rightarrow> 'z usys \<Rightarrow> bool" where
  "same_mem s s' \<longleftrightarrow> map_option (\<lambda>m. m\<lparr>registers := []\<rparr>) (mach s') = map_option (\<lambda>m. m\<lparr>registers := []\<rparr>) (mach s)
     \<and> spaces s' = spaces s \<and> loaded s' = loaded s \<and> bitMap s' = bitMap s"

lemma same_mem_trans: "same_mem s s1 \<Longrightarrow> same_mem s1 s2 \<Longrightarrow> same_mem s s2"
  by (simp add: same_mem_def)

lemma mview_same_mem:
  assumes "mview s' = mview s"
  shows "same_mem s s'"
proof -
  have "bitMap s' = bitMap s" using assms by (cases s; cases s') (simp add: mview_def)
  then show ?thesis using assms by (simp add: mview_def same_mem_def)
qed

lemma regs_off:
  assumes "map_option (\<lambda>m. m\<lparr>registers := []\<rparr>) x' = map_option (\<lambda>m. m\<lparr>registers := []\<rparr>) x"
  obtains "x' = None" "x = None" | m m' where "x = Some m" "x' = Some m'" "pageTable m' = pageTable m" "tlb m' = tlb m"
    "mainMemory m' = mainMemory m" "hostBigEndian m' = hostBigEndian m" "pageTableSize m' = pageTableSize m"
proof (cases x)
  case None
  then show ?thesis using assms that(1) by simp
next
  case (Some m)
  then obtain m' where m': "x' = Some m'" "m'\<lparr>registers := []\<rparr> = m\<lparr>registers := []\<rparr>" using assms by auto
  note e = arg_cong [OF m'(2)]
  show ?thesis
    by (rule that(2) [OF Some m'(1)])
       (use e [of pageTable] e [of tlb] e [of mainMemory] e [of hostBigEndian] e [of pageTableSize] in simp_all)
qed

lemma same_mem_pages:
  assumes "same_mem s s'"
  shows "space_table a s' = space_table a s" "frame_of a v s' = frame_of a v s" "page_of a v s' = page_of a v s"
    "mem_ok s' = mem_ok s"
proof -
  have o: "spaces s' = spaces s" "loaded s' = loaded s" "bitMap s' = bitMap s" using assms by (simp_all add: same_mem_def)
  have t: "space_table a s' = space_table a s" for a
    using assms [unfolded same_mem_def, THEN conjunct1] by (rule regs_off) (simp_all add: space_table_def o split: option.splits)
  then show "space_table a s' = space_table a s" .
  have f: "frame_of a v s' = frame_of a v s" for a v by (simp add: frame_of_def t)
  then show "frame_of a v s' = frame_of a v s" .
  show "page_of a v s' = page_of a v s"
    using assms [unfolded same_mem_def, THEN conjunct1] by (rule regs_off) (simp_all add: page_of_def f frame_bytes_def)
  show "mem_ok s' = mem_ok s"
    using assms [unfolded same_mem_def, THEN conjunct1] by (rule regs_off) (simp_all add: mem_ok_def private_frames_def f o)
qed

lemma same_mem_isolated: "same_mem s s' \<Longrightarrow> isolated B s s'"
  by (simp add: isolated_def same_mem_pages)

section \<open>Instructions and page faults\<close>

lemma frame_bytes_cong: "(\<And>i. i div PageSize = f \<Longrightarrow> mainMemory m' i = mainMemory m i) \<Longrightarrow> frame_bytes m' f = frame_bytes m f"
  by (auto simp: frame_bytes_def size_defs)

lemma space_table_loaded: "loaded s = Some a \<Longrightarrow> mach s = Some m \<Longrightarrow> space_table a s = pageTable m"
  by (simp add: space_table_def)

lemma space_table_other: "loaded s \<noteq> Some a \<Longrightarrow> space_table a s = Option.bind (spaces s a) as_pageTable"
  by (auto simp: space_table_def split: option.splits)

lemma private_framesD:
  assumes "mem_ok s" "frame_of a v s = Some f"
  shows "f \<in> marked (bitMap s)" "frame_of b w s = Some f \<Longrightarrow> a = b" "frame_of b w s = Some f \<Longrightarrow> v = w"
  using assms unfolding mem_ok_def private_frames_def by blast+

lemma own_frames_loaded:
  assumes "mem_ok s" "mach s = Some m" "f \<in> own_frames m"
  obtains a v where "loaded s = Some a" "frame_of a v s = Some f"
proof -
  obtain pt e where e: "pageTable m = Some pt" "e \<in> set pt" "valid e" "unat (physicalPage e) = f"
    using assms(3) by (auto simp: own_frames_def)
  then obtain a where a: "loaded s = Some a" using assms(1,2) by (cases "loaded s") (auto simp: mem_ok_def)
  from e(2) obtain v where "v < length pt" "pt ! v = e" by (auto simp: in_set_conv_nth)
  then have "frame_of a v s = Some f" using space_table_loaded [OF a assms(2)] e by (simp add: frame_of_def)
  with a show ?thesis by (rule that)
qed

lemma entry_core_frames:
  assumes "map entry_core pt' = map entry_core pt"
  shows "length pt' = length pt" "v < length pt \<Longrightarrow> valid (pt' ! v) = valid (pt ! v)"
    "v < length pt \<Longrightarrow> physicalPage (pt' ! v) = physicalPage (pt ! v)"
proof -
  show l: "length pt' = length pt" using assms by (rule map_eq_imp_length_eq)
  have "entry_core (pt' ! v) = entry_core (pt ! v)" if "v < length pt" for v
    using arg_cong [OF assms, of "\<lambda>l. l ! v"] that l by simp
  then show "v < length pt \<Longrightarrow> valid (pt' ! v) = valid (pt ! v)"
    "v < length pt \<Longrightarrow> physicalPage (pt' ! v) = physicalPage (pt ! v)" by (auto simp: entry_core_def)
qed

lemma within_frame_of:
  assumes "mach s = Some m" "cores m' = cores m"
  shows "frame_of a v (s\<lparr>mach := Some m'\<rparr>) = frame_of a v s"
proof (cases "loaded s = Some a")
  case True
  then have t: "space_table a (s\<lparr>mach := Some m'\<rparr>) = pageTable m'" "space_table a s = pageTable m"
    using assms(1) by (simp_all add: space_table_def)
  show ?thesis
  proof (cases "pageTable m")
    case None
    then have "pageTable m' = None" using assms(2) by (simp add: cores_def)
    then show ?thesis using None by (simp add: frame_of_def t)
  next
    case (Some pt)
    obtain pt' where pt': "pageTable m' = Some pt'" "map entry_core pt' = map entry_core pt" using cores_Some [OF assms(2) Some] by blast
    show ?thesis using pt'(1) Some entry_core_frames(1) [OF pt'(2)] entry_core_frames(2,3) [OF pt'(2), of v]
      by (auto simp: frame_of_def t)
  qed
qed (simp add: frame_of_def space_table_other)

lemma within_mok:
  assumes "mem_ok s" "mach s = Some m" "within m m'"
  shows "mok s (s\<lparr>mach := Some m'\<rparr>)"
proof -
  let ?s = "s\<lparr>mach := Some m'\<rparr>"
  note w = assms(3) [unfolded within_def]
  have f: "frame_of a v ?s = frame_of a v s" for a v using within_frame_of [OF assms(2)] w by blast
  have "pageTable m = None \<longrightarrow> pageTable m' = None" using w by (auto simp: cores_def)
  then have "mem_ok ?s" using assms(1,2) w f by (auto simp: mem_ok_def private_frames_def)
  moreover have "page_of b v ?s = Some x" if "b \<notin> touch s" and p: "page_of b v s = Some x" for b v x
  proof -
    obtain g where g: "frame_of b v s = Some g" "x = (g, frame_bytes m g)" using p assms(2) by (auto simp: page_of_def)
    have "g \<notin> own_frames m"
    proof
      assume "g \<in> own_frames m"
      then obtain a u where "loaded s = Some a" "frame_of a u s = Some g" by (rule own_frames_loaded [OF assms(1,2)])
      with private_framesD(2) [OF assms(1) _ g(1)] have "a = b" "loaded s = Some a" by blast+
      then show False using \<open>b \<notin> touch s\<close> by (simp add: touch_def)
    qed
    then have "frame_bytes m' g = frame_bytes m g" using w by (intro frame_bytes_cong) auto
    then show ?thesis using g f by (simp add: page_of_def)
  qed
  ultimately show ?thesis by (simp add: mok_def isolated_def touch_def)
qed

lemma put_table_frame:
  assumes "spaces s a \<noteq> None"
  shows "space_table a (put_table a pt s) = Some pt" "b \<noteq> a \<Longrightarrow> space_table b (put_table a pt s) = space_table b s"
    "bitMap (put_table a pt s) = bitMap s" "loaded (put_table a pt s) = loaded s"
    "dom (spaces (put_table a pt s)) = dom (spaces s)" "threads (put_table a pt s) = threads s"
    "currentThread (put_table a pt s) = currentThread s"
    "mach s = Some m \<Longrightarrow> \<exists>m'. mach (put_table a pt s) = Some m' \<and> mainMemory m' = mainMemory m \<and> tlb m' = tlb m
       \<and> (loaded s = None \<longrightarrow> pageTable m' = pageTable m) \<and> registers m' = registers m"
  using assms by (auto simp: put_table_def space_table_def split: option.splits if_splits)

lemma space_table_cong:
  "spaces s' = spaces s \<Longrightarrow> loaded s' = loaded s \<Longrightarrow> mach s' = mach s \<Longrightarrow> space_table a s' = space_table a s"
  by (simp add: space_table_def split: option.splits)

lemma load_frame_fields [simp]:
  "pageTable (load_frame f bs m) = pageTable m" "tlb (load_frame f bs m) = tlb m" "registers (load_frame f bs m) = registers m"
  by (simp_all add: load_frame_def)

lemma frame_bytes_load_other:
  assumes "length bs \<le> PageSize" "g \<noteq> f"
  shows "frame_bytes (load_frame f bs m) g = frame_bytes m g"
proof (rule frame_bytes_cong)
  fix i assume "i div PageSize = g"
  then have "i div PageSize \<noteq> f" using assms(2) by simp
  then have "\<not> (f * PageSize \<le> i \<and> i < f * PageSize + length bs)"
    using assms(1) by (intro notI) (simp add: div_nat_eqI size_defs)
  then show "mainMemory (load_frame f bs m) i = mainMemory m i" unfolding load_frame_def by auto
qed

lemma stub_ReadAt_length: "stub_ReadAt nm into n p s = Inr bs \<Longrightarrow> length bs = length into"
  by (auto simp: stub_ReadAt_def rbind_eq_Inr Let_def split: if_splits)

lemma length_frame_bytes [simp]: "length (frame_bytes m f) = PageSize"
  by (simp add: frame_bytes_def)

lemma case_option_Inr: "(case x of None \<Rightarrow> Inl e | Some y \<Rightarrow> f y) = Inr r \<longleftrightarrow> (\<exists>y. x = Some y \<and> f y = Inr r)"
  by (cases x) auto

lemma get_space_Inr: "get_space a s = Inr sp \<longleftrightarrow> spaces s a = Some sp"
  by (auto simp: get_space_def split: option.splits)

lemma the_machine_Inr: "the_machine s = Inr m \<longleftrightarrow> mach s = Some m"
  by (auto simp: the_machine_def split: option.splits)

lemma load_page_cases:
  assumes "load_page f v s = Inr s'"
  obtains th a sp nm m bs pt s1 where "threads s (currentThread s) = Some th" "space th = Some a" "spaces s a = Some sp"
    "swapFileName sp = Some nm" "stub_Open nm s = Inr (Some nm)" "mach s = Some m" "0 \<le> f" "0 \<le> v" "nat v < length pt"
    "stub_ReadAt nm (frame_bytes m (nat f)) (int PageSize) (v * int PageSize) s = Inr bs"
    "s1 = s\<lparr>IPT := (IPT s)[nat f := Some (currentThread s)], IPT_VP := (IPT_VP s)[nat f := v],
       mach := Some (load_frame (nat f) bs m)\<rparr>"
    "space_table a s = Some pt" "nat f < length (IPT s)" "nat f < length (IPT_VP s)"
    "s' = put_table a (pt[nat v := (pt ! nat v)\<lparr>physicalPage := word_of_int f, valid := True\<rparr>]) s1"
proof -
  obtain th a sp nm h ipt vps m bs where
    l: "threads s (currentThread s) = Some th" "space th = Some a" "spaces s a = Some sp" "swapFileName sp = Some nm"
      "stub_Open nm s = Inr (Some h)" "array_set_int (IPT s) f (Some (currentThread s)) = Inr ipt"
      "array_set_int (IPT_VP s) f v = Inr vps" "mach s = Some m"
      "stub_ReadAt h (frame_bytes m (nat f)) (int PageSize) (v * int PageSize) s = Inr bs"
      "map_page a v f (s\<lparr>IPT := ipt, IPT_VP := vps, mach := Some (load_frame (nat f) bs m)\<rparr>) = Inr s'"
    using assms by (auto simp: load_page_def Let_def rbind_eq_Inr get_space_Inr the_machine_Inr case_option_Inr)
  have h: "h = nm" using l(5) by (auto simp: stub_Open_def rbind_eq_Inr split: if_splits)
  let ?s1 = "s\<lparr>IPT := ipt, IPT_VP := vps, mach := Some (load_frame (nat f) bs m)\<rparr>"
  have i: "0 \<le> f" "nat f < length (IPT s)" "nat f < length (IPT_VP s)" "ipt = (IPT s)[nat f := Some (currentThread s)]"
    "vps = (IPT_VP s)[nat f := v]"
    using l(6,7) by (auto simp: array_set_int_def array_set_eq_Inr split: if_splits)
  have "space_table a ?s1 = space_table a s" using l(8) by (simp add: space_table_def split: option.splits)
  with l(10) obtain pt where p: "space_table a s = Some pt" "0 \<le> v" "nat v < length pt"
    "s' = put_table a (pt[nat v := (pt ! nat v)\<lparr>physicalPage := word_of_int f, valid := True\<rparr>]) ?s1"
    by (auto simp: map_page_def rbind_eq_Inr array_get_int_def array_set_int_def array_get_eq_Inr array_set_eq_Inr
        case_option_Inr split: if_splits)
  from that [OF l(1-4) l(5) [unfolded h] l(8) i(1) p(2,3) l(9) [unfolded h] _ p(1) i(2,3)] p(4) i(4,5) show ?thesis by simp
qed

lemma load_page_mok:
  assumes ok: "mem_ok s" and free: "f \<notin> marked (bitMap s)" "f < NumPhysPages"
    and bm: "bm_wf bm" "numBits bm = NumPhysPages" "marked bm = insert f (marked (bitMap s))"
    and l: "load_page (int f) v (s\<lparr>bitMap := bm\<rparr>) = Inr s'"
  shows "mok s s'"
  using l
proof (rule load_page_cases)
  fix th a sp nm m bs s1 and pt :: "TranslationEntry list"
  let ?e = "(pt ! nat v)\<lparr>physicalPage := word_of_int (int f), valid := True\<rparr>"
  assume p: "threads (s\<lparr>bitMap := bm\<rparr>) (currentThread (s\<lparr>bitMap := bm\<rparr>)) = Some th" "space th = Some a"
    "spaces (s\<lparr>bitMap := bm\<rparr>) a = Some sp" "mach (s\<lparr>bitMap := bm\<rparr>) = Some m" "nat v < length pt"
    "stub_ReadAt nm (frame_bytes m (nat (int f))) (int PageSize) (v * int PageSize) (s\<lparr>bitMap := bm\<rparr>) = Inr bs"
    "s1 = s\<lparr>bitMap := bm, IPT := (IPT (s\<lparr>bitMap := bm\<rparr>))[nat (int f) := Some (currentThread (s\<lparr>bitMap := bm\<rparr>))],
      IPT_VP := (IPT_VP (s\<lparr>bitMap := bm\<rparr>))[nat (int f) := v], mach := Some (load_frame (nat (int f)) bs m)\<rparr>"
    "space_table a (s\<lparr>bitMap := bm\<rparr>) = Some pt" "s' = put_table a (pt[nat v := ?e]) s1"
  have m: "mach s = Some m" and t: "space_table a s = Some pt"
    using p(4,8) space_table_cong [of "s\<lparr>bitMap := bm\<rparr>" s a] by simp_all
  have sa: "spaces s1 a \<noteq> None" using p(3,7) by simp
  note q = put_table_frame [OF sa, where pt = "pt[nat v := ?e]", folded p(9)]
  have m1: "mach s1 = Some (load_frame f bs m)" using p(7) by simp
  obtain m' where m': "mach s' = Some m'" "mainMemory m' = mainMemory (load_frame f bs m)" "tlb m' = tlb m"
    "loaded s1 = None \<longrightarrow> pageTable m' = pageTable m" using q(8) [OF m1] by auto
  have lf: "length bs \<le> PageSize" using stub_ReadAt_length [OF p(6)] by simp
  have uf: "unat (word_of_int (int f) :: word32) = f" using free(2) by (simp add: unat_of_nat size_defs)
  have fr: "frame_of b w s' = (if b = a \<and> w = nat v then Some f else frame_of b w s)" for b w
  proof (cases "b = a")
    case True
    then show ?thesis using q(1) t p(5) uf by (auto simp: frame_of_def nth_list_update)
  next
    case False
    have "space_table b s1 = space_table b s" using p(7) m by (simp add: space_table_def split: option.splits)
    then show ?thesis using q(2) [OF False] False by (simp add: frame_of_def)
  qed
  have bms: "bitMap s' = bm" using q(3) p(7) by simp
  have "private_frames s'"
    unfolding private_frames_def fr bms bm(3) using private_framesD [OF ok] free(1) by (auto split: if_splits)
  then have "mem_ok s'" using ok bms bm(1,2) m' q(4,5) p(7) m by (auto simp: mem_ok_def)
  moreover have "page_of b w s' = Some x" if bt: "b \<notin> touch s" and pg: "page_of b w s = Some x" for b w x
  proof -
    obtain g where g: "frame_of b w s = Some g" "x = (g, frame_bytes m g)" using pg m by (auto simp: page_of_def)
    have "a \<in> touch s" using p(1,2) by (simp add: touch_def)
    then have "b \<noteq> a" using bt by auto
    have "g \<noteq> f" using private_framesD(1) [OF ok g(1)] free(1) by auto
    then have "frame_bytes m' g = frame_bytes m g"
      using frame_bytes_load_other [OF lf, of g f m] m'(2) by (simp add: frame_bytes_def)
    then show ?thesis using g fr \<open>b \<noteq> a\<close> m'(1) by (simp add: page_of_def)
  qed
  moreover have "touch s' = touch s" using q(4,6,7) p(7) by (simp add: touch_def)
  ultimately show ?thesis using q(5) p(7) by (simp add: mok_def isolated_def)
qed

lemma evict_page_same_mem:
  assumes "evict_page env s = Inr s'"
  shows "same_mem s s'" "threads s' = threads s" "currentThread s' = currentThread s"
  using assms
  by (auto simp: evict_page_def Let_def rbind_eq_Inr Random_def same_mem_def case_option_Inr split: if_splits prod.splits)

lemma same_mem_mok:
  assumes "same_mem s s'" "threads s' = threads s" "currentThread s' = currentThread s" "mem_ok s"
  shows "mok s s'"
proof -
  have "spaces s' = spaces s" "loaded s' = loaded s" using assms(1) by (simp_all add: same_mem_def)
  then show ?thesis using assms same_mem_pages(4) [OF assms(1)] same_mem_isolated [OF assms(1)] by (simp add: mok_def touch_def)
qed

lemma PageFault_mok:
  assumes "mem_ok s" "PageFault env s = Inr s'"
  shows "mok s s'"
proof -
  let ?s0 = "s\<lparr>stats := (stats s)\<lparr>numPageFaults := numPageFaults (stats s) + 1\<rparr>\<rparr>"
  have s0: "mok s ?s0" by (rule same_mem_mok) (simp_all add: assms(1) same_mem_def)
  then have ok: "mem_ok ?s0" by (simp add: mok_def)
  have b: "bm_wf (bitMap ?s0)" "numBits (bitMap ?s0) = NumPhysPages" using assms(1) by (simp_all add: mem_ok_def)
  obtain f bm v where f: "Find (bitMap ?s0) = Inr (f, bm)"
    and c: "(if f = - 1 then evict_page env (?s0\<lparr>bitMap := bm\<rparr>) else load_page f v (?s0\<lparr>bitMap := bm\<rparr>)) = Inr s'"
    using assms(2) unfolding PageFault_def Let_def by (auto simp: rbind_eq_Inr)
  have "mok ?s0 s'"
  proof (cases "marked (bitMap ?s0) = {..<numBits (bitMap ?s0)}")
    case True
    from bm.find_full [OF b(1) this] f have "f = - 1" "bm = bitMap ?s0" by auto
    then have "evict_page env ?s0 = Inr s'" using c by simp
    from evict_page_same_mem [OF this] show ?thesis by (intro same_mem_mok ok)
  next
    case False
    from bm.find_free [OF b(1) this] f obtain i where
      i: "f = int i" "bm_wf bm" "numBits bm = NumPhysPages" "i < NumPhysPages" "i \<notin> marked (bitMap ?s0)"
        "marked bm = insert i (marked (bitMap ?s0))" using b(2) by auto
    then show ?thesis using c by (intro load_page_mok [OF ok i(5,4,2,3,6)]) simp
  qed
  with s0 show ?thesis by (rule mok_trans)
qed

text \<open>An exception that deletes the address space is the only one that can break the invariant.\<close>

definition kept :: "'z usys \<Rightarrow> 'z usys \<Rightarrow> bool" where
  "kept s s' \<longleftrightarrow> dom (spaces s) \<subseteq> dom (spaces s')"

definition mends :: "'a nested \<Rightarrow> 'z usys \<Rightarrow> 'z usys \<Rightarrow> bool" where
  "mends r s s' \<longleftrightarrow> (r \<noteq> Gone \<longrightarrow> mok s s')
     \<and> (r = Gone \<longrightarrow> kept s s' \<longrightarrow> mem_ok s' \<and> isolated (touch s) s s')"

lemma mends_step:
  assumes "mends r1 s s1" "r1 = Gone \<Longrightarrow> r = Gone \<and> s' = s1" "r1 \<noteq> Gone \<Longrightarrow> mem_ok s1 \<Longrightarrow> r \<noteq> Gone \<and> s' = s1 \<or> mends r s1 s'"
  shows "mends r s s'"
proof (cases "r1 = Gone")
  case True
  with assms(1,2) show ?thesis by (simp add: mends_def)
next
  case False
  then have o: "mok s s1" using assms(1) by (simp add: mends_def)
  then have "mends r s s'" if "mends r s1 s'"
    using that by (auto simp: mends_def kept_def mok_def intro: isolated_trans)
  moreover have "mem_ok s1" using o by (simp add: mok_def)
  ultimately show ?thesis using assms(3) [OF False] o by (auto simp: mends_def)
qed

lemma mends_cong: "mends (r :: 'a nested) s s' \<Longrightarrow> (r' = Gone \<longleftrightarrow> r = Gone) \<Longrightarrow> mends (r' :: 'b nested) s s'"
  by (simp add: mends_def)

lemma delete_space_not_kept:
  assumes "delete_space a s = Inr s'" "mview s'' = mview s'"
  shows "\<not> kept s s''"
proof -
  have "spaces s a \<noteq> None" "spaces s' a = None"
    using assms(1) by (auto simp: delete_space_def rbind_eq_Inr get_space_Inr Let_def)
  moreover have "spaces s'' = spaces s'" using assms(2) by (simp add: mview_def)
  ultimately show ?thesis by (auto simp: kept_def)
qed

lemma kill_process_mends:
  assumes "mem_ok s" "kill_process env s = Inr s'"
  shows "mends Gone s s'"
proof -
  have "\<exists>(th :: Thread) s1. (case space th of None \<Rightarrow> Inr s | Some a \<Rightarrow> delete_space a s) = Inr s1 \<and> Finish (currentThread s) s1 = Inr s'"
    using assms(2) by (auto simp: kill_process_def Let_def rbind_eq_Inr split: if_splits)
  then obtain th :: Thread and s1 where k: "(case space th of None \<Rightarrow> Inr s | Some a \<Rightarrow> delete_space a s) = Inr s1"
    and f: "Finish (currentThread s) s1 = Inr s'" by (elim exE conjE) (rule that)
  show ?thesis
  proof (cases "space th")
    case None
    then have "same_mem s s'" using k Finish_view [OF f] by (intro mview_same_mem) simp
    then show ?thesis using assms(1) by (simp add: mends_def same_mem_pages same_mem_isolated)
  next
    case (Some a)
    then have "\<not> kept s s'" using k delete_space_not_kept Finish_view [OF f] by simp
    then show ?thesis by (simp add: mends_def)
  qed
qed

lemma fault_handler_mends:
  assumes "mem_ok s" "fault_handler env exc s = Inr (ret, s')"
  shows "mends (if ret then Failed else Gone) s s'"
proof -
  have "mends Failed s s" using mok_refl [OF assms(1)] by (simp add: mends_def)
  moreover have "mends Failed s s'" if "PageFault env s = Inr s'" using PageFault_mok [OF assms(1) that] by (simp add: mends_def)
  ultimately show ?thesis using assms(2) kill_process_mends [OF assms(1), of env s'] unfolding fault_handler_def
    by (auto simp: rbind_eq_Inr mends_cong split: ExceptionType.splits intro: mends_cong)
qed

lemma kernel_access_mends:
  assumes "mem_ok s" "\<And>m. tlb m = None \<Longrightarrow> ends_within m (f m)" "kernel_access env f s = Inr (r, s')"
  shows "mends r s s'"
proof -
  obtain m a where a: "mach s = Some m" "f m = Inr a"
    "(case a of Done v m1 \<Rightarrow> Inr (Got v, s\<lparr>mach := Some m1\<rparr>)
     | Trap exc m1 \<Rightarrow> rbind (fault_handler env exc (s\<lparr>mach := Some m1, status := SystemMode\<rparr>)) (\<lambda>(ret, s1).
         Inr (if ret then (Failed, s1\<lparr>status := UserMode\<rparr>) else (Gone, s1)))) = Inr (r, s')"
    using assms(3) by (auto simp: kernel_access_def rbind_eq_Inr the_machine_Inr)
  have "tlb m = None" using assms(1) a(1) by (simp add: mem_ok_def)
  note w = assms(2) [OF this, unfolded a(2)]
  have st: "same_mem t (t\<lparr>status := u\<rparr>)" for t :: "'a usys" and u by (simp add: same_mem_def)
  have sm: "mok t (t\<lparr>status := u\<rparr>)" if "mem_ok t" for t :: "'a usys" and u by (rule same_mem_mok [OF st]) (simp_all add: that)
  show ?thesis
  proof (cases a)
    case (Done v m1)
    then show ?thesis using a(3) w within_mok [OF assms(1) a(1)] by (auto simp: mends_def)
  next
    case (Trap exc m1)
    let ?s1 = "s\<lparr>mach := Some m1\<rparr>" and ?s = "s\<lparr>mach := Some m1, status := SystemMode\<rparr>"
    have "mok s ?s1" using within_mok [OF assms(1) a(1)] w Trap by simp
    moreover from this have "mok ?s1 (?s1\<lparr>status := SystemMode\<rparr>)" by (intro sm) (simp add: mok_def)
    ultimately have "mok s (?s1\<lparr>status := SystemMode\<rparr>)" by (rule mok_trans)
    then have o: "mok s ?s" by simp
    then have ok: "mem_ok ?s" by (simp add: mok_def)
    obtain ret s1 where h: "fault_handler env exc ?s = Inr (ret, s1)"
      "(r, s') = (if ret then (Failed, s1\<lparr>status := UserMode\<rparr>) else (Gone, s1))"
      using a(3) Trap by (auto simp: rbind_eq_Inr)
    have "mends r ?s s'"
    proof (cases ret)
      case True
      then have "mok ?s s1" using fault_handler_mends [OF ok h(1)] by (simp add: mends_def)
      moreover from this have "mok s1 (s1\<lparr>status := UserMode\<rparr>)" by (intro sm) (simp add: mok_def)
      ultimately have "mok ?s (s1\<lparr>status := UserMode\<rparr>)" by (rule mok_trans)
      then show ?thesis using True h(2) by (simp add: mends_def)
    next
      case False
      then show ?thesis using fault_handler_mends [OF ok h(1)] h(2) by (auto intro: mends_cong)
    qed
    moreover have e: "mends (Failed :: unit nested) s ?s" using o by (simp add: mends_def)
    ultimately show ?thesis by (intro mends_step [OF e]) simp_all
  qed
qed

lemma ReadMem_mends:
  "mem_ok s \<Longrightarrow> kernel_access env (ReadMem a sz) s = Inr (r, s') \<Longrightarrow> mends r s s'"
  by (rule kernel_access_mends) (simp_all add: ends_within_ReadMem within_refl)

lemma WriteMem_mends:
  "mem_ok s \<Longrightarrow> kernel_access env (WriteMem a 1 v) s = Inr (r, s') \<Longrightarrow> mends r s s'"
  by (rule kernel_access_mends) (simp_all add: ends_within_WriteMem within_refl)

lemma exec_name_mends: "exec_name n env a s = Inr (r, s') \<Longrightarrow> mem_ok s \<Longrightarrow> mends r s s'"
proof (induction n arbitrary: a s r s')
  case 0
  from "0.prems"(1) [unfolded exec_name.simps [of 0]] show ?case
    by (rule Inr_rbind_pairE) (erule mends_step [OF ReadMem_mends [OF "0.prems"(2)]], auto split: nested.splits if_splits)
next
  case (Suc n)
  have *: "mends r s1 s'" if ok: "mem_ok s1" and e: "rbind (exec_name n env (a + 1) s1) (\<lambda>(r', s2).
      Inr (case r' of Got nm \<Rightarrow> (Got (ucast j # nm), s2) | _ \<Rightarrow> (r', s2))) = Inr (r, s')" for j :: word32 and s1
    using e
  proof (rule Inr_rbind_pairE)
    fix r' s2 assume x: "exec_name n env (a + 1) s1 = Inr (r', s2)"
      "Inr (case r' of Got nm \<Rightarrow> (Got (ucast j # nm), s2) | _ \<Rightarrow> (r', s2)) = (Inr (r, s') :: (byte list nested \<times> _) result)"
    then have "s2 = s'" "r = Gone \<longleftrightarrow> r' = Gone" by (auto split: nested.splits)
    with Suc.IH [OF x(1) ok] show ?thesis by (auto intro: mends_cong)
  qed
  from Suc.prems(1) [unfolded exec_name.simps [of "Suc n"]] show ?case
  proof (rule Inr_rbind_pairE)
    fix r1 s1 assume k: "kernel_access env (ReadMem a 1) s = Inr (r1, s1)"
      and c: "(case r1 of Got j \<Rightarrow> if j = 0 then if Suc n = 0 then Inl Bad_Index else Inr (Got [], s1)
          else case Suc n of 0 \<Rightarrow> Inl Bad_Index | Suc n' \<Rightarrow> rbind (exec_name n' env (a + 1) s1) (\<lambda>(r', s2).
            Inr (case r' of Got nm \<Rightarrow> (Got (ucast j # nm), s2) | _ \<Rightarrow> (r', s2)))
        | Failed \<Rightarrow> Inr (Failed, s1) | Gone \<Rightarrow> Inr (Gone, s1)) = Inr (r, s')"
    from c * show ?thesis
      by (intro mends_step [OF ReadMem_mends [OF Suc.prems(2) k]]) (cases r1; auto split: if_splits)+
  qed
qed

lemma write_loop_mends: "write_loop n env a ch s = Inr (r, s') \<Longrightarrow> mem_ok s \<Longrightarrow> mends r s s'"
proof (induction n arbitrary: ch s r s')
  case (Suc n)
  from Suc.prems(1) [unfolded write_loop.simps] show ?case
    by (rule Inr_rbind_pairE)
       (erule mends_step [OF ReadMem_mends [OF Suc.prems(2)]], auto split: nested.splits if_splits intro: Suc.IH)
qed simp

lemma store_bytes_mends: "store_bytes env a n bs s = Inr (r, s') \<Longrightarrow> mem_ok s \<Longrightarrow> mends r s s'"
proof (induction bs arbitrary: n s r s')
  case (Cons b bs)
  from Cons.prems(1) [unfolded store_bytes.simps] show ?case
    by (rule Inr_rbind_pairE) (erule mends_step [OF WriteMem_mends [OF Cons.prems(2)]], auto split: if_splits intro: Cons.IH)
qed (simp add: mends_def mok_refl)

lemma read_bytes_mends: "read_bytes env a n k inp s = Inr (r, s') \<Longrightarrow> mem_ok s \<Longrightarrow> mends r s s'"
proof (induction k arbitrary: n inp s r s')
  case (Suc k)
  then obtain b bs where i: "inp = b # bs" by (cases inp) auto
  from Suc.prems(1) [unfolded i read_bytes.simps list.case] show ?case
    by (rule Inr_rbind_pairE) (erule mends_step [OF WriteMem_mends [OF Suc.prems(2)]], auto split: if_splits intro: Suc.IH)
qed (simp add: mends_def mok_refl)

lemma SRead_mends: "SRead env a n i s = Inr (r, s') \<Longrightarrow> mem_ok s \<Longrightarrow> mends r s s'"
  by (auto simp: SRead_def rbind_eq_Inr split: if_splits intro: store_bytes_mends read_bytes_mends)

section \<open>System calls\<close>

text \<open>
  The constructor of an address space returns early, with its members uninitialised, when the file is not in Nachos object format. The
  predicates say that the file a step loads, if it loads one, is in that format: the file \<open>f\<close>, the file \<^verbatim>\<open>Exec\<close> finds by the name
  at \<open>a\<close>, the one a trap of kind \<open>exc\<close> loads, and the one the next instruction of the user program loads.
\<close>

definition program_file :: "unspecified \<Rightarrow> byte list \<Rightarrow> 'z usys \<Rightarrow> bool" where
  "program_file env f s = (case read_header env f s of Inl e \<Rightarrow> True | Inr h \<Rightarrow> noffMagic h = NOFFMAGIC)"

definition opens_program :: "unspecified \<Rightarrow> byte list \<Rightarrow> 'z usys \<Rightarrow> bool" where
  "opens_program env filename s = (case stub_Open filename s of Inr (Some f) \<Rightarrow> program_file env f s | _ \<Rightarrow> True)"

definition names_program :: "unspecified \<Rightarrow> word32 \<Rightarrow> 'z usys \<Rightarrow> bool" where
  "names_program env a s = (case exec_name 100 env a s of Inr (Got nm, s1) \<Rightarrow> opens_program env nm s1 | _ \<Rightarrow> True)"

definition traps_to_program :: "unspecified \<Rightarrow> ExceptionType \<Rightarrow> 'z usys \<Rightarrow> bool" where
  "traps_to_program env exc s = (case rbind (the_machine s) (\<lambda>m. rbind (ReadRegister 2 m) (\<lambda>type_no. rbind (ReadRegister 4 m) (\<lambda>arg1.
       rbind (advance_pc m) (\<lambda>m1. Inr (type_no, arg1, m1))))) of Inl e \<Rightarrow> True
     | Inr (type_no, arg1, m1) \<Rightarrow> exc = SyscallException \<and> type_no = 2 \<longrightarrow> names_program env arg1 (s\<lparr>mach := Some m1\<rparr>))"

definition executes_program :: "unspecified \<Rightarrow> 'z usys \<Rightarrow> bool" where
  "executes_program env s = (case rbind (the_machine s) OneInstruction of Inr (Trap exc m1) \<Rightarrow>
       (case push_frame (currentThread s) User_ret (s\<lparr>mach := Some m1, status := SystemMode\<rparr>) of Inl e \<Rightarrow> True
        | Inr s1 \<Rightarrow> traps_to_program env exc s1)
     | _ \<Rightarrow> True)"

definition memok :: "'z usys \<Rightarrow> 'z usys \<Rightarrow> bool" where
  "memok s s' \<longleftrightarrow> (kept s s' \<longrightarrow> mem_ok s' \<and> isolated (touch s) s s')"

lemma mok_memok: "mok s s' \<Longrightarrow> memok s s'"
  by (simp add: mok_def memok_def)

lemma mends_memok: "mends r s s' \<Longrightarrow> memok s s'"
  by (cases "r = Gone") (auto simp: mends_def memok_def mok_def)

lemma memok_trans: "mok s s1 \<Longrightarrow> memok s1 s2 \<Longrightarrow> memok s s2"
  by (auto simp: mok_def memok_def kept_def intro: isolated_trans)

lemma memok_view: "mem_ok s \<Longrightarrow> mview s' = mview s \<Longrightarrow> memok s s'"
  using same_mem_pages(4) same_mem_isolated mview_same_mem unfolding memok_def by blast

lemma write_register_same_mem: "write_register r v s = Inr s' \<Longrightarrow> same_mem s s'"
  by (auto simp: write_register_def WriteRegister_def rbind_eq_Inr same_mem_def the_machine_Inr)

lemma write_register_mok:
  assumes "mem_ok s" "write_register r v s = Inr s'"
  shows "mok s s'"
proof (rule same_mem_mok [OF _ _ _ assms(1)])
  show "same_mem s s'" by (rule write_register_same_mem [OF assms(2)])
  show "threads s' = threads s" "currentThread s' = currentThread s"
    using assms(2) by (auto simp: write_register_def rbind_eq_Inr)
qed

lemma SWrite_mok:
  assumes "mem_ok s" "SWrite env b i s = Inr s'"
  shows "mok s s'"
proof (rule same_mem_mok [OF _ _ _ assms(1)])
  show "same_mem s s'" "threads s' = threads s" "currentThread s' = currentThread s"
    using assms(2) by (auto simp: SWrite_def Let_def rbind_eq_Inr same_mem_def split: if_splits)
qed

lemma SC_Write_memok:
  assumes "mem_ok s" "SC_Write env a i s = Inr s'"
  shows "memok s s'"
  using assms(2) [unfolded SC_Write_def]
proof (rule Inr_rbind_pairE)
  fix r s1 assume w: "write_loop 1002 env a [] s = Inr (r, s1)"
    and c: "(case r of Got ch \<Rightarrow> if ch = [] then Inr s1 else SWrite env ch i s1 | _ \<Rightarrow> Inr s1) = Inr s'"
  note e = write_loop_mends [OF w assms(1)]
  show ?thesis
  proof (cases "s' = s1")
    case False
    then obtain ch where r: "r = Got ch" "SWrite env ch i s1 = Inr s'" using c by (auto split: nested.splits if_splits)
    then have o: "mok s s1" using e by (simp add: mends_def)
    then have "mok s1 s'" using SWrite_mok [OF mokD r(2)] by blast
    with o show ?thesis by (blast intro: mok_memok mok_trans)
  qed (use mends_memok [OF e] in simp)
qed

lemma SC_Read_memok:
  assumes "mem_ok s" "SC_Read env a n i s = Inr s'"
  shows "memok s s'"
  using assms(2) [unfolded SC_Read_def]
proof (rule Inr_rbind_pairE)
  fix r s1 assume w: "SRead env a n i s = Inr (r, s1)"
    and c: "(case r of Got n \<Rightarrow> write_register 2 (of_nat n) s1 | _ \<Rightarrow> Inr s1) = Inr s'"
  note e = SRead_mends [OF w assms(1)]
  show ?thesis
  proof (cases "s' = s1")
    case False
    then obtain k where r: "r = Got k" "write_register 2 (of_nat k) s1 = Inr s'" using c by (auto split: nested.splits)
    then have o: "mok s s1" using e by (simp add: mends_def)
    then have "mok s1 s'" using write_register_mok [OF mokD r(2)] by blast
    with o show ?thesis by (blast intro: mok_memok mok_trans)
  qed (use mends_memok [OF e] in simp)
qed

lemma SC_Exit_memok:
  assumes "mem_ok s" "SC_Exit s = Inr s'"
  shows "memok s s'"
proof -
  obtain th :: Thread and s1 where k: "(case space th of None \<Rightarrow> Inr s
       | Some a \<Rightarrow> rbind (get_space a s) (\<lambda>sp. rbind (Clear (int (numPages sp)) (bitMap s)) (\<lambda>bm.
           delete_space a (s\<lparr>bitMap := bm\<rparr>)))) = Inr s1" and f: "Finish (currentThread s) s1 = Inr s'"
    using assms(2) unfolding SC_Exit_def Let_def rbind_eq_Inr by (elim exE conjE) (rule that)
  show ?thesis
  proof (cases "space th")
    case None
    then show ?thesis using k Finish_view [OF f] by (intro memok_view [OF assms(1)]) simp
  next
    case (Some a)
    then obtain bm where "delete_space a (s\<lparr>bitMap := bm\<rparr>) = Inr s1" using k by (auto simp: rbind_eq_Inr)
    from delete_space_not_kept [OF this Finish_view [OF f]] show ?thesis by (simp add: memok_def kept_def)
  qed
qed

lemma SC_Yield_view: "SC_Yield s = Inr s' \<Longrightarrow> mview s' = mview s"
  by (auto simp: SC_Yield_def Let_def rbind_eq_Inr SaveState_def push_frame_def case_option_Inr
      dest!: Yield_view upd_thread_view)

lemma AddrSpace_new_host:
  assumes "AddrSpace_new env f t s = Inr (sp, s')"
  shows "\<exists>h. s' = s\<lparr>host_files := h\<rparr>"
proof -
  have "\<exists>h. s2 = s\<lparr>host_files := h\<rparr>" if "stub_Create nm n s = Inr (b, s1)" "stub_WriteAt nm' d k p s1 = Inr s2" for nm n b s1 nm' d k p s2
    using that by (auto simp: stub_Create_def OpenForWrite_def stub_WriteAt_def rbind_eq_Inr split: if_splits)
  moreover have "\<exists>h. s = s\<lparr>host_files := h\<rparr>" by (rule exI [of _ "host_files s"]) simp
  ultimately show ?thesis using assms
    by (auto simp: AddrSpace_new_def Let_def rbind_eq_Inr case_option_Inr split: if_splits)
qed

lemma new_table_invalid: "e \<in> set (new_table stray n) \<Longrightarrow> \<not> valid e"
  by (auto simp: new_table_def)

lemma AddrSpace_new_invalid:
  assumes "AddrSpace_new env f t s = Inr (sp, s')" "program_file env f s" "as_pageTable sp = Some pt" "e \<in> set pt"
  shows "\<not> valid e"
proof -
  obtain h where h: "read_header env f s = Inr h" using assms(1) by (auto simp: AddrSpace_new_def rbind_eq_Inr)
  with assms(2) have "noffMagic h = NOFFMAGIC" by (simp add: program_file_def)
  with assms(1) h obtain n where "as_pageTable sp = Some (new_table (stray_frame env) n)"
    by (auto simp: AddrSpace_new_def Let_def rbind_eq_Inr case_option_Inr split: if_splits)
  then have "pt = new_table (stray_frame env) n" using assms(3) by simp
  then show ?thesis using assms(4) new_table_invalid by blast
qed

lemma install_mem:
  assumes "mem_ok s" "spaces s a = None" "\<forall>pt. as_pageTable sp = Some pt \<longrightarrow> (\<forall>e \<in> set pt. \<not> valid e)"
  shows "mem_ok (s\<lparr>spaces := (spaces s)(a \<mapsto> sp)\<rparr>)" "page_of b v (s\<lparr>spaces := (spaces s)(a \<mapsto> sp)\<rparr>) = page_of b v s"
proof -
  let ?s = "s\<lparr>spaces := (spaces s)(a \<mapsto> sp)\<rparr>"
  have la: "loaded s \<noteq> Some a" using assms(1,2) by (auto simp: mem_ok_def)
  have f: "frame_of b v ?s = frame_of b v s" for b v
  proof (cases "b = a")
    case True
    have "space_table a s = None" "space_table a ?s = as_pageTable sp"
      using la assms(2) by (simp_all add: space_table_other)
    then show ?thesis using True assms(3) by (auto simp: frame_of_def split: option.splits)
  next
    case False
    then have "space_table b ?s = space_table b s" by (simp add: space_table_def split: option.splits)
    then show ?thesis by (simp add: frame_of_def)
  qed
  then show "page_of b v ?s = page_of b v s" by (simp add: page_of_def split: option.splits)
  show "mem_ok ?s" using assms(1) by (auto simp: mem_ok_def private_frames_def f)
qed

lemma start_child_same_mem:
  assumes "start_child env s = Inr s'"
  shows "same_mem s s'"
proof -
  let ?s1 = "s\<lparr>threads := (threads s)(new_thread env \<mapsto> (Thread_new ''thrad!'' (stray_regs env))
      \<lparr>space := Some (new_space env), tID := threadID s\<rparr>), activeThreads := list_append (Some (new_thread env)) (activeThreads s)\<rparr>"
  obtain s2 k where s2: "write_register 2 (word_of_int (threadID s)) ?s1 = Inr s2"
    "Fork (new_thread env) [Process_start] 0 (s2\<lparr>threadID := k\<rparr>) = Inr s'"
    using assms by (auto simp: start_child_def Let_def rbind_eq_Inr)
  have "same_mem s ?s1" "same_mem s2 (s2\<lparr>threadID := k\<rparr>)" by (simp_all add: same_mem_def)
  moreover have "same_mem (s2\<lparr>threadID := k\<rparr>) s'" by (rule mview_same_mem [OF Fork_view [OF s2(2)]])
  ultimately show ?thesis using write_register_same_mem [OF s2(1)] by (blast intro: same_mem_trans)
qed

lemma exec_process_same_mem:
  assumes "exec_process env sp s = Inr s'"
  shows "same_mem (s\<lparr>spaces := (spaces s)(new_space env \<mapsto> sp)\<rparr>) s'"
proof -
  let ?s = "s\<lparr>spaces := (spaces s)(new_space env \<mapsto> sp)\<rparr>"
  from assms consider "start_child env ?s = Inr s'" | k s1 where "write_register 2 k ?s = Inr s1"
    "upd_thread (currentThread s) (\<lambda>th. th\<lparr>killNewChild := False\<rparr>) s1 = Inr s'"
    by (auto simp: exec_process_def Let_def rbind_eq_Inr split: if_splits)
  then show ?thesis
  proof cases
    case 1
    then show ?thesis by (rule start_child_same_mem)
  next
    case 2
    from write_register_same_mem [OF 2(1)] mview_same_mem [OF upd_thread_view [OF 2(2)]] show ?thesis
      by (rule same_mem_trans)
  qed
qed

text \<open>A new address space and what follows it.\<close>

lemma new_space_memok:
  assumes "mem_ok s" "spaces s a = None" "program_file env f s" "AddrSpace_new env f t s = Inr (sp, s1)"
    "same_mem (s1\<lparr>spaces := (spaces s1)(a \<mapsto> sp)\<rparr>) s'"
  shows "mem_ok s'" "isolated {} s s'"
proof -
  let ?s2 = "s1\<lparr>spaces := (spaces s1)(a \<mapsto> sp)\<rparr>"
  obtain h where h: "s1 = s\<lparr>host_files := h\<rparr>" using AddrSpace_new_host [OF assms(4)] by blast
  then have m1: "same_mem s s1" by (simp add: same_mem_def)
  have ok: "mem_ok s1" "spaces s1 a = None" using assms(1,2) same_mem_pages(4) [OF m1] h by simp_all
  have inv: "\<forall>pt. as_pageTable sp = Some pt \<longrightarrow> (\<forall>e \<in> set pt. \<not> valid e)"
    using AddrSpace_new_invalid [OF assms(4,3)] by blast
  note i = install_mem [OF ok inv]
  show "mem_ok s'" using i(1) same_mem_pages(4) [OF assms(5)] by simp
  show "isolated {} s s'"
    unfolding isolated_def using i(2) same_mem_pages(3) [OF m1] same_mem_pages(3) [OF assms(5)] by simp
qed

lemma SC_Exec_memok:
  assumes "mem_ok s" "fresh env s" "names_program env a s" "SC_Exec env a s = Inr s'"
  shows "memok s s'"
  using assms(4) [unfolded SC_Exec_def]
proof (rule Inr_rbind_pairE)
  fix r s1 assume n: "exec_name 100 env a s = Inr (r, s1)"
    and c: "(case r of Got filename \<Rightarrow> rbind (stub_Open filename s1) (\<lambda>executable.
       case executable of None \<Rightarrow> Inr s1
       | Some f \<Rightarrow> rbind (AddrSpace_new env f (threadID s1) s1) (\<lambda>(sp, s2). exec_process env sp s2))
     | _ \<Rightarrow> Inr s1) = Inr s'"
  note e = exec_name_mends [OF n assms(1)]
  show ?thesis
  proof (cases "s' = s1")
    case False
    then obtain nm f sp s2 where x: "r = Got nm" "stub_Open nm s1 = Inr (Some f)" "AddrSpace_new env f (threadID s1) s1 = Inr (sp, s2)"
      "exec_process env sp s2 = Inr s'"
      using c by (auto simp: rbind_eq_Inr split: nested.splits option.splits)
    have p: "program_file env f s1" using assms(3) n x(1,2) by (simp add: names_program_def opens_program_def)
    have o: "mok s s1" using e x(1) by (simp add: mends_def)
    then have "spaces s1 (new_space env) = None" using assms(2) by (auto simp: mok_def fresh_def)
    from new_space_memok [OF mokD [OF o] this p x(3) exec_process_same_mem [OF x(4)]]
    have "mem_ok s'" "isolated {} s1 s'" .
    then show ?thesis using o by (auto simp: memok_def mok_def isolated_def)
  qed (use mends_memok [OF e] in simp)
qed

section \<open>Steps of the system\<close>

lemma system_call_memok:
  assumes "mem_ok s" "fresh env s" "k = 2 \<longrightarrow> names_program env a s" "system_call env k a b c s = Inr s'"
  shows "memok s s'"
proof -
  have "memok s s'" if "mview s' = mview s" by (rule memok_view [OF assms(1) that])
  with assms show ?thesis
    by (auto simp: system_call_def split: if_splits
        intro: SC_Read_memok SC_Write_memok SC_Exec_memok SC_Exit_memok dest: SC_Join_view SC_Yield_view)
qed

lemma ExceptionHandler_memok:
  assumes "mem_ok s" "fresh env s" "traps_to_program env exc s" "ExceptionHandler env exc s = Inr s'"
  shows "memok s s'"
proof (cases "exc = SyscallException")
  case True
  then obtain m m1 k a b c where m: "mach s = Some m" "advance_pc m = Inr m1"
    "system_call env k a b c (s\<lparr>mach := Some m1\<rparr>) = Inr s'" "ReadRegister 2 m = Inr k" "ReadRegister 4 m = Inr a"
    using assms(4) by (auto simp: ExceptionHandler_def rbind_eq_Inr the_machine_Inr)
  have p: "k = 2 \<longrightarrow> names_program env a (s\<lparr>mach := Some m1\<rparr>)" using assms(3) m True by (simp add: traps_to_program_def the_machine_def)
  have "same_mem s (s\<lparr>mach := Some m1\<rparr>)"
    using m by (auto simp: same_mem_def advance_pc_def set_reg_def rbind_eq_Inr)
  then have o: "mok s (s\<lparr>mach := Some m1\<rparr>)" by (intro same_mem_mok) (simp_all add: assms(1))
  have "fresh env (s\<lparr>mach := Some m1\<rparr>)" using assms(2) by (simp add: fresh_def)
  from memok_trans [OF o system_call_memok [OF mokD [OF o] this p m(3)]] show ?thesis .
next
  case False
  then obtain ret where "fault_handler env exc s = Inr (ret, s')"
    using assms(4) by (auto simp: ExceptionHandler_def rbind_eq_Inr)
  from mends_memok [OF fault_handler_mends [OF assms(1) this]] show ?thesis .
qed

lemma user_round_memok:
  assumes "mem_ok s" "fresh env s" "executes_program env s" "user_round env s = Inr s'"
  shows "memok s s'"
proof -
  obtain m and r :: "unit access" where m: "mach s = Some m" "OneInstruction m = Inr r"
    and r: "(case r of Done _ m1 \<Rightarrow> tick (s\<lparr>mach := Some m1\<rparr>)
     | Trap exc m1 \<Rightarrow> rbind (push_frame (currentThread s) User_ret (s\<lparr>mach := Some m1, status := SystemMode\<rparr>))
         (ExceptionHandler env exc)) = Inr s'"
    using assms(4) unfolding user_round_def rbind_eq_Inr the_machine_Inr by (elim exE conjE) (rule that)
  have "tlb m = None" using assms(1) m(1) by (simp add: mem_ok_def)
  note w = OneInstruction_within [OF this, unfolded m(2)]
  show ?thesis
  proof (cases r)
    case (Done u m1)
    have o: "mok s (s\<lparr>mach := Some m1\<rparr>)" using within_mok [OF assms(1) m(1)] w Done by simp
    have "memok (s\<lparr>mach := Some m1\<rparr>) s'" using memok_view [OF mokD [OF o] tick_view] r Done by simp
    with o show ?thesis by (rule memok_trans)
  next
    case (Trap exc m1)
    let ?s1 = "s\<lparr>mach := Some m1\<rparr>" and ?s = "s\<lparr>mach := Some m1, status := SystemMode\<rparr>"
    have o: "mok s ?s1" using within_mok [OF assms(1) m(1)] w Trap by simp
    obtain s2 where p: "push_frame (currentThread s) User_ret ?s = Inr s2" "ExceptionHandler env exc s2 = Inr s'"
      using r Trap by (auto simp: rbind_eq_Inr)
    obtain th where th: "threads s (currentThread s) = Some th"
      "s2 = ?s\<lparr>threads := (threads s)(currentThread s \<mapsto> th\<lparr>kstack := User_ret # kstack th\<rparr>)\<rparr>"
      using p(1) by (auto simp: push_frame_def upd_thread_Inr)
    have sm: "same_mem ?s1 s2" using th(2) by (simp add: same_mem_def)
    have "touch s2 = touch ?s1" "dom (spaces s2) = dom (spaces ?s1)" using th by (simp_all add: touch_def)
    then have o2: "mok ?s1 s2"
      using mokD [OF o] same_mem_pages(4) [OF sm] same_mem_isolated [OF sm] by (simp add: mok_def)
    have t: "traps_to_program env exc s2" using assms(3) m p(1) Trap by (simp add: executes_program_def the_machine_def)
    have "fresh env s2" using th assms(2) by (auto simp: fresh_def)
    from ExceptionHandler_memok [OF mokD [OF o2] this t p(2)] mok_trans [OF o o2] show ?thesis
      by (blast intro: memok_trans)
  qed
qed

lemma RestoreState_pages:
  assumes "mem_ok s" "RestoreState a s = Inr s'"
  shows "mem_ok s'" "page_of b v s' = page_of b v s" "dom (spaces s') = dom (spaces s)"
proof -
  obtain m sp where m: "mach s = Some m" "spaces (home s) a = Some sp"
    "s' = (home s)\<lparr>mach := Some (m\<lparr>pageTable := as_pageTable sp, pageTableSize := of_nat (numPages sp)\<rparr>), loaded := Some a\<rparr>"
    using assms(2) by (auto simp: RestoreState_def Let_def rbind_eq_Inr get_space_Inr the_machine_Inr)
  have l: "loaded s = Some b \<Longrightarrow> spaces s b \<noteq> None" for b using assms(1) by (simp add: mem_ok_def)
  have h: "Option.bind (spaces (home s) b) as_pageTable = space_table b s" for b
    using l m(1) by (auto simp: home_def space_table_def split: option.splits)
  have t: "space_table b s' = space_table b s" for b
    using h [of b] m(2,3) by (cases "b = a") (auto simp: space_table_def split: option.splits)
  have f: "frame_of b v s' = frame_of b v s" for b v by (simp add: frame_of_def t)
  show d: "dom (spaces s') = dom (spaces s)"
    using m(3) by (auto simp: home_def split: option.splits if_splits)
  have bm: "bitMap s' = bitMap s" using m(3) by (simp add: home_def split: option.splits)
  have "spaces s a \<noteq> None" using d m(2,3) by auto
  then have "spaces s' a \<noteq> None" using d by auto
  moreover have "private_frames s'" using assms(1) unfolding mem_ok_def private_frames_def f bm by blast
  moreover have "loaded s' = Some a" "\<exists>m'. mach s' = Some m' \<and> tlb m' = None"
    using m(1,3) assms(1) by (simp_all add: mem_ok_def)
  ultimately show "mem_ok s'" using assms(1) bm by (simp add: mem_ok_def)
  have "mach s' = Some (m\<lparr>pageTable := as_pageTable sp, pageTableSize := of_nat (numPages sp)\<rparr>)" using m(3) by simp
  then show "page_of b v s' = page_of b v s" unfolding page_of_def f using m(1) by (simp add: frame_bytes_def)
qed

lemma InitRegisters_same_mem:
  assumes "InitRegisters a s = Inr s'"
  shows "same_mem s s'"
proof -
  have clr: "clear_registers is m = Inr m' \<Longrightarrow> m'\<lparr>registers := []\<rparr> = m\<lparr>registers := []\<rparr>" for "is" m m'
    by (induction "is" arbitrary: m) (fastforce simp: rbind_eq_Inr WriteRegister_def)+
  show ?thesis
    using assms by (auto simp: InitRegisters_def rbind_eq_Inr the_machine_Inr WriteRegister_def same_mem_def dest!: clr)
qed

lemma Run_in_pages:
  assumes "mem_ok s" "Run_in s = Inr s'"
  shows "mem_ok s'" "page_of b v s' = page_of b v s"
proof -
  obtain s1 th where d: "destroy_finished s = Inr s1" "threads s1 (currentThread s1) = Some th"
    and c: "(case space th of None \<Rightarrow> Inr s1 | Some a \<Rightarrow> rbind (RestoreUserState (currentThread s1) s1) (RestoreState a)) = Inr s'"
    using assms(2) by (auto simp: Run_in_def rbind_eq_Inr)
  have s1: "same_mem s s1" by (rule mview_same_mem [OF destroy_finished_view [OF d(1)]])
  have "mem_ok s' \<and> page_of b v s' = page_of b v s"
  proof (cases "space th")
    case None
    then show ?thesis using c assms(1) same_mem_pages [OF s1] by simp
  next
    case (Some a)
    then obtain s2 where s2: "RestoreUserState (currentThread s1) s1 = Inr s2" "RestoreState a s2 = Inr s'"
      using c by (auto simp: rbind_eq_Inr)
    have "same_mem s1 s2"
      using s2(1) by (auto simp: RestoreUserState_def rbind_eq_Inr the_machine_Inr same_mem_def split: if_splits)
    with s1 have "same_mem s s2" by (rule same_mem_trans)
    then show ?thesis using RestoreState_pages(1,2) [OF _ s2(2)] assms(1) same_mem_pages by metis
  qed
  then show "mem_ok s'" "page_of b v s' = page_of b v s" by simp_all
qed

lemma processCreator_pages:
  assumes "mem_ok s" "processCreator s = Inr s'"
  shows "mem_ok s'" "page_of b v s' = page_of b v s"
proof -
  obtain a s1 s2 s3 where p: "InitRegisters a s = Inr s1" "RestoreState a s1 = Inr s2" "destroy_finished s2 = Inr s3"
    "s' = s3\<lparr>status := UserMode\<rparr>"
    using assms(2) by (auto simp: processCreator_def rbind_eq_Inr case_option_Inr)
  have 1: "same_mem s s1" by (rule InitRegisters_same_mem [OF p(1)])
  have 3: "same_mem s2 s'" using mview_same_mem [OF destroy_finished_view [OF p(3)]] p(4) by (simp add: same_mem_def)
  note r = RestoreState_pages [OF _ p(2)]
  show "mem_ok s'" "page_of b v s' = page_of b v s"
    using r(1,2) assms(1) same_mem_pages(3,4) [OF 1] same_mem_pages(3,4) [OF 3] by simp_all
qed

lemma resume_pages:
  assumes "mem_ok s" "resume s = Inr s'"
  shows "mem_ok s'" "page_of b v s' = page_of b v s"
proof -
  let ?c = "currentThread s"
  obtain th where th: "threads s ?c = Some th" using assms(2) by (auto simp: resume_def Let_def rbind_eq_Inr)
  have "mem_ok s' \<and> page_of b v s' = page_of b v s"
  proof (cases "kstack th")
    case Nil
    with assms th show ?thesis by (simp add: resume_def get_thread_def)
  next
    case (Cons fr frs)
    define s1 where "s1 = s\<lparr>threads := (threads s)(?c \<mapsto> th\<lparr>kstack := frs\<rparr>)\<rparr>"
    have r: "(case fr of Start a \<Rightarrow> set_level IntOn s1 | Run_ret \<Rightarrow> Run_in s1 | Yield_ret old \<Rightarrow> set_level old s1
         | Tick_ret m \<Rightarrow> Inr (s1\<lparr>status := m\<rparr>) | Sleep_loop \<Rightarrow> sleep_round s1
         | P_retry x old \<Rightarrow> P_loop x old s1 | Finish_ret \<Rightarrow> Inr s1
         | Restore_space \<Rightarrow> (case space th of None \<Rightarrow> Inl Null_Deref | Some a \<Rightarrow> RestoreState a s1)
         | User_ret \<Rightarrow> tick (s1\<lparr>status := UserMode\<rparr>) | Process_start \<Rightarrow> processCreator s1) = Inr s'"
      unfolding s1_def using assms(2) th Cons by (simp add: resume_def Let_def get_thread_def upd_thread_def)
    have sm: "same_mem s s1" by (simp add: s1_def same_mem_def)
    have ok: "mem_ok s1" using assms(1) same_mem_pages(4) [OF sm] by simp
    have v: "mem_ok s' \<and> page_of b v s' = page_of b v s1" if "mview s' = mview s1"
      using same_mem_pages(3,4) [OF mview_same_mem [OF that]] ok by simp
    have "mem_ok s' \<and> page_of b v s' = page_of b v s1"
      using r v Run_in_pages [OF ok] processCreator_pages [OF ok] RestoreState_pages(1,2) [OF ok]
      by (cases fr) (auto simp: case_option_Inr dest: set_level_view tick_view sleep_round_view P_loop_view)
    then show ?thesis using same_mem_pages(3) [OF sm] by simp
  qed
  then show "mem_ok s'" "page_of b v s' = page_of b v s" by simp_all
qed

lemma StartProcess_memok:
  assumes "mem_ok s" "fresh env s" "opens_program env f s" "StartProcess env f s = Inr s'"
  shows "mem_ok s' \<and> isolated {} s s'"
proof (cases "s' = s")
  case True
  then show ?thesis using assms(1) by (simp add: isolated_def)
next
  case False
  let ?a = "new_space env"
  obtain g sp s1 s2 s3 s4 where g: "stub_Open f s = Inr (Some g)" and p: "AddrSpace_new env g 0 s = Inr (sp, s1)"
    "upd_thread (currentThread s1) (\<lambda>th. th\<lparr>space := Some ?a\<rparr>) (s1\<lparr>spaces := (spaces s1)(?a \<mapsto> sp)\<rparr>) = Inr s2"
    "InitRegisters ?a s2 = Inr s3" "RestoreState ?a s3 = Inr s4" "s' = s4\<lparr>status := UserMode\<rparr>"
    using assms(4) False by (auto simp: StartProcess_def Let_def rbind_eq_Inr split: option.splits)
  from mview_same_mem [OF upd_thread_view [OF p(2)]] InitRegisters_same_mem [OF p(3)] have sm: "same_mem (s1\<lparr>spaces := (spaces s1)(?a \<mapsto> sp)\<rparr>) s3"
    by (rule same_mem_trans)
  have "spaces s ?a = None" using assms(2) by (simp add: fresh_def)
  moreover have "program_file env g s" using assms(3) g by (simp add: opens_program_def)
  ultimately have n: "mem_ok s3" "isolated {} s s3" using new_space_memok [OF assms(1) _ _ p(1) sm] by blast+
  have 4: "same_mem s4 s'" using p(5) by (simp add: same_mem_def)
  note r = RestoreState_pages(1,2) [OF n(1) p(4)]
  show ?thesis using r n(2) same_mem_pages(3,4) [OF 4] by (simp add: isolated_def)
qed

text \<open>The steps of the system in which every file that is loaded is a program.\<close>

inductive pstep :: "'z usys \<Rightarrow> 'z usys \<Rightarrow> bool" where
  other: "ustep (\<lambda>_. False) s s' \<Longrightarrow> pstep s s'"
| round: "stk s (currentThread s) = [] \<Longrightarrow> status s = UserMode \<Longrightarrow> executes_program env s \<Longrightarrow> fresh env s \<Longrightarrow>
    user_round env s = Inr s' \<Longrightarrow> pstep s s'"
| start: "stk s (currentThread s) = [] \<Longrightarrow> status s = SystemMode \<Longrightarrow> opens_program env filename s \<Longrightarrow> fresh env s \<Longrightarrow>
    StartProcess env filename s = Inr s' \<Longrightarrow> pstep s s'"

lemma ustep_memok:
  assumes "ustep (\<lambda>_. False) s s'" "mem_ok s" "kept s s'"
  shows "mem_ok s' \<and> isolated (touch s) s s'"
  using assms(1)
proof cases
  case resume
  from resume_pages [OF assms(2) resume(2)] show ?thesis by (simp add: isolated_def)
next
  case (timer k)
  have "mach s' = mach s"
    using timer(3) by (auto simp: Timer_new_def schedule_timer_def TimeOfNextInterrupt_def Random_def Schedule_def Let_def
      rbind_eq_Inr split: prod.splits if_splits)
  from memok_view [OF assms(2) mview_more [OF Timer_new_more [OF timer(3)] this]] assms(3) show ?thesis by (simp add: memok_def)
next
  case enable
  from memok_view [OF assms(2) set_level_view [OF enable(3)]] assms(3) show ?thesis by (simp add: memok_def)
next
  case finish
  from memok_view [OF assms(2) Finish_view [OF finish(3)]] assms(3) show ?thesis by (simp add: memok_def)
qed simp_all

lemma pstep_memok:
  assumes "pstep s s'" "mem_ok s" "kept s s'"
  shows "mem_ok s' \<and> isolated (touch s) s s'"
  using assms(1)
proof cases
  case other
  from ustep_memok [OF other assms(2,3)] show ?thesis .
next
  case (round env)
  from user_round_memok [OF assms(2) round(4,3,5)] assms(3) show ?thesis by (simp add: memok_def)
next
  case (start env filename)
  from StartProcess_memok [OF assms(2) start(4,3,5)] show ?thesis by (simp add: isolated_def)
qed

text \<open>They are steps of the system.\<close>

lemma pstep_ustep: "pstep s s' \<Longrightarrow> ustep (\<lambda>_. True) s s'"
proof (induction rule: pstep.induct)
  case (other s s')
  then show ?case by cases (auto intro: ustep.intros)
qed (auto intro: ustep.intros)

text \<open>Runs of a machine without a TLB in which every file that is loaded is a program and no address space is deleted.\<close>

inductive mreach :: "user_sys \<Rightarrow> bool" where
  boot: "words \<noteq> [] \<Longrightarrow> user_boot rnd secs words (Machine_new big False dbg g) opt files deny = Inr s \<Longrightarrow> mreach s"
| step: "mreach s \<Longrightarrow> pstep s s' \<Longrightarrow> kept s s' \<Longrightarrow> mreach s'"

lemma user_boot_fields:
  assumes "user_boot rnd secs words m opt files deny = Inr s"
  shows "BitMap_new NumPhysPages words = Inr (bitMap s)" "mach s = Some m" "spaces s = Map.empty" "loaded s = None"
    "status s = SystemMode" "currentThread s = 0" "stk s 0 = []" "host_files s = files" "host_denies s = deny"
    "virtualOption s = opt" "level s = IntOff" "threads s = [0 \<mapsto> (Thread_new ''main'' [])\<lparr>tstatus := RUNNING\<rparr>]"
  using assms by (auto simp: user_boot_def rbind_eq_Inr thread_sys.defs kernel_boot_defs stk_def)

lemma physical_bitmap_new:
  assumes "BitMap_new NumPhysPages words = Inr b" "words \<noteq> []"
  shows "bm_wf b" "numBits b = NumPhysPages" "marked b = {}"
proof -
  have "divRoundUp NumPhysPages BitsInWord \<le> length words"
    using assms(2) by (cases words) (simp_all add: divRoundUp_def NumPhysPages_def BitsInWord_def)
  from BitMap_new_spec [OF this] assms(1) show "bm_wf b" "numBits b = NumPhysPages" "marked b = {}" by auto
qed

lemma mem_ok_boot:
  assumes "user_boot rnd secs words (Machine_new big False dbg g) opt files deny = Inr s" "words \<noteq> []"
  shows "mem_ok s"
proof -
  note b = user_boot_fields [OF assms(1)]
  have "bm_wf (bitMap s)" "numBits (bitMap s) = NumPhysPages" using physical_bitmap_new [OF b(1) assms(2)] by simp_all
  moreover have "frame_of a v s = None" for a v using b(3,4) by (simp add: frame_of_def space_table_def)
  ultimately show ?thesis using b(2,4) by (simp add: mem_ok_def private_frames_def Machine_new_def)
qed

lemma mreach_ok: "mreach s \<Longrightarrow> mem_ok s"
  by (induction rule: mreach.induct) (blast intro: mem_ok_boot dest: pstep_memok)+

end
