(* ===== verification/Thread_Properties.thy ===== *)
theory Thread_Properties
  imports Sched_Inv
begin

text \<open>
  What the invariant of \<open>Sched_Inv\<close> gives: the properties of the scheduler, of the semaphores, of joining
  and finishing and of the context switch, with a small system that exercises them.
\<close>

section \<open>Properties of reachable states\<close>

text \<open>
  C1: the scheduler's invariant. In every reachable state the ready list holds exactly the ready
  threads, each once; at most the current thread is running; a thread waits in at most one semaphore queue,
  once, and is blocked while it does.
\<close>

theorem scheduler_invariant:
  assumes "kreach s"
  shows "distinct (ready s) \<and> (\<forall>t. t \<in> set (ready s) \<longleftrightarrow> st s t = Some READY)
    \<and> st s (currentThread s) \<noteq> None \<and> (\<forall>t. st s t = Some RUNNING \<longrightarrow> t = currentThread s)
    \<and> (\<forall>x. distinct (que s x) \<and> (\<forall>t \<in> set (que s x). st s t = Some BLOCKED))
    \<and> (\<forall>x y t. t \<in> set (que s x) \<and> t \<in> set (que s y) \<longrightarrow> x = y)"
proof -
  obtain a ks where o: "ready_ok (st s) (ready s)" "current_ok a (st s) (currentThread s)" "queues_ok (st s) ks (que s)"
    using sched_ok_views [OF kreach_ok [OF assms]] .
  have "st s (currentThread s) \<noteq> None" "\<forall>t. st s t = Some RUNNING \<longrightarrow> t = currentThread s"
    using o(2) by (auto simp: current_ok_def split: if_splits)
  with o(1) queues_okD [OF o(3)] show ?thesis unfolding ready_ok_def by blast
qed

text \<open>
  C6: no wake-up is lost. In every reachable state the value of a semaphore is not negative, and when
  threads wait although the value is positive, a woken thread that is ready or running is on its way to take it.
\<close>

theorem no_lost_wakeup:
  assumes "kreach s"
  shows "0 \<le> val s x \<and> (que s x \<noteq> [] \<and> 0 < val s x \<longrightarrow>
    (\<exists>t. t \<notin> set (que s x) \<and> retrying (stk s) x t \<and> (st s t = Some READY \<or> st s t = Some RUNNING)))"
proof -
  obtain a ks where k: "\<forall>t. stk s t = (if a \<and> t = currentThread s then Sleep_loop # ks t else ks t)"
    and o: "queues_ok (st s) ks (que s)" "wakeups_ok ks (que s) (val s)"
    using sched_ok_views [OF kreach_ok [OF assms]] .
  have w: "sem_ok ks x (que s x) (val s x)" using wakeups_okD [OF o(2) refl] .
  have "\<exists>t. t \<notin> set (que s x) \<and> retrying ks x t" if "que s x \<noteq> []" "0 < val s x"
  proof -
    have "card {t. retrying ks x t \<and> t \<notin> set (que s x)} \<noteq> 0" using w that by (simp add: sem_ok_def)
    then have "{t. retrying ks x t \<and> t \<notin> set (que s x)} \<noteq> {}" by (metis card.empty)
    then show ?thesis by blast
  qed
  moreover have "0 \<le> val s x" using w by (simp add: sem_ok_def)
  ultimately show ?thesis using queues_okD(6) [OF o(1)] unfolding views_dead_retrying [OF k] by metis
qed

text \<open>
  C20: a finished thread is gone. In every reachable state a thread that has called \<^verbatim>\<open>Finish\<close> is blocked, on no list
  and joined to no live thread, so it never runs again; when another thread runs, destroying it
  succeeds and keeps the current thread.
\<close>

theorem finished_threads_stay_finished:
  assumes "kreach s"
  shows "(\<forall>t. dead (stk s) t \<longrightarrow> st s t = Some BLOCKED \<and> t \<notin> set (ready s) \<and> (\<forall>x. t \<notin> set (que s x))
      \<and> (\<forall>c. par s c = Some t \<longrightarrow> dead (stk s) c))
    \<and> (\<forall>d. threadToBeDestroyed s = Some d \<longrightarrow> dead (stk s) d)
    \<and> (st s (currentThread s) = Some RUNNING \<longrightarrow>
       (\<exists>s'. destroy_finished s = Inr s' \<and> threadToBeDestroyed s' = None \<and> currentThread s' = currentThread s))"
proof -
  obtain a ks where k: "\<forall>t. stk s t = (if a \<and> t = currentThread s then Sleep_loop # ks t else ks t)"
    and o: "ready_ok (st s) (ready s)" "stacks_ok (st s) ks" "queues_ok (st s) ks (que s)"
    "joins_ok (st s) ks (que s) (par s)" "doomed_ok (st s) ks (threadToBeDestroyed s)"
    using sched_ok_views [OF kreach_ok [OF assms]] .
  note d = views_dead_retrying(1) [OF k]
  have "st s t = Some BLOCKED" if "dead ks t" for t
    using frames_okD(2) [OF stacks_okD [OF o(2)]] that by (simp add: dead_def)
  moreover from this have "t \<notin> set (ready s)" if "dead ks t" for t using o(1) that by (force simp: ready_ok_def)
  moreover have "\<exists>s'. destroy_finished s = Inr s' \<and> threadToBeDestroyed s' = None \<and> currentThread s' = currentThread s"
    if "st s (currentThread s) = Some RUNNING"
  proof (cases "threadToBeDestroyed s")
    case (Some t)
    then have "st s t = Some BLOCKED" using o(5) by (simp add: doomed_ok_def)
    with that have "t \<noteq> currentThread s" "threads s t \<noteq> None" by (auto simp: st_def)
    then show ?thesis using Some by (auto simp: destroy_finished_def delete_thread_def get_thread_def)
  qed (simp add: destroy_finished_def)
  ultimately show ?thesis
    unfolding d using queues_okD(4) [OF o(3)] joins_okD(3) [OF o(4)] o(5) unfolding doomed_ok_def by blast
qed

text \<open>
  C25: joining. In every reachable state the parent of a thread that has not finished sleeps outside every
  queue, and no other thread that has not finished has the same parent: exactly one \<^verbatim>\<open>Finish\<close> will wake it.
\<close>

theorem joined_parent_waits:
  assumes "kreach s" "par s c = Some p" "\<not> dead (stk s) c"
  shows "st s p = Some BLOCKED \<and> p \<notin> set (ready s) \<and> (\<forall>x. p \<notin> set (que s x)) \<and> \<not> dead (stk s) p
    \<and> (\<forall>d. par s d = Some p \<and> \<not> dead (stk s) d \<longrightarrow> d = c)"
proof -
  obtain a ks where k: "\<forall>t. stk s t = (if a \<and> t = currentThread s then Sleep_loop # ks t else ks t)"
    and o: "ready_ok (st s) (ready s)" "joins_ok (st s) ks (que s) (par s)"
    using sched_ok_views [OF kreach_ok [OF assms(1)]] .
  note d = views_dead_retrying(1) [OF k]
  note j = joins_okD [OF o(2) assms(2) assms(3) [unfolded d]]
  have "p \<notin> set (ready s)" using j(1) o(1) by (auto simp: ready_ok_def)
  with j show ?thesis unfolding d by blast
qed

text \<open>Main creates a thread and joins it.\<close>

definition demo_child :: thread_sys where
  "demo_child = (let s = kernel_boot (\<lambda>_. 0) (\<lambda>_. []); s1 = s\<lparr>threads := (threads s)(1 \<mapsto> Thread_new ''child'' [])\<rparr>
     in s1\<lparr>threads := (threads s1)(1 \<mapsto> (Thread_new ''child'' [])\<lparr>tID := 1, space := None\<rparr>),
          activeThreads := list_append (Some 1) (activeThreads s1)\<rparr>)"

lemmas demo_child_defs = demo_child_def Let_def kernel_boot_defs list_new_def list_append_def

lemma demo_child_reach: "kreach demo_child"
proof -
  let ?s = "kernel_boot (\<lambda>_. 0) (\<lambda>_. [])"
  let ?s1 = "?s\<lparr>threads := (threads ?s)(1 \<mapsto> Thread_new ''child'' [])\<rparr>"
  have "kstep ?s ?s1" by (rule kstep.new_thread) (simp_all add: kernel_boot_defs stk_def)
  moreover have "kstep ?s1 demo_child"
    unfolding demo_child_def Let_def
    by (rule kstep.activate) (simp_all add: kernel_boot_defs stk_def list_new_def)
  ultimately show ?thesis using kreach.boot kreach.step by blast
qed

lemma demo_join:
  "\<exists>s. SC_Join 1 demo_child = Inr s \<and> kreach s \<and> par s 1 = Some 0 \<and> \<not> dead (stk s) 1"
proof -
  have "\<exists>s. SC_Join 1 demo_child = Inr s \<and> par s 1 = Some 0 \<and> \<not> dead (stk s) 1"
    by (simp add: demo_child_defs SC_Join_def getID_def the_id_def list_remove_def list_sorted_remove_def get_thread_def
        upd_thread_def SetLevel_def ChangeLevel_def Sleep_def setStatus_def push_frame_def par_def dead_def stk_def)
  then obtain s where s: "SC_Join 1 demo_child = Inr s" "par s 1 = Some 0" "\<not> dead (stk s) 1" by blast
  have "kstep demo_child s" by (rule kstep.join [OF _ s(1)]) (simp add: demo_child_defs stk_def)
  with demo_child_reach s show ?thesis using kreach.step by blast
qed

theorem scheduler_invariant_witness:
  "kreach demo_child \<and> distinct (ready demo_child)"
  using scheduler_invariant [OF demo_child_reach] demo_child_reach by simp

theorem no_lost_wakeup_witness:
  "kreach demo_child \<and> 0 \<le> val demo_child 5"
  using no_lost_wakeup [OF demo_child_reach, of 5] demo_child_reach by simp

theorem joined_parent_waits_witness:
  "\<exists>s. kreach s \<and> par s 1 = Some 0 \<and> st s 0 = Some BLOCKED \<and> 0 \<notin> set (ready s)"
proof -
  obtain s where "kreach s" "par s 1 = Some 0" "\<not> dead (stk s) 1" using demo_join by blast
  from joined_parent_waits [OF this] this show ?thesis by blast
qed

theorem finished_threads_stay_finished_witness:
  "\<exists>s. kreach s \<and> dead (stk s) 0 \<and> st s 0 = Some BLOCKED"
proof -
  let ?s = "kernel_boot (\<lambda>_. 0) (\<lambda>_. [])"
  have "\<exists>s. Finish 0 ?s = Inr s \<and> dead (stk s) 0"
    by (simp add: Finish_def kernel_boot_defs SetLevel_def ChangeLevel_def get_thread_def Let_def push_frame_def
        upd_thread_def Sleep_def setStatus_def dead_def stk_def)
  then obtain s where s: "Finish 0 ?s = Inr s" "dead (stk s) 0" by blast
  have "currentThread ?s = 0" "stk ?s 0 = []" by (simp_all add: kernel_boot_defs stk_def)
  then have "kstep ?s s" using s(1) by (intro kstep.finish) simp_all
  then have "kreach s" using kreach.boot kreach.step by blast
  from finished_threads_stay_finished [OF this] this s(2) show ?thesis by blast
qed

section \<open>Context switches\<close>

text \<open>
  C26: a context switch preserves the user program. When a thread of a user program is switched out and later switched in
  again, with its saved registers and its address space untouched in between, the machine has its user registers
  and its page table again, whatever the machine was used for meanwhile.
\<close>

theorem context_switch_restores_user_state:
  fixes s s1 s2 :: "'z ksys"
  assumes "Run_out n s = Inr s1" "threads s (currentThread s) = Some th" "space th = Some a"
    and "mach s = Some m" "loaded s = Some a" "length (registers m) = NumTotalRegs"
    and "currentThread s2 = currentThread s" "threads s2 (currentThread s) = Some again" "space again = Some a"
    and "threads s1 (currentThread s) = Some saved" "userRegisters again = userRegisters saved"
    and "spaces s2 a = Some sp" "pageTableSize m = of_nat (numPages sp)" "space_table a s2 = space_table a s1"
    and "threadToBeDestroyed s2 = None" "mach s2 = Some mi" "length (registers mi) = NumTotalRegs"
  shows "\<exists>s3 m3. Run_in s2 = Inr s3 \<and> mach s3 = Some m3 \<and> registers m3 = registers m
    \<and> pageTable m3 = pageTable m \<and> pageTableSize m3 = pageTableSize m"
proof -
  let ?c = "currentThread s"
  have s1: "s1 = (let th' = th\<lparr>userRegisters := registers m\<rparr>; T = (threads s)(?c \<mapsto> th') in
      s\<lparr>threads := T(n \<mapsto> (the (T n))\<lparr>tstatus := RUNNING\<rparr>), currentThread := n\<rparr>)"
    using assms(1-6)
    by (auto simp: Run_out_def Let_def get_thread_def rbind_eq_Inr SaveUserState_def the_machine_def upd_thread_def
      SaveState_def setStatus_def split: option.splits if_splits)
  then have "userRegisters saved = registers m" using assms(10) by (auto simp: Let_def split: if_splits)
  moreover have "space_table a s1 = pageTable m" using s1 assms(4,5) by (simp add: space_table_def Let_def)
  moreover have "RestoreUserState ?c s2 = Inr (s2\<lparr>mach := Some (mi\<lparr>registers := registers m\<rparr>)\<rparr>)"
    using calculation(1) assms(6,8,11,16,17) by (simp add: RestoreUserState_def the_machine_def get_thread_def)
  ultimately show ?thesis using assms(7-9,12-17)
    by (auto simp: Run_in_def destroy_finished_def get_thread_def the_machine_def RestoreState_def
      get_space_def home_def space_table_def split: option.splits if_splits)
qed

text \<open>Main as a user program with one page, and a second thread.\<close>

definition demo_user :: thread_sys where
  "demo_user = demo_child\<lparr>mach := Some one_page, loaded := Some 0,
     spaces := [0 \<mapsto> \<lparr>as_pageTable = None, numPages = 1, swapFileName = None\<rparr>],
     threads := (threads demo_child)(0 \<mapsto> (Thread_new ''main'' [])\<lparr>tstatus := READY, space := Some 0\<rparr>)\<rparr>"

text \<open>The machine is used by another program, whose table is loaded, before main runs again.\<close>

theorem context_switch_restores_user_state_witness:
  "\<exists>s1 s3. Run_out 1 demo_user = Inr s1 \<and>
     Run_in (s1\<lparr>currentThread := 0, mach := Some (Machine_new True True True 9), loaded := None,
       spaces := [0 \<mapsto> \<lparr>as_pageTable = pageTable one_page, numPages = 1, swapFileName = None\<rparr>]\<rparr>) = Inr s3
     \<and> (\<exists>m. mach s3 = Some m \<and> registers m = registers one_page \<and> pageTable m = pageTable one_page)"
proof -
  let ?main = "(Thread_new ''main'' [])\<lparr>tstatus := READY, space := Some 0\<rparr>"
  have d: "currentThread demo_user = 0" "threads demo_user 0 = Some ?main" "mach demo_user = Some one_page"
    "loaded demo_user = Some 0" "length (registers one_page) = NumTotalRegs" "pageTableSize one_page = 1"
    "length (registers (Machine_new True True True 9)) = NumTotalRegs" "threadToBeDestroyed demo_user = None"
    by (simp_all add: demo_user_def demo_child_defs one_page_def Machine_new_def)
  have "\<exists>s1 th1. Run_out 1 demo_user = Inr s1 \<and> threads s1 0 = Some th1 \<and> space th1 = Some 0
      \<and> threadToBeDestroyed s1 = None \<and> loaded s1 = Some 0 \<and> mach s1 = Some one_page"
    by (simp add: demo_user_def demo_child_defs Run_out_def get_thread_def SaveUserState_def the_machine_def one_page_def
        Machine_new_def upd_thread_def SaveState_def CheckOverflow_def setStatus_def)
  then obtain s1 th1 where s1: "Run_out 1 demo_user = Inr s1" "threads s1 0 = Some th1" "space th1 = Some 0"
    "threadToBeDestroyed s1 = None" "loaded s1 = Some 0" "mach s1 = Some one_page" by blast
  let ?sp = "\<lparr>as_pageTable = pageTable one_page, numPages = 1, swapFileName = None\<rparr>"
  let ?s2 = "s1\<lparr>currentThread := 0, mach := Some (Machine_new True True True 9), loaded := None, spaces := [0 \<mapsto> ?sp]\<rparr>"
  have "\<exists>s3 m3. Run_in ?s2 = Inr s3 \<and> mach s3 = Some m3 \<and> registers m3 = registers one_page
    \<and> pageTable m3 = pageTable one_page \<and> pageTableSize m3 = pageTableSize one_page"
    by (rule context_switch_restores_user_state [OF s1(1), where a = 0 and th = ?main and saved = th1 and again = th1
          and mi = "Machine_new True True True 9" and m = one_page and sp = ?sp])
       (use d s1 in \<open>simp_all add: space_table_def\<close>)
  then show ?thesis using s1(1) by blast
qed

section \<open>Waking threads\<close>

text \<open>
  \<^verbatim>\<open>V\<close> wakes in order. From a state that satisfies the invariant, the atomic part of \<^verbatim>\<open>V\<close> always succeeds on an existing
  semaphore: it adds one to the value, and the thread that has waited longest leaves the queue
  and goes to the end of the ready list; nothing else changes place.
\<close>

theorem v_wakes_longest_waiter:
  assumes "sched a s" "semaphores s x = Some sm"
  shows "\<exists>s'. V_core x s = Inr s' \<and> sched a s' \<and> val s' = (val s)(x := val s x + 1) \<and> que s' = (que s)(x := tl (que s x))
    \<and> (que s x = [] \<longrightarrow> ready s' = ready s \<and> st s' = st s)
    \<and> (\<forall>t q. que s x = t # q \<longrightarrow> ready s' = ready s @ [t] \<and> st s' = (st s)(t \<mapsto> READY))"
proof (cases "items (sem_queue sm)")
  case Nil
  let ?s = "put_sem x (sm\<lparr>sem_queue := list_tl (sem_queue sm), sem_value := sem_value sm + 1\<rparr>) s"
  have "V_core x s = Inr ?s" using assms(2) Nil by (simp add: V_core_def get_sem_def list_remove_alt)
  with sched_V_core [OF assms(1) this] Nil show ?thesis
    by (auto simp: view_simps view_sem_at [OF assms(2)])
next
  case (Cons t q)
  have "st s t = Some BLOCKED"
    using queue_headD(1) [OF schedD(4) [OF assms(1)]] Cons view_sem_at [OF assms(2)] by simp
  then obtain th where th: "threads s t = Some th" by (auto simp: st_def)
  let ?s = "put_sem x (sm\<lparr>sem_queue := list_tl (sem_queue sm), sem_value := sem_value sm + 1\<rparr>)
    (s\<lparr>threads := (threads s)(t \<mapsto> th\<lparr>tstatus := READY\<rparr>), readyList := list_append t (readyList s)\<rparr>)"
  have "V_core x s = Inr ?s" using assms(2) Cons th
    by (auto simp: V_core_def get_sem_def list_remove_alt ReadyToRun_def setStatus_def upd_thread_def get_thread_def)
  with sched_V_core [OF assms(1) this] Cons show ?thesis
    by (auto simp: view_simps view_sem_at [OF assms(2)])
qed

theorem v_wakes_longest_waiter_witness:
  "\<exists>(s :: thread_sys) s'. sched False s \<and> V_core 3 s = Inr s' \<and> val s 3 = 2 \<and> val s' 3 = 3"
proof -
  let ?s = "put_sem 3 (Semaphore_new 2) demo_child"
  have "semaphores demo_child 3 = None" by (simp add: demo_child_defs)
  moreover have "sched False demo_child"
    using not_asleep [OF kreach_ok [OF demo_child_reach]] by (simp add: demo_child_defs stk_def)
  ultimately have "sched False ?s" by (intro sched_new_semaphore) simp_all
  moreover have "semaphores ?s 3 = Some (Semaphore_new 2)" by (simp add: put_sem_def)
  ultimately obtain s' where "sched False ?s" "V_core 3 ?s = Inr s'" "val s' = (val ?s)(3 := val ?s 3 + 1)"
    using v_wakes_longest_waiter [of False ?s 3 "Semaphore_new 2"] by blast
  then show ?thesis by (intro exI [of _ ?s] exI [of _ s']) (simp add: view_simps Semaphore_new_def)
qed

text \<open>
  Finishing. A running thread that finishes goes to sleep for good and leaves the list of active threads, which keeps all others;
  the parent that joined it, if any, is ready again and will run before every thread that was ready.
\<close>

theorem finish_wakes_parent:
  assumes "sched False s" "stk s c = []" "c = currentThread s"
  shows "\<exists>s'. Finish c s = Inr s' \<and> st s' c = Some BLOCKED \<and> threadToBeDestroyed s' = Some c
    \<and> ready s' = (case par s c of None \<Rightarrow> ready s | Some p \<Rightarrow> p # ready s)
    \<and> (\<forall>p. par s c = Some p \<longrightarrow> st s' p = Some READY)
    \<and> set (items (activeThreads s')) = set (items (activeThreads s)) - {Some c}"
proof -
  obtain th where th: "threads s c = Some th" using current_status [OF assms(1)] assms(3) by (auto simp: st_def)
  note v = view_thread [OF th]
  let ?act = "purge_active 0 c (activeThreads s)"
  have "counted (activeThreads s) (items (activeThreads s) @ [])" "distinct (items (activeThreads s) @ [])"
    using schedD(7) [OF assms(1)] by (simp_all add: active_ok_def counted_def)
  then have act: "set (items ?act) = set (items (activeThreads s)) - {Some c}"
    using purge_active_from [of "activeThreads s" "items (activeThreads s)" "[]" 0 c] by (auto simp: counted_def)
  show ?thesis
  proof (cases "parent th")
    case None
    then show ?thesis using th assms(3) v act
      by (simp add: Finish_def SetLevel_def ChangeLevel_def Let_def get_thread_def push_frame_def upd_thread_def Sleep_def
          setStatus_def st_def)
  next
    case (Some p)
    have j: "st s p = Some BLOCKED"
      using joins_okD(1) [OF schedD(5) [OF assms(1)], of c p] v Some assms(2) by (simp add: dead_def)
    then have pc: "p \<noteq> c" using current_status [OF assms(1)] assms(3) by auto
    obtain tp where "threads s p = Some tp" using j by (auto simp: st_def)
    then show ?thesis using th assms(3) v act Some pc
      by (simp add: Finish_def SetLevel_def ChangeLevel_def Let_def get_thread_def push_frame_def upd_thread_def Sleep_def
          setStatus_def st_def WakeUpFromJoin_def)
  qed
qed

theorem finish_wakes_parent_witness:
  "\<exists>s'. Finish 0 demo_child = Inr s' \<and> threadToBeDestroyed s' = Some 0 \<and> Some 1 \<in> set (items (activeThreads s'))"
proof -
  have d: "currentThread demo_child = 0" "stk demo_child 0 = []" "items (activeThreads demo_child) = [Some 1]"
    by (simp_all add: demo_child_defs stk_def)
  have "sched False demo_child" using not_asleep [OF kreach_ok [OF demo_child_reach]] d by simp
  from finish_wakes_parent [OF this, of 0] d show ?thesis by auto
qed

end
