(* ===== verification/User_Properties.thy ===== *)
theory User_Properties
  imports User_Isolation Thread_Properties
begin

text \<open>
  Properties of user programs: page faults, new address spaces and their first process, the scheduler and the memory
  of all processes in every reachable state, and the system calls, with a small program that exercises them.
\<close>

section \<open>Page faults\<close>

lemma load_page_mapped:
  assumes l: "load_page (int f) v s = Inr s'" and f: "f < NumPhysPages"
    and c: "threads s (currentThread s) = Some th" "space th = Some a"
  shows "frame_of a (nat v) s' = Some f" "(b, w) \<noteq> (a, nat v) \<Longrightarrow> frame_of b w s' = frame_of b w s"
proof -
  have "frame_of a (nat v) s' = Some f \<and> ((b, w) \<noteq> (a, nat v) \<longrightarrow> frame_of b w s' = frame_of b w s)"
    using l
  proof (rule load_page_cases)
    fix th' a' sp nm m bs s1 and pt :: "TranslationEntry list"
    let ?e = "(pt ! nat v)\<lparr>physicalPage := word_of_int (int f), valid := True\<rparr>"
    assume p: "threads s (currentThread s) = Some th'" "space th' = Some a'" "spaces s a' = Some sp" "mach s = Some m"
      "nat v < length pt"
      "s1 = s\<lparr>IPT := (IPT s)[nat (int f) := Some (currentThread s)], IPT_VP := (IPT_VP s)[nat (int f) := v],
         mach := Some (load_frame (nat (int f)) bs m)\<rparr>"
      "space_table a' s = Some pt" "s' = put_table a' (pt[nat v := ?e]) s1"
    have a: "a' = a" using p(1,2) c by simp
    have sa: "spaces s1 a' \<noteq> None" using p(3,6) by simp
    note q = put_table_frame [OF sa, where pt = "pt[nat v := ?e]", folded p(8)]
    have uf: "unat (word_of_int (int f) :: word32) = f" using f by (simp add: unat_of_nat size_defs)
    have t: "space_table c s1 = space_table c s" for c using p(4,6) by (simp add: space_table_def split: option.splits)
    show ?thesis
      using q(1) q(2) [of b] t p(5,7) uf by (cases "b = a") (auto simp: frame_of_def a nth_list_update)
  qed
  then show "frame_of a (nat v) s' = Some f" "(b, w) \<noteq> (a, nat v) \<Longrightarrow> frame_of b w s' = frame_of b w s" by blast+
qed

lemma frame_bytes_load_same: "length bs = PageSize \<Longrightarrow> frame_bytes (load_frame f bs m) f = bs"
  by (rule nth_equalityI) (auto simp: frame_bytes_def load_frame_def)

lemma load_page_bytes:
  assumes l: "load_page (int f) v s = Inr s'" and m: "mach s = Some m"
    and c: "threads s (currentThread s) = Some th" "space th = Some a" "spaces s a = Some sp" "swapFileName sp = Some nm"
  obtains m' where "mach s' = Some m'"
    "frame_bytes m' f = (let bs = take PageSize (drop (nat v * PageSize) (file_content nm s)) in bs @ drop (length bs) (frame_bytes m f))"
    "\<And>g. g \<noteq> f \<Longrightarrow> frame_bytes m' g = frame_bytes m g" "IPT s' = (IPT s)[f := Some (currentThread s)]" "IPT_VP s' = (IPT_VP s)[f := v]"
  using l
proof (rule load_page_cases)
  fix th' a' sp' nm' m0 bs s1 and pt :: "TranslationEntry list"
  let ?e = "(pt ! nat v)\<lparr>physicalPage := word_of_int (int f), valid := True\<rparr>"
  assume p: "threads s (currentThread s) = Some th'" "space th' = Some a'" "spaces s a' = Some sp'"
    "swapFileName sp' = Some nm'" "mach s = Some m0" "0 \<le> v" "nat v < length pt"
    "stub_ReadAt nm' (frame_bytes m0 (nat (int f))) (int PageSize) (v * int PageSize) s = Inr bs"
    "s1 = s\<lparr>IPT := (IPT s)[nat (int f) := Some (currentThread s)], IPT_VP := (IPT_VP s)[nat (int f) := v],
       mach := Some (load_frame (nat (int f)) bs m0)\<rparr>"
    "s' = put_table a' (pt[nat v := ?e]) s1"
  have e: "a' = a" "nm' = nm" "m0 = m" using p(1-5) c m by simp_all
  have sa: "spaces s1 a' \<noteq> None" using p(3,9) by simp
  note q = put_table_frame [OF sa, where pt = "pt[nat v := ?e]", folded p(10)]
  obtain m' where m': "mach s' = Some m'" "mainMemory m' = mainMemory (load_frame f bs m)" using q(8) p(9) e by auto
  have lb: "length bs = PageSize" using stub_ReadAt_length [OF p(8)] by simp
  have fb: "frame_bytes m' g = frame_bytes (load_frame f bs m) g" for g using m'(2) by (simp add: frame_bytes_def)
  have "nat (v * int PageSize) = nat v * PageSize" using p(6) by (simp add: nat_mult_distrib)
  then have "bs = (let bs = take PageSize (drop (nat v * PageSize) (file_content nm s)) in bs @ drop (length bs) (frame_bytes m f))"
    using p(8) e by (auto simp: stub_ReadAt_def rbind_eq_Inr Let_def split: if_splits)
  moreover have "IPT s' = IPT s1" "IPT_VP s' = IPT_VP s1" by (simp_all add: p(10) put_table_def split: option.splits)
  ultimately show ?thesis using that [OF m'(1)] fb lb p(9) by (simp add: frame_bytes_load_same frame_bytes_load_other)
qed

lemma load_page_works:
  assumes "threads s (currentThread s) = Some th" "space th = Some a" "spaces s a = Some sp" "swapFileName sp = Some nm"
    "host_files s nm = Some bs" "\<not> host_denies s nm" "mach s = Some m" "space_table a s = Some pt" "v < length pt"
    "f < length (IPT s)" "f < length (IPT_VP s)"
  shows "\<exists>s'. load_page (int f) (int v) s = Inr s'"
proof -
  have "stub_Open nm s = Inr (Some nm)" using assms(5,6) by (simp add: stub_Open_def OpenForReadWrite_def)
  moreover have "\<exists>r. stub_ReadAt nm (frame_bytes m f) (int PageSize) (int v * int PageSize) s = Inr r"
    by (simp add: stub_ReadAt_def Lseek_def)
  moreover have "space_table a (s\<lparr>IPT := i, IPT_VP := w, mach := Some (load_frame f r m)\<rparr>) = Some pt" for i w r
    using assms(7,8) by (cases "loaded s") (auto simp: space_table_def)
  ultimately show ?thesis
    using assms by (auto simp: load_page_def get_thread_def get_space_def the_machine_def array_set_int_def array_set_def
        map_page_def array_get_int_def array_get_def)
qed

text \<open>
  C11: a page fault brings the page in. When the faulting address lies in the address space of the current
  thread and a frame is free, the handler succeeds, takes the least free frame and marks it, fills it with the
  page's part of the swap file, maps the page to it and records the owner; every other frame keeps its bytes
  and every other page its frame.
\<close>

theorem page_fault_loads_page:
  assumes "bm_wf (bitMap s)" "numBits (bitMap s) = NumPhysPages" "marked (bitMap s) \<noteq> {..<NumPhysPages}"
    "length (IPT s) = NumPhysPages" "length (IPT_VP s) = NumPhysPages"
    "mach s = Some m" "BadVAddrReg < length (registers m)" "sint (registers m ! BadVAddrReg) = int addr"
    "threads s (currentThread s) = Some th" "space th = Some a" "spaces s a = Some sp" "swapFileName sp = Some nm"
    "host_files s nm = Some bs" "\<not> host_denies s nm" "space_table a s = Some pt" "addr div PageSize < length pt"
  shows "\<exists>f s' m'. PageFault env s = Inr s' \<and> mach s' = Some m' \<and> f < NumPhysPages \<and> f \<notin> marked (bitMap s)
    \<and> (\<forall>g < f. g \<in> marked (bitMap s)) \<and> marked (bitMap s') = insert f (marked (bitMap s))
    \<and> frame_of a (addr div PageSize) s' = Some f
    \<and> (let page = take PageSize (drop (addr div PageSize * PageSize) bs)
       in frame_bytes m' f = page @ drop (length page) (frame_bytes m f))
    \<and> (\<forall>b w. (b, w) \<noteq> (a, addr div PageSize) \<longrightarrow> frame_of b w s' = frame_of b w s)
    \<and> (\<forall>g. g \<noteq> f \<longrightarrow> frame_bytes m' g = frame_bytes m g)
    \<and> IPT s' ! f = Some (currentThread s) \<and> IPT_VP s' ! f = int (addr div PageSize)"
proof -
  let ?v = "addr div PageSize"
  obtain f bm where f: "Find (bitMap s) = Inr (int f, bm)" "f < NumPhysPages" "f \<notin> marked (bitMap s)"
    "\<forall>g < f. g \<in> marked (bitMap s)" "marked bm = insert f (marked (bitMap s))"
    using Find_free_bit [OF assms(1)] assms(2,3) by auto
  define s1 where "s1 = s\<lparr>stats := (stats s)\<lparr>numPageFaults := numPageFaults (stats s) + 1\<rparr>, bitMap := bm\<rparr>"
  have t: "space_table b s1 = space_table b s" for b by (rule space_table_cong) (simp_all add: s1_def)
  have s1: "threads s1 (currentThread s1) = Some th" "spaces s1 a = Some sp" "host_files s1 nm = Some bs" "\<not> host_denies s1 nm"
    "mach s1 = Some m" "f < length (IPT s1)" "f < length (IPT_VP s1)" "frame_of b w s1 = frame_of b w s" "space_table a s1 = Some pt"
    for b w using assms f(2) by (simp_all add: frame_of_def t) (simp_all add: s1_def)
  obtain s' where s': "load_page (int f) (int ?v) s1 = Inr s'"
    using load_page_works [OF s1(1) assms(10) s1(2) assms(12) s1(3-5,9) assms(16) s1(6,7)] by blast
  have "sdivRoundDown (int addr) (int PageSize) = int ?v" 
    using sdivRound_nat(1) [of PageSize addr] by (simp add: divRoundDown_def size_defs)
  moreover have "BadVAddrReg < NumTotalRegs" by (simp add: BadVAddrReg_def NumTotalRegs_def)
  ultimately have "PageFault env s = load_page (int f) (int ?v) s1"
    using assms(6-8) f(1) by (simp add: PageFault_def the_machine_def ReadRegister_def s1_def array_get_int_def array_get_def)
  then have pf: "PageFault env s = Inr s'" using s' by simp
  have bm: "bitMap s' = bm"
    using s' by (rule load_page_cases) (simp add: s1_def put_table_def split: option.splits)
  obtain m' where m': "mach s' = Some m'"
    "frame_bytes m' f = (let bs = take PageSize (drop (nat (int ?v) * PageSize) (file_content nm s1)) in bs @ drop (length bs) (frame_bytes m f))"
    "\<And>g. g \<noteq> f \<Longrightarrow> frame_bytes m' g = frame_bytes m g" "IPT s' = (IPT s1)[f := Some (currentThread s1)]" "IPT_VP s' = (IPT_VP s1)[f := int ?v]"
    using load_page_bytes [OF s' s1(5,1) assms(10) s1(2) assms(12)] by blast
  note fr = load_page_mapped [OF s' f(2) s1(1) assms(10)]
  have "file_content nm s1 = bs" using s1(3) by (simp add: file_content_def)
  with pf m' f bm fr s1(6-8) show ?thesis by (intro exI [of _ f] exI [of _ s'] exI [of _ m']) (auto simp: s1_def)
qed

section \<open>Creating an address space\<close>

lemma small_nat_word:
  assumes "n < 2 ^ 31"
  shows "unat (of_nat n :: word32) = n" "sint (of_nat n :: word32) = int n"
  using assms sint_word_of_int32 [of "int n"] by (simp_all add: unat_of_nat take_bit_nat_eq_self)

definition swap_image :: "unspecified \<Rightarrow> nat \<Rightarrow> byte list \<Rightarrow> byte list" where
  "swap_image env n bs = (let data = take n (drop NoffHeader_size bs) in data @ drop (length data) (new_chars (junk env) (int n)))"

lemma length_swap_image [simp]: "length (swap_image env n bs) = n"
  by (simp add: swap_image_def new_chars_def Let_def)

lemma AddrSpace_new_works:
  assumes "read_header env exe s = Inr h" "noffMagic h = NOFFMAGIC" "space_size h = Inr sz"
    "divRoundUp (unat sz) PageSize * PageSize < 2 ^ 31" "bm_wf (bitMap s)"
    "\<not> host_denies s (swap_name tid)" "swap_name tid \<noteq> exe" "host_files s exe = Some bs"
  shows "AddrSpace_new env exe tid s = Inr (\<lparr>as_pageTable = Some (new_table (stray_frame env) (divRoundUp (unat sz) PageSize)),
      numPages = divRoundUp (unat sz) PageSize, swapFileName = Some (swap_name tid)\<rparr>,
    s\<lparr>host_files := (host_files s)(swap_name tid \<mapsto> swap_image env (divRoundUp (unat sz) PageSize * PageSize) bs)\<rparr>)"
proof -
  define pages n where "pages = divRoundUp (unat sz) PageSize" and n: "n = pages * PageSize"
  let ?s1 = "s\<lparr>host_files := (host_files s)(swap_name tid \<mapsto> [])\<rparr>"
  have t: "unat (of_nat n :: word32) = n" "sint (of_nat n :: word32) = int n" "\<not> 2 ^ 31 \<le> n"
    using assms(4) small_nat_word [of n] by (simp_all add: n pages_def)
  have "stub_Create (swap_name tid) i s = Inr (True, ?s1)" for i
    using assms(6) by (simp add: stub_Create_def OpenForWrite_def)
  moreover have "stub_Open (swap_name tid) ?s1 = Inr (Some (swap_name tid))"
    using assms(6) by (simp add: stub_Open_def OpenForReadWrite_def)
  moreover have "stub_ReadAt exe (new_chars (junk env) (int n)) (int n) (int NoffHeader_size) ?s1 = Inr (swap_image env n bs)"
    using assms(7,8) by (simp add: stub_ReadAt_def Lseek_def file_content_def swap_image_def new_chars_def Let_def)
  moreover have "stub_WriteAt (swap_name tid) (swap_image env n bs) (int n) 0 ?s1
      = Inr (s\<lparr>host_files := (host_files s)(swap_name tid \<mapsto> swap_image env n bs)\<rparr>)"
    by (simp add: stub_WriteAt_def Lseek_def file_content_def overlay_def)
  ultimately show ?thesis
    using assms(1-3,5) t NumClear_spec [OF assms(5)]
    by (simp add: AddrSpace_new_def Let_def del: of_nat_mult flip: pages_def n)
qed

text \<open>
  A new address space holds the program. For a valid executable whose size fits, the constructor
  succeeds; the space has as many pages as code, data and stack need, none of them in memory, and its own swap file
  holds the bytes after the header of the executable; no other file changes.
\<close>

theorem addr_space_holds_program:
  assumes "read_header env exe s = Inr h" "noffMagic h = NOFFMAGIC" "space_size h = Inr sz"
    "divRoundUp (unat sz) PageSize * PageSize < 2 ^ 31" "bm_wf (bitMap s)"
    "\<not> host_denies s (swap_name tid)" "swap_name tid \<noteq> exe" "host_files s exe = Some bs"
  shows "\<exists>sp s' pt swapped. AddrSpace_new env exe tid s = Inr (sp, s')
    \<and> numPages sp = divRoundUp (unat sz) PageSize \<and> as_pageTable sp = Some pt \<and> length pt = numPages sp
    \<and> (\<forall>e \<in> set pt. \<not> valid e) \<and> swapFileName sp = Some (swap_name tid)
    \<and> s' = s\<lparr>host_files := (host_files s)(swap_name tid \<mapsto> swapped)\<rparr> \<and> length swapped = numPages sp * PageSize
    \<and> take (length bs - NoffHeader_size) swapped = take (length swapped) (drop NoffHeader_size bs)"
proof -
  have "take (length bs - NoffHeader_size) (swap_image env n bs) = take n (drop NoffHeader_size bs)" for n
    by (simp add: swap_image_def Let_def min_def)
  then show ?thesis using AddrSpace_new_works [OF assms] by (auto simp: new_table_def)
qed

section \<open>Reachable states of the whole system\<close>

text \<open>
  C4: user programs do not break the scheduler. Whatever instructions and system calls they execute, in every
  state reached from the boot of the machine the ready list holds exactly the ready threads, each once, at most the
  current thread is running, and every thread waits in at most one queue, once, and is blocked while it does.
\<close>

theorem user_programs_keep_scheduler:
  assumes "ureach ok s"
  shows "distinct (ready s) \<and> (\<forall>t. t \<in> set (ready s) \<longleftrightarrow> st s t = Some READY)
    \<and> st s (currentThread s) \<noteq> None \<and> (\<forall>t. st s t = Some RUNNING \<longrightarrow> t = currentThread s)
    \<and> (\<forall>x. distinct (que s x) \<and> (\<forall>t \<in> set (que s x). st s t = Some BLOCKED))
    \<and> (\<forall>x y t. t \<in> set (que s x) \<and> t \<in> set (que s y) \<longrightarrow> x = y)"
proof -
  obtain a ks where o: "ready_ok (st s) (ready s)" "current_ok a (st s) (currentThread s)" "queues_ok (st s) ks (que s)"
    using sched_ok_views [OF ureach_sched [OF assms]] .
  have "st s (currentThread s) \<noteq> None" "\<forall>t. st s t = Some RUNNING \<longrightarrow> t = currentThread s"
    using o(2) by (auto simp: current_ok_def split: if_splits)
  with o(1) queues_okD [OF o(3)] show ?thesis unfolding ready_ok_def by blast
qed

text \<open>
  C2: processes are isolated. On a machine without a TLB, as long as every file that is loaded is in Nachos object
  format (for another file the constructor of the address space returns before it makes a page table and leaves the one
  it finds in memory) and no address space has been deleted, every frame that some page is mapped to is marked, no two
  pages share a frame, and whatever happens next leaves the pages of all address spaces but those of the machine and
  the current thread in the same frames with the same bytes.
\<close>

theorem processes_are_isolated:
  assumes "mreach s" "pstep s s'" "dom (spaces s) \<subseteq> dom (spaces s')"
  shows "(\<forall>a v f. frame_of a v s = Some f \<longrightarrow> f \<in> marked (bitMap s))
    \<and> (\<forall>a b v w f. frame_of a v s = Some f \<and> frame_of b w s = Some f \<longrightarrow> a = b \<and> v = w)
    \<and> (\<forall>b v x. b \<notin> touch s \<and> page_of b v s = Some x \<longrightarrow> page_of b v s' = Some x)"
proof -
  have ok: "mem_ok s" by (rule mreach_ok [OF assms(1)])
  have "isolated (touch s) s s'" using pstep_memok [OF assms(2) ok] assms(3) by (simp add: kept_def)
  moreover have "private_frames s" using ok by (simp add: mem_ok_def)
  ultimately show ?thesis unfolding isolated_def private_frames_def by blast
qed

lemma clear_frames_bits: "clear_frames is b = clear_bits is b"
  by (induction "is" arbitrary: b) (simp_all cong: rbind_cong)

text \<open>
  C40: deleting an address space breaks the isolation of the others. The destructor clears the frame map
  entirely, while the pages of every other address space stay mapped to their frames, so that those frames are
  given out again.
\<close>

theorem delete_frees_foreign_frames:
  assumes "bm_wf (bitMap s)" "numBits (bitMap s) = NumPhysPages" "spaces s a \<noteq> None" "a \<noteq> b" "frame_of b v s = Some f"
  shows "\<exists>s'. delete_space a s = Inr s' \<and> marked (bitMap s') = {} \<and> frame_of b v s' = Some f \<and> spaces s' a = None
    \<and> (\<exists>bm. Find (bitMap s') = Inr (0, bm))"
proof -
  obtain sp where sp: "spaces s a = Some sp" using assms(3) by auto
  obtain bm where bm: "clear_frames [0..<NumPhysPages] (bitMap s) = Inr bm" "bm_wf bm" "numBits bm = NumPhysPages" "marked bm = {}"
    using clear_bits_spec [OF assms(1), of "[0..<NumPhysPages]"] assms(2) marked_subset [of "bitMap s"]
    by (auto simp: clear_frames_bits lessThan_atLeast0)
  have "marked bm \<noteq> {..<numBits bm}" using bm(3,4) lessThan_empty_iff [of "32 :: nat"] by (simp add: size_defs)
  from Find_free_bit [OF bm(2) this] bm(4) have f: "\<exists>bm'. Find bm = Inr (0, bm')" by force
  let ?s2 = "case swapFileName sp of None \<Rightarrow> s\<lparr>bitMap := bm\<rparr> | Some nm \<Rightarrow> snd (stub_Remove nm (s\<lparr>bitMap := bm\<rparr>))"
  let ?s' = "?s2\<lparr>spaces := (spaces ?s2)(a := None), loaded := (if loaded ?s2 = Some a then None else loaded ?s2)\<rparr>"
  have e: "spaces ?s2 = spaces s" "loaded ?s2 = loaded s" "mach ?s2 = mach s" "bitMap ?s2 = bm"
    by (simp_all add: stub_Remove_def Unlink_def split: option.splits)
  have "delete_space a s = Inr ?s'" using bm(1) sp by (simp only: delete_space_def get_space_def Let_def rbind_simps option.case)
  moreover have "space_table b ?s' = space_table b s"
    using e assms(4) by (simp add: space_table_def split: option.splits)
  then have "frame_of b v ?s' = Some f" using assms(5) by (simp add: frame_of_def)
  ultimately show ?thesis using e(4) bm(4) f by (intro exI [of _ ?s']) simp
qed


section \<open>Write comes to an end\<close>

text \<open>Computations that do not run out of fuel.\<close>

definition bounded :: "'a result \<Rightarrow> bool" where
  "bounded r \<longleftrightarrow> r \<noteq> Inl Out_Of_Fuel"

named_theorems bounded_rules

lemma bounded_basic [bounded_rules]:
  "bounded (Inr x)" "bounded (ASSERT c)" "bounded (array_get xs i)" "bounded (array_set xs i v)"
  "bounded (array_get_int xs j)" "bounded (array_set_int xs j v)" "bounded (the_machine s)" "bounded (get_thread t s)"
  "bounded (get_space a s)" "bounded (Inl Null_Deref)" "bounded (Inl Halted)" "bounded (Inl Bad_Index)" "bounded (Inl Assert_Failed)"
  by (auto simp: bounded_def ASSERT_def array_get_def array_set_def array_get_int_def array_set_int_def the_machine_def
      get_thread_def get_space_def split: option.splits)

lemma bounded_rbind [bounded_rules]: "bounded m \<Longrightarrow> (\<And>a. m = Inr a \<Longrightarrow> bounded (f a)) \<Longrightarrow> bounded (rbind m f)"
  by (cases m) (auto simp: bounded_def)

lemma bounded_cases [bounded_rules]:
  "(c \<Longrightarrow> bounded x) \<Longrightarrow> (\<not> c \<Longrightarrow> bounded y) \<Longrightarrow> bounded (if c then x else y)"
  "(o' = None \<Longrightarrow> bounded x) \<Longrightarrow> (\<And>v. o' = Some v \<Longrightarrow> bounded (f v)) \<Longrightarrow> bounded (case o' of None \<Rightarrow> x | Some v \<Rightarrow> f v)"
  "(\<And>a b. q = (a, b) \<Longrightarrow> bounded (g a b)) \<Longrightarrow> bounded (case q of (a, b) \<Rightarrow> g a b)"
  "bounded (h x') \<Longrightarrow> bounded (Let x' h)"
  by (cases o'; cases q; simp)+

lemma bounded_Find [bounded_rules]: "bounded (Find b)"
proof -
  have "bounded (find_from i b)" for i
    by (induction i b rule: find_from.induct) (subst find_from.simps, auto intro!: bounded_rules simp: Test_def Mark_def)
  then show ?thesis by (simp add: Find_def)
qed

lemma bounded_clear_frames [bounded_rules]: "bounded (clear_frames is b)"
  by (induction "is" b rule: clear_frames.induct) (auto intro!: bounded_rules simp: Clear_def)

lemma bounded_Translate [bounded_rules]: "bounded (Translate va sz w m)"
  unfolding Translate_def find_entry_def entry_at_def set_entry_def
  by (intro bounded_rules | auto split: lookup.splits intro!: bounded_rules)+

lemma bounded_ReadMem [bounded_rules]: "bounded (ReadMem va sz m)"
  unfolding ReadMem_def RaiseException_def DelayedLoad_def set_reg_def reg_def
  by (intro bounded_rules | auto split: sum.splits intro!: bounded_rules)+

lemma bounded_PageFault [bounded_rules]: "bounded (PageFault env s)"
  unfolding PageFault_def load_page_def evict_page_def map_page_def ReadRegister_def stub_Open_def OpenForReadWrite_def
    stub_ReadAt_def Lseek_def Random_def
  by (intro bounded_rules)

lemma bounded_kill_process [bounded_rules]: "bounded (kill_process env s)"
  unfolding kill_process_def delete_space_def Finish_def SetLevel_def Sleep_def setStatus_def push_frame_def
    upd_thread_def WakeUpFromJoin_def
  by (intro bounded_rules | simp)+


lemma bounded_kernel_read [bounded_rules]: "bounded (kernel_access env (ReadMem va 1) s)"
  unfolding kernel_access_def fault_handler_def
  by (intro bounded_rules | auto split: access.splits ExceptionType.splits intro!: bounded_rules)+

text \<open>The program that runs is the one whose page table the machine has.\<close>

definition runs :: "nat \<Rightarrow> 'z usys \<Rightarrow> bool" where
  "runs a s \<longleftrightarrow> loaded s = Some a \<and> (\<exists>th. threads s (currentThread s) = Some th \<and> space th = Some a)
     \<and> (\<exists>m. mach s = Some m \<and> regs_ok m)"

lemma Translate_page_fault:
  assumes "tlb m = None" "Translate va 1 w m = Inr (Inl exc, m')"
  shows "exc \<noteq> NoException" "exc = PageFaultException \<Longrightarrow>
    \<exists>pt. pageTable m = Some pt \<and> unat va div PageSize < length pt \<and> \<not> valid (pt ! (unat va div PageSize))"
  using assms
  by (auto simp: Translate_def Let_def rbind_eq_Inr find_entry_def entry_at_def set_entry_def array_get_eq_Inr
      array_set_eq_Inr size_defs unat_div misaligned_def split: if_splits option.splits lookup.splits)

lemma read_trap:
  assumes "tlb m = None" "regs_ok m" "ReadMem va 1 m = Inr (Trap exc m1)"
  shows "regs_ok m1" "registers m1 ! BadVAddrReg = va" "m1 = m\<lparr>registers := registers m1\<rparr>" "exc \<noteq> NoException"
    "exc = PageFaultException \<Longrightarrow> \<exists>pt. pageTable m = Some pt \<and> unat va div PageSize < length pt \<and> \<not> valid (pt ! (unat va div PageSize))"
proof -
  obtain m0 where t: "Translate va 1 False m = Inr (Inl exc, m0)" "RaiseException va m0 = Inr m1"
  proof -
    obtain r m0 where t: "Translate va 1 False m = Inr (r, m0)" using assms(3) by (auto simp: ReadMem_def rbind_eq_Inr)
    then show ?thesis using assms(3) by (cases r) (auto simp: ReadMem_def rbind_eq_Inr intro: that)
  qed
  then have e: "RaiseException va m = Inr m1" using Translate_fault by blast
  have "regs_ok m1 \<and> registers m1 ! BadVAddrReg = va \<and> m1 = m\<lparr>registers := registers m1\<rparr>"
    by (rule RaiseException_ok [OF assms(2), of va]) (use e in auto)
  with Translate_page_fault [OF assms(1) t(1)] show "regs_ok m1" "registers m1 ! BadVAddrReg = va"
    "m1 = m\<lparr>registers := registers m1\<rparr>" "exc \<noteq> NoException"
    "exc = PageFaultException \<Longrightarrow> \<exists>pt. pageTable m = Some pt \<and> unat va div PageSize < length pt \<and> \<not> valid (pt ! (unat va div PageSize))"
    by blast+
qed

lemma PageFault_brings:
  assumes ok: "mem_ok s" and r: "runs a s" and m: "mach s = Some m" "registers m ! BadVAddrReg = va" "unat va < 2 ^ 31"
    and pf: "PageFault env s = Inr s'" and free: "marked (bitMap s) \<noteq> {..<NumPhysPages}"
  shows "frame_of a (unat va div PageSize) s' \<noteq> None"
    "frame_of a w s \<noteq> None \<Longrightarrow> frame_of a w s' \<noteq> None"
    "card (marked (bitMap s')) = Suc (card (marked (bitMap s)))" "runs a s'"
proof -
  define s0 where "s0 = s\<lparr>stats := (stats s)\<lparr>numPageFaults := numPageFaults (stats s) + 1\<rparr>\<rparr>"
  obtain th where th: "threads s (currentThread s) = Some th" "space th = Some a" using r by (auto simp: runs_def)
  have b: "bm_wf (bitMap s)" "numBits (bitMap s) = NumPhysPages" using ok by (simp_all add: mem_ok_def)
  have rg: "regs_ok m" using r m(1) by (simp add: runs_def)
  have "sint va = int (unat va)" using small_nat_word(2) [OF m(3)] by simp
  then have v: "sdivRoundDown (sint va) (int PageSize) = int (unat va div PageSize)"
    using sdivRound_nat(1) [of PageSize "unat va"] by (simp add: divRoundDown_def size_defs)
  obtain f bm where f: "Find (bitMap s) = Inr (int f, bm)" "f < NumPhysPages" "f \<notin> marked (bitMap s)"
    "marked bm = insert f (marked (bitMap s))" using Find_free_bit [OF b(1)] b(2) free by auto
  let ?s1 = "s0\<lparr>bitMap := bm\<rparr>"
  have "ReadRegister (int BadVAddrReg) m = Inr va"
    using rg m(2) by (simp add: ReadRegister_def regs_ok_def reg_defs)
  then have l: "load_page (int f) (int (unat va div PageSize)) ?s1 = Inr s'"
    using pf m(1) f(1) v by (simp add: PageFault_def the_machine_def s0_def)
  have t: "space_table b ?s1 = space_table b s" for b by (rule space_table_cong) (simp_all add: s0_def)
  have th1: "threads ?s1 (currentThread ?s1) = Some th" using th by (simp add: s0_def)
  note fr = load_page_mapped [OF l f(2) th1 th(2)]
  show "frame_of a (unat va div PageSize) s' \<noteq> None" using fr(1) by simp
  show "frame_of a w s' \<noteq> None" if "frame_of a w s \<noteq> None"
    using fr(1) fr(2) [of a w] that by (cases "w = unat va div PageSize") (auto simp: frame_of_def t)
  have "bitMap s' = bm \<and> runs a s'"
    using l
  proof (rule load_page_cases)
    fix s1 a' sp th' m0 bs and pt :: "TranslationEntry list" and fb
    assume p: "threads ?s1 (currentThread ?s1) = Some th'" "spaces ?s1 a' = Some sp" "space th' = Some a'" "mach ?s1 = Some m0"
      "s1 = s0\<lparr>bitMap := bm, IPT := (IPT ?s1)[nat (int f) := Some (currentThread ?s1)], IPT_VP := (IPT_VP ?s1)[nat (int f) := int (unat va div PageSize)],
       mach := Some (load_frame (nat (int f)) bs m0)\<rparr>" "s' = put_table a' (pt[nat (int (unat va div PageSize)) := fb]) s1"
    have sa: "spaces s1 a' \<noteq> None" using p(2,5) by simp
    note q = put_table_frame [OF sa, where pt = "pt[nat (int (unat va div PageSize)) := fb]", folded p(6)]
    have "m0 = m" using p(4) m(1) by (simp add: s0_def)
    with q(8) p(5) obtain m' where "mach s' = Some m'" "registers m' = registers m" by auto
    then show ?thesis using q(3,4,6,7) p(5) r rg th by (simp add: runs_def regs_ok_def s0_def)
  qed
  moreover have "finite (marked (bitMap s))" using marked_subset finite_subset by blast
  ultimately show "card (marked (bitMap s')) = Suc (card (marked (bitMap s)))" "runs a s'"
    using f(3,4) by auto
qed

text \<open>The pages a string of at most 500 bytes can lie on, and those of them that are not in memory.\<close>

definition string_pages :: "word32 \<Rightarrow> nat set" where
  "string_pages arg = (\<lambda>i. unat (arg + of_nat i) div PageSize) ` {..500}"

definition absent :: "nat \<Rightarrow> word32 \<Rightarrow> 'z usys \<Rightarrow> nat set" where
  "absent a arg s = {v \<in> string_pages arg. frame_of a v s = None}"

lemma finite_absent [simp]: "finite (absent a arg s)"
  by (simp add: absent_def string_pages_def)

lemma kernel_read_got:
  assumes ok: "mem_ok s" and r: "runs a s" and k: "kernel_access env (ReadMem va 1) s = Inr (Got i, s')"
  shows "mem_ok s'" "runs a s'" "bitMap s' = bitMap s" "frame_of a w s' = frame_of a w s"
proof -
  obtain m y where m: "mach s = Some m" "ReadMem va 1 m = Inr y"
    "(case y of Done v m1 \<Rightarrow> Inr (Got v, s\<lparr>mach := Some m1\<rparr>)
     | Trap exc m1 \<Rightarrow> rbind (fault_handler env exc (s\<lparr>mach := Some m1, status := SystemMode\<rparr>)) (\<lambda>(ret, s1).
         Inr (if ret then (Failed, s1\<lparr>status := UserMode\<rparr>) else (Gone, s1)))) = Inr (Got i, s')"
    using k by (auto simp: kernel_access_def rbind_eq_Inr the_machine_Inr)
  then obtain m1 where d: "ReadMem va 1 m = Inr (Done i m1)" "s' = s\<lparr>mach := Some m1\<rparr>"
    by (cases y) (auto simp: rbind_eq_Inr split: if_splits)
  have t: "tlb m = None" "regs_ok m" using ok r m(1) by (auto simp: mem_ok_def runs_def)
  have w: "within m m1" by (rule ReadMem_within [OF t(1)]) (use d in blast)
  show "frame_of a w s' = frame_of a w s" using within_frame_of [OF m(1)] w d(2) by (simp add: within_def)
  show "mem_ok s'" using within_mok [OF ok m(1) w] d(2) by (simp add: mok_def)
  obtain x m0 where x: "Translate va 1 False m = Inr (x, m0)" using d(1) by (auto simp: ReadMem_def rbind_eq_Inr)
  then obtain pa where "Translate va 1 False m = Inr (Inr pa, m1)"
    using d(1) by (cases x) (auto simp: ReadMem_def rbind_eq_Inr)
  then have "registers m1 = registers m" by (rule Translate_page [OF t(1)]) simp
  then show "runs a s'" "bitMap s' = bitMap s" using r m(1) d(2) by (auto simp: runs_def regs_ok_def)
qed

lemma kernel_read_failed:
  assumes ok: "mem_ok s" and r: "runs a s" and b: "unat va < 2 ^ 31"
    and k: "kernel_access env (ReadMem va 1) s = Inr (Failed, s')"
  shows "frame_of a (unat va div PageSize) s = None"
    "marked (bitMap s) \<noteq> {..<NumPhysPages} \<Longrightarrow> mem_ok s' \<and> runs a s' \<and> frame_of a (unat va div PageSize) s' \<noteq> None
       \<and> (\<forall>w. frame_of a w s \<noteq> None \<longrightarrow> frame_of a w s' \<noteq> None)
       \<and> card (marked (bitMap s')) = Suc (card (marked (bitMap s)))"
proof -
  obtain m y where m: "mach s = Some m" "ReadMem va 1 m = Inr y"
    "(case y of Done v m1 \<Rightarrow> Inr (Got v, s\<lparr>mach := Some m1\<rparr>)
     | Trap exc m1 \<Rightarrow> rbind (fault_handler env exc (s\<lparr>mach := Some m1, status := SystemMode\<rparr>)) (\<lambda>(ret, s1).
         Inr (if ret then (Failed, s1\<lparr>status := UserMode\<rparr>) else (Gone, s1)))) = Inr (Failed, s')"
    using k by (auto simp: kernel_access_def rbind_eq_Inr the_machine_Inr)
  then obtain exc m1 s1 where f: "ReadMem va 1 m = Inr (Trap exc m1)" "s' = s1\<lparr>status := UserMode\<rparr>"
    "fault_handler env exc (s\<lparr>mach := Some m1, status := SystemMode\<rparr>) = Inr (True, s1)"
    by (cases y) (auto simp: rbind_eq_Inr split: if_splits)
  have t: "tlb m = None" "regs_ok m" and l: "loaded s = Some a" using ok r m(1) by (auto simp: mem_ok_def runs_def)
  note tr = read_trap [OF t f(1)]
  have e: "exc = PageFaultException" using f(3) tr(4) by (cases exc) (auto simp: fault_handler_def rbind_eq_Inr)
  let ?s = "s\<lparr>mach := Some m1, status := SystemMode\<rparr>"
  show "frame_of a (unat va div PageSize) s = None"
    using tr(5) [OF e] space_table_loaded [OF l m(1)] by (auto simp: frame_of_def)
  have pf: "PageFault env ?s = Inr s1" using f(3) e by (auto simp: fault_handler_def rbind_eq_Inr)
  have "same_mem s ?s" using m(1) arg_cong [OF tr(3), of "\<lambda>m. m\<lparr>registers := []\<rparr>"] by (simp add: same_mem_def)
  note sm = same_mem_pages [OF this]
  have ok1: "mem_ok ?s" and r1: "runs a ?s" using sm(4) ok r tr(1) by (auto simp: runs_def)
  have "same_mem s1 s'" using f(2) by (simp add: same_mem_def)
  note sm' = same_mem_pages [OF this]
  show "mem_ok s' \<and> runs a s' \<and> frame_of a (unat va div PageSize) s' \<noteq> None
       \<and> (\<forall>w. frame_of a w s \<noteq> None \<longrightarrow> frame_of a w s' \<noteq> None)
       \<and> card (marked (bitMap s')) = Suc (card (marked (bitMap s)))" if "marked (bitMap s) \<noteq> {..<NumPhysPages}"
  proof -
    note br = PageFault_brings [OF ok1 r1 _ tr(2) b pf]
    have "mem_ok s1" using PageFault_mok [OF ok1 pf] by (simp add: mok_def)
    moreover have "runs a s' = runs a s1" "bitMap s' = bitMap s1" using f(2) by (simp_all add: runs_def)
    ultimately show ?thesis using br that unfolding sm'(2,4) sm(2) [symmetric] by simp
  qed
qed

lemma write_loop_bounded:
  assumes "mem_ok s" "runs a s" "unat arg + 500 < 2 ^ 31" "length ch \<le> 500"
    "card (absent a arg s) + card (marked (bitMap s)) \<le> NumPhysPages" "501 - length ch + card (absent a arg s) < n"
  shows "bounded (write_loop n env arg ch s)"
  using assms
proof (induction n arbitrary: s ch)
  case (Suc n)
  define va where "va = arg + of_nat (length ch)"
  have va: "unat va = unat arg + length ch" using Suc.prems(3,4)
    by (simp add: va_def unat_word_ariths unat_of_nat take_bit_nat_eq_self)
  have pg: "unat va div PageSize \<in> string_pages arg" using Suc.prems(4) by (auto simp: string_pages_def va_def)
  show ?case unfolding write_loop.simps va_def [symmetric]
  proof (intro bounded_rules)
    fix p x s1 assume k: "kernel_access env (ReadMem va 1) s = Inr p" "p = (x, s1)"
    show "bounded (case x of Got i \<Rightarrow> if 500 \<le> length ch then Inl Bad_Index
        else if (ucast i :: byte) = 0 then Inr (Got ch, s1) else write_loop n env arg (ch @ [ucast i]) s1
      | Failed \<Rightarrow> write_loop n env arg ch s1 | Gone \<Rightarrow> Inr (Gone, s1))"
    proof (cases x)
      case (Got i)
      note g = kernel_read_got [OF Suc.prems(1,2) k(1) [unfolded k(2) Got]]
      have "absent a arg s1 = absent a arg s" using g(4) by (simp add: absent_def)
      with Suc.prems(5,6) g(3) have "bounded (write_loop n env arg (ch @ [ucast i]) s1)" if "length ch < 500"
        using that by (intro Suc.IH [OF g(1,2) Suc.prems(3)]) simp_all
      then show ?thesis unfolding Got nested.case by (intro bounded_rules) simp_all
    next
      case Failed
      note f = kernel_read_failed [OF Suc.prems(1,2) _ k(1) [unfolded k(2) Failed]]
      have b: "unat va < 2 ^ 31" using va Suc.prems(3,4) by simp
      have v: "unat va div PageSize \<in> absent a arg s" using f(1) [OF b] pg by (simp add: absent_def)
      then have "card (absent a arg s) \<noteq> 0" by auto
      then have "card (marked (bitMap s)) \<noteq> card {..<NumPhysPages}" using Suc.prems(5) unfolding card_lessThan by linarith
      then have "marked (bitMap s) \<noteq> {..<NumPhysPages}" by metis
      note f2 = f(2) [OF b this]
      have "absent a arg s1 \<subseteq> absent a arg s" using f2 unfolding absent_def by blast
      moreover have "unat va div PageSize \<notin> absent a arg s1" using f2 by (simp add: absent_def)
      ultimately have "absent a arg s1 \<subset> absent a arg s" using v by blast
      then have "card (absent a arg s1) < card (absent a arg s)" by (simp add: psubset_card_mono)
      with f2 Suc.prems(4-6) have "bounded (write_loop n env arg ch s1)"
        by (intro Suc.IH [OF _ _ Suc.prems(3,4)]) simp_all
      then show ?thesis by (simp add: Failed)
    qed (simp add: bounded_rules)
  qed
qed simp

text \<open>
  C13: \<^verbatim>\<open>Write\<close> comes to an end. When the program that calls it runs on its own page table and there are as many free
  frames as pages its string can lie on that are not in memory, the loop that copies the string ends within
  its bound, whatever the memory holds: at a zero byte, at the end of the array or with the end of the thread.
\<close>

theorem write_terminates:
  assumes "mem_ok s" "runs a s" "unat arg + 500 < 2 ^ 31" "card (absent a arg s) + card (marked (bitMap s)) \<le> NumPhysPages"
  shows "SC_Write env arg fd s \<noteq> Inl Out_Of_Fuel"
proof -
  have "card (absent a arg s) \<le> 32" using assms(4) unfolding NumPhysPages_def by linarith
  then have "bounded (write_loop 1002 env arg [] s)"
    by (intro write_loop_bounded [OF assms(1-3) _ assms(4)]) simp_all
  then have "bounded (SC_Write env arg fd s)"
    unfolding SC_Write_def SWrite_def by (intro bounded_rules | auto split: nested.splits intro!: bounded_rules)+
  then show ?thesis by (simp add: bounded_def)
qed

section \<open>Starting the first process\<close>

lemma clear_registers_spec:
  assumes "length (registers m) = NumTotalRegs" "\<forall>i \<in> set is. i < NumTotalRegs"
  shows "\<exists>r. clear_registers is m = Inr (m\<lparr>registers := r\<rparr>) \<and> length r = NumTotalRegs
    \<and> (\<forall>i < NumTotalRegs. r ! i = (if i \<in> set is then 0 else registers m ! i))"
  using assms
proof (induction "is" arbitrary: m)
  case Nil
  then show ?case by (intro exI [of _ "registers m"]) simp
next
  case (Cons i "is")
  let ?m = "m\<lparr>registers := (registers m)[i := 0]\<rparr>"
  have "WriteRegister (int i) 0 m = Inr ?m" using Cons.prems by (simp add: WriteRegister_def)
  with Cons.IH [of ?m] Cons.prems show ?case by (auto simp: nth_list_update)
qed

lemma InitRegisters_works:
  assumes "mach s = Some m" "length (registers m) = NumTotalRegs" "spaces s a = Some sp"
  shows "\<exists>r. InitRegisters a s = Inr (s\<lparr>mach := Some (m\<lparr>registers := r\<rparr>)\<rparr>) \<and> length r = NumTotalRegs
    \<and> (\<forall>i < NumTotalRegs. r ! i = (if i = NextPCReg then 4 else if i = StackReg then of_nat (numPages sp * PageSize) - 16 else 0))"
proof -
  obtain r where r: "clear_registers [0..<NumTotalRegs] m = Inr (m\<lparr>registers := r\<rparr>)" "length r = NumTotalRegs"
    "\<forall>i < NumTotalRegs. r ! i = 0" using clear_registers_spec [OF assms(2), of "[0..<NumTotalRegs]"] by auto
  let ?r = "r[PCReg := 0, NextPCReg := 4, StackReg := of_nat (numPages sp * PageSize) - 16]"
  have "InitRegisters a s = Inr (s\<lparr>mach := Some (m\<lparr>registers := ?r\<rparr>)\<rparr>)"
    using assms r(1,2) by (simp add: InitRegisters_def the_machine_def get_space_def WriteRegister_def reg_defs)
  moreover have "?r ! i = (if i = NextPCReg then 4 else if i = StackReg then of_nat (numPages sp * PageSize) - 16 else 0)" if "i < NumTotalRegs" for i
    using that r(2,3) by (auto simp: nth_list_update reg_defs)
  ultimately show ?thesis using r(2) by (intro exI [of _ ?r]) simp
qed

lemma StartProcess_works:
  assumes "stub_Open nm s = Inr (Some exe)" "AddrSpace_new env exe 0 s = Inr (sp, s1)"
    "mach s1 = Some m" "length (registers m) = NumTotalRegs" "loaded s1 = None" "threads s1 (currentThread s1) = Some th"
  shows "\<exists>r. StartProcess env nm s = Inr (s1\<lparr>mach := Some (m\<lparr>registers := r, pageTable := as_pageTable sp, pageTableSize := of_nat (numPages sp)\<rparr>),
      spaces := (spaces s1)(new_space env \<mapsto> sp), loaded := Some (new_space env),
      threads := (threads s1)(currentThread s1 \<mapsto> th\<lparr>space := Some (new_space env)\<rparr>), status := UserMode\<rparr>)
    \<and> length r = NumTotalRegs
    \<and> (\<forall>i < NumTotalRegs. r ! i = (if i = NextPCReg then 4 else if i = StackReg then of_nat (numPages sp * PageSize) - 16 else 0))"
proof -
  let ?s2 = "s1\<lparr>spaces := (spaces s1)(new_space env \<mapsto> sp), threads := (threads s1)(currentThread s1 \<mapsto> th\<lparr>space := Some (new_space env)\<rparr>)\<rparr>"
  have u: "upd_thread (currentThread s1) (\<lambda>th. th\<lparr>space := Some (new_space env)\<rparr>) (s1\<lparr>spaces := (spaces s1)(new_space env \<mapsto> sp)\<rparr>) = Inr ?s2"
    using assms(6) by (simp add: upd_thread_def get_thread_def)
  obtain r where r: "InitRegisters (new_space env) ?s2 = Inr (?s2\<lparr>mach := Some (m\<lparr>registers := r\<rparr>)\<rparr>)" "length r = NumTotalRegs"
    "\<forall>i < NumTotalRegs. r ! i = (if i = NextPCReg then 4 else if i = StackReg then of_nat (numPages sp * PageSize) - 16 else 0)"
    using InitRegisters_works [of ?s2 m "new_space env" sp] assms(3,4) by auto
  have "home (?s2\<lparr>mach := Some (m\<lparr>registers := r\<rparr>)\<rparr>) = ?s2\<lparr>mach := Some (m\<lparr>registers := r\<rparr>)\<rparr>"
    using assms(5) by (simp add: home_def)
  then show ?thesis using assms(1,2) u r
    by (intro exI [of _ r]) (simp add: StartProcess_def RestoreState_def get_space_def the_machine_def Let_def)
qed

text \<open>
  The first process starts at its beginning. The main thread enters user mode on the new
  address space with the program counter at zero, the next one at four, the stack pointer sixteen bytes below the end of
  the address space and every other register zero.
\<close>

theorem start_process_enters_program:
  assumes "stub_Open nm s = Inr (Some exe)" "AddrSpace_new env exe 0 s = Inr (sp, s1)"
    "mach s1 = Some m" "length (registers m) = NumTotalRegs" "loaded s1 = None" "threads s1 (currentThread s1) = Some th"
  shows "\<exists>s' m'. StartProcess env nm s = Inr s' \<and> status s' = UserMode \<and> runs (new_space env) s' \<and> mach s' = Some m'
    \<and> pageTable m' = as_pageTable sp \<and> pageTableSize m' = of_nat (numPages sp) \<and> mainMemory m' = mainMemory m
    \<and> registers m' ! PCReg = 0 \<and> registers m' ! NextPCReg = 4
    \<and> registers m' ! StackReg = of_nat (numPages sp * PageSize) - 16
    \<and> (\<forall>i < NumTotalRegs. i \<noteq> NextPCReg \<and> i \<noteq> StackReg \<longrightarrow> registers m' ! i = 0)"
proof -
  obtain r where r: "StartProcess env nm s = Inr (s1\<lparr>mach := Some (m\<lparr>registers := r, pageTable := as_pageTable sp, pageTableSize := of_nat (numPages sp)\<rparr>),
      spaces := (spaces s1)(new_space env \<mapsto> sp), loaded := Some (new_space env),
      threads := (threads s1)(currentThread s1 \<mapsto> th\<lparr>space := Some (new_space env)\<rparr>), status := UserMode\<rparr>)" "length r = NumTotalRegs"
    "\<forall>i < NumTotalRegs. r ! i = (if i = NextPCReg then 4 else if i = StackReg then of_nat (numPages sp * PageSize) - 16 else 0)"
    using StartProcess_works [OF assms] by blast
  moreover from r(3) have "r ! PCReg = 0" "r ! NextPCReg = 4" "r ! StackReg = of_nat (numPages sp * PageSize) - 16" "r ! 0 = 0" "r ! LoadReg = 0"
    by (simp_all add: reg_defs)
  ultimately show ?thesis by (auto simp: runs_def regs_ok_def)
qed

section \<open>System calls without an implementation\<close>

text \<open>
  System calls the kernel does not implement. Create, Open, Close, Fork and every number that is not defined return
  without a result: the handler only moves the three program counters on.
\<close>

theorem unimplemented_calls_do_nothing:
  assumes "mach s = Some m" "length (registers m) = NumTotalRegs" "registers m ! 2 \<notin> {0, 1, 2, 3, 6, 7, 10}"
  shows "ExceptionHandler env SyscallException s = Inr (s\<lparr>mach := Some (m\<lparr>registers := (registers m)
    [PrevPCReg := registers m ! PCReg, PCReg := registers m ! NextPCReg, NextPCReg := registers m ! NextPCReg + 4]\<rparr>)\<rparr>)"
  using assms by (simp add: ExceptionHandler_def the_machine_def ReadRegister_def advance_pc_def reg_defs system_call_def)

section \<open>A small program\<close>

text \<open>
  A program of two instructions, the machine it runs on and what the source leaves open, to see the properties
  at work: the system boots, the program is started, and its first instruction is fetched.
\<close>

definition demo_program :: "byte list" where
  "demo_program = [0xad, 0xdf, 0xba, 0, 0, 0, 0, 0, 40, 0, 0, 0, 8, 0, 0, 0] @ replicate 24 0 @ replicate 8 7"

definition demo_env :: unspecified where
  "demo_env = \<lparr>new_thread = 1, new_space = 5, junk = (\<lambda>_. 0), stray_frame = (\<lambda>_. 0),
     stray_space = \<lparr>as_pageTable = None, numPages = 0, swapFileName = None\<rparr>, stray_regs = replicate NumTotalRegs 0,
     stray_page = 0, merged_literals = False, typed = [], fd_input = (\<lambda>_. []), fd_writable = (\<lambda>_. False)\<rparr>"

definition demo_boot :: "user_sys result" where
  "demo_boot = user_boot (\<lambda>_. 0) (\<lambda>_. []) [0] (Machine_new False False False 0) 0 [[112] \<mapsto> demo_program] (\<lambda>_. False)"

lemma demo_boots: "\<exists>s. demo_boot = Inr s"
  using BitMap_new_spec [of NumPhysPages "[0]"]
  by (auto simp: demo_boot_def user_boot_def divRoundUp_def BitsInWord_def size_defs)

lemma demo_fields:
  assumes "demo_boot = Inr s"
  shows "bm_wf (bitMap s)" "numBits (bitMap s) = NumPhysPages" "marked (bitMap s) = {}" "mach s = Some (Machine_new False False False 0)"
    "spaces s = Map.empty" "loaded s = None" "status s = SystemMode" "currentThread s = 0" "stk s 0 = []"
    "host_files s = [[112] \<mapsto> demo_program]" "host_denies s = (\<lambda>_. False)"
    "threads s = [0 \<mapsto> (Thread_new ''main'' [])\<lparr>tstatus := RUNNING\<rparr>]"
    "length (IPT s) = NumPhysPages" "length (IPT_VP s) = NumPhysPages" "mreach s" "ureach ok s"
proof -
  note b = assms [unfolded demo_boot_def]
  note f = user_boot_fields [OF b]
  show "bm_wf (bitMap s)" "numBits (bitMap s) = NumPhysPages" "marked (bitMap s) = {}"
    using physical_bitmap_new [OF f(1)] by simp_all
  show "mach s = Some (Machine_new False False False 0)" "spaces s = Map.empty" "loaded s = None" "status s = SystemMode"
    "currentThread s = 0" "stk s 0 = []" "host_files s = [[112] \<mapsto> demo_program]" "host_denies s = (\<lambda>_. False)"
    "threads s = [0 \<mapsto> (Thread_new ''main'' [])\<lparr>tstatus := RUNNING\<rparr>]" by (fact f)+
  show "length (IPT s) = NumPhysPages" "length (IPT_VP s) = NumPhysPages"
    using b by (auto simp: user_boot_def rbind_eq_Inr thread_sys.defs)
  show "mreach s" by (rule mreach.boot [OF _ b]) simp
  show "ureach ok s" by (rule ureach.boot [OF b])
qed

lemma demo_words:
  "word_le 0xad 0xdf 0xba 0 = 0xbadfad" "word_le 0 0 0 0 = 0" "word_le 8 0 0 0 = 8" "word_le 40 0 0 0 = 40"
  by (simp_all add: word_le_def)

lemma demo_header:
  assumes "demo_boot = Inr s"
  shows "\<exists>h. read_header demo_env [112] s = Inr h \<and> noffMagic h = NOFFMAGIC \<and> space_size h = Inr 1032"
  by (simp add: read_header_def the_machine_def demo_fields [OF assms] Machine_new_def stub_ReadAt_def Lseek_def file_content_def
      demo_program_def NoffHeader_size_def bytes_NoffHeader_def segment_at_def word_at_def host_load32_def demo_words new_chars_def
      NOFFMAGIC_def space_size_def int_add_def int_ok_def UserStackSize_def)

lemma demo_space:
  assumes "demo_boot = Inr s"
  shows "AddrSpace_new demo_env [112] 0 s = Inr (\<lparr>as_pageTable = Some (new_table (\<lambda>_. 0) 5), numPages = 5,
    swapFileName = Some (swap_name 0)\<rparr>, s\<lparr>host_files := (host_files s)(swap_name 0 \<mapsto> swap_image demo_env 1280 demo_program)\<rparr>)"
proof -
  obtain h where h: "read_header demo_env [112] s = Inr h" "noffMagic h = NOFFMAGIC" "space_size h = Inr 1032"
    using demo_header [OF assms] by blast
  have z: "divRoundUp (unat (1032 :: word32)) PageSize = 5" by (simp add: divRoundUp_def size_defs)
  have "swap_name 0 \<noteq> [112]" by (simp add: swap_name_def)
  with demo_fields [OF assms] AddrSpace_new_works [OF h, of 0 demo_program] z show ?thesis
    by (simp add: size_defs demo_env_def)
qed

lemma demo_started:
  obtains s s' th m where "demo_boot = Inr s" "StartProcess demo_env [112] s = Inr s'" "mreach s'" "ureach (\<lambda>_. True) s'" "runs 5 s'"
    "status s' = UserMode" "bitMap s' = bitMap s" "length (IPT s') = NumPhysPages" "length (IPT_VP s') = NumPhysPages"
    "mach s' = Some m" "regs_ok m" "registers m ! BadVAddrReg = 0" "pageTable m = Some (new_table (\<lambda>_. 0) 5)"
    "threads s' (currentThread s') = Some th" "space th = Some 5"
    "spaces s' 5 = Some \<lparr>as_pageTable = Some (new_table (\<lambda>_. 0) 5), numPages = 5, swapFileName = Some (swap_name 0)\<rparr>"
    "host_files s' (swap_name 0) = Some (swap_image demo_env 1280 demo_program)" "\<not> host_denies s' (swap_name 0)"
    "space_table 5 s' = Some (new_table (\<lambda>_. 0) 5)" "dom (spaces s) \<subseteq> dom (spaces s')" "pstep s s'" "touch s = {}"
proof -
  obtain s where s: "demo_boot = Inr s" using demo_boots by blast
  note f = demo_fields [OF s]
  let ?s1 = "s\<lparr>host_files := (host_files s)(swap_name 0 \<mapsto> swap_image demo_env 1280 demo_program)\<rparr>"
  let ?th = "(Thread_new ''main'' [])\<lparr>tstatus := RUNNING\<rparr>" and ?m = "Machine_new False False False 0"
  have o: "stub_Open [112] s = Inr (Some [112])" using f(10,11) by (simp add: stub_Open_def OpenForReadWrite_def)
  have e: "mach ?s1 = Some ?m" "length (registers ?m) = NumTotalRegs" "loaded ?s1 = None" "threads ?s1 (currentThread ?s1) = Some ?th"
    using f by (simp_all add: Machine_new_def)
  have n: "new_space demo_env = 5" by (simp add: demo_env_def)
  obtain r where r: "StartProcess demo_env [112] s = Inr (?s1\<lparr>mach := Some (?m\<lparr>registers := r, pageTable := Some (new_table (\<lambda>_. 0) 5), pageTableSize := of_nat 5\<rparr>),
      spaces := (spaces ?s1)(5 \<mapsto> \<lparr>as_pageTable = Some (new_table (\<lambda>_. 0) 5), numPages = 5, swapFileName = Some (swap_name 0)\<rparr>), loaded := Some 5,
      threads := (threads ?s1)(currentThread ?s1 \<mapsto> ?th\<lparr>space := Some 5\<rparr>), status := UserMode\<rparr>)"
    (is "_ = Inr ?s'") "length r = NumTotalRegs" "r ! BadVAddrReg = 0" "r ! 0 = 0" "r ! LoadReg = 0"
    using StartProcess_works [OF o demo_space [OF s] e] unfolding n by (auto simp: reg_defs)
  define s' where "s' = ?s'"
  have r1: "StartProcess demo_env [112] s = Inr s'" unfolding s'_def by (rule r(1))
  have fr: "fresh demo_env s" using f(5,12) by (simp add: fresh_def demo_env_def)
  have op: "opens_program demo_env [112] s" using o demo_header [OF s] by (auto simp: opens_program_def program_file_def)
  have step: "pstep s s'" by (rule pstep.start [where env = demo_env, OF _ f(7) op fr r1]) (use f(8,9) in simp)
  have dom: "dom (spaces s) \<subseteq> dom (spaces s')" using f(5) by simp
  have mr: "mreach s'" by (rule mreach.step [OF f(15) step]) (use dom in \<open>simp add: kept_def\<close>)
  have ur: "ureach (\<lambda>_. True) s'" by (rule ureach.step [OF f(16) pstep_ustep [OF step]])
  have tch: "touch s = {}" using f(6,8,12) by (simp add: touch_def Thread_new_def)
  have m: "mach s' = Some (?m\<lparr>registers := r, pageTable := Some (new_table (\<lambda>_. 0) 5), pageTableSize := of_nat 5\<rparr>)"
    and th: "threads s' (currentThread s') = Some (?th\<lparr>space := Some 5\<rparr>)" by (simp_all add: s'_def)
  have g: "loaded s' = Some 5" "status s' = UserMode" "bitMap s' = bitMap s" "length (IPT s') = NumPhysPages"
    "length (IPT_VP s') = NumPhysPages" "\<not> host_denies s' (swap_name 0)"
    "spaces s' 5 = Some \<lparr>as_pageTable = Some (new_table (\<lambda>_. 0) 5), numPages = 5, swapFileName = Some (swap_name 0)\<rparr>"
    "host_files s' (swap_name 0) = Some (swap_image demo_env 1280 demo_program)" using f(11,13,14) by (simp_all add: s'_def)
  have rg: "regs_ok (?m\<lparr>registers := r, pageTable := Some (new_table (\<lambda>_. 0) 5), pageTableSize := of_nat 5\<rparr>)"
    using r(2-) by (simp add: regs_ok_def)
  have "runs 5 s'" unfolding runs_def using g(1) m rg th by simp
  moreover have "space_table 5 s' = Some (new_table (\<lambda>_. 0) 5)" using g(1) m by (simp add: space_table_def)
  ultimately show ?thesis using r(3)
    by (intro that [OF s r1 mr ur _ g(2-5) m rg _ _ th _ g(7,8,6) _ dom step tch]) simp_all
qed

theorem page_fault_loads_page_witness:
  "\<exists>(s :: user_sys) s'. mreach s \<and> runs 5 s \<and> PageFault demo_env s = Inr s' \<and> frame_of 5 0 s' = Some 0 \<and> marked (bitMap s') = {0}"
proof -
  obtain s s' th m where d: "demo_boot = Inr s" "mreach s'" "runs 5 s'" "bitMap s' = bitMap s" "length (IPT s') = NumPhysPages"
    "length (IPT_VP s') = NumPhysPages" "mach s' = Some m" "regs_ok m" "registers m ! BadVAddrReg = 0"
    "threads s' (currentThread s') = Some th" "space th = Some 5"
    "spaces s' 5 = Some \<lparr>as_pageTable = Some (new_table (\<lambda>_. 0) 5), numPages = 5, swapFileName = Some (swap_name 0)\<rparr>"
    "host_files s' (swap_name 0) = Some (swap_image demo_env 1280 demo_program)" "\<not> host_denies s' (swap_name 0)"
    "space_table 5 s' = Some (new_table (\<lambda>_. 0) 5)" by (rule demo_started) blast
  note f = demo_fields(1-3) [OF d(1), folded d(4)]
  have "marked (bitMap s') \<noteq> {..<NumPhysPages}" using f(3) lessThan_empty_iff [of "32 :: nat"] by (simp add: size_defs)
  from page_fault_loads_page [OF f(1,2) this d(5-7) _ _ d(10-12) _ d(13-15), of 0 demo_env] d(8,9)
  obtain fr s2 where "PageFault demo_env s' = Inr s2" "\<forall>g < fr. g \<in> marked (bitMap s')" "marked (bitMap s2) = insert fr (marked (bitMap s'))"
    "frame_of 5 0 s2 = Some fr" by (auto simp: regs_ok_def reg_defs new_table_def)
  with d(2,3) f(3) show ?thesis by (intro exI [of _ s'] exI [of _ s2]) auto
qed

theorem addr_space_holds_program_witness:
  "\<exists>s sp s'. demo_boot = Inr s \<and> AddrSpace_new demo_env [112] 0 s = Inr (sp, s') \<and> numPages sp = 5"
proof -
  obtain s where s: "demo_boot = Inr s" using demo_boots by blast
  obtain h where h: "read_header demo_env [112] s = Inr h" "noffMagic h = NOFFMAGIC" "space_size h = Inr 1032"
    using demo_header [OF s] by blast
  have z: "divRoundUp (unat (1032 :: word32)) PageSize = 5" by (simp add: divRoundUp_def size_defs)
  have "swap_name 0 \<noteq> [112]" by (simp add: swap_name_def)
  with addr_space_holds_program [OF h, of 0 demo_program] demo_fields [OF s] z s show ?thesis
    by (auto simp: size_defs)
qed

theorem user_programs_keep_scheduler_witness:
  "\<exists>s. ureach (\<lambda>_. True) s \<and> runs 5 s \<and> distinct (ready s)"
proof -
  obtain s where s: "ureach (\<lambda>_. True) s" "runs 5 s" by (rule demo_started) blast
  then show ?thesis using user_programs_keep_scheduler [OF s(1)] by blast
qed

theorem delete_frees_foreign_frames_witness:
  "\<exists>(s :: user_sys) s'. delete_space 5 s = Inr s' \<and> frame_of 6 0 s' = Some 3 \<and> marked (bitMap s') = {}"
proof -
  obtain s where s: "demo_boot = Inr s" using demo_boots by blast
  note f = demo_fields [OF s]
  let ?e = "\<lparr>virtualPage = 0, physicalPage = 3, valid = True, readOnly = False, use = False, dirty = False\<rparr>"
  let ?s = "s\<lparr>spaces := [5 \<mapsto> \<lparr>as_pageTable = None, numPages = 0, swapFileName = None\<rparr>,
    6 \<mapsto> \<lparr>as_pageTable = Some [?e], numPages = 1, swapFileName = None\<rparr>]\<rparr>"
  have "frame_of 6 0 ?s = Some 3" using f(6) by (simp add: frame_of_def space_table_def)
  from delete_frees_foreign_frames [OF _ _ _ _ this, of 5] f(1,2) show ?thesis by fastforce
qed

theorem write_terminates_witness:
  "\<exists>s. mreach s \<and> runs 5 s \<and> SC_Write demo_env 100 1 s \<noteq> Inl Out_Of_Fuel"
proof -
  obtain s s' where s: "demo_boot = Inr s" "mreach s'" "runs 5 s'" "bitMap s' = bitMap s" by (rule demo_started) blast
  have "absent 5 100 s' \<subseteq> {..2}" by (auto simp: absent_def string_pages_def size_defs unat_word_ariths unat_of_nat)
  then have "card (absent 5 100 s') \<le> 3" using card_mono [of "{..2 :: nat}"] by simp
  then have c: "card (absent 5 100 s') + card (marked (bitMap s')) \<le> NumPhysPages"
    using s(4) demo_fields(3) [OF s(1)] by (simp add: size_defs)
  from write_terminates [OF mreach_ok [OF s(2)] s(3) _ c] s show ?thesis by auto
qed

theorem start_process_enters_program_witness:
  "\<exists>s s'. demo_boot = Inr s \<and> StartProcess demo_env [112] s = Inr s' \<and> status s' = UserMode"
proof -
  obtain s where s: "demo_boot = Inr s" using demo_boots by blast
  note f = demo_fields [OF s]
  have "stub_Open [112] s = Inr (Some [112])" using f(10,11) by (simp add: stub_Open_def OpenForReadWrite_def)
  from start_process_enters_program [OF this demo_space [OF s], of "Machine_new False False False 0"] f(4,6,8,12) s
  show ?thesis by (auto simp: Machine_new_def)
qed

theorem unimplemented_calls_do_nothing_witness:
  "\<exists>(s :: user_sys) s' m'. ExceptionHandler demo_env SyscallException s = Inr s' \<and> mach s' = Some m' \<and> registers m' ! NextPCReg = 4"
proof -
  obtain s where s: "demo_boot = Inr s" using demo_boots by blast
  let ?m = "(Machine_new False False False 0)\<lparr>registers := (replicate NumTotalRegs 0)[2 := 4]\<rparr>"
  let ?s = "s\<lparr>mach := Some ?m\<rparr>"
  have "\<exists>s' m'. ExceptionHandler demo_env SyscallException ?s = Inr s' \<and> mach s' = Some m' \<and> registers m' ! NextPCReg = 4"
    using unimplemented_calls_do_nothing [of ?s ?m demo_env] by (simp add: reg_defs)
  then show ?thesis by blast
qed

end
