(* ===== verification/Two_Processes.thy ===== *)
theory Two_Processes
  imports User_Properties
begin

text \<open>
  A run of two processes, as an instance of their isolation: the first program calls \<^verbatim>\<open>Exec\<close> and \<^verbatim>\<open>Yield\<close>, the second
  process starts and its first instruction faults. The steps are those of the model: page faults, instructions, system
  calls, the switch of the thread and the start of the new process.
\<close>

section \<open>The program\<close>

text \<open>
  The machine code, whose first bytes are also the name of the file \<^verbatim>\<open>Exec\<close> loads: \<^verbatim>\<open>addiu r2, r0, 2; syscall;
  addiu r2, r0, 10; syscall\<close>. \<open>in_program pc m\<close>: the first page of the program is in frame 0 and the machine is at \<open>pc\<close>.
\<close>

definition exec_code :: "byte list" where
  "exec_code = [2, 0, 2, 0x24, 12, 0, 0, 0, 10, 0, 2, 0x24, 12, 0, 0, 0]"

definition in_program :: "word32 \<Rightarrow> machine \<Rightarrow> bool" where
  "in_program pc m \<longleftrightarrow> length (registers m) = NumTotalRegs \<and> registers m ! 0 = 0 \<and> registers m ! 4 = 0
     \<and> registers m ! LoadReg = 0 \<and> registers m ! PCReg = pc \<and> registers m ! NextPCReg = pc + 4
     \<and> tlb m = None \<and> \<not> hostBigEndian m \<and> pageTableSize m = 5
     \<and> (\<exists>e pt. pageTable m = Some (e # pt) \<and> valid e \<and> physicalPage e = 0)
     \<and> (\<forall>i < 16. mainMemory m i = exec_code ! i)"

lemma exec_code_bytes:
  assumes "in_program pc m"
  shows "mainMemory m 0 = 2" "mainMemory m (Suc 0) = 0" "mainMemory m 2 = 2" "mainMemory m 3 = 0x24" "mainMemory m 4 = 12" "mainMemory m 5 = 0"
    "mainMemory m 6 = 0" "mainMemory m 7 = 0" "mainMemory m 8 = 10" "mainMemory m 9 = 0" "mainMemory m 10 = 2" "mainMemory m 11 = 0x24"
    "mainMemory m 12 = 12" "mainMemory m 13 = 0" "mainMemory m 14 = 0" "mainMemory m 15 = 0"
  using assms by (simp_all add: in_program_def exec_code_def)

lemma exec_decodes:
  "opCode (Decode 0x24020002) = OP_ADDIU" "rs (Decode 0x24020002) = 0" "rt (Decode 0x24020002) = 2" "extra (Decode 0x24020002) = 2"
  "opCode (Decode 0x2402000a) = OP_ADDIU" "rs (Decode 0x2402000a) = 0" "rt (Decode 0x2402000a) = 2" "extra (Decode 0x2402000a) = 10"
  "opCode (Decode 12) = OP_SYSCALL" "rs (Decode 12) = 0" "rt (Decode 12) = 0"
  by (simp_all add: Decode_def opTable_def specialTable_def decode_extra_def)

definition exec_word :: "word32 \<Rightarrow> word32" where
  "exec_word pc = (if pc = 0 then 0x24020002 else if pc = 8 then 0x2402000a else 12)"

lemmas read_defs = ReadMem_def Translate_def misaligned_def find_entry_def entry_at_def set_entry_def size_defs

lemma fetch_word:
  assumes "in_program pc m" "pc \<in> {0, 4, 8, 12}"
  obtains m1 where "ReadMem pc 4 m = Inr (Done (exec_word pc) m1)" "in_program pc m1" "registers m1 = registers m"
proof -
  obtain e pt where p: "pageTable m = Some (e # pt)" "valid e" "physicalPage e = 0" using assms(1) by (auto simp: in_program_def)
  let ?m = "m\<lparr>pageTable := Some (e\<lparr>use := True\<rparr> # pt)\<rparr>"
  have "ReadMem pc 4 m = Inr (Done (exec_word pc) ?m)"
    using assms(2) p assms(1) exec_code_bytes [OF assms(1)]
    by (auto simp: read_defs in_program_def exec_code_def exec_word_def host_load32_def word_le_def WordToHost_def)
  moreover have "in_program pc ?m" using assms(1) p by (simp add: in_program_def)
  ultimately show ?thesis by (rule that) simp
qed

lemma name_byte:
  assumes "in_program pc m" "a = 0 \<or> a = 1"
  obtains m1 where "ReadMem a 1 m = Inr (Done (if a = 0 then 2 else 0) m1)" "in_program pc m1" "registers m1 = registers m"
proof -
  obtain e pt where p: "pageTable m = Some (e # pt)" "valid e" "physicalPage e = 0" using assms(1) by (auto simp: in_program_def)
  let ?m = "m\<lparr>pageTable := Some (e\<lparr>use := True\<rparr> # pt)\<rparr>"
  have "ReadMem a 1 m = Inr (Done (if a = 0 then 2 else 0) ?m)"
    using assms(2) p assms(1) exec_code_bytes [OF assms(1)]
    by (auto simp: read_defs in_program_def)
  moreover have "in_program pc ?m" using assms(1) p by (simp add: in_program_def)
  ultimately show ?thesis by (rule that) simp
qed

lemmas instr_defs = OneInstruction_def execute_def exec_add_def exec_system_def put_def raise_def RaiseException_def finish_instruction_def DelayedLoad_def
   reg_def set_reg_def array_get_def array_set_def abind_def exec_word_def exec_decodes retire_def

lemma addiu_runs:
  assumes "in_program pc m" "pc = 0 \<or> pc = 8"
  obtains m' where "OneInstruction m = Inr (Done () m')" "in_program (pc + 4) m'" "registers m' ! 2 = (if pc = 0 then 2 else 10)"
proof -
  obtain m1 where m1: "ReadMem pc 4 m = Inr (Done (exec_word pc) m1)" "in_program pc m1" "registers m1 = registers m"
    using fetch_word [OF assms(1)] assms(2) by blast
  let ?r = "registers m1"
  define r where "r = ?r[2 := (if pc = 0 then 2 else 10), 0 := ?r ! LoadValueReg, LoadReg := 0, LoadValueReg := 0, 0 := 0, PrevPCReg := pc, PCReg := pc + 4, NextPCReg := pc + 8]"
  have o: "OneInstruction m = Inr (Done () (m1\<lparr>registers := r\<rparr>))"
    using m1 assms(2) by (auto simp: instr_defs in_program_def reg_defs r_def nth_list_update)
  have "in_program (pc + 4) (m1\<lparr>registers := r\<rparr>)" "r ! 2 = (if pc = 0 then 2 else 10)"
    using m1(2) by (simp_all add: in_program_def r_def reg_defs nth_list_update)
  then show ?thesis by (intro that [OF o]) simp_all
qed

lemma syscall_traps:
  assumes "in_program pc m" "pc = 4 \<or> pc = 12"
  obtains m' where "OneInstruction m = Inr (Trap SyscallException m')" "in_program pc m'" "registers m' ! 2 = registers m ! 2"
proof -
  obtain m1 where m1: "ReadMem pc 4 m = Inr (Done (exec_word pc) m1)" "in_program pc m1" "registers m1 = registers m"
    using fetch_word [OF assms(1)] assms(2) by blast
  let ?r = "registers m1"
  define r where "r = ?r[BadVAddrReg := 0, 0 := ?r ! LoadValueReg, LoadReg := 0, LoadValueReg := 0, 0 := 0]"
  have o: "OneInstruction m = Inr (Trap SyscallException (m1\<lparr>registers := r\<rparr>))"
    using m1 assms(2) by (auto simp: instr_defs in_program_def reg_defs r_def nth_list_update)
  have "in_program pc (m1\<lparr>registers := r\<rparr>)" "r ! 2 = registers m ! 2"
    using m1(2,3) by (simp_all add: in_program_def r_def reg_defs nth_list_update)
  then show ?thesis by (intro that [OF o]) simp_all
qed


section \<open>Rounds of the first process\<close>

lemma fault_traps:
  assumes "length (registers m) = NumTotalRegs" "registers m ! PCReg = 0" "registers m ! LoadReg = 0" "tlb m = None"
    "pageTable m = Some (e # pt)" "\<not> valid e" "pageTableSize m = 5"
  obtains r where "OneInstruction m = Inr (Trap PageFaultException (m\<lparr>registers := r\<rparr>))" "length r = NumTotalRegs"
    "r ! 0 = 0" "r ! BadVAddrReg = 0" "r ! LoadReg = 0" "\<forall>i \<in> {2, 4, PCReg, NextPCReg}. r ! i = registers m ! i"
proof -
  let ?r = "registers m"
  define r where "r = ?r[BadVAddrReg := 0, 0 := ?r ! LoadValueReg, LoadReg := 0, LoadValueReg := 0, 0 := 0]"
  have "OneInstruction m = Inr (Trap PageFaultException (m\<lparr>registers := r\<rparr>))"
    using assms by (auto simp: instr_defs read_defs reg_defs r_def nth_list_update)
  moreover have "length r = NumTotalRegs" "r ! 0 = 0" "r ! BadVAddrReg = 0" "r ! LoadReg = 0" "\<forall>i \<in> {2, 4, PCReg, NextPCReg}. r ! i = ?r ! i"
    using assms(1) by (auto simp: r_def reg_defs nth_list_update)
  ultimately show ?thesis by (rule that)
qed

lemma fault_round:
  assumes m: "mach s = Some m" "length (registers m) = NumTotalRegs" "registers m ! PCReg = 0" "registers m ! LoadReg = 0" "tlb m = None"
    "pageTable m = Some (e # pt)" "\<not> valid e" "pageTableSize m = 5"
    and t: "threads s (currentThread s) = Some th" "space th = Some a" "loaded s = Some a" "spaces s a = Some sp" "swapFileName sp = Some nm"
    "host_files s nm = Some img" "PageSize \<le> length img" "\<not> host_denies s nm"
    and f: "Find (bitMap s) = Inr (int f, bm)" "length (IPT s) = NumPhysPages" "length (IPT_VP s) = NumPhysPages" "f < NumPhysPages"
  obtains r st where "user_round env s = Inr (s\<lparr>mach := Some (m\<lparr>registers := r, pageTable := Some (e\<lparr>physicalPage := of_nat f, valid := True\<rparr> # pt),
      mainMemory := (\<lambda>i. if f * PageSize \<le> i \<and> i < f * PageSize + PageSize then take PageSize img ! (i - f * PageSize) else mainMemory m i)\<rparr>),
      threads := (threads s)(currentThread s \<mapsto> th\<lparr>kstack := User_ret # kstack th\<rparr>), status := SystemMode, stats := st,
      bitMap := bm, IPT := (IPT s)[f := Some (currentThread s)], IPT_VP := (IPT_VP s)[f := 0]\<rparr>)"
    "length r = NumTotalRegs" "r ! 0 = 0" "r ! LoadReg = 0" "\<forall>i \<in> {2, 4, PCReg, NextPCReg}. r ! i = registers m ! i"
    "executes_program env s"
proof -
  obtain r where r: "OneInstruction m = Inr (Trap PageFaultException (m\<lparr>registers := r\<rparr>))" "length r = NumTotalRegs"
    "r ! 0 = 0" "r ! BadVAddrReg = 0" "r ! LoadReg = 0" "\<forall>i \<in> {2, 4, PCReg, NextPCReg}. r ! i = registers m ! i"
    by (rule fault_traps [OF m(2-8)])
  have x: "executes_program env s"
    using m(1) r(1) t(1) by (simp add: executes_program_def the_machine_def traps_to_program_def split: sum.splits prod.splits)
  show ?thesis
    by (rule that [of "(stats s)\<lparr>numPageFaults := numPageFaults (stats s) + 1\<rparr>" r, OF _ r(2,3,5,6) x])
      (use m r(1,2,4) t f in \<open>simp add: user_round_def the_machine_def push_frame_def upd_thread_def get_thread_def ExceptionHandler_def fault_handler_def PageFault_def
        load_page_def get_space_def stub_Open_def OpenForReadWrite_def stub_ReadAt_def Lseek_def array_set_int_def array_get_int_def array_set_def array_get_def map_page_def space_table_def put_table_def
        ReadRegister_def reg_defs load_frame_def sdivRoundDown_def file_content_def Let_def cong: if_cong\<close>)
qed


text \<open>No interrupt is pending and no thread is to be destroyed: a tick only moves the clock.\<close>

definition quiet :: "user_sys \<Rightarrow> bool" where
  "quiet s \<longleftrightarrow> pending s = list_new \<and> \<not> yieldOnReturn s \<and> \<not> inHandler s \<and> threadToBeDestroyed s = None"

lemmas level_defs = tick_def set_level_def SetLevel_def OneTick_def CheckIfDue_def ChangeLevel_def time_slice_def list_new_def list_sorted_remove_def

lemma quiet_tick:
  assumes "quiet s"
  obtains st where "tick s = Inr (s\<lparr>stats := st, level := IntOn, pending := list_new, yieldOnReturn := False\<rparr>)"
  by (rule that [of "stats (charge_tick s)"]) (use assms in \<open>simp add: quiet_def level_defs Let_def charge_tick_def\<close>)

lemma quiet_level:
  assumes "quiet s"
  obtains st where "set_level lv s = Inr (s\<lparr>stats := st, level := lv, pending := list_new, yieldOnReturn := False\<rparr>)"
proof (cases "lv = IntOn \<and> level s = IntOff")
  case True
  then show ?thesis
    by (intro that [of "stats (charge_tick s)"]) (use assms in \<open>simp add: quiet_def level_defs Let_def charge_tick_def\<close>)
next
  case False
  then have "set_level lv s = Inr (s\<lparr>level := lv\<rparr>)" using assms by (auto simp: quiet_def level_defs Let_def)
  moreover have "s\<lparr>stats := stats s, level := lv, pending := list_new, yieldOnReturn := False\<rparr> = s\<lparr>level := lv\<rparr>"
    using assms by (simp add: quiet_def)
  ultimately show ?thesis using that by metis
qed

text \<open>The main thread runs the first process, in the program or with a system call pending, and the rest of the system.\<close>

definition others :: "user_sys \<Rightarrow> _" where
  "others s = (spaces s, readyList s, host_files s, host_denies s, threadID s, bitMap s, IPT s, IPT_VP s, (threads s)(0 := None))"

definition parent_at :: "frame list \<Rightarrow> word32 \<Rightarrow> word32 \<Rightarrow> user_sys \<Rightarrow> bool" where
  "parent_at ks pc v s \<longleftrightarrow> quiet s \<and> currentThread s = 0 \<and> loaded s = Some 5 \<and> (ks = [] \<longrightarrow> status s = UserMode)
     \<and> (\<exists>m. mach s = Some m \<and> in_program pc m \<and> registers m ! 2 = v)
     \<and> (\<exists>th. threads s 0 = Some th \<and> space th = Some 5 \<and> kstack th = ks \<and> \<not> killNewChild th \<and> tstack th = None)"

lemma parent_addiu:
  assumes "parent_at [] pc v s" "pc = 0 \<or> pc = 8"
  obtains s' where "user_round env s = Inr s'" "parent_at [] (pc + 4) (if pc = 0 then 2 else 10) s'" "others s' = others s" "executes_program env s"
proof -
  obtain m where m: "mach s = Some m" "in_program pc m" using assms(1) by (auto simp: parent_at_def)
  obtain m' where m': "OneInstruction m = Inr (Done () m')" "in_program (pc + 4) m'" "registers m' ! 2 = (if pc = 0 then 2 else 10)"
    by (rule addiu_runs [OF m(2) assms(2)])
  have "quiet (s\<lparr>mach := Some m'\<rparr>)" using assms(1) by (simp add: parent_at_def quiet_def)
  then obtain st where t: "tick (s\<lparr>mach := Some m'\<rparr>) = Inr (s\<lparr>mach := Some m', stats := st, level := IntOn, pending := list_new, yieldOnReturn := False\<rparr>)" by (rule quiet_tick)
  show ?thesis
  proof (rule that)
    show "user_round env s = Inr (s\<lparr>mach := Some m', stats := st, level := IntOn, pending := list_new, yieldOnReturn := False\<rparr>)" using m m' t by (simp add: user_round_def the_machine_def)
    show "executes_program env s" using m m' by (simp add: executes_program_def the_machine_def)
  qed (use assms(1) m' in \<open>auto simp: parent_at_def quiet_def others_def\<close>)
qed

lemma parent_resume:
  assumes "parent_at [User_ret] pc v s"
  obtains s' where "resume s = Inr s'" "parent_at [] pc v s'" "others s' = others s"
proof -
  obtain th where th: "threads s 0 = Some th" "currentThread s = 0" "kstack th = [User_ret]" using assms by (auto simp: parent_at_def)
  let ?s = "s\<lparr>threads := (threads s)(0 \<mapsto> th\<lparr>kstack := []\<rparr>), status := UserMode\<rparr>"
  have "quiet ?s" using assms by (simp add: parent_at_def quiet_def)
  then obtain st where t: "tick ?s = Inr (?s\<lparr>stats := st, level := IntOn, pending := list_new, yieldOnReturn := False\<rparr>)" by (rule quiet_tick)
  show ?thesis
  proof (rule that)
    show "resume s = Inr (?s\<lparr>stats := st, level := IntOn, pending := list_new, yieldOnReturn := False\<rparr>)" using th t by (simp add: resume_def get_thread_def upd_thread_def)
  qed (use assms th in \<open>auto simp: parent_at_def quiet_def others_def\<close>)
qed


section \<open>The system calls\<close>

definition exec_program :: "byte list" where
  "exec_program = [0xad, 0xdf, 0xba, 0, 0, 0, 0, 0, 40, 0, 0, 0, 16, 0, 0, 0] @ replicate 24 0 @ exec_code"

definition exec_image :: "byte list" where
  "exec_image = swap_image demo_env 1280 exec_program"

definition exec_space :: "int \<Rightarrow> AddrSpace" where
  "exec_space tid = \<lparr>as_pageTable = Some (new_table (\<lambda>_. 0) 5), numPages = 5, swapFileName = Some (swap_name tid)\<rparr>"

abbreviation exec_env :: unspecified where "exec_env \<equiv> demo_env\<lparr>new_space := 6\<rparr>"

lemma exec_header:
  assumes "host_files s nm = Some exec_program" "mach s = Some m" "\<not> hostBigEndian m"
  shows "\<exists>h. read_header env nm s = Inr h \<and> noffMagic h = NOFFMAGIC \<and> space_size h = Inr 1040"
  using assms by (simp add: read_header_def the_machine_def stub_ReadAt_def Lseek_def file_content_def
      exec_program_def exec_code_def NoffHeader_size_def bytes_NoffHeader_def segment_at_def word_at_def host_load32_def word_le_def new_chars_def
      NOFFMAGIC_def space_size_def int_add_def int_ok_def UserStackSize_def)

lemma exec_space_made:
  assumes "host_files s nm = Some exec_program" "mach s = Some m" "\<not> hostBigEndian m" "bm_wf (bitMap s)" "\<not> host_denies s (swap_name tid)"
    "swap_name tid \<noteq> nm" "env = demo_env \<or> env = exec_env"
  shows "AddrSpace_new env nm tid s = Inr (exec_space tid, s\<lparr>host_files := (host_files s)(swap_name tid \<mapsto> exec_image)\<rparr>)"
proof -
  obtain h where h: "read_header env nm s = Inr h" "noffMagic h = NOFFMAGIC" "space_size h = Inr 1040"
    using exec_header [OF assms(1-3)] by blast
  have z: "divRoundUp (unat (1040 :: word32)) PageSize = 5" by (simp add: divRoundUp_def size_defs)
  have e: "stray_frame env = (\<lambda>_. 0)" "swap_image env n bs = swap_image demo_env n bs" for n bs
    using assms(7) by (auto simp: demo_env_def swap_image_def)
  from AddrSpace_new_works [OF h, of tid exec_program] assms z show ?thesis
    by (simp add: size_defs e exec_space_def exec_image_def)
qed

lemma exec_name_read:
  assumes "mach s = Some m" "in_program pc m"
  obtains m' where "exec_name 100 env 0 s = Inr (Got [2], s\<lparr>mach := Some m'\<rparr>)" "in_program pc m'" "registers m' = registers m"
proof -
  obtain m1 where m1: "ReadMem 0 1 m = Inr (Done 2 m1)" "in_program pc m1" "registers m1 = registers m"
    using name_byte [OF assms(2), of 0] by auto
  obtain m2 where m2: "ReadMem 1 1 m1 = Inr (Done 0 m2)" "in_program pc m2" "registers m2 = registers m1"
    using name_byte [OF m1(2), of 1] by auto
  have "exec_name 100 env 0 s = Inr (Got [2], s\<lparr>mach := Some m2\<rparr>)"
    using assms(1) m1(1) m2(1) by (simp add: exec_name.simps [of "100"] exec_name.simps [of "99"] kernel_access_def the_machine_def split: nat.splits)
  then show ?thesis using m1 m2 that by simp
qed

lemma parent_advances:
  assumes "in_program pc m" "registers m ! 2 = v"
  obtains m' where "advance_pc m = Inr m'" "in_program (pc + 4) m'" "registers m' ! 2 = v"
proof -
  let ?r = "(registers m)[PrevPCReg := pc, PCReg := pc + 4, NextPCReg := 8 + pc]"
  have "advance_pc m = Inr (m\<lparr>registers := ?r\<rparr>)" "in_program (pc + 4) (m\<lparr>registers := ?r\<rparr>)" "?r ! 2 = v"
    using assms by (simp_all add: advance_pc_def in_program_def reg_defs reg_def set_reg_def array_get_def array_set_def nth_list_update)
  then show ?thesis using that by simp
qed

definition child :: "frame list \<Rightarrow> ThreadStatus \<Rightarrow> Thread" where
  "child ks stat = (Thread_new ''thrad!'' (replicate NumTotalRegs 0))\<lparr>space := Some 6, tID := 1, tstatus := stat,
     tstack := Some STACK_FENCEPOST, kstack := ks\<rparr>"

lemma quiet_fork:
  assumes "quiet s" "threads s t = Some th"
  obtains st where "Fork t ks 0 s = Inr (s\<lparr>threads := (threads s)(t \<mapsto> th\<lparr>tstack := Some STACK_FENCEPOST, kstack := Start 0 # ks, tstatus := READY\<rparr>),
    readyList := list_append t (readyList s), stats := st, pending := list_new, yieldOnReturn := False\<rparr>)"
proof -
  let ?s = "s\<lparr>level := IntOff, threads := (threads s)(t \<mapsto> th\<lparr>tstack := Some STACK_FENCEPOST, kstack := Start 0 # ks, tstatus := READY\<rparr>),
    readyList := list_append t (readyList s)\<rparr>"
  have "quiet ?s" using assms(1) by (simp add: quiet_def)
  then obtain st where l: "set_level (level s) ?s = Inr (?s\<lparr>stats := st, level := level s, pending := list_new, yieldOnReturn := False\<rparr>)"
    by (rule quiet_level)
  have e: "?s\<lparr>stats := st, level := level s, pending := list_new, yieldOnReturn := False\<rparr> = s\<lparr>threads := (threads s)(t \<mapsto> th\<lparr>tstack := Some STACK_FENCEPOST, kstack := Start 0 # ks, tstatus := READY\<rparr>),
    readyList := list_append t (readyList s), stats := st, pending := list_new, yieldOnReturn := False\<rparr>" by simp
  show ?thesis
    by (rule that [of st]) (use assms l [unfolded e] in \<open>simp add: Fork_def StackAllocate_def upd_thread_def get_thread_def SetLevel_def
      ChangeLevel_def ReadyToRun_def setStatus_def quiet_def Let_def\<close>)
qed


definition trapped :: "machine \<Rightarrow> Thread \<Rightarrow> user_sys \<Rightarrow> user_sys" where
  "trapped m th s = s\<lparr>status := SystemMode, threads := (threads s)(0 \<mapsto> th\<lparr>kstack := [User_ret]\<rparr>), mach := Some m\<rparr>"

lemma trap_round:
  assumes "parent_at [] pc v s" "pc = 4 \<or> pc = 12"
  obtains m th b c where "in_program (pc + 4) m" "registers m ! 2 = v" "threads s 0 = Some th" "user_round env s = system_call env v 0 b c (trapped m th s)"
    "executes_program env s = (v = 2 \<longrightarrow> names_program env 0 (trapped m th s))"
proof -
  obtain m where m: "mach s = Some m" "in_program pc m" "registers m ! 2 = v" using assms(1) by (auto simp: parent_at_def)
  obtain m1 where m1: "OneInstruction m = Inr (Trap SyscallException m1)" "in_program pc m1" "registers m1 ! 2 = v"
    using syscall_traps [OF m(2) assms(2)] m(3) by metis
  obtain m2 where m2: "advance_pc m1 = Inr m2" "in_program (pc + 4) m2" "registers m2 ! 2 = v" by (rule parent_advances [OF m1(2,3)])
  obtain th where th: "threads s 0 = Some th" "currentThread s = 0" "kstack th = []" using assms(1) by (auto simp: parent_at_def)
  have r: "length (registers m1) = NumTotalRegs" "registers m1 ! 4 = 0" using m1(2) by (simp_all add: in_program_def)
  show ?thesis
    by (rule that [OF m2(2,3) th(1), of "registers m1 ! 5" "registers m1 ! 6"])
      (use m(1) m1(1,3) m2(1) th r in \<open>simp_all add: user_round_def executes_program_def traps_to_program_def the_machine_def push_frame_def
        upd_thread_def get_thread_def ExceptionHandler_def ReadRegister_def array_get_def reg_defs trapped_def\<close>)
qed

lemma parent_execs:
  assumes p: "parent_at [] 4 2 s" and t: "threads s 1 = None" "threadID s = 1" "readyList s = list_new"
    and h: "host_files s [2] = Some exec_program" "\<forall>nm. \<not> host_denies s nm" and b: "bm_wf (bitMap s)"
  obtains s' where "user_round exec_env s = Inr s'" "executes_program exec_env s" "parent_at [User_ret] 8 1 s'"
    "threads s' 1 = Some (child [Start 0, Process_start] READY)" "threads s' 2 = threads s 2" "readyList s' = list_append 1 list_new"
    "spaces s' = (spaces s)(6 \<mapsto> exec_space 1)" "host_files s' = (host_files s)(swap_name 1 \<mapsto> exec_image)" "host_denies s' = host_denies s"
    "bitMap s' = bitMap s" "IPT s' = IPT s" "IPT_VP s' = IPT_VP s"
proof -
  have "(4 :: word32) = 4 \<or> (4 :: word32) = 12" by simp
  then obtain m th b' c where m: "in_program (4 + 4) m" "threads s 0 = Some th" "user_round exec_env s = system_call exec_env 2 0 b' c (trapped m th s)"
    "executes_program exec_env s = ((2 :: word32) = 2 \<longrightarrow> names_program exec_env 0 (trapped m th s))"
    by (rule trap_round [OF p, of exec_env])
  obtain m3 where m3: "exec_name 100 exec_env 0 (trapped m th s) = Inr (Got [2], trapped m3 th s)" "in_program 8 m3"
    using exec_name_read [of "trapped m th s" m 8 exec_env] m(1) by (auto simp: trapped_def)
  let ?s2 = "trapped m3 th s"
  have o: "stub_Open [2] ?s2 = Inr (Some [2])" using h by (simp add: stub_Open_def OpenForReadWrite_def trapped_def)
  have be: "\<not> hostBigEndian m3" "length (registers m3) = NumTotalRegs" using m3(2) by (simp_all add: in_program_def)
  have hd: "\<exists>h. read_header exec_env [2] ?s2 = Inr h \<and> noffMagic h = NOFFMAGIC"
    using exec_header [of ?s2 "[2]" m3 exec_env] h be by (auto simp: trapped_def)
  have a: "AddrSpace_new exec_env [2] 1 ?s2 = Inr (exec_space 1, ?s2\<lparr>host_files := (host_files s)(swap_name 1 \<mapsto> exec_image)\<rparr>)"
    using exec_space_made [of ?s2 "[2]" m3 1 exec_env] h b be by (simp add: swap_name_def trapped_def)
  let ?m4 = "m3\<lparr>registers := (registers m3)[2 := 1]\<rparr>"
  let ?s3 = "?s2\<lparr>host_files := (host_files s)(swap_name 1 \<mapsto> exec_image), spaces := (spaces s)(6 \<mapsto> exec_space 1),
     threads := (threads s)(0 \<mapsto> th\<lparr>kstack := [User_ret]\<rparr>, 1 \<mapsto> (Thread_new ''thrad!'' (replicate NumTotalRegs 0))\<lparr>space := Some 6, tID := 1\<rparr>),
     activeThreads := list_append (Some 1) (activeThreads s), mach := Some ?m4, threadID := 2\<rparr>"
  have "quiet ?s3" using p by (simp add: parent_at_def quiet_def trapped_def)
  then obtain st where f: "Fork 1 [Process_start] 0 ?s3 = Inr (?s3\<lparr>threads := (threads ?s3)(1 \<mapsto> child [Start 0, Process_start] READY),
    readyList := list_append 1 list_new, stats := st, pending := list_new, yieldOnReturn := False\<rparr>)" (is "_ = Inr ?s'")
    by (rule quiet_fork [where t = 1 and ks = "[Process_start]"]) (auto simp: child_def Thread_new_def t(3) trapped_def)
  have "exec_process exec_env (exec_space 1) (?s2\<lparr>host_files := (host_files s)(swap_name 1 \<mapsto> exec_image)\<rparr>) = Fork 1 [Process_start] 0 ?s3"
    using p m(2) t(2) be(2) by (simp add: exec_process_def parent_at_def get_thread_def start_child_def write_register_def the_machine_def WriteRegister_def array_set_def
        int_add_def int_ok_def trapped_def demo_env_def reg_defs)
  then have u: "user_round exec_env s = Inr ?s'" using m(3) m3(1) o a f t(2) by (simp add: system_call_def SC_Exec_def trapped_def)
  have x: "executes_program exec_env s" using m(4) m3 o hd by (auto simp: names_program_def opens_program_def program_file_def)
  have "parent_at [User_ret] 8 1 ?s'" using p m3(2) be(2) m(2) by (auto simp: parent_at_def quiet_def in_program_def reg_defs trapped_def)
  then show ?thesis by (rule that [OF u x]) (simp_all add: trapped_def)
qed


lemma parent_yields:
  assumes p: "parent_at [] 12 10 s" and t: "threads s 1 = Some (child ks READY)" "readyList s = list_append 1 list_new"
  obtains s' m where "user_round env s = Inr s'" "executes_program env s" "quiet s'" "currentThread s' = 1" "loaded s' = Some 5"
    "threads s' 1 = Some (child ks RUNNING)" "threads s' 2 = threads s 2" "mach s' = Some m" "in_program 16 m"
    "spaces s' = spaces s" "host_files s' = host_files s" "host_denies s' = host_denies s" "bitMap s' = bitMap s" "IPT s' = IPT s" "IPT_VP s' = IPT_VP s"
proof -
  have "(12 :: word32) = 4 \<or> (12 :: word32) = 12" by simp
  then obtain m th b c where m: "in_program (12 + 4) m" "threads s 0 = Some th" "user_round env s = system_call env 10 0 b c (trapped m th s)"
    "executes_program env s = ((10 :: word32) = 2 \<longrightarrow> names_program env 0 (trapped m th s))"
    by (rule trap_round [OF p, of env])
  obtain s' where s': "SC_Yield (trapped m th s) = Inr s'" "quiet s'" "currentThread s' = 1" "loaded s' = Some 5"
    "threads s' 1 = Some (child ks RUNNING)" "threads s' 2 = threads s 2" "mach s' = Some m" 
    "spaces s' = spaces s" "host_files s' = host_files s" "host_denies s' = host_denies s" "bitMap s' = bitMap s" "IPT s' = IPT s" "IPT_VP s' = IPT_VP s"
    using p m(1,2) t
    by (simp add: SC_Yield_def trapped_def get_thread_def parent_at_def SaveState_def push_frame_def upd_thread_def Yield_def SetLevel_def quiet_def ChangeLevel_def
       FindNextToRun_def list_append_def list_new_def list_remove_def list_sorted_remove_def ReadyToRun_def setStatus_def Run_def Run_out_def SaveUserState_def
       the_machine_def in_program_def CheckOverflow_def child_def)
  show ?thesis by (rule that [OF _ _ s'(2-7)]) (use m s' in \<open>simp_all add: system_call_def\<close>)
qed

lemma child_starts:
  assumes "quiet s" "currentThread s = 1" "loaded s = Some 5" "threads s 1 = Some (child [Start 0, Process_start] RUNNING)" "mach s = Some m" "in_program pc m"
    "spaces s 5 = Some sp" "spaces s 6 = Some (exec_space 1)"
  obtains s1 s2 m2 where "resume s = Inr s1" "stk s1 1 \<noteq> []" "currentThread s1 = 1" "dom (spaces s1) = dom (spaces s)" "resume s1 = Inr s2" "quiet s2" "currentThread s2 = 1" "loaded s2 = Some 6" "status s2 = UserMode"
    "threads s2 1 = Some (child [] RUNNING)" "threads s2 2 = threads s 2" "mach s2 = Some m2" "length (registers m2) = NumTotalRegs" "registers m2 ! PCReg = 0" "registers m2 ! LoadReg = 0"
    "tlb m2 = None" "pageTable m2 = Some (new_table (\<lambda>_. 0) 5)" "pageTableSize m2 = 5" "spaces s2 = (spaces s)(5 \<mapsto> sp\<lparr>as_pageTable := pageTable m\<rparr>)"
    "host_files s2 = host_files s" "host_denies s2 = host_denies s" "bitMap s2 = bitMap s" "IPT s2 = IPT s" "IPT_VP s2 = IPT_VP s"
proof -
  let ?s = "s\<lparr>threads := (threads s)(1 \<mapsto> child [Process_start] RUNNING)\<rparr>"
  have q: "quiet ?s" using assms(1) by (simp add: quiet_def)
  then obtain st where l: "set_level IntOn ?s = Inr (?s\<lparr>stats := st, level := IntOn, pending := list_new, yieldOnReturn := False\<rparr>)" (is "_ = Inr ?s1")
    by (rule quiet_level)
  have r1: "resume s = Inr ?s1" using assms(2,4) l by (simp add: resume_def get_thread_def upd_thread_def child_def)
  let ?s1' = "?s1\<lparr>threads := (threads s)(1 \<mapsto> child [] RUNNING)\<rparr>"
  have len: "length (registers m) = NumTotalRegs" using assms(6) by (simp add: in_program_def)
  obtain r where r: "InitRegisters 6 ?s1' = Inr (?s1'\<lparr>mach := Some (m\<lparr>registers := r\<rparr>)\<rparr>)" "length r = NumTotalRegs"
    "\<forall>i < NumTotalRegs. r ! i = (if i = NextPCReg then 4 else if i = StackReg then of_nat (numPages (exec_space 1) * PageSize) - 16 else 0)"
    using InitRegisters_works [of ?s1' m 6 "exec_space 1"] assms(5,8) len by auto
  let ?m2 = "m\<lparr>registers := r, pageTable := Some (new_table (\<lambda>_. 0) 5), pageTableSize := 5\<rparr>"
  let ?s2 = "?s1'\<lparr>mach := Some ?m2, spaces := (spaces s)(5 \<mapsto> sp\<lparr>as_pageTable := pageTable m\<rparr>), loaded := Some 6, status := UserMode\<rparr>"
  have r2: "resume ?s1 = Inr ?s2"
    using assms(1,2,3,7,8) r(1) by (simp add: resume_def get_thread_def upd_thread_def child_def processCreator_def RestoreState_def home_def get_space_def the_machine_def
      exec_space_def destroy_finished_def quiet_def)
  show ?thesis
    by (rule that [OF r1 _ _ _ r2]) (use assms r q in \<open>auto simp: quiet_def stk_def child_def in_program_def reg_defs\<close>)
qed


section \<open>The run\<close>

definition exec_boot :: "user_sys result" where
  "exec_boot = user_boot (\<lambda>_. 0) (\<lambda>_. []) [0] (Machine_new False False False 0) 0 [[112] \<mapsto> exec_program, [2] \<mapsto> exec_program] (\<lambda>_. False)"

lemma exec_booted:
  obtains s where "mreach s" "quiet s" "bm_wf (bitMap s)" "numBits (bitMap s) = NumPhysPages" "marked (bitMap s) = {}" "mach s = Some (Machine_new False False False 0)"
    "spaces s = Map.empty" "loaded s = None" "status s = SystemMode" "currentThread s = 0"
    "threads s = [0 \<mapsto> (Thread_new ''main'' [])\<lparr>tstatus := RUNNING\<rparr>]" "readyList s = list_new" "threadID s = 1"
    "length (IPT s) = NumPhysPages" "length (IPT_VP s) = NumPhysPages"
    "host_files s = [[112] \<mapsto> exec_program, [2] \<mapsto> exec_program]" "host_denies s = (\<lambda>_. False)"
proof -
  obtain s where b: "exec_boot = Inr s"
    using BitMap_new_spec [of NumPhysPages "[0]"] by (auto simp: exec_boot_def user_boot_def divRoundUp_def BitsInWord_def size_defs)
  note f = user_boot_fields [OF b [unfolded exec_boot_def]]
  have "mreach s" by (rule mreach.boot [OF _ b [unfolded exec_boot_def]]) simp
  moreover have "quiet s" "readyList s = list_new" "threadID s = 1" "length (IPT s) = NumPhysPages" "length (IPT_VP s) = NumPhysPages"
    using b by (auto simp: exec_boot_def user_boot_def rbind_eq_Inr thread_sys.defs kernel_boot_defs quiet_def)
  ultimately show ?thesis using physical_bitmap_new [OF f(1)] f by (intro that [of s]) simp_all
qed

lemma exec_image_code: "length exec_image = 1280" "i < 16 \<Longrightarrow> exec_image ! i = exec_code ! i"
proof -
  have "length exec_code = 16" "drop NoffHeader_size exec_program = exec_code" by (simp_all add: exec_code_def exec_program_def NoffHeader_size_def)
  then show "length exec_image = 1280" "i < 16 \<Longrightarrow> exec_image ! i = exec_code ! i" by (simp_all add: exec_image_def swap_image_def new_chars_def nth_append)
qed

lemma exec_started:
  obtains s m where "mreach s" "quiet s" "bm_wf (bitMap s)" "numBits (bitMap s) = NumPhysPages" "marked (bitMap s) = {}" "mach s = Some m"
    "length (registers m) = NumTotalRegs" "\<forall>i < NumTotalRegs. i \<noteq> NextPCReg \<and> i \<noteq> StackReg \<longrightarrow> registers m ! i = 0" "registers m ! NextPCReg = 4"
    "tlb m = None" "\<not> hostBigEndian m" "pageTableSize m = 5" "pageTable m = Some (new_table (\<lambda>_. 0) 5)"
    "spaces s = [5 \<mapsto> exec_space 0]" "loaded s = Some 5" "status s = UserMode" "currentThread s = 0"
    "threads s = [0 \<mapsto> (Thread_new ''main'' [])\<lparr>tstatus := RUNNING, space := Some 5\<rparr>]" "readyList s = list_new" "threadID s = 1"
    "length (IPT s) = NumPhysPages" "length (IPT_VP s) = NumPhysPages"
    "host_files s [2] = Some exec_program" "host_files s (swap_name 0) = Some exec_image" "host_denies s = (\<lambda>_. False)"
proof -
  obtain s where s: "mreach s" "quiet s" "bm_wf (bitMap s)" "numBits (bitMap s) = NumPhysPages" "marked (bitMap s) = {}" "mach s = Some (Machine_new False False False 0)"
    "spaces s = Map.empty" "loaded s = None" "status s = SystemMode" "currentThread s = 0"
    "threads s = [0 \<mapsto> (Thread_new ''main'' [])\<lparr>tstatus := RUNNING\<rparr>]" "readyList s = list_new" "threadID s = 1"
    "length (IPT s) = NumPhysPages" "length (IPT_VP s) = NumPhysPages"
    "host_files s = [[112] \<mapsto> exec_program, [2] \<mapsto> exec_program]" "host_denies s = (\<lambda>_. False)" by (rule exec_booted)
  let ?m = "Machine_new False False False 0" and ?th = "(Thread_new ''main'' [])\<lparr>tstatus := RUNNING\<rparr>"
  let ?s1 = "s\<lparr>host_files := (host_files s)(swap_name 0 \<mapsto> exec_image)\<rparr>"
  have o: "stub_Open [112] s = Inr (Some [112])" using s(16,17) by (simp add: stub_Open_def OpenForReadWrite_def)
  have a: "AddrSpace_new demo_env [112] 0 s = Inr (exec_space 0, ?s1)"
    using exec_space_made [of s "[112]" ?m 0 demo_env] s by (simp add: Machine_new_def swap_name_def)
  have e: "mach ?s1 = Some ?m" "length (registers ?m) = NumTotalRegs" "loaded ?s1 = None" "threads ?s1 (currentThread ?s1) = Some ?th"
    using s by (simp_all add: Machine_new_def)
  have n: "new_space demo_env = 5" by (simp add: demo_env_def)
  obtain r where r: "StartProcess demo_env [112] s = Inr (?s1\<lparr>mach := Some (?m\<lparr>registers := r, pageTable := as_pageTable (exec_space 0), pageTableSize := of_nat (numPages (exec_space 0))\<rparr>),
      spaces := (spaces ?s1)(5 \<mapsto> exec_space 0), loaded := Some 5,
      threads := (threads ?s1)(currentThread ?s1 \<mapsto> ?th\<lparr>space := Some 5\<rparr>), status := UserMode\<rparr>)" (is "_ = Inr ?s'")
    "length r = NumTotalRegs"
    "\<forall>i < NumTotalRegs. r ! i = (if i = NextPCReg then 4 else if i = StackReg then of_nat (numPages (exec_space 0) * PageSize) - 16 else 0)"
    using StartProcess_works [OF o a e] unfolding n by blast
  have "opens_program demo_env [112] s" using o exec_header [of s "[112]" ?m demo_env] s by (auto simp: opens_program_def program_file_def Machine_new_def)
  moreover have "fresh demo_env s" "stk s (currentThread s) = []" using s by (simp_all add: fresh_def demo_env_def stk_def Thread_new_def)
  ultimately have "pstep s ?s'" using pstep.start [OF _ s(9) _ _ r(1)] by blast
  then have "mreach ?s'" by (rule mreach.step [OF s(1)]) (simp add: s(7) kept_def)
  then show ?thesis
    by (rule that [of ?s' "?m\<lparr>registers := r, pageTable := as_pageTable (exec_space 0), pageTableSize := of_nat (numPages (exec_space 0))\<rparr>"])
      (use s r(2,3) in \<open>simp_all add: quiet_def Machine_new_def exec_space_def reg_defs swap_name_def\<close>)
qed

lemma mreach_round:
  assumes "mreach s" "stk s (currentThread s) = []" "status s = UserMode" "fresh env s" "user_round env s = Inr s'" "executes_program env s" "dom (spaces s) \<subseteq> dom (spaces s')"
  shows "mreach s'"
  by (rule mreach.step [OF assms(1) pstep.round [OF assms(2,3,6,4,5)]]) (use assms(7) in \<open>simp add: kept_def\<close>)

lemma mreach_resume:
  assumes "mreach s" "stk s (currentThread s) \<noteq> []" "resume s = Inr s'" "dom (spaces s) \<subseteq> dom (spaces s')"
  shows "mreach s'"
  by (rule mreach.step [OF assms(1) pstep.other [OF ustep.resume [OF assms(2,3)]]]) (use assms(4) in \<open>simp add: kept_def\<close>)


definition later_env :: unspecified where
  "later_env = demo_env\<lparr>new_thread := 2, new_space := 7\<rparr>"

lemma parent_runs: "parent_at ks pc v s \<Longrightarrow> stk s (currentThread s) = ks" "parent_at [] pc v s \<Longrightarrow> status s = UserMode" "parent_at ks pc v s \<Longrightarrow> threads s 0 \<noteq> None"
  by (auto simp: parent_at_def stk_def)

lemma others_eq:
  assumes "others s' = others s"
  shows "spaces s' = spaces s" "readyList s' = readyList s" "host_files s' = host_files s" "host_denies s' = host_denies s" "threadID s' = threadID s"
    "bitMap s' = bitMap s" "IPT s' = IPT s" "IPT_VP s' = IPT_VP s" "t \<noteq> 0 \<Longrightarrow> threads s' t = threads s t"
  using assms by (auto simp: others_def dest: fun_cong [of _ _ t])

lemma parent_loaded:
  obtains s where "mreach s" "parent_at [User_ret] 0 0 s" "bm_wf (bitMap s)" "numBits (bitMap s) = NumPhysPages" "marked (bitMap s) = {0}"
    "spaces s = [5 \<mapsto> exec_space 0]" "threads s 1 = None" "threads s 2 = None" "readyList s = list_new" "threadID s = 1" "length (IPT s) = NumPhysPages" "length (IPT_VP s) = NumPhysPages"
    "host_files s [2] = Some exec_program" "host_denies s = (\<lambda>_. False)"
proof -
  obtain s m where s: "mreach s" "quiet s" "bm_wf (bitMap s)" "numBits (bitMap s) = NumPhysPages" "marked (bitMap s) = {}" "mach s = Some m"
    "length (registers m) = NumTotalRegs" "\<forall>i < NumTotalRegs. i \<noteq> NextPCReg \<and> i \<noteq> StackReg \<longrightarrow> registers m ! i = 0" "registers m ! NextPCReg = 4"
    "tlb m = None" "\<not> hostBigEndian m" "pageTableSize m = 5" "pageTable m = Some (new_table (\<lambda>_. 0) 5)"
    "spaces s = [5 \<mapsto> exec_space 0]" "loaded s = Some 5" "status s = UserMode" "currentThread s = 0"
    "threads s = [0 \<mapsto> (Thread_new ''main'' [])\<lparr>tstatus := RUNNING, space := Some 5\<rparr>]" "readyList s = list_new" "threadID s = 1"
    "length (IPT s) = NumPhysPages" "length (IPT_VP s) = NumPhysPages"
    "host_files s [2] = Some exec_program" "host_files s (swap_name 0) = Some exec_image" "host_denies s = (\<lambda>_. False)" by (rule exec_started)
  obtain e pt where pt: "new_table (\<lambda>_. 0) 5 = e # pt" "\<not> valid e" by (simp add: new_table_def upt_conv_Cons)
  have "marked (bitMap s) \<noteq> {..<numBits (bitMap s)}" using s(4,5) lessThan_empty_iff [of "32 :: nat"] by (simp add: size_defs)
  then obtain bm where f: "Find (bitMap s) = Inr (int 0, bm)" "bm_wf bm" "numBits bm = NumPhysPages" "marked bm = {0}"
    using Find_free_bit [OF s(3)] s(4,5) by fastforce
  let ?th = "(Thread_new ''main'' [])\<lparr>tstatus := RUNNING, space := Some 5\<rparr>"
  let ?s' = "\<lambda>r st. s\<lparr>mach := Some (m\<lparr>registers := r, pageTable := Some (e\<lparr>physicalPage := of_nat 0, valid := True\<rparr> # pt),
      mainMemory := (\<lambda>i. if 0 * PageSize \<le> i \<and> i < 0 * PageSize + PageSize then take PageSize exec_image ! (i - 0 * PageSize) else mainMemory m i)\<rparr>),
      threads := (threads s)(currentThread s \<mapsto> ?th\<lparr>kstack := User_ret # kstack ?th\<rparr>), status := SystemMode, stats := st,
      bitMap := bm, IPT := (IPT s)[0 := Some (currentThread s)], IPT_VP := (IPT_VP s)[0 := 0]\<rparr>"
  obtain r st where r: "user_round exec_env s = Inr (?s' r st)"
    "length r = NumTotalRegs" "r ! 0 = 0" "r ! LoadReg = 0" "\<forall>i \<in> {2, 4, PCReg, NextPCReg}. r ! i = registers m ! i" "executes_program exec_env s"
    by (rule fault_round [OF s(6,7) _ _ s(10) _ pt(2) s(12), where th = ?th and sp = "exec_space 0" and img = exec_image and bm = bm and f = 0 and env = exec_env])
      (use s f pt exec_image_code in \<open>simp_all add: reg_defs exec_space_def size_defs\<close>)
  have "mreach (?s' r st)"
    by (rule mreach_round [OF s(1) _ s(16) _ r(1,6)]) (use s(14,17,18) in \<open>simp_all add: stk_def fresh_def demo_env_def Thread_new_def\<close>)
  moreover have "parent_at [User_ret] 0 0 (?s' r st)"
    using s r(2-5) exec_image_code by (simp add: parent_at_def quiet_def in_program_def reg_defs Thread_new_def size_defs)
  ultimately show ?thesis
    by (rule that) (use s f in \<open>simp_all\<close>)
qed


lemma parent_has_child:
  obtains s where "mreach s" "parent_at [User_ret] 8 1 s" "bm_wf (bitMap s)" "numBits (bitMap s) = NumPhysPages" "marked (bitMap s) = {0}"
    "spaces s = [5 \<mapsto> exec_space 0, 6 \<mapsto> exec_space 1]" "threads s 1 = Some (child [Start 0, Process_start] READY)" "threads s 2 = None"
    "readyList s = list_append 1 list_new" "length (IPT s) = NumPhysPages" "length (IPT_VP s) = NumPhysPages"
    "host_files s (swap_name 1) = Some exec_image" "host_denies s = (\<lambda>_. False)"
proof -
  obtain s1 where s: "mreach s1" "parent_at [User_ret] 0 0 s1" "bm_wf (bitMap s1)" "numBits (bitMap s1) = NumPhysPages" "marked (bitMap s1) = {0}"
    "spaces s1 = [5 \<mapsto> exec_space 0]" "threads s1 1 = None" "threads s1 2 = None" "readyList s1 = list_new" "threadID s1 = 1" "length (IPT s1) = NumPhysPages" "length (IPT_VP s1) = NumPhysPages"
    "host_files s1 [2] = Some exec_program" "host_denies s1 = (\<lambda>_. False)" by (rule parent_loaded)
  obtain s2 where 2: "resume s1 = Inr s2" "parent_at [] 0 0 s2" "others s2 = others s1" by (rule parent_resume [OF s(2)])
  have m2: "mreach s2" by (rule mreach_resume [OF s(1) _ 2(1)]) (simp_all add: parent_runs(1) [OF s(2)] others_eq [OF 2(3)])
  obtain s3 where 3: "user_round exec_env s2 = Inr s3" "parent_at [] (0 + 4) (if (0 :: word32) = 0 then 2 else 10) s3" "others s3 = others s2" "executes_program exec_env s2"
    by (rule parent_addiu [OF 2(2), of exec_env]) simp
  note o = others_eq [OF 2(3)] others_eq [OF 3(3)]
  have f: "fresh exec_env s2" "fresh exec_env s3" using s(6,7) o by (simp_all add: fresh_def demo_env_def)
  have m3: "mreach s3" by (rule mreach_round [OF m2 _ _ f(1) 3(1,4)]) (simp_all add: parent_runs [OF 2(2)] o)
  have p3: "parent_at [] 4 2 s3" using 3(2) by simp
  obtain s4 where 4: "user_round exec_env s3 = Inr s4" "executes_program exec_env s3" "parent_at [User_ret] 8 1 s4"
    "threads s4 1 = Some (child [Start 0, Process_start] READY)" "threads s4 2 = threads s3 2" "readyList s4 = list_append 1 list_new"
    "spaces s4 = (spaces s3)(6 \<mapsto> exec_space 1)" "host_files s4 = (host_files s3)(swap_name 1 \<mapsto> exec_image)" "host_denies s4 = host_denies s3"
    "bitMap s4 = bitMap s3" "IPT s4 = IPT s3" "IPT_VP s4 = IPT_VP s3"
    by (rule parent_execs [OF p3]) (use s o in simp_all)
  have "mreach s4" by (rule mreach_round [OF m3 _ _ f(2) 4(1,2)]) (use 4(7) in \<open>auto simp: parent_runs [OF p3]\<close>)
  then show ?thesis by (rule that [OF _ 4(3)]) (use s o 4 in simp_all)
qed

lemma child_runs:
  obtains s m m5 where "mreach s" "currentThread s = 1" "loaded s = Some 6" "status s = UserMode" "threads s 1 = Some (child [] RUNNING)" "threads s 2 = None" "mach s = Some m"
    "length (registers m) = NumTotalRegs" "registers m ! PCReg = 0" "registers m ! LoadReg = 0" "tlb m = None" "pageTable m = Some (new_table (\<lambda>_. 0) 5)" "pageTableSize m = 5"
    "in_program 16 m5" "spaces s = [6 \<mapsto> exec_space 1, 5 \<mapsto> (exec_space 0)\<lparr>as_pageTable := pageTable m5\<rparr>]"
    "bm_wf (bitMap s)" "numBits (bitMap s) = NumPhysPages" "marked (bitMap s) = {0}" "length (IPT s) = NumPhysPages" "length (IPT_VP s) = NumPhysPages"
    "host_files s (swap_name 1) = Some exec_image" "host_denies s = (\<lambda>_. False)"
proof -
  obtain s1 where s: "mreach s1" "parent_at [User_ret] 8 1 s1" "bm_wf (bitMap s1)" "numBits (bitMap s1) = NumPhysPages" "marked (bitMap s1) = {0}"
    "spaces s1 = [5 \<mapsto> exec_space 0, 6 \<mapsto> exec_space 1]" "threads s1 1 = Some (child [Start 0, Process_start] READY)" "threads s1 2 = None"
    "readyList s1 = list_append 1 list_new" "length (IPT s1) = NumPhysPages" "length (IPT_VP s1) = NumPhysPages"
    "host_files s1 (swap_name 1) = Some exec_image" "host_denies s1 = (\<lambda>_. False)" by (rule parent_has_child)
  obtain s2 where 2: "resume s1 = Inr s2" "parent_at [] 8 1 s2" "others s2 = others s1" by (rule parent_resume [OF s(2)])
  have m2: "mreach s2" by (rule mreach_resume [OF s(1) _ 2(1)]) (simp_all add: parent_runs(1) [OF s(2)] others_eq [OF 2(3)])
  obtain s3 where 3: "user_round later_env s2 = Inr s3" "parent_at [] (8 + 4) (if (8 :: word32) = 0 then 2 else 10) s3" "others s3 = others s2" "executes_program later_env s2"
    by (rule parent_addiu [OF 2(2), of later_env]) simp
  note o = others_eq [OF 2(3)] others_eq [OF 3(3)]
  have f: "fresh later_env s2" "fresh later_env s3" using s(6,8) o by (simp_all add: fresh_def later_env_def)
  have m3: "mreach s3" by (rule mreach_round [OF m2 _ _ f(1) 3(1,4)]) (simp_all add: parent_runs [OF 2(2)] o)
  have p3: "parent_at [] 12 10 s3" using 3(2) by simp
  obtain s4 m4 where 4: "user_round later_env s3 = Inr s4" "executes_program later_env s3" "quiet s4" "currentThread s4 = 1" "loaded s4 = Some 5"
    "threads s4 1 = Some (child [Start 0, Process_start] RUNNING)" "threads s4 2 = threads s3 2" "mach s4 = Some m4" "in_program 16 m4"
    "spaces s4 = spaces s3" "host_files s4 = host_files s3" "host_denies s4 = host_denies s3" "bitMap s4 = bitMap s3" "IPT s4 = IPT s3" "IPT_VP s4 = IPT_VP s3"
    by (rule parent_yields [OF p3]) (use s o in simp_all)
  have m4: "mreach s4" by (rule mreach_round [OF m3 _ _ f(2) 4(1,2)]) (use 4(10) in \<open>simp_all add: parent_runs [OF p3]\<close>)
  have sp: "spaces s4 5 = Some (exec_space 0)" "spaces s4 6 = Some (exec_space 1)" using s(6) o 4(10) by simp_all
  obtain s5 s6 m6 where 5: "resume s4 = Inr s5" "stk s5 1 \<noteq> []" "currentThread s5 = 1" "dom (spaces s5) = dom (spaces s4)" "resume s5 = Inr s6" "quiet s6" "currentThread s6 = 1" "loaded s6 = Some 6" "status s6 = UserMode"
    "threads s6 1 = Some (child [] RUNNING)" "threads s6 2 = threads s4 2" "mach s6 = Some m6" "length (registers m6) = NumTotalRegs" "registers m6 ! PCReg = 0" "registers m6 ! LoadReg = 0"
    "tlb m6 = None" "pageTable m6 = Some (new_table (\<lambda>_. 0) 5)" "pageTableSize m6 = 5" "spaces s6 = (spaces s4)(5 \<mapsto> (exec_space 0)\<lparr>as_pageTable := pageTable m4\<rparr>)"
    "host_files s6 = host_files s4" "host_denies s6 = host_denies s4" "bitMap s6 = bitMap s4" "IPT s6 = IPT s4" "IPT_VP s6 = IPT_VP s4"
    by (rule child_starts [OF 4(3-6,8,9) sp])
  have m5: "mreach s5" by (rule mreach_resume [OF m4 _ 5(1)]) (use 4(4,6) 5(4) in \<open>simp_all add: stk_def child_def\<close>)
  have "mreach s6" by (rule mreach_resume [OF m5 _ 5(5)]) (use 5(2-4,19) in auto)
  then show ?thesis by (rule that [OF _ 5(7-10) _ 5(12-18) 4(9)]) (use s o 4 5 in \<open>simp_all add: fun_upd_twist\<close>)
qed

theorem processes_are_isolated_witness:
  "\<exists>s s' bs. mreach s \<and> pstep s s' \<and> touch s = {6} \<and> page_of 5 0 s = Some (0, bs) \<and> page_of 5 0 s' = Some (0, bs) \<and> frame_of 6 0 s' = Some 1"
proof -
  obtain s m m5 where s: "mreach s" "currentThread s = 1" "loaded s = Some 6" "status s = UserMode" "threads s 1 = Some (child [] RUNNING)" "threads s 2 = None" "mach s = Some m"
    "length (registers m) = NumTotalRegs" "registers m ! PCReg = 0" "registers m ! LoadReg = 0" "tlb m = None" "pageTable m = Some (new_table (\<lambda>_. 0) 5)" "pageTableSize m = 5"
    "in_program 16 m5" "spaces s = [6 \<mapsto> exec_space 1, 5 \<mapsto> (exec_space 0)\<lparr>as_pageTable := pageTable m5\<rparr>]"
    "bm_wf (bitMap s)" "numBits (bitMap s) = NumPhysPages" "marked (bitMap s) = {0}" "length (IPT s) = NumPhysPages" "length (IPT_VP s) = NumPhysPages"
    "host_files s (swap_name 1) = Some exec_image" "host_denies s = (\<lambda>_. False)" by (rule child_runs)
  obtain e pt where pt: "new_table (\<lambda>_. 0) 5 = e # pt" "\<not> valid e" by (simp add: new_table_def upt_conv_Cons)
  have "1 \<in> {..<numBits (bitMap s)}" "1 \<notin> marked (bitMap s)" using s(17,18) by (simp_all add: size_defs)
  then have "marked (bitMap s) \<noteq> {..<numBits (bitMap s)}" by blast
  then obtain i bm where "Find (bitMap s) = Inr (int i, bm)" "i \<notin> {0}" "\<forall>j < i. j \<in> {0}" using Find_free_bit [OF s(16)] s(18) by metis
  moreover from this(2,3) have "i = 1" by (cases i) force+
  ultimately have f: "Find (bitMap s) = Inr (int 1, bm)" by simp
  have th: "threads s (currentThread s) = Some (child [] RUNNING)" "space (child [] RUNNING) = Some 6" using s(2,5) by (simp_all add: child_def)
  have sp: "spaces s 6 = Some (exec_space 1)" "swapFileName (exec_space 1) = Some (swap_name 1)" using s(15) by (simp_all add: exec_space_def)
  have x: "pageTable m = Some (e # pt)" "PageSize \<le> length exec_image" "\<not> host_denies s (swap_name 1)" "1 < NumPhysPages"
    using s(12,22) pt exec_image_code(1) by (simp_all add: size_defs)
  obtain r st where r: "user_round later_env s = Inr (s\<lparr>mach := Some (m\<lparr>registers := r, pageTable := Some (e\<lparr>physicalPage := of_nat 1, valid := True\<rparr> # pt),
      mainMemory := (\<lambda>i. if 1 * PageSize \<le> i \<and> i < 1 * PageSize + PageSize then take PageSize exec_image ! (i - 1 * PageSize) else mainMemory m i)\<rparr>),
      threads := (threads s)(currentThread s \<mapsto> (child [] RUNNING)\<lparr>kstack := User_ret # kstack (child [] RUNNING)\<rparr>), status := SystemMode, stats := st,
      bitMap := bm, IPT := (IPT s)[1 := Some (currentThread s)], IPT_VP := (IPT_VP s)[1 := 0]\<rparr>)" (is "_ = Inr ?s'") "executes_program later_env s"
    by (rule fault_round [OF s(7-11) x(1) pt(2) s(13) th s(3) sp s(21) x(2,3) f s(19,20) x(4), where env = later_env])
  have "stk s (currentThread s) = []" "fresh later_env s" using s by (simp_all add: stk_def child_def fresh_def later_env_def)
  then have p: "pstep s ?s'" using pstep.round [OF _ s(4) r(2) _ r(1)] by blast
  have t: "touch s = {6}" using s(2,3,5) by (auto simp: touch_def child_def)
  have fr: "frame_of 5 0 s = Some 0" using s(3,7,14,15) by (auto simp: frame_of_def space_table_def in_program_def)
  then obtain bs where b: "page_of 5 0 s = Some (0, bs)" using s(7) by (simp add: page_of_def)
  have "frame_of 6 0 ?s' = Some 1" using s(3) by (simp add: frame_of_def space_table_def)
  with processes_are_isolated [OF s(1) p] s(1) p t b show ?thesis by (intro exI [of _ s] exI [of _ ?s'] exI [of _ bs]) simp
qed

end
