(* ===== verification/Synch_Objects.thy ===== *)
theory Synch_Objects
  imports Sched_Inv
begin

text \<open>
  What is built on semaphores and lists: the dummy locks and condition variables of \<^verbatim>\<open>threads/synch.cc\<close>, the
  synchronized list (\<^verbatim>\<open>threads/synchlist.cc\<close>), the synchronous disk (\<^verbatim>\<open>filesys/synchdisk.cc\<close>) with the constructor
  of the disk it owns, and the console test of \<^verbatim>\<open>userprog/progtest.cc\<close>.
\<close>

section \<open>Locks and condition variables\<close>

text \<open>
  They are placeholders in the source: a lock admits everybody, and \<^verbatim>\<open>Condition::Wait\<close> fails an assertion. What
  they protect is the argument, which they return unchanged.
\<close>

definition Lock_Acquire :: "'s \<Rightarrow> 's" where "Lock_Acquire s = s"
definition Lock_Release :: "'s \<Rightarrow> 's" where "Lock_Release s = s"
definition Condition_Wait :: "'s \<Rightarrow> 's result" where "Condition_Wait s = rbind (ASSERT False) (\<lambda>_. Inr s)"
definition Condition_Signal :: "'s \<Rightarrow> 's" where "Condition_Signal s = s"
definition Condition_Broadcast :: "'s \<Rightarrow> 's" where "Condition_Broadcast s = s"

lemmas lock_defs = Lock_Acquire_def Lock_Release_def Condition_Wait_def Condition_Signal_def Condition_Broadcast_def

section \<open>Synchronized lists\<close>

definition SynchList_new :: "'a nlist" where
  "SynchList_new = list_new"

definition SynchList_Append :: "'a \<Rightarrow> 'a nlist \<Rightarrow> 'a nlist" where
  "SynchList_Append it l = Lock_Release (Condition_Signal (list_append it (Lock_Acquire l)))"

text \<open>The waiting loop of \<^verbatim>\<open>Remove\<close> is a test, since \<^verbatim>\<open>Wait\<close> does not return.\<close>

definition SynchList_Remove :: "'a nlist \<Rightarrow> ('a \<times> 'a nlist) result" where
  "SynchList_Remove l = (let l0 = Lock_Acquire l in
     rbind (if list_is_empty l0 then Condition_Wait l0 else Inr l0) (\<lambda>l1.
     case list_remove l1 of (None, l2) \<Rightarrow> Inl Assert_Failed
     | (Some it, l2) \<Rightarrow> Inr (it, Lock_Release l2)))"

definition SynchList_Mapcar :: "('a \<Rightarrow> 's \<Rightarrow> 's) \<Rightarrow> 'a nlist \<Rightarrow> 's \<Rightarrow> 's" where
  "SynchList_Mapcar func l s = Lock_Release (fold func (items (Lock_Acquire l)) s)"

section \<open>The synchronous disk\<close>

definition MagicNumber :: word32 where "MagicNumber = 0x456789ab"
definition MagicSize :: nat where "MagicSize = 4"

text \<open>
  The disk is a file of the host: a magic number, then the sectors. A new file is filled with zeros up to its
  end. A file too short for the number fails the assertion in \<^verbatim>\<open>Read\<close>.
\<close>

definition Disk_new :: "byte list option \<Rightarrow> 'z dsys \<Rightarrow> 'z dsys result" where
  "Disk_new unixFile s = (let fresh_disk = (\<lambda>secs. s\<lparr>disk := \<lparr>dk_sectors = secs, dk_active = False, lastSector = 0, bufferInit = 0\<rparr>\<rparr>) in
     case unixFile of None \<Rightarrow> Inr (fresh_disk (\<lambda>_. replicate SectorSize 0))
     | Some bs \<Rightarrow> rbind (ASSERT (MagicSize \<le> length bs)) (\<lambda>_. rbind (ASSERT (bytes_word bs = MagicNumber)) (\<lambda>_.
         Inr (fresh_disk (\<lambda>n. take SectorSize (drop (MagicSize + n * SectorSize) bs))))))"

text \<open>
  \<open>x\<close> is the address of the semaphore, \<open>this\<close> that of the object. The call of \<^verbatim>\<open>Release\<close> after
  \<^verbatim>\<open>P\<close> happens when the thread has been woken; since it does nothing, the model does not postpone it.
\<close>

definition SynchDisk_new :: "nat \<Rightarrow> byte list option \<Rightarrow> 'z ksys \<Rightarrow> 'z ksys result" where
  "SynchDisk_new x unixFile s = Disk_new unixFile ((put_sem x (Semaphore_new 0) s)\<lparr>event_sem := (event_sem s)(DiskRequestDone \<mapsto> x)\<rparr>)"

definition SynchDisk_ReadSector :: "nat \<Rightarrow> int \<Rightarrow> int \<Rightarrow> 'z ksys \<Rightarrow> (byte list \<times> 'z ksys) result" where
  "SynchDisk_ReadSector x this sectorNumber s = rbind (ReadRequest this sectorNumber (Lock_Acquire s)) (\<lambda>(data, s1).
     rbind (P x s1) (\<lambda>s2. Inr (data, Lock_Release s2)))"

definition SynchDisk_WriteSector :: "nat \<Rightarrow> int \<Rightarrow> int \<Rightarrow> byte list \<Rightarrow> 'z ksys \<Rightarrow> 'z ksys result" where
  "SynchDisk_WriteSector x this sectorNumber data s = rbind (WriteRequest this sectorNumber data (Lock_Acquire s)) (\<lambda>s1.
     rbind (P x s1) (\<lambda>s2. Inr (Lock_Release s2)))"

definition SynchDisk_RequestDone :: "nat \<Rightarrow> 'z ksys \<Rightarrow> 'z ksys result" where
  "SynchDisk_RequestDone x s = V x s"

section \<open>The console test\<close>

text \<open>
  One round of the loop of \<^verbatim>\<open>ConsoleTest\<close> waits twice; \<open>console_echo\<close> is what it does in between. It tells whether the
  loop ends, after the second wait, because the character was \<open>'q'\<close>.
\<close>

definition ConsoleTest_start :: "nat \<Rightarrow> nat \<Rightarrow> int \<Rightarrow> 'z ksys \<Rightarrow> 'z ksys result" where
  "ConsoleTest_start readAvail writeDone this s = rbind (Console_new this s) (\<lambda>s1.
     Inr ((put_sem writeDone (Semaphore_new 0) (put_sem readAvail (Semaphore_new 0) s1))
       \<lparr>event_sem := (event_sem s1)(ConsoleReadAvail \<mapsto> readAvail, ConsoleWriteReady \<mapsto> writeDone)\<rparr>))"

definition console_echo :: "nat \<Rightarrow> int \<Rightarrow> 'z ksys \<Rightarrow> (bool \<times> 'z ksys) result" where
  "console_echo writeDone this s = (let (ch, s1) = GetChar s in rbind (PutChar this ch s1) (\<lambda>s2.
     rbind (P writeDone s2) (\<lambda>s3. Inr (ch = 113, s3))))"

section \<open>Synchronized lists are queues\<close>

lemma SynchList_Append_items [simp]: "items (SynchList_Append x l) = items l @ [x]"
  by (simp add: SynchList_Append_def lock_defs list_append_def)

lemma SynchList_Remove_cases:
  "SynchList_Remove l = (case items l of [] \<Rightarrow> Inl Assert_Failed | x # _ \<Rightarrow> Inr (x, snd (list_remove l)))"
  by (auto simp: SynchList_Remove_def lock_defs list_is_empty_def list_remove_def list_sorted_remove_def Let_def
      split: list.splits prod.splits)

lemma items_tail: "items l = x # q \<Longrightarrow> items (snd (list_remove l)) = q"
  by (auto simp: list_remove_def list_sorted_remove_def split: list.splits)

section \<open>Requests of the disk\<close>

lemma disk_requests_more:
  "ReadRequest this n s = Inr (d, s') \<Longrightarrow> device_sys.more s' = device_sys.more s"
  "WriteRequest this n data s = Inr s' \<Longrightarrow> device_sys.more s' = device_sys.more s"
  by (auto simp: ReadRequest_def WriteRequest_def UpdateLast_def Schedule_def rbind_eq_Inr Let_def
      split: if_splits prod.splits)

text \<open>A device request followed by \<^verbatim>\<open>P\<close> is two steps of the kernel.\<close>

lemma request_then_wait:
  assumes "stk s (currentThread s) = []" "device_sys.more s1 = device_sys.more s" "P x s1 = Inr s'"
  shows "kstep s s1" "kstep s1 s'"
proof -
  show "kstep s s1" by (rule kstep.device [OF assms(1,2)])
  have "threads s1 = threads s" "currentThread s1 = currentThread s"
    using assms(2) by (cases s; cases s1; simp)+
  then have "stk s1 (currentThread s1) = []" using assms(1) by (simp add: stk_def)
  then show "kstep s1 s'" using assms(3) by (rule kstep.p)
qed

lemma synch_disk_steps:
  assumes "stk s (currentThread s) = []"
  shows "SynchDisk_ReadSector x this n s = Inr (d, s') \<Longrightarrow> \<exists>s1. kstep s s1 \<and> kstep s1 s'"
    "SynchDisk_WriteSector x this n data s = Inr s' \<Longrightarrow> \<exists>s1. kstep s s1 \<and> kstep s1 s'"
  by (auto simp: SynchDisk_ReadSector_def SynchDisk_WriteSector_def lock_defs rbind_eq_Inr
      dest!: disk_requests_more intro: request_then_wait [OF assms])

lemma P_waits:
  assumes "semaphores s x = Some sm" "sem_value sm = 0" "threads s (currentThread s) = Some th"
  shows "P x s = Inr (s\<lparr>level := IntOff, semaphores := (semaphores s)(x \<mapsto> sm\<lparr>sem_queue := list_append (currentThread s) (sem_queue sm)\<rparr>),
    threads := (threads s)(currentThread s \<mapsto> th\<lparr>tstatus := BLOCKED, kstack := Sleep_loop # P_retry x (level s) # kstack th\<rparr>)\<rparr>)"
  using assms by (simp add: P_def SetLevel_def ChangeLevel_def P_loop_def get_sem_def put_sem_def push_frame_def upd_thread_def
      get_thread_def Sleep_def setStatus_def Let_def)

lemma more_fields:
  assumes "device_sys.more s' = device_sys.more s"
  shows "threads s' = threads s" "currentThread s' = currentThread s" "semaphores s' = semaphores s" "readyList s' = readyList s"
    "event_sem s' = event_sem s"
  using assms by (cases s; cases s'; simp)+

text \<open>
  C32: a request to the synchronous disk. From an idle disk the write is done at once and the calling thread
  sleeps in the queue of the semaphore; the interrupt of the disk makes it ready again and leaves the disk idle. The lock keeps nobody
  out: until that interrupt, a request by any other thread stops Nachos.
\<close>

theorem synch_disk_request:
  assumes "disk_ok s" "\<not> dk_active (disk s)" "valid_sector n" "length data = SectorSize"
    "event_sem s DiskRequestDone = Some x" "semaphores s x = Some sm" "sem_value sm = 0" "items (sem_queue sm) = []"
    "threads s (currentThread s) = Some th"
  shows "\<exists>s1 s2. SynchDisk_WriteSector x this n data s = Inr s1
    \<and> dk_sectors (disk s1) = (dk_sectors (disk s))(nat n := data)
    \<and> st s1 (currentThread s) = Some BLOCKED \<and> que s1 x = [currentThread s]
    \<and> (\<forall>(s' :: 'z ksys) k d. disk s' = disk s1 \<longrightarrow> SynchDisk_WriteSector x this k d s' = Inl Assert_Failed
         \<and> SynchDisk_ReadSector x this k s' = Inl Assert_Failed)
    \<and> device_call kernel_notify DiskDone this s1 = Inr s2 \<and> \<not> dk_active (disk s2) \<and> dk_sectors (disk s2) = dk_sectors (disk s1)
    \<and> st s2 (currentThread s) = Some READY \<and> ready s2 = ready s @ [currentThread s] \<and> val s2 x = 1 \<and> que s2 x = []"
proof -
  obtain s0 where w: "WriteRequest this n data s = Inr s0" "dk_active (disk s0)"
    "dk_sectors (disk s0) = (dk_sectors (disk s))(nat n := data)" using WriteRequest_ok [OF assms(1-4)] by blast
  note f = more_fields [OF disk_requests_more(2) [OF w(1)]]
  let ?c = "currentThread s"
  let ?s1 = "s0\<lparr>level := IntOff, semaphores := (semaphores s)(x \<mapsto> sm\<lparr>sem_queue := list_append ?c (sem_queue sm)\<rparr>),
    threads := (threads s)(?c \<mapsto> th\<lparr>tstatus := BLOCKED, kstack := Sleep_loop # P_retry x (level s0) # kstack th\<rparr>)\<rparr>"
  have s1: "SynchDisk_WriteSector x this n data s = Inr ?s1"
    using P_waits [of s0 x sm th] assms(6,7,9) w(1) f by (simp add: SynchDisk_WriteSector_def lock_defs)
  have "SynchDisk_WriteSector x this k d s' = Inl Assert_Failed \<and> SynchDisk_ReadSector x this k s' = Inl Assert_Failed"
    if "disk s' = disk ?s1" for s' :: "'z ksys" and k d
    using that w(2) by (simp add: SynchDisk_WriteSector_def SynchDisk_ReadSector_def WriteRequest_def ReadRequest_def lock_defs Let_def)
  moreover have "\<exists>s2. device_call kernel_notify DiskDone this ?s1 = Inr s2 \<and> \<not> dk_active (disk s2) \<and> dk_sectors (disk s2) = dk_sectors (disk ?s1)
    \<and> st s2 ?c = Some READY \<and> ready s2 = ready s @ [?c] \<and> val s2 x = 1 \<and> que s2 x = []"
    using assms(5,7,8) f by (simp add: Disk_HandleInterrupt_def kernel_notify_def V_core_def get_sem_def put_sem_def list_append_def
        list_remove_def list_sorted_remove_def ReadyToRun_def setStatus_def upd_thread_def get_thread_def st_def val_def que_def)
  moreover have "dk_sectors (disk ?s1) = (dk_sectors (disk s))(nat n := data)" "st ?s1 ?c = Some BLOCKED" "que ?s1 x = [?c]"
    using w(3) assms(8) by (simp_all add: st_def que_def list_append_def)
  ultimately show ?thesis using s1 by blast
qed

theorem synch_disk_request_witness:
  "\<exists>(s :: thread_sys) s1. SynchDisk_WriteSector 3 0 5 (replicate 256 7) s = Inr s1 \<and> que s1 3 = [0]
     \<and> SynchDisk_ReadSector 3 0 6 s1 = Inl Assert_Failed"
proof -
  let ?s = "(put_sem 3 (Semaphore_new 0) (kernel_boot (\<lambda>_. 0) (\<lambda>_. replicate 256 0)))\<lparr>event_sem := [DiskRequestDone \<mapsto> 3]\<rparr>"
  have "disk_ok ?s" "\<not> dk_active (disk ?s)" "valid_sector 5" "length (replicate 256 7 :: byte list) = SectorSize"
    by (simp_all add: kernel_boot_defs devices_off_defs put_sem_def disk_ok_def valid_sector_def NumSectors_def
        SectorsPerTrack_def NumTracks_def SectorSize_def)
  moreover have "currentThread ?s = 0" "threads ?s 0 = Some ((Thread_new ''main'' [])\<lparr>tstatus := RUNNING\<rparr>)"
    "semaphores ?s 3 = Some (Semaphore_new 0)" "event_sem ?s DiskRequestDone = Some 3"
    by (simp_all add: kernel_boot_defs put_sem_def)
  ultimately have "\<exists>s1. SynchDisk_WriteSector 3 0 5 (replicate 256 7) ?s = Inr s1 \<and> que s1 3 = [0]
     \<and> SynchDisk_ReadSector 3 0 6 s1 = Inl Assert_Failed"
    using synch_disk_request [of ?s 5 "replicate 256 7" 3 "Semaphore_new 0" "(Thread_new ''main'' [])\<lparr>tstatus := RUNNING\<rparr>" 0]
    by (auto simp: Semaphore_new_def list_new_def)
  then show ?thesis by blast
qed

end
