(* ===== verification/Post_Office.thy ===== *)
theory Post_Office
  imports Synch_Objects
begin

text \<open>
  The post office (\<^verbatim>\<open>network/post.cc\<close>): mailboxes on top of the network device. A message is a packet whose data begin
  with a mail header. The \<open>boxes\<close> are synchronized lists; the two semaphores are wired to the interrupts of the
  network by \<open>event_sem\<close>.
\<close>

section \<open>Messages\<close>

record MailHeader =
  mail_to :: int
  mail_from :: int
  mail_length :: nat

record Mail =
  pktHdr :: PacketHeader
  mailHdr :: MailHeader
  mail_data :: "byte list"

definition MailHeaderSize :: nat where "MailHeaderSize = 12"
definition MaxMailSize :: nat where "MaxMailSize = MaxPacketSize - MailHeaderSize"

text \<open>The header as it lies in memory, three words; the length is unsigned.\<close>

definition mail_bytes :: "MailHeader \<Rightarrow> byte list" where
  "mail_bytes h = word_bytes (word_of_int (mail_to h)) @ word_bytes (word_of_int (mail_from h))
     @ word_bytes (of_nat (mail_length h))"

definition bytes_mail :: "byte list \<Rightarrow> MailHeader" where
  "bytes_mail bs = \<lparr>mail_to = sint (bytes_word bs), mail_from = sint (bytes_word (drop 4 bs)),
     mail_length = unat (bytes_word (drop 8 bs))\<rparr>"

text \<open>The part of the array \<open>data\<close> beyond the length of the message is never read and left out.\<close>

definition Mail_new :: "PacketHeader \<Rightarrow> MailHeader \<Rightarrow> byte list \<Rightarrow> Mail result" where
  "Mail_new pktH mailH msgData = rbind (ASSERT (mail_length mailH \<le> MaxMailSize)) (\<lambda>_.
     if length msgData < mail_length mailH then Inl Bad_Index
     else Inr \<lparr>pktHdr = pktH, mailHdr = mailH, mail_data = take (mail_length mailH) msgData\<rparr>)"

section \<open>Mailboxes\<close>

definition MailBox_new :: "Mail nlist" where
  "MailBox_new = SynchList_new"

definition MailBox_Put :: "PacketHeader \<Rightarrow> MailHeader \<Rightarrow> byte list \<Rightarrow> Mail nlist \<Rightarrow> Mail nlist result" where
  "MailBox_Put pkt hdr data messages = rbind (Mail_new pkt hdr data) (\<lambda>mail. Inr (SynchList_Append mail messages))"

definition MailBox_Get :: "byte list \<Rightarrow> Mail nlist \<Rightarrow> (PacketHeader \<times> MailHeader \<times> byte list \<times> Mail nlist) result" where
  "MailBox_Get into messages = rbind (SynchList_Remove messages) (\<lambda>(mail, rest).
     let n = mail_length (mailHdr mail) in
     if length into < n then Inl Bad_Index
     else Inr (pktHdr mail, mailHdr mail, take n (mail_data mail) @ drop n into, rest))"

section \<open>The post office\<close>

record post_sys = thread_sys +
  netAddr :: int
  boxes :: "Mail nlist list"
  numBoxes :: int
  messageAvailable :: nat
  messageSent :: nat
  post_buffer :: "byte list"

type_synonym 'z psys = "'z post_sys_scheme"

text \<open>
  The constructor, with the addresses of the two semaphores and of the thread it creates. The reliability is a
  percentage. \<open>buf\<close> is what the buffer of the postal worker holds at first.
\<close>

definition PostOffice_new :: "nat \<Rightarrow> nat \<Rightarrow> nat \<Rightarrow> word32 list \<Rightarrow> byte list \<Rightarrow> int \<Rightarrow> int \<Rightarrow> int \<Rightarrow> nat \<Rightarrow> 'z psys \<Rightarrow> 'z psys result" where
  "PostOffice_new avail sent t regs buf this addr reliability nBoxes s =
     (let s1 = (put_sem sent (Semaphore_new 0) (put_sem avail (Semaphore_new 0) s))
            \<lparr>event_sem := (event_sem s)(NetReadAvail \<mapsto> avail, NetWriteReady \<mapsto> sent),
             netAddr := addr, numBoxes := int nBoxes, boxes := replicate nBoxes MailBox_new,
             messageAvailable := avail, messageSent := sent, post_buffer := buf\<rparr> in
      rbind (Network_new this addr reliability s1) (\<lambda>s2.
      Fork t [] this (s2\<lparr>threads := (threads s2)(t \<mapsto> Thread_new ''postal worker'' regs)\<rparr>)))"

definition boxes_at :: "int \<Rightarrow> 'z psys \<Rightarrow> Mail nlist result" where
  "boxes_at k s = (if k < 0 then Inl Bad_Index else array_get (boxes s) (nat k))"

definition put_box :: "int \<Rightarrow> Mail nlist \<Rightarrow> 'z psys \<Rightarrow> 'z psys" where
  "put_box k b s = s\<lparr>boxes := (boxes s)[nat k := b]\<rparr>"

text \<open>
  The loop of the postal worker: it waits for a packet, and then delivers it. A packet shorter than a mail header
  is completed by what the buffer held before.
\<close>

definition postal_wait :: "'z psys \<Rightarrow> 'z psys result" where
  "postal_wait s = P (messageAvailable s) s"

definition postal_deliver :: "'z psys \<Rightarrow> 'z psys result" where
  "postal_deliver s = (let ((pkt, data), s1) = Receive s;
       buffer = data @ drop (length data) (post_buffer s1); hdr = bytes_mail buffer in
     rbind (ASSERT (0 \<le> mail_to hdr \<and> mail_to hdr < numBoxes s1)) (\<lambda>_.
     rbind (ASSERT (mail_length hdr \<le> MaxMailSize)) (\<lambda>_.
     rbind (boxes_at (mail_to hdr) s1) (\<lambda>b.
     rbind (MailBox_Put pkt hdr (drop MailHeaderSize buffer) b) (\<lambda>b1.
     Inr (put_box (mail_to hdr) b1 (s1\<lparr>post_buffer := buffer\<rparr>)))))))"

text \<open>
  \<^verbatim>\<open>Send\<close> up to the call of the network; \<open>rest\<close> and \<open>wire\<close> are what the buffers of the post office and of the
  network hold beyond the message.
\<close>

definition post_packet :: "byte list \<Rightarrow> byte list \<Rightarrow> int \<Rightarrow> PacketHeader \<Rightarrow> MailHeader \<Rightarrow> byte list \<Rightarrow> 'z psys \<Rightarrow> 'z psys result" where
  "post_packet rest wire this pkt hdr data s = rbind (ASSERT (mail_length hdr \<le> MaxMailSize)) (\<lambda>_.
     rbind (ASSERT (0 \<le> mail_to hdr \<and> mail_to hdr < numBoxes s)) (\<lambda>_.
     if length data < mail_length hdr then Inl Bad_Index
     else let pkt1 = pkt\<lparr>pkt_from := netAddr s, pkt_length := mail_length hdr + MailHeaderSize\<rparr>;
              buffer = mail_bytes hdr @ take (mail_length hdr) data @ rest in
       Send wire this pkt1 buffer (Lock_Acquire s)))"

definition PostOffice_Send :: "byte list \<Rightarrow> byte list \<Rightarrow> int \<Rightarrow> PacketHeader \<Rightarrow> MailHeader \<Rightarrow> byte list \<Rightarrow> 'z psys \<Rightarrow> 'z psys result" where
  "PostOffice_Send rest wire this pkt hdr data s = rbind (post_packet rest wire this pkt hdr data s) (\<lambda>s1.
     rbind (P (messageSent s1) s1) (\<lambda>s2. Inr (Lock_Release s2)))"

definition PostOffice_Receive :: "int \<Rightarrow> byte list \<Rightarrow> 'z psys \<Rightarrow> ((PacketHeader \<times> MailHeader \<times> byte list) \<times> 'z psys) result" where
  "PostOffice_Receive box into s = rbind (ASSERT (box \<ge> 0 \<and> box < numBoxes s)) (\<lambda>_.
     rbind (boxes_at box s) (\<lambda>b. rbind (MailBox_Get into b) (\<lambda>(pkt, hdr, data, b1).
     rbind (ASSERT (mail_length hdr \<le> MaxMailSize)) (\<lambda>_.
     Inr ((pkt, hdr, data), put_box box b1 s)))))"

definition IncomingPacket :: "'z psys \<Rightarrow> 'z psys result" where
  "IncomingPacket s = V (messageAvailable s) s"

definition PacketSent :: "'z psys \<Rightarrow> 'z psys result" where
  "PacketSent s = V (messageSent s) s"

section \<open>The interrupt handlers\<close>

text \<open>The calls back from the network device are the two handlers: an interrupt runs with interrupts off.\<close>

lemma V_in_handler: "level s = IntOff \<Longrightarrow> V x s = V_core x s"
proof -
  assume l: "level s = IntOff"
  have s: "s\<lparr>level := IntOff\<rparr> = s" using l by (cases s) simp
  have "set_level IntOff s1 = Inr s1" if "V_core x s = Inr s1" for s1
  proof -
    have "level s1 = IntOff"
      using that l by (auto simp: put_sem_def elim!: V_core_cases)
    then have "s1\<lparr>level := IntOff\<rparr> = s1" by (cases s1) simp
    then show ?thesis by (simp add: set_level_def SetLevel_def ChangeLevel_def Let_def time_slice_def)
  qed
  moreover have "V x s = rbind (V_core x s) (set_level IntOff)"
    unfolding V_def SetLevel_def ChangeLevel_def Let_def l s by simp
  ultimately show ?thesis by (cases "V_core x s") simp_all
qed

lemma post_handlers:
  assumes "level s = IntOff" "event_sem s NetReadAvail = Some (messageAvailable s)" "event_sem s NetWriteReady = Some (messageSent s)"
  shows "kernel_notify NetReadAvail s = IncomingPacket s" "kernel_notify NetWriteReady s = PacketSent s"
  using assms by (simp_all add: kernel_notify_def IncomingPacket_def PacketSent_def V_in_handler)

section \<open>Mailboxes are queues\<close>

lemma MailBox_Put_items:
  assumes "MailBox_Put pkt hdr data b = Inr b'"
  shows "items b' = items b @ [\<lparr>pktHdr = pkt, mailHdr = hdr, mail_data = take (mail_length hdr) data\<rparr>]"
    "mail_length hdr \<le> MaxMailSize" "mail_length hdr \<le> length data"
  using assms by (auto simp: MailBox_Put_def Mail_new_def rbind_eq_Inr split: if_splits)

lemma MailBox_Get_cases:
  "MailBox_Get into b = (case items b of [] \<Rightarrow> Inl Assert_Failed
     | mail # _ \<Rightarrow> let n = mail_length (mailHdr mail) in if length into < n then Inl Bad_Index
         else Inr (pktHdr mail, mailHdr mail, take n (mail_data mail) @ drop n into, snd (list_remove b)))"
  by (simp add: MailBox_Get_def SynchList_Remove_cases split: list.splits)

section \<open>Delivery\<close>

definition mail_header_ok :: "MailHeader \<Rightarrow> bool" where
  "mail_header_ok h \<longleftrightarrow> - (2 ^ 31) \<le> mail_to h \<and> mail_to h < 2 ^ 31 \<and> - (2 ^ 31) \<le> mail_from h \<and> mail_from h < 2 ^ 31 \<and> mail_length h < 2 ^ 32"

lemma bytes_mail_bytes:
  assumes "mail_header_ok h"
  shows "bytes_mail (mail_bytes h @ bs) = h"
proof -
  have "unat (of_nat (mail_length h) :: word32) = mail_length h"
    using assms by (simp add: mail_header_ok_def unsigned_of_nat take_bit_nat_eq_self)
  moreover have "drop 4 (word_bytes x @ ys) = ys" "drop 8 (word_bytes x @ word_bytes y @ zs) = zs" for x y ys zs
    by (simp_all add: word_bytes_def)
  ultimately show ?thesis
    using assms by (simp add: bytes_mail_def mail_bytes_def sint_word_of_int32 mail_header_ok_def)
qed

lemma length_mail_bytes [simp]: "length (mail_bytes h) = MailHeaderSize"
  by (simp add: mail_bytes_def MailHeaderSize_def)

lemma kernel_notify_network: "kernel_notify e s = Inr s' \<Longrightarrow> network s' = network s \<and> boxes s' = boxes s
    \<and> numBoxes s' = numBoxes s \<and> post_buffer s' = post_buffer s"
  by (auto simp: kernel_notify_def put_sem_def split: option.splits elim!: V_core_cases)

lemma postal_deliver_works:
  assumes "inHdr (network r) = pkt" "take (pkt_length pkt) (inbox (network r)) = mail_bytes hdr @ data"
    "mail_header_ok hdr" "length data = mail_length hdr" "mail_length hdr \<le> MaxMailSize" "0 \<le> mail_to hdr" "mail_to hdr < numBoxes r"
    "int (length (boxes r)) = numBoxes r"
  shows "\<exists>r'. postal_deliver r = Inr r' \<and> length (boxes r') = length (boxes r)
    \<and> (\<forall>k < length (boxes r). items (boxes r' ! k) = items (boxes r ! k)
        @ (if k = nat (mail_to hdr) then [\<lparr>pktHdr = pkt, mailHdr = hdr, mail_data = data\<rparr>] else []))"
proof -
  let ?buf = "(mail_bytes hdr @ data) @ drop (length (mail_bytes hdr @ data)) (post_buffer r)" and ?k = "nat (mail_to hdr)"
  have b: "bytes_mail ?buf = hdr" using bytes_mail_bytes [OF assms(3)] by simp
  have d: "take (mail_length hdr) (drop MailHeaderSize ?buf) = data" "mail_length hdr \<le> length (drop MailHeaderSize ?buf)"
    using assms(4) by simp_all
  have k: "?k < length (boxes r)" using assms(6-8) by simp
  obtain box where box: "MailBox_Put pkt hdr (drop MailHeaderSize ?buf) (boxes r ! ?k) = Inr box"
    using d(2) assms(5) by (simp add: MailBox_Put_def Mail_new_def)
  define r1 where "r1 = r\<lparr>network := (network r)\<lparr>inHdr := pkt\<lparr>pkt_length := 0\<rparr>\<rparr>\<rparr>"
  have rc: "Receive r = ((pkt, mail_bytes hdr @ data), r1)" using assms(1,2) by (simp add: Receive_def r1_def Let_def)
  have f: "boxes r1 = boxes r" "numBoxes r1 = numBoxes r" "post_buffer r1 = post_buffer r" by (simp_all add: r1_def)
  have "boxes_at (mail_to hdr) r1 = Inr (boxes r ! ?k)" using k assms(6) f(1) by (simp add: boxes_at_def)
  then have "postal_deliver r = Inr (put_box (mail_to hdr) box (r1\<lparr>post_buffer := ?buf\<rparr>))"
    using rc b assms(5-7) box f unfolding postal_deliver_def Let_def by simp
  moreover have "items box = items (boxes r ! ?k) @ [\<lparr>pktHdr = pkt, mailHdr = hdr, mail_data = data\<rparr>]"
    using MailBox_Put_items(1) [OF box] d(1) by simp
  ultimately show ?thesis using k f(1) by (auto simp: put_box_def nth_list_update)
qed

text \<open>
  C28: mail arrives. When the packet of a message is not dropped, the machine it is addressed to polls its
  network with an empty buffer and its postal worker runs, the message is the last one in the box it was sent to, with the
  address of the sender, its mail header and its data; no other box changes.
\<close>

theorem mail_round_trip:
  fixes s r :: "'z psys"
  assumes "post_packet rest wire this pkt hdr data s = Inr s'" "mail_header_ok hdr" "length wire = MaxWireSize"
    "- (2 ^ 31) \<le> pkt_to pkt \<and> pkt_to pkt < 2 ^ 31 \<and> - (2 ^ 31) \<le> netAddr s \<and> netAddr s < 2 ^ 31"
    and "net_sent (network s') = net_sent (network s) @ [(dest, buf)]"
    and "ident (network r) = dest" "pkt_length (inHdr (network r)) = 0" "net_polls (network r) = Some buf # polls"
    and "mail_to hdr < numBoxes r" "int (length (boxes r)) = numBoxes r"
    and "CheckPktAvail kernel_notify this' r = Inr r'"
  shows "\<exists>r''. postal_deliver r' = Inr r'' \<and> length (boxes r'') = length (boxes r)
    \<and> (\<forall>k < length (boxes r). items (boxes r'' ! k) = items (boxes r ! k) @ (if k = nat (mail_to hdr) then
        [\<lparr>pktHdr = pkt\<lparr>pkt_from := netAddr s, pkt_length := mail_length hdr + MailHeaderSize\<rparr>, mailHdr = hdr,
          mail_data = take (mail_length hdr) data\<rparr>] else []))"
proof -
  let ?pkt = "pkt\<lparr>pkt_from := netAddr s, pkt_length := mail_length hdr + MailHeaderSize\<rparr>"
  let ?msg = "mail_bytes hdr @ take (mail_length hdr) data"
  have a: "mail_length hdr \<le> MaxMailSize" "0 \<le> mail_to hdr" "mail_length hdr \<le> length data"
    "Send wire this ?pkt (?msg @ rest) s = Inr s'"
    using assms(1) by (auto simp: post_packet_def rbind_eq_Inr Let_def lock_defs split: if_splits)
  have ok: "header_ok ?pkt" using a(1) assms(4)
    by (simp add: header_ok_def MaxMailSize_def MailHeaderSize_def MaxPacketSize_def MaxWireSize_def PacketHeaderSize_def)
  obtain r0 where r0: "CheckPktAvail kernel_notify this' r = kernel_notify NetReadAvail r0" "inHdr (network r0) = ?pkt"
    "take (pkt_length ?pkt) (inbox (network r0)) = take (pkt_length ?pkt) (?msg @ rest)" "device_sys.more r0 = device_sys.more r"
    using packet_arrives(2) [OF a(4) ok assms(3,5-8)] by blast
  have "length ?msg = pkt_length ?pkt" using a(3) by simp
  then have m: "take (pkt_length ?pkt) (inbox (network r0)) = ?msg" using r0(3) by simp
  have b: "boxes r0 = boxes r" "numBoxes r0 = numBoxes r" using r0(4) by (cases r; cases r0; simp)+
  have "kernel_notify NetReadAvail r0 = Inr r'" using assms(11) r0(1) by simp
  note n = kernel_notify_network [OF this]
  show ?thesis
    using postal_deliver_works [of r' ?pkt hdr "take (mail_length hdr) data"] n r0(2) m assms(2,9,10) a(1-3) b by simp
qed

text \<open>
  Receiving. \<^verbatim>\<open>Receive\<close> takes the oldest message of the box and copies its data to the caller; the other boxes keep
  theirs. On an empty box it does not wait: the condition variable fails its assertion.
\<close>

theorem receive_takes_oldest:
  assumes "0 \<le> box" "box < numBoxes s" "int (length (boxes s)) = numBoxes s"
  shows "(items (boxes s ! nat box) = [] \<longrightarrow> PostOffice_Receive box into s = Inl Assert_Failed)
    \<and> (\<forall>mail q. items (boxes s ! nat box) = mail # q \<and> mail_length (mailHdr mail) \<le> MaxMailSize \<and> MaxMailSize \<le> length into \<longrightarrow>
        (\<exists>s'. PostOffice_Receive box into s = Inr ((pktHdr mail, mailHdr mail,
              take (mail_length (mailHdr mail)) (mail_data mail) @ drop (mail_length (mailHdr mail)) into), s')
          \<and> items (boxes s' ! nat box) = q \<and> (\<forall>k. k \<noteq> nat box \<longrightarrow> boxes s' ! k = boxes s ! k)))"
proof -
  have k: "nat box < length (boxes s)" using assms by simp
  have b: "boxes_at box s = Inr (boxes s ! nat box)" using assms(1) k by (simp add: boxes_at_def)
  show ?thesis using assms(1,2) b k
    by (auto simp: PostOffice_Receive_def MailBox_Get_cases Let_def put_box_def items_tail)
qed

text \<open>
  Mail from the network is trusted. A packet whose header names a box the machine does not have, or a length
  beyond the largest message, stops the machine that receives it.
\<close>

theorem bad_mail_stops_nachos:
  assumes "\<not> (0 \<le> mail_to hdr \<and> mail_to hdr < numBoxes r \<and> mail_length hdr \<le> MaxMailSize)"
    and "hdr = bytes_mail (take (pkt_length (inHdr (network r))) (inbox (network r))
      @ drop (length (take (pkt_length (inHdr (network r))) (inbox (network r)))) (post_buffer r))"
  shows "postal_deliver r = Inl Assert_Failed"
  using assms by (auto simp: postal_deliver_def Receive_def Let_def ASSERT_def)

section \<open>The scheduler with a post office\<close>

lemma Send_more: "Send wire this pkt data s = Inr s' \<Longrightarrow> device_sys.more s' = device_sys.more s"
  by (auto simp: Send_def Schedule_def Random_def rbind_eq_Inr Let_def split: if_splits)

lemma Network_new_more: "Network_new this addr rel s = Inr s' \<Longrightarrow> device_sys.more s' = device_sys.more s"
  by (auto simp: Network_new_def Schedule_def rbind_eq_Inr Let_def)

text \<open>
  What can happen in a kernel with a post office: everything the threads can do, sending, the two halves of the postal
  worker's loop, receiving, and the creation of the post office.
\<close>

inductive pstep :: "'z psys \<Rightarrow> 'z psys \<Rightarrow> bool" where
  kernel: "kstep s s' \<Longrightarrow> pstep s s'"
| send: "stk s (currentThread s) = [] \<Longrightarrow> PostOffice_Send rest wire this pkt hdr data s = Inr s' \<Longrightarrow> pstep s s'"
| wait: "stk s (currentThread s) = [] \<Longrightarrow> postal_wait s = Inr s' \<Longrightarrow> pstep s s'"
| deliver: "stk s (currentThread s) = [] \<Longrightarrow> postal_deliver s = Inr s' \<Longrightarrow> pstep s s'"
| receive: "stk s (currentThread s) = [] \<Longrightarrow> PostOffice_Receive box into s = Inr (m, s') \<Longrightarrow> pstep s s'"
| create: "stk s (currentThread s) = [] \<Longrightarrow> semaphores s x = None \<Longrightarrow> semaphores s y = None \<Longrightarrow> x \<noteq> y \<Longrightarrow>
    threads s t = None \<Longrightarrow> PostOffice_new x y t regs buf this addr rel n s = Inr s' \<Longrightarrow> pstep s s'"

inductive preach :: "post_sys \<Rightarrow> bool" where
  boot: "preach (thread_sys.extend ((kernel_boot rnd secs)\<lparr>mach := m\<rparr>) office)"
| step: "preach s \<Longrightarrow> pstep s s' \<Longrightarrow> preach s'"

lemma sched_PostOffice_new:
  assumes "sched False s" "semaphores s x = None" "semaphores s y = None" "x \<noteq> y" "threads s t = None"
    "PostOffice_new x y t regs buf this addr rel n s = Inr s'"
  shows "sched False s'"
proof -
  let ?a = "put_sem y (Semaphore_new 0) (put_sem x (Semaphore_new 0) s)"
  let ?b = "?a\<lparr>event_sem := (event_sem s)(NetReadAvail \<mapsto> x, NetWriteReady \<mapsto> y), netAddr := addr, numBoxes := int n,
      boxes := replicate n MailBox_new, messageAvailable := x, messageSent := y, post_buffer := buf\<rparr>"
  have "sched False (put_sem x (Semaphore_new 0) s)" by (rule sched_new_semaphore [OF assms(1,2)]) simp
  then have a: "sched False ?a" by (rule sched_new_semaphore) (use assms(3,4) in \<open>simp_all add: put_sem_def\<close>)
  have "same_sched ?a ?b" by (rule same_views) simp_all
  then have b: "sched False ?b" using a sched_same by blast
  obtain s2 where c: "Network_new this addr rel ?b = Inr s2"
    "Fork t [] this (s2\<lparr>threads := (threads s2)(t \<mapsto> Thread_new ''postal worker'' regs)\<rparr>) = Inr s'"
    using assms(6) by (auto simp: PostOffice_new_def Let_def rbind_eq_Inr)
  note m = Network_new_more [OF c(1)]
  have s2: "sched False s2" using sched_more [OF m] b by blast
  have "threads s2 t = None" using more_fields(1) [OF m] assms(5) by (simp add: put_sem_def)
  note d = sched_new_thread [OF s2 this, of "''postal worker''" regs]
  show ?thesis by (rule sched_Fork [OF d _ _ c(2)]) (simp_all add: st_def Thread_new_def)
qed

lemma sched_pstep:
  assumes "pstep s s'" "sched_ok s"
  shows "sched_ok s'"
  using assms
proof (induction rule: pstep.induct)
  case (kernel s s')
  then show ?case by (rule sched_ok_kstep)
next
  case (send s rest wire this pkt hdr data s')
  then obtain s1 x where s1: "post_packet rest wire this pkt hdr data s = Inr s1" "P x s1 = Inr s'"
    by (auto simp: PostOffice_Send_def rbind_eq_Inr lock_defs)
  then have "device_sys.more s1 = device_sys.more s"
    by (auto simp: post_packet_def rbind_eq_Inr Let_def lock_defs split: if_splits dest!: Send_more)
  from request_then_wait [OF send(1) this s1(2)] send(3) show ?case by (blast intro: sched_ok_kstep)
next
  case (wait s s')
  from kstep.p [OF wait(1)] wait(2,3) show ?case by (auto simp: postal_wait_def intro: sched_ok_kstep)
next
  case (deliver s s')
  then have "same_sched s s'"
    by (auto simp: postal_deliver_def Receive_def Let_def rbind_eq_Inr put_box_def intro!: same_views)
  then show ?case using not_asleep [OF deliver(3,1)] sched_same sched_ok_running by blast
next
  case (receive s box into m s')
  then have "same_sched s s'"
    by (auto simp: PostOffice_Receive_def rbind_eq_Inr put_box_def intro!: same_views)
  then show ?case using not_asleep [OF receive(3,1)] sched_same sched_ok_running by blast
next
  case (create s x y t regs buf this addr rel n s')
  from sched_PostOffice_new [OF not_asleep [OF create(7,1)] create(2-6)] show ?case by (rule sched_ok_running)
qed

lemma preach_sched: "preach s \<Longrightarrow> sched_ok s"
  by (induction rule: preach.induct) (simp add: sched_extend sched_boot sched_ok_running, rule sched_pstep)

section \<open>Two machines\<close>

text \<open>Machine 1 with two boxes receives what machine 0 has sent to its box 1.\<close>

definition demo_office :: "int \<Rightarrow> byte list option list \<Rightarrow> post_sys" where
  "demo_office addr polls = (let s = thread_sys.extend (kernel_boot (\<lambda>_. 0) (\<lambda>_. []))
       \<lparr>netAddr = addr, boxes = [MailBox_new, MailBox_new], numBoxes = 2, messageAvailable = 0, messageSent = 1,
        post_buffer = replicate MaxPacketSize 0\<rparr> in
     s\<lparr>network := (network s)\<lparr>ident := addr, net_polls := polls\<rparr>\<rparr>)"

lemma demo_office_fields:
  "netAddr (demo_office a ps) = a" "boxes (demo_office a ps) = [MailBox_new, MailBox_new]" "numBoxes (demo_office a ps) = 2"
  "ident (network (demo_office a ps)) = a" "net_polls (network (demo_office a ps)) = ps" "sendBusy (network (demo_office a ps)) = False"
  "chanceToWork (network (demo_office a ps)) = 100" "net_sent (network (demo_office a ps)) = []" "event_sem (demo_office a ps) = Map.empty"
  "pkt_length (inHdr (network (demo_office a ps))) = 0" "random_values (demo_office a ps) = (\<lambda>_. 0)"
  by (simp_all add: demo_office_def thread_sys.defs kernel_boot_defs devices_off_defs Let_def)

theorem mail_round_trip_witness:
  "\<exists>r r' r''. CheckPktAvail kernel_notify 0 r = Inr r' \<and> postal_deliver (r' :: post_sys) = Inr r''
     \<and> items (boxes r'' ! 1) = [\<lparr>pktHdr = \<lparr>pkt_to = 1, pkt_from = 0, pkt_length = 14\<rparr>,
         mailHdr = \<lparr>mail_to = 1, mail_from = 0, mail_length = 2\<rparr>, mail_data = [5, 6]\<rparr>] \<and> items (boxes r'' ! 0) = []"
proof -
  let ?s = "demo_office 0 []" and ?h = "\<lparr>mail_to = 1, mail_from = 0, mail_length = 2\<rparr>" and ?p = "\<lparr>pkt_to = 1, pkt_from = 9, pkt_length = 0\<rparr>"
  have "\<exists>s' buf. post_packet [] (replicate MaxWireSize 0) 0 ?p ?h [5, 6] ?s = Inr s' \<and> net_sent (network s') = net_sent (network ?s) @ [(1, buf)]"
    by (simp add: post_packet_def demo_office_fields MaxMailSize_def MaxPacketSize_def MaxWireSize_def PacketHeaderSize_def MailHeaderSize_def
        Send_def lock_defs Schedule_ok tick_defs Random_def mail_bytes_def Let_def)
  then obtain s' buf where s': "post_packet [] (replicate MaxWireSize 0) 0 ?p ?h [5, 6] ?s = Inr s'"
    "net_sent (network s') = net_sent (network ?s) @ [(1, buf)]" by blast
  let ?r = "demo_office 1 [Some buf]"
  have ok: "mail_header_ok ?h" by (simp add: mail_header_ok_def)
  let ?q = "\<lparr>pkt_to = 1, pkt_from = 0, pkt_length = 14\<rparr>"
  have sd: "Send (replicate MaxWireSize 0) 0 ?q (mail_bytes ?h @ [5, 6]) ?s = Inr s'"
    using s'(1) by (simp add: post_packet_def demo_office_fields MaxMailSize_def MaxPacketSize_def MaxWireSize_def PacketHeaderSize_def
        MailHeaderSize_def lock_defs Let_def)
  have "header_ok ?q" by (simp add: header_ok_def MaxPacketSize_def MaxWireSize_def PacketHeaderSize_def)
  from packet_arrives(2) [OF sd this _ s'(2), of ?r "[]" kernel_notify 0] obtain r0 where
    "CheckPktAvail kernel_notify 0 ?r = kernel_notify NetReadAvail r0" "device_sys.more r0 = device_sys.more ?r"
    by (auto simp: demo_office_fields)
  then have "\<exists>r'. CheckPktAvail kernel_notify 0 ?r = Inr r'"
    using more_fields(5) [of r0 ?r] by (simp add: kernel_notify_def demo_office_fields)
  then obtain r' where "CheckPktAvail kernel_notify 0 ?r = Inr r'" by blast
  from mail_round_trip [OF s'(1) ok _ _ s'(2) _ _ _ _ _ this, of "[]"] this show ?thesis
    by (auto simp: demo_office_fields MailHeaderSize_def MailBox_new_def SynchList_new_def list_new_def less_Suc_eq)
qed

theorem receive_takes_oldest_witness:
  "\<exists>(s :: post_sys) m s'. PostOffice_Receive 0 (replicate MaxMailSize 0) s = Inl Assert_Failed
     \<and> PostOffice_Receive 1 (replicate MaxMailSize 0) s = Inr (m, s') \<and> items (boxes s' ! 1) = []"
proof -
  let ?m = "\<lparr>pktHdr = \<lparr>pkt_to = 1, pkt_from = 0, pkt_length = 14\<rparr>, mailHdr = \<lparr>mail_to = 1, mail_from = 0, mail_length = 2\<rparr>, mail_data = [5, 6]\<rparr>"
  let ?s = "(demo_office 0 [])\<lparr>boxes := [MailBox_new, list_append ?m MailBox_new]\<rparr>"
  have e: "items MailBox_new = []" "items (list_append ?m MailBox_new) = [?m]"
    by (simp_all add: MailBox_new_def SynchList_new_def list_new_def list_append_def)
  have "PostOffice_Receive 0 (replicate MaxMailSize 0) ?s = Inl Assert_Failed"
    using receive_takes_oldest [of 0 ?s "replicate MaxMailSize 0"] e(1) by (simp add: demo_office_fields)
  moreover have "\<exists>m s'. PostOffice_Receive 1 (replicate MaxMailSize 0) ?s = Inr (m, s') \<and> items (boxes s' ! 1) = []"
    using receive_takes_oldest [of 1 ?s "replicate MaxMailSize 0"] e(2)
    by (auto simp: demo_office_fields MaxMailSize_def MaxPacketSize_def MaxWireSize_def PacketHeaderSize_def MailHeaderSize_def)
  ultimately show ?thesis by blast
qed

end
