(* ===== verification/Mail_Test.thy ===== *)
theory Mail_Test
  imports Post_Office
begin

text \<open>
  The test of the network, \<^verbatim>\<open>network/nettest.cc\<close>: two machines send each other a message and acknowledge it. One of them is modelled here, on
  the kernel with its post office.
\<close>

section \<open>The test on one machine\<close>

text \<open>
  The main thread is at a phase of \<^verbatim>\<open>MailTest\<close>, the postal worker waits for a packet or has one to deliver. Both go on in the kernel as long as they have frames there.
  \<open>shown\<close> is what is printed: the text, the machine and the box it came from.
\<close>

datatype phase = Send_first | Get_first | Get_ack

record mail_test =
  office :: post_sys
  phase :: phase
  worker_has_packet :: bool
  worker :: nat
  shown :: "(byte list \<times> int \<times> int) list"

definition mail_text :: "string \<Rightarrow> byte list" where
  "mail_text cs = map of_char cs @ [0]"

definition mail_pad :: "byte list" where
  "mail_pad = replicate MaxWireSize 0"

definition the_text :: "byte list \<Rightarrow> byte list" where
  "the_text buf = takeWhile (\<lambda>c. c \<noteq> 0) buf"

text \<open>The header variable \<^verbatim>\<open>outPktHdr\<close> is not initialised before its destination is set; \<^verbatim>\<open>Send\<close> fills in the rest.\<close>

definition send_text :: "int \<Rightarrow> int \<Rightarrow> string \<Rightarrow> post_sys \<Rightarrow> post_sys result" where
  "send_text farAddr box cs s = PostOffice_Send [] mail_pad 0 \<lparr>pkt_to = farAddr, pkt_from = 0, pkt_length = 0\<rparr>
     \<lparr>mail_to = box, mail_from = 1, mail_length = length (mail_text cs)\<rparr> (mail_text cs) s"

definition MailTest :: "int \<Rightarrow> mail_test \<Rightarrow> mail_test result" where
  "MailTest farAddr w = (case phase w of
     Send_first \<Rightarrow> rbind (send_text farAddr 0 ''Hello there!'' (office w)) (\<lambda>s. Inr (w\<lparr>office := s, phase := Get_first\<rparr>))
   | Get_first \<Rightarrow> rbind (PostOffice_Receive 0 (replicate MaxMailSize 0) (office w)) (\<lambda>((pkt, hdr, buf), s).
       rbind (send_text (pkt_from pkt) (mail_from hdr) ''Got it!'' s) (\<lambda>s1.
       Inr (w\<lparr>office := s1, phase := Get_ack, shown := shown w @ [(the_text buf, pkt_from pkt, mail_from hdr)]\<rparr>)))
   | Get_ack \<Rightarrow> rbind (PostOffice_Receive 1 (replicate MaxMailSize 0) (office w)) (\<lambda>((pkt, hdr, buf), s).
       Inr (w\<lparr>office := s, shown := shown w @ [(the_text buf, pkt_from pkt, mail_from hdr)]\<rparr>)))"

definition postal_round :: "mail_test \<Rightarrow> mail_test result" where
  "postal_round w = (if worker_has_packet w then rbind (postal_deliver (office w)) (\<lambda>s. Inr (w\<lparr>office := s, worker_has_packet := False\<rparr>))
     else rbind (postal_wait (office w)) (\<lambda>s. Inr (w\<lparr>office := s, worker_has_packet := True\<rparr>)))"

text \<open>One step of a machine. The test is over when the second text has been printed: \<^verbatim>\<open>Halt\<close>.\<close>

definition mail_done :: "mail_test \<Rightarrow> bool" where
  "mail_done w \<longleftrightarrow> length (shown w) = 2"

definition mail_step :: "int \<Rightarrow> mail_test \<Rightarrow> mail_test result" where
  "mail_step farAddr w = (if mail_done w then Inr w else let s = office w; c = currentThread s in
     rbind (get_thread c s) (\<lambda>th.
     if kstack th \<noteq> [] then rbind (resume s) (\<lambda>s1. Inr (w\<lparr>office := s1\<rparr>))
     else if c = worker w then postal_round w else MailTest farAddr w))"

section \<open>What the test shows\<close>

text \<open>When the message has come, its text, the machine and the box it came from are shown, and the box is emptied.\<close>

lemma MailTest_shows:
  assumes "(phase w, box) \<in> {(Get_first, 0), (Get_ack, 1)}" "int (length (boxes (office w))) = numBoxes (office w)" "box < numBoxes (office w)"
    and "items (boxes (office w) ! nat box) = mail # q" "mail_length (mailHdr mail) = length (mail_data mail)" "length (mail_data mail) \<le> MaxMailSize"
    and "0 \<in> set (mail_data mail)" "MailTest farAddr w = Inr w'"
  shows "shown w' = shown w @ [(the_text (mail_data mail), pkt_from (pktHdr mail), mail_from (mailHdr mail))]"
proof -
  have b: "0 \<le> box" "MaxMailSize \<le> length (replicate MaxMailSize (0 :: byte))" using assms(1) by auto
  obtain s' where s': "PostOffice_Receive box (replicate MaxMailSize 0) (office w) = Inr ((pktHdr mail, mailHdr mail,
      take (mail_length (mailHdr mail)) (mail_data mail) @ drop (mail_length (mailHdr mail)) (replicate MaxMailSize 0)), s')"
    using receive_takes_oldest [OF b(1) assms(3,2), of "replicate MaxMailSize 0"] assms(4-6) b(2) by fastforce
  have t: "the_text (mail_data mail @ bs) = the_text (mail_data mail)" for bs using assms(7) by (simp add: the_text_def takeWhile_append1)
  show ?thesis using assms(1,5,8) s' t by (auto simp: MailTest_def rbind_eq_Inr)
qed

text \<open>When no message has come, the test does not wait for it but stops Nachos: the condition variable of the mailbox fails its assertion.\<close>

lemma MailTest_does_not_wait:
  assumes "(phase w, box) \<in> {(Get_first, 0), (Get_ack, 1)}" "int (length (boxes (office w))) = numBoxes (office w)" "box < numBoxes (office w)"
    and "items (boxes (office w) ! nat box) = []"
  shows "MailTest farAddr w = Inl Assert_Failed"
proof -
  have "PostOffice_Receive box (replicate MaxMailSize 0) (office w) = Inl Assert_Failed"
    using receive_takes_oldest [OF _ assms(3,2), of "replicate MaxMailSize 0"] assms(1,4) by auto
  then show ?thesis using assms(1) by (auto simp: MailTest_def)
qed

end
