(* ===== verification/Mips_Interp.thy ===== *)
theory Mips_Interp
  imports Mips_Exec
begin

text \<open>
  The second MIPS simulator of the repository, the interpreter for object files under \<^verbatim>\<open>bin\<close>: the instruction
  loop of \<^verbatim>\<open>bin/execute.c\<close> with the encodings of \<^verbatim>\<open>bin/encode.h\<close>, \<^verbatim>\<open>bin/instr.h\<close> and \<^verbatim>\<open>bin/int.h\<close>, and the system
  calls of \<^verbatim>\<open>bin/system.c\<close>. It has no delayed loads, no address translation and no exceptions. The arithmetic of
  the host wraps, as in the simulator of the kernel; a shift by 32 or more and an unaligned access, which the language leaves
  undefined, are \<open>Host_Trap\<close>, as is a division that traps. \<open>Halted\<close> stands for \<^verbatim>\<open>exit\<close>.
\<close>

section \<open>Encodings\<close>

definition I_SPECIAL :: word32 where "I_SPECIAL = 0"
definition I_BCOND :: word32 where "I_BCOND = 1"
definition I_J :: word32 where "I_J = 2"
definition I_JAL :: word32 where "I_JAL = 3"
definition I_BEQ :: word32 where "I_BEQ = 4"
definition I_BNE :: word32 where "I_BNE = 5"
definition I_BLEZ :: word32 where "I_BLEZ = 6"
definition I_BGTZ :: word32 where "I_BGTZ = 7"
definition I_ADDI :: word32 where "I_ADDI = 8"
definition I_ADDIU :: word32 where "I_ADDIU = 9"
definition I_SLTI :: word32 where "I_SLTI = 10"
definition I_SLTIU :: word32 where "I_SLTIU = 11"
definition I_ANDI :: word32 where "I_ANDI = 12"
definition I_ORI :: word32 where "I_ORI = 13"
definition I_XORI :: word32 where "I_XORI = 14"
definition I_LUI :: word32 where "I_LUI = 15"
definition I_LB :: word32 where "I_LB = 32"
definition I_LH :: word32 where "I_LH = 33"
definition I_LWL :: word32 where "I_LWL = 34"
definition I_LW :: word32 where "I_LW = 35"
definition I_LBU :: word32 where "I_LBU = 36"
definition I_LHU :: word32 where "I_LHU = 37"
definition I_LWR :: word32 where "I_LWR = 38"
definition I_SB :: word32 where "I_SB = 40"
definition I_SH :: word32 where "I_SH = 41"
definition I_SW :: word32 where "I_SW = 43"

lemmas op_codes = I_SPECIAL_def I_BCOND_def I_J_def I_JAL_def I_BEQ_def I_BNE_def I_BLEZ_def I_BGTZ_def I_ADDI_def I_ADDIU_def
  I_SLTI_def I_SLTIU_def I_ANDI_def I_ORI_def I_XORI_def I_LUI_def I_LB_def I_LH_def I_LWL_def I_LW_def I_LBU_def I_LHU_def
  I_LWR_def I_SB_def I_SH_def I_SW_def

definition I_SLL :: word32 where "I_SLL = 0"
definition I_SRL :: word32 where "I_SRL = 2"
definition I_SRA :: word32 where "I_SRA = 3"
definition I_SLLV :: word32 where "I_SLLV = 4"
definition I_SRLV :: word32 where "I_SRLV = 6"
definition I_SRAV :: word32 where "I_SRAV = 7"
definition I_JR :: word32 where "I_JR = 8"
definition I_JALR :: word32 where "I_JALR = 9"
definition I_SYSCALL :: word32 where "I_SYSCALL = 12"
definition I_BREAK :: word32 where "I_BREAK = 13"
definition I_MFHI :: word32 where "I_MFHI = 16"
definition I_MTHI :: word32 where "I_MTHI = 17"
definition I_MFLO :: word32 where "I_MFLO = 18"
definition I_MTLO :: word32 where "I_MTLO = 19"
definition I_MULT :: word32 where "I_MULT = 24"
definition I_MULTU :: word32 where "I_MULTU = 25"
definition I_DIV :: word32 where "I_DIV = 26"
definition I_DIVU :: word32 where "I_DIVU = 27"
definition I_ADD :: word32 where "I_ADD = 32"
definition I_ADDU :: word32 where "I_ADDU = 33"
definition I_SUB :: word32 where "I_SUB = 34"
definition I_SUBU :: word32 where "I_SUBU = 35"
definition I_AND :: word32 where "I_AND = 36"
definition I_OR :: word32 where "I_OR = 37"
definition I_XOR :: word32 where "I_XOR = 38"
definition I_NOR :: word32 where "I_NOR = 39"
definition I_SLT :: word32 where "I_SLT = 42"
definition I_SLTU :: word32 where "I_SLTU = 43"
definition I_BLTZ :: word32 where "I_BLTZ = 0"
definition I_BGEZ :: word32 where "I_BGEZ = 1"
definition I_BLTZAL :: word32 where "I_BLTZAL = 16"
definition I_BGEZAL :: word32 where "I_BGEZAL = 17"

lemmas fn_codes = I_SLL_def I_SRL_def I_SRA_def I_SLLV_def I_SRLV_def I_SRAV_def I_JR_def I_JALR_def I_SYSCALL_def I_BREAK_def
  I_MFHI_def I_MTHI_def I_MFLO_def I_MTLO_def I_MULT_def I_MULTU_def I_DIV_def I_DIVU_def I_ADD_def I_ADDU_def I_SUB_def I_SUBU_def
  I_AND_def I_OR_def I_XOR_def I_NOR_def I_SLT_def I_SLTU_def I_BLTZ_def I_BGEZ_def I_BLTZAL_def I_BGEZAL_def

definition field_rd :: "word32 \<Rightarrow> word32" where "field_rd i = drop_bit 11 i AND 0x1f"
definition field_rt :: "word32 \<Rightarrow> word32" where "field_rt i = drop_bit 16 i AND 0x1f"
definition field_rs :: "word32 \<Rightarrow> word32" where "field_rs i = drop_bit 21 i AND 0x1f"
definition field_shamt :: "word32 \<Rightarrow> word32" where "field_shamt i = drop_bit 6 i AND 0x1f"

definition immed :: "word32 \<Rightarrow> word32" where
  "immed i = (if i AND 0x8000 \<noteq> 0 then i OR (- 0x8000) else i AND 0x7fff)"

section \<open>The state\<close>

definition MEMSIZE :: nat where "MEMSIZE = 2 ^ 24"
definition memoffset :: word32 where "memoffset = 0x10000000"

text \<open>The registers, the memory array, and the local variables \<^verbatim>\<open>pc\<close> and \<^verbatim>\<open>npc\<close> of the loop.\<close>

record interp =
  Reg :: "word32 list"
  HI :: word32
  LO :: word32
  mem :: "nat \<Rightarrow> byte"
  pc :: word32
  npc :: word32
  host_big :: bool

definition mem_at :: "nat \<Rightarrow> word32 \<Rightarrow> nat result" where
  "mem_at sz addr = (let a = unat (addr - memoffset) in
     if misaligned addr sz then Inl Host_Trap else if a + sz \<le> MEMSIZE then Inr a else Inl Bad_Pointer)"

definition fetch :: "word32 \<Rightarrow> interp \<Rightarrow> word32 result" where
  "fetch addr s = rbind (mem_at 4 addr) (\<lambda>a. Inr (host_load32 (host_big s) (mem s) a))"

definition sfetch :: "word32 \<Rightarrow> interp \<Rightarrow> half result" where
  "sfetch addr s = rbind (mem_at 2 addr) (\<lambda>a. Inr (host_load16 (host_big s) (mem s) a))"

definition cfetch :: "word32 \<Rightarrow> interp \<Rightarrow> byte result" where
  "cfetch addr s = rbind (mem_at 1 addr) (\<lambda>a. Inr (mem s a))"

definition store :: "word32 \<Rightarrow> word32 \<Rightarrow> interp \<Rightarrow> interp result" where
  "store addr v s = rbind (mem_at 4 addr) (\<lambda>a. Inr (s\<lparr>mem := host_store32 (host_big s) v (mem s) a\<rparr>))"

definition sstore :: "word32 \<Rightarrow> word32 \<Rightarrow> interp \<Rightarrow> interp result" where
  "sstore addr v s = rbind (mem_at 2 addr) (\<lambda>a. Inr (s\<lparr>mem := host_store16 (host_big s) (ucast v) (mem s) a\<rparr>))"

definition cstore :: "word32 \<Rightarrow> word32 \<Rightarrow> interp \<Rightarrow> interp result" where
  "cstore addr v s = rbind (mem_at 1 addr) (\<lambda>a. Inr (s\<lparr>mem := (mem s)(a := ucast v)\<rparr>))"

definition get :: "word32 \<Rightarrow> interp \<Rightarrow> word32 result" where
  "get k s = array_get (Reg s) (unat k)"

definition set_to :: "word32 \<Rightarrow> word32 \<Rightarrow> interp \<Rightarrow> interp result" where
  "set_to k v s = rbind (array_set (Reg s) (unat k) v) (\<lambda>rg. Inr (s\<lparr>Reg := rg\<rparr>))"

section \<open>System calls\<close>

text \<open>
  The numbers of the calls, in the comments of the source; \<open>host\<close> gives the result of a call of the host's operating system and
  what it leaves in memory.
\<close>

type_synonym host_calls = "nat \<Rightarrow> word32 \<Rightarrow> word32 \<Rightarrow> word32 \<Rightarrow> (nat \<Rightarrow> byte) \<Rightarrow> word32 \<times> (nat \<Rightarrow> byte)"

definition system_trap :: "host_calls \<Rightarrow> interp \<Rightarrow> interp result" where
  "system_trap host s = rbind (get 2 s) (\<lambda>syscallno. rbind (get 4 s) (\<lambda>o0. rbind (get 5 s) (\<lambda>o1. rbind (get 6 s) (\<lambda>o2.
     let call = (\<lambda>n x y z. case host n x y z (mem s) of (r, bs) \<Rightarrow> set_to 1 r (s\<lparr>mem := bs\<rparr>)) in
     if syscallno = 1 then Inl Halted
     else if syscallno \<in> {3, 4, 5, 19} then call (unat syscallno) o0 o1 o2
     else if syscallno = 6 then set_to 1 0 s
     else if syscallno = 17 then set_to 1 ((word_of_int (sint o0 sdiv 8192) + 1) * 8192) s
     else if syscallno = 54 then
       let o1' = (if drop_bit 8 o1 AND 0xff = 116 \<and> drop_bit 16 o1 AND 0x7f = 8 then (o1 AND NOT 0x7f0000) OR 0x60000 else o1) in
       rbind (call 54 o0 o1' o2) (set_to 1 0)
     else if syscallno = 62 then call 62 o1 o2 0
     else if syscallno = 64 then call 64 0 0 0
     else Inl Halted))))"

section \<open>The instructions\<close>

definition lift_shift :: "(nat \<Rightarrow> word32 \<Rightarrow> word32) \<Rightarrow> word32 \<Rightarrow> word32 \<Rightarrow> word32 result" where
  "lift_shift f n v = (if n < 32 then Inr (f (unat n) v) else Inl Host_Trap)"

text \<open>The products of the halves, as 32-bit integers: the low parts are left out of the high word.\<close>

definition mul_halves :: "word32 \<Rightarrow> word32 \<Rightarrow> word32" where
  "mul_halves t1 t2 = (let t1l = t1 AND 0xffff; t1h = signed_drop_bit 16 t1 AND 0xffff;
       t2l = t2 AND 0xffff; t2h = signed_drop_bit 16 t2 AND 0xffff
     in t1h * t2h + signed_drop_bit 16 (t1h * t2l) + signed_drop_bit 16 (t2h * t1l))"

definition interp_mult :: "word32 \<Rightarrow> word32 \<Rightarrow> word32 \<times> word32" where
  "interp_mult a b = (let t1 = (if sint a < 0 then - a else a); t2 = (if sint b < 0 then - b else b);
       lo = t1 * t2; hi = mul_halves t1 t2
     in if (sint a < 0) \<noteq> (sint b < 0) then let lo1 = NOT lo + 1; hi1 = NOT hi in (if lo1 = 0 then hi1 + 1 else hi1, lo1)
        else (hi, lo))"

definition interp_div :: "word32 \<Rightarrow> word32 \<Rightarrow> interp \<Rightarrow> interp result" where
  "interp_div a b s = (if b = 0 \<or> a = 0x80000000 \<and> b = - 1 then Inl Host_Trap
     else Inr (s\<lparr>LO := word_of_int (sint a sdiv sint b), HI := word_of_int (sint a smod sint b)\<rparr>))"

definition interp_special :: "host_calls \<Rightarrow> word32 \<Rightarrow> word32 \<Rightarrow> interp \<Rightarrow> interp result" where
  "interp_special host instr xpc s = rbind (get (field_rs instr) s) (\<lambda>a. rbind (get (field_rt instr) s) (\<lambda>b.
     let fn = instr AND 0x3f; d = field_rd instr; sh = unat (field_shamt instr) in
     if fn = I_SLL then set_to d (push_bit sh b) s
     else if fn = I_SRL then set_to d (drop_bit sh b) s
     else if fn = I_SRA then set_to d (signed_drop_bit sh b) s
     else if fn = I_SLLV then rbind (lift_shift push_bit a b) (\<lambda>v. set_to d v s)
     else if fn = I_SRLV then rbind (lift_shift drop_bit a b) (\<lambda>v. set_to d v s)
     else if fn = I_SRAV then rbind (lift_shift signed_drop_bit a b) (\<lambda>v. set_to d v s)
     else if fn = I_JR then Inr (s\<lparr>npc := a\<rparr>)
     else if fn = I_JALR then set_to d (xpc + 8) (s\<lparr>npc := a\<rparr>)
     else if fn = I_SYSCALL \<or> fn = I_BREAK then system_trap host s
     else if fn = I_MFHI then set_to d (HI s) s
     else if fn = I_MTHI then Inr (s\<lparr>HI := a\<rparr>)
     else if fn = I_MFLO then set_to d (LO s) s
     else if fn = I_MTLO then Inr (s\<lparr>LO := a\<rparr>)
     else if fn = I_MULT then (case interp_mult a b of (hi, lo) \<Rightarrow> Inr (s\<lparr>HI := hi, LO := lo\<rparr>))
     else if fn = I_MULTU then Inr (s\<lparr>LO := a * b, HI := mul_halves a b\<rparr>)
     else if fn = I_DIV then interp_div a b s
     else if fn = I_DIVU then (if b = 0 then Inl Host_Trap else Inr (s\<lparr>LO := a div b, HI := a mod b\<rparr>))
     else if fn = I_ADD \<or> fn = I_ADDU then set_to d (a + b) s
     else if fn = I_SUB \<or> fn = I_SUBU then set_to d (a - b) s
     else if fn = I_AND then set_to d (a AND b) s
     else if fn = I_OR then set_to d (a OR b) s
     else if fn = I_XOR then set_to d (a XOR b) s
     else if fn = I_NOR then set_to d (NOT (a OR b)) s
     else if fn = I_SLT then set_to d (if sint a < sint b then 1 else 0) s
     else if fn = I_SLTU then set_to d (if a < b then 1 else 0) s
     else Inl Halted))"

definition branch_if :: "bool \<Rightarrow> word32 \<Rightarrow> word32 \<Rightarrow> interp \<Rightarrow> interp result" where
  "branch_if c instr xpc s = Inr (if c then s\<lparr>npc := xpc + 4 + push_bit 2 (immed instr)\<rparr> else s)"

definition interp_bcond :: "word32 \<Rightarrow> word32 \<Rightarrow> interp \<Rightarrow> interp result" where
  "interp_bcond instr xpc s = (let op = field_rt instr in
     if op = I_BLTZ then rbind (get (field_rs instr) s) (\<lambda>a. branch_if (sint a < 0) instr xpc s)
     else if op = I_BGEZ then rbind (get (field_rs instr) s) (\<lambda>a. branch_if (0 \<le> sint a) instr xpc s)
     else if op = I_BLTZAL then rbind (set_to 31 (xpc + 8) s) (\<lambda>s1. rbind (get (field_rs instr) s1) (\<lambda>a. branch_if (sint a < 0) instr xpc s1))
     else if op = I_BGEZAL then rbind (set_to 31 (xpc + 8) s) (\<lambda>s1. rbind (get (field_rs instr) s1) (\<lambda>a. branch_if (0 \<le> sint a) instr xpc s1))
     else Inl Halted)"

definition interp_load :: "word32 \<Rightarrow> word32 \<Rightarrow> word32 \<Rightarrow> word32 \<Rightarrow> interp \<Rightarrow> interp result" where
  "interp_load op t i b s =
     (if op = I_LB then rbind (cfetch i s) (\<lambda>v. set_to t (scast v) s)
      else if op = I_LH then rbind (sfetch i s) (\<lambda>v. set_to t (scast v) s)
      else if op = I_LWL then rbind (fetch (i AND 0xfffffffc) s) (\<lambda>v.
        set_to t ((b AND signed_drop_bit (8 * unat (- i AND 3)) (- 1)) OR push_bit (8 * unat (i AND 3)) v) s)
      else if op = I_LW then rbind (fetch i s) (\<lambda>v. set_to t v s)
      else if op = I_LBU then rbind (cfetch i s) (\<lambda>v. set_to t (ucast v) s)
      else if op = I_LHU then rbind (sfetch i s) (\<lambda>v. set_to t (ucast v) s)
      else rbind (fetch (i AND 0xfffffffc) s) (\<lambda>v.
        set_to t ((if i AND 3 = 0 then 0 else b AND push_bit (8 * unat (i AND 3)) (- 1)) OR signed_drop_bit (8 * unat (- i AND 3)) v) s))"

definition interp_exec :: "host_calls \<Rightarrow> word32 \<Rightarrow> word32 \<Rightarrow> interp \<Rightarrow> interp result" where
  "interp_exec host instr xpc s =
    (let op = drop_bit 26 instr AND 0x3f; t = field_rt instr; im = immed instr;
         target = (xpc AND 0xf0000000) OR push_bit 2 (instr AND 0x3ffffff) in
     if op = I_SPECIAL then interp_special host instr xpc s
     else if op = I_BCOND then interp_bcond instr xpc s
     else if op = I_J then Inr (s\<lparr>npc := target\<rparr>)
     else if op = I_JAL then set_to 31 (xpc + 8) (s\<lparr>npc := target\<rparr>)
     else rbind (get (field_rs instr) s) (\<lambda>a. rbind (get t s) (\<lambda>b.
     if op = I_BEQ then branch_if (a = b) instr xpc s
     else if op = I_BNE then branch_if (a \<noteq> b) instr xpc s
     else if op = I_BLEZ then branch_if (sint a \<le> 0) instr xpc s
     else if op = I_BGTZ then branch_if (sint a > 0) instr xpc s
     else if op = I_ADDI \<or> op = I_ADDIU then set_to t (a + im) s
     else if op = I_SLTI then set_to t (if sint a < sint im then 1 else 0) s
     else if op = I_SLTIU then set_to t (if a < im then 1 else 0) s
     else if op = I_ANDI then set_to t (a AND im) s
     else if op = I_ORI then set_to t (a OR im) s
     else if op = I_XORI then set_to t (a XOR im) s
     else if op = I_LUI then set_to t (push_bit 16 instr) s
     else if op \<in> {I_LB, I_LH, I_LWL, I_LW, I_LBU, I_LHU, I_LWR} then interp_load op t (a + im) b s
     else if op = I_SB then cstore (a + im) b s
     else if op = I_SH then sstore (a + im) b s
     else if op = I_SW then store (a + im) b s
     else Inl Halted)))"

text \<open>One round of the loop of \<^verbatim>\<open>runprogram\<close>.\<close>

definition interp_step :: "host_calls \<Rightarrow> interp \<Rightarrow> interp result" where
  "interp_step host s = (let xpc = pc s; s1 = s\<lparr>pc := npc s, npc := npc s + 4\<rparr> in
     rbind (fetch xpc s1) (\<lambda>instr. let s2 = s1\<lparr>Reg := (Reg s1)[0 := 0]\<rparr> in
     if instr = 0 then Inr s2 else interp_exec host instr xpc s2))"

end
