(* ===== verification/Interp_Start.thy ===== *)
theory Interp_Start
  imports Mips_Interp
begin

text \<open>
  How the interpreter of object files starts a program (\<^verbatim>\<open>runprogram\<close> of \<^verbatim>\<open>bin/execute.c\<close>): the stack pointer, and below the end of memory the number of
  arguments, the pointers to them and the strings themselves.
\<close>

section \<open>Setting up the arguments\<close>

text \<open>\<^verbatim>\<open>strcpy\<close> into the memory of the program, with the zero at the end.\<close>

fun put_bytes :: "word32 \<Rightarrow> byte list \<Rightarrow> interp \<Rightarrow> interp result" where
  "put_bytes a [] s = Inr s"
| "put_bytes a (c # cs) s = rbind (cstore a (ucast c) s) (put_bytes (a + 1) cs)"

fun put_args :: "word32 \<Rightarrow> word32 \<Rightarrow> byte list list \<Rightarrow> interp \<Rightarrow> interp result" where
  "put_args aci ai [] s = Inr s"
| "put_args aci ai (arg # args) s = rbind (put_bytes ai (arg @ [0]) s) (\<lambda>s1. rbind (store aci ai s1)
     (put_args (aci + 4) (ai + of_nat (length arg) + 1) args))"

definition runprogram_start :: "word32 \<Rightarrow> byte list list \<Rightarrow> interp \<Rightarrow> interp result" where
  "runprogram_start startpc argv s = (let i = of_nat (MEMSIZE - 1024) + memoffset in
     rbind (set_to 29 i (s\<lparr>pc := startpc, npc := startpc + 4\<rparr>)) (\<lambda>s1. rbind (store i (of_nat (length argv)) s1)
     (put_args (i + 4) (i + 4 + 32) argv)))"

section \<open>The arguments are where the program expects them\<close>

text \<open>The address of cell \<open>k\<close> of the array \<^verbatim>\<open>mem\<close>.\<close>

definition adr :: "nat \<Rightarrow> word32" where
  "adr k = of_nat k + memoffset"

lemma adr_add: "adr k + of_nat n = adr (k + n)" "adr k + 1 = adr (k + 1)" "adr k + 4 = adr (k + 4)"
  by (simp_all add: adr_def algebra_simps)

lemma mem_at_adr:
  assumes "k + sz \<le> MEMSIZE" "sz = 1 \<or> sz = 4 \<and> k mod 4 = 0"
  shows "mem_at sz (adr k) = Inr k"
proof -
  have k: "k \<le> 2 ^ 24" using assms(1) by (simp add: MEMSIZE_def)
  have "k mod 2 ^ 32 = k" using k by simp
  then have "unat (adr k - memoffset) = k" by (simp add: adr_def unsigned_of_nat take_bit_eq_mod)
  moreover have "\<not> misaligned (adr k) sz"
  proof (cases "sz = 4")
    case True
    then have "4 dvd k" using assms(2) by auto
    then obtain j where "k = 4 * j" by blast
    then have "adr k = push_bit 2 (of_nat j + 0x4000000)" by (simp add: adr_def memoffset_def push_bit_eq_mult algebra_simps)
    moreover have "push_bit 2 x AND 3 = 0" for x :: word32
    proof -
      have "(3 :: word32) = mask 2" by (simp add: mask_eq_exp_minus_1)
      then have "push_bit 2 x AND 3 = take_bit 2 (push_bit 2 x)" by (simp only: take_bit_eq_mask)
      then show ?thesis by (simp add: take_bit_push_bit)
    qed
    ultimately show ?thesis using True by (simp add: misaligned_def)
  next
    case False
    then show ?thesis using assms(2) by (auto simp: misaligned_def)
  qed
  ultimately show ?thesis using assms(1) by (simp add: mem_at_def Let_def)
qed

lemma byte_there_and_back: "ucast (ucast c :: word32) = (c :: byte)"
  by (rule bit_word_eqI) (simp add: bit_ucast_iff)

lemma put_bytes_ok:
  assumes "k + length cs \<le> MEMSIZE"
  shows "\<exists>m. put_bytes (adr k) cs s = Inr (s\<lparr>mem := m\<rparr>) \<and> (\<forall>j < length cs. m (k + j) = cs ! j) \<and> (\<forall>a. a < k \<or> k + length cs \<le> a \<longrightarrow> m a = mem s a)"
  using assms
proof (induction cs arbitrary: k s)
  case Nil
  show ?case by (rule exI [of _ "mem s"]) simp
next
  case (Cons c cs)
  let ?s = "s\<lparr>mem := (mem s)(k := c)\<rparr>"
  have "cstore (adr k) (ucast c) s = Inr ?s" using mem_at_adr [of k 1] Cons.prems by (simp add: cstore_def byte_there_and_back)
  moreover obtain m where m: "put_bytes (adr (k + 1)) cs ?s = Inr (?s\<lparr>mem := m\<rparr>)" "\<forall>j < length cs. m (k + 1 + j) = cs ! j"
    "\<forall>a. a < k + 1 \<or> k + 1 + length cs \<le> a \<longrightarrow> m a = mem ?s a" using Cons.IH [of "k + 1" ?s] Cons.prems by auto
  moreover have "m (k + j) = (c # cs) ! j" if "j < length (c # cs)" for j using m(2,3) that by (cases j) auto
  ultimately show ?case by (intro exI [of _ m]) (auto simp: adr_add)
qed

lemma store_adr:
  assumes "k + 4 \<le> MEMSIZE" "k mod 4 = 0"
  shows "\<exists>m. store (adr k) v s = Inr (s\<lparr>mem := m\<rparr>) \<and> host_load32 (host_big s) m k = v \<and> (\<forall>a. a < k \<or> k + 4 \<le> a \<longrightarrow> m a = mem s a)"
proof -
  let ?m = "host_store32 (host_big s) v (mem s) k"
  have "store (adr k) v s = Inr (s\<lparr>mem := ?m\<rparr>)" using mem_at_adr [of k 4] assms by (simp add: store_def)
  moreover have "host_load32 (host_big s) ?m k = v" by (simp add: host_store32_def host_load32_def)
  moreover have "?m a = mem s a" if "a < k \<or> k + 4 \<le> a" for a using that by (auto simp: host_store32_def)
  ultimately show ?thesis by blast
qed

lemma host_load32_cong:
  "(\<And>a. k \<le> a \<Longrightarrow> a < k + 4 \<Longrightarrow> m a = m' a) \<Longrightarrow> host_load32 b m k = host_load32 b m' k"
  by (simp add: host_load32_def)

text \<open>Where string \<open>j\<close> begins when the strings, each with its zero, follow one another from \<open>l\<close>; and what \<^verbatim>\<open>main\<close> needs of
  the memory: pointer \<open>j\<close> of the array at \<open>p\<close> leads to argument \<open>j\<close>.\<close>

definition string_at :: "nat \<Rightarrow> byte list list \<Rightarrow> nat \<Rightarrow> nat" where
  "string_at l args j = l + (\<Sum>arg\<leftarrow>take j args. length arg + 1)"

definition arg_in_place :: "bool \<Rightarrow> (nat \<Rightarrow> byte) \<Rightarrow> nat \<Rightarrow> nat \<Rightarrow> byte list \<Rightarrow> bool" where
  "arg_in_place big m p q arg \<longleftrightarrow> host_load32 big m p = adr q \<and> (\<forall>i < length arg. m (q + i) = arg ! i) \<and> m (q + length arg) = 0"

lemma arg_in_place_cong:
  assumes "arg_in_place big m p q arg" "\<And>a. p \<le> a \<Longrightarrow> a < p + 4 \<Longrightarrow> m' a = m a"
    "\<And>a. q \<le> a \<Longrightarrow> a \<le> q + length arg \<Longrightarrow> m' a = m a"
  shows "arg_in_place big m' p q arg"
  using assms host_load32_cong [of p m' m big] by (simp add: arg_in_place_def)

lemma string_at_Suc: "string_at l (arg # args) (Suc j) = string_at (l + length arg + 1) args j"
  by (simp add: string_at_def)

lemma one_argument:
  assumes "l + length arg + 1 \<le> MEMSIZE" "p + 4 \<le> l" "p mod 4 = 0"
  shows "\<exists>m. rbind (put_bytes (adr l) (arg @ [0]) s) (store (adr p) (adr l)) = Inr (s\<lparr>mem := m\<rparr>)
    \<and> arg_in_place (host_big s) m p l arg \<and> (\<forall>a. a < p \<or> p + 4 \<le> a \<and> a < l \<or> l + length arg + 1 \<le> a \<longrightarrow> m a = mem s a)"
proof -
  obtain m where m: "put_bytes (adr l) (arg @ [0]) s = Inr (s\<lparr>mem := m\<rparr>)" "\<forall>j < length (arg @ [0]). m (l + j) = (arg @ [0]) ! j"
    "\<forall>a. a < l \<or> l + length (arg @ [0]) \<le> a \<longrightarrow> m a = mem s a"
    using put_bytes_ok [of l "arg @ [0]" s] assms(1) by auto
  obtain m' where m': "store (adr p) (adr l) (s\<lparr>mem := m\<rparr>) = Inr (s\<lparr>mem := m'\<rparr>)" "host_load32 (host_big s) m' p = adr l"
    "\<forall>a. a < p \<or> p + 4 \<le> a \<longrightarrow> m' a = m a"
    using store_adr [of p "adr l" "s\<lparr>mem := m\<rparr>"] assms by auto
  have at: "m' (l + i) = (arg @ [0]) ! i" if "i < length arg + 1" for i using m(2) m'(3) that assms(2) by auto
  have "arg_in_place (host_big s) m' p l arg" using m'(2) at [of "length arg"] at by (auto simp: arg_in_place_def nth_append)
  moreover have "m' a = mem s a" if "a < p \<or> p + 4 \<le> a \<and> a < l \<or> l + length arg + 1 \<le> a" for a
    using that m(3) m'(3) assms(2) by auto
  ultimately show ?thesis using m(1) m'(1) by auto
qed

lemma put_args_ok:
  assumes "string_at l args (length args) \<le> MEMSIZE" "p + 4 * length args \<le> l" "p mod 4 = 0"
  shows "\<exists>m. put_args (adr p) (adr l) args s = Inr (s\<lparr>mem := m\<rparr>)
    \<and> (\<forall>j < length args. arg_in_place (host_big s) m (p + 4 * j) (string_at l args j) (args ! j))
    \<and> (\<forall>a. a < p \<or> p + 4 * length args \<le> a \<and> a < l \<or> string_at l args (length args) \<le> a \<longrightarrow> m a = mem s a)"
  using assms
proof (induction args arbitrary: p l s)
  case Nil
  show ?case by (rule exI [of _ "mem s"]) simp
next
  case (Cons arg args)
  let ?l = "l + length arg + 1"
  have end_at: "string_at ?l args (length args) \<le> MEMSIZE" "?l \<le> string_at ?l args (length args)"
    using Cons.prems(1) by (simp_all add: string_at_Suc [symmetric]) (simp_all add: string_at_def)
  obtain m where m: "rbind (put_bytes (adr l) (arg @ [0]) s) (store (adr p) (adr l)) = Inr (s\<lparr>mem := m\<rparr>)"
    "arg_in_place (host_big s) m p l arg" "\<forall>a. a < p \<or> p + 4 \<le> a \<and> a < l \<or> ?l \<le> a \<longrightarrow> m a = mem s a"
    using one_argument [of l arg p s] Cons.prems end_at by auto
  obtain m' where m': "put_args (adr (p + 4)) (adr ?l) args (s\<lparr>mem := m\<rparr>) = Inr (s\<lparr>mem := m'\<rparr>)"
    "\<forall>j < length args. arg_in_place (host_big s) m' (p + 4 + 4 * j) (string_at ?l args j) (args ! j)"
    "\<forall>a. a < p + 4 \<or> p + 4 + 4 * length args \<le> a \<and> a < ?l \<or> string_at ?l args (length args) \<le> a \<longrightarrow> m' a = m a"
    using Cons.IH [of ?l "p + 4" "s\<lparr>mem := m\<rparr>"] Cons.prems end_at(1) by (auto simp: mod_add_eq)
  have "arg_in_place (host_big s) m' p l arg" using arg_in_place_cong [OF m(2)] m'(3) Cons.prems(2) by simp
  then have "arg_in_place (host_big s) m' (p + 4 * j) (string_at l (arg # args) j) ((arg # args) ! j)" if "j < length (arg # args)" for j
    using m'(2) that by (cases j) (auto simp: string_at_Suc string_at_def [of l _ 0] algebra_simps)
  moreover have "m' a = mem s a" if "a < p \<or> p + 4 * length (arg # args) \<le> a \<and> a < l \<or> string_at ?l args (length args) \<le> a" for a
    using that m(3) m'(3) end_at(2) by auto
  moreover have "put_args (adr p) (adr l) (arg # args) s = Inr (s\<lparr>mem := m'\<rparr>)"
    using m(1) m'(1) by (auto simp: rbind_def adr_add add.assoc [symmetric] split: sum.splits)
  ultimately show ?case by (intro exI [of _ m']) (auto simp: string_at_Suc)
qed

text \<open>
  C17: a program finds its arguments. A program that the interpreter starts with at most eight arguments that fit in the
  last kilobyte of memory begins at the start address with its stack pointer at that kilobyte; there it finds the number
  of arguments and then the pointers, each of which leads to the bytes of its argument and the zero after them. The
  memory below and the other registers are as they were.
\<close>

theorem program_finds_arguments:
  assumes "length argv \<le> 8" "string_at (MEMSIZE - 988) argv (length argv) \<le> MEMSIZE" "length (Reg s) = 32"
  shows "\<exists>m. runprogram_start startpc argv s
      = Inr (s\<lparr>pc := startpc, npc := startpc + 4, Reg := (Reg s)[29 := adr (MEMSIZE - 1024)], mem := m\<rparr>)
    \<and> host_load32 (host_big s) m (MEMSIZE - 1024) = of_nat (length argv)
    \<and> (\<forall>j < length argv. arg_in_place (host_big s) m (MEMSIZE - 1020 + 4 * j) (string_at (MEMSIZE - 988) argv j) (argv ! j))
    \<and> (\<forall>a < MEMSIZE - 1024. m a = mem s a)"
proof -
  let ?s = "s\<lparr>pc := startpc, npc := startpc + 4, Reg := (Reg s)[29 := adr (MEMSIZE - 1024)]\<rparr>"
  have set: "set_to 29 (adr (MEMSIZE - 1024)) (s\<lparr>pc := startpc, npc := startpc + 4\<rparr>) = Inr ?s"
    using assms(3) by (simp add: set_to_def array_set_def)
  obtain m where m: "store (adr (MEMSIZE - 1024)) (of_nat (length argv)) ?s = Inr (?s\<lparr>mem := m\<rparr>)"
    "host_load32 (host_big s) m (MEMSIZE - 1024) = of_nat (length argv)" "\<forall>a. a < MEMSIZE - 1024 \<longrightarrow> m a = mem s a"
    using store_adr [of "MEMSIZE - 1024" "of_nat (length argv)" ?s] by (auto simp: MEMSIZE_def)
  obtain m' where m': "put_args (adr (MEMSIZE - 1020)) (adr (MEMSIZE - 988)) argv (?s\<lparr>mem := m\<rparr>) = Inr (?s\<lparr>mem := m'\<rparr>)"
    "\<forall>j < length argv. arg_in_place (host_big s) m' (MEMSIZE - 1020 + 4 * j) (string_at (MEMSIZE - 988) argv j) (argv ! j)"
    "\<forall>a. a < MEMSIZE - 1020 \<longrightarrow> m' a = m a"
    using put_args_ok [OF assms(2), of "MEMSIZE - 1020" "?s\<lparr>mem := m\<rparr>"] assms(1) by (auto simp: MEMSIZE_def)
  have at: "of_nat (MEMSIZE - 1024) + memoffset = adr (MEMSIZE - 1024)" "adr (MEMSIZE - 1024) + 4 = adr (MEMSIZE - 1020)"
    "adr (MEMSIZE - 1020) + 32 = adr (MEMSIZE - 988)" by (simp_all add: adr_def MEMSIZE_def)
  have "runprogram_start startpc argv s = Inr (?s\<lparr>mem := m'\<rparr>)"
    unfolding runprogram_start_def Let_def at set using m(1) m'(1) by (simp add: at)
  moreover have "host_load32 (host_big s) m' (MEMSIZE - 1024) = of_nat (length argv)"
    using host_load32_cong [of "MEMSIZE - 1024" m' m "host_big s"] m(2) m'(3) by (simp add: MEMSIZE_def)
  moreover have "\<forall>a < MEMSIZE - 1024. m' a = mem s a" using m(3) m'(3) by simp
  ultimately show ?thesis using m'(2) by (intro exI [of _ m']) simp
qed

text \<open>Two arguments, on a big-endian host.\<close>

definition blank_interp :: interp where
  "blank_interp = \<lparr>Reg = replicate 32 0, HI = 0, LO = 0, mem = (\<lambda>_. 0), pc = 0, npc = 0, host_big = True\<rparr>"

theorem program_finds_arguments_witness:
  "\<exists>s'. runprogram_start memoffset [[97], [98, 99]] blank_interp = Inr s' \<and> host_load32 True (mem s') (MEMSIZE - 1024) = 2
     \<and> host_load32 True (mem s') (MEMSIZE - 1016) = adr (MEMSIZE - 986) \<and> mem s' (MEMSIZE - 985) = 99 \<and> mem s' (MEMSIZE - 984) = 0"
proof -
  have at: "string_at (MEMSIZE - 988) [[97], [98, 99]] 1 = MEMSIZE - 986" "MEMSIZE - 1020 + 4 * 1 = MEMSIZE - 1016"
    "string_at (MEMSIZE - 988) [[97], [98, 99]] (Suc (Suc 0)) \<le> MEMSIZE" "host_big blank_interp" "length (Reg blank_interp) = 32"
    by (simp_all add: string_at_def MEMSIZE_def blank_interp_def)
  from program_finds_arguments [of "[[97], [98, 99]]" blank_interp memoffset] at(3,5) obtain s' where
    "runprogram_start memoffset [[97], [98, 99]] blank_interp = Inr s'" "host_load32 True (mem s') (MEMSIZE - 1024) = 2"
    "\<forall>j < Suc (Suc 0). arg_in_place True (mem s') (MEMSIZE - 1020 + 4 * j) (string_at (MEMSIZE - 988) [[97], [98, 99]] j) ([[97], [98, 99]] ! j)"
    by (auto simp: at(4))
  moreover from this(3) have "arg_in_place True (mem s') (MEMSIZE - 1016) (MEMSIZE - 986) [98, 99]"
    unfolding at(1,2) [symmetric] by (elim allE [of _ 1]) simp
  ultimately show ?thesis by (auto simp: arg_in_place_def MEMSIZE_def elim!: allE [of _ 1])
qed

text \<open>The array of pointers has room for eight. The ninth pointer is stored over the first four bytes of the first string.\<close>

lemma ninth_pointer_lands_on_first_string: "MEMSIZE - 1020 + 4 * 8 = string_at (MEMSIZE - 988) argv 0"
  by (simp add: string_at_def MEMSIZE_def)

section \<open>The logarithm of the statistics\<close>

text \<open>\<^verbatim>\<open>ilog2\<close>: one step per bit of the answer, each of which keeps the bits of \<open>i\<close> whose position has that bit.\<close>

definition ilog2_step :: "word32 \<Rightarrow> nat \<Rightarrow> word32 \<times> nat \<Rightarrow> word32 \<times> nat" where
  "ilog2_step msk k = (\<lambda>(i, l). let j = i AND msk in if j \<noteq> 0 then (j, l + k) else (i, l))"

definition ilog2 :: "word32 \<Rightarrow> nat" where
  "ilog2 i = (if i = 0 then 0 else snd (ilog2_step 0xaaaaaaaa 1 (ilog2_step 0xcccccccc 2 (ilog2_step 0xf0f0f0f0 4
     (ilog2_step 0xff00ff00 8 (ilog2_step 0xffff0000 16 (i, 1)))))))"

text \<open>The step for bit \<open>k\<close> of the position. \<open>ilog2_inv\<close>: the highest bit of \<open>i\<close> is \<open>t\<close>, all its bits lie in one block of
  \<open>b\<close> positions, and the answer counts the blocks below it.\<close>

definition ilog2_inv :: "nat \<Rightarrow> nat \<Rightarrow> word32 \<times> nat \<Rightarrow> bool" where
  "ilog2_inv t b = (\<lambda>(i, l). bit i t \<and> (\<forall>n. bit i n \<longrightarrow> n \<le> t \<and> n div b = t div b) \<and> l = 1 + b * (t div b))"

lemma ilog2_step_inv:
  assumes inv: "ilog2_inv t (2 * b) il" and "0 < b"
    and msk: "\<And>n. n < 32 \<Longrightarrow> bit msk n \<longleftrightarrow> odd (n div b)"
  shows "ilog2_inv t b (ilog2_step msk b il)"
proof -
  obtain i l where il: "il = (i, l)" by fastforce
  have i: "bit i t" "\<And>n. bit i n \<Longrightarrow> n \<le> t" "\<And>n. bit i n \<Longrightarrow> n div (2 * b) = t div (2 * b)" "l = 1 + 2 * b * (t div (2 * b))"
    using inv unfolding ilog2_inv_def il prod.case by blast+
  have half: "n div (2 * b) = n div b div 2" for n by (simp only: mult.commute [of 2 b] div_mult2_eq)
  have in_mask: "bit (i AND msk) n \<longleftrightarrow> bit i n \<and> odd (n div b)" for n
    using msk [of n] bit_imp_le_length [of i n] by (auto simp: bit_and_iff)
  show ?thesis
  proof (cases "odd (t div b)")
    case True
    have "bit (i AND msk) t" using i(1) True in_mask by simp
    then have "i AND msk \<noteq> 0" by auto
    then have step: "ilog2_step msk b il = (i AND msk, l + b)" by (simp add: il ilog2_step_def)
    have same: "n div b = t div b" if "bit i n" "odd (n div b)" for n
      using i(3) [OF that(1)] that(2) True unfolding half by (metis odd_two_times_div_two_succ)
    have l: "l + b = 1 + b * (t div b)"
    proof -
      obtain c where c: "t div b = 2 * c + 1" using True by (rule oddE)
      then have "t div (2 * b) = c" by (simp add: half)
      then show ?thesis using i(4) unfolding c by (simp only: algebra_simps)
    qed
    show ?thesis unfolding ilog2_inv_def step prod.case in_mask using i(1,2) True same l by blast
  next
    case False
    have same: "n div b = t div b" if "bit i n" for n
    proof -
      have "n div b \<le> t div b" using i(2) [OF that] by (rule div_le_mono)
      moreover have "n div b div 2 = t div b div 2" using i(3) [OF that] by (simp only: half)
      moreover have "2 * (t div b div 2) = t div b" using False by simp
      ultimately show ?thesis by linarith
    qed
    then have "i AND msk = 0" using False in_mask by (intro bit_word_eqI) (metis bit_0_eq bot_apply bot_bool_def)
    then have step: "ilog2_step msk b il = (i, l)" by (simp add: il ilog2_step_def)
    have l: "l = 1 + b * (t div b)"
    proof -
      obtain c where c: "t div b = 2 * c" using False by (auto elim: evenE)
      then have "t div (2 * b) = c" by (simp add: half)
      then show ?thesis using i(4) unfolding c by (simp only: algebra_simps)
    qed
    show ?thesis unfolding ilog2_inv_def step prod.case using i(1,2) same l by blast
  qed
qed

lemma ilog2_masks:
  "\<forall>n < 32. bit (0xffff0000 :: word32) n \<longleftrightarrow> odd (n div 16)" "\<forall>n < 32. bit (0xff00ff00 :: word32) n \<longleftrightarrow> odd (n div 8)"
  "\<forall>n < 32. bit (0xf0f0f0f0 :: word32) n \<longleftrightarrow> odd (n div 4)" "\<forall>n < 32. bit (0xcccccccc :: word32) n \<longleftrightarrow> odd (n div 2)"
  "\<forall>n < 32. bit (0xaaaaaaaa :: word32) n \<longleftrightarrow> odd (n div 1)"
  by code_simp+

text \<open>\<^verbatim>\<open>ilog2\<close> is the number of bits of its argument: one more than the position of the highest one.\<close>

theorem ilog2_counts_bits:
  assumes "bit i t" "\<And>n. bit i n \<Longrightarrow> n \<le> t"
  shows "ilog2 i = t + 1"
proof -
  have "t < 32" using assms(1) bit_imp_le_length [of i t] by simp
  then have "ilog2_inv t (2 * 16) (i, 1)" using assms by (fastforce simp: ilog2_inv_def dest: le_less_trans)
  note s16 = ilog2_step_inv [OF this, of "0xffff0000"]
  have "ilog2_inv t (2 * 8) (ilog2_step 0xffff0000 16 (i, 1))" using s16 ilog2_masks(1) by simp
  note s8 = ilog2_step_inv [OF this, of "0xff00ff00"]
  have "ilog2_inv t (2 * 4) (ilog2_step 0xff00ff00 8 (ilog2_step 0xffff0000 16 (i, 1)))" using s8 ilog2_masks(2) by simp
  note s4 = ilog2_step_inv [OF this, of "0xf0f0f0f0"]
  have "ilog2_inv t (2 * 2) (ilog2_step 0xf0f0f0f0 4 (ilog2_step 0xff00ff00 8 (ilog2_step 0xffff0000 16 (i, 1))))"
    using s4 ilog2_masks(3) by simp
  note s2 = ilog2_step_inv [OF this, of "0xcccccccc"]
  have "ilog2_inv t (2 * 1) (ilog2_step 0xcccccccc 2 (ilog2_step 0xf0f0f0f0 4 (ilog2_step 0xff00ff00 8 (ilog2_step 0xffff0000 16 (i, 1)))))"
    using s2 ilog2_masks(4) by simp
  note s1 = ilog2_step_inv [OF this, of "0xaaaaaaaa"]
  have "i \<noteq> 0" using assms(1) by auto
  then show ?thesis using s1 ilog2_masks(5) by (auto simp: ilog2_def ilog2_inv_def split: prod.splits)
qed

lemma ilog2_of_two_and_three: "ilog2 2 = 2" "ilog2 3 = 2"
  by code_simp+

end
