(* ===== verification/Open_File.thy ===== *)
theory Open_File
  imports File_Header
begin

text \<open>
  Open files of the real file system (\<^verbatim>\<open>filesys/openfile.cc\<close>): reading and writing any range of
  bytes of a file through whole sectors. The specification is the byte string of the file,
  \<open>file_bytes\<close>: reading takes a slice of it and writing splices one in.
\<close>

section \<open>Operations\<close>

record OpenFile =
  hdr :: FileHeader
  seekPosition :: int

definition OpenFile_new :: "int \<Rightarrow> sectors \<Rightarrow> OpenFile result" where
  "OpenFile_new sector d = rbind (FileHeader_FetchFrom sector d) (\<lambda>h.
     Inr \<lparr>hdr = h, seekPosition = 0\<rparr>)"

definition Seek :: "int \<Rightarrow> OpenFile \<Rightarrow> OpenFile" where
  "Seek position this = this\<lparr>seekPosition := position\<rparr>"

definition OpenFile_Length :: "OpenFile \<Rightarrow> int" where
  "OpenFile_Length this = FileLength (hdr this)"

fun read_sectors :: "int list \<Rightarrow> int \<Rightarrow> FileHeader \<Rightarrow> sectors \<Rightarrow> byte list \<Rightarrow> byte list result" where
  "read_sectors [] firstSector h d buf = Inr buf"
| "read_sectors (i # is) firstSector h d buf =
     rbind (ByteToSector (i * int SectorSize) h) (\<lambda>sector. rbind (ReadSector sector d) (\<lambda>data.
     rbind (bcopy data 0 buf ((i - firstSector) * int SectorSize) (int SectorSize))
       (read_sectors is firstSector h d)))"

text \<open>\<open>into\<close> and \<open>off\<close> are the pointer \<^verbatim>\<open>&into[off]\<close>; the result has the bytes of \<open>into\<close> afterwards.\<close>

definition ReadAt ::
  "(nat \<Rightarrow> byte) \<Rightarrow> OpenFile \<Rightarrow> byte list \<Rightarrow> int \<Rightarrow> int \<Rightarrow> int \<Rightarrow> sectors \<Rightarrow> (int \<times> byte list) result" where
  "ReadAt junk this into off numBytes position d = (let fileLength = FileLength (hdr this) in
     if numBytes \<le> 0 \<or> position \<ge> fileLength then Inr (0, into)
     else rbind (int_add position numBytes) (\<lambda>end_pos.
       let n = (if end_pos > fileLength then fileLength - position else numBytes);
           firstSector = sdivRoundDown position (int SectorSize);
           lastSector = sdivRoundDown (position + n - 1) (int SectorSize);
           numSectors = 1 + lastSector - firstSector in
       rbind (read_sectors [firstSector..lastSector] firstSector (hdr this) d
                (new_chars junk (numSectors * int SectorSize))) (\<lambda>buf.
       rbind (bcopy buf (position - firstSector * int SectorSize) into off n) (\<lambda>into'.
       Inr (n, into')))))"

fun write_sectors :: "int list \<Rightarrow> int \<Rightarrow> FileHeader \<Rightarrow> byte list \<Rightarrow> sectors \<Rightarrow> sectors result" where
  "write_sectors [] firstSector h buf d = Inr d"
| "write_sectors (i # is) firstSector h buf d =
     rbind (ByteToSector (i * int SectorSize) h) (\<lambda>sector.
     rbind (WriteSector sector (drop (nat ((i - firstSector) * int SectorSize)) buf) d)
       (write_sectors is firstSector h buf))"

definition WriteAt ::
  "(nat \<Rightarrow> byte) \<Rightarrow> OpenFile \<Rightarrow> byte list \<Rightarrow> int \<Rightarrow> int \<Rightarrow> sectors \<Rightarrow> (int \<times> sectors) result" where
  "WriteAt junk this from numBytes position d = (let fileLength = FileLength (hdr this) in
     if numBytes \<le> 0 \<or> position \<ge> fileLength then Inr (0, d)
     else rbind (int_add position numBytes) (\<lambda>end_pos.
       let n = (if end_pos > fileLength then fileLength - position else numBytes);
           firstSector = sdivRoundDown position (int SectorSize);
           lastSector = sdivRoundDown (position + n - 1) (int SectorSize);
           numSectors = 1 + lastSector - firstSector;
           buf = new_chars junk (numSectors * int SectorSize);
           firstAligned = (position = firstSector * int SectorSize);
           lastAligned = (position + n = (lastSector + 1) * int SectorSize) in
       rbind (if \<not> firstAligned
              then ReadAt junk this buf 0 (int SectorSize) (firstSector * int SectorSize) d
              else Inr (0, buf)) (\<lambda>(_, buf1).
       rbind (if \<not> lastAligned \<and> (firstSector \<noteq> lastSector \<or> firstAligned)
              then ReadAt junk this buf1 ((lastSector - firstSector) * int SectorSize)
                     (int SectorSize) (lastSector * int SectorSize) d
              else Inr (0, buf1)) (\<lambda>(_, buf2).
       rbind (bcopy from 0 buf2 (position - firstSector * int SectorSize) n) (\<lambda>buf3.
       rbind (write_sectors [firstSector..lastSector] firstSector (hdr this) buf3 d) (\<lambda>d'.
       Inr (n, d')))))))"

definition OpenFile_Read ::
  "(nat \<Rightarrow> byte) \<Rightarrow> byte list \<Rightarrow> int \<Rightarrow> OpenFile \<Rightarrow> sectors \<Rightarrow> (int \<times> byte list \<times> OpenFile) result" where
  "OpenFile_Read junk into numBytes this d =
     rbind (ReadAt junk this into 0 numBytes (seekPosition this) d) (\<lambda>(result, into').
     rbind (int_add (seekPosition this) result) (\<lambda>p. Inr (result, into', this\<lparr>seekPosition := p\<rparr>)))"

definition OpenFile_Write ::
  "(nat \<Rightarrow> byte) \<Rightarrow> byte list \<Rightarrow> int \<Rightarrow> OpenFile \<Rightarrow> sectors \<Rightarrow> (int \<times> OpenFile \<times> sectors) result" where
  "OpenFile_Write junk from numBytes this d =
     rbind (WriteAt junk this from numBytes (seekPosition this) d) (\<lambda>(result, d').
     rbind (int_add (seekPosition this) result) (\<lambda>p. Inr (result, this\<lparr>seekPosition := p\<rparr>, d')))"

section \<open>The bytes of a file\<close>

definition file_data :: "FileHeader \<Rightarrow> sectors \<Rightarrow> byte list" where
  "file_data h d = concat (map d (file_sectors h))"

definition file_bytes :: "FileHeader \<Rightarrow> sectors \<Rightarrow> byte list" where
  "file_bytes h d = take (nat (hdr_numBytes h)) (file_data h d)"

lemma upto_map_int: "[int a..int b] = map int [a..<Suc b]"
  by (rule nth_equalityI) (auto simp: nth_upto simp del: upt_Suc)

lemma concat_take_uniform:
  "(\<And>x. x \<in> set xs \<Longrightarrow> length x = n) \<Longrightarrow> concat (take m xs) = take (m * n) (concat xs)"
proof (induction xs arbitrary: m)
  case (Cons x xs)
  then show ?case by (cases m) auto
qed simp

lemma concat_drop_uniform:
  "(\<And>x. x \<in> set xs \<Longrightarrow> length x = n) \<Longrightarrow> concat (drop m xs) = drop (m * n) (concat xs)"
proof (induction xs arbitrary: m)
  case (Cons x xs)
  then show ?case by (cases m) auto
qed simp

lemma concat_slice_uniform:
  assumes "\<And>x. x \<in> set xs \<Longrightarrow> length x = n"
  shows "concat (take m (drop f xs)) = take (m * n) (drop (f * n) (concat xs))"
  using concat_take_uniform [of "drop f xs" n m] concat_drop_uniform [of xs n f] assms
  by (auto dest: in_set_dropD)

text \<open>What the proofs about a file use of its header.\<close>

lemma file_ok_facts:
  assumes "file_ok h"
  shows "length (file_sectors h) = divRoundUp (nat (hdr_numBytes h)) SectorSize"
    "hdr_numBytes h = int (nat (hdr_numBytes h))" "nat (hdr_numBytes h) \<le> MaxFileSize"
    "distinct (file_sectors h)" "\<And>x. x \<in> set (file_sectors h) \<Longrightarrow> x < NumSectors"
    "nat (hdr_numBytes h) \<le> length (file_sectors h) * SectorSize"
proof -
  let ?L = "nat (hdr_numBytes h)"
  show L: "hdr_numBytes h = int ?L" using assms by (simp add: file_ok_def)
  then have n: "nat (hdr_numSectors h) = divRoundUp ?L SectorSize"
    using assms sdivRound_nat(2) [of SectorSize ?L] by (simp add: file_ok_def SectorSize_def)
  have le: "nat (hdr_numSectors h) \<le> NumDirect" using assms by (auto simp: file_ok_def)
  have "length (dataSectors h) = NumDirect" using assms by (simp add: file_ok_def header_typed_def)
  with le n show len: "length (file_sectors h) = divRoundUp ?L SectorSize"
    by (simp add: file_sectors_def)
  show "?L \<le> MaxFileSize"
    using le n divRoundUp_le_iff [of SectorSize ?L NumDirect] by (simp add: MaxFileSize_def SectorSize_def)
  show "distinct (file_sectors h)" using assms by (simp add: file_ok_def)
  show "x < NumSectors" if "x \<in> set (file_sectors h)" for x
    using that assms by (auto simp: file_sectors_def file_ok_def valid_sector_def nat_less_iff)
  show "?L \<le> length (file_sectors h) * SectorSize"
    using divRoundUp_mult_ge [of SectorSize ?L] len by (simp add: SectorSize_def)
qed

lemma ByteToSector_ok:
  assumes "file_ok h" "i < length (file_sectors h)"
  shows "ByteToSector (int i * int SectorSize) h = Inr (int (file_sectors h ! i))"
proof -
  have "i < length (dataSectors h)" "i < nat (hdr_numSectors h)"
    using assms(2) by (simp_all add: file_sectors_def)
  moreover from this have "dataSectors h ! i \<in> set (take (nat (hdr_numSectors h)) (dataSectors h))"
    by (auto simp: in_set_conv_nth intro!: exI [where x = i])
  then have "0 \<le> dataSectors h ! i" using assms(1) by (auto simp: file_ok_def valid_sector_def)
  moreover have "(int i * int SectorSize) sdiv int SectorSize = int i"
    by (simp add: smod_sdiv_nonneg SectorSize_def)
  ultimately show ?thesis
    by (simp add: ByteToSector_def array_get_int_def file_sectors_def)
qed

lemma file_block:
  assumes "file_ok h" "disk_wf d"
  shows "\<And>x. x \<in> set (map d (file_sectors h)) \<Longrightarrow> length x = SectorSize"
    "length (file_data h d) = length (file_sectors h) * SectorSize"
    "length (file_bytes h d) = nat (hdr_numBytes h)"
proof -
  show l: "length x = SectorSize" if "x \<in> set (map d (file_sectors h))" for x
    using that file_ok_facts(5) [OF assms(1)] disk_wfD [OF assms(2)] by auto
  then show len: "length (file_data h d) = length (file_sectors h) * SectorSize"
    unfolding file_data_def by (subst length_concat_uniform [where n = SectorSize]) auto
  show "length (file_bytes h d) = nat (hdr_numBytes h)"
    using len file_ok_facts(6) [OF assms(1)] by (simp add: file_bytes_def)
qed

lemma read_sectors_ok:
  assumes "file_ok h" "disk_wf d" "f + j + k \<le> length (file_sectors h)" "length buf = (j + k) * SectorSize"
  shows "read_sectors (map int [f + j..<f + j + k]) (int f) h d buf
    = Inr (take (j * SectorSize) buf @ concat (map d (take k (drop (f + j) (file_sectors h)))))"
  using assms(3,4)
proof (induction k arbitrary: j buf)
  case 0
  then show ?case by simp
next
  case (Suc k)
  let ?i = "f + j" and ?s = "file_sectors h ! (f + j)"
  have i: "?i < length (file_sectors h)" using Suc.prems by simp
  then have s: "?s < NumSectors" using file_ok_facts(5) [OF assms(1)] by simp
  define buf' where "buf' = take (j * SectorSize) buf @ d ?s @ drop (j * SectorSize + SectorSize) buf"
  have off: "(int ?i - int f) * int SectorSize = int (j * SectorSize)" by simp
  have "bcopy (d ?s) 0 buf (int (j * SectorSize)) (int SectorSize) = Inr buf'"
    using bcopy_ok [of 0 SectorSize "d ?s" "j * SectorSize" buf] disk_wfD [OF assms(2) s] Suc.prems(2)
    by (simp add: buf'_def)
  moreover have "read_sectors (map int [f + Suc j..<f + Suc j + k]) (int f) h d buf'
      = Inr (take (Suc j * SectorSize) buf' @ concat (map d (take k (drop (f + Suc j) (file_sectors h)))))"
    using Suc.prems disk_wfD [OF assms(2) s] by (intro Suc.IH) (auto simp: buf'_def algebra_simps)
  moreover have "take (Suc j * SectorSize) buf' = take (j * SectorSize) buf @ d ?s"
    using Suc.prems(2) disk_wfD [OF assms(2) s] by (simp add: buf'_def algebra_simps)
  moreover have "take (Suc k) (drop ?i (file_sectors h)) = ?s # take k (drop (f + Suc j) (file_sectors h))"
    using i by (simp add: Cons_nth_drop_Suc [symmetric])
  ultimately show ?case
    using upt_rec [of ?i "?i + Suc k"] ByteToSector_ok [OF assms(1) i] s off
    by (simp add: ReadSector_def)
qed

section \<open>Reading\<close>

text \<open>The sectors a request of \<open>c\<close> bytes at \<open>p\<close> touches.\<close>

lemma touched_sectors:
  assumes "0 < c" "p + c \<le> L" "0 < s"
  shows "p div s \<le> (p + c - 1) div s" "Suc ((p + c - 1) div s) \<le> divRoundUp L s"
    "p div s * s \<le> p" "p + c \<le> Suc ((p + c - 1) div s) * s"
proof -
  show "p div s \<le> (p + c - 1) div s" using assms(1) by (intro div_le_mono) simp
  have "(p + c - 1) div s * s \<le> p + c - 1" by simp
  also have "p + c - 1 < L" using assms by simp
  finally show "Suc ((p + c - 1) div s) \<le> divRoundUp L s"
    using less_divRoundUp_iff [OF assms(3), of "(p + c - 1) div s" L] by simp
  show "p div s * s \<le> p" by simp
  have "p + c - 1 < Suc ((p + c - 1) div s) * s"
    using assms(3) dividend_less_div_times by auto
  then show "p + c \<le> Suc ((p + c - 1) div s) * s" using assms(1) by linarith
qed

lemma read_range:
  assumes "file_ok h" "disk_wf d" "f + m \<le> length (file_sectors h)" "length buf = m * SectorSize"
  shows "read_sectors (map int [f..<f + m]) (int f) h d buf
    = Inr (take (m * SectorSize) (drop (f * SectorSize) (file_data h d)))"
proof -
  have "concat (map d (take m (drop f (file_sectors h))))
      = take (m * SectorSize) (drop (f * SectorSize) (file_data h d))"
    using concat_slice_uniform [of "map d (file_sectors h)" SectorSize m f, OF file_block(1) [OF assms(1,2)]]
    by (simp add: file_data_def take_map drop_map)
  then show ?thesis using read_sectors_ok [OF assms(1,2), of f 0 m buf] assms(3,4) by simp
qed

lemma request_geometry:
  fixes h :: FileHeader
  defines "L \<equiv> nat (hdr_numBytes h)"
  assumes "file_ok h" "0 < n" "p < L" "c = min n (L - p)" "f = p div SectorSize"
    "l = (p + c - 1) div SectorSize"
  shows "(if int p + int n > hdr_numBytes h then hdr_numBytes h - int p else int n) = int c"
    "sdivRoundDown (int p) (int SectorSize) = int f"
    "sdivRoundDown (int p + int c - 1) (int SectorSize) = int l"
    "0 < c" "p + c \<le> L" "f \<le> l" "Suc l \<le> length (file_sectors h)" "f * SectorSize \<le> p"
    "p + c \<le> Suc l * SectorSize"
    "nat ((1 + int l - int f) * int SectorSize) = (Suc l - f) * SectorSize"
proof -
  have S: "0 < SectorSize" by (simp add: SectorSize_def)
  have L: "hdr_numBytes h = int L" using file_ok_facts(2) [OF assms(2)] by (simp add: L_def)
  show c: "0 < c" "p + c \<le> L" using assms(3-5) by auto
  show "(if int p + int n > hdr_numBytes h then hdr_numBytes h - int p else int n) = int c"
    using assms(5) c by (auto simp: L)
  show "sdivRoundDown (int p) (int SectorSize) = int f"
    using S sdivRound_nat(1) [OF S, of p] assms(6) by (simp add: divRoundDown_def)
  show "sdivRoundDown (int p + int c - 1) (int SectorSize) = int l"
    using S c(1) sdivRound_nat(1) [OF S, of "p + c - 1"] assms(7)
    by (simp add: divRoundDown_def of_nat_diff)
  show fl: "f \<le> l" and "Suc l \<le> length (file_sectors h)" "f * SectorSize \<le> p"
    "p + c \<le> Suc l * SectorSize"
    using touched_sectors [OF c S] unfolding assms(6,7) file_ok_facts(1) [OF assms(2)] L_def by blast+
  have "1 + int l - int f = int (Suc l - f)" using fl by simp
  then show "nat ((1 + int l - int f) * int SectorSize) = (Suc l - f) * SectorSize"
    by (metis nat_int of_nat_mult)
qed

lemma ReadAt_ok:
  assumes "file_ok (hdr this)" "disk_wf d" "0 < n" "p < nat (hdr_numBytes (hdr this))"
    "int_ok (int (p + n))" "c = min n (nat (hdr_numBytes (hdr this)) - p)" "off + c \<le> length into"
  shows "ReadAt junk this into (int off) (int n) (int p) d
    = Inr (int c, take off into @ take c (drop p (file_data (hdr this) d)) @ drop (off + c) into)"
proof -
  let ?S = "SectorSize" and ?h = "hdr this"
  define f where "f = p div ?S"
  define l where "l = (p + c - 1) div ?S"
  define m where "m = Suc l - f"
  note g = request_geometry [OF assms(1,3,4,6) f_def l_def]
  have fm: "f + m = Suc l" using g(6) by (simp add: m_def)
  define buf where "buf = take (m * ?S) (drop (f * ?S) (file_data ?h d))"
  have rd: "read_sectors [int f..int l] (int f) ?h d (new_chars junk ((1 + int l - int f) * int ?S)) = Inr buf"
    using read_range [OF assms(1,2), of f m "new_chars junk ((1 + int l - int f) * int ?S)"] g(7,10)
    by (simp add: buf_def upto_map_int fm m_def [symmetric] del: upt_Suc)
  have "f * ?S + m * ?S \<le> length (file_data ?h d)"
    using g(7) fm file_block(2) [OF assms(1,2)] by (metis add_mult_distrib mult_le_mono1)
  then have "length buf = m * ?S" by (simp add: buf_def)
  moreover have end_: "p + c \<le> f * ?S + m * ?S" using g(9) fm by (simp flip: add_mult_distrib)
  ultimately have room: "p - f * ?S + c \<le> length buf" using g(8) by simp
  have slice: "take c (drop (p - f * ?S) buf) = take c (drop p (file_data ?h d))"
    using g(8) end_ by (simp add: buf_def drop_take min_absorb1)
  have "int p - int f * int ?S = int (p - f * ?S)" using g(8) by (simp add: of_nat_diff)
  then have "bcopy buf (int p - int f * int ?S) into (int off) (int c)
      = Inr (take off into @ take c (drop p (file_data ?h d)) @ drop (off + c) into)"
    using bcopy_ok [OF room assms(7)] slice by simp
  moreover have "\<not> hdr_numBytes ?h \<le> int p" "\<not> int n \<le> 0" using assms(3,4) by auto
  ultimately show ?thesis
    using assms(5) rd g(1,2,3)
    by (simp add: ReadAt_def FileLength_def int_add_def Let_def del: of_nat_add) simp
qed

section \<open>Writing\<close>

lemma file_data_nth:
  assumes "file_ok h" "disk_wf d" "x < length (file_sectors h) * SectorSize"
  shows "file_data h d ! x = d (file_sectors h ! (x div SectorSize)) ! (x mod SectorSize)"
proof -
  have "x div SectorSize < length (file_sectors h)" using assms(3) by (simp add: div_less_iff_less_mult SectorSize_def)
  then show ?thesis
    using nth_concat_uniform_div [of "map d (file_sectors h)" SectorSize x, OF file_block(1) [OF assms(1,2)]]
      assms(3) by (simp add: file_data_def)
qed

lemma write_sectors_ok:
  assumes "file_ok h" "disk_wf d" "f + j + k \<le> length (file_sectors h)" "(j + k) * SectorSize \<le> length buf"
  shows "\<exists>d'. write_sectors (map int [f + j..<f + j + k]) (int f) h buf d = Inr d' \<and> disk_wf d'
    \<and> (\<forall>s. s \<notin> (!) (file_sectors h) ` {f + j..<f + j + k} \<longrightarrow> d' s = d s)
    \<and> (\<forall>i. j \<le> i \<and> i < j + k \<longrightarrow> d' (file_sectors h ! (f + i)) = take SectorSize (drop (i * SectorSize) buf))"
  using assms(2-4)
proof (induction k arbitrary: j d)
  case 0
  then show ?case by auto
next
  case (Suc k)
  let ?fs = "file_sectors h" and ?S = SectorSize
  let ?s = "?fs ! (f + j)" and ?b = "take ?S (drop (j * ?S) buf)"
  have i: "f + j < length ?fs" using Suc.prems by simp
  have room: "j * ?S + ?S \<le> length buf" using Suc.prems(3) by (simp add: algebra_simps)
  have s: "?s < NumSectors" using i file_ok_facts(5) [OF assms(1)] by simp
  have wf: "disk_wf (d(?s := ?b))" using room Suc.prems(1) by (intro disk_wf_upd) auto
  have "f + Suc j + k \<le> length ?fs" "(Suc j + k) * ?S \<le> length buf" using Suc.prems by simp_all
  from Suc.IH [OF wf this] obtain d' where d': "write_sectors (map int [f + Suc j..<f + Suc j + k]) (int f) h buf (d(?s := ?b)) = Inr d'"
    "disk_wf d'" "\<forall>s. s \<notin> (!) ?fs ` {f + Suc j..<f + Suc j + k} \<longrightarrow> d' s = (d(?s := ?b)) s"
    "\<forall>i. Suc j \<le> i \<and> i < Suc j + k \<longrightarrow> d' (?fs ! (f + i)) = take ?S (drop (i * ?S) buf)"
    by (elim exE conjE) (rule that)
  have "?s \<notin> (!) ?fs ` {f + Suc j..<f + Suc j + k}"
    using Suc.prems(2) file_ok_facts(4) [OF assms(1)] i by (auto simp: nth_eq_iff_index_eq)
  then have "d' ?s = ?b" using d'(3) by simp
  then have "\<forall>i. j \<le> i \<and> i < j + Suc k \<longrightarrow> d' (?fs ! (f + i)) = take ?S (drop (i * ?S) buf)"
    using d'(4) by (metis Suc_leI add_Suc_right add_Suc le_neq_implies_less)
  moreover have "\<forall>s. s \<notin> (!) ?fs ` {f + j..<f + j + Suc k} \<longrightarrow> d' s = d s"
    using d'(3) by (auto simp: image_iff)
  moreover have "nat ((int (f + j) - int f) * int ?S) = j * ?S" by (simp add: nat_mult_distrib)
  ultimately show ?case
    using upt_rec [of "f + j" "f + j + Suc k"] ByteToSector_ok [OF assms(1) i] s d'(1,2) room
    by (simp add: WriteSector_def nat_mult_distrib)
qed

lemma write_range:
  assumes "file_ok h" "disk_wf d" "f \<le> l" "Suc l \<le> length (file_sectors h)"
    "length buf = (Suc l - f) * SectorSize"
  shows "\<exists>d'. write_sectors [int f..int l] (int f) h buf d = Inr d' \<and> disk_wf d'
    \<and> (\<forall>s. s \<notin> set (file_sectors h) \<longrightarrow> d' s = d s)
    \<and> (\<forall>x < length (file_sectors h) * SectorSize. file_data h d' ! x =
         (if f * SectorSize \<le> x \<and> x < Suc l * SectorSize then buf ! (x - f * SectorSize)
          else file_data h d ! x))"
proof -
  let ?fs = "file_sectors h" and ?S = SectorSize
  define m where "m = Suc l - f"
  have fm: "f + m = Suc l" using assms(3) by (simp add: m_def)
  have S: "0 < ?S" by (simp add: SectorSize_def)
  obtain d' where d': "write_sectors (map int [f..<f + m]) (int f) h buf d = Inr d'" "disk_wf d'"
    "\<forall>s. s \<notin> (!) ?fs ` {f..<f + m} \<longrightarrow> d' s = d s"
    "\<forall>i. i < m \<longrightarrow> d' (?fs ! (f + i)) = take ?S (drop (i * ?S) buf)"
    using write_sectors_ok [OF assms(1,2), of f 0 m buf] assms(4,5) fm by (auto simp: m_def)
  have "file_data h d' ! x = (if f * ?S \<le> x \<and> x < Suc l * ?S then buf ! (x - f * ?S) else file_data h d ! x)"
    if x: "x < length ?fs * ?S" for x
  proof -
    define q where "q = x div ?S"
    have q: "q < length ?fs" using x S by (simp add: q_def div_less_iff_less_mult)
    have xq: "x = q * ?S + x mod ?S" "x mod ?S < ?S" using S by (simp_all add: q_def)
    have inr: "f * ?S \<le> x \<and> x < Suc l * ?S \<longleftrightarrow> f \<le> q \<and> q < f + m"
      using S fm by (simp add: q_def less_eq_div_iff_mult_less_eq div_less_iff_less_mult)
    note nth = file_data_nth [OF assms(1) _ x, folded q_def]
    show ?thesis
    proof (cases "f \<le> q \<and> q < f + m")
      case True
      then have "d' (?fs ! q) = take ?S (drop ((q - f) * ?S) buf)"
        using d'(4) [rule_format, of "q - f"] by (simp add: less_diff_conv2)
      moreover have "(q - f) * ?S + x mod ?S = x - f * ?S"
        using True xq(1) by (simp add: diff_mult_distrib)
      moreover have "(q - f) * ?S \<le> length buf"
        using True assms(5) by (auto simp: m_def [symmetric])
      ultimately show ?thesis
        using nth [OF d'(2)] xq(2) True inr by (simp add: nth_take)
    next
      case False
      then have "?fs ! q \<notin> (!) ?fs ` {f..<f + m}"
        using q assms(4) fm file_ok_facts(4) [OF assms(1)] by (auto simp: nth_eq_iff_index_eq)
      then show ?thesis using nth [OF d'(2)] nth [OF assms(2)] False inr d'(3) by auto
    qed
  qed
  moreover have "(!) ?fs ` {f..<f + m} \<subseteq> set ?fs" using assms(4) fm by auto
  then have "\<forall>s. s \<notin> set ?fs \<longrightarrow> d' s = d s" using d'(3) by blast
  ultimately show ?thesis
    using d'(1,2) by (intro exI [where x = d']) (auto simp: upto_map_int fm simp del: upt_Suc)
qed

lemma ReadAt_block:
  assumes "file_ok (hdr this)" "disk_wf d" "L = nat (hdr_numBytes (hdr this))" "q * SectorSize < L"
    "o' + SectorSize \<le> length into"
  shows "\<exists>c into'. ReadAt junk this into (int o') (int SectorSize) (int q * int SectorSize) d = Inr (c, into')
    \<and> length into' = length into
    \<and> (\<forall>x < length into. into' ! x = (if o' \<le> x \<and> x < o' + SectorSize \<and> q * SectorSize + (x - o') < L
         then file_data (hdr this) d ! (q * SectorSize + (x - o')) else into ! x))"
proof -
  let ?S = SectorSize and ?D = "file_data (hdr this) d"
  define c where "c = min ?S (L - q * ?S)"
  have L: "L \<le> MaxFileSize" "L \<le> length ?D"
    using file_ok_facts(3,6) [OF assms(1)] file_block(2) [OF assms(1,2)] assms(3) by simp_all
  have "int_ok (int (q * ?S + ?S))"
    using L(1) assms(4) by (simp add: int_ok_def MaxFileSize_def NumDirect_def SectorSize_def)
  then have "ReadAt junk this into (int o') (int ?S) (int (q * ?S)) d
      = Inr (int c, take o' into @ take c (drop (q * ?S) ?D) @ drop (o' + c) into)"
    using assms by (intro ReadAt_ok) (auto simp: c_def SectorSize_def)
  moreover have "length (take c (drop (q * ?S) ?D)) = c" using L(2) by (auto simp: c_def)
  moreover have "c \<le> ?S" by (simp add: c_def)
  moreover have "(take o' into @ take c (drop (q * ?S) ?D) @ drop (o' + c) into) ! x
      = (if o' \<le> x \<and> x < o' + c then ?D ! (q * ?S + (x - o')) else into ! x)" if "x < length into" for x
    using nth_splice [of o' "take c (drop (q * ?S) ?D)" into x] that assms(5) calculation(2,3) L(2) by auto
  moreover have "o' \<le> x \<and> x < o' + ?S \<and> q * ?S + (x - o') < L \<longleftrightarrow> o' \<le> x \<and> x < o' + c" for x
    by (auto simp: c_def)
  ultimately show ?thesis
    using assms(5)
    by (intro exI [where x = "int c"] exI [where x = "take o' into @ take c (drop (q * ?S) ?D) @ drop (o' + c) into"])
       simp
qed

text \<open>
  Before the new bytes are copied in, the buffer holds the old bytes of the file wherever the
  request leaves them.
\<close>

lemma prefill:
  assumes "file_ok (hdr this)" "disk_wf d" "L = nat (hdr_numBytes (hdr this))" "length buf = (Suc l - f) * SectorSize"
    and g: "f \<le> l" "f * SectorSize \<le> p" "p < Suc f * SectorSize" "0 < c" "p + c \<le> L"
      "l * SectorSize < p + c" "p + c \<le> Suc l * SectorSize"
  shows "\<exists>r buf1 r' buf2.
    (if p \<noteq> f * SectorSize then ReadAt junk this buf 0 (int SectorSize) (int f * int SectorSize) d
     else Inr (0, buf)) = Inr (r, buf1)
    \<and> (if p + c \<noteq> Suc l * SectorSize \<and> (f \<noteq> l \<or> p = f * SectorSize)
        then ReadAt junk this buf1 (int ((l - f) * SectorSize)) (int SectorSize) (int l * int SectorSize) d
        else Inr (0, buf1)) = Inr (r', buf2)
    \<and> length buf2 = length buf
    \<and> (\<forall>x. f * SectorSize \<le> x \<and> x < Suc l * SectorSize \<and> x < L \<and> \<not> (p \<le> x \<and> x < p + c) \<longrightarrow>
         buf2 ! (x - f * SectorSize) = file_data (hdr this) d ! x)"
proof -
  let ?S = SectorSize and ?D = "file_data (hdr this) d"
  define o' where "o' = (l - f) * ?S"
  have lf: "f * ?S + o' = l * ?S" using g(1) by (simp add: o'_def diff_mult_distrib mult_le_mono1)
  have len: "length buf = o' + ?S" using assms(4) g(1) by (simp add: o'_def Suc_diff_le)
  have lo: "f * ?S < L" "l * ?S < L" using g by linarith+
  obtain r buf1 where b1: "(if p \<noteq> f * ?S then ReadAt junk this buf 0 (int ?S) (int f * int ?S) d else Inr (0, buf))
      = Inr (r, buf1)" "length buf1 = length buf"
    "p \<noteq> f * ?S \<longrightarrow> (\<forall>y < ?S. f * ?S + y < L \<longrightarrow> buf1 ! y = ?D ! (f * ?S + y))"
    using ReadAt_block [OF assms(1-3) lo(1), of 0 buf junk] len by (cases "p = f * ?S") auto
  have shift: "l * ?S + y - o' = f * ?S + y" for y using lf by linarith
  obtain r' buf2 where b2: "(if p + c \<noteq> Suc l * ?S \<and> (f \<noteq> l \<or> p = f * ?S)
        then ReadAt junk this buf1 (int o') (int ?S) (int l * int ?S) d else Inr (0, buf1)) = Inr (r', buf2)"
    "length buf2 = length buf"
    "\<forall>y < length buf. buf2 ! y = (if p + c \<noteq> Suc l * ?S \<and> (f \<noteq> l \<or> p = f * ?S) \<and> o' \<le> y \<and> f * ?S + y < L
       then ?D ! (f * ?S + y) else buf1 ! y)"
    using ReadAt_block [OF assms(1-3) lo(2), of o' buf1 junk] b1(2) len lf
    by (cases "p + c \<noteq> Suc l * ?S \<and> (f \<noteq> l \<or> p = f * ?S)") (auto simp: shift cong: conj_cong if_cong)
  have "buf2 ! (x - f * ?S) = ?D ! x"
    if x: "f * ?S \<le> x" "x < Suc l * ?S" "x < L" "\<not> (p \<le> x \<and> x < p + c)" for x
  proof -
    define y where "y = x - f * ?S"
    have y: "x = f * ?S + y" "y < length buf" using x(1,2) len lf by (simp_all add: y_def) 
    note n2 = b2(3) [rule_format, OF y(2)]
    show ?thesis
    proof (cases "x < p")
      case True
      then have "p \<noteq> f * ?S" "y < ?S" using x(1) y g(3) by auto
      then have "buf1 ! y = ?D ! x" using b1(3) x(3) y(1) by simp
      then show ?thesis using n2 unfolding y_def [symmetric] y(1) by simp
    next
      case False
      then have c: "p + c \<noteq> Suc l * ?S" "o' \<le> y" using x(2,4) y(1) g(6) lf by auto
      have "buf1 ! y = ?D ! x" if "f = l" "p \<noteq> f * ?S"
        using that b1(3) x(2,3) y(1) by simp
      then show ?thesis using n2 x(3) c unfolding y_def [symmetric] y(1) by auto
    qed
  qed
  then show ?thesis using b1(1) b2(1,2) by (auto simp: o'_def)
qed

lemma WriteAt_nat:
  assumes "file_ok (hdr this)" "0 < n" "p < nat (hdr_numBytes (hdr this))" "int_ok (int (p + n))"
    "c = min n (nat (hdr_numBytes (hdr this)) - p)" "f = p div SectorSize" "l = (p + c - 1) div SectorSize"
  shows "WriteAt junk this src (int n) (int p) d =
    rbind (if p \<noteq> f * SectorSize
       then ReadAt junk this (new_chars junk ((1 + int l - int f) * int SectorSize)) 0 (int SectorSize)
              (int f * int SectorSize) d
       else Inr (0, new_chars junk ((1 + int l - int f) * int SectorSize))) (\<lambda>(_, buf1).
    rbind (if p + c \<noteq> Suc l * SectorSize \<and> (f \<noteq> l \<or> p = f * SectorSize)
       then ReadAt junk this buf1 (int ((l - f) * SectorSize)) (int SectorSize) (int l * int SectorSize) d
       else Inr (0, buf1)) (\<lambda>(_, buf2).
    rbind (bcopy src 0 buf2 (int (p - f * SectorSize)) (int c)) (\<lambda>buf3.
    rbind (write_sectors [int f..int l] (int f) (hdr this) buf3 d) (\<lambda>d'. Inr (int c, d')))))"
proof -
  note g = request_geometry [OF assms(1-3,5-7)]
  have go: "(int n \<le> 0 \<or> hdr_numBytes (hdr this) \<le> int p) = False" "int_ok (int p + int n) = True"
    using assms(2-4) by auto
  have first: "(int p = int f * int SectorSize) = (p = f * SectorSize)"
    by (metis of_nat_eq_iff of_nat_mult)
  have last_: "(int p + int c = (int l + 1) * int SectorSize) = (p + c = Suc l * SectorSize)"
    by (metis of_nat_Suc of_nat_add of_nat_eq_iff of_nat_mult add.commute)
  have off: "(int l - int f) * int SectorSize = int ((l - f) * SectorSize)"
    "int p - int f * int SectorSize = int (p - f * SectorSize)" using g(6,8) by (simp_all add: of_nat_diff)
  show ?thesis
    unfolding WriteAt_def FileLength_def int_add_def Let_def go if_False if_True rbind_simps g(1-3)
      first last_ off of_nat_eq_iff ..
qed

lemma WriteAt_data:
  assumes "file_ok (hdr this)" "disk_wf d" "0 < n" "p < nat (hdr_numBytes (hdr this))"
    "int_ok (int (p + n))" "c = min n (nat (hdr_numBytes (hdr this)) - p)" "c \<le> length src"
  shows "\<exists>d'. WriteAt junk this src (int n) (int p) d = Inr (int c, d') \<and> disk_wf d'
    \<and> (\<forall>s. s \<notin> set (file_sectors (hdr this)) \<longrightarrow> d' s = d s)
    \<and> (\<forall>x < nat (hdr_numBytes (hdr this)). file_data (hdr this) d' ! x =
         (if p \<le> x \<and> x < p + c then src ! (x - p) else file_data (hdr this) d ! x))"
proof -
  let ?S = "SectorSize" and ?h = "hdr this" and ?L = "nat (hdr_numBytes (hdr this))"
  define f where "f = p div ?S"
  define l where "l = (p + c - 1) div ?S"
  define buf where "buf = new_chars junk ((1 + int l - int f) * int ?S)"
  note g = request_geometry [OF assms(1,3,4,6) f_def l_def]
  have len: "length buf = (Suc l - f) * ?S" using g(10) by (simp add: buf_def)
  have "p < Suc f * ?S" "l * ?S < p + c"
    using g(4) div_mult_mod_eq [of p ?S] mod_less_divisor [of ?S p] div_times_less_eq_dividend [of "p + c - 1" ?S]
    by (simp_all add: f_def l_def SectorSize_def)
  note pre = prefill [OF assms(1,2) refl len g(6,8) this(1) g(4,5) this(2) g(9), where junk = junk]
  then obtain r buf1 r' buf2 where
    b1: "(if p \<noteq> f * ?S then ReadAt junk this buf 0 (int ?S) (int f * int ?S) d else Inr (0, buf)) = Inr (r, buf1)"
    and b2: "(if p + c \<noteq> Suc l * ?S \<and> (f \<noteq> l \<or> p = f * ?S)
        then ReadAt junk this buf1 (int ((l - f) * ?S)) (int ?S) (int l * int ?S) d else Inr (0, buf1)) = Inr (r', buf2)"
    and len2: "length buf2 = length buf"
    and old: "\<And>x. f * ?S \<le> x \<and> x < Suc l * ?S \<and> x < ?L \<and> \<not> (p \<le> x \<and> x < p + c) \<Longrightarrow>
       buf2 ! (x - f * ?S) = file_data ?h d ! x"
    by (elim exE conjE) (rule that; blast)
  define o' where "o' = p - f * ?S"
  define buf3 where "buf3 = take o' buf2 @ take c src @ drop (o' + c) buf2"
  have "p + c \<le> f * ?S + (Suc l - f) * ?S" using g(6,9) by (simp flip: add_mult_distrib)
  then have room: "o' + c \<le> length buf2" using len len2 g(8) by (simp add: o'_def)
  then have b3: "bcopy src 0 buf2 (int o') (int c) = Inr buf3" "length buf3 = (Suc l - f) * ?S"
    using bcopy_ok [of 0 c src o' buf2] assms(7) len len2 by (simp_all add: buf3_def)
  obtain d' where d': "write_sectors [int f..int l] (int f) ?h buf3 d = Inr d'" "disk_wf d'"
    "\<forall>s. s \<notin> set (file_sectors ?h) \<longrightarrow> d' s = d s"
    "\<forall>x < length (file_sectors ?h) * ?S. file_data ?h d' ! x =
         (if f * ?S \<le> x \<and> x < Suc l * ?S then buf3 ! (x - f * ?S) else file_data ?h d ! x)"
    using write_range [OF assms(1,2) g(6,7) b3(2)] by (elim exE conjE) (rule that)
  have "file_data ?h d' ! x = (if p \<le> x \<and> x < p + c then src ! (x - p) else file_data ?h d ! x)"
    if x: "x < ?L" for x
  proof -
    have "buf3 ! (x - f * ?S) = (if p \<le> x \<and> x < p + c then src ! (x - p) else file_data ?h d ! x)"
      if "f * ?S \<le> x" "x < Suc l * ?S"
    proof -
      have "x - f * ?S < length buf2" using that len len2 by (simp add: diff_mult_distrib)
      moreover have "o' \<le> x - f * ?S \<longleftrightarrow> p \<le> x" "x - f * ?S < o' + c \<longleftrightarrow> x < p + c"
        "x - f * ?S - o' = x - p" using that g(8) by (auto simp: o'_def)
      ultimately show ?thesis
        using nth_splice [of o' "take c src" buf2 "x - f * ?S"] old [of x] that x room assms(7)
        by (auto simp: buf3_def min_absorb2)
    qed
    moreover have "x < length (file_sectors ?h) * ?S" using x file_ok_facts(6) [OF assms(1)] by linarith
    ultimately show ?thesis using d'(4) g(8,9) by auto
  qed
  moreover have "WriteAt junk this src (int n) (int p) d = Inr (int c, d')"
    using WriteAt_nat [OF assms(1,3-6) f_def l_def, of junk src d] b1 b2 b3(1) d'(1)
    unfolding buf_def [symmetric] o'_def [symmetric] by simp
  ultimately show ?thesis using d'(2,3) by blast
qed

definition overlay :: "nat \<Rightarrow> byte list \<Rightarrow> byte list \<Rightarrow> byte list" where
  "overlay p new xs = take p xs @ new @ drop (p + length new) xs"

definition same_outside :: "nat set \<Rightarrow> sectors \<Rightarrow> sectors \<Rightarrow> bool" where
  "same_outside A d d' \<longleftrightarrow> (\<forall>s. s \<notin> A \<longrightarrow> d' s = d s)"

lemma file_bytes_cong:
  "(\<And>s. s \<in> set (file_sectors h) \<Longrightarrow> d' s = d s) \<Longrightarrow> file_bytes h d' = file_bytes h d"
  by (simp add: file_bytes_def file_data_def cong: map_cong)

lemma WriteAt_ok:
  assumes "file_ok (hdr this)" "disk_wf d" "0 < n" "p < nat (hdr_numBytes (hdr this))"
    "int_ok (int (p + n))" "c = min n (nat (hdr_numBytes (hdr this)) - p)" "c \<le> length src"
  shows "\<exists>d'. WriteAt junk this src (int n) (int p) d = Inr (int c, d') \<and> disk_wf d'
    \<and> same_outside (set (file_sectors (hdr this))) d d'
    \<and> file_bytes (hdr this) d' = overlay p (take c src) (file_bytes (hdr this) d)"
proof -
  let ?h = "hdr this" and ?L = "nat (hdr_numBytes (hdr this))"
  obtain d' where d': "WriteAt junk this src (int n) (int p) d = Inr (int c, d')" "disk_wf d'"
    "\<forall>s. s \<notin> set (file_sectors ?h) \<longrightarrow> d' s = d s"
    "\<forall>x < ?L. file_data ?h d' ! x = (if p \<le> x \<and> x < p + c then src ! (x - p) else file_data ?h d ! x)"
    using WriteAt_data [OF assms, of junk] by (elim exE conjE) (rule that)
  have len: "length (file_bytes ?h d) = ?L" "length (file_bytes ?h d') = ?L"
    using file_block(3) assms(1,2) d'(2) by blast+
  have pc: "p + c \<le> ?L" using assms(4,6) by simp
  have "file_bytes ?h d' = overlay p (take c src) (file_bytes ?h d)"
  proof (rule nth_equalityI)
    show "length (file_bytes ?h d') = length (overlay p (take c src) (file_bytes ?h d))"
      using len pc assms(7) by (simp add: overlay_def)
    fix x assume "x < length (file_bytes ?h d')"
    then have x: "x < ?L" using len by simp
    then have "overlay p (take c src) (file_bytes ?h d) ! x
        = (if p \<le> x \<and> x < p + c then src ! (x - p) else file_bytes ?h d ! x)"
      using nth_splice [of p "take c src" "file_bytes ?h d" x] len pc assms(7)
      by (auto simp: overlay_def min_absorb2)
    then show "file_bytes ?h d' ! x = overlay p (take c src) (file_bytes ?h d) ! x"
      using d'(4) x by (simp add: file_bytes_def)
  qed
  with d' show ?thesis by (auto simp: same_outside_def)
qed

lemma WriteAt_any:
  assumes "file_ok (hdr f)" "disk_wf d" "int_ok (int (p + n))" "n \<le> length src"
    "c = (if p < nat (hdr_numBytes (hdr f)) then min n (nat (hdr_numBytes (hdr f)) - p) else 0)"
  shows "\<exists>d'. WriteAt junk f src (int n) (int p) d = Inr (int c, d') \<and> disk_wf d'
      \<and> same_outside (set (file_sectors (hdr f))) d d'
      \<and> file_bytes (hdr f) d' = overlay p (take c src) (file_bytes (hdr f) d)"
proof (cases "0 < n \<and> p < nat (hdr_numBytes (hdr f))")
  case True
  then show ?thesis
    using WriteAt_ok [OF assms(1,2) _ _ assms(3) refl, where src = src and junk = junk] assms(4,5) by simp
next
  case False
  then have "int n \<le> 0 \<or> hdr_numBytes (hdr f) \<le> int p" "c = 0" using assms(5) by auto
  with assms(2) show ?thesis
    by (auto simp: WriteAt_def FileLength_def overlay_def same_outside_def Let_def)
qed

lemma ReadAt_bytes:
  assumes "file_ok (hdr this)" "disk_wf d" "0 < n" "p < nat (hdr_numBytes (hdr this))"
    "int_ok (int (p + n))" "c = min n (nat (hdr_numBytes (hdr this)) - p)" "off + c \<le> length into"
  shows "ReadAt junk this into (int off) (int n) (int p) d
    = Inr (int c, overlay off (take n (drop p (file_bytes (hdr this) d))) into)"
proof -
  let ?L = "nat (hdr_numBytes (hdr this))"
  have "take n (drop p (file_bytes (hdr this) d)) = take c (drop p (file_data (hdr this) d))"
    using assms(6) by (simp add: file_bytes_def drop_take min.commute)
  moreover have "length (take c (drop p (file_data (hdr this) d))) = c"
    using assms(4,6) file_ok_facts(6) [OF assms(1)] file_block(2) [OF assms(1,2)] by simp
  ultimately show ?thesis using ReadAt_ok [OF assms] by (simp add: overlay_def)
qed

section \<open>Files as an interface\<close>

text \<open>
  What the free map and the directory rely on when they keep themselves in a file: the first
  \<open>n\<close> bytes can be read and written, and a write keeps the rest of the file and of the disk.
\<close>

locale byte_file =
  fixes ok :: "'f \<Rightarrow> 'd \<Rightarrow> bool" and len :: "'f \<Rightarrow> nat" and cont :: "'f \<Rightarrow> 'd \<Rightarrow> byte list"
    and frame :: "'f \<Rightarrow> 'd \<Rightarrow> 'd \<Rightarrow> bool"
    and read_op :: "'f \<Rightarrow> byte list \<Rightarrow> int \<Rightarrow> 'd \<Rightarrow> (int \<times> byte list) result"
    and write_op :: "'f \<Rightarrow> byte list \<Rightarrow> int \<Rightarrow> 'd \<Rightarrow> (int \<times> 'd) result"
  assumes cont_len: "ok f d \<Longrightarrow> length (cont f d) = len f"
    and read_law: "ok f d \<Longrightarrow> 0 < n \<Longrightarrow> n \<le> len f \<Longrightarrow> n \<le> length into \<Longrightarrow>
      read_op f into (int n) d = Inr (int n, overlay 0 (take n (cont f d)) into)"
    and write_law: "ok f d \<Longrightarrow> 0 < n \<Longrightarrow> n \<le> len f \<Longrightarrow> n \<le> length src \<Longrightarrow>
      \<exists>d'. write_op f src (int n) d = Inr (int n, d') \<and> ok f d' \<and> frame f d d'
         \<and> cont f d' = overlay 0 (take n src) (cont f d)"
begin

lemma fetch:
  assumes "ok f d" "0 < length obj" "length obj \<le> len f"
  shows "read_op f obj (int (length obj)) d = Inr (int (length obj), take (length obj) (cont f d))"
  using read_law [OF assms(1), of "length obj" obj] assms cont_len [OF assms(1)] by (simp add: overlay_def)

lemma store:
  assumes "ok f d" "0 < length obj" "length obj \<le> len f"
  shows "\<exists>d'. write_op f obj (int (length obj)) d = Inr (int (length obj), d') \<and> ok f d' \<and> frame f d d'
     \<and> take (length obj) (cont f d') = obj"
  using write_law [OF assms(1,2), of obj] assms by (auto simp: overlay_def)

lemma store_fetch:
  assumes "ok f d" "0 < length obj" "length obj \<le> len f" "length old = length obj"
  shows "\<exists>d'. write_op f obj (int (length obj)) d = Inr (int (length obj), d')
     \<and> read_op f old (int (length obj)) d' = Inr (int (length obj), obj)"
proof -
  obtain d' where "write_op f obj (int (length obj)) d = Inr (int (length obj), d')" "ok f d'"
    "take (length obj) (cont f d') = obj" using store [OF assms(1-3)] by blast
  with fetch [of f d' old] assms show ?thesis by auto
qed

end

definition open_ok :: "OpenFile \<Rightarrow> sectors \<Rightarrow> bool" where
  "open_ok f d \<longleftrightarrow> file_ok (hdr f) \<and> disk_wf d"

definition open_len :: "OpenFile \<Rightarrow> nat" where
  "open_len f = nat (hdr_numBytes (hdr f))"

definition open_frame :: "OpenFile \<Rightarrow> sectors \<Rightarrow> sectors \<Rightarrow> bool" where
  "open_frame f = same_outside (set (file_sectors (hdr f)))"

lemma int_ok_request: "file_ok h \<Longrightarrow> n \<le> nat (hdr_numBytes h) \<Longrightarrow> int_ok (int n)"
  using file_ok_facts(3) [of h] by (simp add: int_ok_def MaxFileSize_def NumDirect_def SectorSize_def)

interpretation fil: byte_file open_ok open_len "\<lambda>f. file_bytes (hdr f)" open_frame
  "\<lambda>f into n. ReadAt junk f into 0 n 0" "\<lambda>f src n. WriteAt junk f src n 0"
proof unfold_locales
  fix f d n and into src :: "byte list"
  assume f: "open_ok f d"
  then show "length (file_bytes (hdr f) d) = open_len f"
    by (simp add: open_ok_def open_len_def file_block(3))
  assume n: "0 < n" "n \<le> open_len f"
  then have i: "int_ok (int (0 + n))" "n = min n (nat (hdr_numBytes (hdr f)) - 0)"
    "0 < nat (hdr_numBytes (hdr f))"
    using f int_ok_request [of "hdr f" n] by (auto simp: open_ok_def open_len_def)
  show "ReadAt junk f into 0 (int n) 0 d = Inr (int n, overlay 0 (take n (file_bytes (hdr f) d)) into)"
    if "n \<le> length into"
    using ReadAt_bytes [OF _ _ n(1) i(3,1,2), where off = 0 and into = into and junk = junk and d = d] that f
    by (simp add: open_ok_def)
  show "\<exists>d'. WriteAt junk f src (int n) 0 d = Inr (int n, d') \<and> open_ok f d' \<and> open_frame f d d'
      \<and> file_bytes (hdr f) d' = overlay 0 (take n src) (file_bytes (hdr f) d)"
    if "n \<le> length src"
    using WriteAt_ok [OF _ _ n(1) i(3,1,2) that, where junk = junk and d = d] f
    by (auto simp: open_ok_def open_frame_def)
qed

section \<open>Properties\<close>

text \<open>
  C39: reading a file. \<^verbatim>\<open>ReadAt\<close> of \<open>n\<close> bytes at position \<open>p\<close> copies exactly that slice of the file, cut off
  at its end, to the front of the caller's buffer and returns its length, zero at or past the end.
\<close>

theorem read_at_slices:
  assumes "file_ok (hdr f)" "disk_wf d" "int_ok (int (p + n))" "n \<le> length into"
  shows "let slice = take n (drop p (file_bytes (hdr f) d)) in
    ReadAt junk f into 0 (int n) (int p) d = Inr (int (length slice), overlay 0 slice into)"
proof (cases "0 < n \<and> p < nat (hdr_numBytes (hdr f))")
  case True
  then show ?thesis
    using ReadAt_bytes [OF assms(1,2) _ _ assms(3) refl, where off = 0 and into = into and junk = junk]
      assms(4) file_block(3) [OF assms(1,2)] by (simp add: min.commute Let_def)
next
  case False
  then have "take n (drop p (file_bytes (hdr f) d)) = []" using file_block(3) [OF assms(1,2)] by auto
  moreover have "int n \<le> 0 \<or> hdr_numBytes (hdr f) \<le> int p" using False by auto
  ultimately show ?thesis by (auto simp: ReadAt_def FileLength_def overlay_def Let_def)
qed

text \<open>
  C7: writing a file. \<^verbatim>\<open>WriteAt\<close> puts the caller's bytes in place of those at position \<open>p\<close>, cut off at the end
  of the file, whose length never changes, keeps every other byte of the file although it writes
  whole sectors, and touches no sector of another file.
\<close>

theorem write_at_splices:
  assumes "file_ok (hdr f)" "disk_wf d" "int_ok (int (p + n))" "n \<le> length src"
  shows "let c = (if p < nat (hdr_numBytes (hdr f)) then min n (nat (hdr_numBytes (hdr f)) - p) else 0) in
    \<exists>d'. WriteAt junk f src (int n) (int p) d = Inr (int c, d') \<and> disk_wf d'
      \<and> same_outside (set (file_sectors (hdr f))) d d'
      \<and> file_bytes (hdr f) d' = overlay p (take c src) (file_bytes (hdr f) d)"
  unfolding Let_def by (rule WriteAt_any [OF assms refl])

lemma sdiv_mono:
  fixes a b c :: int
  assumes "a \<le> b" "0 < c"
  shows "a sdiv c \<le> b sdiv c"
proof -
  have pos: "x sdiv c = (if 0 \<le> x then x div c else - ((- x) div c))" for x
    using assms(2) by (simp add: signed_divide_int_def sgn_if)
  have "0 \<le> x \<Longrightarrow> 0 \<le> x div c" for x using assms(2) by (simp add: pos_imp_zdiv_nonneg_iff)
  moreover have "x \<le> y \<Longrightarrow> x div c \<le> y div c" for x y using assms(2) by (simp add: zdiv_mono1)
  ultimately show ?thesis
    using assms(1) by (auto simp: pos) (smt (verit))
qed

lemma ByteToSector_negative:
  assumes "i < 0"
  shows "ByteToSector (i * int SectorSize) h = Inl Bad_Index"
  using assms by (simp add: ByteToSector_def array_get_int_def signed_divide_int_def sgn_if SectorSize_def)

lemma negative_sectors_fail:
  assumes "a < 0" "a \<le> b"
  shows "read_sectors [a..b] f h d buf = Inl Bad_Index" "write_sectors [a..b] f h buf d = Inl Bad_Index"
  using assms ByteToSector_negative [OF assms(1), of h] by (simp_all add: upto_rec1)

lemma before_first_sector:
  assumes "p < 0" "0 \<le> sdivRoundDown p (int SectorSize)"
  shows "p - sdivRoundDown p (int SectorSize) * int SectorSize < 0"
  using assms by (simp add: sdivRoundDown_def SectorSize_def)

lemma negative_requests:
  assumes "0 < n" "p < hdr_numBytes (hdr f)" "p < 0"
  shows "ReadAt junk f into off n p d \<noteq> Inr r" "WriteAt junk f src n p d \<noteq> Inr r'"
proof -
  let ?S = "int SectorSize"
  define c where "c = (if p + n > hdr_numBytes (hdr f) then hdr_numBytes (hdr f) - p else n)"
  define a where "a = sdivRoundDown p ?S"
  define b where "b = sdivRoundDown (p + c - 1) ?S"
  have "1 \<le> c" using assms by (auto simp: c_def)
  then have ab: "a \<le> b" by (simp add: a_def b_def sdivRoundDown_def sdiv_mono SectorSize_def)
  have bad: "bcopy buf (p - a * ?S) dst j m = Inl Bad_Index" "bcopy buf j dst (p - a * ?S) m = Inl Bad_Index"
    if "0 \<le> a" for buf dst j m
    using before_first_sector [OF assms(3)] that by (simp_all add: a_def bcopy_def)
  note seg = negative_sectors_fail [OF _ ab]
  note defs = Let_def FileLength_def c_def [symmetric] a_def [symmetric] b_def [symmetric]
  show "ReadAt junk f into off n p d \<noteq> Inr r"
    using assms bad(1) seg(1) unfolding ReadAt_def defs
    by (cases "a < 0") (auto simp: rbind_eq_Inr int_add_def c_def [symmetric] a_def [symmetric] b_def [symmetric])
  show "WriteAt junk f src n p d \<noteq> Inr r'"
    using assms bad(2) seg(2) unfolding WriteAt_def defs
    by (cases "a < 0") (auto simp: rbind_eq_Inr int_add_def c_def [symmetric] a_def [symmetric] b_def [symmetric]
        split: if_splits)
qed

lemma long_requests:
  assumes "0 < n" "p < hdr_numBytes (hdr f)" "2 ^ 31 \<le> p + n"
  shows "ReadAt junk f into off n p d = Inl Int_Overflow" "WriteAt junk f src n p d = Inl Int_Overflow"
  using assms by (simp_all add: ReadAt_def WriteAt_def FileLength_def int_add_def int_ok_def)

text \<open>
  A request outside the file. A read or write at a negative position never succeeds, and one whose end does
  not fit an \<^verbatim>\<open>int\<close> overflows, whatever the file's header holds; neither is checked by the code.
\<close>

theorem bad_requests_fail:
  assumes "0 < n" "p < hdr_numBytes (hdr f)"
  shows "(p < 0 \<longrightarrow> (\<forall>r. ReadAt junk f into off n p d \<noteq> Inr r) \<and> (\<forall>r. WriteAt junk f src n p d \<noteq> Inr r))
    \<and> (2 ^ 31 \<le> p + n \<longrightarrow> ReadAt junk f into off n p d = Inl Int_Overflow
        \<and> WriteAt junk f src n p d = Inl Int_Overflow)"
  using negative_requests [OF assms] long_requests [OF assms] by blast

text \<open>Every write that returns is one of the requests above.\<close>

lemma WriteAt_returns:
  assumes "file_ok (hdr f)" "disk_wf d" "WriteAt junk f src n p d = Inr (r, d')" "n \<le> int (length src)"
  shows "disk_wf d' \<and> same_outside (set (file_sectors (hdr f))) d d'"
proof (cases "n \<le> 0 \<or> hdr_numBytes (hdr f) \<le> p")
  case True
  then show ?thesis using assms(2,3) by (auto simp: WriteAt_def FileLength_def same_outside_def)
next
  case False
  then have n: "0 < n" "p < hdr_numBytes (hdr f)" by simp_all
  have "0 \<le> p" using negative_requests(2) [OF n] assms(3) by (metis not_le)
  moreover have "\<not> 2 ^ 31 \<le> p + n" using long_requests(2) [OF n] assms(3) by (metis sum.distinct(1))
  ultimately have "p = int (nat p)" "n = int (nat n)" "int_ok (int (nat p + nat n))" "nat n \<le> length src"
    using n assms(4) by (auto simp: int_ok_def)
  with WriteAt_any [OF assms(1,2) this(3,4) refl, of junk] assms(3) show ?thesis by auto
qed

text \<open>A file of 300 bytes in the sectors 7 and 3 of a disk whose sector \<open>n\<close> is full of the byte \<open>n\<close>.\<close>

definition demo_file :: OpenFile where
  "demo_file = \<lparr>hdr = \<lparr>hdr_numBytes = 300, hdr_numSectors = 2, dataSectors = [7, 3] @ replicate 60 0\<rparr>,
     seekPosition = 0\<rparr>"

definition demo_disk :: sectors where
  "demo_disk n = replicate SectorSize (of_nat n)"

lemma demo_file_ok: "file_ok (hdr demo_file)" "disk_wf demo_disk"
  by (simp_all add: file_ok_def header_typed_def int_ok_def NumDirect_def SectorSize_def file_sectors_def
      sdivRoundUp_def demo_file_def valid_sector_def NumSectors_def SectorsPerTrack_def NumTracks_def
      demo_disk_def disk_wf_def smod_sdiv_nonneg)

lemma demo_file_bytes: "file_bytes (hdr demo_file) demo_disk = replicate 256 7 @ replicate 44 3"
  by (simp add: file_bytes_def file_data_def demo_file_def file_sectors_def demo_disk_def SectorSize_def)

theorem read_at_slices_witness:
  "ReadAt (\<lambda>_. 9) demo_file (replicate 6 0) 0 6 253 demo_disk = Inr (6, [7, 7, 7, 3, 3, 3])"
  using read_at_slices [OF demo_file_ok, of 253 6 "replicate 6 0" "\<lambda>_. 9"]
  by (simp add: demo_file_bytes int_ok_def Let_def overlay_def)
     (simp add: numeral_eq_Suc)

theorem write_at_splices_witness:
  "\<exists>d'. WriteAt (\<lambda>_. 9) demo_file [1, 2, 3, 4] 4 298 demo_disk = Inr (2, d')
     \<and> file_bytes (hdr demo_file) d' = replicate 256 7 @ replicate 42 3 @ [1, 2]
     \<and> d' 5 = demo_disk 5"
proof -
  have "take 298 (replicate 256 7 @ replicate 44 (3 :: byte)) = replicate 256 7 @ replicate 42 3"
    "drop 300 (replicate 256 7 @ replicate 44 (3 :: byte)) = []" by simp_all
  then show ?thesis
    using write_at_splices [OF demo_file_ok, of 298 4 "[1, 2, 3, 4]" "\<lambda>_. 9"]
    by (simp add: demo_file_bytes int_ok_def Let_def overlay_def same_outside_def)
       (auto simp: demo_file_def file_sectors_def)
qed

theorem bad_requests_fail_witness:
  "(\<forall>r. ReadAt (\<lambda>_. 9) demo_file [0, 0] 0 2 (- 1) demo_disk \<noteq> Inr r)
   \<and> WriteAt (\<lambda>_. 9) demo_file [0, 0] 0x7fffffff 1 demo_disk = Inl Int_Overflow"
  using bad_requests_fail [of 2 "- 1" demo_file "\<lambda>_. 9" "[0, 0]" 0 demo_disk "[0, 0]"]
    bad_requests_fail [of "0x7fffffff" 1 demo_file "\<lambda>_. 9" "[0, 0]" 0 demo_disk "[0, 0]"]
  by (simp add: demo_file_def)

end
