(* ===== verification/Dir_Table.thy ===== *)
theory Dir_Table
  imports Open_File
begin

text \<open>
  The directory of \<^verbatim>\<open>filesys/directory.cc\<close>: a table of fixed size from file names to the sectors of
  their headers, kept in a file as an array of 20-byte structures. Names are C strings, given
  without their terminating zero; only their first nine characters count. The interface locale
  \<open>name_table\<close> states what the file system relies on.
\<close>

section \<open>C strings\<close>

text \<open>Whether \<^verbatim>\<open>strncmp(a, b, n)\<close> returns 0, and \<^verbatim>\<open>strncpy(dst, src, n)\<close>, which pads with zeros.\<close>

definition char_at :: "byte list \<Rightarrow> byte" where
  "char_at s = (case s of [] \<Rightarrow> 0 | c # _ \<Rightarrow> c)"

fun strncmp_equal :: "nat \<Rightarrow> byte list \<Rightarrow> byte list \<Rightarrow> bool" where
  "strncmp_equal 0 a b = True"
| "strncmp_equal (Suc n) a b =
     (char_at a = char_at b \<and> (char_at a = 0 \<or> strncmp_equal n (tl a) (tl b)))"

definition strncpy :: "byte list \<Rightarrow> byte list \<Rightarrow> nat \<Rightarrow> byte list" where
  "strncpy dst src n = take n (takeWhile (\<lambda>c. c \<noteq> 0) src @ replicate n 0) @ drop n dst"

section \<open>Operations\<close>

definition FileNameMaxLen :: nat where "FileNameMaxLen = 9"

record DirectoryEntry =
  inUse :: bool
  de_sector :: int
  de_name :: "byte list"

record Directory =
  tableSize :: nat
  table :: "DirectoryEntry list"

definition Directory_new :: "nat \<Rightarrow> DirectoryEntry list \<Rightarrow> Directory" where
  "Directory_new n garbage =
     \<lparr>tableSize = n, table = map (\<lambda>e. e\<lparr>inUse := False\<rparr>) (take n garbage)\<rparr>"

fun find_index :: "nat \<Rightarrow> DirectoryEntry list \<Rightarrow> byte list \<Rightarrow> int" where
  "find_index i [] name = - 1"
| "find_index i (e # es) name =
     (if inUse e \<and> strncmp_equal FileNameMaxLen (de_name e) name then int i
      else find_index (Suc i) es name)"

definition FindIndex :: "byte list \<Rightarrow> Directory \<Rightarrow> int" where
  "FindIndex name this = find_index 0 (table this) name"

definition Directory_Find :: "byte list \<Rightarrow> Directory \<Rightarrow> int" where
  "Directory_Find name this = (let i = FindIndex name this in
     if i \<noteq> - 1 then de_sector (table this ! nat i) else - 1)"

fun add_entry :: "byte list \<Rightarrow> int \<Rightarrow> DirectoryEntry list \<Rightarrow> bool \<times> DirectoryEntry list" where
  "add_entry name newSector [] = (False, [])"
| "add_entry name newSector (e # es) = (if \<not> inUse e
     then (True, e\<lparr>inUse := True, de_name := strncpy (de_name e) name FileNameMaxLen,
                    de_sector := newSector\<rparr> # es)
     else let (r, es') = add_entry name newSector es in (r, e # es'))"

definition Directory_Add :: "byte list \<Rightarrow> int \<Rightarrow> Directory \<Rightarrow> bool \<times> Directory" where
  "Directory_Add name newSector this = (if FindIndex name this \<noteq> - 1 then (False, this)
     else let (r, t) = add_entry name newSector (table this) in (r, this\<lparr>table := t\<rparr>))"

definition Directory_Remove :: "byte list \<Rightarrow> Directory \<Rightarrow> bool \<times> Directory" where
  "Directory_Remove name this = (let i = FindIndex name this in
     if i = - 1 then (False, this)
     else (True, this\<lparr>table := (table this)[nat i := (table this ! nat i)\<lparr>inUse := False\<rparr>]\<rparr>))"

text \<open>
  \<^verbatim>\<open>List\<close> prints the name of every entry in use with \<^verbatim>\<open>%s\<close>, which reads on to a zero byte; a name
  array without one is read past its end.
\<close>

fun list_names :: "DirectoryEntry list \<Rightarrow> byte list list result" where
  "list_names [] = Inr []"
| "list_names (e # es) = (if \<not> inUse e then list_names es
     else if 0 \<notin> set (de_name e) then Inl Bad_Index
     else rbind (list_names es) (\<lambda>ns. Inr (takeWhile (\<lambda>c. c \<noteq> 0) (de_name e) # ns)))"

definition Directory_List :: "Directory \<Rightarrow> byte list list result" where
  "Directory_List this = list_names (table this)"

text \<open>
  The layout of an entry on the 32-bit host: the flag, three bytes of padding, the sector, the
  ten bytes of the name and two bytes of padding; \<open>pad\<close> gives what the padding holds.
\<close>

definition sizeof_DirectoryEntry :: nat where "sizeof_DirectoryEntry = 20"

definition entry_bytes :: "(nat \<Rightarrow> byte) \<Rightarrow> DirectoryEntry \<Rightarrow> byte list" where
  "entry_bytes pad e = [if inUse e then 1 else 0, pad 1, pad 2, pad 3]
     @ word_bytes (word_of_int (de_sector e)) @ de_name e @ [pad 18, pad 19]"

fun table_bytes :: "(nat \<Rightarrow> byte) \<Rightarrow> DirectoryEntry list \<Rightarrow> byte list" where
  "table_bytes pad [] = []"
| "table_bytes pad (e # es) = entry_bytes pad e @ table_bytes (\<lambda>i. pad (i + sizeof_DirectoryEntry)) es"

definition bytes_entry :: "byte list \<Rightarrow> DirectoryEntry" where
  "bytes_entry bs = \<lparr>inUse = (bs ! 0 \<noteq> 0), de_sector = sint (bytes_word (drop 4 bs)),
     de_name = take (FileNameMaxLen + 1) (drop 8 bs)\<rparr>"

fun bytes_table :: "nat \<Rightarrow> byte list \<Rightarrow> DirectoryEntry list" where
  "bytes_table 0 bs = []"
| "bytes_table (Suc n) bs = bytes_entry bs # bytes_table n (drop sizeof_DirectoryEntry bs)"

definition Directory_FetchFrom ::
  "(nat \<Rightarrow> byte) \<Rightarrow> (nat \<Rightarrow> byte) \<Rightarrow> OpenFile \<Rightarrow> Directory \<Rightarrow> sectors \<Rightarrow> Directory result" where
  "Directory_FetchFrom junk pad file this d =
     rbind (ReadAt junk file (table_bytes pad (table this)) 0
              (int (tableSize this * sizeof_DirectoryEntry)) 0 d) (\<lambda>(_, bs).
     Inr (this\<lparr>table := bytes_table (tableSize this) bs\<rparr>))"

definition Directory_WriteBack ::
  "(nat \<Rightarrow> byte) \<Rightarrow> (nat \<Rightarrow> byte) \<Rightarrow> OpenFile \<Rightarrow> Directory \<Rightarrow> sectors \<Rightarrow> sectors result" where
  "Directory_WriteBack junk pad file this d =
     rbind (WriteAt junk file (table_bytes pad (table this))
              (int (tableSize this * sizeof_DirectoryEntry)) 0 d) (\<lambda>(_, d'). Inr d')"

section \<open>The table in a file\<close>

definition entry_typed :: "DirectoryEntry \<Rightarrow> bool" where
  "entry_typed e \<longleftrightarrow> int_ok (de_sector e) \<and> length (de_name e) = FileNameMaxLen + 1"

lemma length_entry_bytes: "entry_typed e \<Longrightarrow> length (entry_bytes pad e) = sizeof_DirectoryEntry"
  by (simp add: entry_bytes_def entry_typed_def sizeof_DirectoryEntry_def FileNameMaxLen_def)

lemma length_table_bytes:
  "\<forall>e \<in> set t. entry_typed e \<Longrightarrow> length (table_bytes pad t) = length t * sizeof_DirectoryEntry"
  by (induction t arbitrary: pad) (simp_all add: length_entry_bytes)

lemma length_bytes_table [simp]: "length (bytes_table n bs) = n"
  by (induction n arbitrary: bs) simp_all

lemma bytes_entry_bytes:
  assumes "entry_typed e"
  shows "bytes_entry (entry_bytes pad e @ bs) = e"
proof -
  have "drop 8 (entry_bytes pad e @ bs) = de_name e @ pad 18 # pad 19 # bs"
    "drop 4 (entry_bytes pad e @ bs) = word_bytes (word_of_int (de_sector e)) @ de_name e @ pad 18 # pad 19 # bs"
    by (simp_all add: entry_bytes_def word_bytes_def)
  then show ?thesis
    using assms by (simp add: bytes_entry_def entry_typed_def sint_word_of_int32 int_ok_def)
      (simp add: entry_bytes_def)
qed

lemma bytes_table_bytes:
  "\<forall>e \<in> set t. entry_typed e \<Longrightarrow> bytes_table (length t) (table_bytes pad t @ bs) = t"
  by (induction t arbitrary: pad) (simp_all add: bytes_entry_bytes length_entry_bytes)

lemma bytes_entry_typed:
  assumes "sizeof_DirectoryEntry \<le> length bs"
  shows "entry_typed (bytes_entry bs)"
proof -
  have "int_ok (sint w)" for w :: word32
    using sint_greater_eq [of w] sint_less [of w] by (simp add: int_ok_def)
  with assms show ?thesis
    by (simp add: entry_typed_def bytes_entry_def sizeof_DirectoryEntry_def FileNameMaxLen_def)
qed

lemma bytes_table_typed:
  "n * sizeof_DirectoryEntry \<le> length bs \<Longrightarrow> e \<in> set (bytes_table n bs) \<Longrightarrow> entry_typed e"
proof (induction n arbitrary: bs)
  case (Suc n)
  have "n * sizeof_DirectoryEntry \<le> length (drop sizeof_DirectoryEntry bs)" using Suc.prems(1) by simp
  from Suc.IH [OF this] Suc.prems show ?case by (auto simp: bytes_entry_typed)
qed simp

section \<open>The directory as a map\<close>

definition name_key :: "byte list \<Rightarrow> byte list" where
  "name_key name = takeWhile (\<lambda>c. c \<noteq> 0) (take FileNameMaxLen name)"

definition dir_pairs :: "DirectoryEntry list \<Rightarrow> (byte list \<times> int) list" where
  "dir_pairs t = map (\<lambda>e. (name_key (de_name e), de_sector e)) (filter inUse t)"

definition dir_map :: "DirectoryEntry list \<Rightarrow> byte list \<rightharpoonup> int" where
  "dir_map t = map_of (dir_pairs t)"

definition dir_ok :: "Directory \<Rightarrow> bool" where
  "dir_ok dir \<longleftrightarrow> length (table dir) = tableSize dir \<and> (\<forall>e \<in> set (table dir). entry_typed e)
     \<and> distinct (map fst (dir_pairs (table dir)))"

definition has_room :: "Directory \<Rightarrow> bool" where
  "has_room dir \<longleftrightarrow> (\<exists>e \<in> set (table dir). \<not> inUse e)"

lemma dir_pairs_simps [simp]:
  "dir_pairs [] = []"
  "dir_pairs (e # es) = (if inUse e then (name_key (de_name e), de_sector e) # dir_pairs es else dir_pairs es)"
  by (simp_all add: dir_pairs_def)

lemma strncmp_equal_iff:
  "strncmp_equal n a b \<longleftrightarrow> takeWhile (\<lambda>c. c \<noteq> 0) (take n a) = takeWhile (\<lambda>c. c \<noteq> 0) (take n b)"
proof (induction n arbitrary: a b)
  case (Suc n)
  then show ?case by (cases a; cases b) (auto simp: char_at_def)
qed simp

lemma name_key_strncpy: "name_key (strncpy old name FileNameMaxLen) = name_key name"
proof -
  have "takeWhile (\<lambda>c. c \<noteq> 0) (take k (takeWhile (\<lambda>c. c \<noteq> 0) xs @ replicate k 0))
      = takeWhile (\<lambda>c. c \<noteq> 0) (take k xs)" for k and xs :: "byte list"
  proof (induction k arbitrary: xs)
    case (Suc k)
    then show ?case
      by (cases xs) (auto simp flip: replicate_Suc simp: replicate_append_same [symmetric] take_Cons')
  qed simp
  note pad = this [of FileNameMaxLen name]
  have "take k (take k ys @ zs) = take k ys" if "k \<le> length ys" for k and ys zs :: "byte list"
    using that by simp
  from this [of FileNameMaxLen "takeWhile (\<lambda>c. c \<noteq> 0) name @ replicate FileNameMaxLen 0"] pad
  show ?thesis unfolding name_key_def strncpy_def by (simp only: length_append length_replicate le_add2)
qed

lemma matches_iff: "strncmp_equal FileNameMaxLen (de_name e) name \<longleftrightarrow> name_key (de_name e) = name_key name"
  by (simp add: strncmp_equal_iff name_key_def)

lemma find_index_None: "dir_map t (name_key name) = None \<Longrightarrow> find_index i t name = - 1"
  by (induction t arbitrary: i) (auto simp: dir_map_def matches_iff split: if_splits)

lemma find_index_Some:
  assumes "dir_map t (name_key name) = Some s"
  shows "\<exists>k < length t. find_index i t name = int (i + k) \<and> inUse (t ! k)
    \<and> name_key (de_name (t ! k)) = name_key name \<and> de_sector (t ! k) = s"
  using assms
proof (induction t arbitrary: i)
  case (Cons e t)
  show ?case
  proof (cases "inUse e \<and> name_key (de_name e) = name_key name")
    case True
    with Cons.prems show ?thesis by (auto simp: dir_map_def matches_iff intro!: exI [where x = 0])
  next
    case False
    with Cons.prems have "dir_map t (name_key name) = Some s"
      by (auto simp: dir_map_def split: if_splits)
    from Cons.IH [OF this, of "Suc i"] obtain k where "k < length t"
      "find_index (Suc i) t name = int (Suc i + k)" "inUse (t ! k)"
      "name_key (de_name (t ! k)) = name_key name" "de_sector (t ! k) = s" by blast
    with False show ?thesis by (intro exI [where x = "Suc k"]) (auto simp: matches_iff)
  qed
qed (simp add: dir_map_def)

lemma dir_pairs_append [simp]: "dir_pairs (xs @ ys) = dir_pairs xs @ dir_pairs ys"
  by (simp add: dir_pairs_def)

lemma add_entry_full: "\<forall>e \<in> set t. inUse e \<Longrightarrow> add_entry name sec t = (False, t)"
  by (induction t) auto

lemma add_entry_free:
  "\<forall>u \<in> set us. inUse u \<Longrightarrow> \<not> inUse e \<Longrightarrow> add_entry name sec (us @ e # es) = (True, us @
     e\<lparr>inUse := True, de_name := strncpy (de_name e) name FileNameMaxLen, de_sector := sec\<rparr> # es)"
  by (induction us) auto

lemma map_of_insert_between:
  "k \<notin> fst ` set xs \<Longrightarrow> map_of (xs @ (k, v) # ys) = (map_of (xs @ ys))(k \<mapsto> v)"
  by (induction xs) (auto simp: fun_eq_iff)

lemma entry_typed_strncpy:
  "entry_typed e \<Longrightarrow> int_ok sec \<Longrightarrow>
   entry_typed (e\<lparr>inUse := True, de_name := strncpy (de_name e) name FileNameMaxLen, de_sector := sec\<rparr>)"
  by (simp add: entry_typed_def strncpy_def FileNameMaxLen_def)

lemma Directory_Find_map:
  "Directory_Find name dir = (case dir_map (table dir) (name_key name) of None \<Rightarrow> - 1 | Some s \<Rightarrow> s)"
proof (cases "dir_map (table dir) (name_key name)")
  case None
  then show ?thesis by (simp add: Directory_Find_def FindIndex_def find_index_None)
next
  case (Some s)
  from find_index_Some [OF this, of 0] obtain k where "find_index 0 (table dir) name = int k"
    "de_sector (table dir ! k) = s" by auto
  with Some show ?thesis by (simp add: Directory_Find_def FindIndex_def)
qed

lemma Directory_Add_present:
  assumes "dir_map (table dir) (name_key name) \<noteq> None"
  shows "Directory_Add name sec dir = (False, dir)"
proof -
  from assms obtain s where "dir_map (table dir) (name_key name) = Some s" by blast
  from find_index_Some [OF this, of 0] obtain k where "find_index 0 (table dir) name = int k" by auto
  then show ?thesis by (simp add: Directory_Add_def FindIndex_def)
qed

lemma Directory_Add_map:
  assumes "dir_ok dir" "dir_map (table dir) (name_key name) = None" "int_ok sec"
  shows "if has_room dir then \<exists>dir'. Directory_Add name sec dir = (True, dir') \<and> dir_ok dir'
      \<and> tableSize dir' = tableSize dir \<and> dir_map (table dir') = (dir_map (table dir))(name_key name \<mapsto> sec)
    else Directory_Add name sec dir = (False, dir)"
proof (cases "has_room dir")
  case False
  then have "\<forall>e \<in> set (table dir). inUse e" by (simp add: has_room_def)
  with False show ?thesis
    by (simp add: Directory_Add_def FindIndex_def find_index_None [OF assms(2)] add_entry_full)
next
  case True
  then obtain us e es where t: "table dir = us @ e # es" "\<forall>u \<in> set us. inUse u" "\<not> inUse e"
    using split_list_first_prop [of "table dir" "\<lambda>e. \<not> inUse e"] unfolding has_room_def by blast
  let ?e = "e\<lparr>inUse := True, de_name := strncpy (de_name e) name FileNameMaxLen, de_sector := sec\<rparr>"
  let ?dir = "dir\<lparr>table := us @ ?e # es\<rparr>"
  have new: "name_key name \<notin> fst ` set (dir_pairs us @ dir_pairs es)"
    using assms(2) t(3) by (simp add: dir_map_def t(1) map_of_eq_None_iff image_Un)
  then have "dir_map (us @ ?e # es) = (dir_map (table dir))(name_key name \<mapsto> sec)"
    using t(3) map_of_insert_between [of "name_key name" "dir_pairs us" sec "dir_pairs es"]
    by (simp add: dir_map_def t(1) name_key_strncpy image_Un)
  moreover have "dir_ok ?dir"
    using assms(1,3) t(1,3) new entry_typed_strncpy [of e sec name]
    by (auto simp: dir_ok_def name_key_strncpy)
  moreover have "Directory_Add name sec dir = (True, ?dir)"
    using add_entry_free [OF t(2,3), of name sec es] find_index_None [OF assms(2), of 0]
    by (simp add: Directory_Add_def FindIndex_def t(1))
  ultimately show ?thesis using True by auto
qed

lemma Directory_Remove_absent:
  "dir_map (table dir) (name_key name) = None \<Longrightarrow> Directory_Remove name dir = (False, dir)"
  by (simp add: Directory_Remove_def FindIndex_def find_index_None)

lemma Directory_Remove_map:
  assumes "dir_ok dir" "dir_map (table dir) (name_key name) = Some s"
  shows "\<exists>dir'. Directory_Remove name dir = (True, dir') \<and> dir_ok dir' \<and> tableSize dir' = tableSize dir
    \<and> dir_map (table dir') = (dir_map (table dir))(name_key name := None)"
proof -
  from find_index_Some [OF assms(2), of 0] obtain k where k: "k < length (table dir)"
    "find_index 0 (table dir) name = int k" "inUse (table dir ! k)"
    "name_key (de_name (table dir ! k)) = name_key name" by auto
  let ?e = "table dir ! k" and ?us = "take k (table dir)" and ?es = "drop (Suc k) (table dir)"
  have t: "table dir = ?us @ ?e # ?es" using k(1) by (rule id_take_nth_drop)
  have d: "distinct (map fst (dir_pairs ?us @ (name_key name, de_sector ?e) # dir_pairs ?es))"
    using assms(1) k(3,4) unfolding dir_ok_def by (subst (asm) (3) t) simp
  define t' where "t' = ?us @ ?e\<lparr>inUse := False\<rparr> # ?es"
  have "dir_map t' = map_of (dir_pairs ?us @ dir_pairs ?es)" by (simp add: dir_map_def t'_def)
  also have "\<dots> = (dir_map (table dir))(name_key name := None)"
  proof -
    have "dir_map (table dir) = (map_of (dir_pairs ?us @ dir_pairs ?es))(name_key name \<mapsto> de_sector ?e)"
      using k(3,4) d map_of_insert_between [of "name_key name" "dir_pairs ?us" "de_sector ?e" "dir_pairs ?es"]
      unfolding dir_map_def by (subst t) simp
    moreover have "map_of (dir_pairs ?us @ dir_pairs ?es) (name_key name) = None"
      using d by (simp add: map_of_eq_None_iff)
    ultimately show ?thesis by auto
  qed
  finally have m: "dir_map t' = (dir_map (table dir))(name_key name := None)" .
  have "\<forall>e \<in> set t'. entry_typed e"
    using assms(1) k(1) by (auto simp: dir_ok_def t'_def entry_typed_def dest: in_set_takeD in_set_dropD)
  then have "dir_ok (dir\<lparr>table := t'\<rparr>)"
    using assms(1) d k(1) by (simp add: dir_ok_def t'_def)
  moreover have "Directory_Remove name dir = (True, dir\<lparr>table := t'\<rparr>)"
    using k by (simp add: Directory_Remove_def FindIndex_def t'_def upd_conv_take_nth_drop)
  ultimately show ?thesis using m by auto
qed

section \<open>The directory interface\<close>

locale name_table =
  fixes ok :: "'t \<Rightarrow> bool" and lookup :: "'t \<Rightarrow> byte list \<rightharpoonup> int" and room :: "'t \<Rightarrow> bool"
    and find_op :: "byte list \<Rightarrow> 't \<Rightarrow> int"
    and add_op :: "byte list \<Rightarrow> int \<Rightarrow> 't \<Rightarrow> bool \<times> 't"
    and remove_op :: "byte list \<Rightarrow> 't \<Rightarrow> bool \<times> 't"
  assumes find_law: "find_op n t = (case lookup t (name_key n) of None \<Rightarrow> - 1 | Some s \<Rightarrow> s)"
    and add_present: "lookup t (name_key n) \<noteq> None \<Longrightarrow> add_op n s t = (False, t)"
    and add_law: "ok t \<Longrightarrow> lookup t (name_key n) = None \<Longrightarrow> int_ok s \<Longrightarrow>
      if room t then \<exists>t'. add_op n s t = (True, t') \<and> ok t' \<and> lookup t' = (lookup t)(name_key n \<mapsto> s)
      else add_op n s t = (False, t)"
    and remove_absent: "lookup t (name_key n) = None \<Longrightarrow> remove_op n t = (False, t)"
    and remove_law: "ok t \<Longrightarrow> lookup t (name_key n) = Some s \<Longrightarrow>
      \<exists>t'. remove_op n t = (True, t') \<and> ok t' \<and> lookup t' = (lookup t)(name_key n := None)"
begin

lemma find_after_add:
  assumes "ok t" "int_ok s" "add_op n s t = (True, t')"
  shows "find_op n' t' = (if name_key n' = name_key n then s else find_op n' t)"
proof -
  have "lookup t (name_key n) = None" using add_present [of t n s] assms(3) by (cases "lookup t (name_key n)") auto
  from add_law [OF assms(1) this assms(2)] assms(3) have "lookup t' = (lookup t)(name_key n \<mapsto> s)"
    by (auto split: if_splits)
  then show ?thesis by (simp add: find_law)
qed

lemma find_after_remove:
  assumes "ok t" "remove_op n t = (True, t')"
  shows "find_op n' t' = (if name_key n' = name_key n then - 1 else find_op n' t)"
proof -
  obtain s where "lookup t (name_key n) = Some s"
    using remove_absent [of t n] assms(2) by (cases "lookup t (name_key n)") auto
  from remove_law [OF assms(1) this] assms(2) show ?thesis by (auto simp: find_law)
qed

end

interpretation dirt: name_table dir_ok "\<lambda>dir. dir_map (table dir)" has_room Directory_Find
  Directory_Add Directory_Remove
proof unfold_locales
  fix n s and t :: Directory
  show "Directory_Find n t = (case dir_map (table t) (name_key n) of None \<Rightarrow> - 1 | Some s \<Rightarrow> s)"
    by (rule Directory_Find_map)
  show "dir_map (table t) (name_key n) \<noteq> None \<Longrightarrow> Directory_Add n s t = (False, t)"
    by (rule Directory_Add_present)
  show "dir_map (table t) (name_key n) = None \<Longrightarrow> Directory_Remove n t = (False, t)"
    by (rule Directory_Remove_absent)
  assume ok: "dir_ok t"
  show "if has_room t then \<exists>t'. Directory_Add n s t = (True, t') \<and> dir_ok t'
        \<and> dir_map (table t') = (dir_map (table t))(name_key n \<mapsto> s)
      else Directory_Add n s t = (False, t)" if "dir_map (table t) (name_key n) = None" "int_ok s"
    using Directory_Add_map [OF ok that] by (auto split: if_splits)
  show "\<exists>t'. Directory_Remove n t = (True, t') \<and> dir_ok t' \<and> dir_map (table t') = (dir_map (table t))(name_key n := None)"
    if "dir_map (table t) (name_key n) = Some s" using Directory_Remove_map [OF ok that] by blast
qed

section \<open>The directory in its file\<close>

lemma bytes_table_prefix:
  assumes "n * sizeof_DirectoryEntry \<le> k"
  shows "bytes_table n (take k bs) = bytes_table n bs"
  using assms
proof (induction n arbitrary: bs k)
  case (Suc n)
  have "bytes_entry (take k bs) = bytes_entry bs"
  proof -
    have "4 \<le> k" "20 \<le> k" using Suc.prems by (simp_all add: sizeof_DirectoryEntry_def)
    then show ?thesis
      by (auto simp: bytes_entry_def FileNameMaxLen_def bytes_word_def drop_take min_def nth_append)
  qed
  moreover have "bytes_table n (take (k - sizeof_DirectoryEntry) (drop sizeof_DirectoryEntry bs))
      = bytes_table n (drop sizeof_DirectoryEntry bs)"
    using Suc.prems by (intro Suc.IH) simp
  ultimately show ?case by (simp add: drop_take)
qed simp

lemma Directory_FetchFrom_ok:
  assumes "open_ok f d" "length (table dir) = tableSize dir" "\<forall>e \<in> set (table dir). entry_typed e"
    "0 < tableSize dir" "tableSize dir * sizeof_DirectoryEntry \<le> open_len f"
  shows "Directory_FetchFrom junk pad f dir d
    = Inr (dir\<lparr>table := bytes_table (tableSize dir) (file_bytes (hdr f) d)\<rparr>)"
proof -
  have l: "length (table_bytes pad (table dir)) = tableSize dir * sizeof_DirectoryEntry"
    using length_table_bytes [OF assms(3)] assms(2) by simp
  then show ?thesis
    using fil.fetch [OF assms(1), of "table_bytes pad (table dir)" junk] assms(4,5)
    by (simp add: Directory_FetchFrom_def bytes_table_prefix sizeof_DirectoryEntry_def)
qed

lemma Directory_WriteBack_ok:
  assumes "open_ok f d" "dir_ok dir" "0 < tableSize dir" "tableSize dir * sizeof_DirectoryEntry \<le> open_len f"
  shows "\<exists>d'. Directory_WriteBack junk pad f dir d = Inr d' \<and> open_ok f d' \<and> open_frame f d d'
    \<and> bytes_table (tableSize dir) (file_bytes (hdr f) d') = table dir"
proof -
  let ?bs = "table_bytes pad (table dir)"
  have t: "length (table dir) = tableSize dir" "\<forall>e \<in> set (table dir). entry_typed e"
    using assms(2) by (auto simp: dir_ok_def)
  have l: "length ?bs = tableSize dir * sizeof_DirectoryEntry"
    using length_table_bytes [OF t(2)] t(1) by simp
  obtain d' where d': "WriteAt junk f ?bs (int (length ?bs)) 0 d = Inr (int (length ?bs), d')"
    "open_ok f d'" "open_frame f d d'" "take (length ?bs) (file_bytes (hdr f) d') = ?bs"
    using fil.store [OF assms(1), of ?bs junk] assms(3,4) l by (auto simp: sizeof_DirectoryEntry_def)
  have "bytes_table (tableSize dir) (file_bytes (hdr f) d') = bytes_table (length (table dir)) (?bs @ [])"
    using bytes_table_prefix [of "tableSize dir" "length ?bs" "file_bytes (hdr f) d'"] d'(4) l t(1) by simp
  also have "\<dots> = table dir" by (rule bytes_table_bytes [OF t(2)])
  finally show ?thesis using d' l by (simp add: Directory_WriteBack_def)
qed

end
