(* ===== verification/File_System.thy ===== *)
theory File_System
  imports Dir_Table
begin

text \<open>
  The file system of \<^verbatim>\<open>filesys/filesys.cc\<close>, over the free map, the directory and the file headers. Its whole
  state is the disk; the two open files it keeps name the sectors of the map and of the directory. The
  specification is \<open>fs_files\<close>, the map from file names to contents, and the invariant \<open>fs_ok\<close> says which
  file owns which sector.
\<close>

section \<open>The free map in its file\<close>

definition words_bytes :: "word32 list \<Rightarrow> byte list" where
  "words_bytes ws = concat (map word_bytes ws)"

fun bytes_words :: "byte list \<Rightarrow> word32 list" where
  "bytes_words (a # b # c # d # bs) = bytes_word [a, b, c, d] # bytes_words bs"
| "bytes_words bs = []"

definition BitMap_FetchFrom :: "(nat \<Rightarrow> byte) \<Rightarrow> OpenFile \<Rightarrow> bitmap \<Rightarrow> sectors \<Rightarrow> bitmap result" where
  "BitMap_FetchFrom junk file this d =
     rbind (ReadAt junk file (words_bytes (bit_words this)) 0 (int (numWords this * 4)) 0 d) (\<lambda>(_, bs).
     Inr (this\<lparr>bit_words := bytes_words bs\<rparr>))"

definition BitMap_WriteBack :: "(nat \<Rightarrow> byte) \<Rightarrow> OpenFile \<Rightarrow> bitmap \<Rightarrow> sectors \<Rightarrow> sectors result" where
  "BitMap_WriteBack junk file this d =
     rbind (WriteAt junk file (words_bytes (bit_words this)) (int (numWords this * 4)) 0 d) (\<lambda>(_, d'). Inr d')"

section \<open>Operations\<close>

definition FreeMapSector :: int where "FreeMapSector = 0"
definition DirectorySector :: int where "DirectorySector = 1"
definition FreeMapFileSize :: nat where "FreeMapFileSize = NumSectors div BitsInByte"
definition NumDirEntries :: nat where "NumDirEntries = 10"
definition DirectoryFileSize :: nat where "DirectoryFileSize = sizeof_DirectoryEntry * NumDirEntries"

text \<open>What operator \<^verbatim>\<open>new\<close> finds in the memory it hands out.\<close>

record heap =
  junk_bytes :: "nat \<Rightarrow> byte"
  junk_pad :: "nat \<Rightarrow> byte"
  junk_words :: "word32 list"
  junk_entries :: "DirectoryEntry list"
  junk_header :: FileHeader

record FileSystem =
  freeMapFile :: OpenFile
  directoryFile :: OpenFile

definition format_disk :: "heap \<Rightarrow> sectors \<Rightarrow> (FileSystem \<times> sectors) result" where
  "format_disk u d =
     rbind (BitMap_new NumSectors (junk_words u)) (\<lambda>freeMap0.
     let directory = Directory_new NumDirEntries (junk_entries u) in
     rbind (Mark FreeMapSector freeMap0) (\<lambda>freeMap1.
     rbind (Mark DirectorySector freeMap1) (\<lambda>freeMap2.
     rbind (Allocate (junk_header u) freeMap2 (int FreeMapFileSize)) (\<lambda>(ok1, mapHdr, freeMap3).
     rbind (ASSERT ok1) (\<lambda>_.
     rbind (Allocate (junk_header u) freeMap3 (int DirectoryFileSize)) (\<lambda>(ok2, dirHdr, freeMap).
     rbind (ASSERT ok2) (\<lambda>_.
     rbind (FileHeader_WriteBack FreeMapSector mapHdr d) (\<lambda>d1.
     rbind (FileHeader_WriteBack DirectorySector dirHdr d1) (\<lambda>d2.
     rbind (OpenFile_new FreeMapSector d2) (\<lambda>mf.
     rbind (OpenFile_new DirectorySector d2) (\<lambda>df.
     rbind (BitMap_WriteBack (junk_bytes u) mf freeMap d2) (\<lambda>d3.
     rbind (Directory_WriteBack (junk_bytes u) (junk_pad u) df directory d3) (\<lambda>d4.
     Inr (\<lparr>freeMapFile = mf, directoryFile = df\<rparr>, d4))))))))))))))"

definition FileSystem_new :: "heap \<Rightarrow> bool \<Rightarrow> sectors \<Rightarrow> (FileSystem \<times> sectors) result" where
  "FileSystem_new u format d = (if format then format_disk u d
     else rbind (OpenFile_new FreeMapSector d) (\<lambda>mf. rbind (OpenFile_new DirectorySector d) (\<lambda>df.
       Inr (\<lparr>freeMapFile = mf, directoryFile = df\<rparr>, d))))"

definition fetch_directory :: "heap \<Rightarrow> FileSystem \<Rightarrow> sectors \<Rightarrow> Directory result" where
  "fetch_directory u fs d = Directory_FetchFrom (junk_bytes u) (junk_pad u) (directoryFile fs)
     (Directory_new NumDirEntries (junk_entries u)) d"

definition fetch_map :: "heap \<Rightarrow> FileSystem \<Rightarrow> sectors \<Rightarrow> bitmap result" where
  "fetch_map u fs d = rbind (BitMap_new NumSectors (junk_words u)) (\<lambda>b.
     BitMap_FetchFrom (junk_bytes u) (freeMapFile fs) b d)"

definition Create :: "heap \<Rightarrow> FileSystem \<Rightarrow> byte list \<Rightarrow> int \<Rightarrow> sectors \<Rightarrow> (bool \<times> sectors) result" where
  "Create u fs name initialSize d =
     rbind (fetch_directory u fs d) (\<lambda>directory.
     if Directory_Find name directory \<noteq> - 1 then Inr (False, d)
     else rbind (fetch_map u fs d) (\<lambda>freeMap.
       rbind (Find freeMap) (\<lambda>(sector, freeMap1).
       if sector = - 1 then Inr (False, d)
       else let (added, directory') = Directory_Add name sector directory in
         if \<not> added then Inr (False, d)
         else rbind (Allocate (junk_header u) freeMap1 initialSize) (\<lambda>(ok, h, freeMap2).
           if \<not> ok then Inr (False, d)
           else rbind (FileHeader_WriteBack sector h d) (\<lambda>d1.
             rbind (Directory_WriteBack (junk_bytes u) (junk_pad u) (directoryFile fs) directory' d1) (\<lambda>d2.
             rbind (BitMap_WriteBack (junk_bytes u) (freeMapFile fs) freeMap2 d2) (\<lambda>d3.
             Inr (True, d3))))))))"

definition Open :: "heap \<Rightarrow> FileSystem \<Rightarrow> byte list \<Rightarrow> sectors \<Rightarrow> OpenFile option result" where
  "Open u fs name d = rbind (fetch_directory u fs d) (\<lambda>directory.
     let sector = Directory_Find name directory in
     if sector \<ge> 0 then rbind (OpenFile_new sector d) (\<lambda>f. Inr (Some f)) else Inr None)"

definition FileSystem_Remove :: "heap \<Rightarrow> FileSystem \<Rightarrow> byte list \<Rightarrow> sectors \<Rightarrow> (bool \<times> sectors) result" where
  "FileSystem_Remove u fs name d = rbind (fetch_directory u fs d) (\<lambda>directory.
     let sector = Directory_Find name directory in
     if sector = - 1 then Inr (False, d)
     else rbind (FileHeader_FetchFrom sector d) (\<lambda>fileHdr.
       rbind (fetch_map u fs d) (\<lambda>freeMap.
       rbind (Deallocate fileHdr freeMap) (\<lambda>freeMap1.
       rbind (Clear sector freeMap1) (\<lambda>freeMap2.
       let directory' = snd (Directory_Remove name directory) in
       rbind (BitMap_WriteBack (junk_bytes u) (freeMapFile fs) freeMap2 d) (\<lambda>d1.
       rbind (Directory_WriteBack (junk_bytes u) (junk_pad u) (directoryFile fs) directory' d1) (\<lambda>d2.
       Inr (True, d2))))))))"

definition FileSystem_List :: "heap \<Rightarrow> FileSystem \<Rightarrow> sectors \<Rightarrow> byte list list result" where
  "FileSystem_List u fs d = rbind (fetch_directory u fs d) Directory_List"

section \<open>The bitmap in its file\<close>

lemma length_words_bytes [simp]: "length (words_bytes ws) = length ws * 4"
  by (induction ws) (simp_all add: words_bytes_def)

lemma length_bytes_words [simp]: "length (bytes_words bs) = length bs div 4"
  by (induction bs rule: bytes_words.induct) simp_all

lemma bytes_words_bytes: "bytes_words (words_bytes ws) = ws"
  by (induction ws) (simp_all add: words_bytes_def word_bytes_def bytes_word_def)

lemma BitMap_FetchFrom_ok:
  assumes "open_ok f d" "length (bit_words b) = numWords b" "0 < numWords b" "numWords b * 4 \<le> open_len f"
  shows "BitMap_FetchFrom junk f b d
    = Inr (b\<lparr>bit_words := bytes_words (take (numWords b * 4) (file_bytes (hdr f) d))\<rparr>)"
  using fil.fetch [OF assms(1), of "words_bytes (bit_words b)" junk] assms(2-4)
  by (simp add: BitMap_FetchFrom_def)

lemma BitMap_WriteBack_ok:
  assumes "open_ok f d" "length (bit_words b) = numWords b" "0 < numWords b" "numWords b * 4 \<le> open_len f"
  shows "\<exists>d'. BitMap_WriteBack junk f b d = Inr d' \<and> open_ok f d' \<and> open_frame f d d'
    \<and> bytes_words (take (numWords b * 4) (file_bytes (hdr f) d')) = bit_words b"
  using fil.store [OF assms(1), of "words_bytes (bit_words b)" junk] assms(2-4)
  by (auto simp: BitMap_WriteBack_def bytes_words_bytes)

section \<open>What the disk holds\<close>

definition header_at :: "sectors \<Rightarrow> int \<Rightarrow> FileHeader" where
  "header_at d sec = bytes_FileHeader (d (nat sec))"

definition fs_map :: "FileSystem \<Rightarrow> sectors \<Rightarrow> bitmap" where
  "fs_map fs d = \<lparr>numBits = NumSectors, numWords = divRoundUp NumSectors BitsInWord,
     bit_words = bytes_words (file_bytes (hdr (freeMapFile fs)) d)\<rparr>"

definition fs_dir :: "FileSystem \<Rightarrow> sectors \<Rightarrow> Directory" where
  "fs_dir fs d = \<lparr>tableSize = NumDirEntries,
     table = bytes_table NumDirEntries (file_bytes (hdr (directoryFile fs)) d)\<rparr>"

definition fs_index :: "FileSystem \<Rightarrow> sectors \<Rightarrow> byte list \<rightharpoonup> int" where
  "fs_index fs d = dir_map (table (fs_dir fs d))"

definition fs_files :: "FileSystem \<Rightarrow> sectors \<Rightarrow> byte list \<rightharpoonup> byte list" where
  "fs_files fs d k = map_option (\<lambda>sec. file_bytes (header_at d sec) d) (fs_index fs d k)"

definition sys_sectors :: "FileSystem \<Rightarrow> nat list" where
  "sys_sectors fs = [0, 1] @ file_sectors (hdr (freeMapFile fs)) @ file_sectors (hdr (directoryFile fs))"

definition owned :: "sectors \<Rightarrow> int \<Rightarrow> nat list" where
  "owned d sec = nat sec # file_sectors (header_at d sec)"

text \<open>
  Every file of the index has a header of its own and owns its sectors alone; \<open>M\<close> is the set of the
  sectors in use, \<open>sys\<close> those of the file system itself.
\<close>

definition owns_ok :: "nat set \<Rightarrow> (byte list \<rightharpoonup> int) \<Rightarrow> sectors \<Rightarrow> nat set \<Rightarrow> bool" where
  "owns_ok sys idx d M \<longleftrightarrow>
     (\<forall>k sec. idx k = Some sec \<longrightarrow> valid_sector sec \<and> file_ok (header_at d sec) \<and> distinct (owned d sec)
        \<and> set (owned d sec) \<inter> sys = {})
   \<and> (\<forall>k k' sec sec'. idx k = Some sec \<longrightarrow> idx k' = Some sec' \<longrightarrow> k \<noteq> k' \<longrightarrow>
        set (owned d sec) \<inter> set (owned d sec') = {})
   \<and> M = sys \<union> (\<Union>sec \<in> ran idx. set (owned d sec))"

definition fs_base :: "FileSystem \<Rightarrow> sectors \<Rightarrow> bool" where
  "fs_base fs d \<longleftrightarrow> disk_wf d \<and> distinct (sys_sectors fs)
   \<and> file_ok (hdr (freeMapFile fs)) \<and> hdr_numBytes (hdr (freeMapFile fs)) = int FreeMapFileSize
   \<and> file_ok (hdr (directoryFile fs)) \<and> hdr_numBytes (hdr (directoryFile fs)) = int DirectoryFileSize
   \<and> bytes_FileHeader (d 0) = hdr (freeMapFile fs) \<and> bytes_FileHeader (d 1) = hdr (directoryFile fs)"

definition fs_ok :: "FileSystem \<Rightarrow> sectors \<Rightarrow> bool" where
  "fs_ok fs d \<longleftrightarrow> fs_base fs d \<and> dir_ok (fs_dir fs d)
     \<and> owns_ok (set (sys_sectors fs)) (fs_index fs d) d (marked (fs_map fs d))"

definition heap_ok :: "heap \<Rightarrow> bool" where
  "heap_ok u \<longleftrightarrow> divRoundUp NumSectors BitsInWord \<le> length (junk_words u)
     \<and> NumDirEntries \<le> length (junk_entries u) \<and> (\<forall>e \<in> set (junk_entries u). entry_typed e)
     \<and> header_typed (junk_header u)"

lemmas fs_sizes = FreeMapFileSize_def DirectoryFileSize_def NumDirEntries_def NumSectors_def SectorsPerTrack_def
  NumTracks_def BitsInByte_def BitsInWord_def sizeof_DirectoryEntry_def divRoundUp_def

lemma fs_base_files:
  assumes "fs_base fs d"
  shows "open_ok (freeMapFile fs) d" "open_ok (directoryFile fs) d"
    "open_len (freeMapFile fs) = 128" "open_len (directoryFile fs) = 200"
  using assms by (simp_all add: fs_base_def open_ok_def open_len_def fs_sizes)

lemma bm_wf_fs_map:
  assumes "fs_base fs d"
  shows "bm_wf (fs_map fs d)" "numBits (fs_map fs d) = NumSectors"
proof -
  have "length (file_bytes (hdr (freeMapFile fs)) d) = 128"
    using fs_base_files [OF assms] fil.cont_len [of "freeMapFile fs" d] by simp
  then show "bm_wf (fs_map fs d)" by (simp add: bm_wf_def fs_map_def fs_sizes)
qed (simp add: fs_map_def)

lemma fetch_map_ok:
  assumes "fs_base fs d" "heap_ok u"
  shows "fetch_map u fs d = Inr (fs_map fs d)"
proof -
  obtain b where b: "BitMap_new NumSectors (junk_words u) = Inr b" "bm_wf b" "numBits b = NumSectors"
    using BitMap_new_spec [of NumSectors "junk_words u"] assms(2) by (auto simp: heap_ok_def)
  have w: "numWords b = 32" "length (bit_words b) = numWords b"
    using b(2,3) by (simp_all add: bm_wf_def fs_sizes)
  have "length (file_bytes (hdr (freeMapFile fs)) d) = 128"
    using fs_base_files [OF assms(1)] fil.cont_len [of "freeMapFile fs" d] by simp
  with BitMap_FetchFrom_ok [OF fs_base_files(1) [OF assms(1)] w(2), of "junk_bytes u"] w b
    fs_base_files(3) [OF assms(1)]
  show ?thesis by (simp add: fetch_map_def fs_map_def) (simp add: fs_sizes)
qed

lemma fetch_directory_ok:
  assumes "fs_base fs d" "heap_ok u"
  shows "fetch_directory u fs d = Inr (fs_dir fs d)"
proof -
  let ?dir = "Directory_new NumDirEntries (junk_entries u)"
  have "length (table ?dir) = tableSize ?dir" "\<forall>e \<in> set (table ?dir). entry_typed e" "tableSize ?dir = 10"
    using assms(2) by (auto simp: Directory_new_def heap_ok_def NumDirEntries_def entry_typed_def dest!: in_set_takeD)
  with Directory_FetchFrom_ok [OF fs_base_files(2) [OF assms(1)], of ?dir "junk_bytes u" "junk_pad u"]
    fs_base_files(4) [OF assms(1)]
  show ?thesis by (simp add: fetch_directory_def fs_dir_def sizeof_DirectoryEntry_def)
    (simp add: Directory_new_def NumDirEntries_def)
qed

lemma fs_base_frame:
  assumes "fs_base fs d" "disk_wf d'" "d' 0 = d 0" "d' 1 = d 1"
  shows "fs_base fs d'"
  using assms by (simp add: fs_base_def)

lemma same_outside_trans: "same_outside A d d' \<Longrightarrow> same_outside A d' d'' \<Longrightarrow> same_outside A d d''"
  by (simp add: same_outside_def)

lemma same_outside_mono: "same_outside A d d' \<Longrightarrow> A \<subseteq> B \<Longrightarrow> same_outside B d d'"
  by (auto simp: same_outside_def)

lemma fs_view_cong:
  assumes "\<And>s. s \<in> set (sys_sectors fs) \<Longrightarrow> d' s = d s"
  shows "fs_map fs d' = fs_map fs d" "fs_dir fs d' = fs_dir fs d"
  using assms file_bytes_cong [of "hdr (freeMapFile fs)" d' d] file_bytes_cong [of "hdr (directoryFile fs)" d' d]
  by (simp_all add: fs_map_def fs_dir_def sys_sectors_def)

text \<open>A write to one of the two system files keeps the other and both headers.\<close>

lemma sys_write:
  assumes "fs_base fs d" "open_ok f d'" "open_frame f d d'"
  shows "f = freeMapFile fs \<Longrightarrow> fs_base fs d' \<and> fs_dir fs d' = fs_dir fs d \<and> same_outside (set (sys_sectors fs)) d d'"
    "f = directoryFile fs \<Longrightarrow> fs_base fs d' \<and> fs_map fs d' = fs_map fs d \<and> same_outside (set (sys_sectors fs)) d d'"
proof -
  have dis: "distinct (sys_sectors fs)" using assms(1) by (simp add: fs_base_def)
  have wf: "disk_wf d'" using assms(2) by (simp add: open_ok_def)
  have fr: "\<And>s. s \<notin> set (file_sectors (hdr f)) \<Longrightarrow> d' s = d s"
    using assms(3) by (simp add: open_frame_def same_outside_def)
  { assume f: "f = freeMapFile fs \<or> f = directoryFile fs"
    then have "0 \<notin> set (file_sectors (hdr f))" "1 \<notin> set (file_sectors (hdr f))"
      using dis by (auto simp: sys_sectors_def)
    then have "fs_base fs d'" using fs_base_frame [OF assms(1) wf] fr by simp
    moreover have "set (file_sectors (hdr f)) \<subseteq> set (sys_sectors fs)" using f by (auto simp: sys_sectors_def)
    then have "same_outside (set (sys_sectors fs)) d d'"
      using assms(3) unfolding open_frame_def by (rule same_outside_mono [rotated])
    ultimately have "fs_base fs d' \<and> same_outside (set (sys_sectors fs)) d d'" .. }
  note base = this
  have "file_bytes (hdr (directoryFile fs)) d' = file_bytes (hdr (directoryFile fs)) d" if "f = freeMapFile fs"
    using that dis fr by (intro file_bytes_cong) (auto simp: sys_sectors_def)
  with base show "f = freeMapFile fs \<Longrightarrow> fs_base fs d' \<and> fs_dir fs d' = fs_dir fs d
      \<and> same_outside (set (sys_sectors fs)) d d'" by (simp add: fs_dir_def)
  have "file_bytes (hdr (freeMapFile fs)) d' = file_bytes (hdr (freeMapFile fs)) d" if "f = directoryFile fs"
    using that dis fr by (intro file_bytes_cong) (auto simp: sys_sectors_def)
  with base show "f = directoryFile fs \<Longrightarrow> fs_base fs d' \<and> fs_map fs d' = fs_map fs d
      \<and> same_outside (set (sys_sectors fs)) d d'" by (simp add: fs_map_def)
qed

lemma write_map:
  assumes "fs_base fs d" "bm_wf b" "numBits b = NumSectors"
  shows "\<exists>d'. BitMap_WriteBack junk (freeMapFile fs) b d = Inr d' \<and> fs_base fs d' \<and> fs_map fs d' = b
    \<and> fs_dir fs d' = fs_dir fs d \<and> same_outside (set (sys_sectors fs)) d d'"
proof -
  have w: "length (bit_words b) = numWords b" "numWords b = 32" using assms(2,3) by (simp_all add: bm_wf_def fs_sizes)
  obtain d' where d': "BitMap_WriteBack junk (freeMapFile fs) b d = Inr d'" "open_ok (freeMapFile fs) d'"
    "open_frame (freeMapFile fs) d d'" "bytes_words (take 128 (file_bytes (hdr (freeMapFile fs)) d')) = bit_words b"
    using BitMap_WriteBack_ok [OF fs_base_files(1) [OF assms(1)] w(1), of junk] w fs_base_files(3) [OF assms(1)]
    by auto
  have base: "fs_base fs d' \<and> fs_dir fs d' = fs_dir fs d \<and> same_outside (set (sys_sectors fs)) d d'"
    using sys_write(1) [OF assms(1) d'(2,3) refl] .
  then have "length (file_bytes (hdr (freeMapFile fs)) d') = 128"
    using fs_base_files [of fs d'] fil.cont_len [of "freeMapFile fs" d'] by simp
  then have "fs_map fs d' = b"
    using d'(4) assms(3) w by (simp add: fs_map_def) (simp add: fs_sizes)
  with d'(1) base show ?thesis by blast
qed

lemma write_dir:
  assumes "fs_base fs d" "dir_ok dir" "tableSize dir = NumDirEntries"
  shows "\<exists>d'. Directory_WriteBack junk pad (directoryFile fs) dir d = Inr d' \<and> fs_base fs d'
    \<and> fs_dir fs d' = dir \<and> fs_map fs d' = fs_map fs d \<and> same_outside (set (sys_sectors fs)) d d'"
proof -
  obtain d' where d': "Directory_WriteBack junk pad (directoryFile fs) dir d = Inr d'"
    "open_ok (directoryFile fs) d'" "open_frame (directoryFile fs) d d'"
    "bytes_table NumDirEntries (file_bytes (hdr (directoryFile fs)) d') = table dir"
    using Directory_WriteBack_ok [OF fs_base_files(2) [OF assms(1)] assms(2), of junk pad] assms(3)
      fs_base_files(4) [OF assms(1)] by (auto simp: NumDirEntries_def sizeof_DirectoryEntry_def)
  have "fs_dir fs d' = dir" using d'(4) assms(3) by (simp add: fs_dir_def)
  with d'(1) sys_write(2) [OF assms(1) d'(2,3) refl] show ?thesis by blast
qed

section \<open>Ownership of sectors\<close>

lemma owned_cong: "d' (nat sec) = d (nat sec) \<Longrightarrow> header_at d' sec = header_at d sec \<and> owned d' sec = owned d sec"
  by (simp add: owned_def header_at_def)

lemma owns_ok_facts:
  assumes "owns_ok sys idx d M" "idx k = Some sec"
  shows "valid_sector sec" "file_ok (header_at d sec)" "distinct (owned d sec)"
    "set (owned d sec) \<inter> sys = {}" "set (owned d sec) \<subseteq> M" "sys \<subseteq> M"
  using assms by (auto simp: owns_ok_def ran_def)

lemma owns_ok_disjoint:
  "owns_ok sys idx d M \<Longrightarrow> idx k = Some sec \<Longrightarrow> idx k' = Some sec' \<Longrightarrow> k \<noteq> k' \<Longrightarrow>
   set (owned d sec) \<inter> set (owned d sec') = {}"
  unfolding owns_ok_def by blast

lemma owns_ok_cong:
  assumes "owns_ok sys idx d M" "\<And>k sec. idx k = Some sec \<Longrightarrow> d' (nat sec) = d (nat sec)"
  shows "owns_ok sys idx d' M"
proof -
  have eq: "header_at d' sec = header_at d sec \<and> owned d' sec = owned d sec" if "idx k = Some sec" for k sec
    using assms(2) [OF that] by (rule owned_cong)
  have "(\<Union>sec \<in> ran idx. set (owned d' sec)) = (\<Union>sec \<in> ran idx. set (owned d sec))"
    by (rule SUP_cong) (auto simp: ran_def eq)
  then show ?thesis using assms(1) eq unfolding owns_ok_def by simp
qed

lemma owns_ok_add:
  assumes "owns_ok sys idx d M" "idx k = None" "header_at d (int s) = h" "s < NumSectors" "file_ok h"
    "s \<notin> M" "s \<notin> set (file_sectors h)" "set (file_sectors h) \<inter> M = {}"
  shows "owns_ok sys (idx(k \<mapsto> int s)) d (M \<union> insert s (set (file_sectors h)))"
proof -
  have new: "owned d (int s) = s # file_sectors h" using assms(3) by (simp add: owned_def)
  have sys: "sys \<subseteq> M" using assms(1) by (auto simp: owns_ok_def)
  have old: "set (owned d sec) \<subseteq> M" if "idx k' = Some sec" for k' sec using owns_ok_facts(5) [OF assms(1) that] .
  have dj: "insert s (set (file_sectors h)) \<inter> M = {}" using assms(6,8) by blast
  have U: "(\<Union>sec \<in> ran (idx(k \<mapsto> int s)). set (owned d sec)) = insert s (set (file_sectors h)) \<union> (\<Union>sec \<in> ran idx. set (owned d sec))"
    using assms(2) new by simp
  have "valid_sector sec \<and> file_ok (header_at d sec) \<and> distinct (owned d sec) \<and> set (owned d sec) \<inter> sys = {}"
    if "(idx(k \<mapsto> int s)) k' = Some sec" for k' sec
  proof (cases "k' = k")
    case True
    then show ?thesis using that new assms(3-5,7) dj sys file_ok_facts(4) [OF assms(5)] by auto
  next
    case False
    then show ?thesis using that owns_ok_facts(1-4) [OF assms(1)] by simp
  qed
  moreover have "set (owned d sec) \<inter> set (owned d sec') = {}"
    if "(idx(k \<mapsto> int s)) k1 = Some sec" "(idx(k \<mapsto> int s)) k2 = Some sec'" "k1 \<noteq> k2" for k1 k2 sec sec'
  proof (cases "k1 = k \<or> k2 = k")
    case True
    then show ?thesis using that new dj old by (auto split: if_splits)
  next
    case False
    then show ?thesis using that owns_ok_disjoint [OF assms(1)] by simp
  qed
  moreover have "M = sys \<union> (\<Union>sec \<in> ran idx. set (owned d sec))" using assms(1) by (simp add: owns_ok_def)
  ultimately show ?thesis unfolding owns_ok_def U by blast
qed

lemma owns_ok_delete:
  assumes "owns_ok sys idx d M" "idx k = Some sec"
  shows "owns_ok sys (idx(k := None)) d (M - set (owned d sec))"
proof -
  have "set (owned d sec') \<inter> set (owned d sec) = {}" if "idx k' = Some sec'" "k' \<noteq> k" for k' sec'
    using owns_ok_disjoint [OF assms(1) that(1) assms(2) that(2)] .
  moreover have "sys \<inter> set (owned d sec) = {}" using owns_ok_facts(4) [OF assms] by blast
  moreover have "M = sys \<union> (\<Union>sec \<in> ran idx. set (owned d sec))" using assms(1) by (simp add: owns_ok_def)
  ultimately have "M - set (owned d sec) = sys \<union> (\<Union>sec \<in> ran (idx(k := None)). set (owned d sec))"
    using assms(2) by (auto simp: ran_def split: if_splits) (metis option.inject)
  then show ?thesis using assms(1) unfolding owns_ok_def by (simp split: if_splits)
qed

section \<open>Creating, opening and removing files\<close>

lemma file_view_cong:
  assumes "\<And>x. x \<in> set (owned d sec) \<Longrightarrow> d' x = d x"
  shows "header_at d' sec = header_at d sec" "file_bytes (header_at d' sec) d' = file_bytes (header_at d sec) d"
proof -
  show h: "header_at d' sec = header_at d sec" using assms [of "nat sec"] by (simp add: header_at_def owned_def)
  show "file_bytes (header_at d' sec) d' = file_bytes (header_at d sec) d"
    unfolding h by (rule file_bytes_cong) (simp add: assms owned_def)
qed

lemma fs_files_frame:
  assumes "fs_index fs d' k = fs_index fs d k"
    "\<And>sec x. fs_index fs d k = Some sec \<Longrightarrow> x \<in> set (owned d sec) \<Longrightarrow> d' x = d x"
  shows "fs_files fs d' k = fs_files fs d k"
  unfolding fs_files_def assms(1)
  by (rule option.map_cong0) (rule file_view_cong(2), auto intro: assms(2))

lemma fs_ok_facts:
  assumes "fs_ok fs d"
  shows "fs_base fs d" "dir_ok (fs_dir fs d)" "tableSize (fs_dir fs d) = NumDirEntries"
    "owns_ok (set (sys_sectors fs)) (fs_index fs d) d (marked (fs_map fs d))" "disk_wf d"
    "set (sys_sectors fs) \<subseteq> marked (fs_map fs d)"
  using assms by (auto simp: fs_ok_def fs_dir_def fs_base_def owns_ok_def)

lemma Find_fs_dir:
  assumes "fs_ok fs d"
  shows "Directory_Find name (fs_dir fs d) = (case fs_index fs d (name_key name) of None \<Rightarrow> - 1 | Some s \<Rightarrow> s)"
    "fs_index fs d k = Some s \<Longrightarrow> 0 \<le> s"
  using dirt.find_law [of name "fs_dir fs d"] owns_ok_facts(1) [OF fs_ok_facts(4) [OF assms]]
  by (auto simp: fs_index_def valid_sector_def)

lemma Create_fails:
  assumes "fs_ok fs d" "heap_ok u" "0 \<le> sz"
    "\<not> (fs_index fs d (name_key name) = None \<and> has_room (fs_dir fs d)
        \<and> divRoundUp (nat sz) SectorSize < NumSectors - card (marked (fs_map fs d)))"
  shows "Create u fs name sz d = Inr (False, d)"
proof (cases "fs_index fs d (name_key name)")
  case (Some s)
  then show ?thesis
    using Find_fs_dir [OF assms(1)] fetch_directory_ok [OF fs_ok_facts(1) [OF assms(1)] assms(2)]
    by (fastforce simp: Create_def)
next
  case None
  let ?b = "fs_map fs d" and ?dir = "fs_dir fs d"
  note F = fs_ok_facts [OF assms(1)] and B = bm_wf_fs_map [OF fs_ok_facts(1) [OF assms(1)]]
  note start = fetch_directory_ok [OF F(1) assms(2)] fetch_map_ok [OF F(1) assms(2)] Find_fs_dir(1) [OF assms(1)]
  show ?thesis
  proof (cases "marked ?b = {..<numBits ?b}")
    case True
    then show ?thesis using None start bm.find_full [OF B(1)] by (simp add: Create_def)
  next
    case False
    from bm.find_free [OF B(1) this] obtain i b1 where f: "Find ?b = Inr (int i, b1)" "bm_wf b1"
      "numBits b1 = NumSectors" "i < NumSectors" "i \<notin> marked ?b" "marked b1 = insert i (marked ?b)"
      using B(2) by auto
    have iok: "int_ok (int i)" using f(4) by (simp add: int_ok_def fs_sizes)
    show ?thesis
    proof (cases "has_room ?dir")
      case False
      then have "Directory_Add name (int i) ?dir = (False, ?dir)"
        using dirt.add_law [OF F(2) _ iok, of name] None by (simp add: fs_index_def)
      then show ?thesis using None start f(1) by (simp add: Create_def)
    next
      case True
      then obtain dir' where "Directory_Add name (int i) ?dir = (True, dir')"
        using dirt.add_law [OF F(2) _ iok, of name] None by (auto simp: fs_index_def)
      moreover have "card (marked ?b) < NumSectors"
        using \<open>marked ?b \<noteq> _\<close> B(2) marked_subset [of ?b] psubset_card_mono [of "{..<NumSectors}" "marked ?b"] by auto
      then have "numBits b1 - card (marked b1) < divRoundUp (nat sz) SectorSize"
        using assms(4) None True f bm.finite_used [of ?b] by (simp add: not_less)
      from Allocate_no_space [OF f(2) assms(3) this] obtain h where
        "Allocate (junk_header u) b1 sz = Inr (False, h, b1)" by blast
      ultimately show ?thesis using None start f(1) by (simp add: Create_def)
    qed
  qed
qed

lemma Create_succeeds:
  assumes "fs_ok fs d" "heap_ok u" "0 \<le> sz" "sz \<le> int MaxFileSize" "fs_index fs d (name_key name) = None"
    "has_room (fs_dir fs d)" "divRoundUp (nat sz) SectorSize < NumSectors - card (marked (fs_map fs d))"
  shows "\<exists>i h d'. Create u fs name sz d = Inr (True, d') \<and> i < NumSectors
    \<and> i \<notin> marked (fs_map fs d) \<and> file_ok h \<and> hdr_numBytes h = sz
    \<and> set (file_sectors h) \<inter> insert i (marked (fs_map fs d)) = {}
    \<and> fs_base fs d' \<and> same_outside (set (sys_sectors fs)) (d(i := FileHeader_bytes h)) d'
    \<and> dir_ok (fs_dir fs d') \<and> fs_index fs d' = (fs_index fs d)(name_key name \<mapsto> int i)
    \<and> marked (fs_map fs d') = marked (fs_map fs d) \<union> insert i (set (file_sectors h))"
proof -
  let ?b = "fs_map fs d" and ?dir = "fs_dir fs d" and ?k = "name_key name"
  note F = fs_ok_facts [OF assms(1)] and B = bm_wf_fs_map [OF fs_ok_facts(1) [OF assms(1)]]
  have "marked ?b \<noteq> {..<numBits ?b}" using assms(7) B(2) by (metis card_lessThan diff_self_eq_0 not_less_zero)
  from bm.find_free [OF B(1) this] obtain i b1 where f: "Find ?b = Inr (int i, b1)" "bm_wf b1"
    "numBits b1 = NumSectors" "i < NumSectors" "i \<notin> marked ?b" "marked b1 = insert i (marked ?b)"
    using B(2) by auto
  have "int_ok (int i)" using f(4) by (simp add: int_ok_def fs_sizes)
  then obtain dir' where a: "Directory_Add name (int i) ?dir = (True, dir')" "dir_ok dir'"
    "tableSize dir' = NumDirEntries" "dir_map (table dir') = (fs_index fs d)(?k \<mapsto> int i)"
    using Directory_Add_map [OF F(2), of name] assms(5,6) F(3) by (auto simp: fs_index_def)
  have "divRoundUp (nat sz) SectorSize \<le> NumSectors - card (marked b1)"
    using assms(7) f(5,6) bm.finite_used [of ?b] by simp
  from Allocate_ok [OF f(2,3) _ assms(3,4) this, of "junk_header u"] assms(2) obtain h b2 where
    h: "Allocate (junk_header u) b1 sz = Inr (True, h, b2)" "file_ok h" "hdr_numBytes h = sz" "bm_wf b2"
      "numBits b2 = NumSectors" "set (file_sectors h) \<inter> marked b1 = {}" "marked b2 = marked b1 \<union> set (file_sectors h)"
    by (auto simp: heap_ok_def)
  have hb: "length (FileHeader_bytes h) = SectorSize"
    using FileHeader_round_trip(2) h(2) by (auto simp: file_ok_def)
  define d1 where "d1 = d(i := FileHeader_bytes h)"
  have w1: "FileHeader_WriteBack (int i) h d = Inr d1"
    using f(4) hb by (simp add: FileHeader_WriteBack_def WriteSector_def d1_def)
  have "0 \<in> marked ?b" "1 \<in> marked ?b" using F(6) by (auto simp: sys_sectors_def)
  then have "i \<noteq> 0" "i \<noteq> 1" using f(5) by metis+
  then have base1: "fs_base fs d1"
    using F(1,5) hb by (intro fs_base_frame [OF F(1)] disk_wf_upd) (simp_all add: d1_def disk_wf_upd)
  obtain d2 where d2: "Directory_WriteBack (junk_bytes u) (junk_pad u) (directoryFile fs) dir' d1 = Inr d2"
    "fs_base fs d2" "fs_dir fs d2 = dir'" "same_outside (set (sys_sectors fs)) d1 d2"
    using write_dir [OF base1 a(2,3)] by blast
  obtain d' where d': "BitMap_WriteBack (junk_bytes u) (freeMapFile fs) b2 d2 = Inr d'" "fs_base fs d'"
    "fs_map fs d' = b2" "fs_dir fs d' = dir'" "same_outside (set (sys_sectors fs)) d2 d'"
    using write_map [OF d2(2) h(4,5)] d2(3) by auto
  have "Create u fs name sz d = Inr (True, d')"
    using fetch_directory_ok [OF F(1) assms(2)] fetch_map_ok [OF F(1) assms(2)] Find_fs_dir(1) [OF assms(1), of name]
      assms(5) f(1) a(1) h(1) w1 d2(1) d'(1) by (simp add: Create_def)
  with f h a d' same_outside_trans [OF d2(4) d'(5)] show ?thesis
    by (intro exI [where x = i] exI [where x = h] exI [where x = d']) (auto simp: d1_def fs_index_def)
qed

lemma Create_too_long:
  assumes "fs_ok fs d" "heap_ok u" "int MaxFileSize < sz" "fs_index fs d (name_key name) = None"
    "has_room (fs_dir fs d)" "divRoundUp (nat sz) SectorSize < NumSectors - card (marked (fs_map fs d))"
  shows "Create u fs name sz d = Inl Bad_Index"
proof -
  let ?b = "fs_map fs d" and ?dir = "fs_dir fs d"
  note F = fs_ok_facts [OF assms(1)] and B = bm_wf_fs_map [OF fs_ok_facts(1) [OF assms(1)]]
  have "marked ?b \<noteq> {..<numBits ?b}" using assms(6) B(2) by (metis card_lessThan diff_self_eq_0 not_less_zero)
  from bm.find_free [OF B(1) this] obtain i b1 where f: "Find ?b = Inr (int i, b1)" "bm_wf b1"
    "numBits b1 = NumSectors" "i < NumSectors" "i \<notin> marked ?b" "marked b1 = insert i (marked ?b)"
    using B(2) by auto
  have "int_ok (int i)" using f(4) by (simp add: int_ok_def fs_sizes)
  then obtain dir' where a: "Directory_Add name (int i) ?dir = (True, dir')"
    using dirt.add_law [OF F(2), of name] assms(4,5) by (auto simp: fs_index_def)
  have "Allocate (junk_header u) b1 sz = Inl Bad_Index"
    using assms(2,3,6) f(3,5,6) bm.finite_used [of ?b]
    by (intro Allocate_too_long [OF f(2)]) (simp_all add: heap_ok_def)
  then show ?thesis
    using fetch_directory_ok [OF F(1) assms(2)] fetch_map_ok [OF F(1) assms(2)] Find_fs_dir(1) [OF assms(1), of name]
      assms(4) f(1) a by (simp add: Create_def)
qed

lemma Create_keeps:
  assumes ok: "fs_ok fs d" and new: "i < NumSectors" "i \<notin> marked (fs_map fs d)" "file_ok h"
      "set (file_sectors h) \<inter> insert i (marked (fs_map fs d)) = {}" "fs_index fs d k = None"
    and d': "fs_base fs d'" "same_outside (set (sys_sectors fs)) (d(i := FileHeader_bytes h)) d'"
      "dir_ok (fs_dir fs d')" "fs_index fs d' = (fs_index fs d)(k \<mapsto> int i)"
      "marked (fs_map fs d') = marked (fs_map fs d) \<union> insert i (set (file_sectors h))"
  shows "fs_ok fs d'" "fs_files fs d' = (fs_files fs d)(k \<mapsto> file_bytes h d')"
proof -
  note F = fs_ok_facts [OF ok] and O = owns_ok_facts [OF fs_ok_facts(4) [OF ok]]
  have fr: "d' x = d x" if "x \<notin> set (sys_sectors fs)" "x \<noteq> i" for x
    using d'(2) that by (simp add: same_outside_def)
  have "i \<notin> set (sys_sectors fs)" using F(6) new(2) by blast
  then have "d' i = FileHeader_bytes h" using d'(2) by (simp add: same_outside_def)
  then have hdr_i: "header_at d' (int i) = h"
    using FileHeader_round_trip(1) new(3) by (auto simp: header_at_def file_ok_def)
  have keep: "d' x = d x" if "fs_index fs d k' = Some sec" "x \<in> set (owned d sec)" for k' sec x
    using O(4,5) [OF that(1)] that(2) new(2) by (intro fr) auto
  have "owns_ok (set (sys_sectors fs)) (fs_index fs d) d' (marked (fs_map fs d))"
    by (rule owns_ok_cong [OF F(4)]) (rule keep, assumption, simp add: owned_def)
  then have "owns_ok (set (sys_sectors fs)) (fs_index fs d') d' (marked (fs_map fs d'))"
    unfolding d'(4,5) using new hdr_i by (intro owns_ok_add) auto
  with d'(1,3) show "fs_ok fs d'" by (simp add: fs_ok_def)
  have "fs_files fs d' k' = fs_files fs d k'" if "k' \<noteq> k" for k'
    using that keep by (intro fs_files_frame) (auto simp: d'(4))
  moreover have "fs_files fs d' k = Some (file_bytes h d')" using hdr_i by (simp add: fs_files_def d'(4))
  ultimately show "fs_files fs d' = (fs_files fs d)(k \<mapsto> file_bytes h d')" by auto
qed

lemma FileHeader_FetchFrom_ok:
  "valid_sector sec \<Longrightarrow> FileHeader_FetchFrom sec d = Inr (header_at d sec)"
  by (simp add: FileHeader_FetchFrom_def ReadSector_def header_at_def)

lemma Open_ok:
  assumes "fs_ok fs d" "heap_ok u"
  shows "Open u fs name d = Inr (map_option (\<lambda>sec. \<lparr>hdr = header_at d sec, seekPosition = 0\<rparr>)
    (fs_index fs d (name_key name)))"
proof (cases "fs_index fs d (name_key name)")
  case None
  then show ?thesis
    using fetch_directory_ok [OF fs_ok_facts(1) [OF assms(1)] assms(2)] Find_fs_dir(1) [OF assms(1), of name]
    by (simp add: Open_def)
next
  case (Some sec)
  then show ?thesis
    using fetch_directory_ok [OF fs_ok_facts(1) [OF assms(1)] assms(2)] Find_fs_dir [OF assms(1)]
      FileHeader_FetchFrom_ok [OF owns_ok_facts(1) [OF fs_ok_facts(4) [OF assms(1)] Some], of d]
    by (simp add: Open_def OpenFile_new_def)
qed

lemma Remove_ok:
  assumes "fs_ok fs d" "heap_ok u" "fs_index fs d (name_key name) = Some sec"
  shows "\<exists>d'. FileSystem_Remove u fs name d = Inr (True, d') \<and> fs_base fs d' \<and> dir_ok (fs_dir fs d')
    \<and> same_outside (set (sys_sectors fs)) d d' \<and> fs_index fs d' = (fs_index fs d)(name_key name := None)
    \<and> marked (fs_map fs d') = marked (fs_map fs d) - set (owned d sec)"
proof -
  let ?b = "fs_map fs d" and ?h = "header_at d sec"
  note F = fs_ok_facts [OF assms(1)] and B = bm_wf_fs_map [OF fs_ok_facts(1) [OF assms(1)]]
  note O = owns_ok_facts [OF F(4) assms(3)]
  have "set (file_sectors ?h) \<subseteq> marked ?b" using O(5) by (simp add: owned_def)
  then obtain b1 where b1: "Deallocate ?h ?b = Inr b1" "bm_wf b1" "numBits b1 = NumSectors"
    "marked b1 = marked ?b - set (file_sectors ?h)" using Deallocate_ok [OF B(1) O(2)] B(2) by auto
  have "sec = int (nat sec)" "nat sec < NumSectors" using O(1) by (auto simp: valid_sector_def)
  then obtain b2 where b2: "Clear sec b1 = Inr b2" "bm_wf b2" "numBits b2 = NumSectors"
    "marked b2 = marked ?b - set (owned d sec)"
    using bm.free_law [OF b1(2), of "nat sec"] b1(3,4) by (auto simp: owned_def)
  obtain dir' where r: "Directory_Remove name (fs_dir fs d) = (True, dir')" "dir_ok dir'"
    "tableSize dir' = NumDirEntries" "dir_map (table dir') = (fs_index fs d)(name_key name := None)"
    using Directory_Remove_map [OF F(2), of name sec] assms(3) F(3) by (auto simp: fs_index_def)
  obtain d1 where d1: "BitMap_WriteBack (junk_bytes u) (freeMapFile fs) b2 d = Inr d1" "fs_base fs d1"
    "fs_map fs d1 = b2" "same_outside (set (sys_sectors fs)) d d1"
    using write_map [OF F(1) b2(2,3)] by blast
  obtain d' where d': "Directory_WriteBack (junk_bytes u) (junk_pad u) (directoryFile fs) dir' d1 = Inr d'"
    "fs_base fs d'" "fs_dir fs d' = dir'" "fs_map fs d' = b2" "same_outside (set (sys_sectors fs)) d1 d'"
    using write_dir [OF d1(2) r(2,3)] d1(3) by auto
  have "sec \<noteq> - 1" using O(1) by (auto simp: valid_sector_def)
  then have "FileSystem_Remove u fs name d = Inr (True, d')"
    using fetch_directory_ok [OF F(1) assms(2)] fetch_map_ok [OF F(1) assms(2)] Find_fs_dir(1) [OF assms(1), of name]
      assms(3) FileHeader_FetchFrom_ok [OF O(1)] b1(1) b2(1) r(1) d1(1) d'(1)
    by (simp add: FileSystem_Remove_def)
  with d' r b2 same_outside_trans [OF d1(4) d'(5)] show ?thesis by (auto simp: fs_index_def)
qed

lemma Remove_keeps:
  assumes ok: "fs_ok fs d" and sec: "fs_index fs d k = Some sec"
    and d': "fs_base fs d'" "dir_ok (fs_dir fs d')" "same_outside (set (sys_sectors fs)) d d'"
      "fs_index fs d' = (fs_index fs d)(k := None)"
      "marked (fs_map fs d') = marked (fs_map fs d) - set (owned d sec)"
  shows "fs_ok fs d'" "fs_files fs d' = (fs_files fs d)(k := None)"
proof -
  note F = fs_ok_facts [OF ok]
  have keep: "d' x = d x" if "fs_index fs d k' = Some sec'" "x \<in> set (owned d sec')" for k' sec' x
    using owns_ok_facts(4) [OF F(4) that(1)] that(2) d'(3) by (auto simp: same_outside_def)
  then have "owns_ok (set (sys_sectors fs)) (fs_index fs d) d' (marked (fs_map fs d))"
    by (intro owns_ok_cong [OF F(4)]) (auto simp: owned_def)
  moreover have "owned d' sec = owned d sec"
    using owned_cong [of d' sec d] keep [OF sec] by (simp add: owned_def)
  ultimately show "fs_ok fs d'"
    using owns_ok_delete [of _ "fs_index fs d" d' _ k sec] sec d' by (simp add: fs_ok_def)
  have "fs_files fs d' k' = fs_files fs d k'" if "k' \<noteq> k" for k'
    using that keep by (intro fs_files_frame) (auto simp: d'(4))
  moreover have "fs_files fs d' k = None" by (simp add: fs_files_def d'(4))
  ultimately show "fs_files fs d' = (fs_files fs d)(k := None)" by auto
qed

lemma write_through:
  assumes ok: "fs_ok fs d" and sec: "fs_index fs d k = Some sec"
    and d': "disk_wf d'" "same_outside (set (file_sectors (header_at d sec))) d d'"
  shows "fs_ok fs d'" "fs_files fs d' = (fs_files fs d)(k \<mapsto> file_bytes (header_at d sec) d')"
proof -
  let ?A = "set (file_sectors (header_at d sec))"
  note F = fs_ok_facts [OF ok] and O = owns_ok_facts [OF fs_ok_facts(4) [OF ok] sec]
  have fr: "d' x = d x" if "x \<notin> ?A" for x using d'(2) that by (simp add: same_outside_def)
  have sys: "d' s = d s" if "s \<in> set (sys_sectors fs)" for s
    using that O(4) by (intro fr) (auto simp: owned_def)
  have views: "fs_map fs d' = fs_map fs d" "fs_dir fs d' = fs_dir fs d" using fs_view_cong sys by blast+
  then have idx: "fs_index fs d' = fs_index fs d" by (simp add: fs_index_def)
  have base: "fs_base fs d'" using sys by (intro fs_base_frame [OF F(1) d'(1)]) (simp_all add: sys_sectors_def)
  have other: "d' x = d x" if "fs_index fs d k' = Some sec'" "k' \<noteq> k" "x \<in> set (owned d sec')" for k' sec' x
    using owns_ok_disjoint [OF F(4) that(1) sec that(2)] that(3) by (intro fr) (auto simp: owned_def)
  have own: "d' (nat sec) = d (nat sec)" using O(3) by (intro fr) (simp add: owned_def)
  have "d' (nat sec') = d (nat sec')" if "fs_index fs d k' = Some sec'" for k' sec'
    using other [OF that] own that sec by (cases "k' = k") (auto simp: owned_def)
  then have "owns_ok (set (sys_sectors fs)) (fs_index fs d) d' (marked (fs_map fs d))"
    by (rule owns_ok_cong [OF F(4)])
  with base F(2) show "fs_ok fs d'" by (simp add: fs_ok_def views idx)
  have "fs_files fs d' k' = fs_files fs d k'" if "k' \<noteq> k" for k'
    using that other by (intro fs_files_frame) (auto simp: idx)
  moreover have "fs_files fs d' k = Some (file_bytes (header_at d sec) d')"
    using own sec by (simp add: fs_files_def header_at_def idx)
  ultimately show "fs_files fs d' = (fs_files fs d)(k \<mapsto> file_bytes (header_at d sec) d')" by auto
qed

section \<open>Formatting and mounting\<close>

lemma new_directory_ok:
  assumes "heap_ok u"
  shows "dir_ok (Directory_new NumDirEntries (junk_entries u))"
    "dir_map (table (Directory_new NumDirEntries (junk_entries u))) = Map.empty"
proof -
  have "dir_pairs (map (\<lambda>e. e\<lparr>inUse := False\<rparr>) es) = []" for es :: "DirectoryEntry list"
    by (induction es) simp_all
  with assms show "dir_ok (Directory_new NumDirEntries (junk_entries u))"
    "dir_map (table (Directory_new NumDirEntries (junk_entries u))) = Map.empty"
    by (auto simp: dir_ok_def dir_map_def Directory_new_def heap_ok_def entry_typed_def dest!: in_set_takeD)
qed

lemma one_sector_file:
  assumes "file_ok h" "hdr_numBytes h = int n" "0 < n" "n \<le> SectorSize"
  shows "length (file_sectors h) = 1"
  using file_ok_facts(1) [OF assms(1)] assms(2-4) divRoundUp_le_iff [of SectorSize n 1]
    less_divRoundUp_iff [of SectorSize 0 n] by (simp add: SectorSize_def)

lemma OpenFile_new_ok:
  "valid_sector sec \<Longrightarrow> OpenFile_new sec d = Inr \<lparr>hdr = header_at d sec, seekPosition = 0\<rparr>"
  by (simp add: OpenFile_new_def FileHeader_FetchFrom_ok)

text \<open>The free map and the two headers as formatting lays them out.\<close>

lemma format_allocates:
  assumes "heap_ok u"
  shows "\<exists>b0 b1 b2 b3 b4 mh dh. BitMap_new NumSectors (junk_words u) = Inr b0 \<and> Mark FreeMapSector b0 = Inr b1
    \<and> Mark DirectorySector b1 = Inr b2 \<and> Allocate (junk_header u) b2 (int FreeMapFileSize) = Inr (True, mh, b3)
    \<and> Allocate (junk_header u) b3 (int DirectoryFileSize) = Inr (True, dh, b4)
    \<and> file_ok mh \<and> hdr_numBytes mh = int FreeMapFileSize \<and> file_ok dh \<and> hdr_numBytes dh = int DirectoryFileSize
    \<and> bm_wf b4 \<and> numBits b4 = NumSectors \<and> distinct ([0, 1] @ file_sectors mh @ file_sectors dh)
    \<and> marked b4 = set ([0, 1] @ file_sectors mh @ file_sectors dh)"
proof -
  obtain b0 where b0: "BitMap_new NumSectors (junk_words u) = Inr b0" "bm_wf b0" "numBits b0 = NumSectors" "marked b0 = {}"
    using BitMap_new_spec [of NumSectors "junk_words u"] assms by (auto simp: heap_ok_def)
  obtain b1 where b1: "Mark 0 b0 = Inr b1" "bm_wf b1" "numBits b1 = NumSectors" "marked b1 = {0}"
    using Mark_marked [OF b0(2), of 0] b0(3,4) by (auto simp: fs_sizes)
  obtain b2 where b2: "Mark 1 b1 = Inr b2" "bm_wf b2" "numBits b2 = NumSectors" "marked b2 = {0, 1}"
    using Mark_marked [OF b1(2), of 1] b1(3,4) by (auto simp: fs_sizes)
  have ht: "header_typed (junk_header u)" using assms by (simp add: heap_ok_def)
  have "divRoundUp (nat (int FreeMapFileSize)) SectorSize \<le> NumSectors - card (marked b2)"
    by (simp add: b2(4) fs_sizes SectorSize_def)
  from Allocate_ok [OF b2(2,3) ht _ _ this] obtain mh b3 where
    m: "Allocate (junk_header u) b2 (int FreeMapFileSize) = Inr (True, mh, b3)" "file_ok mh"
      "hdr_numBytes mh = int FreeMapFileSize" "bm_wf b3" "numBits b3 = NumSectors"
      "set (file_sectors mh) \<inter> marked b2 = {}" "marked b3 = marked b2 \<union> set (file_sectors mh)"
    by (auto simp: fs_sizes MaxFileSize_def NumDirect_def SectorSize_def)
  have "length (file_sectors mh) = 1" using m(2,3) by (rule one_sector_file) (simp_all add: fs_sizes SectorSize_def)
  then have "card (marked b3) \<le> 3"
    using card_length [of "[0, 1] @ file_sectors mh"] by (simp add: m(7) b2(4))
  then have "divRoundUp (nat (int DirectoryFileSize)) SectorSize \<le> NumSectors - card (marked b3)"
    by (simp add: fs_sizes SectorSize_def)
  from Allocate_ok [OF m(4,5) ht _ _ this] obtain dh b4 where
    h: "Allocate (junk_header u) b3 (int DirectoryFileSize) = Inr (True, dh, b4)" "file_ok dh"
      "hdr_numBytes dh = int DirectoryFileSize" "bm_wf b4" "numBits b4 = NumSectors"
      "set (file_sectors dh) \<inter> marked b3 = {}" "marked b4 = marked b3 \<union> set (file_sectors dh)"
    by (auto simp: fs_sizes MaxFileSize_def NumDirect_def SectorSize_def)
  have "distinct ([0, 1] @ file_sectors mh @ file_sectors dh)"
    using m(2,6,7) h(2,6) b2(4) file_ok_facts(4) by auto
  moreover have "marked b4 = set ([0, 1] @ file_sectors mh @ file_sectors dh)"
    using h(7) m(7) b2(4) by auto
  ultimately show ?thesis
    using b0(1) b1(1) b2(1) m(1-3) h(1-5) by (simp add: FreeMapSector_def DirectorySector_def)
qed

lemma format_ok:
  assumes "heap_ok u" "disk_wf d"
  shows "\<exists>fs d'. FileSystem_new u True d = Inr (fs, d') \<and> fs_ok fs d' \<and> fs_files fs d' = Map.empty
    \<and> marked (fs_map fs d') = set (sys_sectors fs)"
proof -
  let ?dir = "Directory_new NumDirEntries (junk_entries u)"
  obtain b0 b1 b2 b3 b mh dh where a: "BitMap_new NumSectors (junk_words u) = Inr b0"
    "Mark FreeMapSector b0 = Inr b1" "Mark DirectorySector b1 = Inr b2"
    "Allocate (junk_header u) b2 (int FreeMapFileSize) = Inr (True, mh, b3)"
    "Allocate (junk_header u) b3 (int DirectoryFileSize) = Inr (True, dh, b)"
    and h: "file_ok mh" "hdr_numBytes mh = int FreeMapFileSize" "file_ok dh" "hdr_numBytes dh = int DirectoryFileSize"
    and b: "bm_wf b" "numBits b = NumSectors" "distinct ([0, 1] @ file_sectors mh @ file_sectors dh)"
      "marked b = set ([0, 1] @ file_sectors mh @ file_sectors dh)"
    using format_allocates [OF assms(1)] by (elim exE conjE) (rule that)
  define d1 where "d1 = d(0 := FileHeader_bytes mh)"
  define d2 where "d2 = d1(1 := FileHeader_bytes dh)"
  define fs where "fs = \<lparr>freeMapFile = \<lparr>hdr = mh, seekPosition = 0\<rparr>, directoryFile = \<lparr>hdr = dh, seekPosition = 0\<rparr>\<rparr>"
  have ty: "header_typed mh" "header_typed dh" using h by (auto simp: file_ok_def)
  note rt = FileHeader_round_trip [OF ty(1)] FileHeader_round_trip [OF ty(2)]
  have w: "FileHeader_WriteBack FreeMapSector mh d = Inr d1" "FileHeader_WriteBack DirectorySector dh d1 = Inr d2"
    using rt by (simp_all add: FileHeader_WriteBack_def WriteSector_def d1_def d2_def FreeMapSector_def
        DirectorySector_def valid_sector_def fs_sizes)
  have o: "OpenFile_new FreeMapSector d2 = Inr (freeMapFile fs)" "OpenFile_new DirectorySector d2 = Inr (directoryFile fs)"
    using rt by (simp_all add: OpenFile_new_ok valid_sector_def FreeMapSector_def DirectorySector_def fs_sizes
        header_at_def d1_def d2_def fs_def)
  have "disk_wf d2" using assms(2) rt by (simp add: d1_def d2_def disk_wf_upd)
  then have base: "fs_base fs d2"
    using h b(3) rt by (simp add: fs_base_def fs_def sys_sectors_def d1_def d2_def)
  obtain d3 where d3: "BitMap_WriteBack (junk_bytes u) (freeMapFile fs) b d2 = Inr d3" "fs_base fs d3" "fs_map fs d3 = b"
    using write_map [OF base b(1,2)] by blast
  have "tableSize ?dir = NumDirEntries" by (simp add: Directory_new_def)
  then obtain d4 where d4: "Directory_WriteBack (junk_bytes u) (junk_pad u) (directoryFile fs) ?dir d3 = Inr d4"
    "fs_base fs d4" "fs_dir fs d4 = ?dir" "fs_map fs d4 = b"
    using write_dir [OF d3(2) new_directory_ok(1) [OF assms(1)]] d3(3) by blast
  have "FileSystem_new u True d = Inr (fs, d4)"
    using a w o d3(1) d4(1) by (simp add: FileSystem_new_def format_disk_def fs_def)
  moreover have idx: "fs_index fs d4 = Map.empty" using new_directory_ok(2) [OF assms(1)] by (simp add: fs_index_def d4(3))
  moreover have "marked b = set (sys_sectors fs)" using b(4) by (simp add: fs_def sys_sectors_def)
  ultimately show ?thesis
    using d4 new_directory_ok(1) [OF assms(1)]
    by (intro exI [where x = fs] exI [where x = d4]) (auto simp: fs_ok_def owns_ok_def fs_files_def)
qed

lemma mount_ok:
  assumes "fs_ok fs d"
  shows "FileSystem_new u False d = Inr (\<lparr>freeMapFile = \<lparr>hdr = hdr (freeMapFile fs), seekPosition = 0\<rparr>,
    directoryFile = \<lparr>hdr = hdr (directoryFile fs), seekPosition = 0\<rparr>\<rparr>, d)"
  using fs_ok_facts(1) [OF assms]
  by (simp add: FileSystem_new_def OpenFile_new_ok valid_sector_def FreeMapSector_def DirectorySector_def
      fs_sizes header_at_def fs_base_def)

end
