(* ===== verification/File_System_Properties.thy ===== *)
theory File_System_Properties
  imports File_System
begin

text \<open>
  What the file system promises its callers, in terms of the map from names to contents: formatting gives the
  empty map, creating, removing and writing update it at one name, and every state that sequences of calls
  reach is consistent.
\<close>

section \<open>Properties\<close>

lemma format_uses_four_sectors:
  assumes "heap_ok u" "disk_wf d"
  obtains fs d' where "FileSystem_new u True d = Inr (fs, d')" "fs_ok fs d'" "fs_files fs d' = Map.empty" "card (marked (fs_map fs d')) = 4"
proof -
  obtain fs d' where f: "FileSystem_new u True d = Inr (fs, d')" "fs_ok fs d'" "fs_files fs d' = Map.empty"
    "marked (fs_map fs d') = set (sys_sectors fs)"
    using format_ok [OF assms] by blast
  note F = fs_ok_facts [OF f(2)]
  have "length (file_sectors (hdr (freeMapFile fs))) = 1" "length (file_sectors (hdr (directoryFile fs))) = 1"
    using F(1) one_sector_file [of _ FreeMapFileSize] one_sector_file [of _ DirectoryFileSize]
    by (auto simp: fs_base_def fs_sizes SectorSize_def)
  then have "card (marked (fs_map fs d')) = 4"
    using F(1) distinct_card [of "sys_sectors fs"] by (simp add: f(4) fs_base_def) (simp add: sys_sectors_def)
  with f(1-3) show thesis by (rule that)
qed

text \<open>
  Formatting. Whatever the disk and the memory held, formatting gives a file system without files in which
  exactly the sectors of its own two files and their headers are in use.
\<close>

theorem format_gives_empty_file_system:
  assumes "heap_ok u" "disk_wf d"
  shows "\<exists>fs d'. FileSystem_new u True d = Inr (fs, d') \<and> fs_ok fs d' \<and> fs_files fs d' = Map.empty
    \<and> NumClear (fs_map fs d') = Inr (NumSectors - 4)"
proof -
  obtain fs d' where f: "FileSystem_new u True d = Inr (fs, d')" "fs_ok fs d'" "fs_files fs d' = Map.empty" "card (marked (fs_map fs d')) = 4"
    by (rule format_uses_four_sectors [OF assms])
  note F = fs_ok_facts(1) [OF f(2)]
  show ?thesis using f NumClear_spec [OF bm_wf_fs_map(1) [OF F]] bm_wf_fs_map(2) [OF F] by auto
qed

lemma Create_new:
  assumes "fs_ok fs d" "heap_ok u" "0 \<le> sz" "sz \<le> int MaxFileSize" "fs_index fs d (name_key name) = None"
    "has_room (fs_dir fs d)" "divRoundUp (nat sz) SectorSize < NumSectors - card (marked (fs_map fs d))"
  shows "\<exists>d' bytes. Create u fs name sz d = Inr (True, d') \<and> fs_ok fs d' \<and> length bytes = nat sz
    \<and> fs_files fs d' = (fs_files fs d)(name_key name \<mapsto> bytes)"
proof -
  obtain i h d' where c: "Create u fs name sz d = Inr (True, d')" "i < NumSectors" "i \<notin> marked (fs_map fs d)"
    "file_ok h" "hdr_numBytes h = sz" "set (file_sectors h) \<inter> insert i (marked (fs_map fs d)) = {}"
    "fs_base fs d'" "same_outside (set (sys_sectors fs)) (d(i := FileHeader_bytes h)) d'"
    "dir_ok (fs_dir fs d')" "fs_index fs d' = (fs_index fs d)(name_key name \<mapsto> int i)"
    "marked (fs_map fs d') = marked (fs_map fs d) \<union> insert i (set (file_sectors h))"
    using Create_succeeds [OF assms] by (elim exE conjE) (rule that)
  note keeps = Create_keeps [OF assms(1) c(2-4,6) assms(5) c(7-11)]
  have "length (file_bytes h d') = nat sz"
    using file_block(3) [OF c(4) fs_ok_facts(5) [OF keeps(1)]] c(5) by simp
  with c(1) keeps show ?thesis by blast
qed

text \<open>
  C9: creating a file. \<^verbatim>\<open>Create\<close> succeeds exactly when the name is new, the directory has an entry left, the
  disk has room for the header and the data, and the size fits a header; then the file exists with the
  requested length, every other file is as it was and the disk stays consistent. When only the size is too
  large the code writes past the sector table of the header; in every other case it returns false and
  the disk is untouched.
\<close>

theorem create_adds_a_file:
  assumes "fs_ok fs d" "heap_ok u" "0 \<le> sz"
  shows "if fs_files fs d (name_key name) = None \<and> has_room (fs_dir fs d)
        \<and> divRoundUp (nat sz) SectorSize < NumSectors - card (marked (fs_map fs d))
    then if sz \<le> int MaxFileSize
      then \<exists>d' bytes. Create u fs name sz d = Inr (True, d') \<and> fs_ok fs d' \<and> length bytes = nat sz
        \<and> fs_files fs d' = (fs_files fs d)(name_key name \<mapsto> bytes)
      else Create u fs name sz d = Inl Bad_Index
    else Create u fs name sz d = Inr (False, d)"
proof -
  have idx: "fs_files fs d (name_key name) = None \<longleftrightarrow> fs_index fs d (name_key name) = None"
    by (simp add: fs_files_def)
  show ?thesis
    unfolding idx
    using Create_new [OF assms] Create_too_long [OF assms(1,2)] Create_fails [OF assms] by simp
qed

text \<open>
  C18: removing a file. \<^verbatim>\<open>Remove\<close> of an existing file succeeds, the name is gone, its header and data sectors are
  free again, and every other file is as it was; of a missing file it returns false and changes nothing.
\<close>

theorem remove_deletes_a_file:
  assumes "fs_ok fs d" "heap_ok u"
  shows "case fs_index fs d (name_key name) of
      None \<Rightarrow> FileSystem_Remove u fs name d = Inr (False, d)
    | Some sec \<Rightarrow> \<exists>d'. FileSystem_Remove u fs name d = Inr (True, d') \<and> fs_ok fs d'
        \<and> fs_files fs d' = (fs_files fs d)(name_key name := None)
        \<and> marked (fs_map fs d') = marked (fs_map fs d) - insert (nat sec) (set (file_sectors (header_at d sec)))"
proof (cases "fs_index fs d (name_key name)")
  case None
  then show ?thesis
    using fetch_directory_ok [OF fs_ok_facts(1) [OF assms(1)] assms(2)] Find_fs_dir(1) [OF assms(1), of name]
    by (simp add: FileSystem_Remove_def)
next
  case (Some sec)
  then obtain d' where d': "FileSystem_Remove u fs name d = Inr (True, d')" "fs_base fs d'" "dir_ok (fs_dir fs d')"
    "same_outside (set (sys_sectors fs)) d d'" "fs_index fs d' = (fs_index fs d)(name_key name := None)"
    "marked (fs_map fs d') = marked (fs_map fs d) - set (owned d sec)"
    using Remove_ok [OF assms Some] by (elim exE conjE) (rule that)
  with Remove_keeps [OF assms(1) Some d'(2-6)] Some show ?thesis by (auto simp: owned_def)
qed

text \<open>
  C19: files are isolated. Opening a name finds the file exactly when it exists; a write through the open file changes
  the contents of that file alone, to the spliced bytes, and keeps the disk consistent.
\<close>

theorem open_and_write_one_file:
  assumes "fs_ok fs d" "heap_ok u" "int_ok (int (p + n))" "n \<le> length src"
  shows "case fs_files fs d (name_key name) of
      None \<Rightarrow> Open u fs name d = Inr None
    | Some bytes \<Rightarrow> \<exists>f d'. Open u fs name d = Inr (Some f) \<and> file_bytes (hdr f) d = bytes
        \<and> WriteAt junk f src (int n) (int p) d
            = Inr (int (if p < length bytes then min n (length bytes - p) else 0), d') \<and> fs_ok fs d'
        \<and> fs_files fs d' = (fs_files fs d)(name_key name \<mapsto>
             overlay p (take (if p < length bytes then min n (length bytes - p) else 0) src) bytes)"
proof (cases "fs_index fs d (name_key name)")
  case None
  then show ?thesis using Open_ok [OF assms(1,2), of name] by (simp add: fs_files_def)
next
  case (Some sec)
  let ?f = "\<lparr>hdr = header_at d sec, seekPosition = 0\<rparr>"
  note O = owns_ok_facts [OF fs_ok_facts(4) [OF assms(1)] Some]
  have ok: "file_ok (hdr ?f)" "disk_wf d" using O(2) fs_ok_facts(5) [OF assms(1)] by simp_all
  define c where "c = (if p < nat (hdr_numBytes (hdr ?f)) then min n (nat (hdr_numBytes (hdr ?f)) - p) else 0)"
  obtain d' where d': "WriteAt junk ?f src (int n) (int p) d = Inr (int c, d')" "disk_wf d'"
    "same_outside (set (file_sectors (hdr ?f))) d d'"
    "file_bytes (hdr ?f) d' = overlay p (take c src) (file_bytes (hdr ?f) d)"
    using WriteAt_any [OF ok assms(3,4) c_def, of junk] by blast
  have "fs_ok fs d'" "fs_files fs d' = (fs_files fs d)(name_key name \<mapsto> overlay p (take c src) (file_bytes (hdr ?f) d))"
    using write_through [OF assms(1) Some d'(2)] d'(3,4) by simp_all
  moreover have m: "fs_files fs d (name_key name) = Some (file_bytes (hdr ?f) d)" using Some by (simp add: fs_files_def)
  have "c = (if p < length (file_bytes (hdr ?f) d) then min n (length (file_bytes (hdr ?f) d) - p) else 0)"
    unfolding c_def file_block(3) [OF ok] ..
  note c = this [symmetric]
  ultimately show ?thesis
    using Open_ok [OF assms(1,2), of name] Some d'(1) unfolding m option.case c
    by (intro exI [where x = ?f] exI [where x = d']) simp
qed

section \<open>Sequences of calls\<close>

text \<open>
  The states of a running file system: it is formatted once, then files are created, removed, opened and
  written, and the disk is mounted again, in any order, each with any memory behind operator \<^verbatim>\<open>new\<close>.
\<close>

inductive fs_step :: "FileSystem \<times> sectors \<Rightarrow> FileSystem \<times> sectors \<Rightarrow> bool" where
  create_step: "heap_ok u \<Longrightarrow> 0 \<le> sz \<Longrightarrow> Create u fs name sz d = Inr (r, d') \<Longrightarrow> fs_step (fs, d) (fs, d')"
| remove_step: "heap_ok u \<Longrightarrow> FileSystem_Remove u fs name d = Inr (r, d') \<Longrightarrow> fs_step (fs, d) (fs, d')"
| write_step: "heap_ok u \<Longrightarrow> Open u fs name d = Inr (Some f) \<Longrightarrow> n \<le> int (length src) \<Longrightarrow>
    WriteAt (junk_bytes u) f src n p d = Inr (r, d') \<Longrightarrow> fs_step (fs, d) (fs, d')"
| mount_step: "FileSystem_new u False d = Inr (fs', d') \<Longrightarrow> fs_step (fs, d) (fs', d')"

inductive_cases fs_stepE: "fs_step (fs, d) (fs', d')"

inductive fs_reach :: "FileSystem \<times> sectors \<Rightarrow> bool" where
  format: "heap_ok u \<Longrightarrow> disk_wf d \<Longrightarrow> FileSystem_new u True d = Inr x \<Longrightarrow> fs_reach x"
| step: "fs_reach x \<Longrightarrow> fs_step x y \<Longrightarrow> fs_reach y"

lemma fs_ok_mount:
  assumes "fs_ok fs d" "FileSystem_new u False d = Inr (fs', d')"
  shows "fs_ok fs' d'" "fs_files fs' d' = fs_files fs d"
proof -
  have "d' = d" "hdr (freeMapFile fs') = hdr (freeMapFile fs)" "hdr (directoryFile fs') = hdr (directoryFile fs)"
    using mount_ok [OF assms(1), of u] assms(2) by auto
  note eq = this
  show "fs_ok fs' d'"
    using assms(1) by (simp add: eq fs_ok_def fs_base_def sys_sectors_def fs_index_def fs_dir_def fs_map_def)
  show "fs_files fs' d' = fs_files fs d"
    by (rule ext) (simp add: eq fs_files_def fs_index_def fs_dir_def)
qed

lemma Create_returns:
  assumes "fs_ok fs d" "heap_ok u" "0 \<le> sz" "Create u fs name sz d = Inr (r, d')"
  shows "fs_ok fs d'"
proof (cases "fs_index fs d (name_key name) = None \<and> has_room (fs_dir fs d)
    \<and> divRoundUp (nat sz) SectorSize < NumSectors - card (marked (fs_map fs d))")
  case True
  then show ?thesis
    using Create_new [OF assms(1-3), of name] Create_too_long [OF assms(1,2), of sz name] assms(4)
    by (cases "sz \<le> int MaxFileSize") auto
next
  case False
  then show ?thesis using Create_fails [OF assms(1-3)] assms(1,4) by simp
qed

lemma Remove_returns:
  assumes "fs_ok fs d" "heap_ok u" "FileSystem_Remove u fs name d = Inr (r, d')"
  shows "fs_ok fs d'"
proof (cases "fs_index fs d (name_key name)")
  case None
  then show ?thesis
    using fetch_directory_ok [OF fs_ok_facts(1) [OF assms(1)] assms(2)] Find_fs_dir(1) [OF assms(1), of name] assms
    by (simp add: FileSystem_Remove_def)
next
  case (Some sec)
  from Remove_ok [OF assms(1,2) Some] assms(3) obtain
    "fs_base fs d'" "dir_ok (fs_dir fs d')" "same_outside (set (sys_sectors fs)) d d'"
    "fs_index fs d' = (fs_index fs d)(name_key name := None)"
    "marked (fs_map fs d') = marked (fs_map fs d) - set (owned d sec)" by auto
  then show ?thesis by (rule Remove_keeps(1) [OF assms(1) Some])
qed

lemma Write_returns:
  assumes "fs_ok fs d" "heap_ok u" "Open u fs name d = Inr (Some f)" "n \<le> int (length src)"
    "WriteAt junk f src n p d = Inr (r, d')"
  shows "fs_ok fs d'"
proof -
  obtain sec where sec: "fs_index fs d (name_key name) = Some sec" "hdr f = header_at d sec"
    using Open_ok [OF assms(1,2), of name] assms(3) by (cases "fs_index fs d (name_key name)") auto
  then have "file_ok (hdr f)" using owns_ok_facts(2) [OF fs_ok_facts(4) [OF assms(1)]] by simp
  from WriteAt_returns [OF this fs_ok_facts(5) [OF assms(1)] assms(5,4)] show ?thesis
    using write_through(1) [OF assms(1) sec(1)] sec(2) by simp
qed

text \<open>
  C3: consistency. After any sequence of calls the disk is consistent: the directory has no name twice, every file has a
  well-formed header, no sector belongs to two files or to a file and the file system, and the free map marks
  exactly the sectors in use, so none is leaked.
\<close>

theorem file_system_stays_consistent:
  assumes "fs_reach x"
  shows "fs_ok (fst x) (snd x)"
  using assms
proof (induction rule: fs_reach.induct)
  case (format u d x)
  then show ?case using format_ok [OF format(1,2)] by (auto simp: prod_eq_iff)
next
  case (step x y)
  from step.hyps(2) step.IH show ?case
    by (cases rule: fs_step.cases) (auto intro: Create_returns Remove_returns Write_returns fs_ok_mount(1))
qed

section \<open>A file system at work\<close>

definition demo_heap :: heap where
  "demo_heap = \<lparr>junk_bytes = (\<lambda>_. 9), junk_pad = (\<lambda>_. 7), junk_words = replicate 32 0xFFFFFFFF,
     junk_entries = replicate 10 \<lparr>inUse = True, de_sector = 5, de_name = replicate 10 3\<rparr>,
     junk_header = \<lparr>hdr_numBytes = 4, hdr_numSectors = 4, dataSectors = replicate 62 8\<rparr>\<rparr>"

lemma demo_heap_ok: "heap_ok demo_heap"
  by (simp add: heap_ok_def demo_heap_def fs_sizes entry_typed_def int_ok_def FileNameMaxLen_def
      header_typed_def NumDirect_def SectorSize_def)

lemma empty_has_room:
  assumes "fs_index fs d = Map.empty"
  shows "has_room (fs_dir fs d)"
proof -
  let ?t = "table (fs_dir fs d)"
  have "length ?t = 10" by (simp add: fs_dir_def NumDirEntries_def)
  then have "?t ! 0 \<in> set ?t" by simp
  moreover have "\<not> inUse e" if "e \<in> set ?t" for e
  proof
    assume "inUse e"
    with that have "name_key (de_name e) \<in> fst ` set (dir_pairs ?t)" by (force simp: dir_pairs_def)
    then show False using assms by (simp add: fs_index_def dir_map_def map_of_eq_None_iff [symmetric])
  qed
  ultimately show ?thesis unfolding has_room_def by blast
qed

lemma demo_formatted:
  "\<exists>fs d. FileSystem_new demo_heap True demo_disk = Inr (fs, d) \<and> fs_ok fs d \<and> fs_files fs d = Map.empty
     \<and> has_room (fs_dir fs d) \<and> 1000 < NumSectors - card (marked (fs_map fs d))"
proof -
  obtain fs d where f: "FileSystem_new demo_heap True demo_disk = Inr (fs, d)" "fs_ok fs d"
    "fs_files fs d = Map.empty" "marked (fs_map fs d) = set (sys_sectors fs)"
    using format_ok [OF demo_heap_ok demo_file_ok(2)] by blast
  have "length (file_sectors (hdr (freeMapFile fs))) = 1" "length (file_sectors (hdr (directoryFile fs))) = 1"
    using fs_ok_facts(1) [OF f(2)] one_sector_file [of _ FreeMapFileSize] one_sector_file [of _ DirectoryFileSize]
    by (auto simp: fs_base_def fs_sizes SectorSize_def)
  then have "card (marked (fs_map fs d)) \<le> 4"
    using card_length [of "sys_sectors fs"] by (simp add: f(4)) (simp add: sys_sectors_def)
  moreover have "fs_index fs d k = None" for k using fun_cong [OF f(3), of k] by (simp add: fs_files_def)
  ultimately show ?thesis using f(1-3) empty_has_room [of fs d] by (auto simp: fs_sizes fun_eq_iff)
qed

lemma demo_key: "name_key [97] = [97]"
  by (simp add: name_key_def FileNameMaxLen_def)

lemma demo_created:
  "\<exists>fs d d' bytes. FileSystem_new demo_heap True demo_disk = Inr (fs, d) \<and> Create demo_heap fs [97] 300 d = Inr (True, d')
     \<and> fs_ok fs d' \<and> length bytes = 300 \<and> fs_files fs d' = [[97] \<mapsto> bytes]"
proof -
  obtain fs d where f: "FileSystem_new demo_heap True demo_disk = Inr (fs, d)" "fs_ok fs d" "fs_files fs d = Map.empty"
    "has_room (fs_dir fs d)" "1000 < NumSectors - card (marked (fs_map fs d))" using demo_formatted by blast
  have "fs_index fs d (name_key [97]) = None" using fun_cong [OF f(3), of "[97]"] by (simp add: fs_files_def demo_key)
  from Create_new [OF f(2) demo_heap_ok _ _ this f(4), of 300] f show ?thesis
    by (auto simp: demo_key MaxFileSize_def NumDirect_def SectorSize_def divRoundUp_def)
qed

theorem format_gives_empty_file_system_witness:
  "\<exists>fs d'. FileSystem_new demo_heap True demo_disk = Inr (fs, d') \<and> fs_files fs d' = Map.empty"
  using format_gives_empty_file_system [OF demo_heap_ok demo_file_ok(2)] by blast

theorem create_adds_a_file_witness:
  "\<exists>fs d d' bytes. FileSystem_new demo_heap True demo_disk = Inr (fs, d)
     \<and> Create demo_heap fs [97] 300 d = Inr (True, d') \<and> length bytes = 300 \<and> fs_files fs d' [97] = Some bytes
     \<and> Create demo_heap fs [97] 20000 d = Inl Bad_Index"
proof -
  obtain fs d where f: "FileSystem_new demo_heap True demo_disk = Inr (fs, d)" "fs_ok fs d" "fs_files fs d = Map.empty"
    "has_room (fs_dir fs d)" "1000 < NumSectors - card (marked (fs_map fs d))" using demo_formatted by blast
  have sizes: "divRoundUp (nat 300) SectorSize < NumSectors - card (marked (fs_map fs d))"
    "divRoundUp (nat 20000) SectorSize < NumSectors - card (marked (fs_map fs d))"
    "300 \<le> int MaxFileSize" "\<not> 20000 \<le> int MaxFileSize"
    using f(5) by (simp_all add: divRoundUp_def SectorSize_def MaxFileSize_def NumDirect_def)
  show ?thesis
    using create_adds_a_file [OF f(2) demo_heap_ok, of 300 "[97]"] create_adds_a_file [OF f(2) demo_heap_ok, of 20000 "[97]"]
      f(1,3,4) sizes by (auto simp: demo_key)
qed

theorem remove_deletes_a_file_witness:
  "\<exists>fs d d'. fs_files fs d [97] \<noteq> None \<and> FileSystem_Remove demo_heap fs [97] d = Inr (True, d')
     \<and> fs_files fs d' [97] = None"
proof -
  obtain fs d bytes where f: "fs_ok fs d" "fs_files fs d = [[97] \<mapsto> bytes]" using demo_created by blast
  have "map_option (\<lambda>sec. file_bytes (header_at d sec) d) (fs_index fs d [97]) = Some bytes"
    using fun_cong [OF f(2), of "[97]"] by (simp add: fs_files_def)
  then obtain sec where "fs_index fs d (name_key [97]) = Some sec" by (auto simp: demo_key)
  with remove_deletes_a_file [OF f(1) demo_heap_ok, of "[97]"] f(2) have
    "\<exists>d'. FileSystem_Remove demo_heap fs [97] d = Inr (True, d') \<and> fs_files fs d' = Map.empty" by (auto simp: demo_key)
  moreover have "fs_files fs d [97] \<noteq> None" by (simp add: f(2))
  ultimately show ?thesis by (metis (no_types, lifting))
qed

theorem open_and_write_one_file_witness:
  "\<exists>fs d d' f bytes. Open demo_heap fs [97] d = Inr (Some f) \<and> length bytes = 300
     \<and> WriteAt (\<lambda>_. 0) f [1, 2, 3] 3 254 d = Inr (3, d')
     \<and> fs_files fs d' [97] = Some (overlay 254 [1, 2, 3] bytes)"
proof -
  obtain fs d bytes where f: "fs_ok fs d" "length bytes = 300" "fs_files fs d = [[97] \<mapsto> bytes]"
    using demo_created by blast
  from open_and_write_one_file [OF f(1) demo_heap_ok, of 254 3 "[1, 2, 3]" "[97]" "\<lambda>_. 0"] f(2,3)
  have "\<exists>f d'. Open demo_heap fs [97] d = Inr (Some f) \<and> WriteAt (\<lambda>_. 0) f [1, 2, 3] 3 254 d = Inr (3, d')
     \<and> fs_files fs d' = [[97] \<mapsto> overlay 254 [1, 2, 3] bytes]" by (auto simp: demo_key int_ok_def)
  with f(2) show ?thesis by fastforce
qed

theorem file_system_stays_consistent_witness:
  "\<exists>fs d d'. FileSystem_new demo_heap True demo_disk = Inr (fs, d) \<and> Create demo_heap fs [97] 300 d = Inr (True, d')
     \<and> fs_ok fs d'"
proof -
  obtain fs d d' where f: "FileSystem_new demo_heap True demo_disk = Inr (fs, d)"
    "Create demo_heap fs [97] 300 d = Inr (True, d')" using demo_created by blast
  have "fs_step (fs, d) (fs, d')" using fs_step.create_step [OF demo_heap_ok _ f(2)] by simp
  with fs_reach.format [OF demo_heap_ok demo_file_ok(2) f(1)] have "fs_reach (fs, d')" by (rule fs_reach.step)
  from file_system_stays_consistent [OF this] f show ?thesis by auto
qed

end
