(* ===== verification/File_Test.thy ===== *)
theory File_Test
  imports File_System_Properties
begin

text \<open>
  The file commands of \<^verbatim>\<open>filesys/fstest.cc\<close>: copying a file of the host into the Nachos file system, printing a
  Nachos file, and the performance test, all in small pieces. \<open>junk\<close> is the memory behind the buffers of the
  open file.
\<close>

section \<open>Copy and Print\<close>

definition TransferSize :: nat where "TransferSize = 10"

text \<open>The copying loop: what is left of the host's file is the argument.\<close>

function copy_loop :: "(nat \<Rightarrow> byte) \<Rightarrow> byte list \<Rightarrow> OpenFile \<Rightarrow> sectors \<Rightarrow> (OpenFile \<times> sectors) result" where
  "copy_loop junk left openFile d = (let buffer = take TransferSize left; amountRead = length buffer in
     if amountRead > 0 then rbind (OpenFile_Write junk buffer (int amountRead) openFile d) (\<lambda>(_, f, d').
       copy_loop junk (drop TransferSize left) f d')
     else Inr (openFile, d))"
  by pat_completeness auto
termination
  by (relation "measure (\<lambda>(junk, left, f, d). length left)") (auto simp: TransferSize_def)

declare copy_loop.simps [simp del]

text \<open>
  \<^verbatim>\<open>Copy\<close>, with the contents of the host's file, \<open>None\<close> if it cannot be opened; \<open>u\<close> and \<open>u'\<close> are the
  memory behind \<^verbatim>\<open>new\<close> in \<^verbatim>\<open>Create\<close> and \<^verbatim>\<open>Open\<close>. The result tells whether the file was copied.
\<close>

definition Copy :: "heap \<Rightarrow> heap \<Rightarrow> (nat \<Rightarrow> byte) \<Rightarrow> FileSystem \<Rightarrow> byte list option \<Rightarrow> byte list \<Rightarrow> sectors \<Rightarrow> (bool \<times> sectors) result" where
  "Copy u u' junk fs unix nm d = (case unix of None \<Rightarrow> Inr (False, d)
     | Some bs \<Rightarrow> rbind (Create u fs nm (int (length bs)) d) (\<lambda>(ok, d1).
         if \<not> ok then Inr (False, d1)
         else rbind (Open u' fs nm d1) (\<lambda>openFile. case openFile of None \<Rightarrow> Inl Assert_Failed
           | Some f \<Rightarrow> rbind (copy_loop junk bs f d1) (\<lambda>(_, d2). Inr (True, d2)))))"

text \<open>
  The printing loop, with the bytes printed so far. Each round but the last prints at least one byte, so a bound of one
  round more than the file has bytes is enough.
\<close>

fun print_loop :: "nat \<Rightarrow> (nat \<Rightarrow> byte) \<Rightarrow> byte list \<Rightarrow> byte list \<Rightarrow> OpenFile \<Rightarrow> sectors \<Rightarrow> byte list result" where
  "print_loop 0 junk buffer out openFile d = Inl Out_Of_Fuel"
| "print_loop (Suc n) junk buffer out openFile d =
     rbind (OpenFile_Read junk buffer (int TransferSize) openFile d) (\<lambda>(amountRead, buffer', f).
     if amountRead > 0 then print_loop n junk buffer' (out @ take (nat amountRead) buffer') f d else Inr out)"

definition Print :: "heap \<Rightarrow> (nat \<Rightarrow> byte) \<Rightarrow> FileSystem \<Rightarrow> byte list \<Rightarrow> sectors \<Rightarrow> byte list option result" where
  "Print u junk fs nm d = rbind (Open u fs nm d) (\<lambda>openFile. case openFile of None \<Rightarrow> Inr None
     | Some f \<Rightarrow> rbind (print_loop (nat (FileLength (hdr f)) + 1) junk (new_chars junk (int TransferSize)) [] f d) (\<lambda>out.
         Inr (Some out)))"

section \<open>The performance test\<close>

definition FileName :: "byte list" where "FileName = [84, 101, 115, 116, 70, 105, 108, 101]"
definition Contents :: "byte list" where "Contents = [49, 50, 51, 52, 53, 54, 55, 56, 57, 48]"
definition FileSize :: nat where "FileSize = length Contents * 5000"

text \<open>The loops stop at the first request that is not served in full; the result tells whether they came to the end.\<close>

fun write_all :: "nat \<Rightarrow> (nat \<Rightarrow> byte) \<Rightarrow> OpenFile \<Rightarrow> sectors \<Rightarrow> (bool \<times> sectors) result" where
  "write_all 0 junk f d = Inr (True, d)"
| "write_all (Suc n) junk f d = rbind (OpenFile_Write junk Contents (int (length Contents)) f d) (\<lambda>(numBytes, f', d').
     if numBytes < 10 then Inr (False, d') else write_all n junk f' d')"

definition FileWrite :: "heap \<Rightarrow> heap \<Rightarrow> (nat \<Rightarrow> byte) \<Rightarrow> FileSystem \<Rightarrow> sectors \<Rightarrow> (bool \<times> sectors) result" where
  "FileWrite u u' junk fs d = rbind (Create u fs FileName 0 d) (\<lambda>(ok, d1). if \<not> ok then Inr (False, d1)
     else rbind (Open u' fs FileName d1) (\<lambda>openFile. case openFile of None \<Rightarrow> Inr (False, d1)
       | Some f \<Rightarrow> write_all (FileSize div length Contents) junk f d1))"

fun read_all :: "nat \<Rightarrow> (nat \<Rightarrow> byte) \<Rightarrow> byte list \<Rightarrow> OpenFile \<Rightarrow> sectors \<Rightarrow> bool result" where
  "read_all 0 junk buffer f d = Inr True"
| "read_all (Suc n) junk buffer f d = rbind (OpenFile_Read junk buffer (int (length Contents)) f d) (\<lambda>(numBytes, buffer', f').
     if numBytes < 10 \<or> \<not> strncmp_equal (length Contents) buffer' Contents then Inr False
     else read_all n junk buffer' f' d)"

definition FileRead :: "heap \<Rightarrow> (nat \<Rightarrow> byte) \<Rightarrow> FileSystem \<Rightarrow> sectors \<Rightarrow> bool result" where
  "FileRead u junk fs d = rbind (Open u fs FileName d) (\<lambda>openFile. case openFile of None \<Rightarrow> Inr False
     | Some f \<Rightarrow> read_all (FileSize div length Contents) junk (new_chars junk (int (length Contents))) f d)"

definition PerformanceTest :: "heap \<Rightarrow> heap \<Rightarrow> heap \<Rightarrow> heap \<Rightarrow> (nat \<Rightarrow> byte) \<Rightarrow> FileSystem \<Rightarrow> sectors \<Rightarrow> (bool \<times> bool \<times> bool \<times> sectors) result" where
  "PerformanceTest u1 u2 u3 u4 junk fs d = rbind (FileWrite u1 u2 junk fs d) (\<lambda>(w, d1).
     rbind (FileRead u3 junk fs d1) (\<lambda>r. rbind (FileSystem_Remove u4 fs FileName d1) (\<lambda>(ok, d2). Inr (w, r, ok, d2))))"

section \<open>Reading and writing in sequence\<close>

lemma write_next:
  assumes "file_ok (hdr f)" "disk_wf d" "seekPosition f = int p" "p + length buf \<le> nat (hdr_numBytes (hdr f))"
  shows "\<exists>d'. OpenFile_Write junk buf (int (length buf)) f d = Inr (int (length buf), f\<lparr>seekPosition := int (p + length buf)\<rparr>, d')
    \<and> disk_wf d' \<and> same_outside (set (file_sectors (hdr f))) d d'
    \<and> file_bytes (hdr f) d' = take p (file_bytes (hdr f) d) @ buf @ drop (p + length buf) (file_bytes (hdr f) d)"
proof -
  have i: "int_ok (int (p + length buf))" by (rule int_ok_request [OF assms(1,4)])
  define c where "c = (if p < nat (hdr_numBytes (hdr f)) then min (length buf) (nat (hdr_numBytes (hdr f)) - p) else 0)"
  have c: "c = length buf" using assms(4) unfolding c_def by (cases buf) simp_all
  obtain d' where "WriteAt junk f buf (int (length buf)) (int p) d = Inr (int c, d')" "disk_wf d'"
    "same_outside (set (file_sectors (hdr f))) d d'" "file_bytes (hdr f) d' = overlay p (take c buf) (file_bytes (hdr f) d)"
    using WriteAt_any [OF assms(1,2) i order_refl c_def, of junk] by blast
  then show ?thesis using assms(3) i c by (simp add: OpenFile_Write_def int_add_def overlay_def)
qed

lemma copy_loop_writes:
  assumes "file_ok (hdr f)" "disk_wf d" "seekPosition f = int p" "p + length left = nat (hdr_numBytes (hdr f))"
  shows "\<exists>f' d'. copy_loop junk left f d = Inr (f', d') \<and> disk_wf d' \<and> same_outside (set (file_sectors (hdr f))) d d'
    \<and> file_bytes (hdr f) d' = take p (file_bytes (hdr f) d) @ left"
  using assms
proof (induction "length left" arbitrary: left f d p rule: less_induct)
  case less
  note len = file_block(3) [OF less.prems(1,2)]
  show ?case
  proof (cases "left = []")
    case True
    then show ?thesis using less.prems len by (simp add: copy_loop.simps same_outside_def)
  next
    case False
    let ?b = "take TransferSize left" and ?r = "drop TransferSize left"
    obtain d1 where d1: "OpenFile_Write junk ?b (int (length ?b)) f d = Inr (int (length ?b), f\<lparr>seekPosition := int (p + length ?b)\<rparr>, d1)"
      "disk_wf d1" "same_outside (set (file_sectors (hdr f))) d d1"
      "file_bytes (hdr f) d1 = take p (file_bytes (hdr f) d) @ ?b @ drop (p + length ?b) (file_bytes (hdr f) d)"
    proof -
      have "p + length ?b \<le> nat (hdr_numBytes (hdr f))" using less.prems(4) by simp
      from write_next [OF less.prems(1-3) this, of junk] that show ?thesis by blast
    qed
    let ?f = "f\<lparr>seekPosition := int (p + length ?b)\<rparr>"
    have l: "length ?r < length left" "p + length ?b + length ?r = nat (hdr_numBytes (hdr f))"
      using False less.prems(4) by (simp_all add: TransferSize_def)
    obtain f2 d2 where d2: "copy_loop junk ?r ?f d1 = Inr (f2, d2)" "disk_wf d2" "same_outside (set (file_sectors (hdr f))) d1 d2"
      "file_bytes (hdr f) d2 = take (p + length ?b) (file_bytes (hdr f) d1) @ ?r"
      using less.hyps [OF l(1), of ?f d1 "p + length ?b"] less.prems(1) d1(2) l(2) by auto
    have "take (p + length ?b) (file_bytes (hdr f) d1) = take p (file_bytes (hdr f) d) @ ?b"
      using d1(4) len l(2) by (simp add: min_def)
    then have "file_bytes (hdr f) d2 = take p (file_bytes (hdr f) d) @ left" using d2(4) by simp
    moreover have "copy_loop junk left f d = Inr (f2, d2)"
      using d1(1) d2(1) False by (subst copy_loop.simps) (simp add: Let_def TransferSize_def)
    ultimately show ?thesis using d2(2) same_outside_trans [OF d1(3) d2(3)] by blast
  qed
qed

lemma read_next:
  assumes "file_ok (hdr f)" "disk_wf d" "seekPosition f = int p" "p \<le> nat (hdr_numBytes (hdr f))" "length buffer = TransferSize"
  shows "\<exists>n buffer'. n = min TransferSize (nat (hdr_numBytes (hdr f)) - p) \<and> length buffer' = TransferSize
    \<and> take n buffer' = take n (drop p (file_bytes (hdr f) d))
    \<and> OpenFile_Read junk buffer (int TransferSize) f d = Inr (int n, buffer', f\<lparr>seekPosition := int (p + n)\<rparr>)"
proof (cases "p < nat (hdr_numBytes (hdr f))")
  case True
  let ?L = "nat (hdr_numBytes (hdr f))"
  define n where "n = min TransferSize (?L - p)"
  have "?L \<le> 15872" using file_ok_facts(3) [OF assms(1)] by (simp add: MaxFileSize_def NumDirect_def SectorSize_def)
  then have i: "int_ok (int (p + TransferSize))" using True by (simp add: int_ok_def TransferSize_def)
  have r: "ReadAt junk f buffer (int 0) (int TransferSize) (int p) d
    = Inr (int n, overlay 0 (take TransferSize (drop p (file_bytes (hdr f) d))) buffer)"
    by (rule ReadAt_bytes [OF assms(1,2) _ True i n_def]) (simp_all add: assms(5) n_def TransferSize_def)
  have "int_ok (int (p + n))" using i by (simp add: int_ok_def n_def)
  then have "OpenFile_Read junk buffer (int TransferSize) f d
      = Inr (int n, overlay 0 (take TransferSize (drop p (file_bytes (hdr f) d))) buffer, f\<lparr>seekPosition := int (p + n)\<rparr>)"
    using r assms(3) by (simp add: OpenFile_Read_def int_add_def)
  moreover have "length (take TransferSize (drop p (file_bytes (hdr f) d))) = n"
    using file_block(3) [OF assms(1,2)] by (simp add: n_def)
  ultimately show ?thesis using assms(5) n_def by (intro exI [of _ n]) (auto simp: overlay_def min_def)
next
  case False
  then have "ReadAt junk f buffer 0 (int TransferSize) (int p) d = Inr (0, buffer)" "p = nat (hdr_numBytes (hdr f))"
    using assms(4) by (auto simp: ReadAt_def FileLength_def Let_def)
  moreover have "int_ok (int p)" by (rule int_ok_request [OF assms(1,4)])
  ultimately show ?thesis using assms(3,5) by (simp add: OpenFile_Read_def int_add_def)
qed

lemma print_loop_reads:
  assumes "file_ok (hdr f)" "disk_wf d" "seekPosition f = int p" "p \<le> nat (hdr_numBytes (hdr f))" "length buffer = TransferSize"
    "nat (hdr_numBytes (hdr f)) - p < n"
  shows "print_loop n junk buffer out f d = Inr (out @ drop p (file_bytes (hdr f) d))"
  using assms
proof (induction n arbitrary: p buffer out f)
  case (Suc n)
  let ?L = "nat (hdr_numBytes (hdr f))"
  obtain k buffer' where k: "k = min TransferSize (?L - p)" "length buffer' = TransferSize" "take k buffer' = take k (drop p (file_bytes (hdr f) d))"
    "OpenFile_Read junk buffer (int TransferSize) f d = Inr (int k, buffer', f\<lparr>seekPosition := int (p + k)\<rparr>)"
    using read_next [OF Suc.prems(1-5), of junk] by blast
  show ?case
  proof (cases "k = 0")
    case True
    then have "?L \<le> p" using k(1) by (simp add: TransferSize_def min_def split: if_splits)
    then show ?thesis using k(4) True file_block(3) [OF Suc.prems(1,2)] by simp
  next
    case False
    let ?f = "f\<lparr>seekPosition := int (p + k)\<rparr>"
    have "k \<le> ?L - p" using k(1) by simp
    with False Suc.prems(4,6) have b: "p + k \<le> ?L" "?L - (p + k) < n" by linarith+
    have "print_loop n junk buffer' (out @ take k buffer') ?f d = Inr ((out @ take k buffer') @ drop (p + k) (file_bytes (hdr f) d))"
      using Suc.IH [of ?f "p + k" buffer' "out @ take k buffer'"] Suc.prems(1,2) b k(2) by simp
    moreover have "take k (drop p xs) @ drop (p + k) xs = drop p xs" for xs :: "byte list"
      using append_take_drop_id [of k "drop p xs"] by (simp add: add.commute)
    ultimately show ?thesis using k(3,4) False by simp
  qed
qed simp

lemma Print_prints:
  assumes "fs_ok fs d" "heap_ok u"
  shows "Print u junk fs nm d = Inr (fs_files fs d (name_key nm))"
proof (cases "fs_index fs d (name_key nm)")
  case None
  then show ?thesis using Open_ok [OF assms, of nm] by (simp add: Print_def fs_files_def)
next
  case (Some sec)
  let ?f = "\<lparr>hdr = header_at d sec, seekPosition = 0\<rparr>"
  note O = owns_ok_facts [OF fs_ok_facts(4) [OF assms(1)] Some]
  have "print_loop (nat (FileLength (hdr ?f)) + 1) junk (new_chars junk (int TransferSize)) [] ?f d = Inr ([] @ drop 0 (file_bytes (hdr ?f) d))"
    using O(2) fs_ok_facts(5) [OF assms(1)] by (intro print_loop_reads) (simp_all add: FileLength_def new_chars_def)
  then show ?thesis using Open_ok [OF assms, of nm] Some by (simp add: Print_def fs_files_def)
qed

lemma Remove_existing:
  assumes "fs_ok fs d" "heap_ok u" "fs_index fs d (name_key nm) = Some sec"
  shows "\<exists>d'. FileSystem_Remove u fs nm d = Inr (True, d') \<and> fs_ok fs d' \<and> fs_files fs d' = (fs_files fs d)(name_key nm := None)"
proof -
  obtain d' where d': "FileSystem_Remove u fs nm d = Inr (True, d')" "fs_base fs d'" "dir_ok (fs_dir fs d')"
    "same_outside (set (sys_sectors fs)) d d'" "fs_index fs d' = (fs_index fs d)(name_key nm := None)"
    "marked (fs_map fs d') = marked (fs_map fs d) - set (owned d sec)"
    using Remove_ok [OF assms] by (elim exE conjE) (rule that)
  with Remove_keeps [OF assms(1,3) d'(2-6)] show ?thesis by blast
qed

lemma Copy_copies:
  assumes "fs_ok fs d" "heap_ok u" "heap_ok u'" "length bs \<le> MaxFileSize" "fs_files fs d (name_key nm) = None" "has_room (fs_dir fs d)"
    "divRoundUp (length bs) SectorSize < NumSectors - card (marked (fs_map fs d))"
  shows "\<exists>d'. Copy u u' junk fs (Some bs) nm d = Inr (True, d') \<and> fs_ok fs d' \<and> fs_files fs d' = (fs_files fs d)(name_key nm \<mapsto> bs)"
proof -
  have "fs_index fs d (name_key nm) = None" using assms(5) by (simp add: fs_files_def)
  from Create_new [OF assms(1,2) _ _ this assms(6), of "int (length bs)"] assms(4,7) obtain d1 old where
    c: "Create u fs nm (int (length bs)) d = Inr (True, d1)" "fs_ok fs d1" "length old = length bs"
      "fs_files fs d1 = (fs_files fs d)(name_key nm \<mapsto> old)" by auto
  then have "fs_files fs d1 (name_key nm) = Some old" by simp
  then obtain sec where sec: "fs_index fs d1 (name_key nm) = Some sec" "file_bytes (header_at d1 sec) d1 = old"
    by (auto simp: fs_files_def)
  let ?f = "\<lparr>hdr = header_at d1 sec, seekPosition = 0\<rparr>"
  note O = owns_ok_facts [OF fs_ok_facts(4) [OF c(2)] sec(1)]
  have ok: "file_ok (hdr ?f)" "disk_wf d1" using O(2) fs_ok_facts(5) [OF c(2)] by simp_all
  have "0 + length bs = nat (hdr_numBytes (hdr ?f))" using file_block(3) [OF ok] sec(2) c(3) by simp
  from copy_loop_writes [OF ok _ this, of junk] obtain f2 d2 where
    w: "copy_loop junk bs ?f d1 = Inr (f2, d2)" "disk_wf d2" "same_outside (set (file_sectors (hdr ?f))) d1 d2" "file_bytes (hdr ?f) d2 = bs"
    by auto
  have "Copy u u' junk fs (Some bs) nm d = Inr (True, d2)"
    using c(1) Open_ok [OF c(2) assms(3), of nm] sec(1) w(1) by (simp add: Copy_def)
  moreover have "fs_ok fs d2" "fs_files fs d2 = (fs_files fs d)(name_key nm \<mapsto> bs)"
    using write_through [OF c(2) sec(1) w(2)] w(3,4) c(4) by simp_all
  ultimately show ?thesis by blast
qed

text \<open>
  C24: copying and printing. When there is room for it, \<^verbatim>\<open>Copy\<close> adds a file with exactly the bytes of the host's
  file, although it is written ten bytes at a time, leaves every other file alone, and \<^verbatim>\<open>Print\<close> of the copy ends and prints those bytes.
\<close>

theorem copy_then_print:
  assumes "fs_ok fs d" "heap_ok u" "heap_ok u'" "heap_ok u''" "length bs \<le> MaxFileSize" "fs_files fs d (name_key nm) = None"
    "has_room (fs_dir fs d)" "divRoundUp (length bs) SectorSize < NumSectors - card (marked (fs_map fs d))"
  shows "\<exists>d'. Copy u u' junk fs (Some bs) nm d = Inr (True, d') \<and> fs_ok fs d'
    \<and> fs_files fs d' = (fs_files fs d)(name_key nm \<mapsto> bs) \<and> Print u'' junk' fs nm d' = Inr (Some bs)
    \<and> (\<forall>other. name_key other \<noteq> name_key nm \<longrightarrow> Print u'' junk' fs other d' = Print u'' junk' fs other d)"
proof -
  obtain d' where d': "Copy u u' junk fs (Some bs) nm d = Inr (True, d')" "fs_ok fs d'" "fs_files fs d' = (fs_files fs d)(name_key nm \<mapsto> bs)"
    using Copy_copies [OF assms(1-3,5-8)] by blast
  show ?thesis using d' Print_prints [OF d'(2) assms(4)] Print_prints [OF assms(1,4)] by auto
qed

text \<open>
  The performance test cannot succeed. It creates an empty file and expects it to grow, which files of this file
  system do not do: the first write stores nothing, the read finds nothing, and the test file is removed again.
\<close>

theorem performance_test_fails:
  assumes "fs_ok fs d" "heap_ok u1" "heap_ok u2" "heap_ok u3" "heap_ok u4" "fs_files fs d (name_key FileName) = None"
    "has_room (fs_dir fs d)" "card (marked (fs_map fs d)) < NumSectors"
  shows "\<exists>d'. PerformanceTest u1 u2 u3 u4 junk fs d = Inr (False, False, True, d') \<and> fs_ok fs d' \<and> fs_files fs d' = fs_files fs d"
proof -
  have "fs_index fs d (name_key FileName) = None" using assms(6) by (simp add: fs_files_def)
  from Create_new [OF assms(1,2) _ _ this assms(7), of 0] assms(8) obtain d1 where
    c: "Create u1 fs FileName 0 d = Inr (True, d1)" "fs_ok fs d1" "fs_files fs d1 = (fs_files fs d)(name_key FileName \<mapsto> [])"
    by (auto simp: divRoundUp_def)
  then have "fs_files fs d1 (name_key FileName) = Some []" by simp
  then obtain sec where sec: "fs_index fs d1 (name_key FileName) = Some sec" "file_bytes (header_at d1 sec) d1 = []"
    by (auto simp: fs_files_def)
  let ?f = "\<lparr>hdr = header_at d1 sec, seekPosition = 0\<rparr>"
  note O = owns_ok_facts [OF fs_ok_facts(4) [OF c(2)] sec(1)]
  have z: "hdr_numBytes (header_at d1 sec) = 0"
    using file_block(3) [OF O(2) fs_ok_facts(5) [OF c(2)]] sec(2) O(2) by (simp add: file_ok_def)
  obtain k where n: "FileSize div length Contents = Suc k"
    by (cases "FileSize div length Contents") (simp_all add: FileSize_def Contents_def)
  have io: "OpenFile_Write junk Contents (int (length Contents)) ?f d1 = Inr (0, ?f, d1)"
    "OpenFile_Read junk b (int (length Contents)) ?f d1 = Inr (0, b, ?f)" for b
    using z by (simp_all add: OpenFile_Write_def OpenFile_Read_def WriteAt_def ReadAt_def FileLength_def int_add_def int_ok_def)
  have o: "Open u2 fs FileName d1 = Inr (Some ?f)" "Open u3 fs FileName d1 = Inr (Some ?f)"
    using Open_ok [OF c(2) assms(3), of FileName] Open_ok [OF c(2) assms(4), of FileName] sec(1) by simp_all
  have "FileWrite u1 u2 junk fs d = Inr (False, d1)" using c(1) o(1) io(1) by (simp add: FileWrite_def n)
  moreover have "FileRead u3 junk fs d1 = Inr False" using o(2) io(2) by (simp add: FileRead_def n)
  moreover obtain d2 where "FileSystem_Remove u4 fs FileName d1 = Inr (True, d2)" "fs_ok fs d2"
    "fs_files fs d2 = (fs_files fs d1)(name_key FileName := None)"
    using Remove_existing [OF c(2) assms(5) sec(1)] by blast
  ultimately show ?thesis using c(3) assms(6) by (auto simp: PerformanceTest_def fun_upd_idem)
qed

theorem copy_then_print_witness:
  "\<exists>fs d d'. FileSystem_new demo_heap True demo_disk = Inr (fs, d)
     \<and> Copy demo_heap demo_heap (\<lambda>_. 9) fs (Some (replicate 25 7)) [97] d = Inr (True, d')
     \<and> Print demo_heap (\<lambda>_. 9) fs [97] d' = Inr (Some (replicate 25 7))"
proof -
  obtain fs d where f: "FileSystem_new demo_heap True demo_disk = Inr (fs, d)" "fs_ok fs d" "fs_files fs d = Map.empty"
    "has_room (fs_dir fs d)" "1000 < NumSectors - card (marked (fs_map fs d))" using demo_formatted by blast
  have "length (replicate 25 7 :: byte list) \<le> MaxFileSize" "divRoundUp (length (replicate 25 7 :: byte list)) SectorSize < NumSectors - card (marked (fs_map fs d))"
    using f(5) by (simp_all add: MaxFileSize_def NumDirect_def SectorSize_def divRoundUp_def)
  from copy_then_print [OF f(2) demo_heap_ok demo_heap_ok demo_heap_ok this(1) _ f(4) this(2), of "[97]" "\<lambda>_. 9" "\<lambda>_. 9"] f(1,3)
  show ?thesis by auto
qed

theorem performance_test_fails_witness:
  "\<exists>fs d d'. FileSystem_new demo_heap True demo_disk = Inr (fs, d)
     \<and> PerformanceTest demo_heap demo_heap demo_heap demo_heap (\<lambda>_. 9) fs d = Inr (False, False, True, d')"
proof -
  obtain fs d where f: "FileSystem_new demo_heap True demo_disk = Inr (fs, d)" "fs_ok fs d" "fs_files fs d = Map.empty"
    "has_room (fs_dir fs d)" "1000 < NumSectors - card (marked (fs_map fs d))" using demo_formatted by blast
  from performance_test_fails [OF f(2) demo_heap_ok demo_heap_ok demo_heap_ok demo_heap_ok _ f(4), of "\<lambda>_. 9"] f(1,3,5)
  show ?thesis by (auto simp: less_diff_conv)
qed

end
