(* ===== verification/File_Dump.thy ===== *)
theory File_Dump
  imports File_System_Properties
begin

text \<open>
  The commands that print the whole file system: \<^verbatim>\<open>FileHeader::Print\<close>, \<^verbatim>\<open>Directory::Print\<close> and
  \<^verbatim>\<open>FileSystem::Print\<close>. The model returns what is printed, as numbers, names and lines of bytes, before
  \<^verbatim>\<open>printf\<close> makes characters of it.
\<close>

section \<open>File headers\<close>

text \<open>The size, the block numbers, and the data of each block up to the end of the file.\<close>

record header_dump =
  dump_size :: int
  dump_blocks :: "int list"
  dump_lines :: "byte list list"

fun print_blocks :: "nat list \<Rightarrow> nat \<Rightarrow> FileHeader \<Rightarrow> sectors \<Rightarrow> byte list list result" where
  "print_blocks [] k h d = Inr []"
| "print_blocks (i # is) k h d = rbind (array_get (dataSectors h) i) (\<lambda>sector. rbind (ReadSector sector d) (\<lambda>data.
     let line = take (nat (min (int SectorSize) (hdr_numBytes h - int k))) data in
     rbind (print_blocks is (k + length line) h d) (\<lambda>lines. Inr (line # lines))))"

fun print_numbers :: "nat list \<Rightarrow> FileHeader \<Rightarrow> int list result" where
  "print_numbers [] h = Inr []"
| "print_numbers (i # is) h = rbind (array_get (dataSectors h) i) (\<lambda>sector.
     rbind (print_numbers is h) (\<lambda>sectors. Inr (sector # sectors)))"

definition FileHeader_Print :: "FileHeader \<Rightarrow> sectors \<Rightarrow> header_dump result" where
  "FileHeader_Print h d = (let is = [0..<nat (hdr_numSectors h)] in
     rbind (print_numbers is h) (\<lambda>blocks. rbind (print_blocks is 0 h d) (\<lambda>lines.
     Inr \<lparr>dump_size = hdr_numBytes h, dump_blocks = blocks, dump_lines = lines\<rparr>)))"

section \<open>The directory and the file system\<close>

fun print_entries :: "DirectoryEntry list \<Rightarrow> sectors \<Rightarrow> (byte list \<times> int \<times> header_dump) list result" where
  "print_entries [] d = Inr []"
| "print_entries (e # es) d = (if \<not> inUse e then print_entries es d
     else if 0 \<notin> set (de_name e) then Inl Bad_Index
     else rbind (FileHeader_FetchFrom (de_sector e) d) (\<lambda>h. rbind (FileHeader_Print h d) (\<lambda>out.
       rbind (print_entries es d) (\<lambda>outs. Inr ((takeWhile (\<lambda>c. c \<noteq> 0) (de_name e), de_sector e, out) # outs)))))"

definition Directory_Print :: "Directory \<Rightarrow> sectors \<Rightarrow> (byte list \<times> int \<times> header_dump) list result" where
  "Directory_Print this d = print_entries (table this) d"

record fs_dump =
  dump_map_header :: header_dump
  dump_dir_header :: header_dump
  dump_map :: string
  dump_files :: "(byte list \<times> int \<times> header_dump) list"

definition FileSystem_Print :: "heap \<Rightarrow> FileSystem \<Rightarrow> sectors \<Rightarrow> fs_dump result" where
  "FileSystem_Print u fs d =
     rbind (FileHeader_FetchFrom FreeMapSector d) (\<lambda>bitHdr. rbind (FileHeader_Print bitHdr d) (\<lambda>out1.
     rbind (FileHeader_FetchFrom DirectorySector d) (\<lambda>dirHdr. rbind (FileHeader_Print dirHdr d) (\<lambda>out2.
     rbind (fetch_map u fs d) (\<lambda>freeMap. rbind (BitMap_Print freeMap) (\<lambda>out3.
     rbind (fetch_directory u fs d) (\<lambda>directory. rbind (Directory_Print directory d) (\<lambda>out4.
     Inr \<lparr>dump_map_header = out1, dump_dir_header = out2, dump_map = out3, dump_files = out4\<rparr>))))))))"

section \<open>What is printed\<close>

lemma print_numbers_ok:
  "\<forall>i \<in> set is. i < length (dataSectors h) \<Longrightarrow> print_numbers is h = Inr (map ((!) (dataSectors h)) is)"
  by (induction "is") simp_all

lemma line_length: "nat (min (int p) (x - int (min (nat x) q))) = min p (nat x - q)"
  by (simp add: min_def) linarith

text \<open>The printed lines are the data of the blocks, cut at the size of the file.\<close>

lemma print_blocks_ok:
  assumes "disk_wf d" "n \<le> length (dataSectors h)" "\<forall>x \<in> set (take n (dataSectors h)). valid_sector x" "k \<le> n"
  shows "\<exists>lines. print_blocks [k..<n] (min (nat (hdr_numBytes h)) (k * SectorSize)) h d = Inr lines
    \<and> length lines = n - k
    \<and> concat lines = take (nat (hdr_numBytes h) - k * SectorSize) (concat (map (\<lambda>s. d (nat s)) (drop k (take n (dataSectors h)))))"
  using assms(4)
proof (induction "n - k" arbitrary: k)
  case 0
  then show ?case using assms(2) by simp
next
  case (Suc j)
  then have k: "k < n" "[k..<n] = k # [Suc k..<n]" by (simp_all add: upt_conv_Cons)
  let ?s = "dataSectors h ! k" and ?b = "nat (hdr_numBytes h)"
  have "?s \<in> set (take n (dataSectors h))" using k(1) assms(2) by (auto simp: in_set_conv_nth)
  then have s: "valid_sector ?s" using assms(3) by blast
  then have len: "length (d (nat ?s)) = SectorSize" using disk_wfD [OF assms(1)] by (auto simp: valid_sector_def)
  let ?line = "take (nat (min (int SectorSize) (hdr_numBytes h - int (min ?b (k * SectorSize))))) (d (nat ?s))"
  have line: "?line = take (?b - k * SectorSize) (d (nat ?s))" unfolding line_length using len by (cases "SectorSize \<le> ?b - k * SectorSize") simp_all
  have nxt: "min ?b (k * SectorSize) + length ?line = min ?b (Suc k * SectorSize)" unfolding line using len by auto
  obtain lines where l: "print_blocks [Suc k..<n] (min ?b (Suc k * SectorSize)) h d = Inr lines" "length lines = n - Suc k"
    "concat lines = take (?b - Suc k * SectorSize) (concat (map (\<lambda>s. d (nat s)) (drop (Suc k) (take n (dataSectors h)))))"
  proof -
    have "j = n - Suc k" "Suc k \<le> n" using Suc.hyps(2) k(1) by simp_all
    from Suc.hyps(1) [OF this] that show ?thesis by blast
  qed
  have dr: "drop k (take n (dataSectors h)) = ?s # drop (Suc k) (take n (dataSectors h))"
    using k(1) assms(2) by (metis Cons_nth_drop_Suc length_take min_absorb2 nth_take)
  have "print_blocks [k..<n] (min ?b (k * SectorSize)) h d = Inr (?line # lines)"
    using k(1) assms(2) s l(1) unfolding k(2) by (simp add: ReadSector_def Let_def nxt [simplified])
  moreover have "concat (?line # lines) = take (?b - k * SectorSize) (concat (map (\<lambda>s. d (nat s)) (drop k (take n (dataSectors h)))))"
    unfolding dr using l(3) len by (simp add: line add.commute)
  ultimately show ?case using l(2) k(1) by (intro exI [of _ "?line # lines"]) auto
qed

lemma FileHeader_Print_ok:
  assumes "file_ok h" "disk_wf d"
  shows "\<exists>out. FileHeader_Print h d = Inr out \<and> dump_size out = hdr_numBytes h \<and> map nat (dump_blocks out) = file_sectors h
    \<and> concat (dump_lines out) = file_bytes h d"
proof -
  let ?n = "nat (hdr_numSectors h)"
  have n: "?n \<le> length (dataSectors h)" "\<forall>x \<in> set (take ?n (dataSectors h)). valid_sector x"
    using assms(1) unfolding file_ok_def header_typed_def by metis+
  obtain lines where l: "print_blocks [0..<?n] 0 h d = Inr lines"
    "concat lines = take (nat (hdr_numBytes h)) (concat (map (\<lambda>s. d (nat s)) (take ?n (dataSectors h))))"
    using print_blocks_ok [OF assms(2) n le0] by auto
  have "map ((!) (dataSectors h)) [0..<?n] = take ?n (dataSectors h)" using n(1) by (simp add: list_eq_iff_nth_eq)
  with n(1) l show ?thesis
    by (simp add: FileHeader_Print_def Let_def print_numbers_ok file_sectors_def file_bytes_def file_data_def comp_def)
qed
text \<open>What the directory shows of an entry in use.\<close>

lemma takeWhile_of_take: "takeWhile f (take n xs) = take n (takeWhile f xs)"
  by (induction xs arbitrary: n) (auto simp: take_Cons')

lemma printed_name:
  assumes "entry_typed e" "0 \<in> set (de_name e)"
  shows "takeWhile (\<lambda>c. c \<noteq> 0) (de_name e) = name_key (de_name e)"
proof -
  have "length (takeWhile (\<lambda>c. c \<noteq> 0) xs) < length xs" if "0 \<in> set xs" for xs :: "byte list"
    using that by (induction xs) auto
  from this [OF assms(2)] have "length (takeWhile (\<lambda>c. c \<noteq> 0) (de_name e)) \<le> FileNameMaxLen"
    using assms(1) by (simp add: entry_typed_def)
  then have "takeWhile (\<lambda>c. c \<noteq> 0) (de_name e) = take FileNameMaxLen (takeWhile (\<lambda>c. c \<noteq> 0) (de_name e))" by simp
  then show ?thesis unfolding name_key_def by (simp only: takeWhile_of_take)
qed

lemma short_name_ends:
  assumes "entry_typed e" "length (name_key (de_name e)) < FileNameMaxLen"
  shows "0 \<in> set (de_name e)"
proof (rule ccontr)
  assume "0 \<notin> set (de_name e)"
  then have all: "takeWhile (\<lambda>c. c \<noteq> 0) (de_name e) = de_name e" by (intro takeWhile_eq_all_conv [THEN iffD2]) auto
  have "length (name_key (de_name e)) = min FileNameMaxLen (length (de_name e))"
    unfolding name_key_def takeWhile_of_take all by (simp add: min.commute)
  then show False using assms by (simp add: entry_typed_def)
qed

lemma print_entries_ok:
  assumes "disk_wf d" "\<forall>e \<in> set es. entry_typed e \<and> (inUse e \<longrightarrow> 0 \<in> set (de_name e)
    \<and> valid_sector (de_sector e) \<and> file_ok (header_at d (de_sector e)))"
  shows "\<exists>outs. print_entries es d = Inr outs \<and> map (\<lambda>(n, sec, out). (n, sec)) outs = dir_pairs es
    \<and> (\<forall>(n, sec, out) \<in> set outs. concat (dump_lines out) = file_bytes (header_at d sec) d)"
  using assms(2)
proof (induction es)
  case (Cons e es)
  then obtain outs where outs: "print_entries es d = Inr outs" "map (\<lambda>(n, sec, out). (n, sec)) outs = dir_pairs es"
    "\<forall>(n, sec, out) \<in> set outs. concat (dump_lines out) = file_bytes (header_at d sec) d" by auto
  show ?case
  proof (cases "inUse e")
    case True
    with Cons.prems have e: "entry_typed e" "0 \<in> set (de_name e)" "valid_sector (de_sector e)" "file_ok (header_at d (de_sector e))"
      by auto
    obtain out where "FileHeader_Print (header_at d (de_sector e)) d = Inr out"
      "concat (dump_lines out) = file_bytes (header_at d (de_sector e)) d"
      using FileHeader_Print_ok [OF e(4) assms(1)] by blast
    with True e outs show ?thesis by (simp add: FileHeader_FetchFrom_ok printed_name)
  qed (use outs in simp)
qed simp

lemma print_from_ok: "bm_wf b \<Longrightarrow> \<exists>out. print_from i b = Inr out
    \<and> out = map (\<lambda>j. if j \<in> marked b then CHR ''1'' else CHR ''0'') [i..<numBits b] @ [CHR 0x0A]"
proof (induction i b rule: print_from.induct)
  case (1 i b)
  show ?case
  proof (cases "i < numBits b")
    case True
    have t: "Test (int i) b = Inr (i \<in> marked b)" using Test_ok [OF 1(2) True] True by (simp add: marked_def)
    show ?thesis using 1(1) [OF True t 1(2)] True t
      by (subst print_from.simps) (auto simp: upt_conv_Cons)
  qed (simp add: print_from.simps)
qed

text \<open>
  The dump of the file system. On a consistent file system whose files have names of less than nine characters, \<^verbatim>\<open>Print\<close>
  shows the free map, the two system files and, for every file, its name with exactly its contents.
\<close>

theorem dump_shows_every_file:
  assumes "fs_ok fs d" "heap_ok u" "\<forall>k \<in> dom (fs_files fs d). length k < FileNameMaxLen"
  shows "\<exists>out. FileSystem_Print u fs d = Inr out
    \<and> concat (dump_lines (dump_map_header out)) = file_bytes (hdr (freeMapFile fs)) d
    \<and> concat (dump_lines (dump_dir_header out)) = file_bytes (hdr (directoryFile fs)) d
    \<and> dump_map out = ''Bitmap set:'' @ CHR 0x0A # map (\<lambda>j. if j \<in> marked (fs_map fs d) then CHR ''1'' else CHR ''0'') [0..<NumSectors] @ [CHR 0x0A]
    \<and> map_of (map (\<lambda>(n, sec, out). (n, concat (dump_lines out))) (dump_files out)) = fs_files fs d"
proof -
  note f = fs_ok_facts [OF assms(1)]
  have h: "FileHeader_FetchFrom FreeMapSector d = Inr (hdr (freeMapFile fs))" "FileHeader_FetchFrom DirectorySector d = Inr (hdr (directoryFile fs))"
    "file_ok (hdr (freeMapFile fs))" "file_ok (hdr (directoryFile fs))"
    using f(1) by (simp_all add: FileHeader_FetchFrom_ok valid_sector_def FreeMapSector_def DirectorySector_def header_at_def fs_base_def fs_sizes)
  obtain o1 o2 where o: "FileHeader_Print (hdr (freeMapFile fs)) d = Inr o1" "concat (dump_lines o1) = file_bytes (hdr (freeMapFile fs)) d"
    "FileHeader_Print (hdr (directoryFile fs)) d = Inr o2" "concat (dump_lines o2) = file_bytes (hdr (directoryFile fs)) d"
    using FileHeader_Print_ok [OF h(3) f(5)] FileHeader_Print_ok [OF h(4) f(5)] by blast
  let ?t = "table (fs_dir fs d)"
  have dis: "distinct (map fst (dir_pairs ?t))" "\<forall>e \<in> set ?t. entry_typed e" using f(2) by (simp_all add: dir_ok_def)
  have used: "0 \<in> set (de_name e) \<and> valid_sector (de_sector e) \<and> file_ok (header_at d (de_sector e))" if "e \<in> set ?t" "inUse e" for e
  proof -
    have "(name_key (de_name e), de_sector e) \<in> set (dir_pairs ?t)" using that by (auto simp: dir_pairs_def)
    then have i: "fs_index fs d (name_key (de_name e)) = Some (de_sector e)" using dis(1) by (simp add: fs_index_def dir_map_def)
    have "length (name_key (de_name e)) < FileNameMaxLen" using assms(3) i by (auto simp: fs_files_def dom_def)
    with i dis(2) that(1) owns_ok_facts(1,2) [OF f(4) i] show ?thesis by (auto intro: short_name_ends)
  qed
  then obtain outs where outs: "print_entries ?t d = Inr outs" "map (\<lambda>(n, sec, out). (n, sec)) outs = dir_pairs ?t"
    "\<forall>(n, sec, out) \<in> set outs. concat (dump_lines out) = file_bytes (header_at d sec) d"
    using print_entries_ok [OF f(5), of ?t] dis(2) by blast
  have "map (\<lambda>(n, sec, out). (n, concat (dump_lines out))) outs = map (\<lambda>(n, sec). (n, file_bytes (header_at d sec) d)) (dir_pairs ?t)"
    unfolding outs(2) [symmetric] using outs(3) by auto
  moreover have "map_of (map (\<lambda>(n, sec). (n, g sec)) ps) = (\<lambda>k. map_option g (map_of ps k))" for g :: "int \<Rightarrow> byte list" and ps :: "(byte list \<times> int) list"
    by (rule ext) (simp add: map_of_map)
  ultimately have "map_of (map (\<lambda>(n, sec, out). (n, concat (dump_lines out))) outs) = fs_files fs d"
    by (simp add: fs_files_def fs_index_def dir_map_def fun_eq_iff)
  with h o outs(1) print_from_ok [OF bm_wf_fs_map(1) [OF f(1)], of 0] show ?thesis
    by (auto simp: FileSystem_Print_def BitMap_Print_def fetch_map_ok [OF f(1) assms(2)] fetch_directory_ok [OF f(1) assms(2)] Directory_Print_def
        bm_wf_fs_map(2) [OF f(1)])
qed

theorem dump_shows_every_file_witness:
  "\<exists>fs d d' bytes out. FileSystem_new demo_heap True demo_disk = Inr (fs, d) \<and> Create demo_heap fs [97] 300 d = Inr (True, d')
     \<and> length bytes = 300 \<and> FileSystem_Print demo_heap fs d' = Inr out
     \<and> map_of (map (\<lambda>(n, sec, out). (n, concat (dump_lines out))) (dump_files out)) = [[97] \<mapsto> bytes]"
proof -
  obtain fs d where f: "FileSystem_new demo_heap True demo_disk = Inr (fs, d)" "fs_ok fs d" "fs_files fs d = Map.empty"
    "has_room (fs_dir fs d)" "1000 < NumSectors - card (marked (fs_map fs d))" using demo_formatted by blast
  have k: "name_key [97] = [97]" by (simp add: name_key_def FileNameMaxLen_def)
  have "fs_index fs d (name_key [97]) = None" using f(3) by (auto simp: fs_files_def fun_eq_iff)
  from Create_new [OF f(2) demo_heap_ok _ _ this f(4), of 300] f(5) k obtain d1 old where
    c: "Create demo_heap fs [97] 300 d = Inr (True, d1)" "fs_ok fs d1" "length old = 300" "fs_files fs d1 = [[97] \<mapsto> old]"
    by (auto simp: MaxFileSize_def NumDirect_def SectorSize_def divRoundUp_def f(3))
  from dump_shows_every_file [OF c(2) demo_heap_ok] c(4) obtain out where
    "FileSystem_Print demo_heap fs d1 = Inr out"
    "map_of (map (\<lambda>(n, sec, out). (n, concat (dump_lines out))) (dump_files out)) = [[97] \<mapsto> old]"
    by (auto simp: FileNameMaxLen_def)
  with f(1) c(1,3) show ?thesis by blast
qed

end
