(* ===== verification/Command_Line.thy ===== *)
theory Command_Line
  imports File_Test File_Dump
begin

text \<open>
  The command line: the options that \<^verbatim>\<open>Initialize\<close> of \<^verbatim>\<open>threads/system.cc\<close> reads, the debugging flags of
  \<^verbatim>\<open>threads/utility.cc\<close>, the commands that \<^verbatim>\<open>main\<close> of \<^verbatim>\<open>threads/main.cc\<close> carries out in the order of the
  arguments, and a run of the file system build as a whole. Arguments are lists of bytes without the zero at the end.
\<close>

section \<open>Strings and numbers\<close>

definition cstring :: "string \<Rightarrow> byte list" where
  "cstring cs = map of_char cs"

text \<open>
  \<^verbatim>\<open>atoi\<close> of the C library: white space, a sign, and the digits that follow. A number that does not fit an
  \<^verbatim>\<open>int\<close> has no defined result.
\<close>

definition is_digit :: "byte \<Rightarrow> bool" where
  "is_digit c \<longleftrightarrow> 48 \<le> c \<and> c \<le> 57"

definition digits_value :: "byte list \<Rightarrow> int" where
  "digits_value ds = foldl (\<lambda>n c. n * 10 + (uint c - 48)) 0 ds"

definition atoi :: "byte list \<Rightarrow> int result" where
  "atoi bs = (let t = dropWhile (\<lambda>c. c = 32 \<or> 9 \<le> c \<and> c \<le> 13) bs;
     neg = (t \<noteq> [] \<and> hd t = 45); u = (if t \<noteq> [] \<and> (hd t = 45 \<or> hd t = 43) then tl t else t);
     n = digits_value (takeWhile is_digit u); v = (if neg then - n else n)
     in if int_ok v then Inr v else Inl Int_Overflow)"

section \<open>Debugging flags\<close>

text \<open>\<^verbatim>\<open>enableFlags\<close> is a string or NULL; \<^verbatim>\<open>strchr\<close> also finds the zero at the end.\<close>

definition DebugIsEnabled :: "byte list option \<Rightarrow> byte \<Rightarrow> bool" where
  "DebugIsEnabled enableFlags flag = (case enableFlags of None \<Rightarrow> False
     | Some fl \<Rightarrow> flag \<in> set (fl @ [0]) \<or> 43 \<in> set (fl @ [0]))"

section \<open>The options of Initialize\<close>

text \<open>The parts of the system that are compiled in, chosen in the \<^verbatim>\<open>Makefile\<close> of each build.\<close>

record build =
  USER_PROGRAM :: bool
  FILESYS_NEEDED :: bool
  FILESYS :: bool
  NETWORK :: bool

record options =
  debugArgs :: "byte list"
  randomYield :: bool
  randomSeed :: "int option"
  threadChoice :: int
  debugUserProg :: bool
  format :: bool
  rely :: "byte list option"
  netname :: int

definition default_options :: options where
  "default_options = \<lparr>debugArgs = [], randomYield = False, randomSeed = None, threadChoice = 0, debugUserProg = False,
     format = False, rely = None, netname = 0\<rparr>"

text \<open>
  One round of the loop: the first argument, those after it, and the options so far; the result says how many arguments
  it used. \<open>rely\<close> keeps the argument that \<^verbatim>\<open>atof\<close> turns into a number.
\<close>

definition thread_option :: "byte list \<Rightarrow> byte list list \<Rightarrow> options \<Rightarrow> (nat \<times> options) result" where
  "thread_option arg args opts =
     (if arg = cstring ''-d'' then (case args of [] \<Rightarrow> Inr (1, opts\<lparr>debugArgs := cstring ''+''\<rparr>) | a # _ \<Rightarrow> Inr (2, opts\<lparr>debugArgs := a\<rparr>))
      else if arg = cstring ''-rs'' then (case args of [] \<Rightarrow> Inl Assert_Failed
        | a # _ \<Rightarrow> rbind (atoi a) (\<lambda>n. Inr (2, opts\<lparr>randomSeed := Some n, randomYield := True\<rparr>)))
      else if arg = cstring ''-A'' then (case args of [] \<Rightarrow> Inr (2, opts\<lparr>threadChoice := - 1\<rparr>)
        | a # _ \<Rightarrow> rbind (atoi a) (\<lambda>n. Inr (2, opts\<lparr>threadChoice := n\<rparr>)))
      else Inr (1, opts))"

definition flag_options :: "build \<Rightarrow> byte list \<Rightarrow> options \<Rightarrow> options" where
  "flag_options cfg arg opts =
     (let o1 = (if USER_PROGRAM cfg \<and> arg = cstring ''-s'' then opts\<lparr>debugUserProg := True\<rparr> else opts)
      in if FILESYS_NEEDED cfg \<and> arg = cstring ''-f'' then o1\<lparr>format := True\<rparr> else o1)"

definition network_option :: "byte list \<Rightarrow> byte list list \<Rightarrow> nat \<Rightarrow> options \<Rightarrow> (nat \<times> options) result" where
  "network_option arg args argCount opts =
     (if arg = cstring ''-l'' then (case args of [] \<Rightarrow> Inl Assert_Failed | a # _ \<Rightarrow> Inr (2, opts\<lparr>rely := Some a\<rparr>))
      else if arg = cstring ''-m'' then (case args of [] \<Rightarrow> Inl Assert_Failed
        | a # _ \<Rightarrow> rbind (atoi a) (\<lambda>n. Inr (2, opts\<lparr>netname := n\<rparr>)))
      else Inr (argCount, opts))"

definition read_option :: "build \<Rightarrow> byte list \<Rightarrow> byte list list \<Rightarrow> options \<Rightarrow> (nat \<times> options) result" where
  "read_option cfg arg args opts = rbind (thread_option arg args opts) (\<lambda>(argCount, o1).
     let o2 = flag_options cfg arg o1 in if NETWORK cfg then network_option arg args argCount o2 else Inr (argCount, o2))"

lemma option_uses:
  "thread_option arg args opts = Inr (n, o1) \<Longrightarrow> 0 < n"
  "network_option arg args k opts = Inr (n, o1) \<Longrightarrow> 0 < k \<Longrightarrow> 0 < n"
  by (auto simp: thread_option_def network_option_def rbind_eq_Inr split: if_split_asm list.split_asm)

lemma read_option_uses: "read_option cfg arg args opts = Inr (n, o1) \<Longrightarrow> 0 < n"
  by (auto simp: read_option_def rbind_eq_Inr Let_def dest: option_uses split: if_split_asm)

function read_options :: "build \<Rightarrow> byte list list \<Rightarrow> options \<Rightarrow> options result" where
  "read_options cfg [] o1 = Inr o1"
| "read_options cfg (arg # args) o1 = rbind (read_option cfg arg args o1) (\<lambda>(argCount, o2).
     read_options cfg (drop argCount (arg # args)) o2)"
  by pat_completeness auto
termination
  by (relation "measure (\<lambda>(cfg, args, o1). length args)") (auto dest: read_option_uses)

section \<open>The commands of main\<close>

datatype call = Print_Copyright | Start_Process "byte list option" | Console_Test "(byte list \<times> byte list) option" | Halt_Nachos
  | Copy_File "byte list" "byte list" | Print_File "byte list" | Remove_File "byte list" | List_Directory | Print_All | Performance_Test
  | Mail_Test int

text \<open>
  One round of the loop: the calls it makes and the number of arguments it used. \<^verbatim>\<open>-x\<close> has no check left: without a
  file name the argument is the NULL at the end of \<^verbatim>\<open>argv\<close>.
\<close>

definition user_call :: "byte list \<Rightarrow> byte list list \<Rightarrow> (nat \<times> call list) result" where
  "user_call arg args =
     (if arg = cstring ''-x'' then Inr (2, [Start_Process (case args of [] \<Rightarrow> None | a # _ \<Rightarrow> Some a)])
      else if arg = cstring ''-c'' then (case args of [] \<Rightarrow> Inr (1, [Console_Test None, Halt_Nachos])
        | a # b # _ \<Rightarrow> Inr (3, [Console_Test (Some (a, b)), Halt_Nachos]) | _ \<Rightarrow> Inl Assert_Failed)
      else Inr (1, []))"

definition filesys_call :: "byte list \<Rightarrow> byte list list \<Rightarrow> nat \<Rightarrow> (nat \<times> call list) result" where
  "filesys_call arg args argCount =
     (if arg = cstring ''-cp'' then (case args of a # b # _ \<Rightarrow> Inr (3, [Copy_File a b]) | _ \<Rightarrow> Inl Assert_Failed)
      else if arg = cstring ''-p'' then (case args of a # _ \<Rightarrow> Inr (2, [Print_File a]) | _ \<Rightarrow> Inl Assert_Failed)
      else if arg = cstring ''-r'' then (case args of a # _ \<Rightarrow> Inr (2, [Remove_File a]) | _ \<Rightarrow> Inl Assert_Failed)
      else if arg = cstring ''-l'' then Inr (argCount, [List_Directory])
      else if arg = cstring ''-D'' then Inr (argCount, [Print_All])
      else if arg = cstring ''-t'' then Inr (argCount, [Performance_Test])
      else Inr (argCount, []))"

definition network_call :: "byte list \<Rightarrow> byte list list \<Rightarrow> nat \<Rightarrow> (nat \<times> call list) result" where
  "network_call arg args argCount =
     (if arg = cstring ''-o'' then (case args of [] \<Rightarrow> Inl Assert_Failed | a # _ \<Rightarrow> rbind (atoi a) (\<lambda>n. Inr (2, [Mail_Test n])))
      else Inr (argCount, []))"

definition main_round :: "build \<Rightarrow> byte list \<Rightarrow> byte list list \<Rightarrow> (nat \<times> call list) result" where
  "main_round cfg arg args =
     (let c0 = (if arg = cstring ''-z'' then [Print_Copyright] else []) in
      rbind (if USER_PROGRAM cfg then user_call arg args else Inr (1, [])) (\<lambda>(n1, c1).
      rbind (if FILESYS cfg then filesys_call arg args n1 else Inr (n1, [])) (\<lambda>(n2, c2).
      rbind (if NETWORK cfg then network_call arg args n2 else Inr (n2, [])) (\<lambda>(n3, c3).
      Inr (n3, c0 @ c1 @ c2 @ c3)))))"

lemma call_uses:
  "user_call arg args = Inr (n, cs) \<Longrightarrow> 0 < n"
  "filesys_call arg args k = Inr (n, cs) \<Longrightarrow> 0 < k \<Longrightarrow> 0 < n"
  "network_call arg args k = Inr (n, cs) \<Longrightarrow> 0 < k \<Longrightarrow> 0 < n"
  by (auto simp: user_call_def filesys_call_def network_call_def rbind_eq_Inr split: if_split_asm list.split_asm)

lemma main_round_uses: "main_round cfg arg args = Inr (n, cs) \<Longrightarrow> 0 < n"
  unfolding main_round_def Let_def
  by (auto simp: rbind_eq_Inr dest: call_uses split: if_split_asm)

text \<open>The calls of all rounds, and the failure that ended the loop early.\<close>

function main_loop :: "build \<Rightarrow> byte list list \<Rightarrow> call list \<times> nerror option" where
  "main_loop cfg [] = ([], None)"
| "main_loop cfg (arg # args) = (case main_round cfg arg args of Inl e \<Rightarrow> ([], Some e)
     | Inr (argCount, cs) \<Rightarrow> (case main_loop cfg (drop argCount (arg # args)) of (cs', e) \<Rightarrow> (cs @ cs', e)))"
  by pat_completeness auto
termination
  by (relation "measure (\<lambda>(cfg, args). length args)") (auto dest: main_round_uses)

section \<open>A run of the file system build\<close>

text \<open>
  What the commands print or report, and how the run ends: with \<^verbatim>\<open>Finish\<close> of the main thread, with a failure, or
  by entering a user program, the console test or the mail test. \<open>us\<close> is the memory behind \<^verbatim>\<open>new\<close>, one for each
  operation of the file system; \<open>host\<close> are the files of the host.
\<close>

datatype report = Copyright_Text | Copied bool | Printed "byte list option" | Removed bool | Listed "byte list list" | Dumped fs_dump
  | Tested bool bool bool

datatype ending = Finished sectors | Failed nerror | Entered call "call list" sectors

definition run_call :: "(nat \<Rightarrow> heap) \<Rightarrow> (nat \<Rightarrow> byte) \<Rightarrow> (byte list \<Rightarrow> byte list option) \<Rightarrow> FileSystem \<Rightarrow> call \<Rightarrow> sectors
    \<Rightarrow> (report \<times> sectors) result option" where
  "run_call us junk host fs c d = (case c of
     Print_Copyright \<Rightarrow> Some (Inr (Copyright_Text, d))
   | Copy_File a b \<Rightarrow> Some (rbind (Copy (us 0) (us 1) junk fs (host a) b d) (\<lambda>(ok, d'). Inr (Copied ok, d')))
   | Print_File a \<Rightarrow> Some (rbind (Print (us 0) junk fs a d) (\<lambda>out. Inr (Printed out, d)))
   | Remove_File a \<Rightarrow> Some (rbind (FileSystem_Remove (us 0) fs a d) (\<lambda>(ok, d'). Inr (Removed ok, d')))
   | List_Directory \<Rightarrow> Some (rbind (FileSystem_List (us 0) fs d) (\<lambda>ns. Inr (Listed ns, d)))
   | Print_All \<Rightarrow> Some (rbind (FileSystem_Print (us 0) fs d) (\<lambda>out. Inr (Dumped out, d)))
   | Performance_Test \<Rightarrow> Some (rbind (PerformanceTest (us 0) (us 1) (us 2) (us 3) junk fs d) (\<lambda>(w, r, ok, d'). Inr (Tested w r ok, d')))
   | _ \<Rightarrow> None)"

fun run_calls :: "(nat \<Rightarrow> heap) \<Rightarrow> (nat \<Rightarrow> byte) \<Rightarrow> (byte list \<Rightarrow> byte list option) \<Rightarrow> FileSystem \<Rightarrow> call list \<Rightarrow> nerror option
    \<Rightarrow> sectors \<Rightarrow> report list \<times> ending" where
  "run_calls us junk host fs [] e d = ([], case e of None \<Rightarrow> Finished d | Some err \<Rightarrow> Failed err)"
| "run_calls us junk host fs (c # cs) e d = (case run_call us junk host fs c d of None \<Rightarrow> ([], Entered c cs d)
     | Some (Inl err) \<Rightarrow> ([], Failed err)
     | Some (Inr (out, d')) \<Rightarrow> (case run_calls (\<lambda>i. us (i + 4)) junk host fs cs e d' of (outs, r) \<Rightarrow> (out # outs, r)))"

definition nachos :: "build \<Rightarrow> (nat \<Rightarrow> heap) \<Rightarrow> (nat \<Rightarrow> byte) \<Rightarrow> (byte list \<Rightarrow> byte list option) \<Rightarrow> byte list list \<Rightarrow> sectors
    \<Rightarrow> report list \<times> ending" where
  "nachos cfg us junk host argv d = (case read_options cfg (tl argv) default_options of Inl e \<Rightarrow> ([], Failed e)
     | Inr opts \<Rightarrow> (case FileSystem_new (us 0) (format opts) d of Inl e \<Rightarrow> ([], Failed e)
       | Inr (fs, d1) \<Rightarrow> (case main_loop cfg (tl argv) of (cs, e) \<Rightarrow> run_calls (\<lambda>i. us (i + 1)) junk host fs cs e d1)))"

section \<open>Running commands\<close>

lemma cstring_inject [simp]: "cstring a = cstring b \<longleftrightarrow> a = b"
proof -
  have "unat (of_char c :: byte) = of_char c" for c
    by (simp flip: of_nat_of_char [where ?'a = byte] add: unsigned_of_nat take_bit_nat_eq_self_iff nat_of_char_less_256 [simplified])
  then have "inj (of_char :: char \<Rightarrow> byte)" by (intro injI) (metis of_char_eqI)
  then show ?thesis by (simp add: cstring_def inj_map_eq_map)
qed

text \<open>Arguments that no round takes for an option.\<close>

definition plain :: "byte list \<Rightarrow> bool" where
  "plain a \<longleftrightarrow> a = [] \<or> hd a \<noteq> 45"

lemma plain_neq: "plain a \<Longrightarrow> a \<noteq> cstring (CHR ''-'' # cs)"
  by (auto simp: plain_def cstring_def)

lemma plain_skipped:
  assumes "plain a"
  shows "read_option cfg a args o1 = Inr (1, o1)" "main_round cfg a args = Inr (1, [])"
  using plain_neq [OF assms]
  by (simp_all add: read_option_def thread_option_def flag_options_def network_option_def main_round_def user_call_def filesys_call_def network_call_def Let_def)

lemmas command_defs = read_option_def thread_option_def flag_options_def network_option_def main_round_def user_call_def
  filesys_call_def network_call_def

lemma filesys_rounds:
  assumes "FILESYS cfg"
  shows "FILESYS_NEEDED cfg \<Longrightarrow> read_option cfg (cstring ''-f'') args opts = Inr (1, opts\<lparr>format := True\<rparr>)"
    "read_option cfg (cstring ''-cp'') args opts = Inr (1, opts)" "read_option cfg (cstring ''-p'') args opts = Inr (1, opts)"
    "read_option cfg (cstring ''-r'') args opts = Inr (1, opts)" "main_round cfg (cstring ''-f'') args = Inr (1, [])"
    "main_round cfg (cstring ''-cp'') (a # b # args) = Inr (3, [Copy_File a b])"
    "main_round cfg (cstring ''-p'') (a # args) = Inr (2, [Print_File a])"
    "main_round cfg (cstring ''-r'') (a # args) = Inr (2, [Remove_File a])"
  using assms by (simp_all add: command_defs Let_def)

lemma command_cp:
  assumes "FILESYS cfg" "FILESYS_NEEDED cfg" "plain unix" "plain nm"
  shows "read_options cfg [cstring ''-f'', cstring ''-cp'', unix, nm] opts = Inr (opts\<lparr>format := True\<rparr>)"
    "main_loop cfg [cstring ''-f'', cstring ''-cp'', unix, nm] = ([Copy_File unix nm], None)"
  using assms by (simp_all add: filesys_rounds plain_skipped)

lemma command_file:
  assumes "FILESYS cfg" "plain nm"
  shows "read_options cfg [cstring ''-p'', nm] opts = Inr opts" "main_loop cfg [cstring ''-p'', nm] = ([Print_File nm], None)"
    "read_options cfg [cstring ''-r'', nm, cstring ''-p'', nm] opts = Inr opts"
    "main_loop cfg [cstring ''-r'', nm, cstring ''-p'', nm] = ([Remove_File nm, Print_File nm], None)"
  using assms by (simp_all add: filesys_rounds plain_skipped)

declare read_options.simps [simp del] main_loop.simps [simp del]

lemma has_room_empty:
  assumes "fs_ok fs d" "fs_files fs d = Map.empty"
  shows "has_room (fs_dir fs d)"
proof (rule ccontr)
  assume n: "\<not> has_room (fs_dir fs d)"
  have l: "length (table (fs_dir fs d)) = 10" by (simp add: fs_dir_def NumDirEntries_def)
  then have "hd (table (fs_dir fs d)) \<in> set (table (fs_dir fs d))" by (intro hd_in_set) auto
  with n have "(name_key (de_name (hd (table (fs_dir fs d)))), de_sector (hd (table (fs_dir fs d)))) \<in> set (dir_pairs (table (fs_dir fs d)))"
    by (auto simp: has_room_def dir_pairs_def)
  then have "fs_index fs d (name_key (de_name (hd (table (fs_dir fs d))))) \<noteq> None"
    unfolding fs_index_def dir_map_def map_of_eq_None_iff by force
  then show False using assms(2) by (auto simp: fs_files_def fun_eq_iff)
qed

text \<open>
  C29: files survive a restart. A run that formats the disk and copies a file of the host into it leaves a disk on which a later run, without
  formatting, prints exactly the bytes of that file, and on which a run that removes it finds it gone; every run ends normally.
\<close>

theorem files_survive_restart:
  assumes "FILESYS cfg" "FILESYS_NEEDED cfg" "\<forall>i. heap_ok (us i)" "\<forall>i. heap_ok (vs i)" "disk_wf d"
    "host unix = Some bs" "length bs \<le> MaxFileSize" "plain unix" "plain nm"
  shows "\<exists>d' d''. nachos cfg us junk host [prog, cstring ''-f'', cstring ''-cp'', unix, nm] d = ([Copied True], Finished d')
    \<and> nachos cfg vs junk' host' [prog, cstring ''-p'', nm] d' = ([Printed (Some bs)], Finished d')
    \<and> nachos cfg vs junk' host' [prog, cstring ''-r'', nm, cstring ''-p'', nm] d' = ([Removed True, Printed None], Finished d'')"
proof -
  have u: "heap_ok (us i)" "heap_ok (vs i)" for i using assms(3,4) by simp_all
  obtain fs d1 where f: "FileSystem_new (us 0) True d = Inr (fs, d1)" "fs_ok fs d1" "fs_files fs d1 = Map.empty"
    "card (marked (fs_map fs d1)) = 4" by (rule format_uses_four_sectors [OF u(1) assms(5)])
  have "divRoundUp (length bs) SectorSize < NumSectors - card (marked (fs_map fs d1))"
  proof -
    have "divRoundUp (length bs) SectorSize \<le> NumDirect" using assms(7) divRoundUp_le_iff [of SectorSize "length bs" NumDirect]
      by (simp add: MaxFileSize_def SectorSize_def)
    then show ?thesis using f(4) by (simp add: NumDirect_def SectorSize_def fs_sizes)
  qed
  with Copy_copies [OF f(2) u(1) [of 1] u(1) [of 2] assms(7), of nm junk] f(3) has_room_empty [OF f(2,3)] obtain d2 where
    c: "Copy (us 1) (us 2) junk fs (Some bs) nm d1 = Inr (True, d2)" "fs_ok fs d2" "fs_files fs d2 (name_key nm) = Some bs"
    by auto
  have r1: "nachos cfg us junk host [prog, cstring ''-f'', cstring ''-cp'', unix, nm] d = ([Copied True], Finished d2)"
    using f(1) c(1) assms(6) by (simp add: nachos_def command_cp [OF assms(1,2,8,9)] run_call_def numeral_2_eq_2)
  obtain fs' where m: "FileSystem_new (vs 0) False d2 = Inr (fs', d2)" using mount_ok [OF c(2), of "vs 0"] by blast
  note fs' = fs_ok_mount [OF c(2) m]
  have p: "Print (vs 1) junk' fs' nm d2 = Inr (Some bs)" using Print_prints [OF fs'(1) u(2)] fs'(2) c(3) by simp
  have "fs_files fs' d2 (name_key nm) = Some bs" using fs'(2) c(3) by simp
  then obtain sec where sec: "fs_index fs' d2 (name_key nm) = Some sec" by (auto simp: fs_files_def)
  obtain d3 where d3: "FileSystem_Remove (vs 1) fs' nm d2 = Inr (True, d3)" "fs_ok fs' d3"
    "fs_files fs' d3 = (fs_files fs' d2)(name_key nm := None)" using Remove_existing [OF fs'(1) u(2) sec] by blast
  have q: "Print (vs 5) junk' fs' nm d3 = Inr None" using Print_prints [OF d3(2) u(2)] d3(3) by simp
  have "nachos cfg vs junk' host' [prog, cstring ''-p'', nm] d2 = ([Printed (Some bs)], Finished d2)"
    "nachos cfg vs junk' host' [prog, cstring ''-r'', nm, cstring ''-p'', nm] d2 = ([Removed True, Printed None], Finished d3)"
    using m p d3(1) q by (simp_all add: nachos_def command_file [OF assms(1,9)] default_options_def run_call_def)
  with r1 show ?thesis by blast
qed

theorem files_survive_restart_witness:
  "\<exists>d'. nachos \<lparr>USER_PROGRAM = False, FILESYS_NEEDED = True, FILESYS = True, NETWORK = False\<rparr> (\<lambda>_. demo_heap) (\<lambda>_. 9)
     [[117] \<mapsto> replicate 25 7] [[110], cstring ''-f'', cstring ''-cp'', [117], [97]] demo_disk = ([Copied True], Finished d')
   \<and> nachos \<lparr>USER_PROGRAM = False, FILESYS_NEEDED = True, FILESYS = True, NETWORK = False\<rparr> (\<lambda>_. demo_heap) (\<lambda>_. 9)
     Map.empty [[110], cstring ''-p'', [97]] d' = ([Printed (Some (replicate 25 7))], Finished d')"
  using files_survive_restart [of "\<lparr>USER_PROGRAM = False, FILESYS_NEEDED = True, FILESYS = True, NETWORK = False\<rparr>" "\<lambda>_. demo_heap"
      "\<lambda>_. demo_heap" demo_disk "[[117] \<mapsto> replicate 25 7]" "[117]" "replicate 25 7" "[97]" "\<lambda>_. 9" "[110]" "\<lambda>_. 9" Map.empty]
    demo_heap_ok demo_file_ok(2)
  by (auto simp: plain_def MaxFileSize_def NumDirect_def SectorSize_def)

end
