(* ===== verification/Machine_Debug.thy ===== *)
theory Machine_Debug
  imports Command_Line User_Process
begin

text \<open>
  The single-step debugger of \<^verbatim>\<open>machine/machine.cc\<close>, which the option \<^verbatim>\<open>-s\<close> turns on and the loop of \<^verbatim>\<open>Machine::Run\<close> calls, and the
  check of the byte order with which the machine is created.
\<close>

section \<open>The byte order\<close>

text \<open>\<open>declared\<close> is the switch \<^verbatim>\<open>HOST_IS_BIG_ENDIAN\<close>, \<open>actual\<close> says how the host stores an integer.\<close>

definition CheckEndian :: "bool \<Rightarrow> bool \<Rightarrow> unit result" where
  "CheckEndian declared actual = (let charword = (\<lambda>i. [1, 2, 3, 4] ! i) :: nat \<Rightarrow> byte; intword = host_load32 actual charword 0 in
     ASSERT (intword = (if declared then 0x01020304 else 0x04030201)))"

lemma CheckEndian_exact: "CheckEndian declared actual = Inr () \<longleftrightarrow> declared = actual"
  by (cases declared; cases actual) (simp_all add: CheckEndian_def host_load32_def word_le_def)

section \<open>The debugger\<close>

text \<open>
  \<^verbatim>\<open>sscanf\<close> with the format \<^verbatim>\<open>%d\<close>: the number at the start of the line, if there is one. \<^verbatim>\<open>Debugger\<close> returns the new value of
  \<^verbatim>\<open>runUntilTime\<close>; what it prints is left out. \<open>line\<close> is what \<^verbatim>\<open>fgets\<close> read.
\<close>

definition sscanf_d :: "byte list \<Rightarrow> int option result" where
  "sscanf_d line = (let t = dropWhile (\<lambda>c. c = 32 \<or> 9 \<le> c \<and> c \<le> 13) line; u = (if t \<noteq> [] \<and> (hd t = 45 \<or> hd t = 43) then tl t else t) in
     if takeWhile is_digit u = [] then Inr None else rbind (atoi line) (\<lambda>n. Inr (Some n)))"

definition Debugger :: "byte list \<Rightarrow> machine \<Rightarrow> (int \<times> machine) result" where
  "Debugger line m = rbind (sscanf_d line) (\<lambda>r. case r of Some n \<Rightarrow> Inr (n, m)
     | None \<Rightarrow> Inr (0, if line \<noteq> [] \<and> hd line = of_char CHR ''c'' then m\<lparr>singleStep := False\<rparr> else m))"

text \<open>The end of a round of \<^verbatim>\<open>Machine::Run\<close>; the third component says whether the debugger was called.\<close>

definition debug_check :: "byte list \<Rightarrow> int \<Rightarrow> 'z usys \<Rightarrow> (int \<times> 'z usys \<times> bool) result" where
  "debug_check line runUntilTime s = rbind (the_machine s) (\<lambda>m.
     if singleStep m \<and> runUntilTime \<le> totalTicks (stats s)
     then rbind (Debugger line m) (\<lambda>(n, m1). Inr (n, s\<lparr>mach := Some m1\<rparr>, True)) else Inr (runUntilTime, s, False))"

text \<open>
  A number keeps the debugger quiet until the clock reaches it, the command \<^verbatim>\<open>c\<close> for ever, and after any other line it is back at the next
  instruction; nothing else of the machine changes.
\<close>

lemma debugger_obeys:
  assumes "debug_check line u s = Inr (n, s1, True)" "mach s = Some m"
  shows "\<exists>m1. mach s1 = Some m1 \<and> m1\<lparr>singleStep := True\<rparr> = m\<lparr>singleStep := True\<rparr>
    \<and> (\<forall>l s2. mach s2 = Some m1 \<longrightarrow> 0 \<le> totalTicks (stats s2) \<longrightarrow>
        (if sscanf_d line = Inr None then (\<exists>r. debug_check l n s2 = Inr (r, s2, False)) \<longleftrightarrow> hd line = of_char CHR ''c'' \<and> line \<noteq> []
         else totalTicks (stats s2) < n \<longrightarrow> debug_check l n s2 = Inr (n, s2, False)))"
proof -
  obtain r where r: "sscanf_d line = Inr r" "singleStep m" "u \<le> totalTicks (stats s)"
    using assms by (auto simp: debug_check_def the_machine_def Debugger_def rbind_eq_Inr split: if_splits)
  show ?thesis
  proof (cases r)
    case None
    then show ?thesis using r assms
      by (auto simp: debug_check_def the_machine_def Debugger_def rbind_eq_Inr split: if_splits)
  next
    case (Some k)
    then show ?thesis using r assms by (auto simp: debug_check_def the_machine_def Debugger_def)
  qed
qed

end
