(* ===== verification/Mips_Agree.thy ===== *)
theory Mips_Agree
  imports Mips_Interp
begin

text \<open>
  The two MIPS simulators of the repository compared: on the instructions both implement alike, a step of the interpreter
  of \<^verbatim>\<open>bin/execute.c\<close> does what \<^verbatim>\<open>Machine::OneInstruction\<close> does; and the multiplication, which they do not.
\<close>

section \<open>Decoding, seen from both sides\<close>

text \<open>The place of an operation in a table of the kernel is its code in \<^verbatim>\<open>bin/encode.h\<close>.\<close>

definition pos :: "'a \<Rightarrow> 'a list \<Rightarrow> nat" where
  "pos x xs = length (takeWhile (\<lambda>y. y \<noteq> x) xs)"

lemma tables_positions:
  "list_all (\<lambda>i. specialTable ! i \<in> {OP_RES, OP_UNIMP} \<or> pos (specialTable ! i) specialTable = i) [0..<64]"
  "list_all (\<lambda>i. fst (opTable ! i) \<in> {OP_RES, OP_UNIMP} \<or> pos (fst (opTable ! i)) (map fst opTable) = i) [0..<64]"
  "list_all (\<lambda>x. x \<in> {OP_RES, OP_UNIMP} \<or> x \<notin> set (map fst opTable) \<and> x \<notin> {OP_BLTZ, OP_BGEZ, OP_BLTZAL, OP_BGEZAL}) specialTable"
  "list_all (\<lambda>x. fst x \<notin> {OP_BLTZ, OP_BGEZ, OP_BLTZAL, OP_BGEZAL}) opTable"
  "pos SPECIAL (map fst opTable) = 0" "pos BCOND (map fst opTable) = 1"
  by code_simp+

lemma special_at: "unat (v AND 0x3f :: word32) = k \<Longrightarrow> specialTable ! k \<notin> {OP_RES, OP_UNIMP} \<Longrightarrow> k = pos (specialTable ! k) specialTable"
  using tables_positions(1) unat_field_less(2) [of v] by (auto simp: list_all_iff)

lemma main_at: "unat (v AND 0x3f :: word32) = k \<Longrightarrow> fst (opTable ! k) \<notin> {OP_RES, OP_UNIMP} \<Longrightarrow> k = pos (fst (opTable ! k)) (map fst opTable)"
  using tables_positions(2) unat_field_less(2) [of v] by (auto simp: list_all_iff)

lemma Decode_opCode_cases:
  "opCode (Decode v) = (let op = fst (opTable ! unat (drop_bit 26 v AND 0x3f)) in
     if op = SPECIAL then specialTable ! unat (v AND 0x3f) else if op = BCOND then decode_bcond v else op)"
  by (simp add: Decode_def split_beta Let_def)

lemma special_codes:
  assumes "opCode (Decode v) = op" "op \<in> set specialTable" "op \<notin> {OP_RES, OP_UNIMP}"
  shows "drop_bit 26 v AND 0x3f = 0" "unat (v AND 0x3f) = pos op specialTable"
proof -
  let ?o = "drop_bit 26 v AND 0x3f :: word32" and ?f = "unat (v AND 0x3f)"
  have k: "unat ?o < 64" "?f < 64" using unat_field_less by simp_all
  have x: "op \<notin> set (map fst opTable)" "op \<notin> {OP_BLTZ, OP_BGEZ, OP_BLTZAL, OP_BGEZAL}"
    using tables_positions(3) assms(2,3) by (auto simp: list_all_iff)
  have "fst (opTable ! unat ?o) \<in> set (map fst opTable)" using k(1) by (simp add: length_tables)
  then have "fst (opTable ! unat ?o) = SPECIAL" using assms(1,3) x
    by (auto simp: Decode_opCode_cases Let_def decode_bcond_def split: if_splits)
  with main_at [OF refl, of "drop_bit 26 v"] assms(1) show "?o = 0" by (simp add: tables_positions(5) unat_eq_0)
  show "?f = pos op specialTable" using special_at [OF refl, of v] assms(1,3) \<open>fst (opTable ! unat ?o) = SPECIAL\<close>
    by (auto simp: Decode_opCode_cases)
qed

lemma main_codes:
  assumes "opCode (Decode v) = op" "op \<in> set (map fst opTable)" "op \<notin> {OP_RES, OP_UNIMP}"
  shows "unat (drop_bit 26 v AND 0x3f) = pos op (map fst opTable)"
proof -
  let ?o = "drop_bit 26 v AND 0x3f :: word32" and ?f = "unat (v AND 0x3f)"
  have k: "unat ?o < 64" "?f < 64" using unat_field_less by simp_all
  have "specialTable ! ?f \<in> set specialTable" using k(2) by (simp add: length_tables)
  then have "specialTable ! ?f \<noteq> op" using tables_positions(3) assms(2,3) by (auto simp: list_all_iff)
  moreover have "decode_bcond v \<noteq> op" using tables_positions(4) assms(2,3) by (auto simp: list_all_iff decode_bcond_def Let_def)
  ultimately have "fst (opTable ! unat ?o) = op" using assms(1) by (simp add: Decode_opCode_cases Let_def split: if_splits)
  with main_at [OF refl, of "drop_bit 26 v"] assms(3) show ?thesis by auto
qed
lemma mask_consts: "(0x7fff :: word32) = mask 15" "(- 0x8000 :: word32) = NOT (mask 15)" "(0xffff :: word32) = mask 16" "(0xffff0000 :: word32) = NOT (mask 16)"
  by (simp_all add: mask_eq_exp_minus_1)

lemma immed_extra: "immed v = decode_extra IFMT v"
proof -
  have b: "v AND 0x8000 \<noteq> 0 \<longleftrightarrow> bit v 15" "(v AND mask 16) AND 0x8000 \<noteq> 0 \<longleftrightarrow> bit v 15"
    using and_exp_eq_0_iff_not_bit [of v 15] and_exp_eq_0_iff_not_bit [of "v AND mask 16" 15] by (simp_all add: bit_simps)
  have "(if bit v 15 then v OR NOT (mask 15) else v AND mask 15) = (if bit v 15 then (v AND mask 16) OR NOT (mask 16) else v AND mask 16)"
  proof (rule bit_word_eqI)
    fix n assume "n < LENGTH(32)"
    consider "n < 15" | "n = 15" | "15 < n" by linarith
    then show "bit (if bit v 15 then v OR NOT (mask 15) else v AND mask 15) n
        = bit (if bit v 15 then (v AND mask 16) OR NOT (mask 16) else v AND mask 16) n"
      using \<open>n < LENGTH(32)\<close> by cases (auto simp: bit_simps)
  qed
  then show ?thesis unfolding immed_def decode_extra_def opformat.case Let_def mask_consts b .
qed

lemma of_unat: "unat (x :: word32) = k \<Longrightarrow> x = of_nat k"
  by auto

lemma bcond_codes:
  assumes "opCode (Decode v) = op" "op \<in> {OP_BLTZ, OP_BGEZ, OP_BLTZAL, OP_BGEZAL}"
  shows "drop_bit 26 v AND 0x3f = 1" "decode_bcond v = op"
proof -
  let ?o = "drop_bit 26 v AND 0x3f :: word32" and ?f = "unat (v AND 0x3f)"
  have k: "unat ?o < 64" "?f < 64" using unat_field_less by simp_all
  have "specialTable ! ?f \<in> set specialTable" "opTable ! unat ?o \<in> set opTable" using k by (simp_all add: length_tables)
  then have n: "specialTable ! ?f \<noteq> op" "fst (opTable ! unat ?o) \<noteq> op"
    using tables_positions(3,4) assms(2) by (auto simp: list_all_iff)
  then have b: "fst (opTable ! unat ?o) = BCOND" using assms(1) by (auto simp: Decode_opCode_cases Let_def split: if_splits)
  then show "decode_bcond v = op" using assms(1) by (simp add: Decode_opCode_cases Let_def)
  have "unat ?o = 1" using main_at [OF refl, of "drop_bit 26 v"] b by (simp add: tables_positions(6))
  then show "?o = 1" using of_unat [of ?o 1] by simp
qed

lemma bcond_field: "field_rt v = drop_bit 16 (v AND 0x1f0000)"
  by (simp add: field_rt_def drop_bit_and)

lemma bcond_rt:
  assumes "decode_bcond v = op" "op \<in> {OP_BLTZ, OP_BGEZ, OP_BLTZAL, OP_BGEZAL}"
  shows "field_rt v = (if op = OP_BLTZ then 0 else if op = OP_BGEZ then 1 else if op = OP_BLTZAL then 16 else 17)"
  unfolding bcond_field using assms by (auto simp: decode_bcond_def Let_def split: if_split_asm simp del: drop_bit_and)

lemma positions:
  "map (\<lambda>op. pos op specialTable) [OP_SLL, OP_SRL, OP_SRA, OP_SLLV, OP_SRLV, OP_SRAV, OP_JR, OP_JALR, OP_MFHI, OP_MTHI, OP_MFLO, OP_MTLO,
     OP_DIV, OP_DIVU, OP_ADD, OP_ADDU, OP_SUB, OP_SUBU, OP_AND, OP_OR, OP_XOR, OP_NOR, OP_SLT, OP_SLTU]
   = [0, 2, 3, 4, 6, 7, 8, 9, 16, 17, 18, 19, 26, 27, 32, 33, 34, 35, 36, 37, 38, 39, 42, 43]"
  "map (\<lambda>op. pos op (map fst opTable)) [OP_J, OP_JAL, OP_BEQ, OP_BNE, OP_BLEZ, OP_BGTZ, OP_ADDI, OP_ADDIU, OP_SLTI, OP_SLTIU, OP_ANDI, OP_ORI,
     OP_XORI, OP_LUI] = [2, 3, 4, 5, 6, 7, 8, 9, 10, 11, 12, 13, 14, 15]"
  "list_all (\<lambda>op. op \<in> set specialTable) [OP_SLL, OP_SRL, OP_SRA, OP_SLLV, OP_SRLV, OP_SRAV, OP_JR, OP_JALR, OP_MFHI, OP_MTHI, OP_MFLO, OP_MTLO,
     OP_DIV, OP_DIVU, OP_ADD, OP_ADDU, OP_SUB, OP_SUBU, OP_AND, OP_OR, OP_XOR, OP_NOR, OP_SLT, OP_SLTU]"
  "list_all (\<lambda>op. op \<in> set (map fst opTable)) [OP_J, OP_JAL, OP_BEQ, OP_BNE, OP_BLEZ, OP_BGTZ, OP_ADDI, OP_ADDIU, OP_SLTI, OP_SLTIU, OP_ANDI, OP_ORI,
     OP_XORI, OP_LUI]"
  by code_simp+


lemma decode_regs: "rs (Decode v) = unat (field_rs v)" "rt (Decode v) = unat (field_rt v)" "rd (Decode v) = unat (field_rd v)"
  by (simp_all add: Decode_def split_beta Let_def field_rs_def field_rt_def field_rd_def)

lemma field_less: "unat (field_rs v) < 32" "unat (field_rt v) < 32" "unat (field_rd v) < 32"
  "unat (field_rs v) < 40" "unat (field_rt v) < 40" "unat (field_rd v) < 40"
proof -
  show *: "unat (field_rs v) < 32" "unat (field_rt v) < 32" "unat (field_rd v) < 32"
    using unat_field_less(1) by (simp_all add: field_rs_def field_rt_def field_rd_def)
  show "unat (field_rs v) < 40" "unat (field_rt v) < 40" "unat (field_rd v) < 40" using * by linarith+
qed

lemma decode_extra_of:
  "drop_bit 26 v AND 0x3f = 0 \<Longrightarrow> extra (Decode v) = field_shamt v"
  "unat (drop_bit 26 v AND 0x3f) = k \<Longrightarrow> snd (opTable ! k) = IFMT \<Longrightarrow> extra (Decode v) = immed v"
  "unat (drop_bit 26 v AND 0x3f) = k \<Longrightarrow> snd (opTable ! k) = JFMT \<Longrightarrow> extra (Decode v) = v AND 0x3ffffff"
  by (auto simp: Decode_def split_beta Let_def opTable_0 immed_extra) (simp_all add: decode_extra_def field_shamt_def)

section \<open>One instruction\<close>

text \<open>
  The registers of the interpreter are the first 32 of the machine. \<open>follows\<close> says that the switch of the machine completed without starting a
  delayed load, that the interpreter executed the same instruction, and that they are left with the same registers and the same next program counter.
\<close>

definition view :: "machine \<Rightarrow> interp \<Rightarrow> bool" where
  "view m s \<longleftrightarrow> length (registers m) = NumTotalRegs \<and> Reg s = take 32 (registers m)
     \<and> HI s = registers m ! HiReg \<and> LO s = registers m ! LoReg"

definition follows :: "interp \<Rightarrow> machine \<Rightarrow> outcome result \<Rightarrow> interp result \<Rightarrow> bool" where
  "follows s m r q \<longleftrightarrow> (\<exists>p v m' s'. r = Inr (Done (p, 0, v) m') \<and> q = Inr s' \<and> view m' s' \<and> npc s' = p \<and> pc s' = pc s
     \<and> mem s' = mem s \<and> mainMemory m' = mainMemory m)"

lemma get_view: "view m s \<Longrightarrow> unat k < 32 \<Longrightarrow> get k s = Inr (registers m ! unat k)"
  by (simp add: get_def view_def reg_defs)

lemma view_set: "view m s \<Longrightarrow> k < 32 \<Longrightarrow> view (m\<lparr>registers := (registers m)[k := v]\<rparr>) (s\<lparr>Reg := (Reg s)[k := v]\<rparr>)"
  by (simp add: view_def take_update_swap reg_defs)

lemma follows_put:
  assumes "view m s" "unat k < 32" "npc s = n + 4"
  shows "follows s m (put (unat k) v n m) (set_to k v s)"
  using assms view_set [OF assms(1,2), of v]
  by (auto simp: follows_def put_def retire_def set_to_def set_reg_def view_def reg_defs)

lemma follows_hi_lo:
  assumes "view m s" "npc s = n + 4"
  shows "follows s m (put_hi_lo h l n m) (Inr (s\<lparr>LO := l, HI := h\<rparr>))"
    "follows s m (put HiReg h n m) (Inr (s\<lparr>HI := h\<rparr>))" "follows s m (put LoReg l n m) (Inr (s\<lparr>LO := l\<rparr>))"
  using assms by (auto simp: follows_def put_hi_lo_def put_def retire_def set_reg_def view_def reg_defs)

text \<open>
  The instructions with the same meaning in both simulators, with the contents of the two source registers. Loads, stores, multiplications and
  system calls are not among them; the logical instructions with immediates differ when the immediate is negative, the logical right shifts when the
  operand is, a division by zero is no operation in one of them only, the smallest number divided by minus one stops both, and \<^verbatim>\<open>OR\<close> differs because the kernel's simulator combines \<open>rs\<close> with itself.
\<close>

definition same_meaning :: "Instruction \<Rightarrow> word32 \<Rightarrow> word32 \<Rightarrow> bool" where
  "same_meaning i a b \<longleftrightarrow> (let op = opCode i in
     op \<in> {OP_ADD, OP_ADDI, OP_ADDIU, OP_ADDU, OP_AND, OP_BEQ, OP_BNE, OP_BLEZ, OP_BGTZ, OP_BLTZ, OP_BGEZ, OP_BLTZAL, OP_BGEZAL,
       OP_JR, OP_J, OP_JAL, OP_LUI, OP_MFHI, OP_MFLO, OP_MTHI, OP_MTLO, OP_NOR, OP_SLL, OP_SLT, OP_SLTI, OP_SLTIU, OP_SLTU, OP_SRA,
       OP_SUB, OP_SUBU, OP_XOR}
     \<or> op \<in> {OP_ANDI, OP_ORI, OP_XORI} \<and> extra i < 0x8000
     \<or> op \<in> {OP_SLLV, OP_SRAV} \<and> a < 32
     \<or> op = OP_SRL \<and> 0 \<le> sint b \<or> op = OP_SRLV \<and> a < 32 \<and> 0 \<le> sint b
     \<or> op = OP_OR \<and> a OR b = a \<or> op \<in> {OP_DIV, OP_DIVU} \<and> b \<noteq> 0 \<and> (op = OP_DIV \<longrightarrow> \<not> (a = SIGN_BIT \<and> b = - 1)) \<or> op = OP_JALR \<and> rs i \<noteq> rd i)"


text \<open>
  The signed additions and subtractions trap in the kernel's simulator when the exact result has no place in 32 bits; \<open>wraps_to\<close> is where the
  interpreter puts what is left of it, and what that is.
\<close>

definition fits32 :: "int \<Rightarrow> bool" where
  "fits32 k \<longleftrightarrow> - (2 ^ 31) \<le> k \<and> k < 2 ^ 31"

definition overflows :: "Instruction \<Rightarrow> word32 \<Rightarrow> word32 \<Rightarrow> bool" where
  "overflows i a b \<longleftrightarrow> opCode i = OP_ADD \<and> \<not> fits32 (sint a + sint b) \<or> opCode i = OP_ADDI \<and> \<not> fits32 (sint a + sint (extra i))
     \<or> opCode i = OP_SUB \<and> \<not> fits32 (sint a - sint b)"

definition wraps_to :: "Instruction \<Rightarrow> word32 \<Rightarrow> word32 \<Rightarrow> nat \<times> word32" where
  "wraps_to i a b = (if opCode i = OP_ADD then (rd i, a + b) else if opCode i = OP_ADDI then (rt i, a + extra i) else (rd i, a - b))"

lemma sign_bit_sint: "(a :: word32) AND SIGN_BIT = 0 \<longleftrightarrow> 0 \<le> sint a"
  using and_exp_eq_0_iff_not_bit [of a 31] bit_last_iff [of a] by (simp add: SIGN_BIT_def not_less)

lemma sign_bit_xor: "(a XOR b :: word32) AND SIGN_BIT = 0 \<longleftrightarrow> (0 \<le> sint a \<longleftrightarrow> 0 \<le> sint b)"
  using and_exp_eq_0_iff_not_bit [of "a XOR b" 31] bit_last_iff [of a] bit_last_iff [of b] by (auto simp: SIGN_BIT_def bit_xor_iff)

lemma sint_range32: "- (2 ^ 31) \<le> sint (a :: word32)" "sint (a :: word32) < 2 ^ 31"
  using sint_ge [of a] sint_lt [of a] by simp_all

lemma wrapped_sint:
  fixes k :: int
  assumes "- (2 ^ 32) \<le> k" "k < 2 ^ 32"
  shows "sint (word_of_int k :: word32) = (if k < - (2 ^ 31) then k + 2 ^ 32 else if k < 2 ^ 31 then k else k - 2 ^ 32)"
proof -
  have s: "sint (word_of_int j :: word32) = j" if "- (2 ^ 31) \<le> j" "j < 2 ^ 31" for j :: int
    using that by (simp add: signed_of_int signed_take_bit_int_eq_self)
  have w: "(word_of_int (k + 2 ^ 32) :: word32) = word_of_int k" "(word_of_int (k - 2 ^ 32) :: word32) = word_of_int k"
    by (simp_all add: word_of_int_eq_iff)
  show ?thesis using s [of k] s [of "k + 2 ^ 32", unfolded w] s [of "k - 2 ^ 32", unfolded w] assms by (simp add: not_less)
qed

lemma signed_add_test: "(a XOR b :: word32) AND SIGN_BIT = 0 \<and> (a XOR (a + b)) AND SIGN_BIT \<noteq> 0 \<longleftrightarrow> \<not> fits32 (sint a + sint b)"
proof -
  have "word_of_int (sint a + sint b) = a + b" by simp
  then have "sint (a + b) = (if sint a + sint b < - (2 ^ 31) then sint a + sint b + 2 ^ 32
      else if sint a + sint b < 2 ^ 31 then sint a + sint b else sint a + sint b - 2 ^ 32)"
    using wrapped_sint [of "sint a + sint b"] sint_range32 [of a] sint_range32 [of b] by simp
  then show ?thesis using sint_range32 [of a] sint_range32 [of b] unfolding sign_bit_xor fits32_def by (auto split: if_splits)
qed

lemma signed_sub_test: "(a XOR b :: word32) AND SIGN_BIT \<noteq> 0 \<and> (a XOR (a - b)) AND SIGN_BIT \<noteq> 0 \<longleftrightarrow> \<not> fits32 (sint a - sint b)"
proof -
  have "word_of_int (sint a - sint b) = a - b" by simp
  then have "sint (a - b) = (if sint a - sint b < - (2 ^ 31) then sint a - sint b + 2 ^ 32
      else if sint a - sint b < 2 ^ 31 then sint a - sint b else sint a - sint b - 2 ^ 32)"
    using wrapped_sint [of "sint a - sint b"] sint_range32 [of a] sint_range32 [of b] by simp
  then show ?thesis using sint_range32 [of a] sint_range32 [of b] unfolding sign_bit_xor fits32_def by (auto split: if_splits)
qed

text \<open>The test for \<^verbatim>\<open>ADDI\<close> compares the sign of the sum with that of the immediate.\<close>

lemma signed_addi_test: "(a XOR b :: word32) AND SIGN_BIT = 0 \<and> (b XOR (a + b)) AND SIGN_BIT \<noteq> 0 \<longleftrightarrow> \<not> fits32 (sint a + sint b)"
  using signed_add_test [of a b] unfolding sign_bit_xor by blast

lemmas signed_tests = signed_add_test signed_sub_test signed_addi_test

lemma special_word:
  assumes "opCode (Decode v) = op" "op \<in> set specialTable" "op \<notin> {OP_RES, OP_UNIMP}"
  shows "drop_bit 26 v AND 0x3f = 0" "v AND 0x3f = of_nat (pos op specialTable)"
  using special_codes(1) [OF assms] of_unat [OF special_codes(2) [OF assms]] by simp_all

definition special_ops :: "opcode list" where
  "special_ops = [OP_SLL, OP_SRL, OP_SRA, OP_SLLV, OP_SRLV, OP_SRAV, OP_JR, OP_JALR, OP_MFHI, OP_MTHI, OP_MFLO, OP_MTLO,
     OP_DIV, OP_DIVU, OP_ADD, OP_ADDU, OP_SUB, OP_SUBU, OP_AND, OP_OR, OP_XOR, OP_NOR, OP_SLT, OP_SLTU]"

lemma special_ops_codes: "list_all (\<lambda>op. op \<in> set specialTable \<and> op \<notin> {OP_RES, OP_UNIMP}) special_ops"
  by code_simp

lemmas special_evals = interp_exec_def op_codes interp_special_def fn_codes Let_def decode_regs decode_extra_of(1) execute_def
  exec_shift_def exec_add_def exec_move_def exec_system_def

lemma special_follows:
  assumes "view m s" "npc s = n + 4" "\<not> overflows (Decode v) (registers m ! unat (field_rs v)) (registers m ! unat (field_rt v))"
    "opCode (Decode v) = op" "op \<in> {OP_SLL, OP_SRA, OP_ADD, OP_ADDU, OP_SUB, OP_SUBU, OP_AND, OP_XOR, OP_NOR, OP_SLT, OP_SLTU, OP_MFHI, OP_MFLO, OP_MTHI, OP_MTLO}"
  shows "follows s m (execute (Decode v) n m) (interp_exec host v x s)"
proof -
  let ?a = "registers m ! unat (field_rs v)" and ?b = "registers m ! unat (field_rt v)"
  have r: "reg (unat (field_rs v)) m = Inr ?a" "reg (unat (field_rt v)) m = Inr ?b" "reg HiReg m = Inr (HI s)" "reg LoReg m = Inr (LO s)"
    using assms(1) field_less [of v] by (simp_all add: view_def reg_defs reg_def)
  have g: "get (field_rs v) s = Inr ?a" "get (field_rt v) s = Inr ?b" using get_view [OF assms(1)] field_less by simp_all
  have o: "op \<in> set specialTable" "op \<notin> {OP_RES, OP_UNIMP}" using assms(5) special_ops_codes by (auto simp: list_all_iff special_ops_def)
  note w = special_word [OF assms(4) o]
  show ?thesis using assms(5) assms(3)
    by (elim insertE emptyE; simp add: special_evals overflows_def signed_tests w assms(4) positions [simplified] r g follows_put follows_hi_lo
      assms(1,2) field_less)
qed

lemma signed_drop_bit_nonneg:
  assumes "0 \<le> sint (b :: word32)"
  shows "signed_drop_bit k b = drop_bit k b"
proof -
  have "\<not> bit b 31" using assms bit_last_iff [of b] by simp
  then show ?thesis by (intro bit_word_eqI) (auto simp: bit_simps dest: bit_imp_le_length)
qed

lemma small_shift: "(a :: word32) < 32 \<Longrightarrow> a AND 0x1f = a"
  using less_mask_eq [of a 5] by (simp add: field_masks take_bit_eq_mask [symmetric])

lemma follows_jump: "view m s \<Longrightarrow> follows s m (Inr (Done (a, 0, 0) m)) (Inr (s\<lparr>npc := a\<rparr>))"
  by (auto simp: follows_def view_def)

lemma follows_link:
  assumes "view m s" "k < 32"
  shows "follows s m (Inr (Done (a, 0, 0) (m\<lparr>registers := (registers m)[k := l]\<rparr>))) (Inr (s\<lparr>npc := a, Reg := (Reg s)[k := l]\<rparr>))"
    "follows s m (Inr (Done (a, 0, 0) (m\<lparr>registers := (registers m)[k := l]\<rparr>))) (Inr (s\<lparr>Reg := (Reg s)[k := l], npc := a\<rparr>))"
  using view_set [OF assms, of l] by (auto simp: follows_def view_def)


lemma view_regs:
  assumes "view m s"
  shows "reg (unat (field_rs v)) m = Inr (registers m ! unat (field_rs v))" "reg (unat (field_rt v)) m = Inr (registers m ! unat (field_rt v))"
    "get (field_rs v) s = Inr (registers m ! unat (field_rs v))" "get (field_rt v) s = Inr (registers m ! unat (field_rt v))"
    "reg HiReg m = Inr (HI s)" "reg LoReg m = Inr (LO s)" "length (registers m) = 40" "length (Reg s) = 32"
  using assms field_less [of v] by (simp_all add: view_def reg_defs reg_def get_def)

lemma special_follows2:
  assumes "view m s" "npc s = n + 4"
    "same_meaning (Decode v) (registers m ! unat (field_rs v)) (registers m ! unat (field_rt v))"
    "opCode (Decode v) = op" "op \<in> {OP_SRL, OP_SLLV, OP_SRLV, OP_SRAV, OP_OR, OP_DIV, OP_DIVU}"
  shows "follows s m (execute (Decode v) n m) (interp_exec host v x s)"
proof -
  have o: "op \<in> set specialTable" "op \<notin> {OP_RES, OP_UNIMP}" using assms(5) special_ops_codes by (auto simp: list_all_iff special_ops_def)
  note w = special_word [OF assms(4) o]
  show ?thesis using assms(5) assms(3)
    by (elim insertE emptyE; simp add: same_meaning_def special_evals exec_div_def interp_div_def lift_shift_def w assms(4) positions [simplified]
      view_regs [OF assms(1)] follows_put follows_hi_lo assms(1,2) field_less signed_drop_bit_nonneg small_shift SIGN_BIT_def; blast?)
qed

lemma jump_follows:
  assumes "view m s" "npc s = n + 4" "op = OP_JALR \<longrightarrow> n = x + 4" "same_meaning (Decode v) a b" "opCode (Decode v) = op" "op \<in> {OP_JR, OP_JALR}"
  shows "follows s m (execute (Decode v) n m) (interp_exec host v x s)"
proof -
  have o: "op \<in> set specialTable" "op \<notin> {OP_RES, OP_UNIMP}" using assms(6) special_ops_codes by (auto simp: list_all_iff special_ops_def)
  note w = special_word [OF assms(5) o]
  show ?thesis using assms(6) assms(3) assms(4)
    by (elim insertE emptyE; simp add: same_meaning_def special_evals exec_jump_def w assms(5) positions [simplified]
      view_regs [OF assms(1)] follows_jump follows_link assms(1) field_less set_to_def set_reg_def reg_def add.commute [of 8])
qed

definition main_ops :: "opcode list" where
  "main_ops = [OP_J, OP_JAL, OP_BEQ, OP_BNE, OP_BLEZ, OP_BGTZ, OP_ADDI, OP_ADDIU, OP_SLTI, OP_SLTIU, OP_ANDI, OP_ORI, OP_XORI, OP_LUI]"

lemma main_ops_codes: "list_all (\<lambda>op. op \<in> set (map fst opTable) \<and> op \<notin> {OP_RES, OP_UNIMP}) main_ops"
  "map (\<lambda>k. snd (opTable ! k)) [2, 3, 4, 5, 6, 7, 8, 9, 10, 11, 12, 13, 14, 15]
    = [JFMT, JFMT, IFMT, IFMT, IFMT, IFMT, IFMT, IFMT, IFMT, IFMT, IFMT, IFMT, IFMT, IFMT]"
  by code_simp+

lemma main_word:
  assumes "opCode (Decode v) = op" "op \<in> set main_ops"
  shows "drop_bit 26 v AND 0x3f = of_nat (pos op (map fst opTable))" "unat (drop_bit 26 v AND 0x3f) = pos op (map fst opTable)"
proof -
  have "op \<in> set (map fst opTable)" "op \<notin> {OP_RES, OP_UNIMP}" using assms(2) main_ops_codes(1) by (auto simp: list_all_iff)
  note c = main_codes [OF assms(1) this]
  show "drop_bit 26 v AND 0x3f = of_nat (pos op (map fst opTable))" using of_unat [OF c] .
  show "unat (drop_bit 26 v AND 0x3f) = pos op (map fst opTable)" by (rule c)
qed

lemma immed_shift: "push_bit 16 (immed v) = push_bit 16 v"
proof -
  have "bit (immed v) k = bit v k" if "k < 16" for k
    unfolding immed_extra decode_extra_def opformat.case Let_def mask_consts using that by (auto simp: bit_simps)
  then show ?thesis by (intro bit_word_eqI) (auto simp: bit_simps)
qed

lemma small_immediate:
  assumes "(e :: word32) < 0x8000"
  shows "e AND 0xffff = e"
proof -
  have "e < 2 ^ 16" using assms by (rule order.strict_trans) simp
  then show ?thesis using less_mask_eq [of e 16] by (simp add: mask_consts take_bit_eq_mask [symmetric])
qed

lemma follows_branch:
  assumes "view m s" "npc s = n + 4" "n = x + 4" "extra i = immed v"
  shows "follows s m (branch c i n m) (branch_if c v x s)"
  using assms by (auto simp: follows_def branch_def branch_if_def view_def IndexToAddr_def)

lemma immediate_follows:
  assumes "view m s" "npc s = n + 4" "same_meaning (Decode v) a b"
    "\<not> overflows (Decode v) (registers m ! unat (field_rs v)) (registers m ! unat (field_rt v))"
    "opCode (Decode v) = op" "op \<in> {OP_ADDI, OP_ADDIU, OP_SLTI, OP_SLTIU, OP_ANDI, OP_ORI, OP_XORI, OP_LUI}"
  shows "follows s m (execute (Decode v) n m) (interp_exec host v x s)"
proof -
  have "op \<in> set main_ops" using assms(6) by (auto simp: main_ops_def)
  note w = main_word [OF assms(5) this]
  have e: "extra (Decode v) = immed v" using assms(6) main_ops_codes(2) positions(2)
    by (intro decode_extra_of(2) [OF w(2)]) auto
  show ?thesis using assms(6) assms(3) assms(4)
    by (elim insertE emptyE; simp add: same_meaning_def overflows_def signed_tests special_evals exec_load_def w(1) assms(5) positions [simplified] e
      view_regs [OF assms(1)] follows_put [OF assms(1) _ assms(2)] field_less immed_shift small_immediate)
qed

lemma branch_follows:
  assumes "view m s" "npc s = n + 4" "n = x + 4" "opCode (Decode v) = op" "op \<in> {OP_BEQ, OP_BNE, OP_BLEZ, OP_BGTZ}"
  shows "follows s m (execute (Decode v) n m) (interp_exec host v x s)"
proof -
  have "op \<in> set main_ops" using assms(5) by (auto simp: main_ops_def)
  note w = main_word [OF assms(4) this]
  have e: "extra (Decode v) = immed v" using assms(5) main_ops_codes(2) positions(2)
    by (intro decode_extra_of(2) [OF w(2)]) auto
  show ?thesis using assms(5)
    by (elim insertE emptyE; simp add: special_evals exec_branch_def w(1) assms(4) positions [simplified] e
      view_regs [OF assms(1)] follows_branch [OF assms(1-3) e])
qed

lemma far_jump_follows:
  assumes "view m s" "npc s = n + 4" "n = x + 4" "(x + 8) AND 0xf0000000 = x AND 0xf0000000"
    "opCode (Decode v) = op" "op \<in> {OP_J, OP_JAL}"
  shows "follows s m (execute (Decode v) n m) (interp_exec host v x s)"
proof -
  have "op \<in> set main_ops" using assms(6) by (auto simp: main_ops_def)
  note w = main_word [OF assms(5) this]
  have e: "extra (Decode v) = v AND 0x3ffffff" using assms(6) main_ops_codes(2) positions(2)
    by (intro decode_extra_of(3) [OF w(2)]) auto
  have t: "n + 4 = x + 8" using assms(3) by simp
  show ?thesis using assms(6)
    by (elim insertE emptyE; simp add: special_evals exec_jump_def w(1) assms(4,5) positions [simplified] e t IndexToAddr_def
      view_regs [OF assms(1)] follows_jump follows_link [of m s 31] assms(1) set_to_def set_reg_def R31_def)
qed

lemma opTable_1: "snd (opTable ! 1) = IFMT"
  by (simp add: opTable_def)

lemma bcond_follows:
  assumes "view m s" "npc s = n + 4" "n = x + 4" "opCode (Decode v) = op" "op \<in> {OP_BLTZ, OP_BGEZ, OP_BLTZAL, OP_BGEZAL}"
  shows "follows s m (execute (Decode v) n m) (interp_exec host v x s)"
proof -
  note w = bcond_codes [OF assms(4,5)]
  have e: "extra (Decode v) = immed v" using w(1) by (intro decode_extra_of(2) [OF _ opTable_1]) simp
  have t: "n + 4 = x + 8" using assms(3) by simp
  let ?l = "m\<lparr>registers := (registers m)[31 := x + 8]\<rparr>" and ?s = "s\<lparr>Reg := (Reg s)[31 := x + 8]\<rparr>"
  have l: "view ?l ?s" "npc ?s = n + 4" using view_set [OF assms(1), of 31] assms(2) by simp_all
  have fr: "follows ?s ?l r q \<longleftrightarrow> follows s m r q" for r q by (simp add: follows_def)
  note f = bcond_rt [OF w(2) assms(5)]
  have lb: "follows s m (branch c (Decode v) n ?l) (branch_if c v x ?s)" for c using follows_branch [OF l assms(3) e] fr by blast
  have rg: "Reg s ! unat (field_rs v) = registers m ! unat (field_rs v)"
    "(Reg s)[31 := y] ! unat (field_rs v) = (registers m)[31 := y] ! unat (field_rs v)" for y
    using assms(1) field_less [of v] by (simp_all add: view_def nth_list_update reg_defs)
  show ?thesis using assms(5)
    by (elim insertE emptyE; simp add: special_evals exec_branch_def interp_bcond_def w(1) f assms(4) e t sign_bit_sint rg not_le lb
      view_regs [OF assms(1)] follows_branch [OF assms(1-3) e] set_to_def set_reg_def R31_def reg_def get_def field_less)
qed

text \<open>
  Where the two read different program counters: a branch or a linking jump in the delay slot of another (\<open>x\<close> is the address of the
  instruction, \<open>n\<close> that of the next one), and a jump across the end of a region of 256 MB.
\<close>

definition same_place :: "Instruction \<Rightarrow> word32 \<Rightarrow> word32 \<Rightarrow> bool" where
  "same_place i x n \<longleftrightarrow> (let op = opCode i in
     (op \<in> {OP_BEQ, OP_BNE, OP_BLEZ, OP_BGTZ, OP_BLTZ, OP_BGEZ, OP_BLTZAL, OP_BGEZAL, OP_J, OP_JAL, OP_JALR} \<longrightarrow> n = x + 4)
     \<and> (op \<in> {OP_J, OP_JAL} \<longrightarrow> (x + 8) AND 0xf0000000 = x AND 0xf0000000))"

lemma execute_follows:
  assumes "view m s" "npc s = n + 4" "same_place (Decode v) x n"
    "same_meaning (Decode v) (registers m ! unat (field_rs v)) (registers m ! unat (field_rt v))"
    "\<not> overflows (Decode v) (registers m ! unat (field_rs v)) (registers m ! unat (field_rt v))"
  shows "follows s m (execute (Decode v) n m) (interp_exec host v x s)"
proof -
  let ?op = "opCode (Decode v)"
  have p: "?op \<in> {OP_BEQ, OP_BNE, OP_BLEZ, OP_BGTZ, OP_BLTZ, OP_BGEZ, OP_BLTZAL, OP_BGEZAL, OP_J, OP_JAL, OP_JALR} \<Longrightarrow> n = x + 4"
    "?op \<in> {OP_J, OP_JAL} \<Longrightarrow> (x + 8) AND 0xf0000000 = x AND 0xf0000000" using assms(3) unfolding same_place_def Let_def by blast+
  consider "?op \<in> {OP_SLL, OP_SRA, OP_ADD, OP_ADDU, OP_SUB, OP_SUBU, OP_AND, OP_XOR, OP_NOR, OP_SLT, OP_SLTU, OP_MFHI, OP_MFLO, OP_MTHI, OP_MTLO}"
    | "?op \<in> {OP_SRL, OP_SLLV, OP_SRLV, OP_SRAV, OP_OR, OP_DIV, OP_DIVU}" | "?op \<in> {OP_JR, OP_JALR}" | "?op \<in> {OP_J, OP_JAL}"
    | "?op \<in> {OP_BLTZ, OP_BGEZ, OP_BLTZAL, OP_BGEZAL}" | "?op \<in> {OP_BEQ, OP_BNE, OP_BLEZ, OP_BGTZ}"
    | "?op \<in> {OP_ADDI, OP_ADDIU, OP_SLTI, OP_SLTIU, OP_ANDI, OP_ORI, OP_XORI, OP_LUI}"
    using assms(4) unfolding same_meaning_def Let_def by blast
  then show ?thesis
  proof cases
    case 1 show ?thesis by (rule special_follows [OF assms(1,2,5) refl 1])
  next
    case 2 show ?thesis by (rule special_follows2 [OF assms(1,2,4) refl 2])
  next
    case 3 show ?thesis by (rule jump_follows [OF assms(1,2) _ assms(4) refl 3]) (use p(1) in simp)
  next
    case 4 show ?thesis by (rule far_jump_follows [OF assms(1,2) p refl 4]) (use 4 in auto)
  next
    case 5 show ?thesis by (rule bcond_follows [OF assms(1,2) p(1) refl 5]) (use 5 in auto)
  next
    case 6 show ?thesis by (rule branch_follows [OF assms(1,2) p(1) refl 6]) (use 6 in auto)
  next
    case 7 show ?thesis by (rule immediate_follows [OF assms(1,2,4,5) refl 7])
  qed
qed

text \<open>What happens when the exact result does not fit.\<close>

lemma overflow_differs:
  assumes "view m s" "overflows (Decode v) (registers m ! unat (field_rs v)) (registers m ! unat (field_rt v))"
  shows "execute (Decode v) n m = raise OverflowException 0 m"
    "interp_exec host v x s = (case wraps_to (Decode v) (registers m ! unat (field_rs v)) (registers m ! unat (field_rt v)) of
       (k, w) \<Rightarrow> Inr (s\<lparr>Reg := (Reg s)[k := w]\<rparr>))"
proof -
  let ?op = "opCode (Decode v)"
  have l: "length (Reg s) = 32" using view_regs(8) [OF assms(1)] .
  consider "?op = OP_ADD \<or> ?op = OP_SUB" | "?op = OP_ADDI" using assms(2) by (auto simp: overflows_def)
  then have "execute (Decode v) n m = raise OverflowException 0 m
    \<and> interp_exec host v x s = (case wraps_to (Decode v) (registers m ! unat (field_rs v)) (registers m ! unat (field_rt v)) of
       (k, w) \<Rightarrow> Inr (s\<lparr>Reg := (Reg s)[k := w]\<rparr>))"
  proof cases
    case 1
    then have o: "?op \<in> set specialTable" "?op \<notin> {OP_RES, OP_UNIMP}" using special_ops_codes by (auto simp: list_all_iff special_ops_def)
    note w = special_word [OF refl o]
    show ?thesis using 1 assms(2)
      by (elim disjE; simp add: special_evals overflows_def wraps_to_def signed_tests w positions [simplified] view_regs [OF assms(1)] set_to_def field_less l)
  next
    case 2
    then have "?op \<in> set main_ops" by (simp add: main_ops_def)
    note w = main_word [OF refl this]
    have e: "extra (Decode v) = immed v" using 2 main_ops_codes(2) positions(2) by (intro decode_extra_of(2) [OF w(2)]) auto
    show ?thesis using 2 assms(2)
      by (simp add: special_evals overflows_def wraps_to_def signed_tests w(1) positions [simplified] e view_regs [OF assms(1)] set_to_def field_less l)
  qed
  then show "execute (Decode v) n m = raise OverflowException 0 m"
    "interp_exec host v x s = (case wraps_to (Decode v) (registers m ! unat (field_rs v)) (registers m ! unat (field_rt v)) of
       (k, w) \<Rightarrow> Inr (s\<lparr>Reg := (Reg s)[k := w]\<rparr>))" by blast+
qed

text \<open>The interpreter skips the instruction 0, which writes register 0.\<close>

lemma interp_nop: "length (Reg s) = 32 \<Longrightarrow> Reg s ! 0 = 0 \<Longrightarrow> interp_exec host 0 x s = Inr s"
  by (simp add: interp_exec_def interp_special_def op_codes fn_codes field_rs_def field_rt_def field_rd_def field_shamt_def get_def set_to_def
      array_get_def array_set_def list_update_same_conv)

text \<open>The two simulators in the same state, up to register 0, which one clears after and the other before an instruction.\<close>

definition agree :: "machine \<Rightarrow> interp \<Rightarrow> bool" where
  "agree m s \<longleftrightarrow> length (Reg s) = 32 \<and> registers m ! 0 = 0 \<and> (\<forall>k. 0 < k \<and> k < 32 \<longrightarrow> Reg s ! k = registers m ! k)
     \<and> HI s = registers m ! HiReg \<and> LO s = registers m ! LoReg \<and> pc s = registers m ! PCReg \<and> npc s = registers m ! NextPCReg
     \<and> registers m ! LoadReg = 0"

lemma agree_view:
  assumes "agree m s" "length (registers m) = 40" "registers m1 = registers m"
  shows "view m1 (s\<lparr>pc := p, npc := q, Reg := (Reg s)[0 := 0]\<rparr>)"
proof -
  have "(Reg s)[0 := 0] = take 32 (registers m)"
    using assms(1,2) by (intro nth_equalityI) (auto simp: agree_def nth_list_update)
  then show ?thesis using assms by (simp add: view_def agree_def reg_defs)
qed

text \<open>The end of the instruction keeps the agreement: no delayed load was pending and none was started.\<close>

lemma finish_agrees:
  assumes "view m2 s'" "npc s' = p" "pc s' = registers m1 ! NextPCReg" "registers m1 ! LoadReg = 0" "regs_ok m'"
    "registers m' ! PCReg = registers m1 ! NextPCReg" "registers m' ! NextPCReg = p" "registers m' ! LoadReg = 0"
    "\<And>k. 0 < k \<Longrightarrow> k < PCReg \<Longrightarrow> registers m' ! k = (if k = unat (registers m1 ! LoadReg) then registers m1 ! LoadValueReg else registers m2 ! k)"
  shows "agree m' s'"
proof -
  have k: "registers m' ! k = registers m2 ! k" if "0 < k" "k < PCReg" for k using assms(9) [OF that] assms(4) that(1) by simp
  have "length (Reg s') = 32" "Reg s' ! j = registers m2 ! j" if "j < 32" for j using assms(1) that by (simp_all add: view_def reg_defs)
  then show ?thesis using k assms(1-3,5-8) by (auto simp: agree_def view_def regs_ok_def reg_defs)
qed

lemma execute_done_ok:
  assumes "mach_ok m" "execute (Decode raw) n m = Inr (Done r m')"
  shows "exec_ok m (execute (Decode raw) n m)"
proof -
  have "\<not> crashes (Decode raw) (registers m ! rs (Decode raw)) (registers m ! rt (Decode raw))"
    using crashing_execute [OF assms(1), of "Decode raw"] Decode_fields assms(2) by auto
  then show ?thesis by (intro execute_ok) (use assms(1) Decode_fields Decode_opCode in auto)
qed

text \<open>
  C30: the simulators agree. From states that agree, when both fetch the same instruction, it is one with the same meaning in both, and it is not a
  branch or linking jump in the delay slot of another nor a jump across the end of a 256 MB region: both execute it, the states agree again,
  and neither memory changes; but when a signed addition or subtraction overflows, the kernel's simulator raises the overflow exception while the interpreter goes on
  with the wrapped result.
\<close>

theorem simulators_agree:
  assumes "tables_ok m" "regs_ok m" "agree m s" "fetched m = Some raw" "fetch (pc s) s = Inr raw"
    "same_meaning (Decode raw) (registers m ! rs (Decode raw)) (registers m ! rt (Decode raw))" "same_place (Decode raw) (pc s) (npc s)"
  shows "if overflows (Decode raw) (registers m ! rs (Decode raw)) (registers m ! rt (Decode raw))
    then (\<exists>m' k w. OneInstruction m = Inr (Trap OverflowException m') \<and> wraps_to (Decode raw) (registers m ! rs (Decode raw)) (registers m ! rt (Decode raw)) = (k, w)
      \<and> interp_step host s = Inr (s\<lparr>pc := npc s, npc := npc s + 4, Reg := ((Reg s)[0 := 0])[k := w]\<rparr>))
    else (\<exists>m' s'. OneInstruction m = Inr (Done () m') \<and> interp_step host s = Inr s' \<and> agree m' s' \<and> mem s' = mem s \<and> mainMemory m' = mainMemory m)"
proof -
  have ok: "mach_ok m" using assms(1,2) by (simp add: mach_ok_def)
  note len = mach_okD(3) [OF ok, unfolded NumTotalRegs_def]
  let ?i = "Decode raw" and ?n = "registers m ! NextPCReg"
  obtain m1 where c: "mach_ok m1" "confined m m1" "registers m1 = registers m" "mainMemory m1 = mainMemory m"
    "OneInstruction m = abind (execute ?i ?n m1) finish_instruction"
    by (rule OneInstruction_cases [OF ok]) (use assms(4) in \<open>auto simp: next_instr_def\<close>)
  have n: "?n = npc s" by (metis agree_def assms(3))
  define s2 where "s2 = s\<lparr>pc := npc s, npc := npc s + 4, Reg := (Reg s)[0 := 0]\<rparr>"
  have v: "view m1 s2" unfolding s2_def by (rule agree_view [OF assms(3) len c(3)])
  have z: "Reg s2 ! 0 = 0" "length (Reg s2) = 32" using assms(3) by (simp_all add: s2_def agree_def)
  have st: "interp_step host s = Inr s'" if "interp_exec host raw (pc s) s2 = Inr s'" for s'
    using assms(5) that interp_nop [OF z(2,1), of host "pc s"] by (auto simp: interp_step_def Let_def s2_def fetch_def)
  show ?thesis
  proof (cases "overflows ?i (registers m ! rs ?i) (registers m ! rt ?i)")
    case True
    obtain k w where w: "wraps_to ?i (registers m ! rs ?i) (registers m ! rt ?i) = (k, w)" by fastforce
    have t: "overflows ?i (registers m1 ! unat (field_rs raw)) (registers m1 ! unat (field_rt raw))" using True c(3) by (simp add: decode_regs)
    have "\<exists>m'. OneInstruction m = Inr (Trap OverflowException m')"
      by (rule RaiseException_ok [OF mach_okD(2) [OF c(1)], of 0]) (simp add: c(5) overflow_differs(1) [OF v t] raise_def abind_def)
    moreover have "interp_exec host raw (pc s) s2 = Inr (s2\<lparr>Reg := (Reg s2)[k := w]\<rparr>)"
      using overflow_differs(2) [OF v t] w c(3) by (simp add: decode_regs)
    ultimately show ?thesis using True w st by (auto simp: s2_def)
  next
    case False
    have "follows s2 m1 (execute ?i ?n m1) (interp_exec host raw (pc s) s2)"
      unfolding n using assms(6,7) False c(3) by (intro execute_follows v) (simp_all add: s2_def decode_regs)
    then obtain p lv m2 s' where f: "execute ?i ?n m1 = Inr (Done (p, 0, lv) m2)" "interp_exec host raw (pc s) s2 = Inr s'" "view m2 s'"
      "npc s' = p" "pc s' = pc s2" "mem s' = mem s2" "mainMemory m2 = mainMemory m1" by (auto simp: follows_def)
    have "exec_ok m1 (execute ?i ?n m1)" using execute_done_ok [OF c(1) f(1)] .
    then have x: "control_same m1 m2" "confined m1 m2" "unat (0 :: word32) < 32" using f(1) by (simp_all add: exec_ok_def)
    show ?thesis
    proof (rule finish_ok [OF c(1) x, of p lv])
      fix m'
      assume e: "finish_instruction (p, 0, lv) m2 = Inr (Done () m')" "regs_ok m'" "registers m' ! PCReg = registers m1 ! NextPCReg"
        "registers m' ! NextPCReg = p" "registers m' ! LoadReg = 0"
        "\<And>k. 0 < k \<Longrightarrow> k < PCReg \<Longrightarrow> registers m' ! k = (if k = unat (registers m1 ! LoadReg) then registers m1 ! LoadValueReg else registers m2 ! k)"
        "mainMemory m' = mainMemory m2"
      have "OneInstruction m = Inr (Done () m')" using c(5) f(1) e(1) by (simp add: abind_def)
      moreover have "agree m' s'"
        by (rule finish_agrees [OF f(3,4) _ _ e(2-5) e(6)]) (use f(5) c(3) n assms(3) in \<open>simp_all add: agree_def s2_def\<close>)
      ultimately show ?thesis using False st [OF f(2)] f(6,7) c(4) e(7) by (auto simp: s2_def)
    qed
  qed
qed

section \<open>The multiplication\<close>

lemma uint_mult_small: "uint a * uint b < 2 ^ 32 \<Longrightarrow> uint (a * b :: word32) = uint a * uint b"
  by (simp add: uint_word_ariths)

lemma uint_add_small: "uint a + uint b < 2 ^ 32 \<Longrightarrow> uint (a + b :: word32) = uint a + uint b"
  by (simp add: uint_word_ariths)

lemma sint_small: "uint (a :: word32) < 2 ^ 31 \<Longrightarrow> 0 \<le> sint a"
proof -
  assume "uint a < 2 ^ 31"
  then have "\<not> bit (uint a) 31" by (simp add: bit_iff_odd)
  then have "\<not> bit a 31" by (simp add: bit_uint_iff)
  then show ?thesis using bit_last_iff [of a] by simp
qed

lemma product_bounds:
  fixes x y :: int
  assumes "0 \<le> x" "x < m" "0 \<le> y" "y < n"
  shows "0 \<le> x * y" "x * y < m * n"
  using assms by (simp_all add: mult_strict_mono)

lemma uint_halves:
  fixes a :: word32
  assumes "uint a < 2 ^ 31"
  shows "uint (a AND 0xffff) = uint a mod 2 ^ 16" "uint (signed_drop_bit 16 a AND 0xffff) = uint a div 2 ^ 16"
proof -
  have m: "uint (x AND 0xffff) = uint x mod 2 ^ 16" for x :: word32
  proof -
    have "uint (take_bit 16 x) = take_bit 16 (uint x)" by (rule unsigned_take_bit_eq)
    then show ?thesis by (simp add: mask_consts take_bit_eq_mask [symmetric]) (simp add: take_bit_eq_mod)
  qed
  then show "uint (a AND 0xffff) = uint a mod 2 ^ 16" .
  have "uint (drop_bit 16 a) = uint a div 2 ^ 16" by (simp add: drop_bit_eq_div uint_div_distrib)
  moreover have "uint a div 2 ^ 16 < 2 ^ 16" using assms by simp
  ultimately show "uint (signed_drop_bit 16 a AND 0xffff) = uint a div 2 ^ 16"
    by (simp add: m signed_drop_bit_nonneg [OF sint_small [OF assms]] mod_pos_pos_trivial pos_imp_zdiv_nonneg_iff)
qed

lemma carry_bound:
  fixes x y z :: int
  assumes "0 \<le> x" "0 \<le> y" "0 \<le> z" "z < 2 ^ 32"
  shows "x div 2 ^ 16 + y div 2 ^ 16 \<le> (x * 2 ^ 16 + y * 2 ^ 16 + z) div 2 ^ 32"
    "(x * 2 ^ 16 + y * 2 ^ 16 + z) div 2 ^ 32 \<le> x div 2 ^ 16 + y div 2 ^ 16 + 2"
proof -
  let ?X = "x div 2 ^ 16" and ?Y = "y div 2 ^ 16" and ?r = "x mod 2 ^ 16" and ?t = "y mod 2 ^ 16"
  have e: "x * 2 ^ 16 + y * 2 ^ 16 + z = (?X + ?Y) * 2 ^ 32 + (?r * 2 ^ 16 + ?t * 2 ^ 16 + z)"
  proof -
    have "x * 2 ^ 16 + y * 2 ^ 16 + z = (?X * 2 ^ 16 + ?r) * 2 ^ 16 + (?Y * 2 ^ 16 + ?t) * 2 ^ 16 + z" by (simp only: div_mult_mod_eq)
    also have "\<dots> = (?X + ?Y) * 2 ^ 32 + (?r * 2 ^ 16 + ?t * 2 ^ 16 + z)" by algebra
    finally show ?thesis .
  qed
  have r: "0 \<le> ?r" "?r < 2 ^ 16" "0 \<le> ?t" "?t < 2 ^ 16" by simp_all
  have d: "(x * 2 ^ 16 + y * 2 ^ 16 + z) div 2 ^ 32 = ?X + ?Y + (?r * 2 ^ 16 + ?t * 2 ^ 16 + z) div 2 ^ 32"
    unfolding e by (rule div_mult_self3) simp
  have l: "0 \<le> (?r * 2 ^ 16 + ?t * 2 ^ 16 + z) div 2 ^ 32" using r assms(3) by simp
  have u: "(?r * 2 ^ 16 + ?t * 2 ^ 16 + z) div 2 ^ 32 < 3"
  proof -
    have "?r * 2 ^ 16 + ?t * 2 ^ 16 + z < 3 * 2 ^ 32" using r assms(4) by simp
    then show ?thesis by (simp add: div_less_iff_less_mult)
  qed
  show "?X + ?Y \<le> (x * 2 ^ 16 + y * 2 ^ 16 + z) div 2 ^ 32" using d l by linarith
  show "(x * 2 ^ 16 + y * 2 ^ 16 + z) div 2 ^ 32 \<le> ?X + ?Y + 2" using d u by linarith
qed

lemma mul_halves_bound:
  fixes a b :: word32
  assumes "uint a < 2 ^ 31" "uint b < 2 ^ 31"
  shows "uint (mul_halves a b) \<le> uint a * uint b div 2 ^ 32" "uint a * uint b div 2 ^ 32 \<le> uint (mul_halves a b) + 2"
proof -
  define al ah bl bh where d: "al = uint a mod 2 ^ 16" "ah = uint a div 2 ^ 16" "bl = uint b mod 2 ^ 16" "bh = uint b div 2 ^ 16"
  have r: "0 \<le> al" "al < 2 ^ 16" "0 \<le> ah" "ah < 2 ^ 15" "0 \<le> bl" "bl < 2 ^ 16" "0 \<le> bh" "bh < 2 ^ 15"
    using assms by (simp_all add: d pos_imp_zdiv_nonneg_iff)
  have p: "0 \<le> ah * bl" "ah * bl < 2 ^ 31" "0 \<le> bh * al" "bh * al < 2 ^ 31" "ah * bh < 2 ^ 30" "0 \<le> ah * bh"
    "al * bl < 2 ^ 32" "0 \<le> al * bl"
    using product_bounds [OF r(3,4,5,6)] product_bounds [OF r(7,8,1,2)] product_bounds [OF r(3,4,7,8)] product_bounds [OF r(1,2,5,6)] by simp_all
  let ?al = "a AND 0xffff" and ?ah = "signed_drop_bit 16 a AND 0xffff" and ?bl = "b AND 0xffff" and ?bh = "signed_drop_bit 16 b AND 0xffff"
  have w: "uint ?al = al" "uint ?ah = ah" "uint ?bl = bl" "uint ?bh = bh" using uint_halves [OF assms(1)] uint_halves [OF assms(2)] by (simp_all add: d)
  have m: "uint (?ah * ?bl) = ah * bl" "uint (?bh * ?al) = bh * al" "uint (?ah * ?bh) = ah * bh"
    using p w by (simp_all add: uint_mult_small)
  have sh: "uint (signed_drop_bit 16 x) = uint x div 2 ^ 16" if "uint x < 2 ^ 31" for x :: word32
    using that by (simp add: signed_drop_bit_nonneg sint_small drop_bit_eq_div uint_div_distrib)
  have q: "uint (signed_drop_bit 16 (?ah * ?bl)) = ah * bl div 2 ^ 16" "uint (signed_drop_bit 16 (?bh * ?al)) = bh * al div 2 ^ 16"
    using sh m p by simp_all
  have qb: "ah * bl div 2 ^ 16 < 2 ^ 15" "bh * al div 2 ^ 16 < 2 ^ 15" using p by simp_all
  have "uint (mul_halves a b) = ah * bh + ah * bl div 2 ^ 16 + bh * al div 2 ^ 16"
    using m q qb p(5,6) unfolding mul_halves_def Let_def by (simp add: uint_add_small)
  moreover have "uint a * uint b = ah * bh * 2 ^ 32 + ((ah * bl) * 2 ^ 16 + (bh * al) * 2 ^ 16 + al * bl)"
  proof -
    have "uint a * uint b = (ah * 2 ^ 16 + al) * (bh * 2 ^ 16 + bl)" unfolding d by (simp only: div_mult_mod_eq)
    also have "\<dots> = ah * bh * 2 ^ 32 + ((ah * bl) * 2 ^ 16 + (bh * al) * 2 ^ 16 + al * bl)" by algebra
    finally show ?thesis .
  qed
  ultimately show "uint (mul_halves a b) \<le> uint a * uint b div 2 ^ 32" "uint a * uint b div 2 ^ 32 \<le> uint (mul_halves a b) + 2"
    using carry_bound [OF p(1,3,8,7)] by simp_all
qed

text \<open>
  The multiplication of the interpreter. For operands below two to the 31st its low word is that of the kernel's simulator, but its high word can
  be too small, by at most two, because the carries of the partial products are dropped; so it is for 131071 times itself.
\<close>

theorem interpreter_multiplication:
  assumes "uint a < 2 ^ 31" "uint b < 2 ^ 31"
  shows "interp_mult a b = (mul_halves a b, a * b) \<and> snd (Mult a b False) = a * b
    \<and> uint (mul_halves a b) \<le> uint (fst (Mult a b False)) \<and> uint (fst (Mult a b False)) \<le> uint (mul_halves a b) + 2
    \<and> mul_halves 131071 131071 = 1 \<and> fst (Mult 131071 131071 False) = 3"
proof -
  obtain hi lo where m: "Mult a b False = (hi, lo)" by fastforce
  have e: "uint hi * 2 ^ 32 + uint lo = uint a * uint b" by (rule Mult_unsigned [OF m])
  have l: "uint lo < 2 ^ 32" using uint_lt2p [of lo] by simp
  have "uint hi = uint a * uint b div 2 ^ 32" using e l by (simp flip: e)
  moreover have "uint lo = uint (a * b)" using e l by (simp add: uint_word_ariths flip: e)
  then have "lo = a * b" by (rule word_eq_iff_unsigned [THEN iffD2])
  moreover have "interp_mult a b = (mul_halves a b, a * b)"
    using sint_small [OF assms(1)] sint_small [OF assms(2)] by (simp add: interp_mult_def Let_def)
  moreover have "mul_halves 131071 131071 = 1" by code_simp
  moreover have "fst (Mult 131071 131071 False) = 3" by code_simp
  ultimately show ?thesis using mul_halves_bound [OF assms] m by simp
qed

theorem interpreter_multiplication_witness: "interp_mult 131071 131071 = (1, 131071 * 131071) \<and> fst (Mult 131071 131071 False) = 3"
  using interpreter_multiplication [of 131071 131071] by simp

section \<open>An instruction both execute\<close>

definition high_page :: "word32 \<Rightarrow> word32 \<Rightarrow> machine" where
  "high_page w r1 = (Machine_new False True False 0)\<lparr>tlb := Some (\<lparr>virtualPage = 0x100000, physicalPage = 3, valid = True, readOnly = False,
       use = False, dirty = False\<rparr> # replicate 3 \<lparr>virtualPage = 0, physicalPage = 0, valid = False, readOnly = False, use = False, dirty = False\<rparr>),
     registers := (replicate NumTotalRegs 0)[1 := r1, PCReg := 0x10000000, NextPCReg := 0x10000004], mainMemory := le_store (\<lambda>_. 0) 768 4 w\<rparr>"

definition demo_interp :: "word32 \<Rightarrow> word32 \<Rightarrow> interp" where
  "demo_interp w r1 = \<lparr>Reg = (replicate 32 0)[1 := r1], HI = 0, LO = 0, mem = host_store32 False w (\<lambda>_. 0) 0, pc = 0x10000000, npc = 0x10000004,
     host_big = False\<rparr>"

lemma high_page_ok: "tables_ok (high_page w r1)" "regs_ok (high_page w r1)" "agree (high_page w r1) (demo_interp w r1)"
  by (simp_all add: high_page_def demo_interp_def Machine_new_def tables_ok_def regs_ok_def TLBSize_def agree_def reg_defs nth_list_update)

lemma high_page_fetch: "fetched (high_page w r1) = Some w"
proof -
  have e: "mapping_of (high_page w r1) (vpn_of 0x10000000) = Some \<lparr>virtualPage = 0x100000, physicalPage = 3, valid = True, readOnly = False,
      use = False, dirty = False\<rparr>" (is "_ = Some ?e")
    by (simp add: high_page_def mapping_of_def vpn_of_def size_defs)
  then have acc: "accessible (high_page w r1) 0x10000000 4 False" by (simp add: accessible_def misaligned_def size_defs)
  have pa: "phys_of ?e 0x10000000 = 768" by (simp add: phys_of_def size_defs)
  have p: "registers (high_page w r1) ! PCReg = 0x10000000" by (simp add: high_page_def reg_defs)
  have "le_load (mainMemory (high_page w r1)) 768 4 = w" using le_load_store [of 4] by (simp add: high_page_def widen_def)
  then show ?thesis using pa p by (rule_tac ReadMem_ok [OF high_page_ok(1) _ acc e]) (auto simp: fetched_def)
qed

lemma demo_interp_fetch: "fetch (pc (demo_interp w r1)) (demo_interp w r1) = Inr w"
proof -
  have "host_load32 False (host_store32 False w (\<lambda>_. 0) 0) 0 = w" by (simp add: host_load32_def host_store32_def)
  then show ?thesis by (simp add: fetch_def demo_interp_def mem_at_def misaligned_def memoffset_def MEMSIZE_def)
qed

text \<open>The instruction \<^verbatim>\<open>addi $2, $1, 1\<close>: both add 1 to 5, but from the largest number the kernel's simulator traps and the interpreter gets the smallest.\<close>

theorem simulators_agree_witness:
  "(\<exists>m' s'. OneInstruction (high_page 0x20220001 5) = Inr (Done () m') \<and> interp_step (\<lambda>_ _ _ _ bs. (0, bs)) (demo_interp 0x20220001 5) = Inr s'
     \<and> agree m' s')
   \<and> (\<exists>m' s'. OneInstruction (high_page 0x20220001 0x7fffffff) = Inr (Trap OverflowException m')
     \<and> interp_step (\<lambda>_ _ _ _ bs. (0, bs)) (demo_interp 0x20220001 0x7fffffff) = Inr s' \<and> Reg s' ! 2 = 0x80000000)"
proof -
  let ?i = "Decode 0x20220001"
  have i: "opCode ?i = OP_ADDI" "rt ?i = 2" "rs ?i = 1" "extra ?i = 1" by (simp_all add: Decode_def opTable_def decode_extra_def)
  have p: "same_meaning ?i a b" "same_place ?i x n" for a b x n by (simp_all add: same_meaning_def same_place_def i)
  have r: "registers (high_page w r1) ! 1 = r1" for w r1 by (simp add: high_page_def reg_defs)
  have o: "\<not> overflows ?i 5 b" "overflows ?i 0x7fffffff b" for b by (simp_all add: overflows_def i fits32_def)
  note t = simulators_agree [where host = "\<lambda>_ _ _ _ bs. (0, bs)", OF high_page_ok high_page_fetch demo_interp_fetch p, unfolded i(2,3) r]
  have l: "length (Reg (demo_interp w r1)) = 32" for w r1 by (simp add: demo_interp_def)
  from t [of 5, unfolded if_not_P [OF o(1)]] obtain m' s' where
    "OneInstruction (high_page 0x20220001 5) = Inr (Done () m')" "interp_step (\<lambda>_ _ _ _ bs. (0, bs)) (demo_interp 0x20220001 5) = Inr s'"
    "agree m' s'" by blast
  moreover from t [of "0x7fffffff", unfolded if_P [OF o(2)]] obtain m' k w where k:
    "OneInstruction (high_page 0x20220001 0x7fffffff) = Inr (Trap OverflowException m')" "wraps_to ?i 0x7fffffff b = (k, w)"
    "interp_step (\<lambda>_ _ _ _ bs. (0, bs)) (demo_interp 0x20220001 0x7fffffff) = Inr ((demo_interp 0x20220001 0x7fffffff)
       \<lparr>pc := npc (demo_interp 0x20220001 0x7fffffff), npc := npc (demo_interp 0x20220001 0x7fffffff) + 4,
        Reg := ((Reg (demo_interp 0x20220001 0x7fffffff))[0 := 0])[k := w]\<rparr>)" for b by (auto simp: wraps_to_def i)
  moreover have "k = 2" "w = 0x80000000" using k(2) by (simp_all add: wraps_to_def i)
  ultimately show ?thesis by (auto simp: l)
qed

end
