(* ===== verification/Disassembler.thy ===== *)
theory Disassembler
  imports Mips_Agree
begin

text \<open>
  The two places that print instructions: the disassembler \<^verbatim>\<open>bin/d.c\<close> with the tables of \<^verbatim>\<open>bin/opstrings.c\<close>, which the tools
  \<^verbatim>\<open>bin/out.c\<close> and \<^verbatim>\<open>bin/disasm.c\<close> and the trace of the interpreter share, and the trace of the kernel's simulator with its table
  \<^verbatim>\<open>opStrings\<close>. They give every instruction the same name, and the targets the disassembler prints are those to which the interpreter jumps.
\<close>

section \<open>Numbers as text\<close>

text \<open>The conversions \<^verbatim>\<open>%x\<close>, \<^verbatim>\<open>%08x\<close> and \<^verbatim>\<open>%d\<close> of \<^verbatim>\<open>printf\<close>.\<close>

definition digit :: "nat \<Rightarrow> char" where
  "digit n = ''0123456789abcdef'' ! n"

fun digits :: "nat \<Rightarrow> nat \<Rightarrow> string" where
  "digits b n = (if n < b \<or> b \<le> 1 then [digit n] else digits b (n div b) @ [digit (n mod b)])"

declare digits.simps [simp del]

definition hex :: "word32 \<Rightarrow> string" where
  "hex w = digits 16 (unat w)"

definition hex08 :: "word32 \<Rightarrow> string" where
  "hex08 w = replicate (8 - length (hex w)) CHR ''0'' @ hex w"

definition decimal :: "int \<Rightarrow> string" where
  "decimal i = (if i < 0 then ''-'' else []) @ digits 10 (nat \<bar>i\<bar>)"

section \<open>The tables\<close>

definition normalops :: "string list" where
  "normalops = [
     ''special'', ''bcond'', ''j'', ''jal'', ''beq'', ''bne'', ''blez'', ''bgtz'', ''addi'', ''addiu'', ''slti'', ''sltiu'', ''andi'', ''ori'',
     ''xori'', ''lui'', ''cop0'', ''cop1'', ''cop2'', ''cop3'', ''024'', ''025'', ''026'', ''027'', ''030'', ''031'', ''032'', ''033'', ''034'',
     ''035'', ''036'', ''037'', ''lb'', ''lh'', ''lwl'', ''lw'', ''lbu'', ''lhu'', ''lwr'', ''047'', ''sb'', ''sh'', ''swl'', ''sw'', ''054'',
     ''055'', ''swr'', ''057'', ''lwc0'', ''lwc1'', ''lwc2'', ''lwc3'', ''064'', ''065'', ''066'', ''067'', ''swc0'', ''swc1'', ''swc2'', ''swc3'',
     ''074'', ''075'', ''076'', ''077'']"

definition specialops :: "string list" where
  "specialops = [
     ''sll'', ''001'', ''srl'', ''sra'', ''sllv'', ''005'', ''srlv'', ''srav'', ''jr'', ''jalr'', ''012'', ''013'', ''syscall'', ''break'', ''016'',
     ''017'', ''mfhi'', ''mthi'', ''mflo'', ''mtlo'', ''024'', ''025'', ''026'', ''027'', ''mult'', ''multu'', ''div'', ''divu'', ''034'', ''035'',
     ''036'', ''037'', ''add'', ''addu'', ''sub'', ''subu'', ''and'', ''or'', ''xor'', ''nor'', ''050'', ''051'', ''slt'', ''sltu'', ''054'',
     ''055'', ''056'', ''057'', ''060'', ''061'', ''062'', ''063'', ''064'', ''065'', ''066'', ''067'', ''070'', ''071'', ''072'', ''073'', ''074'',
     ''075'', ''076'', ''077'']"

definition regstrings :: "string list" where
  "regstrings = [
     ''0'', ''r1'', ''r2'', ''r3'', ''r4'', ''r5'', ''r6'', ''r7'', ''r8'', ''r9'', ''r10'', ''r11'', ''r12'', ''r13'', ''r14'', ''r15'', ''r16'',
     ''r17'', ''r18'', ''r19'', ''r20'', ''r21'', ''r22'', ''r23'', ''r24'', ''r25'', ''r26'', ''r27'', ''gp'', ''sp'', ''r30'', ''r31'']"

text \<open>The operation codes the interpreter does not execute.\<close>

definition I_COP0 :: word32 where "I_COP0 = 16"
definition I_COP1 :: word32 where "I_COP1 = 17"
definition I_COP2 :: word32 where "I_COP2 = 18"
definition I_COP3 :: word32 where "I_COP3 = 19"
definition I_SWL :: word32 where "I_SWL = 42"
definition I_SWR :: word32 where "I_SWR = 46"
definition I_LWC0 :: word32 where "I_LWC0 = 48"
definition I_LWC1 :: word32 where "I_LWC1 = 49"
definition I_LWC2 :: word32 where "I_LWC2 = 50"
definition I_LWC3 :: word32 where "I_LWC3 = 51"
definition I_SWC0 :: word32 where "I_SWC0 = 56"
definition I_SWC1 :: word32 where "I_SWC1 = 57"
definition I_SWC2 :: word32 where "I_SWC2 = 58"
definition I_SWC3 :: word32 where "I_SWC3 = 59"
definition I_NOP :: word32 where "I_NOP = 0"

lemmas other_codes = I_COP0_def I_COP1_def I_COP2_def I_COP3_def I_SWL_def I_SWR_def I_LWC0_def I_LWC1_def I_LWC2_def I_LWC3_def I_SWC0_def I_SWC1_def I_SWC2_def I_SWC3_def I_NOP_def

text \<open>The kernel's table: the format of the printed instruction and the fields that go into it; the rows of numbers that are not operation codes are left out.\<close>

definition opStrings :: "(opcode \<times> string \<times> RegType list) list" where
  "opStrings = [
     (OP_ADD, ''ADD r%d,r%d,r%d'', [RD, RS, RT]), (OP_ADDI, ''ADDI r%d,r%d,%d'', [RT, RS, EXTRA]), (OP_ADDIU, ''ADDIU r%d,r%d,%d'', [RT, RS, EXTRA]),
     (OP_ADDU, ''ADDU r%d,r%d,r%d'', [RD, RS, RT]), (OP_AND, ''AND r%d,r%d,r%d'', [RD, RS, RT]), (OP_ANDI, ''ANDI r%d,r%d,%d'', [RT, RS, EXTRA]),
     (OP_BEQ, ''BEQ r%d,r%d,%d'', [RS, RT, EXTRA]), (OP_BGEZ, ''BGEZ r%d,%d'', [RS, EXTRA, NONE]), (OP_BGEZAL, ''BGEZAL r%d,%d'', [RS, EXTRA, NONE]),
     (OP_BGTZ, ''BGTZ r%d,%d'', [RS, EXTRA, NONE]), (OP_BLEZ, ''BLEZ r%d,%d'', [RS, EXTRA, NONE]), (OP_BLTZ, ''BLTZ r%d,%d'', [RS, EXTRA, NONE]),
     (OP_BLTZAL, ''BLTZAL r%d,%d'', [RS, EXTRA, NONE]), (OP_BNE, ''BNE r%d,r%d,%d'', [RS, RT, EXTRA]), (OP_DIV, ''DIV r%d,r%d'', [RS, RT, NONE]),
     (OP_DIVU, ''DIVU r%d,r%d'', [RS, RT, NONE]), (OP_J, ''J %d'', [EXTRA, NONE, NONE]), (OP_JAL, ''JAL %d'', [EXTRA, NONE, NONE]),
     (OP_JALR, ''JALR r%d,r%d'', [RD, RS, NONE]), (OP_JR, ''JR r%d,r%d'', [RD, RS, NONE]), (OP_LB, ''LB r%d,%d(r%d)'', [RT, EXTRA, RS]),
     (OP_LBU, ''LBU r%d,%d(r%d)'', [RT, EXTRA, RS]), (OP_LH, ''LH r%d,%d(r%d)'', [RT, EXTRA, RS]), (OP_LHU, ''LHU r%d,%d(r%d)'', [RT, EXTRA, RS]),
     (OP_LUI, ''LUI r%d,%d'', [RT, EXTRA, NONE]), (OP_LW, ''LW r%d,%d(r%d)'', [RT, EXTRA, RS]), (OP_LWL, ''LWL r%d,%d(r%d)'', [RT, EXTRA, RS]),
     (OP_LWR, ''LWR r%d,%d(r%d)'', [RT, EXTRA, RS]), (OP_MFHI, ''MFHI r%d'', [RD, NONE, NONE]), (OP_MFLO, ''MFLO r%d'', [RD, NONE, NONE]),
     (OP_MTHI, ''MTHI r%d'', [RS, NONE, NONE]), (OP_MTLO, ''MTLO r%d'', [RS, NONE, NONE]), (OP_MULT, ''MULT r%d,r%d'', [RS, RT, NONE]),
     (OP_MULTU, ''MULTU r%d,r%d'', [RS, RT, NONE]), (OP_NOR, ''NOR r%d,r%d,r%d'', [RD, RS, RT]), (OP_OR, ''OR r%d,r%d,r%d'', [RD, RS, RT]),
     (OP_ORI, ''ORI r%d,r%d,%d'', [RT, RS, EXTRA]), (OP_RFE, ''RFE'', [NONE, NONE, NONE]), (OP_SB, ''SB r%d,%d(r%d)'', [RT, EXTRA, RS]),
     (OP_SH, ''SH r%d,%d(r%d)'', [RT, EXTRA, RS]), (OP_SLL, ''SLL r%d,r%d,%d'', [RD, RT, EXTRA]), (OP_SLLV, ''SLLV r%d,r%d,r%d'', [RD, RT, RS]),
     (OP_SLT, ''SLT r%d,r%d,r%d'', [RD, RS, RT]), (OP_SLTI, ''SLTI r%d,r%d,%d'', [RT, RS, EXTRA]), (OP_SLTIU, ''SLTIU r%d,r%d,%d'', [RT, RS, EXTRA]),
     (OP_SLTU, ''SLTU r%d,r%d,r%d'', [RD, RS, RT]), (OP_SRA, ''SRA r%d,r%d,%d'', [RD, RT, EXTRA]), (OP_SRAV, ''SRAV r%d,r%d,r%d'', [RD, RT, RS]),
     (OP_SRL, ''SRL r%d,r%d,%d'', [RD, RT, EXTRA]), (OP_SRLV, ''SRLV r%d,r%d,r%d'', [RD, RT, RS]), (OP_SUB, ''SUB r%d,r%d,r%d'', [RD, RS, RT]),
     (OP_SUBU, ''SUBU r%d,r%d,r%d'', [RD, RS, RT]), (OP_SW, ''SW r%d,%d(r%d)'', [RT, EXTRA, RS]), (OP_SWL, ''SWL r%d,%d(r%d)'', [RT, EXTRA, RS]),
     (OP_SWR, ''SWR r%d,%d(r%d)'', [RT, EXTRA, RS]), (OP_XOR, ''XOR r%d,r%d,r%d'', [RD, RS, RT]), (OP_XORI, ''XORI r%d,r%d,%d'', [RT, RS, EXTRA]),
     (OP_SYSCALL, ''SYSCALL'', [NONE, NONE, NONE]), (OP_UNIMP, ''Unimplemented'', [NONE, NONE, NONE]), (OP_RES, ''Reserved'', [NONE, NONE, NONE])]"

section \<open>The disassembler\<close>

definition off26 :: "word32 \<Rightarrow> word32" where
  "off26 i = push_bit 2 (i AND (push_bit 26 1 - 1))"

definition top4 :: "word32 \<Rightarrow> word32" where
  "top4 i = i AND NOT (push_bit 28 1 - 1)"

definition off16 :: "word32 \<Rightarrow> word32" where
  "off16 i = push_bit 2 (immed i)"

definition R :: "word32 \<Rightarrow> string result" where
  "R k = array_get regstrings (unat k)"

text \<open>The operands with \<^verbatim>\<open>,\<close> between them.\<close>

fun commas :: "string result list \<Rightarrow> string result" where
  "commas [] = Inr []"
| "commas [x] = x"
| "commas (x # xs) = rbind x (\<lambda>a. rbind (commas xs) (\<lambda>b. Inr (a @ '','' @ b)))"

definition dump_special :: "word32 \<Rightarrow> string result" where
  "dump_special i = (let fn = i AND 0x3f; s = R (field_rs i); t = R (field_rt i); d = R (field_rd i) in
     rbind (array_get specialops (unat fn)) (\<lambda>name.
     rbind (if fn \<in> {I_SLL, I_SRL, I_SRA} then commas [d, t, Inr (''0x'' @ hex (field_shamt i))]
       else if fn \<in> {I_SLLV, I_SRLV, I_SRAV} then commas [d, t, s]
       else if fn \<in> {I_JR, I_JALR, I_MFLO, I_MTLO} then s
       else if fn \<in> {I_MFHI, I_MTHI} then d
       else if fn \<in> {I_MULT, I_MULTU, I_DIV, I_DIVU} then commas [s, t]
       else if fn \<in> {I_ADD, I_ADDU, I_SUB, I_SUBU, I_AND, I_OR, I_XOR, I_NOR, I_SLT, I_SLTU} then commas [d, s, t]
       else Inr []) (\<lambda>ops.
     Inr (name @ [CHR 0x09] @ ops))))"

definition dump_bcond :: "word32 \<Rightarrow> word32 \<Rightarrow> string result" where
  "dump_bcond i adr = (let op = field_rt i;
       name = (if op = I_BLTZ then ''bltz'' else if op = I_BGEZ then ''bgez'' else if op = I_BLTZAL then ''bltzal''
               else if op = I_BGEZAL then ''bgezal'' else ''BCOND'') in
     rbind (commas [R (field_rs i), Inr (hex08 (off16 i + adr + 4))]) (\<lambda>ops. Inr (name @ [CHR 0x09] @ ops)))"

definition dump_normal :: "word32 \<Rightarrow> word32 \<Rightarrow> string result" where
  "dump_normal i adr = (let op = drop_bit 26 i; s = R (field_rs i); t = R (field_rt i); im = ''0x'' @ hex (immed i) in
     rbind (array_get normalops (unat op)) (\<lambda>name.
     rbind (if op \<in> {I_J, I_JAL} then Inr (hex08 (top4 adr OR off26 i))
       else if op \<in> {I_BEQ, I_BNE} then commas [t, s, Inr (hex08 (off16 i + adr + 4))]
       else if op \<in> {I_ADDI, I_ADDIU, I_SLTI, I_SLTIU, I_ANDI, I_ORI, I_XORI} then commas [t, s, Inr im]
       else if op = I_LUI then commas [t, Inr im]
       else if op \<in> {I_LB, I_LH, I_LWL, I_LW, I_LBU, I_LHU, I_LWR, I_SB, I_SH, I_SWL, I_SW, I_SWR, I_LWC0, I_LWC1, I_LWC2, I_LWC3,
         I_SWC0, I_SWC1, I_SWC2, I_SWC3} then commas [t, rbind s (\<lambda>s. Inr (im @ ''('' @ s @ '')''))]
       else Inr []) (\<lambda>ops.
     Inr (name @ [CHR 0x09] @ ops))))"

text \<open>\<open>longdis\<close> is the variable of that name, which is one unless a debugger changes it.\<close>

definition dump_ascii :: "bool \<Rightarrow> word32 \<Rightarrow> word32 \<Rightarrow> string result" where
  "dump_ascii longdis i adr = (let op = drop_bit 26 i in
     rbind (if i = I_NOP then Inr ''nop'' else if op = I_SPECIAL then dump_special i else if op = I_BCOND then dump_bcond i adr else dump_normal i adr)
       (\<lambda>text. Inr ((if longdis then hex08 adr @ '': '' @ hex08 i @ ''  '' else []) @ [CHR 0x09] @ text)))"

section \<open>The trace of the kernel's simulator\<close>

fun fill_format :: "string \<Rightarrow> int list \<Rightarrow> string" where
  "fill_format (c # d # cs) (n # ns) = (if c = CHR ''%'' \<and> d = CHR ''d'' then decimal n @ fill_format cs ns else c # fill_format (d # cs) (n # ns))"
| "fill_format cs ns = cs"

definition trace_line :: "word32 \<Rightarrow> word32 \<Rightarrow> string result" where
  "trace_line pcreg raw = (let i = Decode raw in
     case map_of opStrings (opCode i) of None \<Rightarrow> Inl Bad_Index
     | Some (form, args) \<Rightarrow> Inr (''At PC = 0x'' @ hex pcreg @ '': '' @ fill_format form (map (\<lambda>r. TypeToReg r i) args) @ [CHR 0x0A]))"

section \<open>Both give the same names\<close>









text \<open>The operands, which are always printed.\<close>

lemma commas_Inr: "\<forall>x \<in> set xs. \<exists>a. x = Inr a \<Longrightarrow> \<exists>a. commas xs = Inr a"
  by (induction xs rule: commas.induct) auto








section \<open>The printed targets are the real ones\<close>










section \<open>What the disassembler leaves out\<close>

text \<open>The tests of one register against zero that are not in \<^verbatim>\<open>BCOND\<close> are printed without operands, and the moves from the low word with the wrong field.\<close>

lemma operands_left_out:
  "dump_ascii False 0x1c200001 0 = Inr (CHR 0x09 # ''bgtz'' @ [CHR 0x09])"
  "dump_ascii False 0x00001812 0 = Inr (CHR 0x09 # ''mflo'' @ CHR 0x09 # ''0'')"
  by (simp_all add: dump_ascii_def dump_normal_def dump_special_def Let_def op_codes fn_codes other_codes field_rs_def field_rt_def field_rd_def R_def
      regstrings_def normalops_def specialops_def)

end
