(* ===== verification/Stack_Examples.thy ===== *)
theory Stack_Examples
  imports Nachos_Prelude
begin

text \<open>
  The stacks of the C++ introduction under \<^verbatim>\<open>c++example\<close>: an array of fixed size (\<^verbatim>\<open>stack.cc\<close>, the class \<^verbatim>\<open>ArrayStack\<close> of
  \<^verbatim>\<open>inheritstack.cc\<close>, and for any type of elements \<^verbatim>\<open>templatestack.cc\<close>) and a linked list (\<^verbatim>\<open>list.cc\<close>, \<^verbatim>\<open>ListStack\<close>). The abstract class
  of \<^verbatim>\<open>inheritstack.h\<close> is the locale \<open>stack_class\<close>; its test routine is proved once and holds for both implementations.
\<close>

section \<open>The stack in an array\<close>

text \<open>\<open>stack_cells\<close> is the allocated array, \<open>junk\<close> what operator \<^verbatim>\<open>new\<close> finds in it.\<close>

record 'a ArrayStack =
  stack_top :: nat
  stack_cells :: "'a list"

definition ArrayStack_new :: "(nat \<Rightarrow> 'a) \<Rightarrow> int \<Rightarrow> 'a ArrayStack result" where
  "ArrayStack_new junk sz = rbind (ASSERT (sz \<ge> 1)) (\<lambda>_. Inr \<lparr>stack_top = 0, stack_cells = map junk [0..<nat sz]\<rparr>)"

definition ArrayStack_Full :: "'a ArrayStack \<Rightarrow> bool" where
  "ArrayStack_Full s \<longleftrightarrow> stack_top s = length (stack_cells s)"

definition ArrayStack_Empty :: "'a ArrayStack \<Rightarrow> bool" where
  "ArrayStack_Empty s \<longleftrightarrow> stack_top s = 0"

definition ArrayStack_Push :: "'a \<Rightarrow> 'a ArrayStack \<Rightarrow> 'a ArrayStack result" where
  "ArrayStack_Push v s = rbind (ASSERT (\<not> ArrayStack_Full s)) (\<lambda>_. rbind (array_set (stack_cells s) (stack_top s) v) (\<lambda>cs.
     Inr \<lparr>stack_top = stack_top s + 1, stack_cells = cs\<rparr>))"

definition ArrayStack_Pop :: "'a ArrayStack \<Rightarrow> ('a \<times> 'a ArrayStack) result" where
  "ArrayStack_Pop s = rbind (ASSERT (\<not> ArrayStack_Empty s)) (\<lambda>_. rbind (array_get (stack_cells s) (stack_top s - 1)) (\<lambda>v.
     Inr (v, s\<lparr>stack_top := stack_top s - 1\<rparr>)))"

section \<open>The stack in a list\<close>

record cell =
  cell_item :: int
  cell_next :: "nat option"

text \<open>The heap of list elements, the next address \<^verbatim>\<open>new\<close> hands out, and the two pointers of class \<^verbatim>\<open>List\<close>.\<close>

record ListStack =
  elements :: "nat \<rightharpoonup> cell"
  next_address :: nat
  first_ptr :: "nat option"
  last_ptr :: "nat option"

definition ListStack_new :: "(nat \<rightharpoonup> cell) \<Rightarrow> nat \<Rightarrow> ListStack" where
  "ListStack_new h a = \<lparr>elements = h, next_address = a, first_ptr = None, last_ptr = None\<rparr>"

definition Cell_Empty :: "ListStack \<Rightarrow> bool" where
  "Cell_Empty s \<longleftrightarrow> first_ptr s = None"

definition Cell_Prepend :: "int \<Rightarrow> ListStack \<Rightarrow> ListStack result" where
  "Cell_Prepend v s = (let e = next_address s;
       s1 = s\<lparr>elements := (elements s)(e \<mapsto> \<lparr>cell_item = v, cell_next = None\<rparr>), next_address := e + 1\<rparr> in
     if Cell_Empty s then Inr (s1\<lparr>first_ptr := Some e, last_ptr := Some e\<rparr>)
     else Inr (s1\<lparr>elements := (elements s1)(e \<mapsto> \<lparr>cell_item = v, cell_next = first_ptr s\<rparr>), first_ptr := Some e\<rparr>))"

definition Cell_Remove :: "ListStack \<Rightarrow> (int \<times> ListStack) result" where
  "Cell_Remove s = (case first_ptr s of None \<Rightarrow> Inl Assert_Failed
     | Some a \<Rightarrow> (case elements s a of None \<Rightarrow> Inl Bad_Pointer
       | Some e \<Rightarrow> let s1 = (if first_ptr s = last_ptr s then s\<lparr>first_ptr := None, last_ptr := None\<rparr> else s\<lparr>first_ptr := cell_next e\<rparr>) in
           Inr (cell_item e, s1\<lparr>elements := (elements s1)(a := None)\<rparr>)))"

definition ListStack_Full :: "ListStack \<Rightarrow> bool" where
  "ListStack_Full s \<longleftrightarrow> False"

definition ListStack_Empty :: "ListStack \<Rightarrow> bool" where
  "ListStack_Empty s \<longleftrightarrow> Cell_Empty s"

definition ListStack_Push :: "int \<Rightarrow> ListStack \<Rightarrow> ListStack result" where
  "ListStack_Push v s = Cell_Prepend v s"

definition ListStack_Pop :: "ListStack \<Rightarrow> (int \<times> ListStack) result" where
  "ListStack_Pop s = rbind (ASSERT (\<not> ListStack_Empty s)) (\<lambda>_. Cell_Remove s)"

text \<open>The destructor of the list removes what is left; the fuel is the number of elements, one more for the test that ends the loop.\<close>

fun Cell_delete :: "nat \<Rightarrow> ListStack \<Rightarrow> ListStack result" where
  "Cell_delete 0 s = Inl Out_Of_Fuel"
| "Cell_delete (Suc n) s = (if Cell_Empty s then Inr s else rbind (Cell_Remove s) (\<lambda>(_, s'). Cell_delete n s'))"

section \<open>The test routine\<close>

text \<open>
  \<^verbatim>\<open>Stack::SelfTest\<close> calls the virtual functions of the object; they are its arguments here. It returns what it prints
  after ``popping''. The loop that empties the stack gets a bound.
\<close>

fun push_loop :: "('s \<Rightarrow> bool) \<Rightarrow> (int \<Rightarrow> 's \<Rightarrow> 's result) \<Rightarrow> nat \<Rightarrow> int \<Rightarrow> 's \<Rightarrow> 's result" where
  "push_loop full push 0 num s = Inr s"
| "push_loop full push (Suc n) num s = rbind (ASSERT (\<not> full s)) (\<lambda>_. rbind (push num s) (push_loop full push n (num + 1)))"

fun pop_loop :: "('s \<Rightarrow> bool) \<Rightarrow> ('s \<Rightarrow> ('a \<times> 's) result) \<Rightarrow> nat \<Rightarrow> 's \<Rightarrow> ('a list \<times> 's) result" where
  "pop_loop isempty pop 0 s = Inl Out_Of_Fuel"
| "pop_loop isempty pop (Suc n) s = (if isempty s then Inr ([], s)
     else rbind (pop s) (\<lambda>(v, s'). rbind (pop_loop isempty pop n s') (\<lambda>(vs, s''). Inr (v # vs, s''))))"

definition SelfTest :: "('s \<Rightarrow> bool) \<Rightarrow> (int \<Rightarrow> 's \<Rightarrow> 's result) \<Rightarrow> ('s \<Rightarrow> bool) \<Rightarrow> ('s \<Rightarrow> (int \<times> 's) result) \<Rightarrow> nat \<Rightarrow> nat \<Rightarrow> 's \<Rightarrow> (int list \<times> 's) result" where
  "SelfTest full push isempty pop fuel numToPush s = rbind (push_loop full push numToPush 17 s) (pop_loop isempty pop fuel)"

text \<open>The test of \<^verbatim>\<open>stack.cc\<close> and \<^verbatim>\<open>templatestack.cc\<close> pushes until the array is full; \<open>succ\<close> is \<^verbatim>\<open>count++\<close>.\<close>

fun fill_loop :: "nat \<Rightarrow> ('a \<Rightarrow> 'a) \<Rightarrow> 'a \<Rightarrow> 'a ArrayStack \<Rightarrow> 'a ArrayStack result" where
  "fill_loop 0 succ num s = Inl Out_Of_Fuel"
| "fill_loop (Suc n) succ num s = (if ArrayStack_Full s then Inr s
     else rbind (ArrayStack_Push num s) (fill_loop n succ (succ num)))"

definition Array_SelfTest :: "nat \<Rightarrow> ('a \<Rightarrow> 'a) \<Rightarrow> 'a \<Rightarrow> 'a ArrayStack \<Rightarrow> ('a list \<times> 'a ArrayStack) result" where
  "Array_SelfTest fuel succ start s = rbind (fill_loop fuel succ start s) (pop_loop ArrayStack_Empty ArrayStack_Pop fuel)"

section \<open>The abstract class\<close>

locale stack_class =
  fixes rep :: "'s \<Rightarrow> 'a list \<Rightarrow> bool"
    and full isempty :: "'s \<Rightarrow> bool"
    and push :: "'a \<Rightarrow> 's \<Rightarrow> 's result"
    and pop :: "'s \<Rightarrow> ('a \<times> 's) result"
    and room :: "'s \<Rightarrow> nat option"
  assumes full_law: "rep s xs \<Longrightarrow> full s \<longleftrightarrow> room s = Some 0"
    and empty_law: "rep s xs \<Longrightarrow> isempty s \<longleftrightarrow> xs = []"
    and push_law: "rep s xs \<Longrightarrow> \<not> full s \<Longrightarrow> \<exists>s'. push x s = Inr s' \<and> rep s' (x # xs) \<and> room s' = map_option (\<lambda>k. k - 1) (room s)"
    and pop_law: "rep s (x # xs) \<Longrightarrow> \<exists>s'. pop s = Inr (x, s') \<and> rep s' xs"
begin

lemma pop_loop_all:
  "rep s xs \<Longrightarrow> length xs < fuel \<Longrightarrow> \<exists>s'. pop_loop isempty pop fuel s = Inr (xs, s') \<and> rep s' []"
proof (induction xs arbitrary: s fuel)
  case Nil
  then obtain n where "fuel = Suc n" by (cases fuel) auto
  with Nil(1) show ?case by (auto simp: empty_law [OF Nil(1)])
next
  case (Cons x xs)
  then obtain n where n: "fuel = Suc n" "length xs < n" by (cases fuel) auto
  obtain s1 where s1: "pop s = Inr (x, s1)" "rep s1 xs" using pop_law [OF Cons.prems(1)] by blast
  obtain s2 where "pop_loop isempty pop n s1 = Inr (xs, s2)" "rep s2 []" using Cons.IH [OF s1(2) n(2)] by blast
  with n(1) s1(1) empty_law [OF Cons.prems(1)] show ?case by simp
qed

lemma push_next:
  assumes "rep s xs" "case room s of None \<Rightarrow> True | Some k \<Rightarrow> n < k"
  obtains s' where "\<not> full s" "push x s = Inr s'" "rep s' (x # xs)" "case room s' of None \<Rightarrow> True | Some k \<Rightarrow> n \<le> k"
proof -
  have f: "\<not> full s" using assms full_law [OF assms(1)] by (auto split: option.split_asm)
  obtain s' where s': "push x s = Inr s'" "rep s' (x # xs)" "room s' = map_option (\<lambda>k. k - 1) (room s)"
    using push_law [OF assms(1) f, of x] by blast
  have "case room s' of None \<Rightarrow> True | Some k \<Rightarrow> n \<le> k" using assms(2) s'(3) by (cases "room s") auto
  with f s'(1,2) show thesis by (rule that)
qed

end

text \<open>The test routine, for a stack of integers.\<close>

locale int_stack_class = stack_class rep full isempty push pop room
  for rep :: "'s \<Rightarrow> int list \<Rightarrow> bool" and full isempty :: "'s \<Rightarrow> bool" and push :: "int \<Rightarrow> 's \<Rightarrow> 's result"
    and pop :: "'s \<Rightarrow> (int \<times> 's) result" and room :: "'s \<Rightarrow> nat option"
begin

lemma push_loop_all:
  "rep s xs \<Longrightarrow> (case room s of None \<Rightarrow> True | Some k \<Rightarrow> n \<le> k) \<Longrightarrow>
     \<exists>s'. push_loop full push n c s = Inr s' \<and> rep s' (rev [c..c + int n - 1] @ xs)"
proof (induction n arbitrary: s xs c)
  case (Suc n)
  have "case room s of None \<Rightarrow> True | Some k \<Rightarrow> n < k" using Suc.prems(2) by (auto split: option.splits)
  then obtain s1 where s1: "\<not> full s" "push c s = Inr s1" "rep s1 (c # xs)" "case room s1 of None \<Rightarrow> True | Some k \<Rightarrow> n \<le> k"
    by (rule push_next [OF Suc.prems(1)])
  obtain s2 where "push_loop full push n (c + 1) s1 = Inr s2" "rep s2 (rev [c + 1..c + 1 + int n - 1] @ c # xs)"
    using Suc.IH [OF s1(3,4)] by blast
  moreover have "[c..c + int (Suc n) - 1] = c # [c + 1..c + 1 + int n - 1]" by (subst upto_rec1) (simp_all add: algebra_simps)
  ultimately show ?case using s1(1,2) by simp
qed simp

lemma push_loop_overflow:
  "rep s xs \<Longrightarrow> room s = Some k \<Longrightarrow> k < n \<Longrightarrow> push_loop full push n c s = Inl Assert_Failed"
proof (induction k arbitrary: s xs c n)
  case 0
  then show ?case using full_law [OF 0(1)] by (cases n) simp_all
next
  case (Suc k)
  then obtain n' where n: "n = Suc n'" "k < n'" by (cases n) auto
  have f: "\<not> full s" using full_law [OF Suc.prems(1)] Suc.prems(2) by simp
  obtain s1 where "push c s = Inr s1" "rep s1 (c # xs)" "room s1 = Some k" using push_law [OF Suc.prems(1) f, of c] Suc.prems(2) by auto
  with Suc.IH [OF this(2,3) n(2)] f n(1) show ?case by simp
qed

lemma SelfTest_prints:
  assumes "rep s []" "case room s of None \<Rightarrow> True | Some k \<Rightarrow> n \<le> k" "n < fuel"
  shows "\<exists>s'. SelfTest full push isempty pop fuel n s = Inr (rev [17..16 + int n], s') \<and> rep s' []"
proof -
  obtain s1 where s1: "push_loop full push n 17 s = Inr s1" "rep s1 (rev [17..17 + int n - 1] @ [])"
    using push_loop_all [OF assms(1,2)] by blast
  have "length (rev [17..17 + int n - 1] @ []) < fuel" using assms(3) by simp
  from pop_loop_all [OF s1(2) this] s1(1) show ?thesis by (auto simp: SelfTest_def algebra_simps)
qed

end

section \<open>The array implements the class\<close>

definition array_rep :: "'a ArrayStack \<Rightarrow> 'a list \<Rightarrow> bool" where
  "array_rep s xs \<longleftrightarrow> stack_top s \<le> length (stack_cells s) \<and> xs = rev (take (stack_top s) (stack_cells s))"

definition array_room :: "'a ArrayStack \<Rightarrow> nat option" where
  "array_room s = Some (length (stack_cells s) - stack_top s)"

lemma array_push:
  assumes "array_rep s xs" "\<not> ArrayStack_Full s"
  shows "\<exists>s'. ArrayStack_Push x s = Inr s' \<and> array_rep s' (x # xs) \<and> array_room s' = map_option (\<lambda>k. k - 1) (array_room s)"
  using assms by (simp add: ArrayStack_Push_def ArrayStack_Full_def array_rep_def array_room_def take_Suc_conv_app_nth le_neq_implies_less)

lemma array_pop:
  assumes "array_rep s (x # xs)"
  shows "\<exists>s'. ArrayStack_Pop s = Inr (x, s') \<and> array_rep s' xs"
proof -
  have t: "stack_top s \<le> length (stack_cells s)" "take (stack_top s) (stack_cells s) = rev xs @ [x]"
    using assms by (auto simp: array_rep_def simp flip: rev_swap)
  then obtain k where k: "stack_top s = Suc k" by (cases "stack_top s") auto
  have "take k (stack_cells s) = rev xs" "stack_cells s ! k = x" using t by (simp_all add: k take_Suc_conv_app_nth)
  then show ?thesis using t(1) by (auto simp: ArrayStack_Pop_def ArrayStack_Empty_def array_rep_def k)
qed

lemma array_tests:
  "array_rep s xs \<Longrightarrow> ArrayStack_Full s \<longleftrightarrow> array_room s = Some 0" "array_rep s xs \<Longrightarrow> ArrayStack_Empty s \<longleftrightarrow> xs = []"
  by (auto simp: ArrayStack_Full_def ArrayStack_Empty_def array_rep_def array_room_def)

interpretation arr: stack_class array_rep ArrayStack_Full ArrayStack_Empty ArrayStack_Push ArrayStack_Pop array_room
  by unfold_locales (rule array_tests array_push array_pop; assumption)+

interpretation int_arr: int_stack_class array_rep ArrayStack_Full ArrayStack_Empty ArrayStack_Push ArrayStack_Pop array_room
  by unfold_locales

section \<open>The list implements the class\<close>

fun chain :: "(nat \<rightharpoonup> cell) \<Rightarrow> nat option \<Rightarrow> nat list \<Rightarrow> int list \<Rightarrow> bool" where
  "chain h p [] [] \<longleftrightarrow> p = None"
| "chain h p (a # as) (x # xs) \<longleftrightarrow> p = Some a \<and> (\<exists>q. h a = Some \<lparr>cell_item = x, cell_next = q\<rparr> \<and> chain h q as xs)"
| "chain h p as xs \<longleftrightarrow> False"

definition cell_rep :: "ListStack \<Rightarrow> int list \<Rightarrow> bool" where
  "cell_rep s xs \<longleftrightarrow> (\<exists>as. chain (elements s) (first_ptr s) as xs \<and> distinct as \<and> (\<forall>a \<in> set as. a < next_address s)
     \<and> last_ptr s = (if as = [] then None else Some (last as)))"

lemma chain_frame: "\<forall>a \<in> set as. h' a = h a \<Longrightarrow> chain h' p as xs = chain h p as xs"
  by (induction h p as xs rule: chain.induct) auto

lemma chain_first: "chain h p as xs \<Longrightarrow> p = (case as of [] \<Rightarrow> None | a # _ \<Rightarrow> Some a)" "chain h p as xs \<Longrightarrow> as = [] \<longleftrightarrow> xs = []"
  by (cases as; cases xs; simp)+

lemma cell_empty: "cell_rep s xs \<Longrightarrow> ListStack_Empty s \<longleftrightarrow> xs = []"
  unfolding cell_rep_def ListStack_Empty_def Cell_Empty_def
proof (elim exE conjE)
  fix as assume c: "chain (elements s) (first_ptr s) as xs"
  show "first_ptr s = None \<longleftrightarrow> xs = []" using chain_first [OF c] by (cases as) simp_all
qed

lemma cell_push:
  assumes "cell_rep s xs"
  shows "\<exists>s'. ListStack_Push x s = Inr s' \<and> cell_rep s' (x # xs)"
proof -
  obtain as where c: "chain (elements s) (first_ptr s) as xs" "distinct as" "\<forall>a \<in> set as. a < next_address s"
    "last_ptr s = (if as = [] then None else Some (last as))" using assms by (auto simp: cell_rep_def)
  let ?e = "next_address s"
  have n: "?e \<notin> set as" using c(3) by auto
  have fr: "chain ((elements s)(?e \<mapsto> v)) p as xs = chain (elements s) p as xs" for v p using n by (intro chain_frame) auto
  show ?thesis
  proof (cases "as = []")
    case True
    then have "first_ptr s = None" "xs = []" using chain_first [OF c(1)] by simp_all
    then show ?thesis by (auto simp: ListStack_Push_def Cell_Prepend_def Let_def Cell_Empty_def cell_rep_def intro!: exI [of _ "[?e]"])
  next
    case False
    then obtain b bs where b: "as = b # bs" "first_ptr s = Some b" using chain_first(1) [OF c(1)] by (cases as) auto
    with c n fr show ?thesis
      by (auto simp: ListStack_Push_def Cell_Prepend_def Let_def Cell_Empty_def cell_rep_def less_SucI intro!: exI [of _ "?e # as"])
  qed
qed

lemma cell_pop:
  assumes "cell_rep s (x # xs)"
  shows "\<exists>s'. ListStack_Pop s = Inr (x, s') \<and> cell_rep s' xs"
proof -
  obtain as where c: "chain (elements s) (first_ptr s) as (x # xs)" "distinct as" "\<forall>a \<in> set as. a < next_address s"
    "last_ptr s = (if as = [] then None else Some (last as))" using assms by (auto simp: cell_rep_def)
  then obtain b bs q where b: "as = b # bs" "first_ptr s = Some b" "elements s b = Some \<lparr>cell_item = x, cell_next = q\<rparr>" "chain (elements s) q bs xs"
    by (cases as) auto
  have fr: "chain ((elements s)(b := None)) q bs xs" using b(4) c(2) b(1) chain_frame [of bs "(elements s)(b := None)" "elements s" q xs] by auto
  have q: "q = (case bs of [] \<Rightarrow> None | a # _ \<Rightarrow> Some a)" using chain_first(1) [OF b(4)] .
  have l: "last_ptr s = Some (if bs = [] then b else last bs)" "bs \<noteq> [] \<Longrightarrow> last bs \<noteq> b" using c(2,4) b(1) by auto
  let ?s = "s\<lparr>first_ptr := q, last_ptr := (if bs = [] then None else last_ptr s), elements := (elements s)(b := None)\<rparr>"
  have r: "cell_rep ?s xs" using fr c(2-4) b(1) by (auto simp: cell_rep_def intro!: exI [of _ bs])
  have "ListStack_Pop s = Inr (x, ?s)"
    using b(2,3) l q by (cases "bs = []") (simp_all add: ListStack_Pop_def ListStack_Empty_def Cell_Empty_def Cell_Remove_def)
  with r show ?thesis by blast
qed

interpretation lst: int_stack_class cell_rep ListStack_Full ListStack_Empty ListStack_Push ListStack_Pop "\<lambda>_. None"
  by unfold_locales (auto simp: ListStack_Full_def cell_empty intro: cell_push cell_pop)

lemma cell_delete_ends: "cell_rep s xs \<Longrightarrow> length xs < fuel \<Longrightarrow> \<exists>s'. Cell_delete fuel s = Inr s' \<and> cell_rep s' []"
proof (induction xs arbitrary: s fuel)
  case Nil
  then show ?case using cell_empty [OF Nil(1)] by (cases fuel) (auto simp: ListStack_Empty_def)
next
  case (Cons x xs)
  then obtain n where n: "fuel = Suc n" "length xs < n" by (cases fuel) auto
  obtain s1 where "ListStack_Pop s = Inr (x, s1)" "cell_rep s1 xs" using cell_pop [OF Cons.prems(1)] by blast
  with Cons.IH [OF this(2) n(2)] cell_empty [OF Cons.prems(1)] n(1) show ?case by (auto simp: ListStack_Pop_def ListStack_Empty_def)
qed

section \<open>The tests pass\<close>

lemma new_stacks:
  "1 \<le> sz \<Longrightarrow> \<exists>s. ArrayStack_new junk sz = Inr s \<and> array_rep s [] \<and> array_room s = Some (nat sz)" "cell_rep (ListStack_new h a) []"
  by (auto simp: ArrayStack_new_def array_rep_def array_room_def cell_rep_def ListStack_new_def intro: exI [of _ "[]"])

text \<open>
  The shared test routine. Whatever implementation it runs on, \<^verbatim>\<open>SelfTest\<close> ends and prints the numbers it pushed in the opposite order; on an array that is
  too small for them it stops at the assertion.
\<close>

theorem self_test_lifo:
  assumes "1 \<le> sz" "n < fuel"
  shows "\<exists>s s' l'. ArrayStack_new junk sz = Inr s
    \<and> SelfTest ListStack_Full ListStack_Push ListStack_Empty ListStack_Pop fuel n (ListStack_new h a) = Inr (rev [17..16 + int n], l')
    \<and> (if int n \<le> sz then SelfTest ArrayStack_Full ArrayStack_Push ArrayStack_Empty ArrayStack_Pop fuel n s = Inr (rev [17..16 + int n], s')
       else SelfTest ArrayStack_Full ArrayStack_Push ArrayStack_Empty ArrayStack_Pop fuel n s = Inl Assert_Failed)"
proof -
  obtain s where s: "ArrayStack_new junk sz = Inr s" "array_rep s []" "array_room s = Some (nat sz)" using new_stacks(1) [OF assms(1)] by blast
  have "\<exists>s'. SelfTest ArrayStack_Full ArrayStack_Push ArrayStack_Empty ArrayStack_Pop fuel n s = Inr (rev [17..16 + int n], s')" if "int n \<le> sz"
    using int_arr.SelfTest_prints [OF s(2) _ assms(2)] s(3) that by (auto simp: nat_le_iff le_nat_iff)
  moreover have "SelfTest ArrayStack_Full ArrayStack_Push ArrayStack_Empty ArrayStack_Pop fuel n s = Inl Assert_Failed" if "\<not> int n \<le> sz"
    using int_arr.push_loop_overflow [OF s(2,3), of n] that assms(1) by (simp add: SelfTest_def nat_less_iff)
  moreover obtain l' where "SelfTest ListStack_Full ListStack_Push ListStack_Empty ListStack_Pop fuel n (ListStack_new h a) = Inr (rev [17..16 + int n], l')"
    using lst.SelfTest_prints [OF new_stacks(2) _ assms(2)] by auto
  ultimately show ?thesis using s(1) by (cases "int n \<le> sz") auto
qed

theorem self_test_lifo_witness:
  "\<exists>s s'. ArrayStack_new (\<lambda>_. 0) 10 = Inr s
     \<and> SelfTest ArrayStack_Full ArrayStack_Push ArrayStack_Empty ArrayStack_Pop 11 10 s = Inr (rev [17..26], s')"
  using self_test_lifo [of 10 10 11 "\<lambda>_. 0" Map.empty 0] by auto

lemma fill_loop_all:
  assumes "array_rep s xs" "array_room s = Some k" "k < fuel"
  shows "\<exists>s'. fill_loop fuel succ c s = Inr s' \<and> array_rep s' (rev (map (\<lambda>i. (succ ^^ i) c) [0..<k]) @ xs)"
  using assms
proof (induction k arbitrary: s xs c fuel)
  case 0
  then show ?case using arr.full_law [OF 0(1)] by (cases fuel) auto
next
  case (Suc k)
  then obtain n where n: "fuel = Suc n" "k < n" by (cases fuel) auto
  have f: "\<not> ArrayStack_Full s" using arr.full_law [OF Suc.prems(1)] Suc.prems(2) by simp
  obtain s1 where s1: "ArrayStack_Push c s = Inr s1" "array_rep s1 (c # xs)" "array_room s1 = Some k"
    using array_push [OF Suc.prems(1) f, of c] Suc.prems(2) by auto
  have "map (\<lambda>i. (succ ^^ i) c) [0..<Suc k] = c # map (\<lambda>i. (succ ^^ i) (succ c)) [0..<k]"
    by (simp add: map_upt_Suc funpow_swap1 del: upt_Suc)
  with Suc.IH [OF s1(2,3) n(2), of "succ c"] s1(1) f n(1) show ?case by auto
qed

text \<open>The test of the array stacks fills the whole array with successive values of any type and gets them back in the opposite order.\<close>

lemma array_self_test:
  assumes "1 \<le> sz" "nat sz < fuel" "ArrayStack_new junk sz = Inr s"
  shows "\<exists>s'. Array_SelfTest fuel succ start s = Inr (rev (map (\<lambda>i. (succ ^^ i) start) [0..<nat sz]), s') \<and> array_rep s' []"
proof -
  have s: "array_rep s []" "array_room s = Some (nat sz)" using new_stacks(1) [OF assms(1), of junk] assms(3) by auto
  obtain s1 where s1: "fill_loop fuel succ start s = Inr s1" "array_rep s1 (rev (map (\<lambda>i. (succ ^^ i) start) [0..<nat sz]) @ [])"
    using fill_loop_all [OF s assms(2)] by blast
  have "length (rev (map (\<lambda>i. (succ ^^ i) start) [0..<nat sz]) @ []) < fuel" using assms(2) by simp
  from arr.pop_loop_all [OF s1(2) this] s1(1) show ?thesis by (auto simp: Array_SelfTest_def)
qed

section \<open>The three programs\<close>

text \<open>
  \<^verbatim>\<open>main\<close> of \<^verbatim>\<open>stack.cc\<close>, \<^verbatim>\<open>templatestack.cc\<close> and \<^verbatim>\<open>inheritstack.cc\<close>: what they print after ``popping''. The loops get one round more than a stack of ten
  elements needs.
\<close>

definition stack_main :: "(nat \<Rightarrow> int) \<Rightarrow> int list result" where
  "stack_main junk = rbind (ArrayStack_new junk 10) (\<lambda>s. rbind (Array_SelfTest 11 (\<lambda>n. n + 1) 17 s) (\<lambda>(out, _). Inr out))"

definition template_main :: "(nat \<Rightarrow> int) \<Rightarrow> (nat \<Rightarrow> byte) \<Rightarrow> (int list \<times> byte list) result" where
  "template_main junk1 junk2 = rbind (ArrayStack_new junk1 10) (\<lambda>s1. rbind (ArrayStack_new junk2 10) (\<lambda>s2.
     rbind (Array_SelfTest 11 (\<lambda>n. n + 1) 17 s1) (\<lambda>(out1, _).
     rbind (Array_SelfTest 11 (\<lambda>c. c + 1) (of_char CHR ''a'') s2) (\<lambda>(out2, _). Inr (out1, out2)))))"

definition inherit_main :: "(nat \<Rightarrow> int) \<Rightarrow> (nat \<rightharpoonup> cell) \<Rightarrow> nat \<Rightarrow> (int list \<times> int list) result" where
  "inherit_main junk h a = rbind (ArrayStack_new junk 10) (\<lambda>s1. let s2 = ListStack_new h a in
     rbind (SelfTest ArrayStack_Full ArrayStack_Push ArrayStack_Empty ArrayStack_Pop 11 10 s1) (\<lambda>(out1, _).
     rbind (SelfTest ListStack_Full ListStack_Push ListStack_Empty ListStack_Pop 11 10 s2) (\<lambda>(out2, s2').
     rbind (Cell_delete 1 s2') (\<lambda>_. Inr (out1, out2)))))"

text \<open>They all print the ten values in the opposite order, the characters of the template from \<open>j\<close> to \<open>a\<close>.\<close>

lemma array_programs_print:
  "stack_main junk = Inr (rev [17..26])"
  "template_main junk junk2 = Inr (rev [17..26], map of_char (rev ''abcdefghij''))"
  by code_simp+

lemma inherit_prints: "inherit_main junk h a = Inr (rev [17..26], rev [17..26])"
proof -
  obtain s where s: "ArrayStack_new junk 10 = Inr s" "array_rep s []" "array_room s = Some 10" using new_stacks(1) [of 10 junk] by auto
  obtain s' where s': "SelfTest ArrayStack_Full ArrayStack_Push ArrayStack_Empty ArrayStack_Pop 11 10 s = Inr (rev [17..26], s')"
    using int_arr.SelfTest_prints [OF s(2), of 10 11] s(3) by auto
  obtain l where l: "SelfTest ListStack_Full ListStack_Push ListStack_Empty ListStack_Pop 11 10 (ListStack_new h a) = Inr (rev [17..26], l)" "cell_rep l []"
    using lst.SelfTest_prints [OF new_stacks(2) [of h a], of 10 11] by auto
  obtain l' where "Cell_delete 1 l = Inr l'" using cell_delete_ends [OF l(2), of 1] by auto
  with s(1) s' l(1) show ?thesis by (simp add: inherit_main_def)
qed

end
