(* ===== verification/Context_Switch.thy ===== *)
theory Context_Switch
  imports Thread_System
begin

text \<open>
  The machine-dependent context switch of \<^verbatim>\<open>threads/switch.c\<close>, instruction by instruction: \<^verbatim>\<open>SWITCH\<close> and \<^verbatim>\<open>ThreadRoot\<close> for
  the 386, on which Nachos is built here, and \<^verbatim>\<open>SWITCH\<close> for MIPS and HP PA-RISC. The offsets are those of \<^verbatim>\<open>threads/switch.h\<close>. The kernel's
  model treats a switch as a change of \<open>currentThread\<close> and of the stack of frames; here it is shown that the assembly does that.
\<close>

section \<open>Memory\<close>

text \<open>Memory is addressed by word: only aligned addresses are used. RISC machines trap on others, the compiler makes none.\<close>

type_synonym ram = "word32 \<Rightarrow> word32"

definition aligned :: "word32 \<Rightarrow> bool" where
  "aligned a \<longleftrightarrow> unat a mod 4 = 0"

definition ld :: "word32 \<Rightarrow> ram \<Rightarrow> word32 result" where
  "ld a m = (if aligned a then Inr (m a) else Inl Bad_Pointer)"

definition sd :: "word32 \<Rightarrow> word32 \<Rightarrow> ram \<Rightarrow> ram result" where
  "sd a v m = (if aligned a then Inr (m(a := v)) else Inl Bad_Pointer)"

lemma aligned_add: "aligned a \<Longrightarrow> aligned b \<Longrightarrow> aligned (a + b)"
  by (simp add: aligned_def unat_word_ariths mod_mod_cancel flip: mod_add_eq [of "unat a" 4 "unat b"])

section \<open>The 386\<close>

datatype reg = EAX | EBX | ECX | EDX | ESI | EDI | EBP | ESP

datatype oper = R reg | At word32 reg | Abs word32

datatype i386 = Movl oper oper | Pushl oper | Popl oper | Call oper word32 | Ret

text \<open>\<open>calls\<close> are the procedures called so far, each with its argument on the stack.\<close>

record x86 =
  xreg :: "reg \<Rightarrow> word32"
  xmem :: ram
  eip :: word32
  calls :: "(word32 \<times> word32) list"

definition set_reg :: "reg \<Rightarrow> word32 \<Rightarrow> x86 \<Rightarrow> x86" where
  "set_reg r v s = s\<lparr>xreg := (xreg s)(r := v)\<rparr>"

fun operand :: "oper \<Rightarrow> x86 \<Rightarrow> word32 result" where
  "operand (R r) s = Inr (xreg s r)"
| "operand (At d r) s = ld (xreg s r + d) (xmem s)"
| "operand (Abs a) s = ld a (xmem s)"

fun assign :: "oper \<Rightarrow> word32 \<Rightarrow> x86 \<Rightarrow> x86 result" where
  "assign (R r) v s = Inr (set_reg r v s)"
| "assign (At d r) v s = rbind (sd (xreg s r + d) v (xmem s)) (\<lambda>m. Inr (s\<lparr>xmem := m\<rparr>))"
| "assign (Abs a) v s = rbind (sd a v (xmem s)) (\<lambda>m. Inr (s\<lparr>xmem := m\<rparr>))"

definition push :: "word32 \<Rightarrow> x86 \<Rightarrow> x86 result" where
  "push v s = assign (At 0 ESP) v (set_reg ESP (xreg s ESP - 4) s)"

text \<open>
  \<open>proc f s\<close> is what the procedure at \<open>f\<close> does with a state in which its return address has just been pushed, up to its
  return, or \<open>None\<close> when it never returns; the run then ends with \<open>False\<close>.
\<close>

type_synonym procs = "word32 \<Rightarrow> x86 \<Rightarrow> x86 option"

fun xstep :: "procs \<Rightarrow> i386 \<Rightarrow> x86 \<Rightarrow> (x86 \<times> bool) result" where
  "xstep proc (Movl a b) s = rbind (operand a s) (\<lambda>v. rbind (assign b v s) (\<lambda>s. Inr (s, True)))"
| "xstep proc (Pushl a) s = rbind (operand a s) (\<lambda>v. rbind (push v s) (\<lambda>s. Inr (s, True)))"
| "xstep proc (Popl a) s = rbind (ld (xreg s ESP) (xmem s)) (\<lambda>v. rbind (assign a v (set_reg ESP (xreg s ESP + 4) s)) (\<lambda>s. Inr (s, True)))"
| "xstep proc (Call a r) s = rbind (operand a s) (\<lambda>f. rbind (ld (xreg s ESP) (xmem s)) (\<lambda>arg. rbind (push r s) (\<lambda>s1.
     let cs = calls s @ [(f, arg)] in
     case proc f s1 of None \<Rightarrow> Inr (s1\<lparr>calls := cs\<rparr>, False) | Some s2 \<Rightarrow> Inr (s2\<lparr>calls := cs\<rparr>, True))))"
| "xstep proc Ret s = rbind (ld (xreg s ESP) (xmem s)) (\<lambda>a. Inr ((set_reg ESP (xreg s ESP + 4) s)\<lparr>eip := a\<rparr>, True))"

fun xrun :: "procs \<Rightarrow> i386 list \<Rightarrow> x86 \<Rightarrow> (x86 \<times> bool) result" where
  "xrun proc [] s = Inr (s, True)"
| "xrun proc (i # is) s = rbind (xstep proc i s) (\<lambda>(s', c). if c then xrun proc is s' else Inr (s', False))"

text \<open>Where a thread object keeps the registers.\<close>

fun slot :: "reg \<Rightarrow> word32" where
  "slot ESP = 0" | "slot EAX = 4" | "slot EBX = 8" | "slot ECX = 12" | "slot EDX = 16" | "slot EBP = 20" | "slot ESI = 24" | "slot EDI = 28"

definition PC_slot :: word32 where "PC_slot = 32"

text \<open>\<open>e\<close> is the address of the variable \<^verbatim>\<open>_eax_save\<close>.\<close>

definition SWITCH_save :: "word32 \<Rightarrow> i386 list" where
  "SWITCH_save e =
    [Movl (R EAX) (Abs e), Movl (At 4 ESP) (R EAX), Movl (R EBX) (At (slot EBX) EAX), Movl (R ECX) (At (slot ECX) EAX),
     Movl (R EDX) (At (slot EDX) EAX), Movl (R ESI) (At (slot ESI) EAX), Movl (R EDI) (At (slot EDI) EAX),
     Movl (R EBP) (At (slot EBP) EAX), Movl (R ESP) (At (slot ESP) EAX), Movl (Abs e) (R EBX), Movl (R EBX) (At (slot EAX) EAX),
     Movl (At 0 ESP) (R EBX), Movl (R EBX) (At PC_slot EAX), Movl (At 8 ESP) (R EAX)]"

definition SWITCH_load :: "word32 \<Rightarrow> i386 list" where
  "SWITCH_load e =
    [Movl (At (slot EAX) EAX) (R EBX), Movl (R EBX) (Abs e), Movl (At (slot EBX) EAX) (R EBX), Movl (At (slot ECX) EAX) (R ECX),
     Movl (At (slot EDX) EAX) (R EDX), Movl (At (slot ESI) EAX) (R ESI), Movl (At (slot EDI) EAX) (R EDI),
     Movl (At (slot EBP) EAX) (R EBP), Movl (At (slot ESP) EAX) (R ESP), Movl (At PC_slot EAX) (R EAX), Movl (R EAX) (At 4 ESP),
     Movl (Abs e) (R EAX), Ret]"

definition SWITCH_code :: "word32 \<Rightarrow> i386 list" where
  "SWITCH_code e = SWITCH_save e @ SWITCH_load e"

text \<open>The return addresses of the three calls are where the assembler puts them.\<close>

definition ThreadRoot_code :: "word32 \<Rightarrow> word32 \<Rightarrow> word32 \<Rightarrow> i386 list" where
  "ThreadRoot_code r1 r2 r3 =
    [Pushl (R EBP), Movl (R ESP) (R EBP), Pushl (R EDX), Call (R ECX) r1, Call (R ESI) r2, Call (R EDI) r3,
     Movl (R EBP) (R ESP), Popl (R EBP), Ret]"

section \<open>What the switch does\<close>

definition thread_words :: "word32 \<Rightarrow> word32 set" where
  "thread_words t = (\<lambda>k. t + k) ` {0, 4, 8, 12, 16, 20, 24, 28, 32}"

lemma aligned_slots: "aligned t \<Longrightarrow> k \<in> {0, 4, 8, 12, 16, 20, 24, 28, 32} \<Longrightarrow> aligned (t + k)"
  by (erule aligned_add) (auto simp: aligned_def)

lemma slots: "t + slot r \<in> thread_words t" "t + PC_slot \<in> thread_words t"
  by (cases r) (auto simp: thread_words_def PC_slot_def)

lemma slots_differ: "t + k = t + k' \<longleftrightarrow> k = (k' :: word32)" by simp

text \<open>The first half saves everything in the old thread and gets the pointer to the new one.\<close>

lemma SWITCH_save_ok:
  assumes "xmem s (xreg s ESP + 4) = t1" "aligned (xreg s ESP)" "aligned t1" "aligned e"
    "e \<notin> thread_words t1" "e \<notin> {xreg s ESP, xreg s ESP + 4, xreg s ESP + 8}" "thread_words t1 \<inter> {xreg s ESP, xreg s ESP + 4, xreg s ESP + 8} = {}"
  shows "\<exists>m. xrun proc (SWITCH_save e @ rest) s = xrun proc rest (s\<lparr>xmem := m, xreg := (xreg s)(EAX := xmem s (xreg s ESP + 8), EBX := xmem s (xreg s ESP))\<rparr>)
     \<and> (\<forall>r. m (t1 + slot r) = xreg s r) \<and> m (t1 + PC_slot) = xmem s (xreg s ESP) \<and> (\<forall>a. a \<notin> thread_words t1 \<union> {e} \<longrightarrow> m a = xmem s a)"
proof -
  let ?p = "xreg s ESP"
  have al: "aligned ?p" "aligned (?p + 4)" "aligned (?p + 8)" "aligned t1" "aligned (t1 + 4)" "aligned (t1 + 8)" "aligned (t1 + 12)" "aligned (t1 + 16)"
    "aligned (t1 + 20)" "aligned (t1 + 24)" "aligned (t1 + 28)" "aligned (t1 + 32)"
    using assms(2,3) aligned_slots [of t1] aligned_slots [of ?p] by simp_all
  have ne: "t1 + k \<noteq> e" "e \<noteq> t1 + k" "t1 + k \<noteq> ?p" "t1 + k \<noteq> ?p + 4" "t1 + k \<noteq> ?p + 8" "?p \<noteq> t1 + k" "?p + 4 \<noteq> t1 + k" "?p + 8 \<noteq> t1 + k"
    if "k \<in> {0, 4, 8, 12, 16, 20, 24, 28, 32}" for k using assms(5,7) that by (auto simp: thread_words_def)
  note ne0 = ne [of 0, simplified]
  have ex: "?p \<noteq> e" "?p + 4 \<noteq> e" "?p + 8 \<noteq> e" "e \<noteq> ?p" using assms(6) by auto
  let ?m = "(xmem s)(e := xreg s EAX, t1 + 8 := xreg s EBX, t1 + 12 := xreg s ECX, t1 + 16 := xreg s EDX, t1 + 24 := xreg s ESI,
    t1 + 28 := xreg s EDI, t1 + 20 := xreg s EBP, t1 := ?p, t1 + 4 := xreg s EAX, t1 + 32 := xmem s ?p)"
  have "xrun proc (SWITCH_save e @ rest) s = xrun proc rest (s\<lparr>xmem := ?m, xreg := (xreg s)(EAX := xmem s (?p + 8), EBX := xmem s ?p)\<rparr>)"
    by (simp add: SWITCH_save_def ld_def sd_def set_reg_def PC_slot_def al assms(1,4) ne ne0 ex fun_upd_twist)
  moreover have "?m (t1 + slot r) = xreg s r" for r by (cases r) (simp_all add: ne ne0)
  moreover have "?m (t1 + PC_slot) = xmem s ?p" by (simp add: PC_slot_def)
  moreover have "?m a = xmem s a" if "a \<notin> thread_words t1 \<union> {e}" for a using that by (auto simp: thread_words_def)
  ultimately show ?thesis by blast
qed

text \<open>The second half loads everything from the new thread. The return address is already on its stack; the store to \<^verbatim>\<open>4(%esp)\<close> misses it.\<close>

lemma SWITCH_load_ok:
  assumes "xreg s EAX = t2" "xmem s t2 = sp2" "aligned t2" "aligned sp2" "aligned e" "e \<notin> thread_words t2" "e \<noteq> sp2" "e \<noteq> sp2 + 4"
  shows "\<exists>s'. xrun proc (SWITCH_load e) s = Inr (s', True) \<and> xreg s' = (\<lambda>r. xmem s (t2 + slot r))(ESP := sp2 + 4) \<and> eip s' = xmem s sp2
     \<and> xmem s' = (xmem s)(e := xmem s (t2 + slot EAX), sp2 + 4 := xmem s (t2 + PC_slot)) \<and> calls s' = calls s"
proof -
  have al: "aligned t2" "aligned (t2 + 4)" "aligned (t2 + 8)" "aligned (t2 + 12)" "aligned (t2 + 16)" "aligned (t2 + 20)" "aligned (t2 + 24)"
    "aligned (t2 + 28)" "aligned (t2 + 32)" "aligned (sp2 + 4)"
    using assms(3,4) aligned_slots [of t2] aligned_slots [of sp2] by simp_all
  have ne: "t2 + k \<noteq> e" "e \<noteq> t2 + k" if "k \<in> {0, 4, 8, 12, 16, 20, 24, 28, 32}" for k using assms(6) that by (auto simp: thread_words_def)
  have "(\<lambda>r. xmem s (t2 + slot r))(ESP := sp2 + 4) = (xreg s)(EBX := xmem s (t2 + 8), ECX := xmem s (t2 + 12), EDX := xmem s (t2 + 16),
      ESI := xmem s (t2 + 24), EDI := xmem s (t2 + 28), EBP := xmem s (t2 + 20), EAX := xmem s (t2 + 4), ESP := sp2 + 4)" (is "_ = ?r")
  proof
    show "((\<lambda>r. xmem s (t2 + slot r))(ESP := sp2 + 4)) r = ?r r" for r by (cases r) simp_all
  qed
  then show ?thesis
    using assms(1,2,7,8) by (simp add: SWITCH_load_def ld_def sd_def set_reg_def PC_slot_def al assms(4,5) ne ne [of 0, simplified] fun_upd_twist)
qed

text \<open>
  The places a switch uses: the two thread objects, the words with the return address and the arguments on the stack of the caller, the top of the
  stack of the new thread and the variable \<^verbatim>\<open>_eax_save\<close>, all aligned and apart from each other.
\<close>

definition switch_ok :: "word32 \<Rightarrow> word32 \<Rightarrow> word32 \<Rightarrow> x86 \<Rightarrow> bool" where
  "switch_ok e t1 t2 s \<longleftrightarrow> (let p = xreg s ESP; sp2 = xmem s t2 in
     xmem s (p + 4) = t1 \<and> xmem s (p + 8) = t2 \<and> aligned p \<and> aligned t1 \<and> aligned t2 \<and> aligned sp2 \<and> aligned e
     \<and> e \<notin> thread_words t1 \<union> thread_words t2 \<union> {p, p + 4, p + 8, sp2, sp2 + 4}
     \<and> thread_words t1 \<inter> (thread_words t2 \<union> {p, p + 4, p + 8, sp2, sp2 + 4}) = {})"

lemma SWITCH_ok:
  assumes "switch_ok e t1 t2 s"
  shows "\<exists>s'. xrun proc (SWITCH_code e) s = Inr (s', True)
     \<and> xreg s' = (\<lambda>r. xmem s (t2 + slot r))(ESP := xmem s t2 + 4) \<and> eip s' = xmem s (xmem s t2) \<and> calls s' = calls s
     \<and> (\<forall>r. xmem s' (t1 + slot r) = xreg s r) \<and> xmem s' (t1 + PC_slot) = xmem s (xreg s ESP)
     \<and> (\<forall>a. a \<notin> thread_words t1 \<union> {e, xmem s t2 + 4} \<longrightarrow> xmem s' a = xmem s a)"
proof -
  let ?p = "xreg s ESP" and ?q = "xmem s t2"
  have h: "xmem s (?p + 4) = t1" "xmem s (?p + 8) = t2" "aligned ?p" "aligned t1" "aligned t2" "aligned ?q" "aligned e"
    "e \<notin> thread_words t1" "e \<notin> {?p, ?p + 4, ?p + 8}" "thread_words t1 \<inter> {?p, ?p + 4, ?p + 8} = {}" "e \<notin> thread_words t2" "e \<noteq> ?q" "e \<noteq> ?q + 4"
    "thread_words t1 \<inter> thread_words t2 = {}" "?q \<notin> thread_words t1" "?q + 4 \<notin> thread_words t1"
    using assms by (auto simp: switch_ok_def Let_def)
  obtain m where m: "xrun proc (SWITCH_save e @ SWITCH_load e) s = xrun proc (SWITCH_load e) (s\<lparr>xmem := m, xreg := (xreg s)(EAX := t2, EBX := xmem s ?p)\<rparr>)"
    "\<forall>r. m (t1 + slot r) = xreg s r" "m (t1 + PC_slot) = xmem s ?p" "\<forall>a. a \<notin> thread_words t1 \<union> {e} \<longrightarrow> m a = xmem s a"
    using SWITCH_save_ok [OF h(1,3,4,7-10), of proc "SWITCH_load e"] h(2) by auto
  let ?s = "s\<lparr>xmem := m, xreg := (xreg s)(EAX := t2, EBX := xmem s ?p)\<rparr>"
  have same: "m (t2 + slot r) = xmem s (t2 + slot r)" for r using m(4) slots(1) [of t2 r] h(11,14) by auto
  have q: "m t2 = ?q" "m ?q = xmem s ?q" using same [of ESP] m(4) h(12,15) by auto
  obtain s' where s': "xrun proc (SWITCH_load e) ?s = Inr (s', True)" "xreg s' = (\<lambda>r. m (t2 + slot r))(ESP := ?q + 4)" "eip s' = m ?q"
      "xmem s' = m(e := m (t2 + slot EAX), ?q + 4 := m (t2 + PC_slot))" "calls s' = calls s"
    using SWITCH_load_ok [of ?s t2 ?q e proc] h(5-7,11-13) q(1) by auto
  have "xmem s' (t1 + slot r) = xreg s r" for r using s'(4) m(2) slots(1) [of t1 r] h(8,16) by auto
  moreover have "xmem s' (t1 + PC_slot) = xmem s ?p" using s'(4) m(3) slots(2) [of t1] h(8,16) by auto
  moreover have "xmem s' a = xmem s a" if "a \<notin> thread_words t1 \<union> {e, ?q + 4}" for a using s'(4) m(4) that by auto
  ultimately show ?thesis using m(1) s'(1-3,5) same q(2) by (auto simp: SWITCH_code_def)
qed

text \<open>
  C15: a context switch is transparent. When a thread has been switched out and whatever ran since left its thread object and its return address alone, the
  next switch to it, from any thread, returns to its caller with every register as it was: all that has happened in the meantime looks to it like a
  procedure that did nothing.
\<close>

theorem switch_is_transparent:
  assumes "switch_ok e t1 t2 s" "xrun proc (SWITCH_code e) s = Inr (s1, True)"
    and "switch_ok e t3 t1 s2" "\<forall>a \<in> thread_words t1 \<union> {xreg s ESP}. xmem s2 a = xmem s1 a" "xreg s ESP \<noteq> xmem s t2 + 4"
  shows "\<exists>s3. xrun proc (SWITCH_code e) s2 = Inr (s3, True) \<and> xreg s3 = (xreg s)(ESP := xreg s ESP + 4) \<and> eip s3 = xmem s (xreg s ESP)
     \<and> (\<forall>r. xmem s3 (t3 + slot r) = xreg s2 r)"
proof -
  let ?p = "xreg s ESP"
  have p: "?p \<notin> thread_words t1 \<union> {e}" using assms(1) by (auto simp: switch_ok_def Let_def)
  have 1: "\<forall>r. xmem s1 (t1 + slot r) = xreg s r" "xmem s1 ?p = xmem s ?p"
    using SWITCH_ok [OF assms(1), of proc] assms(2,5) p by auto
  have 2: "xmem s2 (t1 + slot r) = xreg s r" for r using 1(1) assms(4) slots(1) [of t1 r] by auto
  have 3: "xmem s2 t1 = ?p" "xmem s2 ?p = xmem s ?p" using 2 [of ESP] 1(2) assms(4) by auto
  obtain s3 where "xrun proc (SWITCH_code e) s2 = Inr (s3, True)" "xreg s3 = (\<lambda>r. xmem s2 (t1 + slot r))(ESP := xmem s2 t1 + 4)" "eip s3 = xmem s2 (xmem s2 t1)"
    "\<forall>r. xmem s3 (t3 + slot r) = xreg s2 r" using SWITCH_ok [OF assms(3), of proc] by blast
  then show ?thesis using 2 3 by auto
qed

definition demo_memory :: ram where
  "demo_memory = (\<lambda>_. 7)(0x2000 := 0x4000, 0x3000 := 99, 0x3004 := 0x1000, 0x3008 := 0x2000, 0x4000 := 55)"

definition demo_caller :: x86 where
  "demo_caller = \<lparr>xreg = (\<lambda>_. 3)(ESP := 0x3000), xmem = demo_memory, eip = 0, calls = []\<rparr>"

lemma demo_switch_ok: "switch_ok 0x5000 0x1000 0x2000 demo_caller"
  by (simp add: switch_ok_def demo_caller_def demo_memory_def thread_words_def aligned_def)

theorem switch_is_transparent_witness:
  "\<exists>s1 s2 s3. xrun (\<lambda>_. Some) (SWITCH_code 0x5000) demo_caller = Inr (s1, True) \<and> xrun (\<lambda>_. Some) (SWITCH_code 0x5000) s2 = Inr (s3, True)
     \<and> eip s1 = 55 \<and> eip s3 = 99 \<and> xreg s3 EBX = 3"
proof -
  obtain s1 where s1: "xrun (\<lambda>_. Some) (SWITCH_code 0x5000) demo_caller = Inr (s1, True)" "eip s1 = 55" "\<forall>r. xmem s1 (0x1000 + slot r) = xreg demo_caller r"
    using SWITCH_ok [OF demo_switch_ok, of "\<lambda>_. Some"] by (auto simp: demo_caller_def demo_memory_def)
  let ?s2 = "s1\<lparr>xreg := (\<lambda>_. 4)(ESP := 0x6000), xmem := (xmem s1)(0x6004 := 0x2000, 0x6008 := 0x1000)\<rparr>"
  have "xmem s1 0x1000 = 0x3000" using spec [OF s1(3), of ESP] by (simp add: demo_caller_def)
  then have ok: "switch_ok 0x5000 0x2000 0x1000 ?s2" by (simp add: switch_ok_def thread_words_def aligned_def)
  have "\<forall>a \<in> thread_words 0x1000 \<union> {xreg demo_caller ESP}. xmem ?s2 a = xmem s1 a" by (simp add: thread_words_def demo_caller_def)
  from switch_is_transparent [OF demo_switch_ok s1(1) ok this] obtain s3
    where "xrun (\<lambda>_. Some) (SWITCH_code 0x5000) ?s2 = Inr (s3, True)" "eip s3 = 99" "xreg s3 EBX = 3" by (auto simp: demo_caller_def demo_memory_def)
  with s1(1,2) show ?thesis by blast
qed

section \<open>How a thread starts\<close>

definition StackSize :: word32 where "StackSize = 4 * 1024"

text \<open>
  \<^verbatim>\<open>StackAllocate\<close> as compiled for the 386, for the thread object at \<open>t\<close>: \<open>stk\<close> is the memory \<^verbatim>\<open>AllocBoundedArray\<close> returns, the others are the addresses of
  \<^verbatim>\<open>ThreadRoot\<close>, \<^verbatim>\<open>InterruptEnable\<close> and \<^verbatim>\<open>ThreadFinish\<close>.
\<close>

definition StackAllocate_i386 :: "word32 \<Rightarrow> word32 \<Rightarrow> word32 \<Rightarrow> word32 \<Rightarrow> word32 \<Rightarrow> word32 \<Rightarrow> word32 \<Rightarrow> ram \<Rightarrow> ram result" where
  "StackAllocate_i386 t stk root enable finish func arg m =
     (let stackTop = stk + StackSize * 4 - 16 - 4 in
      rbind (sd (t + slot ESP) stackTop m) (\<lambda>m. rbind (sd stackTop root m) (\<lambda>m. rbind (sd stk STACK_FENCEPOST m) (\<lambda>m.
      rbind (sd (t + PC_slot) root m) (\<lambda>m. rbind (sd (t + slot ECX) enable m) (\<lambda>m. rbind (sd (t + slot ESI) func m) (\<lambda>m.
      rbind (sd (t + slot EDX) arg m) (sd (t + slot EDI) finish))))))))"

lemma StackAllocate_i386_ok:
  assumes "aligned t" "aligned stk" "thread_words t \<inter> {stk, stk + 16364} = {}"
  shows "\<exists>m'. StackAllocate_i386 t stk root enable finish func arg m = Inr m' \<and> m' t = stk + 16364 \<and> m' (stk + 16364) = root \<and> m' stk = STACK_FENCEPOST
     \<and> m' (t + slot ECX) = enable \<and> m' (t + slot ESI) = func \<and> m' (t + slot EDX) = arg \<and> m' (t + slot EDI) = finish
     \<and> (\<forall>a. a \<notin> thread_words t \<union> {stk, stk + 16364} \<longrightarrow> m' a = m a)"
proof -
  have al: "aligned (stk + 16364)" "aligned (t + 12)" "aligned (t + 16)" "aligned (t + 24)" "aligned (t + 28)" "aligned (t + 32)"
    using aligned_add [OF assms(2), of 16364] aligned_slots [OF assms(1)] by (simp_all add: aligned_def)
  have ne: "t + k \<noteq> stk" "stk \<noteq> t + k" "t + k \<noteq> stk + 16364" "stk + 16364 \<noteq> t + k" if "k \<in> {0, 4, 8, 12, 16, 20, 24, 28, 32}" for k
    using assms(3) that by (auto simp: thread_words_def)
  have top: "stk + StackSize * 4 - 16 - 4 = stk + 16364" by (simp add: StackSize_def)
  show ?thesis unfolding StackAllocate_i386_def top
    by (simp add: sd_def assms(1,2) al PC_slot_def ne ne [of 0, simplified] Let_def) (simp add: thread_words_def)
qed

text \<open>What the start needs of the procedures it calls: they return with the stack pointer and the registers a procedure has to keep as they were.\<close>

definition keeps_registers :: "procs \<Rightarrow> word32 \<Rightarrow> bool" where
  "keeps_registers proc f \<longleftrightarrow> (\<forall>s. \<exists>s'. proc f s = Some s' \<and> xreg s' ESP = xreg s ESP + 4 \<and> xreg s' ESI = xreg s ESI \<and> xreg s' EDI = xreg s EDI)"

lemma ThreadRoot_calls:
  assumes "xreg s ESP = sp + 4" "xreg s ECX = enable" "xreg s ESI = func" "xreg s EDX = arg" "xreg s EDI = finish" "calls s = []" "aligned sp"
    and "keeps_registers proc enable" "keeps_registers proc func" "proc finish = (\<lambda>_. None)"
    and "\<And>s s'. proc enable s = Some s' \<Longrightarrow> xmem s' (xreg s ESP + 4) = xmem s (xreg s ESP + 4)"
  shows "\<exists>s2 x. xrun proc (ThreadRoot_code r1 r2 r3) s = Inr (s2, False) \<and> calls s2 = [(enable, arg), (func, arg), (finish, x)]"
proof -
  have al: "aligned sp" "aligned (sp - 4)" "aligned (sp - 8)"
    using assms(7) aligned_add [OF assms(7), of "- 4"] aligned_add [OF assms(7), of "- 8"] by (simp_all add: aligned_def)
  have k: "\<exists>s'. proc f s = Some s' \<and> xreg s' ESP = xreg s ESP + 4 \<and> xreg s' ESI = xreg s ESI \<and> xreg s' EDI = xreg s EDI" if "f \<in> {enable, func}" for f s
    using assms(8,9) that by (auto simp: keeps_registers_def)
  let ?a = "s\<lparr>xreg := (xreg s)(EBP := sp, ESP := sp - 8), xmem := (xmem s)(sp := xreg s EBP, sp - 4 := arg, sp - 8 := r1)\<rparr>"
  obtain a where a: "proc enable ?a = Some a" "xreg a ESP = sp - 4" "xreg a ESI = func" "xreg a EDI = finish" using k [of enable ?a] assms(3,5) by auto
  have aa: "xmem a (sp - 4) = arg" using assms(11) [OF a(1)] by simp
  let ?b = "(a\<lparr>calls := [(enable, arg)]\<rparr>)\<lparr>xreg := (xreg a)(ESP := sp - 8), xmem := (xmem a)(sp - 8 := r2)\<rparr>"
  obtain b where b: "proc func ?b = Some b" "xreg b ESP = sp - 4" "xreg b EDI = finish" using k [of func ?b] a by auto
  note evals = ThreadRoot_code_def push_def set_reg_def sd_def ld_def al Let_def fun_upd_twist
  have "xrun proc (ThreadRoot_code r1 r2 r3) s = xrun proc (drop 4 (ThreadRoot_code r1 r2 r3)) (a\<lparr>calls := [(enable, arg)]\<rparr>)"
    using a(1) by (simp add: evals assms(1-6))
  also have "\<dots> = xrun proc (drop 5 (ThreadRoot_code r1 r2 r3)) (b\<lparr>calls := [(enable, arg), (func, arg)]\<rparr>)"
    using a(2,3) aa b(1) by (simp add: evals)
  finally show ?thesis using b(2,3) assms(10) by (simp add: evals)
qed

text \<open>
  C16: a forked thread starts. After \<^verbatim>\<open>StackAllocate\<close>, the first switch to the thread goes to \<^verbatim>\<open>ThreadRoot\<close>, which enables interrupts, calls the
  forked procedure with its argument and then \<^verbatim>\<open>ThreadFinish\<close>, provided that the procedures keep the registers a procedure has to keep and the
  first one does not touch the stack of its caller.
\<close>

theorem forked_thread_starts:
  assumes "aligned t" "aligned stk" "thread_words t \<inter> {stk, stk + 16364} = {}" "StackAllocate_i386 t stk root enable finish func arg m = Inr m'"
    and "switch_ok e t1 t s" "\<forall>a \<in> thread_words t \<union> {stk + 16364}. xmem s a = m' a" "calls s = []"
    and "keeps_registers proc enable" "keeps_registers proc func" "proc finish = (\<lambda>_. None)"
    and "\<And>s s'. proc enable s = Some s' \<Longrightarrow> xmem s' (xreg s ESP + 4) = xmem s (xreg s ESP + 4)"
  shows "\<exists>s1 s2 x. xrun proc (SWITCH_code e) s = Inr (s1, True) \<and> eip s1 = root
     \<and> xrun proc (ThreadRoot_code r1 r2 r3) s1 = Inr (s2, False) \<and> calls s2 = [(enable, arg), (func, arg), (finish, x)]"
proof -
  have m': "m' t = stk + 16364" "m' (stk + 16364) = root" "m' (t + slot ECX) = enable" "m' (t + slot ESI) = func" "m' (t + slot EDX) = arg" "m' (t + slot EDI) = finish"
    using StackAllocate_i386_ok [OF assms(1-3), of root enable finish func arg m] assms(4) by auto
  have x: "xmem s (t + slot r) = m' (t + slot r)" "xmem s (stk + 16364) = root" "xmem s t = stk + 16364" for r
    using assms(6) m'(1,2) slots(1) [of t r] slots(1) [of t ESP] by auto
  obtain s1 where s1: "xrun proc (SWITCH_code e) s = Inr (s1, True)" "xreg s1 = (\<lambda>r. xmem s (t + slot r))(ESP := stk + 16364 + 4)" "eip s1 = root" "calls s1 = []"
    using SWITCH_ok [OF assms(5), of proc] x assms(7) by auto
  have "aligned (stk + 16364)" using aligned_add [OF assms(2), of 16364] by (simp add: aligned_def)
  moreover have "xreg s1 ESP = stk + 16364 + 4" "xreg s1 ECX = enable" "xreg s1 ESI = func" "xreg s1 EDX = arg" "xreg s1 EDI = finish"
    using s1(2) m' x(1) by simp_all
  ultimately show ?thesis using ThreadRoot_calls [of s1 "stk + 16364" enable func arg finish proc r1 r2 r3] s1 assms(8-11) by blast
qed

text \<open>A thread object at 1000 (hexadecimal) with its stack at 8000; procedures that return at once.\<close>

definition demo_procs :: procs where
  "demo_procs f s = (if f = 300 then None else Some (set_reg ESP (xreg s ESP + 4) s))"

theorem forked_thread_starts_witness:
  "\<exists>m s s1 s2 x. StackAllocate_i386 0x2000 0x8000 100 200 300 400 5 (xmem demo_caller) = Inr m \<and> xmem s = m
     \<and> xrun demo_procs (SWITCH_code 0x5000) s = Inr (s1, True) \<and> eip s1 = 100
     \<and> xrun demo_procs (ThreadRoot_code 1 2 3) s1 = Inr (s2, False) \<and> calls s2 = [(200, 5), (400, 5), (300, x)]"
proof -
  have d: "aligned 0x2000" "aligned 0x8000" "thread_words 0x2000 \<inter> {0x8000, 0x8000 + 16364} = {}" by (simp_all add: aligned_def thread_words_def)
  obtain m where m: "StackAllocate_i386 0x2000 0x8000 100 200 300 400 5 (xmem demo_caller) = Inr m" "m 0x2000 = 0x8000 + 16364"
    "\<forall>a. a \<notin> thread_words 0x2000 \<union> {0x8000, 0x8000 + 16364} \<longrightarrow> m a = xmem demo_caller a"
    using StackAllocate_i386_ok [OF d, of 100 200 300 400 5 "xmem demo_caller"] by auto
  let ?s = "demo_caller\<lparr>xmem := m\<rparr>"
  have "m 0x3004 = 0x1000" "m 0x3008 = 0x2000" using m(3) by (simp_all add: thread_words_def demo_caller_def demo_memory_def)
  then have ok: "switch_ok 0x5000 0x1000 0x2000 ?s" using m(2) by (simp add: switch_ok_def demo_caller_def thread_words_def aligned_def)
  have k: "keeps_registers demo_procs 200" "keeps_registers demo_procs 400" "demo_procs 300 = (\<lambda>_. None)"
    "\<And>s s'. demo_procs 200 s = Some s' \<Longrightarrow> xmem s' (xreg s ESP + 4) = xmem s (xreg s ESP + 4)"
    by (auto simp: keeps_registers_def demo_procs_def set_reg_def)
  have "calls ?s = []" by (simp add: demo_caller_def)
  from forked_thread_starts [OF d m(1) ok _ this k, of 1 2 3] m(1) show ?thesis by force
qed

section \<open>Machines with load and store instructions\<close>

text \<open>
  On MIPS and PA-RISC the switch stores the registers a procedure has to keep into the old thread object, one by one, and loads them from
  the new one. \<open>Sw r d b\<close> and \<open>Lw r d b\<close> store and load register \<open>r\<close> at displacement \<open>d\<close> from register \<open>b\<close>; a jump
  takes its target when it is issued, an instruction in its delay slot follows.
\<close>

datatype risc = Sw nat word32 nat | Lw nat word32 nat | Jr nat

record risc_cpu =
  gpr :: "nat \<Rightarrow> word32"
  ram :: ram
  target :: word32

fun rstep :: "risc \<Rightarrow> risc_cpu \<Rightarrow> risc_cpu result" where
  "rstep (Sw r d b) s = rbind (sd (gpr s b + d) (gpr s r) (ram s)) (\<lambda>m. Inr (s\<lparr>ram := m\<rparr>))"
| "rstep (Lw r d b) s = rbind (ld (gpr s b + d) (ram s)) (\<lambda>v. Inr (s\<lparr>gpr := (gpr s)(r := v)\<rparr>))"
| "rstep (Jr r) s = Inr (s\<lparr>target := gpr s r\<rparr>)"

fun rrun :: "risc list \<Rightarrow> risc_cpu \<Rightarrow> risc_cpu result" where
  "rrun [] s = Inr s"
| "rrun (i # is) s = rbind (rstep i s) (rrun is)"

text \<open>MIPS: \<open>sp\<close> is register 29, \<open>s0\<close> to \<open>s7\<close> are 16 to 23, \<open>fp\<close> is 30, \<open>ra\<close> 31, the arguments are in 4 and 5.\<close>

definition SWITCH_mips :: "risc list" where
  "SWITCH_mips =
    [Sw 29 0 4, Sw 16 4 4, Sw 17 8 4, Sw 18 12 4, Sw 19 16 4, Sw 20 20 4, Sw 21 24 4, Sw 22 28 4, Sw 23 32 4, Sw 30 36 4, Sw 31 40 4,
     Lw 29 0 5, Lw 16 4 5, Lw 17 8 5, Lw 18 12 5, Lw 19 16 5, Lw 20 20 5, Lw 21 24 5, Lw 22 28 5, Lw 23 32 5, Lw 30 36 5, Lw 31 40 5,
     Jr 31]"

text \<open>PA-RISC: \<open>sp\<close> is register 30, the registers to keep are 3 to 18, \<open>rp\<close> is 2, the arguments are in 26 and 25; the last load is in the delay slot.\<close>

definition SWITCH_snake :: "risc list" where
  "SWITCH_snake =
    [Sw 30 0 26, Sw 3 4 26, Sw 4 8 26, Sw 5 12 26, Sw 6 16 26, Sw 7 20 26, Sw 8 24 26, Sw 9 28 26, Sw 10 32 26, Sw 11 36 26, Sw 12 40 26,
     Sw 13 44 26, Sw 14 48 26, Sw 15 52 26, Sw 16 56 26, Sw 17 60 26, Sw 18 64 26, Sw 2 68 26,
     Lw 30 0 25, Lw 3 4 25, Lw 4 8 25, Lw 5 12 25, Lw 6 16 25, Lw 7 20 25, Lw 8 24 25, Lw 9 28 25, Lw 10 32 25, Lw 11 36 25, Lw 12 40 25,
     Lw 13 44 25, Lw 14 48 25, Lw 15 52 25, Lw 16 56 25, Lw 17 60 25, Lw 2 68 25, Jr 2, Lw 18 64 25]"

text \<open>
  What the two have in common: the pairs of registers and displacements \<open>saves\<close> are stored, \<open>loads\<close> and \<open>delayed\<close> hold the same pairs, \<open>lnk\<close> is the register with the
  return address, \<open>old\<close> and \<open>new\<close> point to the threads.
\<close>

definition switch_shape :: "(nat \<times> word32) list \<Rightarrow> (nat \<times> word32) list \<Rightarrow> (nat \<times> word32) list \<Rightarrow> nat \<Rightarrow> nat \<Rightarrow> nat \<Rightarrow> risc list" where
  "switch_shape saves loads delayed lnk old new =
     map (\<lambda>(r, d). Sw r d old) saves @ map (\<lambda>(r, d). Lw r d new) loads @ Jr lnk # map (\<lambda>(r, d). Lw r d new) delayed"

lemma rrun_append: "rrun (is @ js) s = rbind (rrun is s) (rrun js)"
proof (induction "is" arbitrary: s)
  case (Cons i "is")
  show ?case by (cases "rstep i s") (simp_all add: Cons.IH)
qed simp

lemma stores_all:
  assumes "\<forall>(r, d) \<in> set xs. aligned (gpr s b + d)"
  shows "rrun (map (\<lambda>(r, d). Sw r d b) xs) s = Inr (s\<lparr>ram := fold (\<lambda>(r, d) m. m(gpr s b + d := gpr s r)) xs (ram s)\<rparr>)"
  using assms by (induction xs arbitrary: s) (auto simp: sd_def)

lemma stored_elsewhere: "\<forall>(r, d) \<in> set ys. a \<noteq> t + d \<Longrightarrow> fold (\<lambda>(r, d) m. m(t + d := g r)) ys m a = m a" for t :: word32 and m :: ram
  by (induction ys arbitrary: m) auto

lemma stored_value:
  fixes t :: word32 and m :: ram
  assumes "distinct (map snd xs)" "(r, d) \<in> set xs"
  shows "fold (\<lambda>(r, d) m. m(t + d := g r)) xs m (t + d) = g r"
  using assms
proof (induction xs arbitrary: m)
  case (Cons x xs)
  show ?case
  proof (cases "x = (r, d)")
    case True
    then have "\<forall>(r', d') \<in> set xs. t + d \<noteq> t + d'" using Cons.prems(1) by force
    from stored_elsewhere [OF this, of g "m(t + d := g r)"] show ?thesis by (simp only: True fold.simps o_apply prod.case fun_upd_same)
  next
    case False
    then show ?thesis using Cons.IH Cons.prems by simp
  qed
qed simp

lemma loads_all:
  assumes "\<forall>(r, d) \<in> set xs. aligned (gpr s b + d)" "b \<notin> fst ` set xs"
  shows "rrun (map (\<lambda>(r, d). Lw r d b) xs) s = Inr (s\<lparr>gpr := fold (\<lambda>(r, d) g. g(r := ram s (gpr s b + d))) xs (gpr s)\<rparr>)"
  using assms by (induction xs arbitrary: s) (auto simp: ld_def)

lemma loaded_register:
  "fold (\<lambda>(r, d) g. g(r := f d)) xs g r = (case map_of (rev xs) r of Some d \<Rightarrow> f d | None \<Rightarrow> (g r :: word32))"
  by (induction xs arbitrary: g) (auto simp: map_add_def split: option.splits)

locale register_switch =
  fixes saves loads delayed :: "(nat \<times> word32) list" and lnk old new :: nat and link_slot :: word32
  assumes same_slots: "set saves = set (loads @ delayed)"
    and distinct_saves: "distinct (map fst saves)" "distinct (map snd saves)"
    and distinct_loads: "distinct (map fst (loads @ delayed))"
    and slots_aligned: "\<forall>(r, d) \<in> set saves. aligned d"
    and pointers: "old \<notin> fst ` set saves" "new \<notin> fst ` set saves"
    and link: "(lnk, link_slot) \<in> set loads"
begin

lemma loaded:
  assumes "distinct (map fst xs)"
  shows "(r, d) \<in> set xs \<Longrightarrow> fold (\<lambda>(r, d) g. g(r := f d)) xs g r = (f d :: word32)"
    and "r \<notin> fst ` set xs \<Longrightarrow> fold (\<lambda>(r, d) g. g(r := f d)) xs g r = (g r :: word32)"
proof -
  have d: "distinct (map fst (rev xs))" using assms by (simp flip: rev_map)
  show "(r, d) \<in> set xs \<Longrightarrow> fold (\<lambda>(r, d) g. g(r := f d)) xs g r = f d" using d by (simp add: loaded_register)
  show "r \<notin> fst ` set xs \<Longrightarrow> fold (\<lambda>(r, d) g. g(r := f d)) xs g r = g r"
    using map_of_eq_None_iff [of "rev xs" r] by (simp add: loaded_register)
qed

lemma switches:
  assumes "aligned (gpr s old)" "aligned (gpr s new)" "\<forall>(r, d) \<in> set saves. \<forall>(r', d') \<in> set saves. gpr s old + d \<noteq> gpr s new + d'"
  shows "\<exists>s'. rrun (switch_shape saves loads delayed lnk old new) s = Inr s' \<and> target s' = ram s (gpr s new + link_slot)
     \<and> (\<forall>(r, d) \<in> set saves. gpr s' r = ram s (gpr s new + d) \<and> ram s' (gpr s old + d) = gpr s r)
     \<and> (\<forall>r. r \<notin> fst ` set saves \<longrightarrow> gpr s' r = gpr s r) \<and> (\<forall>a. (\<forall>(r, d) \<in> set saves. a \<noteq> gpr s old + d) \<longrightarrow> ram s' a = ram s a)"
proof -
  let ?m = "fold (\<lambda>(r, d) m. m(gpr s old + d := gpr s r)) saves (ram s)" and ?f = "\<lambda>d. ram s (gpr s new + d)"
  have kept: "?m (gpr s new + d) = ?f d" if "(r, d) \<in> set saves" for r d using assms(3) that by (intro stored_elsewhere) fastforce
  have al: "\<forall>(r, d) \<in> set saves. aligned (gpr s old + d)" "\<forall>(r, d) \<in> set saves. aligned (gpr s new + d)"
    using slots_aligned aligned_add assms(1,2) by fastforce+
  have n: "new \<notin> fst ` set loads" "new \<notin> fst ` set delayed" using pointers(2) same_slots by auto
  have f: "fold (\<lambda>(r, d) g. g(r := ?m (gpr s new + d))) xs g = fold (\<lambda>(r, d) g. g(r := ?f d)) xs g" if "set xs \<subseteq> set saves" for xs g
    using that kept by (induction xs arbitrary: g) auto
  let ?g1 = "fold (\<lambda>(r, d) g. g(r := ?f d)) loads (gpr s)" and ?g2 = "fold (\<lambda>(r, d) g. g(r := ?f d)) (loads @ delayed) (gpr s)"
  have g1: "?g1 new = gpr s new" using loaded(2) [OF _ n(1)] distinct_loads by simp
  have l: "rrun (map (\<lambda>(r, d). Lw r d new) loads) (s\<lparr>ram := ?m\<rparr>) = Inr (s\<lparr>ram := ?m, gpr := ?g1\<rparr>)"
    using loads_all [of loads "s\<lparr>ram := ?m\<rparr>" new] al(2) n(1) same_slots f [of loads] by auto
  have d: "rrun (map (\<lambda>(r, d). Lw r d new) delayed) (s\<lparr>ram := ?m, gpr := ?g1, target := ?f link_slot\<rparr>) = Inr (s\<lparr>ram := ?m, gpr := ?g2, target := ?f link_slot\<rparr>)"
    using loads_all [of delayed "s\<lparr>ram := ?m, gpr := ?g1, target := ?f link_slot\<rparr>" new] al(2) n(2) same_slots f [of delayed] g1 by auto
  have "?g1 lnk = ?f link_slot" using loaded(1) [OF _ link] distinct_loads by simp
  then have "rrun (switch_shape saves loads delayed lnk old new) s = Inr (s\<lparr>ram := ?m, gpr := ?g2, target := ?f link_slot\<rparr>)"
    using d by (simp add: switch_shape_def rrun_append stores_all [OF al(1)] l)
  moreover have "?g2 r = ?f d" if "(r, d) \<in> set saves" for r d
    using that same_slots by (intro loaded(1) [OF distinct_loads]) simp
  moreover have "?g2 r = gpr s r" if "r \<notin> fst ` set saves" for r
    using that same_slots by (intro loaded(2) [OF distinct_loads]) simp
  moreover have "?m (gpr s old + d) = gpr s r" if "(r, d) \<in> set saves" for r d by (rule stored_value [OF distinct_saves(2) that])
  moreover have "?m a = ram s a" if "\<forall>(r, d) \<in> set saves. a \<noteq> gpr s old + d" for a using that by (rule stored_elsewhere)
  ultimately show ?thesis
    by (intro exI [of _ "s\<lparr>ram := ?m, gpr := ?g2, target := ?f link_slot\<rparr>"]) (auto simp del: fold_append)
qed

end

definition mips_slots :: "(nat \<times> word32) list" where
  "mips_slots = [(29, 0), (16, 4), (17, 8), (18, 12), (19, 16), (20, 20), (21, 24), (22, 28), (23, 32), (30, 36), (31, 40)]"

definition snake_slots :: "(nat \<times> word32) list" where
  "snake_slots = [(30, 0), (3, 4), (4, 8), (5, 12), (6, 16), (7, 20), (8, 24), (9, 28), (10, 32), (11, 36), (12, 40), (13, 44), (14, 48), (15, 52), (16, 56),
     (17, 60), (18, 64), (2, 68)]"

lemma risc_shapes:
  "SWITCH_mips = switch_shape mips_slots mips_slots [] 31 4 5"
  "SWITCH_snake = switch_shape snake_slots (take 16 snake_slots @ [(2, 68)]) [(18, 64)] 2 26 25"
  by (simp_all add: SWITCH_mips_def SWITCH_snake_def switch_shape_def mips_slots_def snake_slots_def)

interpretation mips: register_switch mips_slots mips_slots "[]" 31 4 5 40
  by unfold_locales (simp_all add: mips_slots_def aligned_def)

interpretation snake: register_switch snake_slots "take 16 snake_slots @ [(2, 68)]" "[(18, 64)]" 2 26 25 68
  by unfold_locales (auto simp: snake_slots_def aligned_def)

text \<open>
  The switches of both machines store every register a procedure has to keep in the old thread and load it from the new one, whose return address
  they jump to, and change no other register and no other memory.
\<close>

theorem risc_switches:
  assumes "aligned t1" "aligned t2" "\<forall>(r, d) \<in> set slots. \<forall>(r', d') \<in> set slots. t1 + d \<noteq> t2 + d'"
    and "(slots, code, old, new, pcs) \<in> {(mips_slots, SWITCH_mips, 4, 5, 40), (snake_slots, SWITCH_snake, 26, 25, 68)}" "gpr s old = t1" "gpr s new = t2"
  shows "\<exists>s'. rrun code s = Inr s' \<and> target s' = ram s (t2 + pcs) \<and> (\<forall>(r, d) \<in> set slots. gpr s' r = ram s (t2 + d) \<and> ram s' (t1 + d) = gpr s r)
     \<and> (\<forall>r. r \<notin> fst ` set slots \<longrightarrow> gpr s' r = gpr s r) \<and> (\<forall>a. (\<forall>(r, d) \<in> set slots. a \<noteq> t1 + d) \<longrightarrow> ram s' a = ram s a)"
proof -
  consider "slots = mips_slots" "code = SWITCH_mips" "old = 4" "new = 5" "pcs = 40" | "slots = snake_slots" "code = SWITCH_snake" "old = 26" "new = 25" "pcs = 68"
    using assms(4) by auto
  then show ?thesis
  proof cases
    case 1
    with assms show ?thesis using mips.switches [of s] by (simp add: risc_shapes(1))
  next
    case 2
    with assms show ?thesis using snake.switches [of s] by (simp add: risc_shapes(2))
  qed
qed

end
