(* ===== verification/Thread_Test.thy ===== *)
theory Thread_Test
  imports Thread_Properties
begin

text \<open>
  The test of the thread system, \<^verbatim>\<open>threads/threadtest.cc\<close>: the main thread forks a second one, and both print their number and how often they
  have looped, five times, and yield in between.
\<close>

section \<open>The test\<close>

text \<open>
  The program of the two threads runs on the kernel: \<open>num\<close> is the local variable of that name of each thread, \<open>which\<close> the argument it was
  started with. A thread that is inside a kernel routine continues there; otherwise it executes the next round of its loop, and after five
  rounds \<^verbatim>\<open>SimpleThread\<close> returns and the thread finishes, the forked one in \<^verbatim>\<open>ThreadRoot\<close>, the first one at the end of \<^verbatim>\<open>main\<close>.
\<close>

record thread_test =
  kern :: thread_sys
  num :: "nat \<Rightarrow> nat"
  which :: "nat \<Rightarrow> int"
  printed :: "(int \<times> nat) list"

definition SimpleThread :: "thread_test \<Rightarrow> thread_test result" where
  "SimpleThread w = (let c = currentThread (kern w) in
     if num w c < 5
     then rbind (Yield c (kern w)) (\<lambda>k. Inr (w\<lparr>kern := k, printed := printed w @ [(which w c, num w c)], num := (num w)(c := num w c + 1)\<rparr>))
     else rbind (Finish c (kern w)) (\<lambda>k. Inr (w\<lparr>kern := k\<rparr>)))"

definition test_step :: "thread_test \<Rightarrow> thread_test result" where
  "test_step w = (let k = kern w in
     rbind (get_thread (currentThread k) k) (\<lambda>th.
     if kstack th = [] then SimpleThread w else rbind (resume k) (\<lambda>k1. Inr (w\<lparr>kern := k1\<rparr>))))"

text \<open>\<open>t\<close> is the address of the new thread object.\<close>

definition ThreadTest :: "nat \<Rightarrow> thread_sys \<Rightarrow> thread_test result" where
  "ThreadTest t k = (let c = currentThread k; k1 = k\<lparr>threads := (threads k)(t \<mapsto> Thread_new ''forked thread'' [])\<rparr> in
     rbind (Fork t [] 1 k1) (\<lambda>k2. Inr \<lparr>kern = k2, num = (\<lambda>_. 0), which = (\<lambda>_. 0)(c := 0, t := 1), printed = []\<rparr>))"

text \<open>What has been printed when the machine halts.\<close>

fun test_run :: "nat \<Rightarrow> thread_test \<Rightarrow> (int \<times> nat) list option" where
  "test_run 0 w = None"
| "test_run (Suc n) w = (case test_step w of Inl e \<Rightarrow> (if e = Halted then Some (printed w) else None) | Inr w' \<Rightarrow> test_run n w')"

text \<open>The end of \<^verbatim>\<open>Initialize\<close>, which enables interrupts, and the test, with the new thread object at address 1.\<close>

definition thread_test_output :: "nat \<Rightarrow> thread_sys \<Rightarrow> (int \<times> nat) list option" where
  "thread_test_output fuel k = (case rbind (set_level IntOn k) (ThreadTest 1) of Inl e \<Rightarrow> None | Inr w \<Rightarrow> test_run fuel w)"

text \<open>
  The thread test. On the kernel as \<^verbatim>\<open>Initialize\<close> leaves it without a timer, whatever the devices hold, the two threads take turns:
  each prints its five lines, every line of one is followed by one of the other, and then the machine halts.
\<close>

theorem thread_test_alternates:
  "thread_test_output 40 (kernel_boot rnd secs) = Some (concat (map (\<lambda>i. [(0, i), (1, i)]) [0..<5]))"
  by code_simp

end
