(* ===== verification/Sched_Order.thy ===== *)
theory Sched_Order
  imports Thread_Properties "HOL-Library.Sublist"
begin

text \<open>
  In which order threads run: every step of the kernel takes threads off the front of the ready list and puts them at its end, but for a
  parent woken from a join, which goes to the front. So no thread in the list is overtaken by one that comes after it.
\<close>

section \<open>A yield succeeds\<close>

text \<open>
  A thread can be switched away from when its stack fence is intact and, if it is a user program, its
  address space and the machine's registers exist.
\<close>

definition switchable :: "'z ksys \<Rightarrow> bool" where
  "switchable s \<longleftrightarrow> (\<forall>t th. threads s t = Some th \<longrightarrow> (tstack th = None \<or> tstack th = Some STACK_FENCEPOST)
     \<and> (\<forall>a. space th = Some a \<longrightarrow> spaces s a \<noteq> None \<and> (\<exists>m. mach s = Some m \<and> NumTotalRegs \<le> length (registers m))))"

lemma switchable_upd:
  assumes "switchable s" "threads s t = Some th" "tstack th' = tstack th" "space th' = space th"
    "threads s' = (threads s)(t \<mapsto> th')" "mach s' = mach s" "\<And>a. spaces s a \<noteq> None \<Longrightarrow> spaces s' a \<noteq> None"
  shows "switchable s'"
  using assms unfolding switchable_def by (auto split: if_splits)

lemma Run_out_total:
  assumes "switchable s" "threads s (currentThread s) = Some th" "threads s n = Some tn"
  shows "\<exists>s'. Run_out n s = Inr s' \<and> switchable s'"
proof -
  let ?c = "currentThread s"
  have f: "tstack th = None \<or> tstack th = Some STACK_FENCEPOST"
    "space th = Some a \<Longrightarrow> spaces s a \<noteq> None \<and> (\<exists>m. mach s = Some m \<and> NumTotalRegs \<le> length (registers m))" for a
    using assms(1,2) by (auto simp: switchable_def)
  have "\<exists>s2 th2. (case space th of None \<Rightarrow> Inr s | Some a \<Rightarrow> rbind (SaveUserState ?c s) (SaveState a)) = Inr s2
    \<and> switchable s2 \<and> threads s2 = (threads s)(?c \<mapsto> th2) \<and> tstack th2 = tstack th"
  proof (cases "space th")
    case None
    then show ?thesis using assms by (auto simp: fun_upd_idem intro: exI [of _ th])
  next
    case (Some a)
    with f(2) [of a] obtain sp m where m: "spaces s a = Some sp" "mach s = Some m" "NumTotalRegs \<le> length (registers m)"
      by auto
    let ?th = "th\<lparr>userRegisters := take NumTotalRegs (registers m)\<rparr>"
    let ?s2 = "s\<lparr>threads := (threads s)(?c \<mapsto> ?th)\<rparr>"
    have "rbind (SaveUserState ?c s) (SaveState a) = Inr ?s2"
      using m assms(2) by (simp add: SaveUserState_def the_machine_def upd_thread_def get_thread_def SaveState_def get_space_def)
    moreover have "switchable ?s2" by (rule switchable_upd [OF assms(1,2), of ?th]) auto
    ultimately show ?thesis using Some by auto
  qed
  then obtain s2 th2 where s2: "(case space th of None \<Rightarrow> Inr s | Some a \<Rightarrow> rbind (SaveUserState ?c s) (SaveState a)) = Inr s2"
    "switchable s2" "threads s2 = (threads s)(?c \<mapsto> th2)" "tstack th2 = tstack th" by blast
  obtain tn2 where tn: "threads s2 n = Some tn2" using s2(3) assms(3) by (cases "n = ?c") auto
  have "Run_out n s = Inr (s2\<lparr>currentThread := n, threads := (threads s2)(n \<mapsto> tn2\<lparr>tstatus := RUNNING\<rparr>)\<rparr>)"
    using s2 tn f(1) assms(2)
    by (auto simp: Run_out_def Let_def get_thread_def CheckOverflow_def setStatus_def upd_thread_def)
  moreover have "switchable (s2\<lparr>currentThread := n, threads := (threads s2)(n \<mapsto> tn2\<lparr>tstatus := RUNNING\<rparr>)\<rparr>)"
    by (rule switchable_upd [OF s2(2) tn, of "tn2\<lparr>tstatus := RUNNING\<rparr>"]) auto
  ultimately show ?thesis by blast
qed

lemma push_total:
  assumes "threads s t = Some th" "switchable s"
  shows "\<exists>s'. push_frame t fr s = Inr s' \<and> switchable s' \<and> threads s' = (threads s)(t \<mapsto> th\<lparr>kstack := fr # kstack th\<rparr>)
    \<and> currentThread s' = currentThread s \<and> readyList s' = readyList s"
proof -
  let ?th = "th\<lparr>kstack := fr # kstack th\<rparr>"
  have "switchable (s\<lparr>threads := (threads s)(t \<mapsto> ?th)\<rparr>)"
    by (rule switchable_upd [OF assms(2,1), of ?th]) simp_all
  with assms(1) show ?thesis by (simp add: push_frame_def upd_thread_def get_thread_def)
qed

lemma Yield_total:
  assumes "sched False s" "switchable s"
  shows "\<exists>s'. Yield (currentThread s) s = Inr s' \<and> switchable s'"
proof -
  let ?c = "currentThread s" and ?s = "s\<lparr>level := IntOff\<rparr>"
  obtain th where th: "threads s ?c = Some th" using current_status [OF assms(1)] by (auto simp: st_def)
  have "switchable ?s" using assms(2) by (simp add: switchable_def)
  with th obtain s1 where s1: "push_frame ?c (Yield_ret (level s)) ?s = Inr s1" "switchable s1"
    "threads s1 = (threads s)(?c \<mapsto> th\<lparr>kstack := Yield_ret (level s) # kstack th\<rparr>)" "currentThread s1 = ?c" "readyList s1 = readyList s"
    using push_total [of ?s ?c th "Yield_ret (level s)"] by auto
  have eq: "Yield ?c s = (case FindNextToRun s1 of (None, s3) \<Rightarrow> Inr s3
       | (Some n, s3) \<Rightarrow> rbind (ReadyToRun ?c s3) (Run n))"
    using s1(1) by (simp add: Yield_def SetLevel_def ChangeLevel_def)
  show ?thesis
  proof (cases "ready s")
    case Nil
    then show ?thesis using eq s1 by (auto simp: FindNextToRun_alt switchable_def)
  next
    case (Cons n rs)
    then have "st s n = Some READY" using schedD(1) [OF assms(1)] by (auto simp: ready_ok_def)
    then obtain tn where tn: "threads s n = Some tn" by (auto simp: st_def)
    let ?tc = "th\<lparr>kstack := Yield_ret (level s) # kstack th, tstatus := READY\<rparr>"
    let ?s4 = "s1\<lparr>readyList := list_append ?c (list_tl (readyList s)), threads := (threads s1)(?c \<mapsto> ?tc)\<rparr>"
    have "ReadyToRun ?c (s1\<lparr>readyList := list_tl (readyList s)\<rparr>) = Inr ?s4"
      using s1(3) by (simp add: ReadyToRun_def setStatus_def upd_thread_def get_thread_def)
    then have y: "Yield ?c s = Run n ?s4" using eq Cons s1(5) by (simp add: FindNextToRun_alt)
    have "switchable ?s4" by 
      (rule switchable_upd [OF s1(2), where t = ?c and th = "th\<lparr>kstack := Yield_ret (level s) # kstack th\<rparr>" and th' = ?tc])
      (simp_all add: s1(3))
    then obtain s5 where s5: "push_frame ?c Run_ret ?s4 = Inr s5" "switchable s5" "currentThread s5 = ?c"
      "threads s5 = (threads ?s4)(?c \<mapsto> ?tc\<lparr>kstack := Run_ret # kstack ?tc\<rparr>)"
      using push_total [of ?s4 ?c ?tc Run_ret] s1(4) by auto
    have "threads s5 n \<noteq> None" using s5(4) s1(3) tn by auto
    then show ?thesis using Run_out_total [OF s5(2)] s5 y s1(4) by (auto simp: Run_def)
  qed
qed

section \<open>What a step does to the ready list\<close>

text \<open>
  Threads that become ready go to the end of the list (\<open>appends\<close>); the first thread of the list, which may have got there in this very step, starts
  to run (\<open>dispatches\<close>); and the parent of the thread that finishes goes to the front (\<open>wakes\<close>).
\<close>

definition queued :: "nat list \<Rightarrow> nat \<Rightarrow> 'z ksys \<Rightarrow> bool" where
  "queued r c s \<longleftrightarrow> (\<exists>ts. ready s = r @ ts) \<and> currentThread s = c"

definition appends :: "'z ksys \<Rightarrow> 'z ksys \<Rightarrow> bool" where
  "appends s s' \<longleftrightarrow> queued (ready s) (currentThread s) s'"

definition dispatches :: "nat \<Rightarrow> 'z ksys \<Rightarrow> 'z ksys \<Rightarrow> bool" where
  "dispatches n s s' \<longleftrightarrow> (\<exists>ts rs us. ready s @ ts = n # rs \<and> ready s' = rs @ us) \<and> currentThread s' = n"

definition wakes :: "nat \<Rightarrow> 'z ksys \<Rightarrow> 'z ksys \<Rightarrow> bool" where
  "wakes p s s' \<longleftrightarrow> ready s' = p # ready s \<and> currentThread s' = currentThread s \<and> par s (currentThread s) = Some p"

definition turn :: "'z ksys \<Rightarrow> 'z ksys \<Rightarrow> bool" where
  "turn s s' \<longleftrightarrow> appends s s' \<or> (\<exists>n. dispatches n s s')"

lemma appends_same: "readyList s' = readyList s \<Longrightarrow> currentThread s' = currentThread s \<Longrightarrow> appends s s'"
  by (auto simp: appends_def queued_def)

lemma appends_turn: "appends s s' \<Longrightarrow> turn s s'"
  by (simp add: turn_def)

lemma appends_trans: "appends s s1 \<Longrightarrow> appends s1 s2 \<Longrightarrow> appends s s2"
  by (auto simp: appends_def queued_def)

lemma turn_after: "appends s s1 \<Longrightarrow> turn s1 s2 \<Longrightarrow> turn s s2"
  by (fastforce simp: turn_def appends_def dispatches_def queued_def)

lemma turn_before: "turn s s1 \<Longrightarrow> appends s1 s2 \<Longrightarrow> turn s s2"
  by (fastforce simp: turn_def appends_def dispatches_def queued_def)

lemma upd_thread_appends: "upd_thread t f s = Inr s' \<Longrightarrow> appends s s'"
  by (auto simp: upd_thread_Inr intro: appends_same)

lemma push_appends: "push_frame t fr s = Inr s' \<Longrightarrow> appends s s'"
  by (simp add: push_frame_def upd_thread_appends)

lemma ReadyToRun_appends: "ReadyToRun t s = Inr s' \<Longrightarrow> appends s s'"
  by (auto simp: ReadyToRun_Inr appends_def queued_def)

lemma V_core_appends: "V_core x s = Inr s' \<Longrightarrow> appends s s'"
  by (erule V_core_cases) (auto simp: appends_def queued_def view_sem)

interpretation order_kept: kept_by_kernel kernel_notify "queued r c"
proof unfold_locales
  fix e and s s' :: "'b ksys"
  assume "queued r c s" "kernel_notify e s = Inr s'"
  then show "queued r c s'"
    by (auto simp: kernel_notify_def queued_def appends_def split: option.splits dest!: V_core_appends)
next
  fix s s' :: "'b ksys"
  assume m: "device_sys.more s' = device_sys.more s"
  have "readyList s' = readyList s" "currentThread s' = currentThread s"
    using m by (cases s; cases s'; simp)+
  then show "queued r c s' = queued r c s" by (simp add: queued_def)
next
  fix s s' :: "'b ksys"
  assume "queued r c s" "machine_DelayedLoad s = Inr s'"
  then show "queued r c s'" by (auto simp: queued_def dest!: machine_DelayedLoad_step)
qed

lemma hardware_appends:
  "OneTick kernel_call s = Inr (y, s') \<Longrightarrow> appends s s'" "SetLevel kernel_call lv s = Inr (old, y, s') \<Longrightarrow> appends s s'"
  "Idle kernel_call s = Inr (go, s') \<Longrightarrow> appends s s'"
proof -
  have q: "queued (ready s) (currentThread s) s" by (simp add: queued_def)
  show "OneTick kernel_call s = Inr (y, s') \<Longrightarrow> appends s s'" "SetLevel kernel_call lv s = Inr (old, y, s') \<Longrightarrow> appends s s'"
    "Idle kernel_call s = Inr (go, s') \<Longrightarrow> appends s s'"
    unfolding appends_def by (rule order_kept.OneTick_inv [OF q] order_kept.SetLevel_inv [OF q] order_kept.Idle_inv [OF q]; assumption)+
qed

lemma SaveUserState_appends: "SaveUserState t s = Inr s' \<Longrightarrow> appends s s'"
  by (auto simp: SaveUserState_def rbind_eq_Inr split: if_splits intro: upd_thread_appends)

lemma home_same [simp]: "readyList (home s) = readyList s" "currentThread (home s) = currentThread s"
  by (simp_all add: home_def split: option.splits)

lemma RestoreState_appends: "RestoreState a s = Inr s' \<Longrightarrow> appends s s'"
  by (auto simp: RestoreState_def Let_def rbind_eq_Inr intro: appends_same)

lemma Run_order:
  assumes "Run n s = Inr s'"
  shows "ready s' = ready s" "currentThread s' = n"
proof -
  obtain s1 where s1: "push_frame (currentThread s) Run_ret s = Inr s1" "Run_out n s1 = Inr s'"
    using assms by (auto simp: Run_def rbind_eq_Inr)
  obtain s2 s3 where s2: "s2 = s1 \<or> SaveUserState (currentThread s1) s1 = Inr s2" "setStatus n RUNNING (s2\<lparr>currentThread := n\<rparr>) = Inr s'"
    using s1(2) by (auto simp: Run_out_def Let_def rbind_eq_Inr SaveState_def split: option.splits)
  have "readyList s2 = readyList s1" using s2(1) by (auto simp: SaveUserState_def rbind_eq_Inr upd_thread_Inr split: if_splits)
  then show "ready s' = ready s" "currentThread s' = n"
    using s1(1) s2(2) by (auto simp: push_frame_def setStatus_def upd_thread_Inr)
qed

lemma run_first:
  assumes "ready s = n # rs" "Run n s1 = Inr s'" "ready s1 = rs @ us"
  shows "turn s s'"
  unfolding turn_def dispatches_def using assms Run_order [OF assms(2)]
  by (intro disjI2 exI [of _ n] conjI exI [of _ "[]"] exI [of _ rs] exI [of _ us]) simp_all

lemma Yield_turn:
  assumes "Yield c s = Inr s'"
  shows "turn s s'"
proof -
  obtain s1 where c: "c = currentThread s" and s1: "push_frame c (Yield_ret (level s)) (s\<lparr>level := IntOff\<rparr>) = Inr s1"
    and rest: "(case FindNextToRun s1 of (None, s3) \<Rightarrow> Inr s3
       | (Some n, s3) \<Rightarrow> rbind (ReadyToRun c s3) (Run n)) = Inr s'"
    using assms by (auto simp: Yield_def rbind_eq_Inr SetLevel_IntOff)
  have f: "readyList s1 = readyList s" "currentThread s1 = c" using s1 c by (auto simp: push_frame_def upd_thread_Inr)
  show ?thesis
  proof (cases "ready s")
    case Nil
    then show ?thesis using rest f c by (auto simp: FindNextToRun_alt turn_def appends_def queued_def)
  next
    case (Cons n rs)
    then obtain s4 where s4: "ReadyToRun c (s1\<lparr>readyList := list_tl (readyList s1)\<rparr>) = Inr s4" "Run n s4 = Inr s'"
      using rest f by (auto simp: FindNextToRun_alt rbind_eq_Inr)
    have "ready s4 = rs @ [c]" using s4(1) f Cons by (auto simp: ReadyToRun_Inr)
    with Cons s4(2) show ?thesis by (intro run_first)
  qed
qed

lemma time_slice_turn: "time_slice y s = Inr s' \<Longrightarrow> turn s s'"
proof -
  assume t: "time_slice y s = Inr s'"
  show ?thesis
  proof (cases y)
    case True
    then obtain s1 where "push_frame (currentThread s) (Tick_ret (status s)) s = Inr s1"
      "Yield (currentThread s) (s1\<lparr>status := SystemMode\<rparr>) = Inr s'"
      using t by (auto simp: time_slice_def Let_def rbind_eq_Inr)
    moreover have "appends s1 (s1\<lparr>status := SystemMode\<rparr>)" by (rule appends_same) simp_all
    ultimately show ?thesis by (meson Yield_turn push_appends turn_after)
  qed (use t in \<open>auto simp: time_slice_def intro: appends_turn appends_same\<close>)
qed

lemma tick_turn: "tick s = Inr s' \<Longrightarrow> turn s s'"
  by (auto simp: tick_def rbind_eq_Inr intro: turn_after hardware_appends(1) time_slice_turn)

lemma set_level_turn: "set_level lv s = Inr s' \<Longrightarrow> turn s s'"
  by (auto simp: set_level_def rbind_eq_Inr intro: turn_after hardware_appends(2) time_slice_turn)

lemma sleep_round_turn:
  assumes "sleep_round s = Inr s'"
  shows "turn s s'"
proof (cases "ready s")
  case Nil
  then obtain s2 where s2: "Idle kernel_call (s\<lparr>readyList := list_tl (readyList s)\<rparr>) = Inr (True, s2)" "push_frame (currentThread s2) Sleep_loop s2 = Inr s'"
    using assms by (auto simp: sleep_round_def FindNextToRun_alt rbind_eq_Inr split: if_splits)
  have "appends s (s\<lparr>readyList := list_tl (readyList s)\<rparr>)" using Nil by (simp add: appends_def queued_def)
  then show ?thesis using hardware_appends(3) [OF s2(1)] push_appends [OF s2(2)] by (blast intro: appends_turn appends_trans)
next
  case (Cons n rs)
  then have "Run n (s\<lparr>readyList := list_tl (readyList s)\<rparr>) = Inr s'" using assms by (simp add: sleep_round_def FindNextToRun_alt)
  with Cons show ?thesis by (rule run_first [where us = "[]"]) (simp add: Cons)
qed

lemma put_sem_appends: "appends s (put_sem x sm s)"
  by (rule appends_same) (simp_all add: view_sem)

lemma Sleep_appends: "Sleep c s = Inr s' \<Longrightarrow> appends s s'"
  by (auto simp: Sleep_def rbind_eq_Inr setStatus_def intro: appends_trans upd_thread_appends push_appends)

lemma P_loop_turn: "P_loop x old s = Inr s' \<Longrightarrow> turn s s'"
  by (auto simp: P_loop_def rbind_eq_Inr Let_def split: if_splits
      intro: turn_after [OF put_sem_appends set_level_turn]
        appends_turn [OF appends_trans [OF put_sem_appends appends_trans [OF push_appends Sleep_appends]]])

lemma V_turn: "V x s = Inr s' \<Longrightarrow> turn s s'"
  by (auto simp: V_def rbind_eq_Inr intro: turn_after [OF hardware_appends(2) turn_after [OF V_core_appends set_level_turn]])

lemma P_turn: "P x s = Inr s' \<Longrightarrow> turn s s'"
  by (auto simp: P_def rbind_eq_Inr intro: turn_after [OF hardware_appends(2) P_loop_turn])

lemma Fork_turn: "Fork t func a s = Inr s' \<Longrightarrow> turn s s'"
  by (auto simp: Fork_def StackAllocate_def rbind_eq_Inr
      intro: turn_after [OF upd_thread_appends turn_after [OF hardware_appends(2) turn_after [OF ReadyToRun_appends set_level_turn]]])

lemma find_id_appends: "find_id n g f s = Inr (r, s') \<Longrightarrow> appends s s'"
proof (induction n arbitrary: f s)
  case (Suc n)
  then obtain f1 l where "find_id n g f1 (s\<lparr>activeThreads := l\<rparr>) = Inr (r, s')"
    by (auto simp: Let_def rbind_eq_Inr split: prod.splits option.splits)
  from Suc.IH [OF this] show ?case by (simp add: appends_def)
qed (auto intro: appends_same)

lemma getID_appends: "getID g s = Inr (r, s') \<Longrightarrow> appends s s'" "the_id g s = Inr (t, s') \<Longrightarrow> appends s s'"
  by (auto simp: getID_def the_id_def rbind_eq_Inr split: option.splits intro: find_id_appends)

lemma destroy_appends: "destroy_finished s = Inr s' \<Longrightarrow> appends s s'"
  by (auto simp: destroy_finished_def delete_thread_def rbind_eq_Inr split: option.splits intro!: appends_same)

lemma SC_Join_appends:
  assumes "SC_Join k s = Inr s'"
  shows "appends s s'"
  using assms
  by (auto simp: SC_Join_def Let_def rbind_eq_Inr split: if_splits option.splits
      intro: appends_same appends_trans [OF getID_appends(1) appends_trans [OF getID_appends(2) appends_trans [OF getID_appends(2)
        appends_trans [OF upd_thread_appends appends_trans [OF upd_thread_appends appends_trans [OF hardware_appends(2) Sleep_appends]]]]]]
      dest: getID_appends)

lemma push_same: "push_frame t fr s = Inr s' \<Longrightarrow> readyList s' = readyList s \<and> currentThread s' = currentThread s"
  by (auto simp: push_frame_def upd_thread_Inr)

lemma Sleep_same: "Sleep c s = Inr s' \<Longrightarrow> readyList s' = readyList s \<and> currentThread s' = currentThread s"
  by (auto simp: Sleep_def rbind_eq_Inr setStatus_def upd_thread_Inr dest!: push_same)

lemma Finish_order:
  assumes "Finish c s = Inr s'"
  shows "appends s s' \<or> (\<exists>p. wakes p s s')"
proof -
  obtain th s3 s4 where f: "c = currentThread s" "threads s c = Some th"
    "(case parent th of None \<Rightarrow> Inr (s\<lparr>level := IntOff, threadToBeDestroyed := Some c\<rparr>)
      | Some p \<Rightarrow> WakeUpFromJoin p (s\<lparr>level := IntOff, threadToBeDestroyed := Some c\<rparr>)) = Inr s3"
    "push_frame c Finish_ret (s3\<lparr>activeThreads := purge_active 0 c (activeThreads s3)\<rparr>) = Inr s4" "Sleep c s4 = Inr s'"
    using assms by (auto simp: Finish_def rbind_eq_Inr SetLevel_IntOff Let_def simp del: purge_active.simps)
  have e: "readyList s' = readyList s3" "currentThread s' = currentThread s3"
    using push_same [OF f(4)] Sleep_same [OF f(5)] by (simp_all del: purge_active.simps)
  show ?thesis
  proof (cases "parent th")
    case None
    then show ?thesis using f(3) e by (intro disjI1 appends_same) auto
  next
    case (Some p)
    then have "ready s3 = p # ready s" "currentThread s3 = currentThread s"
      using f(3) by (auto simp: WakeUpFromJoin_def rbind_eq_Inr upd_thread_Inr)
    then show ?thesis using e Some f(1,2) by (auto simp: wakes_def par_def)
  qed
qed

lemma Run_in_appends: "Run_in s = Inr s' \<Longrightarrow> appends s s'"
proof -
  have m: "appends s (s\<lparr>mach := m\<rparr>)" for s :: "'a ksys" and m by (rule appends_same) simp_all
  assume "Run_in s = Inr s'"
  then show "appends s s'"
    by (auto simp: Run_in_def RestoreUserState_def rbind_eq_Inr split: option.splits if_splits
      intro: destroy_appends appends_trans [OF destroy_appends appends_trans [OF m RestoreState_appends]])
qed

lemma processCreator_appends: "processCreator s = Inr s' \<Longrightarrow> appends s s'"
proof -
  assume "processCreator s = Inr s'"
  then obtain a s1 s2 s3 where p: "InitRegisters a s = Inr s1" "RestoreState a s1 = Inr s2" "destroy_finished s2 = Inr s3" "s' = s3\<lparr>status := UserMode\<rparr>"
    by (auto simp: processCreator_def rbind_eq_Inr split: option.splits)
  have "appends s s1" using p(1) by (auto simp: InitRegisters_def rbind_eq_Inr intro: appends_same)
  moreover have "appends s3 s'" using p(4) by (intro appends_same) simp_all
  ultimately show ?thesis using RestoreState_appends [OF p(2)] destroy_appends [OF p(3)] by (blast intro: appends_trans)
qed

lemma resume_turn:
  assumes "resume s = Inr s'"
  shows "turn s s'"
proof -
  obtain th where th: "threads s (currentThread s) = Some th" using assms by (auto simp: resume_def Let_def rbind_eq_Inr)
  show ?thesis
  proof (cases "kstack th")
    case Nil
    then show ?thesis using assms th by (auto simp: resume_def get_thread_def intro: appends_turn appends_same)
  next
    case (Cons fr frs)
    define s1 where "s1 = s\<lparr>threads := (threads s)(currentThread s \<mapsto> th\<lparr>kstack := frs\<rparr>)\<rparr>"
    have r: "(case fr of Start a \<Rightarrow> set_level IntOn s1 | Run_ret \<Rightarrow> Run_in s1 | Yield_ret old \<Rightarrow> set_level old s1
         | Tick_ret m \<Rightarrow> Inr (s1\<lparr>status := m\<rparr>) | Sleep_loop \<Rightarrow> sleep_round s1
         | P_retry x old \<Rightarrow> P_loop x old s1 | Finish_ret \<Rightarrow> Inr s1
         | Restore_space \<Rightarrow> (case space th of None \<Rightarrow> Inl Null_Deref | Some a \<Rightarrow> RestoreState a s1)
         | User_ret \<Rightarrow> tick (s1\<lparr>status := UserMode\<rparr>) | Process_start \<Rightarrow> processCreator s1) = Inr s'"
      unfolding s1_def using assms th Cons by (simp add: resume_def Let_def get_thread_def upd_thread_def)
    have m: "appends s s1" "appends s1 (s1\<lparr>status := m\<rparr>)" for m by (rule appends_same; simp add: s1_def)+
    have "turn s1 s'" using r m(2) appends_same [of s1 s1] turn_after [OF m(2) tick_turn]
      by (cases fr) (auto intro: appends_turn set_level_turn Run_in_appends sleep_round_turn P_loop_turn RestoreState_appends processCreator_appends
          split: option.splits)
    with m(1) show ?thesis by (rule turn_after)
  qed
qed

lemma more_same: "device_sys.more s' = device_sys.more s \<Longrightarrow> readyList s' = readyList s \<and> currentThread s' = currentThread s"
  by (cases s; cases s'; simp)

lemma kstep_order:
  assumes "kstep s s'"
  shows "appends s s' \<or> (\<exists>n. dispatches n s s') \<or> (\<exists>p. wakes p s s')"
proof -
  have "turn s s' \<or> (\<exists>p. wakes p s s')"
    using assms
  proof cases
    case finish
    then show ?thesis using Finish_order by (blast intro: appends_turn)
  next
    case device
    then show ?thesis using more_same by (blast intro: appends_turn appends_same)
  next
    case new_thread
    then show ?thesis by (intro disjI1 appends_turn appends_same) simp_all
  next
    case activate
    then show ?thesis by (intro disjI1 appends_turn appends_same) simp_all
  qed (auto intro: resume_turn Yield_turn tick_turn P_turn V_turn set_level_turn Fork_turn appends_turn SC_Join_appends destroy_appends
      appends_same put_sem_appends)
  then show ?thesis by (auto simp: turn_def)
qed

section \<open>Executions\<close>

text \<open>An execution, with the threads that were dispatched, in order, and the parents that were woken from a join.\<close>

inductive turns :: "nat list \<Rightarrow> nat list \<Rightarrow> 'z ksys \<Rightarrow> 'z ksys \<Rightarrow> bool" where
  none: "turns [] [] s s"
| append: "turns ds ws s s1 \<Longrightarrow> kstep s1 s2 \<Longrightarrow> appends s1 s2 \<Longrightarrow> turns ds ws s s2"
| dispatch: "turns ds ws s s1 \<Longrightarrow> kstep s1 s2 \<Longrightarrow> dispatches n s1 s2 \<Longrightarrow> turns (ds @ [n]) ws s s2"
| wake: "turns ds ws s s1 \<Longrightarrow> kstep s1 s2 \<Longrightarrow> wakes p s1 s2 \<Longrightarrow> turns ds (ws @ [p]) s s2"

lemma execution_turns: "kstep\<^sup>*\<^sup>* s s' \<Longrightarrow> \<exists>ds ws. turns ds ws s s'"
proof (induction rule: rtranclp_induct)
  case base
  show ?case using turns.none by blast
next
  case (step s1 s2)
  then obtain ds ws where t: "turns ds ws s s1" by blast
  from kstep_order [OF step.hyps(2)] show ?case using turns.intros(2-4) [OF t step.hyps(2)] by blast
qed

text \<open>
  What is left of the ready list of \<open>s\<close> after \<open>i\<close> of its threads have been dispatched: woken parents \<open>us\<close> come before it, new threads after it.
\<close>

lemma turns_left:
  assumes "turns ds ws s s'"
  shows "\<exists>i us ts. i \<le> length (ready s) \<and> ready s' = us @ drop i (ready s) @ ts \<and> subseq (take i (ready s)) ds
    \<and> (length ds + length us = i + length ws \<or> i = length (ready s))"
  using assms
proof (induction rule: turns.induct)
  case (none s)
  show ?case by (intro exI [of _ 0] exI [of _ "[]"]) simp
next
  case (append ds ws s s1 s2)
  then show ?case by (fastforce simp: appends_def queued_def)
next
  case (wake ds ws s s1 s2 p)
  then obtain i us ts where "i \<le> length (ready s)" "ready s1 = us @ drop i (ready s) @ ts" "subseq (take i (ready s)) ds"
    "length ds + length us = i + length ws \<or> i = length (ready s)" by blast
  then show ?case using wake.hyps(3) by (intro exI [of _ i] exI [of _ "p # us"] exI [of _ ts]) (auto simp: wakes_def)
next
  case (dispatch ds ws s s1 s2 n)
  then obtain i us ts where i: "i \<le> length (ready s)" "ready s1 = us @ drop i (ready s) @ ts" "subseq (take i (ready s)) ds"
    "length ds + length us = i + length ws \<or> i = length (ready s)" by blast
  obtain ts' rs us' where d: "ready s1 @ ts' = n # rs" "ready s2 = rs @ us'" using dispatch.hyps(3) by (auto simp: dispatches_def)
  have ds: "subseq (take i (ready s)) (ds @ [n])" using i(3) by (rule list_emb_prefix)
  show ?case
  proof (cases us)
    case (Cons u us1)
    then show ?thesis using i d ds by (intro exI [of _ i] exI [of _ us1] exI [of _ "ts @ ts' @ us'"]) auto
  next
    case Nil
    show ?thesis
    proof (cases "i = length (ready s)")
      case True
      then show ?thesis using d ds by (intro exI [of _ i] exI [of _ "[]"] exI [of _ "rs @ us'"]) simp
    next
      case False
      then have lt: "i < length (ready s)" using i(1) by simp
      note c = Cons_nth_drop_Suc [OF this, symmetric]
      have "n = ready s ! i" "rs = drop (Suc i) (ready s) @ ts @ ts'" using d(1) i(2) Nil c by simp_all
      moreover have "subseq (take i (ready s) @ [ready s ! i]) (ds @ [ready s ! i])" using i(3) by (intro list_emb_append_mono) simp_all
      ultimately show ?thesis using lt i(4) Nil d(2) False
        by (intro exI [of _ "Suc i"] exI [of _ "[]"] exI [of _ "ts @ ts' @ us'"]) (simp add: take_Suc_conv_app_nth)
    qed
  qed
qed

lemma turns_in_order:
  assumes "turns ds ws s s'" "ws = []"
  shows "(\<exists>ts. ready s' = drop (length ds) (ready s) @ ts) \<and> take (length (ready s)) ds = take (length ds) (ready s)"
  using assms
proof (induction rule: turns.induct)
  case (append ds ws s s1 s2)
  then show ?case by (fastforce simp: appends_def queued_def)
next
  case (dispatch ds ws s s1 s2 n)
  then obtain ts where i: "ready s1 = drop (length ds) (ready s) @ ts" "take (length (ready s)) ds = take (length ds) (ready s)" by blast
  obtain ts' rs us' where d: "ready s1 @ ts' = n # rs" "ready s2 = rs @ us'" using dispatch.hyps(3) by (auto simp: dispatches_def)
  show ?case
  proof (cases "length ds < length (ready s)")
    case True
    note c = Cons_nth_drop_Suc [OF True, symmetric]
    have "n = ready s ! length ds" "rs = drop (Suc (length ds)) (ready s) @ ts @ ts'" using d(1) i(1) c by simp_all
    moreover have "ds = take (length ds) (ready s)" using i(2) True by simp
    ultimately show ?thesis using d(2) True by (simp add: take_Suc_conv_app_nth)
  qed (use i(2) in simp)
qed simp_all

text \<open>
  C14: round robin. In a reachable state whose current thread has nothing to return from, and in which no stack has overflowed and the address
  spaces of user threads exist, a yield succeeds: the first ready thread runs and the caller becomes the last one. Every execution is a sequence of dispatches from the
  front of the ready list, of additions at its end, and of parents that a finishing child puts at its front; so the thread at position \<open>k\<close> has run, and
  all that were before it, when more than \<open>k\<close> dispatches have happened besides as many as there were such parents, and without any the ready threads run
  exactly in their order.
\<close>

theorem yield_round_robin:
  assumes "kreach s"
  shows "(stk s (currentThread s) = [] \<and> switchable s \<longrightarrow>
      (\<exists>s'. Yield (currentThread s) s = Inr s' \<and> kstep s s' \<and> currentThread s' # ready s' = ready s @ [currentThread s]))
    \<and> (\<forall>s'. kstep\<^sup>*\<^sup>* s s' \<longrightarrow> (\<exists>ds ws. turns ds ws s s'))
    \<and> (\<forall>ds ws s'. turns ds ws s s' \<longrightarrow>
        (\<forall>k < length (ready s). k + length ws < length ds \<longrightarrow> subseq (take (Suc k) (ready s)) ds)
        \<and> (ws = [] \<longrightarrow> take (length (ready s)) ds = take (length ds) (ready s)))"
proof -
  have y: "\<exists>s'. Yield (currentThread s) s = Inr s' \<and> kstep s s' \<and> currentThread s' # ready s' = ready s @ [currentThread s]"
    if e: "stk s (currentThread s) = []" "switchable s"
  proof -
    have ok: "sched False s" by (rule not_asleep [OF kreach_ok [OF assms] e(1)])
    obtain s' where "Yield (currentThread s) s = Inr s'" using Yield_total [OF ok e(2)] by blast
    with sched_Yield [OF ok this] kstep.yield [OF e(1) this] show ?thesis by blast
  qed
  have o: "subseq (take (Suc k) (ready s)) ds" if t: "turns ds ws s s'" and k: "k < length (ready s)" "k + length ws < length ds" for ds ws s' k
  proof -
    obtain i and us :: "nat list" where i: "i \<le> length (ready s)" "subseq (take i (ready s)) ds" "length ds + length us = i + length ws \<or> i = length (ready s)"
      using turns_left [OF t] by (elim exE conjE) (rule that)
    then have "Suc k \<le> i" using k by linarith
    then have "prefix (take (Suc k) (ready s)) (take i (ready s))" using take_is_prefix [of "Suc k" "take i (ready s)"] by (simp only: take_take min_absorb1)
    then show ?thesis by (rule subseq_order.trans [OF prefix_imp_subseq i(2)])
  qed
  have "take (length (ready s)) ds = take (length ds) (ready s)" if "turns ds [] s s'" for ds s'
    using turns_in_order [OF that] by blast
  with y o execution_turns show ?thesis by blast
qed

text \<open>Main forks two threads; when it yields and the first of them yields in turn, both have run, in their order.\<close>

definition two_threads :: thread_sys where
  "two_threads = (let s = kernel_boot (\<lambda>_. 0) (\<lambda>_. []); s1 = s\<lparr>threads := (threads s)(1 \<mapsto> Thread_new ''one'' [])\<rparr>
     in s1\<lparr>threads := (threads s1)(2 \<mapsto> Thread_new ''two'' [])\<rparr>)"

lemma two_threads_reach: "kreach two_threads"
proof -
  let ?s = "kernel_boot (\<lambda>_. 0) (\<lambda>_. [])"
  let ?s1 = "?s\<lparr>threads := (threads ?s)(1 \<mapsto> Thread_new ''one'' [])\<rparr>"
  have "kstep ?s ?s1" by (rule kstep.new_thread) (simp_all add: kernel_boot_defs stk_def)
  moreover have "kstep ?s1 two_threads"
    unfolding two_threads_def Let_def by (rule kstep.new_thread) (simp_all add: kernel_boot_defs stk_def)
  ultimately show ?thesis using kreach.boot kreach.step by blast
qed

definition idle_stack :: "'z ksys \<Rightarrow> bool" where
  "idle_stack s \<longleftrightarrow> stk s (currentThread s) = []"

lemma two_threads_run:
  "case Fork 1 [] 0 two_threads of Inl e \<Rightarrow> False | Inr s3 \<Rightarrow> idle_stack s3 \<and> st s3 2 = Some JUST_CREATED \<and>
     (case Fork 2 [] 0 s3 of Inl e \<Rightarrow> False | Inr s4 \<Rightarrow> idle_stack s4 \<and> ready s4 = [1, 2] \<and>
       (case Yield (currentThread s4) s4 of Inl e \<Rightarrow> False | Inr s5 \<Rightarrow> \<not> idle_stack s5 \<and> ready s5 = [2, 0] \<and> currentThread s5 = 1 \<and>
         (case resume s5 of Inl e \<Rightarrow> False | Inr s6 \<Rightarrow> idle_stack s6 \<and> ready s6 = [2, 0] \<and> currentThread s6 = 1 \<and>
           (case Yield (currentThread s6) s6 of Inl e \<Rightarrow> False | Inr s7 \<Rightarrow> ready s7 = [0, 1] \<and> currentThread s7 = 2))))"
  by code_simp

theorem yield_round_robin_witness:
  "\<exists>s s'. kreach s \<and> ready s = [1, 2] \<and> turns [1, 2] [] s s' \<and> currentThread s' = 2 \<and> subseq (take (Suc 1) (ready s)) [1, 2]"
proof -
  obtain s3 s4 s5 s6 s7 where f: "Fork 1 [] 0 two_threads = Inr s3" "idle_stack s3" "st s3 2 = Some JUST_CREATED"
    "Fork 2 [] 0 s3 = Inr s4" "idle_stack s4" "ready s4 = [1, 2]"
    "Yield (currentThread s4) s4 = Inr s5" "\<not> idle_stack s5" "ready s5 = [2, 0]" "currentThread s5 = 1"
    "resume s5 = Inr s6" "idle_stack s6" "ready s6 = [2, 0]" "currentThread s6 = 1"
    "Yield (currentThread s6) s6 = Inr s7" "ready s7 = [0, 1]" "currentThread s7 = 2"
    using two_threads_run by (auto split: sum.splits)
  note k = f(2,5,8,12) [unfolded idle_stack_def]
  have "stk two_threads (currentThread two_threads) = []" "st two_threads 1 = Some JUST_CREATED"
    by (simp_all add: two_threads_def Let_def kernel_boot_defs stk_def st_def)
  then have "kstep two_threads s3" by (rule kstep.fork [OF _ _ _ f(1)]) simp
  moreover have "kstep s3 s4" by (rule kstep.fork [OF k(1) f(3) _ f(4)]) simp
  ultimately have r: "kreach s4" using two_threads_reach kreach.step by blast
  have "turns ([] @ [1]) [] s4 s5"
    by (rule turns.dispatch [OF turns.none kstep.yield [OF k(2) f(7)]]) (auto simp: dispatches_def f)
  then have "turns ([] @ [1]) [] s4 s6"
    by (rule turns.append [OF _ kstep.resume [OF k(3) f(11)]]) (simp add: appends_def queued_def f)
  then have "turns (([] @ [1]) @ [2]) [] s4 s7"
    by (rule turns.dispatch [OF _ kstep.yield [OF k(4) f(15)]]) (auto simp: dispatches_def f)
  then have t: "turns [1, 2] [] s4 s7" by simp
  have "subseq (take (Suc 1) (ready s4)) [1, 2]"
    by (rule yield_round_robin [OF r, THEN conjunct2, THEN conjunct2, rule_format, OF t, THEN conjunct1, rule_format]) (simp_all add: f)
  with r t f(6,17) show ?thesis by (intro exI conjI)
qed

end
