(* ===== verification/Spec2Isabelle.thy ===== *)
theory Spec2Isabelle
  imports Coff_Flat Two_Processes Mail_Test Interp_Start Machine_Debug Disassembler Stack_Examples Context_Switch Thread_Test Sched_Order
begin

text \<open>
  A verification development of Nachos 3.4, the instructional operating system whose C++ sources are under
  \<^verbatim>\<open>src/nachos-3.4/code\<close> (all paths below are relative to it). Nachos runs a kernel in a UNIX process
  on top of a simulated machine: a MIPS processor, a clock with interrupts, a disk, a console and a network.

  \<^bold>\<open>How the parts fit together.\<close> The linked list (\<^verbatim>\<open>threads/list.cc\<close>) carries every queue of the kernel. The
  interrupt simulator keeps the pending interrupts in such a list and advances the clock at every instruction and every time
  interrupts are enabled; the devices put interrupts into it and call back the kernel. The thread system (threads,
  scheduler, semaphores) is called from the kernel and from these callbacks. The file system stands on whole sectors of
  the disk. User programs run on the simulated processor; their exceptions enter the kernel, which builds
  address spaces, handles page faults and serves system calls.

  \<^bold>\<open>Conventions.\<close> A function of the source is a function of the state; a failed \<^verbatim>\<open>ASSERT\<close>, the
  use of a null or dangling pointer, an index outside an array, signed overflow, and the end of the process are
  the error values \<open>nerror\<close> of \<open>Nachos_Prelude\<close> (\<open>Inl\<close>), a normal return is \<open>Inr\<close>. Machine words are
  \<open>32 word\<close>, bytes \<open>8 word\<close>. An \<^verbatim>\<open>int\<close> variable of the host is \<open>int\<close>, with \<open>int_add\<close>, which fails on overflow, where
  sizes, positions and thread numbers are added up. The counters of the statistics and with them the clock, the times of interrupts, the value of a semaphore and the
  length of a list are integers without a bound: the model is that of a run in which they stay below two to the 31st, and \<open>counters_fit\<close> says when the clock does. A context switch cannot be written as a function call: a thread's kernel stack is the list
  \<open>kstack\<close> of frames that say how its suspended kernel call goes on, \<open>SWITCH\<close> changes \<open>currentThread\<close> and
  \<open>resume\<close> continues the top frame. What the source leaves open is a parameter: addresses and contents of fresh memory
  (\<open>garbage\<close>, \<open>junk\<close>, \<open>unspecified\<close>, \<open>heap\<close>), random numbers, files and terminal input of the host.

  \<^bold>\<open>The theories and what they model.\<close>
  \<^item> \<open>Nachos_Prelude\<close>: errors and sequencing, array access, \<^verbatim>\<open>threads/utility.h\<close>, bytes of words.
  \<^item> \<open>Linked_List\<close>: \<^verbatim>\<open>threads/list.cc\<close> on an explicit heap of cells, and the same operations on lists of items
    (\<open>nlist\<close>), which all other theories use. The locale \<open>list_ops\<close> is the interface; both models are instances of it.
  \<^item> \<open>Bit_Map\<close>: \<^verbatim>\<open>userprog/bitmap.cc\<close>; the locale \<open>allocator\<close> is what the free map and the frame map rely on.
  \<^item> \<open>Machine_State\<close>: \<^verbatim>\<open>machine/machine.cc\<close>, \<^verbatim>\<open>machine/translate.cc\<close>: registers, byte order, translation, memory.
  \<^item> \<open>Mips_Decode\<close>, \<open>Mips_Exec\<close>: \<^verbatim>\<open>machine/mipssim.cc\<close>: decoding, multiplication, one instruction.
  \<^item> \<open>Interrupt_Sim\<close>: \<^verbatim>\<open>machine/interrupt.cc\<close>, \<^verbatim>\<open>machine/stats.cc\<close>, over a call of handlers that the locales
    \<open>device_handlers\<close> and \<open>kept_by_handlers\<close> describe.
  \<^item> \<open>Devices\<close>: \<^verbatim>\<open>machine/timer.cc\<close>, \<^verbatim>\<open>machine/disk.cc\<close>, \<^verbatim>\<open>machine/console.cc\<close>, \<^verbatim>\<open>machine/network.cc\<close>, over the callbacks of the kernel
    (\<open>kernel_callbacks\<close>, \<open>kept_by_kernel\<close>).
  \<^item> \<open>Thread_System\<close>: \<^verbatim>\<open>threads/thread.cc\<close>, \<^verbatim>\<open>threads/scheduler.cc\<close>, the semaphores of \<^verbatim>\<open>threads/synch.cc\<close>, the Join system call
    and the callbacks of \<^verbatim>\<open>threads/system.cc\<close>; it gives the callbacks the locales ask for.
  \<^item> \<open>Sched_Inv\<close>, \<open>Thread_Properties\<close>: the invariant of the scheduler, kept by every operation and every interrupt, and its consequences.
  \<^item> \<open>Sched_Order\<close>: the order of the ready list along executions (\<open>turns\<close>).
  \<^item> \<open>File_Header\<close>, \<open>Open_File\<close>, \<open>Dir_Table\<close>, \<open>File_System\<close>, \<open>File_System_Properties\<close>: \<^verbatim>\<open>filesys/*.cc\<close>, with the locales \<open>byte_file\<close> and \<open>name_table\<close>.
  \<^item> \<open>Addr_Space\<close>, \<open>User_Process\<close>: \<^verbatim>\<open>userprog/addrspace.cc\<close>, \<^verbatim>\<open>userprog/exception.cc\<close>, \<^verbatim>\<open>userprog/progtest.cc\<close>, the stub file system.
  \<^item> \<open>User_Sched\<close>, \<open>User_Memory\<close>, \<open>User_Isolation\<close>, \<open>User_Properties\<close>: the step relation \<open>ustep\<close> of the whole system with user
    programs, its scheduler invariant, and the memory of processes; \<open>pstep\<close> are the steps that load only files in Nachos object format.
  \<^item> \<open>Two_Processes\<close>: a run of two processes, the first of which starts the second.
  \<^item> \<open>Synch_Objects\<close>, \<open>Post_Office\<close>: the dummy locks and conditions of \<^verbatim>\<open>threads/synch.cc\<close>, \<^verbatim>\<open>threads/synchlist.cc\<close>,
    \<^verbatim>\<open>filesys/synchdisk.cc\<close>, the console test, and \<^verbatim>\<open>network/post.cc\<close>, over the thread system and the devices.
  \<^item> \<open>File_Test\<close>: the commands of \<^verbatim>\<open>filesys/fstest.cc\<close> over the file system.
  \<^item> \<open>Coff_Noff\<close>: the converter \<^verbatim>\<open>bin/coff2noff.c\<close> from object files to Nachos executables; the end of this theory puts it together with
    the address spaces.
  \<^item> \<open>File_Dump\<close>: the debugging dump of the file system, \<^verbatim>\<open>Print\<close> of \<^verbatim>\<open>filesys/filehdr.cc\<close>, \<^verbatim>\<open>filesys/directory.cc\<close> and \<^verbatim>\<open>filesys/filesys.cc\<close>.
  \<^item> \<open>Command_Line\<close>: the options of \<^verbatim>\<open>Initialize\<close> in \<^verbatim>\<open>threads/system.cc\<close> and the loop of \<^verbatim>\<open>threads/main.cc\<close>; whole runs of the file commands,
    from the argument list and the disk to the disk and what was printed.
  \<^item> \<open>Mips_Interp\<close>, \<open>Mips_Agree\<close>: the interpreter of object files, \<^verbatim>\<open>bin/execute.c\<close> and \<^verbatim>\<open>bin/system.c\<close>, and its comparison with the kernel's simulator; \<open>Interp_Start\<close>: the arguments it leaves on the stack of the program, and \<^verbatim>\<open>ilog2\<close>.
  \<^item> \<open>Stack_Examples\<close>: the stacks of \<^verbatim>\<open>c++example\<close> (beside \<^verbatim>\<open>code\<close>); the abstract class is the locale \<open>stack_class\<close>, which both implementations interpret.
  \<^item> \<open>Disassembler\<close>: the disassembler \<^verbatim>\<open>bin/d.c\<close> with \<^verbatim>\<open>bin/opstrings.c\<close>, and the trace of the kernel's simulator.
  \<^item> \<open>Coff_Flat\<close>: the converter \<^verbatim>\<open>bin/coff2flat.c\<close> to memory images.
  \<^item> \<open>Context_Switch\<close>: the assembly of \<^verbatim>\<open>threads/switch.c\<close>, instruction by instruction, with the stack that \<^verbatim>\<open>StackAllocate\<close> prepares; the locale
    \<open>register_switch\<close> is what the switches of MIPS and PA-RISC have in common.
  \<^item> \<open>Thread_Test\<close>: the program \<^verbatim>\<open>threads/threadtest.cc\<close>, run on the kernel; \<open>Mail_Test\<close>: \<^verbatim>\<open>network/nettest.cc\<close>, over the post office.
  \<^item> \<open>Machine_Debug\<close>: the single-step debugger and the check of the byte order in \<^verbatim>\<open>machine/machine.cc\<close>.

  \<^bold>\<open>What the lemmas show.\<close> The heap list refines lists of items and touches no other list. The bitmap is a set. Translation
  succeeds exactly when it should and a user program changes only memory its tables map writable. The multiplication is exact. A
  clock tick ends and calls the routine of every interrupt that is due. In every reachable state of the threads the ready list, the
  statuses, the semaphore queues and the joins agree; no wake-up is lost, a finished thread never runs, and ready threads run in their order.
  The file system is a map from names to contents in which no sector is used twice. User programs keep the scheduler's
  invariant, do not reach each other's pages until an address space is deleted or a file that is no program is loaded, and page faults deliver the program's bytes.
  Files survive a restart, the dump shows them all, and the two simulators of the processor agree but for overflow and the listed instructions.
  The assembly of the context switch is what the kernel's model takes it for: a switch is invisible to the thread that is switched, and a new thread runs its
  procedure. The thread test prints what it should.
  Several theorems state a defect of the code precisely; the manifest lists them.

  \<^bold>\<open>Bounds and fuel.\<close> Walks over linked cells get the number of allocated cells as fuel, which an acyclic list
  cannot exceed. \<open>fire_due\<close> gets one more than the number of pending interrupts: a handler schedules only later than
  now, so each round removes one (\<open>one_tick_fires_due\<close>). \<open>write_loop\<close> gets two reads for each of the 501
  characters it can look at: enough unless the frames run out, when the code does not end either (\<open>write_terminates\<close>). \<open>exec_name\<close> needs
  none: the array of 100 characters bounds it. \<open>print_loop\<close> gets one round more than the file has bytes (\<open>copy_then_print\<close>). \<open>pop_loop\<close>, \<open>fill_loop\<close>
  and \<open>Cell_delete\<close> get one more than the elements of the stack (\<open>self_test_lifo\<close>), \<open>test_run\<close> forty steps (\<open>thread_test_alternates\<close>). Loops over arrays recurse on the distance to the end. The relations \<open>kstep\<close>, \<open>ustep\<close> and
  \<open>fs_step\<close> are inductive, so that their theorems hold for runs of any length.

  \<^bold>\<open>Not modelled.\<close> Output to the terminal and debugging messages; register windows and \<^verbatim>\<open>ThreadRoot\<close> of the machines other than the 386 in
  \<^verbatim>\<open>threads/switch.c\<close>; the parts of \<^verbatim>\<open>machine/sysdep.cc\<close> that only call the host; \<^verbatim>\<open>bin/main.c\<close>, \<^verbatim>\<open>bin/disasm.c\<close> and \<^verbatim>\<open>bin/out.c\<close>, which read object files with
  libraries and headers of the host; the user programs under \<^verbatim>\<open>test\<close>.
\<close>

section \<open>From the compiler's output to a process\<close>

lemma read_header_converted:
  assumes "mach s = Some m" "host_files s exe = Some out" "NoffHeader_size \<le> length out"
    "noffMagic (bytes_NoffHeader (hostBigEndian m) (take NoffHeader_size out)) = NOFFMAGIC"
  shows "read_header env exe s = Inr (bytes_NoffHeader (hostBigEndian m) (take NoffHeader_size out))"
proof -
  have "stub_ReadAt exe (new_chars (junk env) (int NoffHeader_size)) (int NoffHeader_size) 0 s = Inr (take NoffHeader_size out)"
    using assms(2,3) by (simp add: stub_ReadAt_def Lseek_def file_content_def new_chars_def min_absorb2)
  then show ?thesis using assms(1,4) by (simp add: read_header_def the_machine_def)
qed

text \<open>
  C23: from object file to address space. What \<^verbatim>\<open>coff2noff\<close> writes is accepted by the kernel of a machine with the same
  byte order: the address space is built with the pages the header asks for, and its swap file holds the output of
  the tool after the header. In it every section of the object file that is not empty has its place: the code is the last section of code, the
  initialized data the only section of data, each with its bytes and its address where the header says, and the uninitialized data is as large
  as all such sections together.
\<close>

theorem converted_program_is_loaded:
  assumes "coff2noff (hostBigEndian m) stack bs = Inr out" "mach s = Some m" "host_files s exe = Some out"
    "space_size (bytes_NoffHeader (hostBigEndian m) (take NoffHeader_size out)) = Inr sz"
    "divRoundUp (unat sz) PageSize * PageSize < 2 ^ 31" "bm_wf (bitMap s)"
    "\<not> host_denies s (swap_name tid)" "swap_name tid \<noteq> exe"
  shows "\<exists>h w sp s' pt swapped. bytes_NoffHeader (hostBigEndian m) (take NoffHeader_size out) = h
    \<and> drop NoffHeader_size out = w
    \<and> segments_of bs (coff_sections (hostBigEndian m) bs) h w
    \<and> AddrSpace_new env exe tid s = Inr (sp, s') \<and> numPages sp = divRoundUp (unat sz) PageSize
    \<and> as_pageTable sp = Some pt \<and> length pt = numPages sp \<and> (\<forall>e \<in> set pt. \<not> valid e)
    \<and> swapFileName sp = Some (swap_name tid) \<and> s' = s\<lparr>host_files := (host_files s)(swap_name tid \<mapsto> swapped)\<rparr>
    \<and> length swapped = numPages sp * PageSize \<and> take (length w) swapped = take (length swapped) w"
proof -
  obtain h w where o: "out = put_NoffHeader (hostBigEndian m) h @ w"
    "bytes_NoffHeader (hostBigEndian m) (take NoffHeader_size out) = h" "noffMagic h = NOFFMAGIC"
    "segments_of bs (coff_sections (hostBigEndian m) bs) h w"
    by (rule coff2noff_output [OF assms(1)])
  have w: "drop NoffHeader_size out = w" "NoffHeader_size \<le> length out" using o(1) by simp_all
  have h: "read_header env exe s = Inr h" using read_header_converted [OF assms(2,3) w(2)] o(2,3) by simp
  have "take (length w) (swap_image env n out) = take n w" for n
    using w(1) by (simp add: swap_image_def Let_def min_def)
  then show ?thesis
    using AddrSpace_new_works [OF h o(3) assms(4) [unfolded o(2)] assms(5-8,3)] o(2,4) w(1)
    by (auto simp: new_table_def)
qed

theorem converted_program_is_loaded_witness:
  "\<exists>out (s :: user_sys) sp s' sec. coff2noff False demo_stack demo_coff = Inr out \<and> AddrSpace_new demo_env [112] 0 s = Inr (sp, s') \<and> numPages sp = 5
     \<and> s_size sec = 4 \<and> section_in demo_coff sec (initData (bytes_NoffHeader False (take NoffHeader_size out))) [1, 2, 3, 4, 5, 6, 7, 8]"
proof -
  obtain out where out: "coff2noff False demo_stack demo_coff = Inr out" "drop NoffHeader_size out = [1, 2, 3, 4, 5, 6, 7, 8]"
    "space_size (bytes_NoffHeader False (take NoffHeader_size out)) = Inr 1032" using demo_conversion(1) by (auto split: sum.splits)
  obtain sec where sec: "data_sections (coff_sections False demo_coff) = [sec]" "s_size sec = 4" using demo_conversion(2) by auto
  obtain s where s: "demo_boot = Inr s" using demo_boots by blast
  let ?s = "s\<lparr>host_files := [[112] \<mapsto> out]\<rparr>" and ?m = "Machine_new False False False 0"
  have z: "divRoundUp (unat (1032 :: word32)) PageSize = 5" by (simp add: divRoundUp_def size_defs)
  have f: "mach ?s = Some ?m" "bm_wf (bitMap ?s)" "\<not> host_denies ?s (swap_name 0)" "hostBigEndian ?m = False" "swap_name 0 \<noteq> [112]"
    using demo_fields [OF s] by (simp_all add: Machine_new_def swap_name_def)
  note c = converted_program_is_loaded [of ?m demo_stack demo_coff out ?s "[112]" 1032 0 demo_env, unfolded f(4) out(2) z, OF out(1) f(1) _ out(3) _ f(2,3,5)]
  obtain sp s' where "AddrSpace_new demo_env [112] 0 ?s = Inr (sp, s')" "numPages sp = 5"
    "segments_of demo_coff (coff_sections False demo_coff) (bytes_NoffHeader False (take NoffHeader_size out)) [1, 2, 3, 4, 5, 6, 7, 8]"
    using c by (auto simp: size_defs)
  moreover from this(3) have "section_in demo_coff sec (initData (bytes_NoffHeader False (take NoffHeader_size out))) [1, 2, 3, 4, 5, 6, 7, 8]"
    by (simp add: segments_of_def sec(1))
  ultimately show ?thesis using out(1) sec(2) by blast
qed


end
